(* ===== verification/Prelude.thy ===== *)
theory Prelude
  imports Main "HOL-Library.Word" "HOL-Library.Char_ord" "HOL-Library.List_Lexorder"
begin

section \<open>Prelude: types, error plumbing and list lemmas shared by all components\<close>

text \<open>
  Machine integers keep their width (\<open>u8\<close> .. \<open>u64\<close>). A Rust \<open>String\<close> is the HOL \<open>string\<close> of
  its bytes (a \<open>char\<close> is one byte). A fallible function returns a sum, \<open>Inl\<close> the error;
  \<open>tryR\<close> is the \<open>?\<close> operator, \<open>mapR\<close> is \<open>collect::<Result<Vec<_>>>()\<close>.
\<close>

type_synonym u8 = "8 word"
type_synonym u16 = "16 word"
type_synonym u32 = "32 word"
type_synonym u64 = "64 word"
type_synonym bytes = "u8 list"

named_theorems codec_simps \<open>round-trip facts of the byte codecs\<close>
named_theorems res_simps \<open>evaluation of the error plumbing\<close>

declare add_2_eq_Suc [simp del] add_2_eq_Suc' [simp del]

subsection \<open>The error plumbing\<close>

definition tryR :: "'e + 'a \<Rightarrow> ('a \<Rightarrow> 'e + 'b) \<Rightarrow> 'e + 'b" where
  "tryR r f = (case r of Inl e \<Rightarrow> Inl e | Inr v \<Rightarrow> f v)"

lemma tryR_Inl [simp, res_simps]: "tryR (Inl e) f = Inl e"
  by (simp add: tryR_def)

lemma tryR_Inr [simp, res_simps]: "tryR (Inr v) f = f v"
  by (simp add: tryR_def)

lemma tryR_eq_Inr: "tryR r f = Inr y \<longleftrightarrow> (\<exists>v. r = Inr v \<and> f v = Inr y)"
  by (cases r) auto

lemma tryR_eq_Inl: "tryR r f = Inl e \<longleftrightarrow> r = Inl e \<or> (\<exists>v. r = Inr v \<and> f v = Inl e)"
  by (cases r) auto

lemma tryR_split: "P (tryR r f) \<longleftrightarrow> (\<forall>e. r = Inl e \<longrightarrow> P (Inl e)) \<and> (\<forall>v. r = Inr v \<longrightarrow> P (f v))"
  by (cases r) auto

lemma tryR_cong [fundef_cong]:
  "r = r' \<Longrightarrow> (\<And>v. r' = Inr v \<Longrightarrow> f v = g v) \<Longrightarrow> tryR r f = tryR r' g"
  by (cases r') auto

lemma tryR_if: "tryR (if b then x else y) f = (if b then tryR x f else tryR y f)"
  by simp

fun mapR :: "('a \<Rightarrow> 'e + 'b) \<Rightarrow> 'a list \<Rightarrow> 'e + 'b list" where
  "mapR f [] = Inr []"
| "mapR f (x # xs) = tryR (f x) (\<lambda>y. tryR (mapR f xs) (\<lambda>ys. Inr (y # ys)))"

lemma mapR_all_Inr: "(\<And>x. x \<in> set xs \<Longrightarrow> f x = Inr (g x)) \<Longrightarrow> mapR f xs = Inr (map g xs)"
  by (induction xs) auto

lemma mapR_InrD: "mapR f xs = Inr ys \<Longrightarrow> list_all2 (\<lambda>x y. f x = Inr y) xs ys"
  by (induction xs arbitrary: ys) (auto simp: tryR_eq_Inr)

lemma mapR_Inr_iff: "mapR f xs = Inr ys \<longleftrightarrow> list_all2 (\<lambda>x y. f x = Inr y) xs ys"
proof
  show "list_all2 (\<lambda>x y. f x = Inr y) xs ys \<Longrightarrow> mapR f xs = Inr ys"
    by (induction xs ys rule: list_all2_induct) auto
qed (rule mapR_InrD)

lemma mapR_Inr_length: "mapR f xs = Inr ys \<Longrightarrow> length ys = length xs"
  by (metis mapR_InrD list_all2_lengthD)

lemma mapR_Inl_iff: "(\<exists>e. mapR f xs = Inl e) \<longleftrightarrow> (\<exists>x\<in>set xs. \<exists>e. f x = Inl e)"
  by (induction xs) (auto simp: tryR_def split: sum.splits)

lemma mapR_InlE: "mapR f xs = Inl e \<Longrightarrow> (\<And>x. x \<in> set xs \<Longrightarrow> f x = Inl e \<Longrightarrow> P) \<Longrightarrow> P"
  by (induction xs) (auto simp: tryR_eq_Inl)

fun foldR :: "('s \<Rightarrow> 'a \<Rightarrow> 'e + 's) \<Rightarrow> 's \<Rightarrow> 'a list \<Rightarrow> 'e + 's" where
  "foldR f s [] = Inr s"
| "foldR f s (x # xs) = tryR (f s x) (\<lambda>s'. foldR f s' xs)"

lemma mapR_cong [fundef_cong]:
  "xs = ys \<Longrightarrow> (\<And>x. x \<in> set ys \<Longrightarrow> f x = g x) \<Longrightarrow> mapR f xs = mapR g ys"
proof -
  assume "xs = ys" and "\<And>x. x \<in> set ys \<Longrightarrow> f x = g x"
  then show ?thesis by (induction ys arbitrary: xs) (auto simp: tryR_def)
qed

lemma foldR_cong [fundef_cong]:
  "s = t \<Longrightarrow> xs = ys \<Longrightarrow> (\<And>u x. x \<in> set ys \<Longrightarrow> f u x = g u x) \<Longrightarrow> foldR f s xs = foldR g t ys"
proof -
  assume "s = t" "xs = ys" and "\<And>u x. x \<in> set ys \<Longrightarrow> f u x = g u x"
  then show ?thesis by (induction ys arbitrary: xs s t) (auto simp: tryR_def split: sum.splits)
qed

lemma foldR_append: "foldR f s (xs @ ys) = tryR (foldR f s xs) (\<lambda>s'. foldR f s' ys)"
  by (induction xs arbitrary: s) (auto simp: tryR_def split: sum.splits)

lemma foldR_invariant:
  assumes "foldR f s xs = Inr t" and "P s"
    and "\<And>s x s'. P s \<Longrightarrow> x \<in> set xs \<Longrightarrow> f s x = Inr s' \<Longrightarrow> P s'"
  shows "P t"
  using assms(1,2,3)
proof (induction xs arbitrary: s)
  case Nil
  then show ?case by simp
next
  case (Cons x xs)
  from Cons.prems(1) obtain s' where s': "f s x = Inr s'" "foldR f s' xs = Inr t"
    by (auto simp: tryR_eq_Inr)
  have "P s'" by (rule Cons.prems(3) [OF Cons.prems(2) _ s'(1)]) simp
  show ?case
  proof (rule Cons.IH [OF s'(2) \<open>P s'\<close>])
    fix u y u' assume u: "P u" "y \<in> set xs" "f u y = Inr u'"
    from u(2) have "y \<in> set (x # xs)" by simp
    from Cons.prems(3) [OF u(1) this u(3)] show "P u'" .
  qed
qed

text \<open>\<open>Option::ok_or(e)\<close>.\<close>

definition ok_or :: "'a option \<Rightarrow> 'e \<Rightarrow> 'e + 'a" where
  "ok_or x e = (case x of None \<Rightarrow> Inl e | Some v \<Rightarrow> Inr v)"

lemma ok_or_simps [simp, res_simps]: "ok_or None e = Inl e" "ok_or (Some v) e = Inr v"
  by (simp_all add: ok_or_def)

lemma ok_or_eq_Inr [simp]: "ok_or x e = Inr v \<longleftrightarrow> x = Some v"
  by (cases x) auto

lemma ok_or_eq_Inl [simp]: "ok_or x e = Inl e' \<longleftrightarrow> x = None \<and> e' = e"
  by (cases x) auto

text \<open>The value of a successful result.\<close>

definition theR :: "'e + 'a \<Rightarrow> 'a option" where
  "theR r = (case r of Inl _ \<Rightarrow> None | Inr v \<Rightarrow> Some v)"

lemma theR_simps [simp]: "theR (Inl e) = None" "theR (Inr v) = Some v"
  by (simp_all add: theR_def)

subsection \<open>Slices and in-place writes\<close>

text \<open>\<open>&b[i..j]\<close> for a range the caller has checked, and \<open>b[at..at+n].copy_from_slice(xs)\<close>.\<close>

definition slice_of :: "'a list \<Rightarrow> nat \<Rightarrow> nat \<Rightarrow> 'a list" where
  "slice_of b i j = take (j - i) (drop i b)"

definition put :: "nat \<Rightarrow> 'a list \<Rightarrow> 'a list \<Rightarrow> 'a list" where
  "put at xs b = take at b @ xs @ drop (at + length xs) b"

lemma length_slice_of [simp]: "length (slice_of b i j) = min (j - i) (length b - i)"
  by (simp add: slice_of_def min.commute)

lemma length_put: "at + length xs \<le> length b \<Longrightarrow> length (put at xs b) = length b"
  by (simp add: put_def)

lemma nth_slice_of: "k < j - i \<Longrightarrow> i + k < length b \<Longrightarrow> slice_of b i j ! k = b ! (i + k)"
  by (simp add: slice_of_def)

lemma slice_concat:
  "\<forall>b\<in>set bs. length b = n \<Longrightarrow> i < length bs \<Longrightarrow> slice_of (concat bs) (i * n) (Suc i * n) = bs ! i"
proof (induction bs arbitrary: i)
  case (Cons b bs)
  then show ?case
    by (cases i) (simp_all add: slice_of_def)
qed simp

lemma length_concat_same: "\<forall>b\<in>set bs. length b = n \<Longrightarrow> length (concat bs) = n * length bs"
  by (induction bs) (simp_all add: algebra_simps)

lemma slice_put_other:
  assumes "at + length xs \<le> length b" and "j \<le> at \<or> at + length xs \<le> i"
  shows "slice_of (put at xs b) i j = slice_of b i j"
proof (rule nth_equalityI)
  show "length (slice_of (put at xs b) i j) = length (slice_of b i j)"
    using assms(1) by (simp add: length_put)
  fix k assume "k < length (slice_of (put at xs b) i j)"
  then have k: "k < j - i" "i + k < length b"
    using assms(1) by (auto simp: length_put)
  have "put at xs b ! (i + k) = b ! (i + k)"
    using assms k by (auto simp: put_def nth_append)
  then show "slice_of (put at xs b) i j ! k = slice_of b i j ! k"
    using k assms(1) by (simp add: nth_slice_of length_put)
qed

lemma slice_put_same:
  "at + length xs \<le> length b \<Longrightarrow> slice_of (put at xs b) at (at + length xs) = xs"
  by (simp add: slice_of_def put_def)

lemma slice_put_at:
  "at + length xs \<le> length b \<Longrightarrow> j = at + length xs \<Longrightarrow> slice_of (put at xs b) at j = xs"
  by (simp add: slice_put_same)

lemma slice_of_append_left: "j \<le> length a \<Longrightarrow> slice_of (a @ b) i j = slice_of a i j"
  by (cases "i \<le> j") (auto simp: slice_of_def)

lemma slice_of_append_right:
  "length a \<le> i \<Longrightarrow> slice_of (a @ b) i j = slice_of b (i - length a) (j - length a)"
  by (simp add: slice_of_def)

lemma slice_of_full: "slice_of b 0 (length b) = b"
  by (simp add: slice_of_def)

lemma slice_of_mid: "slice_of (a @ x @ c) (length a) (length a + length x) = x"
  by (simp add: slice_of_def)

lemma slice_of_take: "j \<le> n \<Longrightarrow> slice_of (take n b) i j = slice_of b i j"
  by (simp add: slice_of_def drop_take)

lemma slice_of_cong_take: "take n a = take n b \<Longrightarrow> j \<le> n \<Longrightarrow> slice_of a i j = slice_of b i j"
  by (metis slice_of_take)


subsection \<open>Decimal rendering (\<open>{}\<close> of an unsigned integer)\<close>

function show_nat :: "nat \<Rightarrow> string" where
  "show_nat n = (if n < 10 then [char_of (48 + n)] else show_nat (n div 10) @ [char_of (48 + n mod 10)])"
  by pat_completeness auto
termination
  by (relation "measure id") auto

declare show_nat.simps [simp del]

text \<open>\<open>{:?}\<close> of a string whose characters need no escape.\<close>

definition quoted :: "string \<Rightarrow> string" where
  "quoted s = CHR 0x22 # s @ [CHR 0x22]"

lemma unat_u32: "n < 2 ^ 32 \<Longrightarrow> unat (word_of_nat n :: u32) = n"
  by (simp add: unat_of_nat take_bit_eq_mod)

lemma unat_u16: "n < 2 ^ 16 \<Longrightarrow> unat (word_of_nat n :: u16) = n"
  by (simp add: unat_of_nat take_bit_eq_mod)

lemma unat_u64: "n < 2 ^ 64 \<Longrightarrow> unat (word_of_nat n :: u64) = n"
  by (simp add: unat_of_nat take_bit_eq_mod)

subsection \<open>More list facts\<close>

lemma drop_append_exact [simp]: "drop (length a) (a @ b) = b"
  by simp

lemma concat_map_length: "(\<And>x. length (f x) = w) \<Longrightarrow> length (concat (map f xs)) = w * length xs"
  by (induction xs) auto

lemma drop_eq_append_length: "drop n b = a @ r \<Longrightarrow> a \<noteq> [] \<Longrightarrow> n + length a \<le> length b"
  by (metis add.commute append_is_Nil_conv diff_is_0_eq' le_add_diff_inverse2 length_append length_drop
      length_greater_0_conv less_or_eq_imp_le linorder_le_cases list.size(3) nat_add_left_cancel_le le_add1)

lemma drop_add_append: "drop n b = a @ r \<Longrightarrow> drop (n + length a) b = r"
  by (metis append_eq_conv_conj drop_drop add.commute)

lemma drop_next: "drop at b = a @ r \<Longrightarrow> n = at + length a \<Longrightarrow> drop n b = r"
  by (simp add: drop_add_append)

lemma take_drop_append: "drop n b = a @ r \<Longrightarrow> take (length a) (drop n b) = a"
  by simp

lemma sorted_wrt_filter_nths: "sorted_wrt P xs \<Longrightarrow> sorted_wrt P (filter Q xs)"
  by (rule sorted_wrt_filter)

end
