(* ===== verification/Errors.thy ===== *)
theory Errors
  imports Prelude
begin

section \<open>The error type (\<open>error.rs\<close>)\<close>

text \<open>
  \<open>VecLiteError\<close> with the source's variants, and \<open>ffi_code\<close>, the stable C-ABI number of a
  variant. A message is the source's format string with its numbers rendered by \<open>show_nat\<close>;
  text produced by code outside the repository (the display of an \<open>io::Error\<close> or of an
  \<open>rmp_serde\<close> error) is left out, so \<open>Io\<close> carries nothing.
\<close>

datatype vec_lite_error =
    CollectionNotFound string
  | VectorNotFound string
  | AlreadyExists string
  | DimensionMismatch nat nat
  | Locked
  | WalPending
  | ReadOnly
  | Closed
  | Corrupt string
  | UnsupportedFormatVersion u32 u32
  | UnsupportedProvider string "string list"
  | InvalidArgument string
  | Io

type_synonym 'a res = "vec_lite_error + 'a"

fun ffi_code :: "vec_lite_error \<Rightarrow> int" where
  "ffi_code (CollectionNotFound _) = -1"
| "ffi_code (VectorNotFound _) = -2"
| "ffi_code (AlreadyExists _) = -3"
| "ffi_code (DimensionMismatch _ _) = -4"
| "ffi_code Locked = -5"
| "ffi_code (Corrupt _) = -6"
| "ffi_code (UnsupportedFormatVersion _ _) = -7"
| "ffi_code (UnsupportedProvider _ _) = -8"
| "ffi_code ReadOnly = -9"
| "ffi_code (InvalidArgument _) = -10"
| "ffi_code Io = -11"
| "ffi_code WalPending = -12"
| "ffi_code Closed = -13"

text \<open>The kind of an error: what a caller can match on when the message is ignored.\<close>

definition is_corrupt :: "'a res \<Rightarrow> bool" where
  "is_corrupt r \<longleftrightarrow> (\<exists>m. r = Inl (Corrupt m))"

lemma is_corrupt_Inl [simp]: "is_corrupt (Inl (Corrupt m))"
  by (simp add: is_corrupt_def)

lemma is_corrupt_Inr [simp]: "\<not> is_corrupt (Inr v)"
  by (simp add: is_corrupt_def)

lemma is_corrupt_code: "is_corrupt (Inl e) \<longleftrightarrow> ffi_code e = -6"
  by (cases e) (auto simp: is_corrupt_def)

lemma ffi_code_range: "-13 \<le> ffi_code e \<and> ffi_code e \<le> -1"
  by (cases e) auto

text \<open>
  A total parser: every input gives a value or \<open>Corrupt\<close>, never another error. The property is
  closed under \<open>?\<close>, which is how the decoders are shown to have it.
\<close>

definition only_corrupt :: "'a res \<Rightarrow> bool" where
  "only_corrupt r \<longleftrightarrow> (\<forall>e. r = Inl e \<longrightarrow> (\<exists>m. e = Corrupt m))"

lemma only_corrupt_Inr [intro, simp]: "only_corrupt (Inr v)"
  by (simp add: only_corrupt_def)

lemma only_corrupt_Inl [simp]: "only_corrupt (Inl e) \<longleftrightarrow> (\<exists>m. e = Corrupt m)"
  by (simp add: only_corrupt_def)

lemma only_corrupt_tryR [intro]:
  "only_corrupt r \<Longrightarrow> (\<And>v. r = Inr v \<Longrightarrow> only_corrupt (f v)) \<Longrightarrow> only_corrupt (tryR r f)"
  by (cases r) (auto simp: only_corrupt_def)

lemma only_corrupt_if [intro]:
  "(b \<Longrightarrow> only_corrupt x) \<Longrightarrow> (\<not> b \<Longrightarrow> only_corrupt y) \<Longrightarrow> only_corrupt (if b then x else y)"
  by simp

lemma only_corrupt_ok_or [intro, simp]: "only_corrupt (ok_or x (Corrupt m))"
  by (cases x) auto

lemma only_corruptD: "only_corrupt r \<Longrightarrow> \<exists>m. (\<exists>v. r = Inr v) \<or> r = Inl (Corrupt m)"
  by (cases r) auto

end
