(* ===== verification/Le_Bytes.thy ===== *)
theory Le_Bytes
  imports Errors
begin

section \<open>Little-endian fields (\<open>storage/mod.rs\<close>, module \<open>le\<close>)\<close>

text \<open>
  \<open>to_le n w\<close> is \<open>to_le_bytes\<close> of a \<open>n\<close>-byte integer and \<open>of_le\<close> is \<open>from_le_bytes\<close>; \<open>le_u16\<close>,
  \<open>le_u32\<close> and \<open>le_u64\<close> are the checked readers of the module. The locale \<open>le_field\<close> states what
  the codecs built on them rely on; it is interpreted for each reader.
\<close>

fun le_nat :: "nat \<Rightarrow> nat \<Rightarrow> bytes" where
  "le_nat 0 x = []"
| "le_nat (Suc n) x = word_of_nat (x mod 256) # le_nat n (x div 256)"

fun nat_of_le :: "bytes \<Rightarrow> nat" where
  "nat_of_le [] = 0"
| "nat_of_le (b # bs) = unat b + 256 * nat_of_le bs"

definition to_le :: "nat \<Rightarrow> 'a::len word \<Rightarrow> bytes" where
  "to_le n w = le_nat n (unat w)"

definition of_le :: "bytes \<Rightarrow> 'a::len word" where
  "of_le bs = word_of_nat (nat_of_le bs)"

definition need :: "bytes \<Rightarrow> nat \<Rightarrow> nat \<Rightarrow> string \<Rightarrow> unit res" where
  "need buf at n ctx =
     (if at + n > length buf
      then Inl (Corrupt (ctx @ '': truncated (need '' @ show_nat n @ '' bytes at offset '' @ show_nat at
                  @ '', have '' @ show_nat (length buf) @ '')''))
      else Inr ())"

definition le_u16 :: "bytes \<Rightarrow> nat \<Rightarrow> string \<Rightarrow> u16 res" where
  "le_u16 buf at ctx = tryR (need buf at 2 ctx) (\<lambda>_. Inr (of_le (slice_of buf at (at + 2))))"

definition le_u32 :: "bytes \<Rightarrow> nat \<Rightarrow> string \<Rightarrow> u32 res" where
  "le_u32 buf at ctx = tryR (need buf at 4 ctx) (\<lambda>_. Inr (of_le (slice_of buf at (at + 4))))"

definition le_u64 :: "bytes \<Rightarrow> nat \<Rightarrow> string \<Rightarrow> u64 res" where
  "le_u64 buf at ctx = tryR (need buf at 8 ctx) (\<lambda>_. Inr (of_le (slice_of buf at (at + 8))))"

subsection \<open>Byte-level facts\<close>

lemma length_le_nat [simp]: "length (le_nat n x) = n"
  by (induction n arbitrary: x) auto

lemma length_to_le [simp]: "length (to_le n w) = n"
  by (simp add: to_le_def)

lemma unat_byte: "x < 256 \<Longrightarrow> unat (word_of_nat x :: u8) = x"
  by (simp add: unat_of_nat take_bit_eq_mod)

lemma nat_of_le_le_nat: "nat_of_le (le_nat n x) = x mod 256 ^ n"
proof (induction n arbitrary: x)
  case 0
  then show ?case by simp
next
  case (Suc n)
  have "nat_of_le (le_nat (Suc n) x) = x mod 256 + 256 * (x div 256 mod 256 ^ n)"
    by (simp add: Suc.IH unat_of_nat take_bit_eq_mod)
  also have "\<dots> = x mod (256 * 256 ^ n)"
    by (simp add: mod_mult2_eq)
  finally show ?case by simp
qed

lemma le_nat_nat_of_le: "le_nat (length bs) (nat_of_le bs) = bs"
proof (induction bs)
  case Nil
  then show ?case by simp
next
  case (Cons b bs)
  have lt: "unat b < 256"
    using unsigned_less [of b] by simp
  have "(unat b + 256 * nat_of_le bs) mod 256 = unat b"
    using lt by simp
  moreover have "(unat b + 256 * nat_of_le bs) div 256 = nat_of_le bs"
    using lt by simp
  ultimately show ?case
    by (simp add: Cons.IH)
qed

lemma nat_of_le_bound: "nat_of_le bs < 256 ^ length bs"
proof (induction bs)
  case (Cons b bs)
  have "unat b < 256"
    using unsigned_less [of b] by simp
  moreover have "nat_of_le bs + 1 \<le> 256 ^ length bs"
    using Cons.IH by simp
  then have "256 * nat_of_le bs + 256 \<le> 256 * 256 ^ length bs"
    by (metis add_mult_distrib2 mult.right_neutral mult_le_mono2)
  ultimately show ?case by simp
qed simp

lemma of_le_to_le [simp]: "2 ^ LENGTH('a) = (256::nat) ^ n \<Longrightarrow> of_le (to_le n (w::'a::len word)) = w"
proof -
  assume w: "2 ^ LENGTH('a) = (256::nat) ^ n"
  have "unat w < 2 ^ LENGTH('a)"
    by (rule unsigned_less)
  then have "unat w < 256 ^ n"
    by (simp only: w)
  then show ?thesis
    by (simp add: of_le_def to_le_def nat_of_le_le_nat)
qed

lemma to_le_of_le: "2 ^ LENGTH('a) = (256::nat) ^ length bs \<Longrightarrow> to_le (length bs) (of_le bs :: 'a::len word) = bs"
  using nat_of_le_bound [of bs]
  by (simp add: of_le_def to_le_def unat_of_nat take_bit_eq_mod le_nat_nat_of_le)

lemma to_le_inject: "2 ^ LENGTH('a) = (256::nat) ^ n \<Longrightarrow> to_le n (v::'a::len word) = to_le n w \<Longrightarrow> v = w"
  by (metis of_le_to_le)

subsection \<open>The contract of a checked reader\<close>

locale le_field =
  fixes width :: nat
    and enc :: "'a \<Rightarrow> bytes"
    and rd :: "bytes \<Rightarrow> nat \<Rightarrow> string \<Rightarrow> 'a res"
  assumes enc_width: "length (enc x) = width"
    and rd_enc: "at + width \<le> length b \<Longrightarrow> slice_of b at (at + width) = enc x \<Longrightarrow> rd b at ctx = Inr x"
    and rd_total: "at + width \<le> length b \<Longrightarrow> \<exists>x. rd b at ctx = Inr x \<and> enc x = slice_of b at (at + width)"
    and rd_short: "length b < at + width \<Longrightarrow> is_corrupt (rd b at ctx)"
begin

lemma rd_here: "rd (pre @ enc x @ post) (length pre) ctx = Inr x"
  by (rule rd_enc) (simp_all add: enc_width slice_of_def)

lemma rd_drop: "drop at b = enc x @ rest \<Longrightarrow> 0 < width \<Longrightarrow> rd b at ctx = Inr x"
proof -
  assume d: "drop at b = enc x @ rest" and w: "0 < width"
  have "length (drop at b) = width + length rest"
    using d by (simp add: enc_width)
  then have "at + width \<le> length b"
    using w by simp
  then show ?thesis
    by (rule rd_enc) (simp add: slice_of_def d enc_width)
qed

lemma rd_only_corrupt: "only_corrupt (rd b at ctx)"
proof (cases "at + width \<le> length b")
  case True
  from rd_total [OF this, of ctx] obtain x where "rd b at ctx = Inr x" by blast
  then show ?thesis by simp
next
  case False
  then have "is_corrupt (rd b at ctx)" by (intro rd_short) simp
  then show ?thesis by (auto simp: is_corrupt_def)
qed

lemma rd_Inr_iff: "rd b at ctx = Inr x \<longleftrightarrow> at + width \<le> length b \<and> slice_of b at (at + width) = enc x"
proof
  assume r: "rd b at ctx = Inr x"
  have le: "at + width \<le> length b"
    by (rule ccontr) (use rd_short [of b at ctx] r in auto)
  with rd_total [OF le, of ctx] r show "at + width \<le> length b \<and> slice_of b at (at + width) = enc x"
    by auto
qed (use rd_enc in auto)

lemma rd_ctx: "rd b at ctx = Inr x \<Longrightarrow> rd b at ctx' = Inr x"
  by (simp add: rd_Inr_iff)

lemma rd_prefix: "rd b at ctx = Inr x \<Longrightarrow> rd (b @ c) at ctx = Inr x"
  by (auto simp: rd_Inr_iff slice_of_append_left)

lemma rd_local: "slice_of b at (at + width) = slice_of c at' (at' + width) \<Longrightarrow> at + width \<le> length b
    \<Longrightarrow> at' + width \<le> length c \<Longrightarrow> rd b at ctx = rd c at' ctx"
  by (metis rd_Inr_iff rd_total)

lemma rd_take: "at + width \<le> n \<Longrightarrow> n \<le> length b \<Longrightarrow> rd (take n b) at ctx = rd b at ctx"
  by (rule rd_local) (simp_all add: slice_of_take)

lemma enc_inject: "enc x = enc y \<longleftrightarrow> x = y"
  by (metis rd_here sum.inject(2))

end

lemma need_Inr: "need b at n ctx = Inr u \<longleftrightarrow> at + n \<le> length b"
  by (auto simp: need_def)

lemma need_cases: "at + n \<le> length b \<Longrightarrow> need b at n ctx = Inr ()" "length b < at + n \<Longrightarrow> \<exists>m. need b at n ctx = Inl (Corrupt m)"
  by (auto simp: need_def)

lemma le_reader:
  assumes w: "2 ^ LENGTH('a) = (256::nat) ^ n"
    and rd: "\<And>b at ctx. rd b at ctx = tryR (need b at n ctx) (\<lambda>_. Inr (of_le (slice_of b at (at + n)) :: 'a::len word))"
  shows "le_field n (to_le n) rd"
proof
  fix x :: "'a word" and b at ctx
  show "length (to_le n x) = n" by simp
  show "at + n \<le> length b \<Longrightarrow> slice_of b at (at + n) = to_le n x \<Longrightarrow> rd b at ctx = Inr x"
    using w by (simp add: rd need_cases)
  show "length b < at + n \<Longrightarrow> is_corrupt (rd b at ctx)"
    by (auto simp: rd need_def is_corrupt_def)
next
  fix b :: bytes and at ctx
  assume le: "at + n \<le> length b"
  let ?x = "of_le (slice_of b at (at + n)) :: 'a word"
  have "length (slice_of b at (at + n)) = n" using le by simp
  then have "to_le n ?x = slice_of b at (at + n)"
    using to_le_of_le [where bs = "slice_of b at (at + n)" and 'a = 'a] w by simp
  with le show "\<exists>x. rd b at ctx = Inr x \<and> to_le n x = slice_of b at (at + n)"
    by (simp add: rd need_cases)
qed

interpretation u16f: le_field 2 "to_le 2" le_u16
  by (rule le_reader) (simp_all add: le_u16_def)

interpretation u32f: le_field 4 "to_le 4" le_u32
  by (rule le_reader) (simp_all add: le_u32_def)

interpretation u64f: le_field 8 "to_le 8" le_u64
  by (rule le_reader) (simp_all add: le_u64_def)

lemmas le_only_corrupt [simp, intro] =
  u16f.rd_only_corrupt u32f.rd_only_corrupt u64f.rd_only_corrupt

lemma le_Inl_corrupt:
  "le_u16 b at ctx = Inl e \<Longrightarrow> \<exists>m. e = Corrupt m"
  "le_u32 b at ctx = Inl e \<Longrightarrow> \<exists>m. e = Corrupt m"
  "le_u64 b at ctx = Inl e \<Longrightarrow> \<exists>m. e = Corrupt m"
  by (auto simp: le_u16_def le_u32_def le_u64_def tryR_eq_Inl need_def split: if_splits)

lemmas le_drop =
  u16f.rd_drop [simplified] u32f.rd_drop [simplified] u64f.rd_drop [simplified]

lemmas le_Inr_iff = u16f.rd_Inr_iff u32f.rd_Inr_iff u64f.rd_Inr_iff

end
