(* ===== verification/Byte_Tags.thy ===== *)
theory Byte_Tags
  imports Le_Bytes
begin

section \<open>One-byte tags\<close>

text \<open>
  Every enum of the file format is written as one byte and parsed by a \<open>from_byte\<close> whose last
  arm is \<open>Corrupt\<close>. The locale states the contract the codecs rely on: the parser inverts the
  writer and accepts nothing else. It is interpreted for each tag in the theory that has it.
\<close>

locale byte_tag =
  fixes to_byte :: "'a \<Rightarrow> u8"
    and from_byte :: "u8 \<Rightarrow> 'a res"
  assumes from_to: "from_byte (to_byte x) = Inr x"
    and to_from: "from_byte b = Inr x \<Longrightarrow> to_byte x = b"
    and from_corrupt: "only_corrupt (from_byte b)"
begin

lemma to_byte_inject: "to_byte x = to_byte y \<longleftrightarrow> x = y"
  by (metis from_to sum.inject(2))

lemma from_Inr_iff: "from_byte b = Inr x \<longleftrightarrow> b = to_byte x"
  using from_to to_from by blast

lemma from_rejects: "is_corrupt (from_byte b) \<longleftrightarrow> b \<notin> range to_byte"
proof (cases "from_byte b")
  case (Inl e)
  with from_corrupt [of b] have "is_corrupt (from_byte b)"
    by (auto simp: is_corrupt_def)
  moreover have "b \<notin> range to_byte"
    using Inl from_to by (metis rangeE sum.distinct(1))
  ultimately show ?thesis by simp
next
  case (Inr x)
  then show ?thesis using to_from by auto
qed

end

end
