(* ===== verification/Compression.thy ===== *)
theory Compression
  imports Byte_Tags
begin

section \<open>Block compression (\<open>storage/compression.rs\<close>)\<close>

text \<open>
  The codec tag and the two entry points. \<open>lz4_flex\<close> and \<open>zstd\<close> are packages outside the
  repository: they are the record \<open>compressors\<close>, an argument of every definition that compresses.
  What a round trip relies on is \<open>codec_ok\<close>, stated for the data at hand. Native target.
\<close>

datatype codec = Codec_None | Codec_Lz4 | Codec_Zstd

definition codec_from_byte :: "u8 \<Rightarrow> codec res" where
  "codec_from_byte b =
     (if b = 0 then Inr Codec_None
      else if b = 1 then Inr Codec_Lz4
      else if b = 2 then Inr Codec_Zstd
      else Inl (Corrupt (''segment: unknown compression codec '' @ show_nat (unat b))))"

fun codec_to_byte :: "codec \<Rightarrow> u8" where
  "codec_to_byte Codec_None = 0"
| "codec_to_byte Codec_Lz4 = 1"
| "codec_to_byte Codec_Zstd = 2"

record compressors =
  lz4_compress :: "bytes \<Rightarrow> bytes"
  lz4_decompress :: "bytes \<Rightarrow> bytes option"
  zstd_encode :: "bytes \<Rightarrow> bytes option"
  zstd_decode :: "bytes \<Rightarrow> bytes option"

fun compress :: "compressors \<Rightarrow> codec \<Rightarrow> bytes \<Rightarrow> bytes res" where
  "compress X Codec_None data = Inr data"
| "compress X Codec_Lz4 data = Inr (lz4_compress X data)"
| "compress X Codec_Zstd data = ok_or (zstd_encode X data) (Corrupt ''zstd compress'')"

definition decompress :: "compressors \<Rightarrow> codec \<Rightarrow> bytes \<Rightarrow> nat \<Rightarrow> bytes res" where
  "decompress X c data uncompressed_len =
     tryR (case c of
             Codec_None \<Rightarrow> Inr data
           | Codec_Lz4 \<Rightarrow> ok_or (lz4_decompress X data) (Corrupt ''lz4 decompress'')
           | Codec_Zstd \<Rightarrow> ok_or (zstd_decode X data) (Corrupt ''zstd decompress''))
       (\<lambda>out. if length out \<noteq> uncompressed_len
              then Inl (Corrupt (''segment: decompressed length '' @ show_nat (length out)
                          @ '' != declared '' @ show_nat uncompressed_len))
              else Inr out)"

text \<open>The documented contract of the packages, at one piece of data.\<close>

definition codec_ok :: "compressors \<Rightarrow> codec \<Rightarrow> bytes \<Rightarrow> bool" where
  "codec_ok X c data =
     (case c of
        Codec_None \<Rightarrow> True
      | Codec_Lz4 \<Rightarrow> lz4_decompress X (lz4_compress X data) = Some data
      | Codec_Zstd \<Rightarrow> (case zstd_encode X data of None \<Rightarrow> True | Some out \<Rightarrow> zstd_decode X out = Some data))"

interpretation codec_tag: byte_tag codec_to_byte codec_from_byte
proof
  show "codec_from_byte (codec_to_byte x) = Inr x" for x
    by (cases x) (simp_all add: codec_from_byte_def)
  show "codec_from_byte b = Inr x \<Longrightarrow> codec_to_byte x = b" for b x
    by (auto simp: codec_from_byte_def split: if_splits)
  show "only_corrupt (codec_from_byte b)" for b
    by (auto simp: codec_from_byte_def)
qed

lemma decompress_only_corrupt: "only_corrupt (decompress X c data n)"
  by (cases c) (auto simp: decompress_def intro!: only_corrupt_tryR)

lemma decompress_compress [codec_simps]:
  "compress X c data = Inr stored \<Longrightarrow> codec_ok X c data \<Longrightarrow> decompress X c stored (length data) = Inr data"
  by (cases c) (auto simp: decompress_def codec_ok_def)

lemma decompress_length: "decompress X c stored n = Inr data \<Longrightarrow> length data = n"
  by (auto simp: decompress_def tryR_eq_Inr split: if_splits)

end
