(* ===== verification/Msgpack_Guard.thy ===== *)
theory Msgpack_Guard
  imports Le_Bytes
begin

unbundle bit_operations_syntax

section \<open>The MessagePack depth guard (\<open>storage/body.rs\<close>, \<open>guard_msgpack_depth\<close>)\<close>

text \<open>
  The guard is one pass with an explicit stack of child counts (the last element of the source's
  vector is the head of the list here). \<open>msgpack_marker\<close> is the \<open>match marker\<close> of its body: the
  width of the length field, the bytes to skip and the number of children.

  The abstract side is the MessagePack format: \<open>mp\<close> is the tree of a value with the header form
  each node is written with, \<open>mp_bytes\<close> its wire bytes, \<open>mp_nesting\<close> its container nesting and \<open>mp_height\<close> the
  height of the guard's stack at its deepest element, which counts that element too. On the bytes of any
  value the guard decides \<open>mp_height v \<le> 16\<close>; the documented bound is on \<open>mp_nesting\<close>.
\<close>

definition body_slice :: "bytes \<Rightarrow> nat \<Rightarrow> nat \<Rightarrow> string \<Rightarrow> bytes res" where
  "body_slice b at len what =
     (if at + len \<le> length b then Inr (slice_of b at (at + len))
      else Inl (Corrupt (what @ '': field past end of body'')))"

definition MAX_MSGPACK_DEPTH :: nat where "MAX_MSGPACK_DEPTH = 16"

definition be_len :: "bytes \<Rightarrow> nat \<Rightarrow> nat \<Rightarrow> nat res" where
  "be_len b at n =
     tryR (body_slice b at n ''msgpack length'') (\<lambda>raw. Inr (foldl (\<lambda>acc x. acc * 256 + unat x) 0 raw))"

definition too_deep :: vec_lite_error where
  "too_deep = Corrupt (''payload: nesting exceeds '' @ show_nat MAX_MSGPACK_DEPTH)"

text \<open>\<open>at\<close> is the offset behind the marker; the result is \<open>(length width, skip, children)\<close>.\<close>

definition msgpack_marker :: "bytes \<Rightarrow> nat \<Rightarrow> u8 \<Rightarrow> (nat \<times> nat \<times> nat) res" where
  "msgpack_marker b at m =
     (if m \<le> 0x7f \<or> 0xe0 \<le> m \<or> m = 0xc0 \<or> m = 0xc2 \<or> m = 0xc3 then Inr (0, 0, 0)
      else if m = 0xc1 then Inl (Corrupt ''payload: reserved msgpack marker'')
      else if m \<le> 0x8f then Inr (0, 0, 2 * unat (m AND 0x0f))
      else if m \<le> 0x9f then Inr (0, 0, unat (m AND 0x0f))
      else if m \<le> 0xbf then Inr (0, unat (m AND 0x1f), 0)
      else if m = 0xcc \<or> m = 0xd0 then Inr (0, 1, 0)
      else if m = 0xcd \<or> m = 0xd1 then Inr (0, 2, 0)
      else if m = 0xca \<or> m = 0xce \<or> m = 0xd2 then Inr (0, 4, 0)
      else if m = 0xcb \<or> m = 0xcf \<or> m = 0xd3 then Inr (0, 8, 0)
      else if m = 0xd4 then Inr (0, 2, 0)
      else if m = 0xd5 then Inr (0, 3, 0)
      else if m = 0xd6 then Inr (0, 5, 0)
      else if m = 0xd7 then Inr (0, 9, 0)
      else if m = 0xd8 then Inr (0, 17, 0)
      else if m = 0xc4 \<or> m = 0xd9 then tryR (be_len b at 1) (\<lambda>n. Inr (1, n, 0))
      else if m = 0xc5 \<or> m = 0xda then tryR (be_len b at 2) (\<lambda>n. Inr (2, n, 0))
      else if m = 0xc6 \<or> m = 0xdb then tryR (be_len b at 4) (\<lambda>n. Inr (4, n, 0))
      else if m = 0xc7 then tryR (be_len b at 1) (\<lambda>n. Inr (1, n + 1, 0))
      else if m = 0xc8 then tryR (be_len b at 2) (\<lambda>n. Inr (2, n + 1, 0))
      else if m = 0xc9 then tryR (be_len b at 4) (\<lambda>n. Inr (4, n + 1, 0))
      else if m = 0xdc then tryR (be_len b at 2) (\<lambda>n. Inr (2, 0, n))
      else if m = 0xdd then tryR (be_len b at 4) (\<lambda>n. Inr (4, 0, n))
      else if m = 0xde then tryR (be_len b at 2) (\<lambda>n. Inr (2, 0, 2 * n))
      else tryR (be_len b at 4) (\<lambda>n. Inr (4, 0, 2 * n)))"

function guard_loop :: "bytes \<Rightarrow> nat list \<Rightarrow> nat \<Rightarrow> unit res" where
  "guard_loop b [] at = Inr ()"
| "guard_loop b (0 # st) at = guard_loop b st at"
| "guard_loop b (Suc r # st) at =
     (if length (r # st) > MAX_MSGPACK_DEPTH then Inl too_deep
      else if length b \<le> at then Inr ()
      else
        tryR (msgpack_marker b (at + 1) (b ! at)) (\<lambda>(w, skip, children).
          let next = at + 1 + w + skip
          in if length b < next then Inr ()
             else guard_loop b (if children > 0 then children # r # st else r # st) next))"
  by pat_completeness auto
termination
  by (relation "measures [\<lambda>(b, st, at). length b - at, \<lambda>(b, st, at). length st]") auto

definition guard_msgpack_depth :: "bytes \<Rightarrow> unit res" where
  "guard_msgpack_depth b = guard_loop b [1] 0"

lemmas [simp del] = guard_loop.simps(3)

subsection \<open>The guard only rejects, and only as corruption\<close>

lemma be_len_only_corrupt [simp, intro]: "only_corrupt (be_len b at n)"
  by (auto simp: be_len_def body_slice_def)

lemma msgpack_marker_only_corrupt: "only_corrupt (msgpack_marker b at m)"
  unfolding msgpack_marker_def by (intro only_corrupt_if only_corrupt_tryR be_len_only_corrupt only_corrupt_Inr) auto

lemma guard_loop_only_corrupt: "only_corrupt (guard_loop b st at)"
proof (induction b st at rule: guard_loop.induct)
  case (3 b r st at)
  then show ?case
    by (subst guard_loop.simps(3))
      (auto simp: too_deep_def Let_def intro!: only_corrupt_tryR msgpack_marker_only_corrupt)
qed auto

lemma guard_only_corrupt [simp, intro]: "only_corrupt (guard_msgpack_depth b)"
  by (simp add: guard_msgpack_depth_def guard_loop_only_corrupt)

subsection \<open>The format\<close>

datatype mp =
    MpAtom u8
  | MpScalar u8 bytes
  | MpFixStr bytes
  | MpBlob u8 bytes
  | MpExt u8 u8 bytes
  | MpFixArray "mp list"
  | MpFixMap "mp list"
  | MpArray u8 "mp list"
  | MpMap u8 "mp list"

text \<open>The sizes the format fixes for a header byte (a map lists keys and values alternately).\<close>

definition scalar_table :: "(u8 \<times> nat) list" where
  "scalar_table = [(0xcc, 1), (0xd0, 1), (0xcd, 2), (0xd1, 2), (0xca, 4), (0xce, 4), (0xd2, 4),
     (0xcb, 8), (0xcf, 8), (0xd3, 8), (0xd4, 2), (0xd5, 3), (0xd6, 5), (0xd7, 9), (0xd8, 17)]"

definition blob_table :: "(u8 \<times> nat) list" where
  "blob_table = [(0xc4, 1), (0xd9, 1), (0xc5, 2), (0xda, 2), (0xc6, 4), (0xdb, 4)]"

definition ext_table :: "(u8 \<times> nat) list" where
  "ext_table = [(0xc7, 1), (0xc8, 2), (0xc9, 4)]"

definition array_table :: "(u8 \<times> nat) list" where
  "array_table = [(0xdc, 2), (0xdd, 4)]"

definition map_table :: "(u8 \<times> nat) list" where
  "map_table = [(0xde, 2), (0xdf, 4)]"

abbreviation scalar_size :: "u8 \<Rightarrow> nat option" where "scalar_size \<equiv> map_of scalar_table"
abbreviation blob_width :: "u8 \<Rightarrow> nat option" where "blob_width \<equiv> map_of blob_table"
abbreviation ext_width :: "u8 \<Rightarrow> nat option" where "ext_width \<equiv> map_of ext_table"
abbreviation array_width :: "u8 \<Rightarrow> nat option" where "array_width \<equiv> map_of array_table"
abbreviation map_width :: "u8 \<Rightarrow> nat option" where "map_width \<equiv> map_of map_table"

definition be_nat :: "nat \<Rightarrow> nat \<Rightarrow> bytes" where
  "be_nat w n = rev (le_nat w n)"

fun mp_bytes :: "mp \<Rightarrow> bytes" where
  "mp_bytes (MpAtom m) = [m]"
| "mp_bytes (MpScalar m body) = m # body"
| "mp_bytes (MpFixStr s) = (0xa0 + word_of_nat (length s)) # s"
| "mp_bytes (MpBlob m s) = m # be_nat (the (blob_width m)) (length s) @ s"
| "mp_bytes (MpExt m t s) = m # be_nat (the (ext_width m)) (length s) @ t # s"
| "mp_bytes (MpFixArray vs) = (0x90 + word_of_nat (length vs)) # concat (map mp_bytes vs)"
| "mp_bytes (MpFixMap vs) = (0x80 + word_of_nat (length vs div 2)) # concat (map mp_bytes vs)"
| "mp_bytes (MpArray m vs) = m # be_nat (the (array_width m)) (length vs) @ concat (map mp_bytes vs)"
| "mp_bytes (MpMap m vs) = m # be_nat (the (map_width m)) (length vs div 2) @ concat (map mp_bytes vs)"

fun mp_ok :: "mp \<Rightarrow> bool" where
  "mp_ok (MpAtom m) \<longleftrightarrow> m < 0x80 \<or> 0xe0 \<le> m \<or> m = 0xc0 \<or> m = 0xc2 \<or> m = 0xc3"
| "mp_ok (MpScalar m body) \<longleftrightarrow> scalar_size m = Some (length body)"
| "mp_ok (MpFixStr s) \<longleftrightarrow> length s < 32"
| "mp_ok (MpBlob m s) \<longleftrightarrow> (case blob_width m of None \<Rightarrow> False | Some w \<Rightarrow> length s < 256 ^ w)"
| "mp_ok (MpExt m t s) \<longleftrightarrow> (case ext_width m of None \<Rightarrow> False | Some w \<Rightarrow> length s < 256 ^ w)"
| "mp_ok (MpFixArray vs) \<longleftrightarrow> length vs < 16 \<and> list_all mp_ok vs"
| "mp_ok (MpFixMap vs) \<longleftrightarrow> length vs < 32 \<and> even (length vs) \<and> list_all mp_ok vs"
| "mp_ok (MpArray m vs) \<longleftrightarrow>
     (case array_width m of None \<Rightarrow> False | Some w \<Rightarrow> length vs < 256 ^ w) \<and> list_all mp_ok vs"
| "mp_ok (MpMap m vs) \<longleftrightarrow>
     (case map_width m of None \<Rightarrow> False | Some w \<Rightarrow> length vs < 2 * 256 ^ w) \<and> even (length vs)
       \<and> list_all mp_ok vs"

fun mp_kids :: "mp \<Rightarrow> mp list" where
  "mp_kids (MpFixArray vs) = vs"
| "mp_kids (MpFixMap vs) = vs"
| "mp_kids (MpArray _ vs) = vs"
| "mp_kids (MpMap _ vs) = vs"
| "mp_kids _ = []"

fun mp_height :: "mp \<Rightarrow> nat" where
  "mp_height (MpFixArray vs) = Suc (foldr max (map mp_height vs) 0)"
| "mp_height (MpFixMap vs) = Suc (foldr max (map mp_height vs) 0)"
| "mp_height (MpArray _ vs) = Suc (foldr max (map mp_height vs) 0)"
| "mp_height (MpMap _ vs) = Suc (foldr max (map mp_height vs) 0)"
| "mp_height _ = 1"

fun mp_nesting :: "mp \<Rightarrow> nat" where
  "mp_nesting (MpFixArray vs) = Suc (foldr max (map mp_nesting vs) 0)"
| "mp_nesting (MpFixMap vs) = Suc (foldr max (map mp_nesting vs) 0)"
| "mp_nesting (MpArray _ vs) = Suc (foldr max (map mp_nesting vs) 0)"
| "mp_nesting (MpMap _ vs) = Suc (foldr max (map mp_nesting vs) 0)"
| "mp_nesting _ = 0"

text \<open>The bytes of a value before its children, and what the guard reads there.\<close>

fun mp_head :: "mp \<Rightarrow> bytes" where
  "mp_head (MpFixArray vs) = [0x90 + word_of_nat (length vs)]"
| "mp_head (MpFixMap vs) = [0x80 + word_of_nat (length vs div 2)]"
| "mp_head (MpArray m vs) = m # be_nat (the (array_width m)) (length vs)"
| "mp_head (MpMap m vs) = m # be_nat (the (map_width m)) (length vs div 2)"
| "mp_head v = mp_bytes v"

lemma mp_bytes_head: "mp_bytes v = mp_head v @ concat (map mp_bytes (mp_kids v))"
  by (cases v) simp_all

lemma mp_height_kids: "mp_height v = Suc (foldr max (map mp_height (mp_kids v)) 0)"
  by (cases v) simp_all

lemma mp_ok_kids: "mp_ok v \<Longrightarrow> c \<in> set (mp_kids v) \<Longrightarrow> mp_ok c"
  by (cases v) (auto simp: list_all_iff)

lemma foldr_max_le: "foldr max (map f xs) 0 \<le> (k::nat) \<longleftrightarrow> (\<forall>x\<in>set xs. f x \<le> k)"
  by (induction xs) auto


subsection \<open>The guard on the bytes of a value\<close>

lemma foldl_be: "foldl (\<lambda>acc x. acc * 256 + unat x) 0 (bs :: bytes) = nat_of_le (rev bs)"
  by (induction bs rule: rev_induct) auto

lemma be_len_be_nat:
  assumes "drop at b = be_nat w n @ rest" and "n < 256 ^ w" and "0 < w"
  shows "be_len b at w = Inr n"
proof -
  have l: "length (be_nat w n) = w" by (simp add: be_nat_def)
  have "length (drop at b) = w + length rest"
    by (simp add: assms(1) l)
  then have "at + w \<le> length b"
    using assms(3) by simp
  then show ?thesis
    using assms(2) l by (simp add: be_len_def body_slice_def slice_of_def assms(1) foldl_be be_nat_def nat_of_le_le_nat)
qed

lemma low_bits:
  "n < 32 \<Longrightarrow> unat ((0xa0 + word_of_nat n :: u8) AND 0x1f) = n"
  "n < 16 \<Longrightarrow> unat ((0x90 + word_of_nat n :: u8) AND 0x0f) = n"
  "n < 16 \<Longrightarrow> unat ((0x80 + word_of_nat n :: u8) AND 0x0f) = n"
proof -
  have a: "list_all (\<lambda>n. unat ((0xa0 + word_of_nat n :: u8) AND 0x1f) = n) [0..<32]" by code_simp
  have b: "list_all (\<lambda>n. unat ((0x90 + word_of_nat n :: u8) AND 0x0f) = n) [0..<16]" by code_simp
  have c: "list_all (\<lambda>n. unat ((0x80 + word_of_nat n :: u8) AND 0x0f) = n) [0..<16]" by code_simp
  show "n < 32 \<Longrightarrow> unat ((0xa0 + word_of_nat n :: u8) AND 0x1f) = n" using a by (simp add: list_all_iff)
  show "n < 16 \<Longrightarrow> unat ((0x90 + word_of_nat n :: u8) AND 0x0f) = n" using b by (simp add: list_all_iff)
  show "n < 16 \<Longrightarrow> unat ((0x80 + word_of_nat n :: u8) AND 0x0f) = n" using c by (simp add: list_all_iff)
qed

lemma fix_markers:
  "n < 32 \<Longrightarrow> msgpack_marker b at (0xa0 + word_of_nat n) = Inr (0, n, 0)"
  "n < 16 \<Longrightarrow> msgpack_marker b at (0x90 + word_of_nat n) = Inr (0, 0, n)"
  "n < 16 \<Longrightarrow> msgpack_marker b at (0x80 + word_of_nat n) = Inr (0, 0, 2 * n)"
proof -
  let ?s = "\<lambda>m::u8. \<not> (m \<le> 0x7f \<or> 0xe0 \<le> m \<or> m = 0xc0 \<or> m = 0xc2 \<or> m = 0xc3) \<and> m \<noteq> 0xc1"
  have a: "list_all (\<lambda>n. ?s (0xa0 + word_of_nat n) \<and> \<not> (0xa0 + word_of_nat n :: u8) \<le> 0x9f
      \<and> \<not> (0xa0 + word_of_nat n :: u8) \<le> 0x8f \<and> (0xa0 + word_of_nat n :: u8) \<le> 0xbf) [0..<32]" by code_simp
  have b: "list_all (\<lambda>n. ?s (0x90 + word_of_nat n) \<and> (0x90 + word_of_nat n :: u8) \<le> 0x9f
      \<and> \<not> (0x90 + word_of_nat n :: u8) \<le> 0x8f) [0..<16]" by code_simp
  have c: "list_all (\<lambda>n. ?s (0x80 + word_of_nat n) \<and> (0x80 + word_of_nat n :: u8) \<le> 0x8f) [0..<16]" by code_simp
  show "n < 32 \<Longrightarrow> msgpack_marker b at (0xa0 + word_of_nat n) = Inr (0, n, 0)"
    using a by (simp add: list_all_iff msgpack_marker_def low_bits)
  show "n < 16 \<Longrightarrow> msgpack_marker b at (0x90 + word_of_nat n) = Inr (0, 0, n)"
    using b by (simp add: list_all_iff msgpack_marker_def low_bits)
  show "n < 16 \<Longrightarrow> msgpack_marker b at (0x80 + word_of_nat n) = Inr (0, 0, 2 * n)"
    using c by (simp add: list_all_iff msgpack_marker_def low_bits)
qed

lemma drop_Suc_tl: "drop n b = x # r \<Longrightarrow> drop (n + 1) b = r"
  using drop_add_append [of n b "[x]" r] by simp

lemma sized_markers:
  "list_all (\<lambda>(m, n). msgpack_marker b at m = Inr (0, n, 0)) scalar_table"
  "list_all (\<lambda>(m, w). 0 < w \<and> msgpack_marker b at m = tryR (be_len b at w) (\<lambda>n. Inr (w, n, 0))) blob_table"
  "list_all (\<lambda>(m, w). 0 < w \<and> msgpack_marker b at m = tryR (be_len b at w) (\<lambda>n. Inr (w, n + 1, 0))) ext_table"
  "list_all (\<lambda>(m, w). 0 < w \<and> msgpack_marker b at m = tryR (be_len b at w) (\<lambda>n. Inr (w, 0, n))) array_table"
  "list_all (\<lambda>(m, w). 0 < w \<and> msgpack_marker b at m = tryR (be_len b at w) (\<lambda>n. Inr (w, 0, 2 * n))) map_table"
  by (simp_all add: scalar_table_def blob_table_def ext_table_def array_table_def map_table_def msgpack_marker_def)

lemma sized_marker:
  "scalar_size m = Some n \<Longrightarrow> msgpack_marker b at m = Inr (0, n, 0)"
  "blob_width m = Some w \<Longrightarrow> 0 < w \<and> msgpack_marker b at m = tryR (be_len b at w) (\<lambda>n. Inr (w, n, 0))"
  "ext_width m = Some w \<Longrightarrow> 0 < w \<and> msgpack_marker b at m = tryR (be_len b at w) (\<lambda>n. Inr (w, n + 1, 0))"
  "array_width m = Some w \<Longrightarrow> 0 < w \<and> msgpack_marker b at m = tryR (be_len b at w) (\<lambda>n. Inr (w, 0, n))"
  "map_width m = Some w \<Longrightarrow> 0 < w \<and> msgpack_marker b at m = tryR (be_len b at w) (\<lambda>n. Inr (w, 0, 2 * n))"
  using sized_markers [of b at]
  by (auto simp: list_all_iff
      dest!: map_of_SomeD)

lemma mp_head_marker:
  assumes ok: "mp_ok v" and d: "drop at b = mp_head v @ rest"
  shows "\<exists>w skip. msgpack_marker b (at + 1) (hd (mp_head v)) = Inr (w, skip, length (mp_kids v))
           \<and> 1 + w + skip = length (mp_head v)"
proof (cases v)
  case (MpAtom m)
  then have "m \<le> 0x7f \<or> 0xe0 \<le> m \<or> m = 0xc0 \<or> m = 0xc2 \<or> m = 0xc3"
    using ok inc_le [of m "0x7f"] by (auto simp: word_le_nat_alt word_less_nat_alt)
  then show ?thesis by (simp add: MpAtom msgpack_marker_def)
next
  case (MpScalar m body)
  then have "scalar_size m = Some (length body)" using ok by simp
  from sized_marker(1) [OF this] show ?thesis by (simp add: MpScalar)
next
  case (MpFixStr s)
  then show ?thesis using ok by (simp add: fix_markers)
next
  case (MpBlob m s)
  then obtain w where w: "blob_width m = Some w" "length s < 256 ^ w"
    using ok by (auto split: option.splits)
  note m = sized_marker(2) [OF w(1), of b "at + 1"]
  have "drop (at + 1) b = be_nat w (length s) @ s @ rest"
    by (rule drop_Suc_tl [where x = m]) (use d MpBlob w in simp)
  from be_len_be_nat [OF this w(2)] m w show ?thesis
    by (simp add: MpBlob be_nat_def)
next
  case (MpExt m t s)
  then obtain w where w: "ext_width m = Some w" "length s < 256 ^ w"
    using ok by (auto split: option.splits)
  note m = sized_marker(3) [OF w(1), of b "at + 1"]
  have "drop (at + 1) b = be_nat w (length s) @ (t # s) @ rest"
    by (rule drop_Suc_tl [where x = m]) (use d MpExt w in simp)
  from be_len_be_nat [OF this w(2)] m w show ?thesis
    by (simp add: MpExt be_nat_def)
next
  case (MpFixArray vs)
  then show ?thesis using ok by (simp add: fix_markers)
next
  case (MpFixMap vs)
  then have "length vs div 2 < 16" "2 * (length vs div 2) = length vs"
    using ok by auto
  then show ?thesis by (simp add: MpFixMap fix_markers)
next
  case (MpArray m vs)
  then obtain w where w: "array_width m = Some w" "length vs < 256 ^ w"
    using ok by (auto split: option.splits)
  note m = sized_marker(4) [OF w(1), of b "at + 1"]
  have "drop (at + 1) b = be_nat w (length vs) @ rest"
    by (rule drop_Suc_tl [where x = m]) (use d MpArray w in simp)
  from be_len_be_nat [OF this w(2)] m w show ?thesis
    by (simp add: MpArray be_nat_def)
next
  case (MpMap m vs)
  then obtain w where w: "map_width m = Some w" "length vs div 2 < 256 ^ w" "even (length vs)"
    using ok by (auto split: option.splits)
  note m = sized_marker(5) [OF w(1), of b "at + 1"]
  have "drop (at + 1) b = be_nat w (length vs div 2) @ rest"
    by (rule drop_Suc_tl [where x = m]) (use d MpMap w in simp)
  from be_len_be_nat [OF this w(2)] m w show ?thesis
    by (simp add: MpMap be_nat_def)
qed

lemma mp_head_nonempty: "mp_head v \<noteq> []"
  by (cases v) simp_all

text \<open>One value: its head is read, then its children are expected on top of the stack.\<close>

lemma guard_loop_head:
  assumes ok: "mp_ok v" and d: "drop at b = mp_head v @ rest" and l: "length st < MAX_MSGPACK_DEPTH"
  shows "guard_loop b (Suc r # st) at = guard_loop b (length (mp_kids v) # r # st) (at + length (mp_head v))"
proof -
  from mp_head_marker [OF ok d] obtain w skip where
    m: "msgpack_marker b (at + 1) (hd (mp_head v)) = Inr (w, skip, length (mp_kids v))"
    and len: "1 + w + skip = length (mp_head v)" by blast
  from mp_head_nonempty [of v] obtain x xs where x: "mp_head v = x # xs" by (cases "mp_head v") auto
  have "length (drop at b) = length (mp_head v) + length rest" by (simp add: d)
  then have bound: "at + length (mp_head v) \<le> length b" and at: "at < length b"
    using mp_head_nonempty [of v] by (cases "length (mp_head v)"; simp)+
  have "b ! at = hd (mp_head v)"
    using at d by (metis hd_append2 hd_drop_conv_nth mp_head_nonempty)
  then show ?thesis
    using m bound at l by (subst guard_loop.simps(3)) (simp add: Let_def len [symmetric] add.assoc del: One_nat_def)
qed

lemma guard_loop_value:
  "mp_ok v \<Longrightarrow> drop at b = mp_bytes v @ rest \<Longrightarrow>
     guard_loop b (Suc r # st) at =
       (if length st + mp_height v \<le> MAX_MSGPACK_DEPTH then guard_loop b (r # st) (at + length (mp_bytes v))
        else Inl too_deep)"
proof (induction "size v" arbitrary: v at r st rest rule: less_induct)
  case less
  show ?case
  proof (cases "length st < MAX_MSGPACK_DEPTH")
    case False
    then show ?thesis
      using mp_height_kids [of v] by (subst guard_loop.simps(3)) simp
  next
    case True
    have kids: "guard_loop b (length vs # st') at' =
       (if \<forall>c\<in>set vs. length st' + mp_height c \<le> MAX_MSGPACK_DEPTH
        then guard_loop b st' (at' + length (concat (map mp_bytes vs))) else Inl too_deep)"
      if "set vs \<subseteq> set (mp_kids v)" "drop at' b = concat (map mp_bytes vs) @ rest'" for vs st' at' rest'
      using that
    proof (induction vs arbitrary: at')
      case Nil
      then show ?case by simp
    next
      case (Cons c vs)
      have c: "c \<in> set (mp_kids v)" using Cons.prems by simp
      then have "size c < size v"
        by (cases v) (auto dest: size_list_estimation' [OF _ order_refl, where f = size] simp: less_Suc_eq_le)
      have d: "drop at' b = mp_bytes c @ concat (map mp_bytes vs) @ rest'"
        using Cons.prems by simp
      note step = less.hyps [OF \<open>size c < size v\<close> mp_ok_kids [OF less.prems(1) c] d, of "length vs" st']
      have "guard_loop b (length vs # st') (at' + length (mp_bytes c)) =
        (if \<forall>c\<in>set vs. length st' + mp_height c \<le> MAX_MSGPACK_DEPTH
         then guard_loop b st' (at' + length (mp_bytes c) + length (concat (map mp_bytes vs))) else Inl too_deep)"
        using Cons.prems(1) by (intro Cons.IH drop_add_append [OF d]) simp
      with step show ?case by (simp add: add.assoc)
    qed
    have d: "drop at b = mp_head v @ concat (map mp_bytes (mp_kids v)) @ rest"
      using less.prems(2) by (simp add: mp_bytes_head)
    have "guard_loop b (Suc r # st) at = guard_loop b (length (mp_kids v) # r # st) (at + length (mp_head v))"
      by (rule guard_loop_head [OF less.prems(1) d True])
    also have "\<dots> = (if \<forall>c\<in>set (mp_kids v). length (r # st) + mp_height c \<le> MAX_MSGPACK_DEPTH
        then guard_loop b (r # st) (at + length (mp_head v) + length (concat (map mp_bytes (mp_kids v))))
        else Inl too_deep)"
      by (rule kids [OF order_refl drop_add_append [OF d]])
    also have "(\<forall>c\<in>set (mp_kids v). length (r # st) + mp_height c \<le> MAX_MSGPACK_DEPTH)
        \<longleftrightarrow> length st + mp_height v \<le> MAX_MSGPACK_DEPTH"
      using True foldr_max_le [of mp_height "mp_kids v" "MAX_MSGPACK_DEPTH - Suc (length st)"]
      by (auto simp: mp_height_kids [of v] le_diff_conv2)
    finally show ?thesis by (simp add: mp_bytes_head [of v] add.assoc)
  qed
qed

text \<open>The guard is exact: it accepts the bytes of a value exactly when the value is nested at most 16 deep.\<close>

lemma guard_mp_bytes:
  assumes "mp_ok v"
  shows "guard_msgpack_depth (mp_bytes v @ rest) =
           (if mp_height v \<le> MAX_MSGPACK_DEPTH then Inr () else Inl too_deep)"
  using guard_loop_value [OF assms, of 0 "mp_bytes v @ rest" rest 0 "[]"]
  by (simp add: guard_msgpack_depth_def)

text \<open>An element of the deepest container adds one to the height and nothing to the nesting.\<close>

lemma foldr_max_close:
  "(\<And>x. x \<in> set xs \<Longrightarrow> f x \<le> g x \<and> g x \<le> Suc (f x)) \<Longrightarrow>
     foldr max (map f xs) 0 \<le> foldr max (map g xs) (0::nat) \<and> foldr max (map g xs) 0 \<le> Suc (foldr max (map f xs) 0)"
proof (induction xs)
  case (Cons x xs)
  have "f x \<le> g x \<and> g x \<le> Suc (f x)" using Cons.prems by simp
  moreover have "foldr max (map f xs) 0 \<le> foldr max (map g xs) 0 \<and> foldr max (map g xs) 0 \<le> Suc (foldr max (map f xs) 0)"
    by (rule Cons.IH) (simp add: Cons.prems)
  ultimately show ?case by (simp only: foldr.simps list.map comp_def) linarith
qed simp

lemma nesting_height: "mp_nesting v \<le> mp_height v \<and> mp_height v \<le> Suc (mp_nesting v)"
  by (induction v) (auto simp: foldr_max_close)

subsection \<open>Properties\<close>

text \<open>
  C4. The guard decides a bound on nesting, on the wire bytes of any well-formed MessagePack value and whatever follows them.
  It accepts exactly the values whose deepest element lies within 16 levels, the element itself counted. So every value of at most
  15 nested containers passes and none of 17 or more does. The documented bound is 16 containers: at exactly 16 the code
  refuses a value unless its deepest containers are empty.
\<close>

theorem msgpack_guard_exact:
  assumes "mp_ok v"
  shows "guard_msgpack_depth (mp_bytes v @ rest) = (if mp_height v \<le> MAX_MSGPACK_DEPTH then Inr () else Inl too_deep)
    \<and> (mp_nesting v < MAX_MSGPACK_DEPTH \<longrightarrow> guard_msgpack_depth (mp_bytes v @ rest) = Inr ())
    \<and> (MAX_MSGPACK_DEPTH < mp_nesting v \<longrightarrow> guard_msgpack_depth (mp_bytes v @ rest) = Inl too_deep)"
  using guard_mp_bytes [OF assms, of rest] nesting_height [of v] by simp

text \<open>Sixteen arrays around a number are refused, fifteen are accepted.\<close>

definition nested_arrays :: "nat \<Rightarrow> mp" where
  "nested_arrays n = ((\<lambda>v. MpFixArray [v]) ^^ n) (MpAtom 1)"

lemma nested_arrays_facts:
  "mp_ok (nested_arrays n)" "mp_nesting (nested_arrays n) = n" "mp_height (nested_arrays n) = Suc n"
  "mp_bytes (nested_arrays n) = replicate n 0x91 @ [1]"
  by (induction n) (simp_all add: nested_arrays_def)

theorem msgpack_guard_exact_witness:
  "mp_nesting (nested_arrays 15) = 15 \<and> guard_msgpack_depth (replicate 15 0x91 @ [1, 0xff]) = Inr ()
   \<and> mp_nesting (nested_arrays 16) = 16 \<and> guard_msgpack_depth (replicate 16 0x91 @ [1, 0xff]) = Inl too_deep"
  using msgpack_guard_exact [OF nested_arrays_facts(1) [of 15], of "[0xff]"]
    msgpack_guard_exact [OF nested_arrays_facts(1) [of 16], of "[0xff]"]
  by (simp add: nested_arrays_facts MAX_MSGPACK_DEPTH_def)

end
