(* ===== verification/Msgpack.thy ===== *)
theory Msgpack
  imports Msgpack_Guard
begin

section \<open>MessagePack documents (\<open>rmp_serde\<close>) and JSON values (\<open>serde_json\<close>)\<close>

text \<open>
  \<open>rmp_serde\<close> is a package outside the repository: for each document type it is a pair of functions,
  an argument of the definitions that use it. \<open>mp_carries M x\<close> is what the code relies on for one
  document \<open>x\<close>: it is written as a MessagePack value that the guard passes and read back.

  \<open>json\<close> is \<open>serde_json::Value\<close> with its three internal number forms; \<open>f64\<close> values are bit patterns.
  A map keeps its entries in key order, as the default \<open>BTreeMap\<close> does.
\<close>

record 'a msgpack =
  mp_enc :: "'a \<Rightarrow> bytes option"
  mp_dec :: "bytes \<Rightarrow> 'a option"

definition mp_carries :: "'a msgpack \<Rightarrow> 'a \<Rightarrow> bool" where
  "mp_carries M x \<longleftrightarrow>
     (\<exists>v. mp_enc M x = Some (mp_bytes v) \<and> mp_ok v \<and> mp_height v \<le> MAX_MSGPACK_DEPTH
        \<and> mp_dec M (mp_bytes v) = Some x)"

text \<open>Guard, then \<open>from_slice\<close>: the shape every MessagePack decoder of the format has.\<close>

definition guarded_dec :: "'a msgpack \<Rightarrow> string \<Rightarrow> bytes \<Rightarrow> 'a res" where
  "guarded_dec M what b = tryR (guard_msgpack_depth b) (\<lambda>_. ok_or (mp_dec M b) (Corrupt what))"

lemma guarded_dec_carries:
  "mp_carries M x \<Longrightarrow> mp_enc M x = Some bs \<Longrightarrow> guarded_dec M what bs = Inr x"
  by (auto simp: mp_carries_def guarded_dec_def guard_mp_bytes [where rest = "[]", simplified])

lemma mp_carries_enc: "mp_carries M x \<Longrightarrow> \<exists>bs. mp_enc M x = Some bs"
  by (auto simp: mp_carries_def)

lemma guarded_dec_corrupt [simp, intro]: "only_corrupt (guarded_dec M what b)"
  by (auto simp: guarded_dec_def)

text \<open>A document whose nesting exceeds the bound is refused, whatever the decoder would do.\<close>

lemma guarded_dec_deep:
  "mp_ok v \<Longrightarrow> MAX_MSGPACK_DEPTH < mp_height v \<Longrightarrow> guarded_dec M what (mp_bytes v) = Inl too_deep"
  by (simp add: guarded_dec_def guard_mp_bytes [where rest = "[]", simplified])

datatype jnum = PosInt u64 | NegInt u64 | Flt u64

datatype json =
    JNull
  | JBool bool
  | JNum jnum
  | JStr string
  | JArr "json list"
  | JObj "(string \<times> json) list"

end
