(* ===== verification/Instances.thy ===== *)
theory Instances
  imports Compression Msgpack
begin

section \<open>Concrete packages for the examples\<close>

text \<open>
  Functions that stand for the packages outside the repository in the worked examples that follow a theorem: a
  checksum, identity compression, and a MessagePack codec that knows one document. They show that the hypotheses
  the theorems state about those packages can hold together.
\<close>

definition sum_crc :: "bytes \<Rightarrow> u32" where
  "sum_crc b = word_of_nat (sum_list (map unat b))"

definition id_compressors :: compressors where
  "id_compressors = \<lparr>lz4_compress = id, lz4_decompress = Some, zstd_encode = Some, zstd_decode = Some\<rparr>"

definition one_doc :: "'a \<Rightarrow> 'a msgpack" where
  "one_doc x = \<lparr>mp_enc = (\<lambda>_. Some [0xc0]), mp_dec = (\<lambda>_. Some x)\<rparr>"

lemma id_codec_ok [simp]: "codec_ok id_compressors c data"
  by (cases c) (simp_all add: codec_ok_def id_compressors_def)

lemma one_doc_carries [simp]: "mp_carries (one_doc x) x"
  by (auto simp: mp_carries_def one_doc_def MAX_MSGPACK_DEPTH_def intro!: exI [of _ "MpAtom 0xc0"])

lemma one_doc_enc [simp]: "mp_enc (one_doc x) y = Some [0xc0]"
  by (simp add: one_doc_def)

text \<open>A codec that knows two documents.\<close>

definition two_docs :: "'a \<Rightarrow> 'a \<Rightarrow> 'a msgpack" where
  "two_docs x y = \<lparr>mp_enc = (\<lambda>d. Some (if d = x then [0xc0] else [0xc2])),
                   mp_dec = (\<lambda>b. Some (if b = [0xc0] then x else y))\<rparr>"

lemma two_docs_carries [simp]: "mp_carries (two_docs x y) x" "x \<noteq> y \<Longrightarrow> mp_carries (two_docs x y) y"
proof -
  show "mp_carries (two_docs x y) x"
    unfolding mp_carries_def by (rule exI [of _ "MpAtom 0xc0"]) (simp add: two_docs_def MAX_MSGPACK_DEPTH_def)
  show "x \<noteq> y \<Longrightarrow> mp_carries (two_docs x y) y"
    unfolding mp_carries_def by (rule exI [of _ "MpAtom 0xc2"]) (simp add: two_docs_def MAX_MSGPACK_DEPTH_def)
qed

lemma two_docs_enc: "mp_enc (two_docs x y) d = Some (if d = x then [0xc0] else [0xc2])"
  by (simp add: two_docs_def)

end
