(* ===== verification/Headers.thy ===== *)
theory Headers
  imports Le_Bytes
begin

unbundle bit_operations_syntax

section \<open>The 4 KiB file header (\<open>storage/header.rs\<close>)\<close>

text \<open>
  \<open>Header::encode\<close> fills a zeroed page field by field (\<open>put\<close> is \<open>copy_from_slice\<close>) and embeds
  the CRC last; \<open>Header::decode\<close> checks magic, CRC and \<open>min_reader_version\<close> in that order. \<open>crc\<close> is
  \<open>crc32fast\<close> over the two covered ranges; the round trip holds for every such function.
\<close>

definition MAGIC :: bytes where "MAGIC = [0x56, 0x45, 0x43, 0x4C]"
definition FORMAT_VERSION :: u32 where "FORMAT_VERSION = 1"
definition SUPPORTED_READER_VERSION :: u32 where "SUPPORTED_READER_VERSION = 1"
definition HEADER_SIZE :: nat where "HEADER_SIZE = 4096"
definition FLAG_CLEAN_CLOSE :: u64 where "FLAG_CLEAN_CLOSE = push_bit 0 1"

definition CRC_HEAD_END :: nat where "CRC_HEAD_END = 12"
definition CRC_FIELD_END :: nat where "CRC_FIELD_END = 16"
definition CRC_COVER_END :: nat where "CRC_COVER_END = 256"

record header =
  format_version :: u32
  min_reader_version :: u32
  flags :: u64
  toc_offset :: u64
  toc_len :: u64
  toc_crc32 :: u32
  file_uuid :: bytes
  created_epoch_s :: u64
  modified_epoch_s :: u64

definition header_new :: "bytes \<Rightarrow> u64 \<Rightarrow> header" where
  "header_new uuid created =
     \<lparr>format_version = FORMAT_VERSION, min_reader_version = SUPPORTED_READER_VERSION, flags = 0,
      toc_offset = 0, toc_len = 0, toc_crc32 = 0, file_uuid = uuid,
      created_epoch_s = created, modified_epoch_s = created\<rparr>"

definition header_crc :: "(bytes \<Rightarrow> u32) \<Rightarrow> bytes \<Rightarrow> u32" where
  "header_crc crc buf = crc (slice_of buf 0 CRC_HEAD_END @ slice_of buf CRC_FIELD_END CRC_COVER_END)"

definition header_encode :: "(bytes \<Rightarrow> u32) \<Rightarrow> header \<Rightarrow> bytes" where
  "header_encode crc h =
     (let b = replicate HEADER_SIZE 0;
          b = put 0 MAGIC b;
          b = put 4 (to_le 4 (format_version h)) b;
          b = put 8 (to_le 4 (min_reader_version h)) b;
          b = put 16 (to_le 8 (flags h)) b;
          b = put 24 (to_le 8 (toc_offset h)) b;
          b = put 32 (to_le 8 (toc_len h)) b;
          b = put 40 (to_le 4 (toc_crc32 h)) b;
          b = put 48 (file_uuid h) b;
          b = put 64 (to_le 8 (created_epoch_s h)) b;
          b = put 72 (to_le 8 (modified_epoch_s h)) b
      in put 12 (to_le 4 (header_crc crc b)) b)"

definition header_corrupt :: "string \<Rightarrow> vec_lite_error" where
  "header_corrupt what = Corrupt (''header: '' @ what)"

definition header_decode :: "(bytes \<Rightarrow> u32) \<Rightarrow> bytes \<Rightarrow> header res" where
  "header_decode crc buf =
     (if length buf < HEADER_SIZE then Inl (header_corrupt ''header too short'')
      else if slice_of buf 0 4 \<noteq> MAGIC then Inl (header_corrupt ''bad magic'')
      else
        tryR (le_u32 buf 12 ''header'') (\<lambda>stored_crc.
        if header_crc crc buf \<noteq> stored_crc then Inl (header_corrupt ''crc mismatch'')
        else
        tryR (le_u32 buf 8 ''header'') (\<lambda>minv.
        if minv > SUPPORTED_READER_VERSION
        then Inl (UnsupportedFormatVersion minv SUPPORTED_READER_VERSION)
        else
        tryR (le_u32 buf 4 ''header'') (\<lambda>fv.
        tryR (le_u64 buf 16 ''header'') (\<lambda>fl.
        tryR (le_u64 buf 24 ''header'') (\<lambda>toff.
        tryR (le_u64 buf 32 ''header'') (\<lambda>tlen.
        tryR (le_u32 buf 40 ''header'') (\<lambda>tcrc.
        tryR (le_u64 buf 64 ''header'') (\<lambda>created.
        tryR (le_u64 buf 72 ''header'') (\<lambda>modified.
          Inr \<lparr>format_version = fv, min_reader_version = minv, flags = fl, toc_offset = toff,
               toc_len = tlen, toc_crc32 = tcrc, file_uuid = slice_of buf 48 64,
               created_epoch_s = created, modified_epoch_s = modified\<rparr>))))))))))"

definition clean_close :: "header \<Rightarrow> bool" where
  "clean_close h \<longleftrightarrow> flags h AND FLAG_CLEAN_CLOSE \<noteq> 0"

subsection \<open>Round trip\<close>

text \<open>The page before the CRC is embedded.\<close>

definition header_page :: "header \<Rightarrow> bytes" where
  "header_page h =
     put 72 (to_le 8 (modified_epoch_s h)) (put 64 (to_le 8 (created_epoch_s h))
      (put 48 (file_uuid h) (put 40 (to_le 4 (toc_crc32 h)) (put 32 (to_le 8 (toc_len h))
      (put 24 (to_le 8 (toc_offset h)) (put 16 (to_le 8 (flags h)) (put 8 (to_le 4 (min_reader_version h))
      (put 4 (to_le 4 (format_version h)) (put 0 MAGIC (replicate HEADER_SIZE 0))))))))))"

lemma header_encode_page:
  "header_encode crc h = put 12 (to_le 4 (header_crc crc (header_page h))) (header_page h)"
  by (simp add: header_encode_def header_page_def Let_def)

lemma length_MAGIC [simp]: "length MAGIC = 4"
  by (simp add: MAGIC_def)

lemma length_header_page: "length (file_uuid h) = 16 \<Longrightarrow> length (header_page h) = 4096"
  by (simp add: header_page_def length_put HEADER_SIZE_def)

lemma length_header_encode: "length (file_uuid h) = 16 \<Longrightarrow> length (header_encode crc h) = 4096"
  by (simp add: header_encode_page length_put length_header_page)

lemma header_encode_crc:
  "length (file_uuid h) = 16 \<Longrightarrow> header_crc crc (header_encode crc h) = header_crc crc (header_page h)"
  by (simp add: header_encode_page header_crc_def slice_put_other length_header_page
      CRC_HEAD_END_def CRC_FIELD_END_def CRC_COVER_END_def)

lemma header_field:
  assumes uuid: "length (file_uuid h) = 16"
  shows "slice_of (header_encode crc h) 0 4 = MAGIC"
  "slice_of (header_encode crc h) 4 8 = to_le 4 (format_version h)"
  "slice_of (header_encode crc h) 8 12 = to_le 4 (min_reader_version h)"
  "slice_of (header_encode crc h) 12 16 = to_le 4 (header_crc crc (header_page h))"
  "slice_of (header_encode crc h) 16 24 = to_le 8 (flags h)"
  "slice_of (header_encode crc h) 24 32 = to_le 8 (toc_offset h)"
  "slice_of (header_encode crc h) 32 40 = to_le 8 (toc_len h)"
  "slice_of (header_encode crc h) 40 44 = to_le 4 (toc_crc32 h)"
  "slice_of (header_encode crc h) 48 64 = file_uuid h"
  "slice_of (header_encode crc h) 64 72 = to_le 8 (created_epoch_s h)"
  "slice_of (header_encode crc h) 72 80 = to_le 8 (modified_epoch_s h)"
  by (simp_all add: header_encode_page header_page_def slice_put_at slice_put_other length_put uuid HEADER_SIZE_def)

lemma header_decode_encode:
  assumes "length (file_uuid h) = 16" and "min_reader_version h \<le> SUPPORTED_READER_VERSION"
  shows "header_decode crc (header_encode crc h) = Inr h"
proof -
  note f = header_field [OF assms(1)] length_header_encode [OF assms(1)]
  have r: "le_u32 (header_encode crc h) 12 c = Inr (header_crc crc (header_page h))"
    "le_u32 (header_encode crc h) 8 c = Inr (min_reader_version h)"
    "le_u32 (header_encode crc h) 4 c = Inr (format_version h)"
    "le_u64 (header_encode crc h) 16 c = Inr (flags h)"
    "le_u64 (header_encode crc h) 24 c = Inr (toc_offset h)"
    "le_u64 (header_encode crc h) 32 c = Inr (toc_len h)"
    "le_u32 (header_encode crc h) 40 c = Inr (toc_crc32 h)"
    "le_u64 (header_encode crc h) 64 c = Inr (created_epoch_s h)"
    "le_u64 (header_encode crc h) 72 c = Inr (modified_epoch_s h)" for c
    by (simp_all add: le_Inr_iff f)
  show ?thesis
    using assms(2)
    by (simp add: header_decode_def f(1,9,12) r header_encode_crc [OF assms(1)] HEADER_SIZE_def not_less)
qed

text \<open>The only other error is the version refusal, and it comes after magic and CRC.\<close>

lemma header_decode_errors:
  "header_decode crc buf = Inl e \<Longrightarrow>
     (\<exists>m. e = Corrupt m) \<or> (\<exists>v. e = UnsupportedFormatVersion v SUPPORTED_READER_VERSION \<and> v > SUPPORTED_READER_VERSION)"
  by (auto simp: header_decode_def header_corrupt_def tryR_eq_Inl dest!: le_Inl_corrupt split: if_splits)

lemma header_decode_take:
  assumes "HEADER_SIZE \<le> length buf"
  shows "header_decode crc (take HEADER_SIZE buf) = header_decode crc buf"
proof -
  have le: "4096 \<le> length buf"
    using assms by (simp add: HEADER_SIZE_def)
  have r32: "le_u32 (take 4096 buf) i c = le_u32 buf i c" if "i + 4 \<le> 4096" for i c
    by (rule u32f.rd_take) (use that le in simp_all)
  have r64: "le_u64 (take 4096 buf) i c = le_u64 buf i c" if "i + 8 \<le> 4096" for i c
    by (rule u64f.rd_take) (use that le in simp_all)
  have sl: "slice_of (take 4096 buf) i j = slice_of buf i j" if "j \<le> 4096" for i j
    using that by (rule slice_of_take)
  show ?thesis
    using le by (simp add: header_decode_def header_crc_def HEADER_SIZE_def CRC_HEAD_END_def
        CRC_FIELD_END_def CRC_COVER_END_def sl r32 r64 cong: if_cong)
qed

lemma header_decode_uuid: "header_decode crc buf = Inr h \<Longrightarrow> length (file_uuid h) = 16"
  by (auto simp: header_decode_def tryR_eq_Inr HEADER_SIZE_def split: if_splits)

subsection \<open>Properties\<close>

text \<open>
  The header page round-trips: every field written by \<open>Header::encode\<close> is read back by \<open>Header::decode\<close>, for
  every checksum function and any 16-byte uuid, as long as the file does not ask for a newer reader.
\<close>

theorem header_round_trip:
  assumes "length (file_uuid h) = 16" and "min_reader_version h \<le> SUPPORTED_READER_VERSION"
  shows "header_decode crc (header_encode crc h) = Inr h"
  using assms by (rule header_decode_encode)

theorem header_round_trip_witness:
  "header_decode (\<lambda>b. word_of_nat (length b)) (header_encode (\<lambda>b. word_of_nat (length b))
     ((header_new (replicate 16 5) 77)\<lparr>toc_offset := 4096, toc_len := 12\<rparr>)) =
   Inr ((header_new (replicate 16 5) 77)\<lparr>toc_offset := 4096, toc_len := 12\<rparr>)"
  by (rule header_round_trip) (simp_all add: header_new_def SUPPORTED_READER_VERSION_def)

end
