(* ===== verification/Segments.thy ===== *)
theory Segments
  imports Instances Compression
begin

section \<open>Segment framing (\<open>storage/segment.rs\<close>)\<close>

text \<open>
  The 32-byte segment header, the type tags with their replay rank, and \<open>Segment::encode\<close> and
  \<open>Segment::read\<close>. \<open>crc\<close> stands for \<open>crc32fast::hash\<close>, a package outside the repository; no lemma
  here needs a property of it. Lengths are \<open>usize\<close> (64 bits): a body is shorter than \<open>2 ^ 64\<close>.
\<close>

definition SEGMENT_HEADER_SIZE :: nat where "SEGMENT_HEADER_SIZE = 32"
definition DATABASE_SCOPE :: u32 where "DATABASE_SCOPE = 0xFFFFFFFF"
definition COMPRESS_THRESHOLD :: nat where "COMPRESS_THRESHOLD = 1024"

datatype segment_type =
  SegConfig | SegVectors | SegTombstone | SegPayload | SegPidx | SegSparse | SegHnsw | SegVocab | SegIddir

fun seg_to_byte :: "segment_type \<Rightarrow> u8" where
  "seg_to_byte SegConfig = 1"
| "seg_to_byte SegVectors = 2"
| "seg_to_byte SegTombstone = 3"
| "seg_to_byte SegPayload = 4"
| "seg_to_byte SegPidx = 5"
| "seg_to_byte SegSparse = 6"
| "seg_to_byte SegHnsw = 7"
| "seg_to_byte SegVocab = 8"
| "seg_to_byte SegIddir = 9"

fun replay_rank :: "segment_type \<Rightarrow> u8" where
  "replay_rank SegConfig = 0"
| "replay_rank SegIddir = 1"
| "replay_rank SegVectors = 2"
| "replay_rank SegTombstone = 3"
| "replay_rank SegPayload = 4"
| "replay_rank SegPidx = 5"
| "replay_rank SegSparse = 6"
| "replay_rank SegVocab = 7"
| "replay_rank SegHnsw = 8"

definition seg_from_byte :: "u8 \<Rightarrow> segment_type res" where
  "seg_from_byte b =
     (if b = 1 then Inr SegConfig
      else if b = 2 then Inr SegVectors
      else if b = 3 then Inr SegTombstone
      else if b = 4 then Inr SegPayload
      else if b = 5 then Inr SegPidx
      else if b = 6 then Inr SegSparse
      else if b = 7 then Inr SegHnsw
      else if b = 8 then Inr SegVocab
      else if b = 9 then Inr SegIddir
      else Inl (Corrupt (''segment: unknown seg_type '' @ show_nat (unat b))))"

record segment =
  sg_type :: segment_type
  sg_flags :: u16
  sg_coll :: u32
  sg_body :: bytes

definition codec_for :: "segment_type \<Rightarrow> codec \<Rightarrow> nat \<Rightarrow> codec" where
  "codec_for t requested body_len =
     (if t = SegVectors \<or> body_len < COMPRESS_THRESHOLD then Codec_None else requested)"

definition segment_encode :: "compressors \<Rightarrow> (bytes \<Rightarrow> u32) \<Rightarrow> segment \<Rightarrow> codec \<Rightarrow> bytes res" where
  "segment_encode X crc s c =
     tryR (compress X c (sg_body s)) (\<lambda>stored.
       Inr ([seg_to_byte (sg_type s), codec_to_byte c]
            @ to_le 2 (sg_flags s)
            @ to_le 4 (sg_coll s)
            @ to_le 8 (word_of_nat (length stored) :: u64)
            @ to_le 8 (word_of_nat (length (sg_body s)) :: u64)
            @ to_le 4 (crc stored)
            @ [0, 0, 0, 0]
            @ stored))"

definition seg_loc :: "u64 \<Rightarrow> string" where
  "seg_loc file_offset = ''segment@'' @ show_nat (unat file_offset)"

definition segment_read ::
  "compressors \<Rightarrow> (bytes \<Rightarrow> u32) \<Rightarrow> bytes \<Rightarrow> nat \<Rightarrow> u64 \<Rightarrow> (segment \<times> nat) res" where
  "segment_read X crc buf at file_offset =
     (if at + SEGMENT_HEADER_SIZE > length buf
      then Inl (Corrupt (seg_loc file_offset @ '': truncated header''))
      else
        tryR (seg_from_byte (buf ! at)) (\<lambda>t.
        tryR (codec_from_byte (buf ! (at + 1))) (\<lambda>c.
        tryR (le_u16 buf (at + 2) ''segment'') (\<lambda>flags.
        tryR (le_u32 buf (at + 4) ''segment'') (\<lambda>coll.
        tryR (le_u64 buf (at + 8) ''segment'') (\<lambda>blen.
        tryR (le_u64 buf (at + 16) ''segment'') (\<lambda>ulen.
        tryR (le_u32 buf (at + 24) ''segment'') (\<lambda>body_crc32.
          let body_len = unat blen;
              body_start = at + SEGMENT_HEADER_SIZE;
              body_end = body_start + body_len
          in if body_end > length buf
             then Inl (Corrupt (seg_loc file_offset @ '': body past end of file''))
             else
               let stored = slice_of buf body_start body_end
               in if crc stored \<noteq> body_crc32
                  then Inl (Corrupt (seg_loc file_offset @ '': body crc mismatch''))
                  else
                    (case decompress X c stored (unat ulen) of
                       Inl _ \<Rightarrow> Inl (Corrupt (seg_loc file_offset @ '': body decode failed''))
                     | Inr body \<Rightarrow>
                         Inr (\<lparr>sg_type = t, sg_flags = flags, sg_coll = coll, sg_body = body\<rparr>,
                              SEGMENT_HEADER_SIZE + body_len))))))))))"

subsection \<open>Tags and replay order\<close>

interpretation seg_tag: byte_tag seg_to_byte seg_from_byte
proof
  show "seg_from_byte (seg_to_byte x) = Inr x" for x
    by (cases x) (simp_all add: seg_from_byte_def)
  show "seg_from_byte b = Inr x \<Longrightarrow> seg_to_byte x = b" for b x
    by (auto simp: seg_from_byte_def split: if_splits)
  show "only_corrupt (seg_from_byte b)" for b
    by (auto simp: seg_from_byte_def)
qed

lemma replay_rank_inject: "replay_rank a = replay_rank b \<longleftrightarrow> a = b"
  by (cases a; cases b) simp_all

text \<open>Replay order is a linear order on the segment types.\<close>

instantiation segment_type :: linorder
begin

definition less_eq_segment_type :: "segment_type \<Rightarrow> segment_type \<Rightarrow> bool" where
  "less_eq_segment_type a b \<longleftrightarrow> replay_rank a \<le> replay_rank b"

definition less_segment_type :: "segment_type \<Rightarrow> segment_type \<Rightarrow> bool" where
  "less_segment_type a b \<longleftrightarrow> replay_rank a < replay_rank b"

instance
  by standard
    (auto simp: less_eq_segment_type_def less_segment_type_def less_le_not_le
      simp flip: replay_rank_inject)

end

lemma config_first: "SegConfig \<le> t"
  by (cases t) (simp_all add: less_eq_segment_type_def)

subsection \<open>Framing round trip\<close>

lemma segment_encode_form:
  "segment_encode X crc s c = Inr bs \<longleftrightarrow>
    (\<exists>stored. compress X c (sg_body s) = Inr stored \<and>
       bs = (seg_to_byte (sg_type s) # codec_to_byte c # to_le 2 (sg_flags s) @ to_le 4 (sg_coll s)
             @ to_le 8 (word_of_nat (length stored) :: u64)
             @ to_le 8 (word_of_nat (length (sg_body s)) :: u64)
             @ to_le 4 (crc stored) @ [0, 0, 0, 0]) @ stored)"
  by (simp add: segment_encode_def tryR_eq_Inr eq_commute [of bs])

lemma segment_encode_length:
  assumes "segment_encode X crc s c = Inr bs"
  shows "\<exists>stored. compress X c (sg_body s) = Inr stored \<and> length bs = SEGMENT_HEADER_SIZE + length stored"
  using assms by (auto simp: segment_encode_form SEGMENT_HEADER_SIZE_def)

text \<open>The header fields as \<open>segment_read\<close> sees them.\<close>

lemma segment_fields:
  assumes d: "drop at buf = (t # c # to_le 2 (f::u16) @ to_le 4 (i::u32) @ to_le 8 (bl::u64)
                @ to_le 8 (ul::u64) @ to_le 4 (k::u32) @ [0, 0, 0, 0]) @ rest"
  shows "at + 32 \<le> length buf" "buf ! at = t" "buf ! Suc at = c"
    "le_u16 buf (at + 2) ctx = Inr f" "le_u32 buf (at + 4) ctx = Inr i"
    "le_u64 buf (at + 8) ctx = Inr bl" "le_u64 buf (at + 16) ctx = Inr ul"
    "le_u32 buf (at + 24) ctx = Inr k" "drop (at + 32) buf = rest"
proof -
  have l: "length (drop at buf) = 32 + length rest"
    by (simp add: d)
  then show le: "at + 32 \<le> length buf" by simp
  show "buf ! at = t" "buf ! Suc at = c"
    using le nth_drop [of at buf 0] nth_drop [of at buf 1] by (simp_all add: d)
  have d2: "drop (at + 2) buf = to_le 2 f @ to_le 4 i @ to_le 8 bl @ to_le 8 ul @ to_le 4 k @ [0, 0, 0, 0] @ rest"
    by (rule drop_next [of at buf "[t, c]"]) (simp_all add: d)
  have d4: "drop (at + 4) buf = to_le 4 i @ to_le 8 bl @ to_le 8 ul @ to_le 4 k @ [0, 0, 0, 0] @ rest"
    by (rule drop_next [OF d2]) simp
  have d8: "drop (at + 8) buf = to_le 8 bl @ to_le 8 ul @ to_le 4 k @ [0, 0, 0, 0] @ rest"
    by (rule drop_next [OF d4]) simp
  have d16: "drop (at + 16) buf = to_le 8 ul @ to_le 4 k @ [0, 0, 0, 0] @ rest"
    by (rule drop_next [OF d8]) simp
  have d24: "drop (at + 24) buf = to_le 4 k @ [0, 0, 0, 0] @ rest"
    by (rule drop_next [OF d16]) simp
  show "drop (at + 32) buf = rest"
    by (rule drop_next [of at buf, OF d]) simp
  show "le_u16 buf (at + 2) ctx = Inr f" "le_u32 buf (at + 4) ctx = Inr i"
    "le_u64 buf (at + 8) ctx = Inr bl" "le_u64 buf (at + 16) ctx = Inr ul"
    "le_u32 buf (at + 24) ctx = Inr k"
    using le_drop(1) [OF d2] le_drop(2) [OF d4] le_drop(3) [OF d8] le_drop(3) [OF d16] le_drop(2) [OF d24]
    by simp_all
qed

lemma segment_read_encode [codec_simps]:
  assumes e: "segment_encode X crc s c = Inr bs"
    and d: "drop at buf = bs @ rest"
    and ok: "codec_ok X c (sg_body s)"
    and small: "length bs < 2 ^ 64" "length (sg_body s) < 2 ^ 64"
  shows "segment_read X crc buf at off = Inr (s, length bs)"
proof -
  from e obtain stored where st: "compress X c (sg_body s) = Inr stored"
    and bs: "bs = (seg_to_byte (sg_type s) # codec_to_byte c # to_le 2 (sg_flags s) @ to_le 4 (sg_coll s)
             @ to_le 8 (word_of_nat (length stored) :: u64)
             @ to_le 8 (word_of_nat (length (sg_body s)) :: u64)
             @ to_le 4 (crc stored) @ [0, 0, 0, 0]) @ stored"
    by (auto simp: segment_encode_form)
  have lens: "unat (word_of_nat (length stored) :: u64) = length stored"
    "unat (word_of_nat (length (sg_body s)) :: u64) = length (sg_body s)"
    using small by (simp_all add: bs unat_of_nat take_bit_eq_mod)
  note f = segment_fields [OF d [unfolded bs append_assoc]]
  have sl: "slice_of buf (at + 32) (at + 32 + length stored) = stored"
    by (simp add: slice_of_def f(9))
  have "length (drop (at + 32) buf) = length stored + length rest"
    by (simp add: f(9))
  then have le: "at + 32 + length stored \<le> length buf"
    using f(1) by simp
  show ?thesis
    using le
    by (simp add: f(1-8) segment_read_def SEGMENT_HEADER_SIZE_def seg_tag.from_to codec_tag.from_to lens sl
        decompress_compress [OF st ok] bs Let_def)
qed

lemma segment_read_only_corrupt: "only_corrupt (segment_read X crc buf at off)"
  unfolding segment_read_def
  by (auto intro!: only_corrupt_tryR seg_tag.from_corrupt codec_tag.from_corrupt simp: Let_def split: sum.splits)

text \<open>A successful read stays inside the buffer and looks at nothing outside its own bytes.\<close>

lemma segment_read_bounds:
  assumes "segment_read X crc buf at off = Inr (s, n)"
  shows "SEGMENT_HEADER_SIZE \<le> n \<and> at + n \<le> length buf"
  using assms
  by (auto simp: segment_read_def tryR_eq_Inr Let_def split: if_splits sum.splits)

lemma segment_read_truncated:
  assumes e: "segment_encode X crc s c = Inr bs" and n: "n < length bs" and small: "length bs < 2 ^ 64"
  shows "is_corrupt (segment_read X crc (take n bs) 0 off)"
proof (cases "n < 32")
  case True
  then show ?thesis
    by (simp add: segment_read_def SEGMENT_HEADER_SIZE_def min_less_iff_disj)
next
  case False
  from e obtain stored where
    bs: "bs = (seg_to_byte (sg_type s) # codec_to_byte c # to_le 2 (sg_flags s) @ to_le 4 (sg_coll s)
             @ to_le 8 (word_of_nat (length stored) :: u64)
             @ to_le 8 (word_of_nat (length (sg_body s)) :: u64)
             @ to_le 4 (crc stored) @ [0, 0, 0, 0]) @ stored"
    by (auto simp: segment_encode_form)
  have len: "unat (word_of_nat (length stored) :: u64) = length stored"
    using small by (simp add: bs unat_of_nat take_bit_eq_mod)
  have "drop 0 (take n bs) = (seg_to_byte (sg_type s) # codec_to_byte c # to_le 2 (sg_flags s) @ to_le 4 (sg_coll s)
             @ to_le 8 (word_of_nat (length stored) :: u64)
             @ to_le 8 (word_of_nat (length (sg_body s)) :: u64)
             @ to_le 4 (crc stored) @ [0, 0, 0, 0]) @ take (n - 32) stored"
    using False by (simp add: bs take_Cons')
  note f = segment_fields [OF this, unfolded add_0]
  have "length bs = 32 + length stored" by (simp add: bs)
  with n False have "\<not> 32 + length stored \<le> n" by simp
  then show ?thesis
    using f(1) by (simp add: f(2-8) segment_read_def SEGMENT_HEADER_SIZE_def seg_tag.from_to codec_tag.from_to
        len Let_def min_less_iff_disj)
qed

subsection \<open>Properties\<close>

text \<open>
  Reading back an encoded segment returns the segment and the number of bytes it takes, at any position of a
  file and whatever follows it, for every checksum function and every codec whose package inverts itself on
  this body.
\<close>

theorem segment_round_trip:
  assumes "segment_encode X crc s c = Inr bs" and "drop at buf = bs @ rest"
    and "codec_ok X c (sg_body s)" and "length bs < 2 ^ 64" and "length (sg_body s) < 2 ^ 64"
  shows "segment_read X crc buf at off = Inr (s, length bs)"
  using assms by (rule segment_read_encode)

theorem segment_round_trip_witness:
  "\<exists>bs. segment_encode id_compressors sum_crc
       \<lparr>sg_type = SegPayload, sg_flags = 0, sg_coll = 7, sg_body = [1, 2, 3]\<rparr> Codec_Lz4 = Inr bs
     \<and> segment_read id_compressors sum_crc ([0xAA] @ bs @ [0xBB]) 1 1 =
         Inr (\<lparr>sg_type = SegPayload, sg_flags = 0, sg_coll = 7, sg_body = [1, 2, 3]\<rparr>, 35)"
proof -
  let ?s = "\<lparr>sg_type = SegPayload, sg_flags = 0, sg_coll = 7, sg_body = [1, 2, 3]\<rparr>"
  obtain bs where bs: "segment_encode id_compressors sum_crc ?s Codec_Lz4 = Inr bs" "length bs = 35"
    by (simp add: segment_encode_def id_compressors_def)
  from segment_round_trip [OF this(1), of 1 "[0xAA] @ bs @ [0xBB]" "[0xBB]" 1] bs show ?thesis
    by simp
qed

text \<open>
  A segment cut anywhere before its last byte is reported as corruption, for every checksum: a torn append
  can never be read as a shorter segment.
\<close>

theorem segment_truncated_corrupt:
  assumes "segment_encode X crc s c = Inr bs" and "n < length bs" and "length bs < 2 ^ 64"
  shows "is_corrupt (segment_read X crc (take n bs) 0 off)"
  using assms by (rule segment_read_truncated)

theorem segment_truncated_corrupt_witness:
  "\<exists>bs. segment_encode id_compressors sum_crc
       \<lparr>sg_type = SegVectors, sg_flags = 0, sg_coll = 1, sg_body = [9, 9]\<rparr> Codec_None = Inr bs
     \<and> is_corrupt (segment_read id_compressors sum_crc (take 33 bs) 0 0)"
proof -
  let ?s = "\<lparr>sg_type = SegVectors, sg_flags = 0, sg_coll = 1, sg_body = [9, 9]\<rparr>"
  obtain bs where bs: "segment_encode id_compressors sum_crc ?s Codec_None = Inr bs" "length bs = 34"
    by (simp add: segment_encode_def id_compressors_def)
  from segment_truncated_corrupt [OF this(1), of 33 0] bs show ?thesis by simp
qed

end
