(* ===== verification/Tocs.thy ===== *)
theory Tocs
  imports Segments Msgpack "HOL-Library.Product_Lexorder" "HOL-Library.Multiset"
begin

section \<open>The table of contents (\<open>storage/toc.rs\<close>)\<close>

text \<open>
  The root document of a commit: per collection, the live segments in replay order. The stored order
  is canonical: \<open>sort_replay_order\<close> is a stable sort by type rank and then by offset.
\<close>

record seg_ref =
  rf_type :: u8
  rf_offset :: u64
  rf_len :: u64

record coll_entry =
  ce_coll_id :: u32
  ce_name :: string
  ce_aliases :: "string list"
  ce_vector_count :: u64
  ce_tombstone_count :: u64
  ce_live_segments :: "seg_ref list"

record toc =
  toc_generation :: u64
  toc_collections :: "coll_entry list"
  toc_free_tail_offset :: u64

definition replay_key :: "seg_ref \<Rightarrow> u8 \<times> u64" where
  "replay_key r = (case seg_from_byte (rf_type r) of Inl _ \<Rightarrow> 0xFF | Inr t \<Rightarrow> replay_rank t, rf_offset r)"

definition sort_replay_order :: "coll_entry \<Rightarrow> coll_entry" where
  "sort_replay_order e = e\<lparr>ce_live_segments := sort_key replay_key (ce_live_segments e)\<rparr>"

definition toc_encode :: "toc msgpack \<Rightarrow> toc \<Rightarrow> bytes res" where
  "toc_encode M t = ok_or (mp_enc M t) (Corrupt ''toc: encode failed: '')"

definition toc_decode :: "toc msgpack \<Rightarrow> bytes \<Rightarrow> toc res" where
  "toc_decode M b = guarded_dec M ''toc: '' b"

subsection \<open>Replay order\<close>

lemma sort_replay_mset: "mset (ce_live_segments (sort_replay_order e)) = mset (ce_live_segments e)"
  by (simp add: sort_replay_order_def)

lemma sort_replay_sorted: "sorted (map replay_key (ce_live_segments (sort_replay_order e)))"
  by (simp add: sort_replay_order_def)

lemma sort_replay_idem: "sort_replay_order (sort_replay_order e) = sort_replay_order e"
  by (simp add: sort_replay_order_def sorted_sort_id sort_key_id_if_sorted)

lemma replay_key_rank:
  "seg_from_byte (rf_type r) = Inr t \<Longrightarrow> fst (replay_key r) = replay_rank t"
  by (simp add: replay_key_def)

text \<open>In a sorted entry, whatever type ranks lower is replayed first.\<close>

lemma sort_replay_types:
  assumes "i < j" and "j < length (ce_live_segments e')" and e': "e' = sort_replay_order e"
    and "seg_from_byte (rf_type (ce_live_segments e' ! i)) = Inr s"
    and "seg_from_byte (rf_type (ce_live_segments e' ! j)) = Inr t"
  shows "s \<le> t"
proof -
  have "replay_key (ce_live_segments e' ! i) \<le> replay_key (ce_live_segments e' ! j)"
    using sorted_nth_mono [OF sort_replay_sorted [of e], of i j] assms(1,2) by (simp add: e')
  then have "replay_rank s \<le> replay_rank t"
    using assms(4,5) by (auto simp: less_eq_prod_def replay_key_def)
  then show ?thesis by (simp add: less_eq_segment_type_def)
qed

subsection \<open>Encoding\<close>

lemma toc_decode_encode [codec_simps]:
  "mp_carries M t \<Longrightarrow> toc_encode M t = Inr bs \<Longrightarrow> toc_decode M bs = Inr t"
  by (auto simp: toc_encode_def toc_decode_def intro: guarded_dec_carries)

lemma toc_encode_carries: "mp_carries M t \<Longrightarrow> \<exists>bs. toc_encode M t = Inr bs"
  using mp_carries_enc [of M t] by (auto simp: toc_encode_def)

lemma toc_decode_corrupt [simp, intro]: "only_corrupt (toc_decode M b)"
  by (simp add: toc_decode_def)

end
