(* ===== verification/Image.thy ===== *)
theory Image
  imports Instances Headers Tocs
begin

section \<open>The in-memory image codec (\<open>storage/image.rs\<close>)\<close>

text \<open>
  \<open>write_image\<close> assembles header page, segments and TOC in one buffer; \<open>read_image\<close> parses it back. The
  offset of a segment is the length of the buffer when it is appended. \<open>seg_at\<close> says that a reference points
  at the encoding of a segment; it survives appends and the header rewrite, and it is all that reading needs.
\<close>

record checkpoint_coll =
  cc_coll_id :: u32
  cc_name :: string
  cc_aliases :: "string list"
  cc_vector_count :: u64
  cc_tombstone_count :: u64
  cc_segments :: "segment list"
  cc_reused :: "seg_ref list option"

record image_coll =
  ic_entry :: coll_entry
  ic_segments :: "segment list"

definition checkpoint_entry :: "checkpoint_coll \<Rightarrow> seg_ref list \<Rightarrow> coll_entry" where
  "checkpoint_entry c refs = sort_replay_order
     \<lparr>ce_coll_id = cc_coll_id c, ce_name = cc_name c, ce_aliases = cc_aliases c,
      ce_vector_count = cc_vector_count c, ce_tombstone_count = cc_tombstone_count c,
      ce_live_segments = refs\<rparr>"

fun write_segments ::
  "compressors \<Rightarrow> (bytes \<Rightarrow> u32) \<Rightarrow> codec \<Rightarrow> segment list \<Rightarrow> bytes \<Rightarrow> (seg_ref list \<times> bytes) res" where
  "write_segments X crc codec [] buf = Inr ([], buf)"
| "write_segments X crc codec (seg # segs) buf =
     (let chosen = codec_for (sg_type seg) codec (length (sg_body seg))
      in tryR (segment_encode X crc seg chosen) (\<lambda>bs.
         let offset = word_of_nat (length buf)
         in tryR (write_segments X crc codec segs (buf @ bs)) (\<lambda>(refs, buf').
              Inr (\<lparr>rf_type = seg_to_byte (sg_type seg), rf_offset = offset,
                    rf_len = word_of_nat (length bs)\<rparr> # refs, buf'))))"

fun write_colls ::
  "compressors \<Rightarrow> (bytes \<Rightarrow> u32) \<Rightarrow> codec \<Rightarrow> checkpoint_coll list \<Rightarrow> bytes \<Rightarrow> (coll_entry list \<times> bytes) res" where
  "write_colls X crc codec [] buf = Inr ([], buf)"
| "write_colls X crc codec (c # cs) buf =
     (if cc_reused c \<noteq> None
      then Inl (Corrupt (''image: collection '' @ quoted (cc_name c)
             @ '' was carried forward (reused refs) but an image seals every segment fresh''))
      else
        tryR (write_segments X crc codec (cc_segments c) buf) (\<lambda>(refs, buf').
        tryR (write_colls X crc codec cs buf') (\<lambda>(es, buf''). Inr (checkpoint_entry c refs # es, buf''))))"

text \<open>The header a commit writes: \<open>toc_start\<close> and the TOC bytes decide it.\<close>

definition commit_header ::
  "(bytes \<Rightarrow> u32) \<Rightarrow> bytes \<Rightarrow> u64 \<Rightarrow> u64 \<Rightarrow> u64 \<Rightarrow> bytes \<Rightarrow> header" where
  "commit_header crc uuid created modified toc_start tbytes =
     (header_new uuid created)\<lparr>flags := FLAG_CLEAN_CLOSE, toc_offset := toc_start,
        toc_len := word_of_nat (length tbytes), toc_crc32 := crc tbytes, modified_epoch_s := modified\<rparr>"

definition write_image ::
  "compressors \<Rightarrow> (bytes \<Rightarrow> u32) \<Rightarrow> toc msgpack \<Rightarrow> bytes \<Rightarrow> u64 \<Rightarrow> u64 \<Rightarrow> u64
    \<Rightarrow> checkpoint_coll list \<Rightarrow> codec \<Rightarrow> bytes res" where
  "write_image X crc M uuid created modified generation colls codec =
     (let buf = replicate HEADER_SIZE 0
      in tryR (write_colls X crc codec colls buf) (\<lambda>(entries, buf).
         let toc_start = word_of_nat (length buf);
             toc = \<lparr>toc_generation = generation, toc_collections = entries, toc_free_tail_offset = toc_start\<rparr>
         in tryR (toc_encode M toc) (\<lambda>tbytes.
            let buf = buf @ tbytes;
                header = commit_header crc uuid created modified toc_start tbytes
            in Inr (put 0 (header_encode crc header) buf))))"

text \<open>\<open>bytes.get(off..off.saturating_add(len))\<close>.\<close>

definition get_range :: "bytes \<Rightarrow> nat \<Rightarrow> nat \<Rightarrow> bytes option" where
  "get_range b off len =
     (let e = min (off + len) (2 ^ 64 - 1)
      in if off \<le> e \<and> e \<le> length b then Some (slice_of b off e) else None)"

definition image_segment ::
  "compressors \<Rightarrow> (bytes \<Rightarrow> u32) \<Rightarrow> bytes \<Rightarrow> seg_ref \<Rightarrow> segment res" where
  "image_segment X crc b r =
     tryR (ok_or (get_range b (unat (rf_offset r)) (unat (rf_len r)))
             (Corrupt (''image: segment@'' @ show_nat (unat (rf_offset r)) @ '' out of range''))) (\<lambda>sbuf.
     tryR (segment_read X crc sbuf 0 (rf_offset r)) (\<lambda>(seg, n). Inr seg))"

definition read_image :: "compressors \<Rightarrow> (bytes \<Rightarrow> u32) \<Rightarrow> toc msgpack \<Rightarrow> bytes \<Rightarrow> image_coll list res" where
  "read_image X crc M b =
     (if length b < HEADER_SIZE then Inl (Corrupt ''image: shorter than 4 KiB'')
      else
        tryR (header_decode crc (take HEADER_SIZE b)) (\<lambda>h.
        tryR (ok_or (get_range b (unat (toc_offset h)) (unat (toc_len h)))
                (Corrupt ''image: TOC out of range'')) (\<lambda>tbuf.
        if crc tbuf \<noteq> toc_crc32 h then Inl (Corrupt ''image: TOC crc mismatch'')
        else
        tryR (toc_decode M tbuf) (\<lambda>toc.
          mapR (\<lambda>e. tryR (mapR (image_segment X crc b) (ce_live_segments e)) (\<lambda>segs.
                      Inr \<lparr>ic_entry = e, ic_segments = segs\<rparr>)) (toc_collections toc)))))"

subsection \<open>References\<close>

definition seg_at ::
  "compressors \<Rightarrow> (bytes \<Rightarrow> u32) \<Rightarrow> codec \<Rightarrow> bytes \<Rightarrow> seg_ref \<Rightarrow> segment \<Rightarrow> bool" where
  "seg_at X crc codec buf r s \<longleftrightarrow>
     (\<exists>bs. segment_encode X crc s (codec_for (sg_type s) codec (length (sg_body s))) = Inr bs
        \<and> rf_type r = seg_to_byte (sg_type s) \<and> unat (rf_len r) = length bs
        \<and> HEADER_SIZE \<le> unat (rf_offset r) \<and> unat (rf_offset r) + length bs \<le> length buf
        \<and> slice_of buf (unat (rf_offset r)) (unat (rf_offset r) + length bs) = bs)"

lemma seg_at_append: "seg_at X crc codec buf r s \<Longrightarrow> seg_at X crc codec (buf @ c) r s"
  by (auto simp: seg_at_def slice_of_append_left)

lemma seg_at_take:
  "seg_at X crc codec (take n buf) r s \<Longrightarrow> seg_at X crc codec buf r s"
  by (metis append_take_drop_id seg_at_append)

lemma seg_at_header:
  "length hdr = HEADER_SIZE \<Longrightarrow> HEADER_SIZE \<le> length buf \<Longrightarrow> seg_at X crc codec buf r s
     \<Longrightarrow> seg_at X crc codec (put 0 hdr buf) r s"
  by (auto simp: seg_at_def slice_put_other length_put)

lemma get_range_eq: "off + len \<le> length b \<Longrightarrow> length b < 2 ^ 64 \<Longrightarrow> get_range b off len = Some (slice_of b off (off + len))"
  by (simp add: get_range_def Let_def min_def)

definition seg_ok :: "compressors \<Rightarrow> codec \<Rightarrow> segment \<Rightarrow> bool" where
  "seg_ok X codec s \<longleftrightarrow> codec_ok X (codec_for (sg_type s) codec (length (sg_body s))) (sg_body s)
     \<and> length (sg_body s) < 2 ^ 64"

lemma image_segment_at:
  assumes at: "seg_at X crc codec buf r s" and ok: "seg_ok X codec s" and len: "length buf < 2 ^ 64"
  shows "image_segment X crc buf r = Inr s"
proof -
  from at obtain bs where e: "segment_encode X crc s (codec_for (sg_type s) codec (length (sg_body s))) = Inr bs"
    and r: "unat (rf_len r) = length bs" "unat (rf_offset r) + length bs \<le> length buf"
      "slice_of buf (unat (rf_offset r)) (unat (rf_offset r) + length bs) = bs"
    by (auto simp: seg_at_def)
  have "segment_read X crc bs 0 (rf_offset r) = Inr (s, length bs)"
    using ok r(2) len by (intro segment_read_encode [OF e, where rest = "[]"]) (simp_all add: seg_ok_def)
  then show ?thesis
    using r len by (simp add: image_segment_def get_range_eq)
qed

subsection \<open>What the writer leaves in the buffer\<close>

text \<open>Offsets grow: each reference starts where the one before it ended.\<close>

definition refs_from :: "nat \<Rightarrow> seg_ref list \<Rightarrow> bool" where
  "refs_from n refs \<longleftrightarrow> sorted_wrt (<) (map rf_offset refs) \<and> (\<forall>r\<in>set refs. n \<le> unat (rf_offset r))"

lemma segment_encode_nonempty: "segment_encode X crc s c = Inr bs \<Longrightarrow> 32 \<le> length bs"
  by (auto dest!: segment_encode_length simp: SEGMENT_HEADER_SIZE_def)

lemma write_segments_inv:
  "write_segments X crc codec segs buf = Inr (refs, buf') \<Longrightarrow> HEADER_SIZE \<le> length buf \<Longrightarrow> length buf' < 2 ^ 64 \<Longrightarrow>
     (\<exists>c. buf' = buf @ c) \<and> list_all2 (seg_at X crc codec buf') refs segs \<and> refs_from (length buf) refs"
proof (induction segs arbitrary: buf refs)
  case Nil
  then show ?case by (simp add: refs_from_def)
next
  case (Cons s segs)
  let ?c = "codec_for (sg_type s) codec (length (sg_body s))"
  from Cons.prems(1) obtain bs refs' where e: "segment_encode X crc s ?c = Inr bs"
    and w: "write_segments X crc codec segs (buf @ bs) = Inr (refs', buf')"
    and refs: "refs = \<lparr>rf_type = seg_to_byte (sg_type s), rf_offset = word_of_nat (length buf),
                   rf_len = word_of_nat (length bs)\<rparr> # refs'"
    by (auto simp: tryR_eq_Inr Let_def)
  from Cons.IH [OF w] Cons.prems(2,3) obtain c where IH: "buf' = buf @ bs @ c"
    "list_all2 (seg_at X crc codec buf') refs' segs" "refs_from (length buf + length bs) refs'"
    by auto
  have n: "unat (word_of_nat (length buf) :: u64) = length buf" "unat (word_of_nat (length bs) :: u64) = length bs"
    using Cons.prems(3) by (auto intro!: unat_u64 simp: IH(1))
  have at: "seg_at X crc codec buf' (hd refs) s"
    using e Cons.prems(2) n by (auto simp: seg_at_def refs IH(1) slice_of_mid)
  have "refs_from (length buf) refs"
    using IH(3) segment_encode_nonempty [OF e] n by (auto simp: refs_from_def refs word_less_nat_alt)
  then show ?case
    using IH at by (auto simp: refs)
qed

lemma list_all2_seg_at_append:
  "list_all2 (seg_at X crc codec buf) refs segs \<Longrightarrow> list_all2 (seg_at X crc codec (buf @ c)) refs segs"
  by (erule list_all2_mono) (rule seg_at_append)

text \<open>One collection in the buffer: its entry is the canonical one over references to its segments.\<close>

definition coll_at ::
  "compressors \<Rightarrow> (bytes \<Rightarrow> u32) \<Rightarrow> codec \<Rightarrow> bytes \<Rightarrow> coll_entry \<Rightarrow> checkpoint_coll \<Rightarrow> bool" where
  "coll_at X crc codec buf e c \<longleftrightarrow>
     (\<exists>refs. e = checkpoint_entry c refs \<and> list_all2 (seg_at X crc codec buf) refs (cc_segments c)
        \<and> sorted_wrt (<) (map rf_offset refs))"

lemma coll_at_append: "coll_at X crc codec buf e c \<Longrightarrow> coll_at X crc codec (buf @ d) e c"
  by (auto simp: coll_at_def intro: list_all2_seg_at_append)

lemma coll_at_header:
  "length hdr = HEADER_SIZE \<Longrightarrow> HEADER_SIZE \<le> length buf \<Longrightarrow> coll_at X crc codec buf e c
     \<Longrightarrow> coll_at X crc codec (put 0 hdr buf) e c"
  by (auto simp: coll_at_def elim!: list_all2_mono intro: seg_at_header)

lemma write_segments_extends:
  "write_segments X crc codec segs buf = Inr (refs, buf') \<Longrightarrow> \<exists>c. buf' = buf @ c"
  by (induction segs arbitrary: buf refs) (fastforce simp: tryR_eq_Inr Let_def)+

lemma write_colls_extends:
  "write_colls X crc codec cs buf = Inr (es, buf') \<Longrightarrow> \<exists>c. buf' = buf @ c"
proof (induction cs arbitrary: buf es)
  case (Cons c cs)
  from Cons.prems obtain refs b1 es' where
    w: "write_segments X crc codec (cc_segments c) buf = Inr (refs, b1)" "write_colls X crc codec cs b1 = Inr (es', buf')"
    by (auto simp: tryR_eq_Inr split: if_splits)
  from write_segments_extends [OF w(1)] Cons.IH [OF w(2)] show ?case by auto
qed simp

lemma write_colls_inv:
  "write_colls X crc codec cs buf = Inr (es, buf') \<Longrightarrow> HEADER_SIZE \<le> length buf \<Longrightarrow> length buf' < 2 ^ 64 \<Longrightarrow>
     list_all2 (coll_at X crc codec buf') es cs"
proof (induction cs arbitrary: buf es)
  case Nil
  then show ?case by simp
next
  case (Cons c cs)
  from Cons.prems(1) obtain refs b1 es' where
    w: "write_segments X crc codec (cc_segments c) buf = Inr (refs, b1)" "write_colls X crc codec cs b1 = Inr (es', buf')"
    and es: "es = checkpoint_entry c refs # es'"
    by (auto simp: tryR_eq_Inr split: if_splits)
  obtain d where d: "b1 = buf @ d" using write_segments_extends [OF w(1)] by blast
  obtain d' where d': "buf' = b1 @ d'" using write_colls_extends [OF w(2)] by blast
  have "list_all2 (seg_at X crc codec b1) refs (cc_segments c)" "refs_from (length buf) refs"
    using write_segments_inv [OF w(1) Cons.prems(2)] Cons.prems(3) by (simp_all add: d')
  then have "coll_at X crc codec buf' (checkpoint_entry c refs) c"
    by (auto simp: coll_at_def d' refs_from_def intro: list_all2_seg_at_append)
  moreover have "list_all2 (coll_at X crc codec buf') es' cs"
    using Cons.prems(2,3) by (intro Cons.IH [OF w(2)]) (simp_all add: d)
  ultimately show ?case by (simp add: es)
qed

subsection \<open>Replay order of the segments themselves\<close>

lemma map_sort_key: "map f (sort_key (\<lambda>x. g (f x)) xs) = sort_key g (map f xs)"
proof (induction xs)
  case (Cons x xs)
  have "map f (insort_key (\<lambda>x. g (f x)) x ys) = insort_key g (f x) (map f ys)" for ys
    by (induction ys) auto
  then show ?case using Cons.IH by simp
qed simp

text \<open>Sorting the references by rank and offset is a stable sort of the segments by type.\<close>

lemma sort_refs_segments:
  fixes segs :: "segment list" and refs :: "seg_ref list"
  assumes len: "length refs = length segs"
    and types: "\<And>r s. (r, s) \<in> set (zip refs segs) \<Longrightarrow> rf_type r = seg_to_byte (sg_type s)"
    and offs: "sorted_wrt (<) (map rf_offset refs)"
  shows "zip (sort_key replay_key refs) (sort_key sg_type segs) = sort_key (\<lambda>p. replay_key (fst p)) (zip refs segs)"
proof -
  let ?ps = "zip refs segs"
  let ?qs = "sort_key (\<lambda>p. replay_key (fst p)) ?ps"
  have key: "replay_key (fst p) = (replay_rank (sg_type (snd p)), rf_offset (fst p))" if "p \<in> set ?ps" for p
    using types [of "fst p" "snd p"] that by (simp add: replay_key_def seg_tag.from_to)
  have srt: "sorted_wrt (\<lambda>p q. rf_offset (fst p) < rf_offset (fst q)) ?ps"
  proof -
    have "sorted_wrt (<) (map rf_offset (map fst ?ps))"
      using offs len by simp
    then show ?thesis by (simp add: sorted_wrt_map)
  qed
  have "sort_key (\<lambda>p. sg_type (snd p)) ?ps = ?qs"
  proof (rule properties_for_sort_key)
    show "mset ?qs = mset ?ps" by simp
    show "sorted (map (\<lambda>p. sg_type (snd p)) ?qs)"
      unfolding sorted_map
    proof (rule sorted_wrt_mono_rel)
      show "sorted_wrt (\<lambda>p q. replay_key (fst p) \<le> replay_key (fst q)) ?qs"
        using sorted_sort_key [of "\<lambda>p. replay_key (fst p)" ?ps] by (simp only: sorted_map)
      fix p q assume "p \<in> set ?qs" "q \<in> set ?qs" "replay_key (fst p) \<le> replay_key (fst q)"
      then show "sg_type (snd p) \<le> sg_type (snd q)"
        using key [of p] key [of q] by (auto simp: less_eq_prod_def less_eq_segment_type_def)
    qed
    fix k
    let ?P = "\<lambda>p :: seg_ref \<times> segment. sg_type (snd k) = sg_type (snd p)"
    have "filter ?P ?qs = sort_key (\<lambda>p. replay_key (fst p)) (filter ?P ?ps)"
      by (rule filter_sort)
    also have "\<dots> = filter ?P ?ps"
    proof (rule sort_key_id_if_sorted)
      have "sorted_wrt (\<lambda>p q. rf_offset (fst p) < rf_offset (fst q)) (filter ?P ?ps)"
        using srt by (rule sorted_wrt_filter)
      then have "sorted_wrt (\<lambda>p q. replay_key (fst p) \<le> replay_key (fst q)) (filter ?P ?ps)"
        by (rule sorted_wrt_mono_rel [rotated]) (auto simp: key less_eq_prod_def)
      then show "sorted (map (\<lambda>p. replay_key (fst p)) (filter ?P ?ps))"
        by (simp add: sorted_map)
    qed
    finally show "filter ?P ?qs = filter ?P ?ps" .
  qed
  then have snd: "map snd ?qs = sort_key sg_type segs"
    using map_sort_key [of snd sg_type ?ps] len by simp
  have fst: "map fst ?qs = sort_key replay_key refs"
    using map_sort_key [of fst replay_key ?ps] len by simp
  show ?thesis
    using zip_map_fst_snd [of ?qs] by (simp only: fst snd)
qed

lemma coll_at_segments:
  assumes "coll_at X crc codec buf e c"
  shows "list_all2 (seg_at X crc codec buf) (ce_live_segments e) (sort_key sg_type (cc_segments c))"
proof -
  from assms obtain refs where e: "e = checkpoint_entry c refs"
    and at: "list_all2 (seg_at X crc codec buf) refs (cc_segments c)" and offs: "sorted_wrt (<) (map rf_offset refs)"
    by (auto simp: coll_at_def)
  have len: "length refs = length (cc_segments c)" using at by (rule list_all2_lengthD)
  have pairs: "\<And>r s. (r, s) \<in> set (zip refs (cc_segments c)) \<Longrightarrow> seg_at X crc codec buf r s"
    using at by (auto simp: list_all2_iff)
  have z: "zip (sort_key replay_key refs) (sort_key sg_type (cc_segments c)) =
      sort_key (\<lambda>p. replay_key (fst p)) (zip refs (cc_segments c))"
    using pairs by (intro sort_refs_segments [OF len _ offs]) (auto simp: seg_at_def)
  show ?thesis
    using pairs len z by (auto simp: e checkpoint_entry_def sort_replay_order_def list_all2_iff)
qed

text \<open>The collection as the reader returns it.\<close>

definition image_of :: "checkpoint_coll \<Rightarrow> coll_entry \<Rightarrow> image_coll" where
  "image_of c e = \<lparr>ic_entry = e, ic_segments = sort_key sg_type (cc_segments c)\<rparr>"

lemma read_coll_at:
  assumes "coll_at X crc codec buf e c" and "\<forall>s\<in>set (cc_segments c). seg_ok X codec s" and "length buf < 2 ^ 64"
  shows "mapR (image_segment X crc buf) (ce_live_segments e) = Inr (sort_key sg_type (cc_segments c))"
  unfolding mapR_Inr_iff
  using coll_at_segments [OF assms(1)]
  by (rule list.rel_mono_strong) (use assms(2,3) in \<open>auto intro: image_segment_at\<close>)


subsection \<open>Reading an image back\<close>

text \<open>
  Everything a reader relies on: a page-sized header that points at an encoded TOC, behind it. It is stated on
  bytes, so that the pager's file can be read with it as well.
\<close>

definition toc_at :: "(bytes \<Rightarrow> u32) \<Rightarrow> toc msgpack \<Rightarrow> bytes \<Rightarrow> header \<Rightarrow> toc \<Rightarrow> bool" where
  "toc_at crc M b h t \<longleftrightarrow>
     header_decode crc (take HEADER_SIZE b) = Inr h \<and> HEADER_SIZE \<le> length b
     \<and> unat (toc_offset h) + unat (toc_len h) \<le> length b
     \<and> (let tb = slice_of b (unat (toc_offset h)) (unat (toc_offset h) + unat (toc_len h))
        in crc tb = toc_crc32 h \<and> toc_decode M tb = Inr t)"

lemma read_image_toc_at:
  assumes "toc_at crc M b h t" and "length b < 2 ^ 64"
  shows "read_image X crc M b =
     mapR (\<lambda>e. tryR (mapR (image_segment X crc b) (ce_live_segments e)) (\<lambda>segs.
                 Inr \<lparr>ic_entry = e, ic_segments = segs\<rparr>)) (toc_collections t)"
  using assms by (simp add: toc_at_def read_image_def Let_def get_range_eq)

text \<open>Appending the TOC and then putting the header in place gives such a file.\<close>

lemma header_new_uuid [simp]: "file_uuid (header_new u c) = u" "min_reader_version (header_new u c) = SUPPORTED_READER_VERSION"
  by (simp_all add: header_new_def)

lemma header_decode_commit:
  "length uuid = 16 \<Longrightarrow> header_decode crc (header_encode crc (commit_header crc uuid cr md off tb)) =
     Inr (commit_header crc uuid cr md off tb)"
  by (intro header_decode_encode) (simp_all add: commit_header_def)

lemma toc_at_commit:
  assumes uuid: "length uuid = 16" and t: "mp_carries M t" "toc_encode M t = Inr tb"
    and len: "HEADER_SIZE \<le> length b" "length b + length tb < 2 ^ 64"
    and h: "h = commit_header crc uuid cr md (word_of_nat (length b)) tb"
  shows "toc_at crc M (put 0 (header_encode crc h) (b @ tb)) h t"
proof -
  let ?b = "put 0 (header_encode crc h) (b @ tb)"
  have hl: "length (header_encode crc h) = HEADER_SIZE"
    using uuid by (simp add: h commit_header_def length_header_encode HEADER_SIZE_def)
  have "length ?b = length b + length tb"
    using len(1) hl by (simp add: length_put)
  moreover have "take HEADER_SIZE ?b = header_encode crc h"
    using hl by (simp add: put_def)
  moreover have n: "unat (toc_offset h) = length b" "unat (toc_len h) = length tb"
    using len by (auto simp: h commit_header_def intro!: unat_u64)
  moreover have "slice_of ?b (length b) (length b + length tb) = tb"
    using hl len(1) by (simp add: slice_put_other) (simp add: slice_of_def)
  moreover have "crc tb = toc_crc32 h" by (simp add: h commit_header_def)
  moreover have "header_decode crc (header_encode crc h) = Inr h"
    unfolding h by (rule header_decode_commit [OF uuid])
  moreover have "toc_decode M tb = Inr t" by (rule toc_decode_encode [OF t])
  ultimately show ?thesis
    using len(1) by (simp add: toc_at_def)
qed

lemma read_image_write_image:
  assumes w: "write_image X crc M uuid created modified generation colls codec = Inr b"
    and uuid: "length uuid = 16"
    and segs: "\<forall>c\<in>set colls. \<forall>s\<in>set (cc_segments c). seg_ok X codec s"
    and toc: "\<And>es buf. write_colls X crc codec colls (replicate HEADER_SIZE 0) = Inr (es, buf) \<Longrightarrow>
       mp_carries M \<lparr>toc_generation = generation, toc_collections = es,
                     toc_free_tail_offset = word_of_nat (length buf)\<rparr>"
    and small: "length b < 2 ^ 64"
  shows "\<exists>es. list_all2 (\<lambda>e c. \<exists>refs. e = checkpoint_entry c refs) es colls
     \<and> read_image X crc M b = Inr (map2 image_of colls es)"
proof -
  from w obtain es buf tb where wc: "write_colls X crc codec colls (replicate HEADER_SIZE 0) = Inr (es, buf)"
    and te: "toc_encode M \<lparr>toc_generation = generation, toc_collections = es,
                     toc_free_tail_offset = word_of_nat (length buf)\<rparr> = Inr tb"
    and b: "b = put 0 (header_encode crc (commit_header crc uuid created modified (word_of_nat (length buf)) tb)) (buf @ tb)"
    by (auto simp: write_image_def tryR_eq_Inr Let_def)
  let ?h = "commit_header crc uuid created modified (word_of_nat (length buf)) tb"
  have hl: "length (header_encode crc ?h) = HEADER_SIZE"
    using uuid by (simp add: commit_header_def length_header_encode HEADER_SIZE_def)
  have bl: "HEADER_SIZE \<le> length buf"
    using write_colls_extends [OF wc] by auto
  have lb: "length b = length buf + length tb"
    using bl hl by (simp add: b length_put)
  have "list_all2 (coll_at X crc codec buf) es colls"
    using small by (intro write_colls_inv [OF wc]) (simp_all add: lb)
  then have at: "list_all2 (coll_at X crc codec b) es colls"
    unfolding b using hl bl by (auto elim!: list_all2_mono intro: coll_at_header coll_at_append)
  have "toc_at crc M b ?h \<lparr>toc_generation = generation, toc_collections = es,
                     toc_free_tail_offset = word_of_nat (length buf)\<rparr>"
    unfolding b using small by (intro toc_at_commit [OF uuid toc [OF wc] te bl]) (simp_all add: lb)
  then have "read_image X crc M b = mapR (\<lambda>e. tryR (mapR (image_segment X crc b) (ce_live_segments e)) (\<lambda>segs.
                 Inr \<lparr>ic_entry = e, ic_segments = segs\<rparr>)) es"
    using small by (simp add: read_image_toc_at)
  also have "\<dots> = Inr (map2 image_of colls es)"
    using at segs
  proof (induction es colls rule: list_all2_induct)
    case (Cons e es c cs)
    then have "mapR (image_segment X crc b) (ce_live_segments e) = Inr (sort_key sg_type (cc_segments c))"
      using small by (intro read_coll_at) auto
    with Cons show ?case by (simp add: image_of_def)
  qed simp
  finally have "read_image X crc M b = Inr (map2 image_of colls es)" .
  moreover have "list_all2 (\<lambda>e c. \<exists>refs. e = checkpoint_entry c refs) es colls"
    using at by (auto simp: coll_at_def elim!: list_all2_mono)
  ultimately show ?thesis by blast
qed

lemma read_image_errors:
  "read_image X crc M b = Inl e \<Longrightarrow>
     (\<exists>m. e = Corrupt m) \<or> (\<exists>v. e = UnsupportedFormatVersion v SUPPORTED_READER_VERSION)"
proof -
  assume r: "read_image X crc M b = Inl e"
  have seg: "only_corrupt (image_segment X crc b r)" for r
    unfolding image_segment_def by (intro only_corrupt_tryR only_corrupt_ok_or segment_read_only_corrupt) auto
  have segs: "only_corrupt (mapR (image_segment X crc b) rs)" for rs
    by (induction rs) (auto intro!: only_corrupt_tryR seg)
  have "only_corrupt (mapR (\<lambda>e. tryR (mapR (image_segment X crc b) (ce_live_segments e)) (\<lambda>segs.
                 Inr \<lparr>ic_entry = e, ic_segments = segs\<rparr>)) es)" for es
    by (induction es) (auto intro!: only_corrupt_tryR segs)
  moreover have "only_corrupt (toc_decode M tb)" for tb by simp
  ultimately show ?thesis
    using r by (auto simp: read_image_def tryR_eq_Inl only_corrupt_def dest!: header_decode_errors split: if_splits)
qed

subsection \<open>Properties\<close>

text \<open>
  C3. A database image round-trips: whatever \<open>write_image\<close> produces, \<open>read_image\<close> parses, giving back every
  collection in order with its metadata and all its segments, the segments of a collection in replay order (a
  stable sort by type, so CONFIG comes first). It relies on each segment body surviving its compressor and on the
  TOC document being carried by MessagePack.
\<close>

theorem image_round_trip:
  assumes "write_image X crc M uuid created modified generation colls codec = Inr b"
    and "length uuid = 16"
    and "\<forall>c\<in>set colls. \<forall>s\<in>set (cc_segments c). seg_ok X codec s"
    and "\<And>es buf. write_colls X crc codec colls (replicate HEADER_SIZE 0) = Inr (es, buf) \<Longrightarrow>
       mp_carries M \<lparr>toc_generation = generation, toc_collections = es,
                     toc_free_tail_offset = word_of_nat (length buf)\<rparr>"
    and "length b < 2 ^ 64"
  shows "\<exists>es. list_all2 (\<lambda>e c. \<exists>refs. e = checkpoint_entry c refs) es colls
     \<and> read_image X crc M b = Inr (map2 image_of colls es)"
  using assms by (rule read_image_write_image)

definition one_coll :: "checkpoint_coll list" where
  "one_coll = [\<lparr>cc_coll_id = 1, cc_name = ''docs'', cc_aliases = [], cc_vector_count = 0, cc_tombstone_count = 0,
     cc_segments = [\<lparr>sg_type = SegPayload, sg_flags = 0, sg_coll = 1, sg_body = [1]\<rparr>,
                    \<lparr>sg_type = SegConfig, sg_flags = 0, sg_coll = 1, sg_body = [2]\<rparr>],
     cc_reused = None\<rparr>]"

lemma one_coll_written:
  obtains es buf where "write_colls id_compressors sum_crc Codec_None one_coll (replicate HEADER_SIZE 0) = Inr (es, buf)"
    "length buf = 4162"
  by (simp add: one_coll_def segment_encode_def codec_for_def Let_def HEADER_SIZE_def COMPRESS_THRESHOLD_def)

theorem image_round_trip_witness:
  "\<exists>M b es. write_image id_compressors sum_crc M (replicate 16 1) 5 6 7 one_coll Codec_None = Inr b
     \<and> read_image id_compressors sum_crc M b = Inr (map2 image_of one_coll es)"
proof -
  obtain es buf where w: "write_colls id_compressors sum_crc Codec_None one_coll (replicate HEADER_SIZE 0) = Inr (es, buf)"
    "length buf = 4162" by (rule one_coll_written)
  let ?t = "\<lparr>toc_generation = 7, toc_collections = es, toc_free_tail_offset = word_of_nat (length buf)\<rparr>"
  let ?M = "one_doc ?t"
  obtain b where b: "write_image id_compressors sum_crc ?M (replicate 16 1) 5 6 7 one_coll Codec_None = Inr b"
    by (simp add: write_image_def w(1) toc_encode_def Let_def)
  have "length b = 4163"
    using b w(2) by (auto simp: write_image_def w(1) toc_encode_def Let_def length_put length_header_encode commit_header_def)
  moreover have "\<forall>c\<in>set one_coll. \<forall>s\<in>set (cc_segments c). seg_ok id_compressors Codec_None s"
    by (simp add: one_coll_def seg_ok_def)
  ultimately obtain es' where "read_image id_compressors sum_crc ?M b = Inr (map2 image_of one_coll es')"
    using image_round_trip [OF b] w(1) by auto
  with b show ?thesis by blast
qed

end
