(* ===== verification/Files.thy ===== *)
theory Files
  imports Prelude
begin

section \<open>Files\<close>

text \<open>
  A file is its bytes. A write at an offset (\<open>seek\<close> and \<open>write_all\<close>) behind the end fills the gap with zeros, as
  the operating system does; writing nothing leaves the file as it is.
\<close>

definition fpad :: "nat \<Rightarrow> bytes \<Rightarrow> bytes" where
  "fpad n f = f @ replicate (n - length f) 0"

definition fwrite :: "nat \<Rightarrow> bytes \<Rightarrow> bytes \<Rightarrow> bytes" where
  "fwrite at xs f = (if xs = [] then f else put at xs (fpad at f))"

lemma length_fpad [simp]: "length (fpad n f) = max n (length f)"
  by (simp add: fpad_def max_def)

lemma take_fpad_fpad: "m \<le> n \<Longrightarrow> fpad n (fpad m f) = fpad n f"
  by (simp add: fpad_def flip: replicate_add)

lemma drop_fpad: "n \<le> m \<Longrightarrow> drop m (fpad n f) = drop m f"
  by (simp add: fpad_def)

lemma fpad_fwrite: "fpad (at + length xs) (fwrite at xs f) = take at (fpad at f) @ xs @ drop (at + length xs) f"
proof (cases "xs = []")
  case True
  then show ?thesis by (simp add: fwrite_def) (metis append_take_drop_id drop_fpad order_refl)
next
  case False
  then show ?thesis by (simp add: fwrite_def fpad_def put_def)
qed

lemma fpad_id: "n \<le> length f \<Longrightarrow> fpad n f = f"
  by (simp add: fpad_def)

lemma length_fwrite: "length (fwrite at xs f) = (if xs = [] then length f else max (at + length xs) (length f))"
  by (auto simp: fwrite_def put_def max_def)

end
