(* ===== verification/Pager.thy ===== *)
theory Pager
  imports Image Files
begin

section \<open>The pager (\<open>storage/pager.rs\<close>)\<close>

text \<open>
  A checkpoint is the list of disk operations the source performs, in order, and its result: segment
  appends, a sync, the TOC, a sync, the header page, a sync. A write that fails in between (an encode error)
  leaves the operations before it. Files are byte lists; a file system maps paths to files. \<open>excl\<close> says which
  files another process holds locked, \<open>uuid\<close> is the fresh identifier the \<open>uuid\<close> package would return.

  \<open>crash ops f f'\<close>: \<open>f'\<close> may be on disk after a crash while \<open>ops\<close> run on \<open>f\<close>. Between two syncs every write may
  be lost, torn or done; only the one header page is written atomically, as the commit protocol assumes.
\<close>

datatype disk_op = WriteAt nat bytes | WriteHeader bytes | SyncAll

fun run_op :: "disk_op \<Rightarrow> bytes \<Rightarrow> bytes" where
  "run_op (WriteAt at xs) f = fwrite at xs f"
| "run_op (WriteHeader page) f = fwrite 0 page f"
| "run_op SyncAll f = f"

definition run_ops :: "disk_op list \<Rightarrow> bytes \<Rightarrow> bytes" where
  "run_ops ops f = fold run_op ops f"

record pager =
  pg_open :: bool
  pg_uuid :: bytes
  pg_created_epoch_s :: u64
  pg_tail :: nat
  pg_path :: string

type_synonym fsys = "string \<Rightarrow> bytes option"

definition creation_temp_path :: "string \<Rightarrow> string" where
  "creation_temp_path db = db @ ''-new''"

definition read_committed :: "(bytes \<Rightarrow> u32) \<Rightarrow> toc msgpack \<Rightarrow> bytes \<Rightarrow> (header \<times> toc \<times> nat) res" where
  "read_committed crc M f =
     (if length f < HEADER_SIZE then Inl (Corrupt ''header: file shorter than 4 KiB'')
      else
        tryR (header_decode crc (take HEADER_SIZE f)) (\<lambda>h.
        let off = unat (toc_offset h); len = unat (toc_len h)
        in if length f < off + len then Inl (Corrupt ''toc: truncated'')
           else let tbuf = slice_of f off (off + len)
             in if crc tbuf \<noteq> toc_crc32 h then Inl (Corrupt ''toc: crc mismatch'')
                else tryR (toc_decode M tbuf) (\<lambda>toc. Inr (h, toc, off + len))))"

definition lock_file :: "(string \<Rightarrow> bool) \<Rightarrow> string \<Rightarrow> unit res" where
  "lock_file excl path = (if excl path then Inl Locked else Inr ())"

subsection \<open>The commit sequence\<close>

fun pager_segments ::
  "compressors \<Rightarrow> (bytes \<Rightarrow> u32) \<Rightarrow> codec \<Rightarrow> segment list \<Rightarrow> nat \<Rightarrow> disk_op list \<times> (seg_ref list \<times> nat) res" where
  "pager_segments X crc codec [] cur = ([], Inr ([], cur))"
| "pager_segments X crc codec (seg # segs) cur =
     (case segment_encode X crc seg (codec_for (sg_type seg) codec (length (sg_body seg))) of
        Inl e \<Rightarrow> ([], Inl e)
      | Inr bs \<Rightarrow>
          let (ops, r) = pager_segments X crc codec segs (cur + length bs)
          in (WriteAt cur bs # ops,
              tryR r (\<lambda>(refs, cur').
                Inr (\<lparr>rf_type = seg_to_byte (sg_type seg), rf_offset = word_of_nat cur,
                      rf_len = word_of_nat (length bs)\<rparr> # refs, cur'))))"

fun pager_colls ::
  "compressors \<Rightarrow> (bytes \<Rightarrow> u32) \<Rightarrow> codec \<Rightarrow> checkpoint_coll list \<Rightarrow> nat \<Rightarrow> disk_op list \<times> (coll_entry list \<times> nat) res" where
  "pager_colls X crc codec [] cur = ([], Inr ([], cur))"
| "pager_colls X crc codec (c # cs) cur =
     (case cc_reused c of
        Some refs \<Rightarrow>
          let (ops, r) = pager_colls X crc codec cs cur
          in (ops, tryR r (\<lambda>(es, cur'). Inr (checkpoint_entry c refs # es, cur')))
      | None \<Rightarrow>
          (case pager_segments X crc codec (cc_segments c) cur of
             (ops, Inl e) \<Rightarrow> (ops, Inl e)
           | (ops, Inr (refs, cur1)) \<Rightarrow>
               let (ops', r) = pager_colls X crc codec cs cur1
               in (ops @ ops', tryR r (\<lambda>(es, cur'). Inr (checkpoint_entry c refs # es, cur')))))"

definition checkpoint_ops ::
  "compressors \<Rightarrow> (bytes \<Rightarrow> u32) \<Rightarrow> toc msgpack \<Rightarrow> pager \<Rightarrow> u64 \<Rightarrow> checkpoint_coll list \<Rightarrow> codec \<Rightarrow> u64
    \<Rightarrow> disk_op list \<times> (toc \<times> nat) res" where
  "checkpoint_ops X crc M p generation colls codec modified =
     (if \<not> pg_open p then ([], Inl (Corrupt ''pager file handle is closed''))
      else
        case pager_colls X crc codec colls (pg_tail p) of
          (ops, Inl e) \<Rightarrow> (ops, Inl e)
        | (ops, Inr (entries, toc_start)) \<Rightarrow>
            let toc = \<lparr>toc_generation = generation, toc_collections = entries,
                       toc_free_tail_offset = word_of_nat toc_start\<rparr>
            in (case toc_encode M toc of
                  Inl e \<Rightarrow> (ops @ [SyncAll], Inl e)
                | Inr tbytes \<Rightarrow>
                    let header = commit_header crc (pg_uuid p) (pg_created_epoch_s p) modified
                                   (word_of_nat toc_start) tbytes
                    in (ops @ [SyncAll, WriteAt toc_start tbytes, SyncAll,
                               WriteHeader (header_encode crc header), SyncAll],
                        Inr (toc, toc_start + length tbytes))))"

definition pager_checkpoint ::
  "compressors \<Rightarrow> (bytes \<Rightarrow> u32) \<Rightarrow> toc msgpack \<Rightarrow> u64 \<Rightarrow> checkpoint_coll list \<Rightarrow> codec \<Rightarrow> u64
    \<Rightarrow> pager \<times> bytes \<Rightarrow> (pager \<times> bytes) \<times> toc res" where
  "pager_checkpoint X crc M generation colls codec modified = (\<lambda>(p, f).
     case checkpoint_ops X crc M p generation colls codec modified of
       (ops, Inl e) \<Rightarrow> ((p, run_ops ops f), Inl e)
     | (ops, Inr (toc, tail)) \<Rightarrow> ((p\<lparr>pg_tail := tail\<rparr>, run_ops ops f), Inr toc))"

definition pager_read_segment ::
  "compressors \<Rightarrow> (bytes \<Rightarrow> u32) \<Rightarrow> pager \<times> bytes \<Rightarrow> seg_ref \<Rightarrow> segment res" where
  "pager_read_segment X crc = (\<lambda>(p, f) r.
     if \<not> pg_open p then Inl (Corrupt ''pager file handle is closed'')
     else if length f < unat (rf_offset r) + unat (rf_len r)
     then Inl (Corrupt (''segment@'' @ show_nat (unat (rf_offset r)) @ '': truncated''))
     else tryR (segment_read X crc (slice_of f (unat (rf_offset r)) (unat (rf_offset r) + unat (rf_len r)))
                  0 (rf_offset r)) (\<lambda>(seg, n). Inr seg))"

subsection \<open>Files\<close>

definition pager_open ::
  "(bytes \<Rightarrow> u32) \<Rightarrow> toc msgpack \<Rightarrow> (string \<Rightarrow> bool) \<Rightarrow> fsys \<Rightarrow> string \<Rightarrow> (pager \<times> toc) res" where
  "pager_open crc M excl fs path =
     tryR (ok_or (fs path) Io) (\<lambda>f.
     tryR (lock_file excl path) (\<lambda>_.
     tryR (read_committed crc M f) (\<lambda>(h, toc, tail).
       Inr (\<lparr>pg_open = True, pg_uuid = file_uuid h, pg_created_epoch_s = created_epoch_s h,
             pg_tail = tail, pg_path = path\<rparr>, toc))))"

definition create_compacted ::
  "compressors \<Rightarrow> (bytes \<Rightarrow> u32) \<Rightarrow> toc msgpack \<Rightarrow> (string \<Rightarrow> bool) \<Rightarrow> string \<Rightarrow> bytes \<Rightarrow> u64
    \<Rightarrow> checkpoint_coll list \<Rightarrow> codec \<Rightarrow> u64 \<Rightarrow> fsys \<Rightarrow> fsys \<times> unit res" where
  "create_compacted X crc M excl path uuid generation colls codec epoch fs =
     (if fs path \<noteq> None then (fs, Inl Io)
      else if excl path then (fs(path := Some []), Inl Locked)
      else
        let p = \<lparr>pg_open = True, pg_uuid = uuid, pg_created_epoch_s = epoch,
                 pg_tail = HEADER_SIZE, pg_path = path\<rparr>;
            ((p', f), r) = pager_checkpoint X crc M generation colls codec epoch (p, [])
        in (fs(path := Some f), tryR r (\<lambda>_. Inr ())))"

definition pager_create ::
  "compressors \<Rightarrow> (bytes \<Rightarrow> u32) \<Rightarrow> toc msgpack \<Rightarrow> (string \<Rightarrow> bool) \<Rightarrow> string \<Rightarrow> bytes \<Rightarrow> u64 \<Rightarrow> fsys
    \<Rightarrow> fsys \<times> pager res" where
  "pager_create X crc M excl path uuid created fs =
     (let temp = creation_temp_path path;
          (fs, r) = create_compacted X crc M excl temp uuid 0 [] Codec_Lz4 created (fs(temp := None))
      in case r of
           Inl e \<Rightarrow> (fs, Inl e)
         | Inr _ \<Rightarrow>
             if fs path \<noteq> None then (fs(temp := None), Inl Io)
             else let fs = fs(path := fs temp, temp := None)
               in (fs, tryR (pager_open crc M excl fs path) (\<lambda>(p, toc). Inr p)))"

definition replace_with ::
  "(bytes \<Rightarrow> u32) \<Rightarrow> toc msgpack \<Rightarrow> (string \<Rightarrow> bool) \<Rightarrow> string \<Rightarrow> pager \<Rightarrow> fsys \<Rightarrow> (pager \<times> fsys) \<times> unit res" where
  "replace_with crc M excl replacement p fs =
     (let p = p\<lparr>pg_open := False\<rparr>
      in case fs replacement of
           None \<Rightarrow> ((p, fs), Inl Io)
         | Some f \<Rightarrow>
             let fs = fs(pg_path p := Some f, replacement := None)
             in (case tryR (lock_file excl (pg_path p)) (\<lambda>_. read_committed crc M f) of
                   Inl e \<Rightarrow> ((p, fs), Inl e)
                 | Inr (h, toc, tail) \<Rightarrow>
                     ((p\<lparr>pg_open := True, pg_uuid := file_uuid h, pg_created_epoch_s := created_epoch_s h,
                         pg_tail := tail\<rparr>, fs), Inr ())))"

subsection \<open>Crashes\<close>

inductive unsynced :: "disk_op list \<Rightarrow> bytes \<Rightarrow> bytes \<Rightarrow> bool" where
  un_stop: "unsynced ops f f"
| un_write: "unsynced ops (fwrite at (take k xs) f) f' \<Longrightarrow> unsynced (WriteAt at xs # ops) f f'"
| un_header: "unsynced ops (fwrite 0 page f) f' \<Longrightarrow> unsynced (WriteHeader page # ops) f f'"
| un_header_lost: "unsynced ops f f' \<Longrightarrow> unsynced (WriteHeader page # ops) f f'"

inductive crash :: "disk_op list \<Rightarrow> bytes \<Rightarrow> bytes \<Rightarrow> bool" where
  cr_unsynced: "unsynced ops f f' \<Longrightarrow> crash ops f f'"
| cr_synced: "crash rest (run_ops ws f) f' \<Longrightarrow> SyncAll \<notin> set ws \<Longrightarrow> crash (ws @ SyncAll # rest) f f'"

inductive_cases unsynced_NilE: "unsynced [] f f'"
inductive_cases unsynced_SyncE: "unsynced (SyncAll # ops) f f'"
inductive_cases unsynced_HeaderE: "unsynced (WriteHeader page # ops) f f'"

text \<open>Two files agree below an offset, and both reach it.\<close>

definition same_below :: "nat \<Rightarrow> bytes \<Rightarrow> bytes \<Rightarrow> bool" where
  "same_below n f g \<longleftrightarrow> take n f = take n g \<and> n \<le> length f \<and> n \<le> length g"

fun op_above :: "nat \<Rightarrow> disk_op \<Rightarrow> bool" where
  "op_above n (WriteAt at xs) \<longleftrightarrow> n \<le> at"
| "op_above n (WriteHeader page) \<longleftrightarrow> False"
| "op_above n SyncAll \<longleftrightarrow> True"

lemma same_below_refl: "n \<le> length f \<Longrightarrow> same_below n f f"
  by (simp add: same_below_def)

lemma same_below_trans: "same_below n f g \<Longrightarrow> same_below n g h \<Longrightarrow> same_below n f h"
  by (simp add: same_below_def)

lemma same_below_fwrite: "n \<le> at \<Longrightarrow> n \<le> length f \<Longrightarrow> same_below n f (fwrite at xs f)"
  by (auto simp: same_below_def fwrite_def put_def fpad_def min_def)

lemma same_below_run_ops: "list_all (op_above n) ops \<Longrightarrow> n \<le> length f \<Longrightarrow> same_below n f (run_ops ops f)"
proof (induction ops arbitrary: f)
  case (Cons op ops)
  have "same_below n f (run_op op f)"
    using Cons.prems by (cases op) (auto intro: same_below_fwrite same_below_refl)
  moreover from this have "same_below n (run_op op f) (run_ops ops (run_op op f))"
    using Cons.prems(1) by (intro Cons.IH) (auto simp: same_below_def)
  ultimately show ?case by (simp add: run_ops_def same_below_trans)
qed (simp add: run_ops_def same_below_refl)

lemma unsynced_above:
  "unsynced ops f f' \<Longrightarrow> ops = ws @ SyncAll # rest \<Longrightarrow> list_all (op_above n) ws \<Longrightarrow> n \<le> length f \<Longrightarrow>
     same_below n f f'"
proof (induction arbitrary: ws rule: unsynced.induct)
  case (un_stop ops f)
  then show ?case by (simp add: same_below_refl)
next
  case (un_write ops at k xs f f')
  then obtain ws' where ws: "ws = WriteAt at xs # ws'" "ops = ws' @ SyncAll # rest"
    by (cases ws) auto
  have s: "same_below n f (fwrite at (take k xs) f)"
    using un_write.prems ws(1) by (intro same_below_fwrite) simp_all
  then have "same_below n (fwrite at (take k xs) f) f'"
    using un_write.prems ws by (intro un_write.IH [OF ws(2)]) (simp_all add: same_below_def)
  with s show ?case by (rule same_below_trans)
next
  case (un_header ops page f f')
  then show ?case by (cases ws) auto
next
  case (un_header_lost ops f f' page)
  then show ?case by (cases ws) auto
qed

lemma crash_Nil: "crash [] f f' \<Longrightarrow> f' = f"
  by (erule crash.cases) (auto elim: unsynced_NilE)

text \<open>
  Any crash while such a sequence runs leaves either a file that agrees with the old one below \<open>n\<close>, or the
  file of the completed sequence.
\<close>

lemma crash_root_swap:
  "crash ops f f' \<Longrightarrow> ops = pre @ [SyncAll, WriteHeader page, SyncAll] \<Longrightarrow> list_all (op_above n) pre \<Longrightarrow>
     n \<le> length f \<Longrightarrow> same_below n f f' \<or> f' = fwrite 0 page (run_ops pre f)"
proof (induction arbitrary: pre rule: crash.induct)
  case (cr_unsynced ops f f')
  then show ?case using unsynced_above by (metis append.assoc append_Cons append_Nil)
next
  case (cr_synced rest ws f f')
  from cr_synced.prems(1) consider
      (early) pre' where "pre = ws @ SyncAll # pre'" "rest = pre' @ [SyncAll, WriteHeader page, SyncAll]"
    | (last) "ws = pre" "rest = [WriteHeader page, SyncAll]"
    | (late) us where "ws = pre @ SyncAll # us"
    by (auto simp: append_eq_append_conv2 Cons_eq_append_conv append_eq_Cons_conv)
  then show ?case
  proof cases
    case early
    have s: "same_below n f (run_ops ws f)"
      using cr_synced.prems early(1) by (intro same_below_run_ops) simp_all
    have "same_below n (run_ops ws f) f' \<or> f' = fwrite 0 page (run_ops pre' (run_ops ws f))"
      using cr_synced.prems early s by (intro cr_synced.IH [OF early(2)]) (simp_all add: same_below_def)
    then show ?thesis
      using s by (auto simp: early(1) run_ops_def intro: same_below_trans)
  next
    case last
    have s: "same_below n f (run_ops pre f)"
      using cr_synced.prems(2,3) by (rule same_below_run_ops)
    from cr_synced.hyps(1) have "f' = run_ops pre f \<or> f' = fwrite 0 page (run_ops pre f)"
      unfolding last
    proof cases
      case cr_unsynced
      then show ?thesis by (auto elim!: unsynced_HeaderE unsynced_SyncE)
    next
      case (cr_synced rest' ws')
      then have "ws' = [WriteHeader page]" "rest' = []"
        by (auto simp: Cons_eq_append_conv)
      then show ?thesis using cr_synced(2) by (auto simp: run_ops_def dest: crash_Nil)
    qed
    then show ?thesis using s by auto
  next
    case late
    then show ?thesis using cr_synced.hyps(2) by simp
  qed
qed


subsection \<open>What the commit sequence writes\<close>

text \<open>Operations that write \<open>data\<close> contiguously from \<open>cur\<close>.\<close>

fun contiguous :: "nat \<Rightarrow> disk_op list \<Rightarrow> bytes \<Rightarrow> bool" where
  "contiguous cur [] data \<longleftrightarrow> data = []"
| "contiguous cur (WriteAt at xs # ops) data \<longleftrightarrow>
     at = cur \<and> take (length xs) data = xs \<and> contiguous (cur + length xs) ops (drop (length xs) data)"
| "contiguous cur (_ # ops) data \<longleftrightarrow> False"

lemma take_prefix_split: "take (length xs) ys = xs \<Longrightarrow> length xs \<le> length ys \<and> ys = xs @ drop (length xs) ys"
  by (metis append_take_drop_id length_take min.cobounded1)

lemma contiguous_append:
  "contiguous cur ops data \<Longrightarrow> contiguous (cur + length data) ops' data' \<Longrightarrow> contiguous cur (ops @ ops') (data @ data')"
proof (induction cur ops data rule: contiguous.induct)
  case (2 cur at xs ops data)
  then have l: "length xs \<le> length data" using take_prefix_split [of xs data] by simp
  then show ?case using 2 by (simp add: add.assoc)
qed auto

lemma contiguous_above: "contiguous cur ops data \<Longrightarrow> n \<le> cur \<Longrightarrow> list_all (op_above n) ops"
  by (induction cur ops data rule: contiguous.induct) auto

lemma contiguous_run:
  "contiguous cur ops data \<Longrightarrow>
     fpad (cur + length data) (run_ops ops f) = take cur (fpad cur f) @ data @ drop (cur + length data) f"
proof (induction cur ops data arbitrary: f rule: contiguous.induct)
  case (1 cur data)
  then show ?case by (simp add: run_ops_def) (metis append_take_drop_id drop_fpad order_refl)
next
  case (2 cur at xs ops data)
  let ?g = "fwrite at xs f" and ?d = "drop (length xs) data"
  have at: "at = cur" and t: "take (length xs) data = xs"
    using 2(2) by simp_all
  have l: "length xs \<le> length data" and d: "data = xs @ ?d"
    using take_prefix_split [OF t] by blast+
  have g: "fpad (cur + length xs) ?g = take cur (fpad cur f) @ xs @ drop (cur + length xs) f"
    using fpad_fwrite [of at xs f] by (simp add: at)
  have "fpad (cur + length data) (run_ops (WriteAt at xs # ops) f) =
      take (cur + length xs) (fpad (cur + length xs) ?g) @ ?d @ drop (cur + length data) ?g"
    using 2(1) [of ?g] 2(2) l by (simp add: run_ops_def)
  also have "take (cur + length xs) (fpad (cur + length xs) ?g) = take cur (fpad cur f) @ xs"
    by (simp add: g)
  also have "drop (cur + length data) ?g = drop (cur + length data) (fpad (cur + length xs) ?g)"
    using l by (simp add: drop_fpad)
  also have "\<dots> = drop (cur + length data) f"
    using l by (simp add: g add.commute)
  finally show ?case using d by simp
qed auto

text \<open>The segment loop of the pager is the one of the image writer, run over a file.\<close>

lemma pager_segments_image:
  "pager_segments X crc codec segs cur = (ops, Inr (refs, cur')) \<Longrightarrow> length buf = cur \<Longrightarrow>
     \<exists>data. write_segments X crc codec segs buf = Inr (refs, buf @ data) \<and> cur' = cur + length data
        \<and> contiguous cur ops data"
proof (induction segs arbitrary: cur ops refs buf)
  case Nil
  then show ?case by simp
next
  case (Cons s segs)
  from Cons.prems(1) obtain bs ops1 refs1 where
    e: "segment_encode X crc s (codec_for (sg_type s) codec (length (sg_body s))) = Inr bs"
    and p: "pager_segments X crc codec segs (cur + length bs) = (ops1, Inr (refs1, cur'))"
    and o: "ops = WriteAt cur bs # ops1"
    and r: "refs = \<lparr>rf_type = seg_to_byte (sg_type s), rf_offset = word_of_nat cur, rf_len = word_of_nat (length bs)\<rparr> # refs1"
    by (auto simp: tryR_eq_Inr split: sum.splits prod.splits)
  from Cons.IH [OF p, of "buf @ bs"] Cons.prems(2) obtain d where
    "write_segments X crc codec segs (buf @ bs) = Inr (refs1, buf @ bs @ d)" "cur' = cur + length bs + length d"
    "contiguous (cur + length bs) ops1 d" by auto
  then show ?case
    using Cons.prems(2) e by (intro exI [of _ "bs @ d"]) (simp add: o r)
qed

text \<open>
  A committed collection: either its references were carried forward unchanged, or they point at its segments
  in the file.
\<close>

definition coll_committed ::
  "compressors \<Rightarrow> (bytes \<Rightarrow> u32) \<Rightarrow> codec \<Rightarrow> bytes \<Rightarrow> coll_entry \<Rightarrow> checkpoint_coll \<Rightarrow> bool" where
  "coll_committed X crc codec f e c \<longleftrightarrow>
     (case cc_reused c of Some refs \<Rightarrow> e = checkpoint_entry c refs | None \<Rightarrow> coll_at X crc codec f e c)"

lemma coll_committed_append: "coll_committed X crc codec f e c \<Longrightarrow> coll_committed X crc codec (f @ d) e c"
  by (auto simp: coll_committed_def coll_at_append split: option.splits)

lemma coll_committed_header:
  "length hdr = HEADER_SIZE \<Longrightarrow> HEADER_SIZE \<le> length f \<Longrightarrow> coll_committed X crc codec f e c
     \<Longrightarrow> coll_committed X crc codec (put 0 hdr f) e c"
  by (auto simp: coll_committed_def coll_at_header split: option.splits)

lemma pager_colls_layout:
  "pager_colls X crc codec cs cur = (ops, Inr (es, cur')) \<Longrightarrow> length buf = cur \<Longrightarrow> HEADER_SIZE \<le> cur \<Longrightarrow> cur' < 2 ^ 64 \<Longrightarrow>
     \<exists>data. cur' = cur + length data \<and> contiguous cur ops data
        \<and> list_all2 (coll_committed X crc codec (buf @ data)) es cs"
proof (induction cs arbitrary: cur ops es buf)
  case Nil
  then show ?case by simp
next
  case (Cons c cs)
  show ?case
  proof (cases "cc_reused c")
    case (Some refs)
    with Cons.prems(1) obtain es1 where p: "pager_colls X crc codec cs cur = (ops, Inr (es1, cur'))"
      and es: "es = checkpoint_entry c refs # es1"
      by (auto simp: tryR_eq_Inr split: prod.splits)
    from Cons.IH [OF p Cons.prems(2-4)] Some es show ?thesis
      by (auto simp: coll_committed_def)
  next
    case None
    with Cons.prems(1) obtain ops1 refs cur1 ops2 es1 where
      s: "pager_segments X crc codec (cc_segments c) cur = (ops1, Inr (refs, cur1))"
      and p: "pager_colls X crc codec cs cur1 = (ops2, Inr (es1, cur'))"
      and o: "ops = ops1 @ ops2" and es: "es = checkpoint_entry c refs # es1"
      by (auto simp: tryR_eq_Inr split: prod.splits sum.splits)
    from pager_segments_image [OF s Cons.prems(2)] obtain d where
      w: "write_segments X crc codec (cc_segments c) buf = Inr (refs, buf @ d)" "cur1 = cur + length d"
      and cont: "contiguous cur ops1 d" by blast
    have "length (buf @ d) = cur1" "HEADER_SIZE \<le> cur1" using Cons.prems(2,3) w(2) by simp_all
    from Cons.IH [OF p this Cons.prems(4)] obtain d2 where
      d2: "cur' = cur1 + length d2" "contiguous cur1 ops2 d2"
        "list_all2 (coll_committed X crc codec ((buf @ d) @ d2)) es1 cs" by blast
    have len: "length (buf @ d) < 2 ^ 64" using Cons.prems(2,4) d2(1) w(2) by simp
    have "list_all2 (seg_at X crc codec (buf @ d)) refs (cc_segments c)" "refs_from (length buf) refs"
      using write_segments_inv [OF w(1) _ len] Cons.prems(2,3) by simp_all
    then have "coll_at X crc codec (buf @ d) (checkpoint_entry c refs) c"
      by (auto simp: coll_at_def refs_from_def)
    then have "coll_committed X crc codec ((buf @ d) @ d2) (checkpoint_entry c refs) c"
      using coll_at_append [of X crc codec "buf @ d"] by (simp add: coll_committed_def None)
    then show ?thesis
      using d2 w(2) contiguous_append [OF cont, of ops2 d2] by (intro exI [of _ "d @ d2"]) (simp add: o es)
  qed
qed

lemma pager_segments_above:
  "pager_segments X crc codec segs cur = (ops, r) \<Longrightarrow> n \<le> cur \<Longrightarrow>
     list_all (op_above n) ops \<and> (\<forall>refs cur'. r = Inr (refs, cur') \<longrightarrow> cur \<le> cur')"
proof (induction segs arbitrary: cur ops r)
  case (Cons s segs)
  then show ?case
    by (auto simp: tryR_eq_Inr split: sum.splits prod.splits) (fastforce)+
qed simp

lemma pager_colls_above:
  "pager_colls X crc codec cs cur = (ops, r) \<Longrightarrow> n \<le> cur \<Longrightarrow> list_all (op_above n) ops
     \<and> (\<forall>es cur'. r = Inr (es, cur') \<longrightarrow> cur \<le> cur')"
proof (induction cs arbitrary: cur ops r)
  case (Cons c cs)
  show ?case
  proof (cases "cc_reused c")
    case (Some refs)
    obtain ops1 r1 where p: "pager_colls X crc codec cs cur = (ops1, r1)" by fastforce
    show ?thesis using Cons.IH [OF p Cons.prems(2)] Cons.prems(1) Some p by (auto simp: tryR_eq_Inr)
  next
    case None
    obtain ops1 r1 where s: "pager_segments X crc codec (cc_segments c) cur = (ops1, r1)" by fastforce
    note a = pager_segments_above [OF s Cons.prems(2)]
    show ?thesis
    proof (cases r1)
      case (Inl e)
      then show ?thesis using Cons.prems(1) None s a by auto
    next
      case (Inr q)
      obtain refs cur1 where q: "q = (refs, cur1)" by fastforce
      obtain ops2 r2 where p: "pager_colls X crc codec cs cur1 = (ops2, r2)" by fastforce
      have "cur \<le> cur1" using a Inr q by auto
      then have "n \<le> cur1" using Cons.prems(2) by simp
      show ?thesis
        using Cons.IH [OF p \<open>n \<le> cur1\<close>] \<open>cur \<le> cur1\<close> Cons.prems(1) None s a Inr q p
        by (auto simp: tryR_eq_Inr dest: order_trans)
    qed
  qed
qed simp


subsection \<open>The committed chain\<close>

lemma take_eq_mono: "take n xs = take n ys \<Longrightarrow> m \<le> n \<Longrightarrow> take m xs = take m ys"
proof -
  assume e: "take n xs = take n ys" and m: "m \<le> n"
  have "take m xs = take m (take n xs)" using m by (simp add: min_def)
  also have "\<dots> = take m (take n ys)" by (simp only: e)
  finally show ?thesis using m by (simp add: min_def)
qed

lemma same_below_take: "same_below n f g \<Longrightarrow> m \<le> n \<Longrightarrow> take m f = take m g"
  unfolding same_below_def by (blast intro: take_eq_mono)

lemma same_below_slice: "same_below n f g \<Longrightarrow> j \<le> n \<Longrightarrow> slice_of f i j = slice_of g i j"
  unfolding same_below_def by (blast intro: slice_of_cong_take)

lemma read_committed_below:
  assumes r: "read_committed crc M f = Inr (h, t, n)" and off: "HEADER_SIZE \<le> unat (toc_offset h)"
    and s: "same_below n f f'"
  shows "read_committed crc M f' = Inr (h, t, n)"
proof -
  from r have n: "n = unat (toc_offset h) + unat (toc_len h)" "header_decode crc (take HEADER_SIZE f) = Inr h"
    by (auto simp: read_committed_def tryR_eq_Inr Let_def split: if_splits)
  have le: "n \<le> length f" "n \<le> length f'" "HEADER_SIZE \<le> n"
    using s n off by (simp_all add: same_below_def)
  have "take HEADER_SIZE f' = take HEADER_SIZE f"
    using same_below_take [OF s le(3)] by simp
  moreover have "slice_of f' (unat (toc_offset h)) n = slice_of f (unat (toc_offset h)) n"
    using same_below_slice [OF s order_refl] by simp
  ultimately show ?thesis
    using r n le by (simp add: read_committed_def Let_def)
qed

lemma toc_at_append: "toc_at crc M b h t \<Longrightarrow> toc_at crc M (b @ r) h t"
  by (auto simp: toc_at_def slice_of_append_left Let_def)

lemma read_committed_toc_at:
  "toc_at crc M b h t \<Longrightarrow> read_committed crc M b = Inr (h, t, unat (toc_offset h) + unat (toc_len h))"
  by (simp add: toc_at_def read_committed_def Let_def)

lemma contiguous_length:
  "contiguous cur ops data \<Longrightarrow> cur \<le> length f \<or> data \<noteq> [] \<Longrightarrow> cur + length data \<le> length (run_ops ops f)"
proof (induction cur ops data arbitrary: f rule: contiguous.induct)
  case (2 cur at xs ops data)
  then have t: "take (length xs) data = xs" and at: "at = cur" by simp_all
  note d = take_prefix_split [OF t]
  have "cur + length xs \<le> length (fwrite at xs f) \<or> drop (length xs) data \<noteq> []"
    using 2(3) d by (cases "xs = []") (auto simp: length_fwrite at)
  from 2(1) [OF _ this] 2(2) d show ?case by (simp add: run_ops_def)
qed (auto simp: run_ops_def)

text \<open>The file of a completed commit: the data behind the old tail, the TOC behind it, the new header in front.\<close>

lemma checkpoint_file:
  assumes c: "checkpoint_ops X crc M p g colls codec md = (ops, Inr (toc, tail))"
    and tl: "HEADER_SIZE \<le> pg_tail p" "tail < 2 ^ 64" and t: "mp_carries M toc"
  obtains ops1 data tb hdr where
    "ops = ops1 @ [SyncAll, WriteHeader (header_encode crc hdr), SyncAll]"
    "list_all (op_above (pg_tail p)) ops1"
    "hdr = commit_header crc (pg_uuid p) (pg_created_epoch_s p) md (word_of_nat (pg_tail p + length data)) tb"
    "toc_encode M toc = Inr tb" "tail = pg_tail p + length data + length tb"
    "run_ops ops1 f = (take (pg_tail p) (fpad (pg_tail p) f) @ data) @ tb @ drop tail f"
    "\<And>buf. length buf = pg_tail p \<Longrightarrow> list_all2 (coll_committed X crc codec (buf @ data)) (toc_collections toc) colls"
proof -
  from c obtain ops1 es cur tb where pc: "pager_colls X crc codec colls (pg_tail p) = (ops1, Inr (es, cur))"
    and toc: "toc = \<lparr>toc_generation = g, toc_collections = es, toc_free_tail_offset = word_of_nat cur\<rparr>"
    and te: "toc_encode M toc = Inr tb" and tail: "tail = cur + length tb"
    and ops: "ops = ops1 @ [SyncAll, WriteAt cur tb, SyncAll, WriteHeader (header_encode crc
       (commit_header crc (pg_uuid p) (pg_created_epoch_s p) md (word_of_nat cur) tb)), SyncAll]"
    by (auto simp: checkpoint_ops_def Let_def split: if_splits prod.splits sum.splits)
  have cur64: "cur < 2 ^ 64" using tl(2) tail by simp
  from pager_colls_layout [OF pc, of "replicate (pg_tail p) 0"] tl(1) cur64 obtain data where
    data: "cur = pg_tail p + length data" "contiguous (pg_tail p) ops1 data" by auto
  have lay: "list_all2 (coll_committed X crc codec (buf @ data)) es colls" if "length buf = pg_tail p" for buf
  proof -
    from pager_colls_layout [OF pc that tl(1) cur64] obtain d where
      d: "cur = pg_tail p + length d" "contiguous (pg_tail p) ops1 d"
      "list_all2 (coll_committed X crc codec (buf @ d)) es colls" by blast
    have "d = data"
      using contiguous_run [OF d(2), of "[]"] contiguous_run [OF data(2), of "[]"] d(1) data(1) by simp
    with d(3) show ?thesis by simp
  qed
  have ne: "tb \<noteq> []"
    using t te by (auto simp: mp_carries_def toc_encode_def) (metis append_is_Nil_conv mp_bytes_head mp_head_nonempty)
  have cont: "contiguous (pg_tail p) (ops1 @ [WriteAt cur tb]) (data @ tb)"
    using data by (intro contiguous_append) simp_all
  have "pg_tail p + length (data @ tb) \<le> length (run_ops (ops1 @ [WriteAt cur tb]) f)"
    using ne by (intro contiguous_length [OF cont]) simp
  then have run: "run_ops (ops1 @ [WriteAt cur tb]) f = (take (pg_tail p) (fpad (pg_tail p) f) @ data) @ tb @ drop tail f"
    using contiguous_run [OF cont, of f] data(1) tail by (simp add: fpad_id add.assoc)
  have above: "list_all (op_above (pg_tail p)) ops1" "pg_tail p \<le> cur"
    using pager_colls_above [OF pc order_refl] by simp_all
  have run': "run_ops (ops1 @ [SyncAll, WriteAt cur tb]) f = run_ops (ops1 @ [WriteAt cur tb]) f"
    by (simp add: run_ops_def)
  show thesis
  proof (rule that [of "ops1 @ [SyncAll, WriteAt cur tb]"])
    show "ops = (ops1 @ [SyncAll, WriteAt cur tb]) @ [SyncAll, WriteHeader (header_encode crc
       (commit_header crc (pg_uuid p) (pg_created_epoch_s p) md (word_of_nat cur) tb)), SyncAll]"
      by (simp add: ops)
    show "list_all (op_above (pg_tail p)) (ops1 @ [SyncAll, WriteAt cur tb])"
      using above by simp
    show "run_ops (ops1 @ [SyncAll, WriteAt cur tb]) f =
        (take (pg_tail p) (fpad (pg_tail p) f) @ data) @ tb @ drop tail f"
      unfolding run' by (rule run)
    show "list_all2 (coll_committed X crc codec (buf @ data)) (toc_collections toc) colls"
      if "length buf = pg_tail p" for buf
      using lay [OF that] by (simp add: toc)
  qed (use te tail data(1) in simp_all)
qed

definition pager_on :: "(bytes \<Rightarrow> u32) \<Rightarrow> toc msgpack \<Rightarrow> pager \<Rightarrow> bytes \<Rightarrow> header \<Rightarrow> toc \<Rightarrow> bool" where
  "pager_on crc M p f h t \<longleftrightarrow>
     pg_open p \<and> read_committed crc M f = Inr (h, t, pg_tail p) \<and> HEADER_SIZE \<le> unat (toc_offset h)
     \<and> pg_uuid p = file_uuid h \<and> pg_created_epoch_s p = created_epoch_s h"

lemma pager_on_below: "pager_on crc M p f h t \<Longrightarrow> same_below (pg_tail p) f f' \<Longrightarrow> pager_on crc M p f' h t"
  unfolding pager_on_def by (blast intro: read_committed_below)

lemma pager_on_tail: "pager_on crc M p f h t \<Longrightarrow> HEADER_SIZE \<le> pg_tail p \<and> pg_tail p \<le> length f \<and> length (pg_uuid p) = 16"
  by (auto simp: pager_on_def read_committed_def tryR_eq_Inr Let_def dest: header_decode_uuid split: if_splits)

lemma put_header_append:
  "length hdr \<le> length b \<Longrightarrow> put 0 hdr (b @ r) = put 0 hdr b @ r"
  by (simp add: put_def)

lemma fwrite_header: "length hdr = HEADER_SIZE \<Longrightarrow> HEADER_SIZE \<le> length f \<Longrightarrow> fwrite 0 hdr f = put 0 hdr f"
  by (auto simp: fwrite_def fpad_def HEADER_SIZE_def)

text \<open>A completed commit is readable: its TOC is the committed one and its segments are where it says.\<close>

lemma checkpoint_commits:
  assumes c: "checkpoint_ops X crc M p g colls codec md = (ops, Inr (toc, tail))"
    and tl: "HEADER_SIZE \<le> pg_tail p" "tail < 2 ^ 64" and t: "mp_carries M toc"
    and uuid: "length (pg_uuid p) = 16"
  shows "\<exists>h. read_committed crc M (run_ops ops f) = Inr (h, toc, tail) \<and> file_uuid h = pg_uuid p
     \<and> created_epoch_s h = pg_created_epoch_s p \<and> HEADER_SIZE \<le> unat (toc_offset h)
     \<and> list_all2 (coll_committed X crc codec (run_ops ops f)) (toc_collections toc) colls"
proof -
  from checkpoint_file [OF c tl t, of f] obtain ops1 data tb hdr where
    ops: "ops = ops1 @ [SyncAll, WriteHeader (header_encode crc hdr), SyncAll]"
    and hdr: "hdr = commit_header crc (pg_uuid p) (pg_created_epoch_s p) md (word_of_nat (pg_tail p + length data)) tb"
    and te: "toc_encode M toc = Inr tb" and tail: "tail = pg_tail p + length data + length tb"
    and run: "run_ops ops1 f = (take (pg_tail p) (fpad (pg_tail p) f) @ data) @ tb @ drop tail f"
    and lay: "\<And>buf. length buf = pg_tail p \<Longrightarrow> list_all2 (coll_committed X crc codec (buf @ data)) (toc_collections toc) colls"
    by metis
  let ?b = "take (pg_tail p) (fpad (pg_tail p) f) @ data"
  have bl: "length ?b = pg_tail p + length data" by simp
  have hl: "length (header_encode crc hdr) = HEADER_SIZE"
    using uuid by (simp add: hdr commit_header_def length_header_encode HEADER_SIZE_def)
  have f': "run_ops ops f = put 0 (header_encode crc hdr) (?b @ tb) @ drop tail f"
  proof -
    have "run_ops ops f = fwrite 0 (header_encode crc hdr) (run_ops ops1 f)"
      by (simp add: ops run_ops_def)
    also have "\<dots> = put 0 (header_encode crc hdr) ((?b @ tb) @ drop tail f)"
      using hl tl(1) bl by (subst fwrite_header) (simp_all add: run)
    also have "\<dots> = put 0 (header_encode crc hdr) (?b @ tb) @ drop tail f"
      using hl tl(1) by (intro put_header_append) simp
    finally show ?thesis .
  qed
  have "toc_at crc M (put 0 (header_encode crc hdr) (?b @ tb)) hdr toc"
    using tl tail bl by (intro toc_at_commit [OF uuid t te]) (simp_all add: hdr)
  then have at: "toc_at crc M (run_ops ops f) hdr toc" unfolding f' by (rule toc_at_append)
  have n: "unat (toc_offset hdr) = pg_tail p + length data" "unat (toc_len hdr) = length tb"
    using tl(2) tail unat_u64 [of "pg_tail p + length data"] unat_u64 [of "length tb"]
    by (auto simp: hdr commit_header_def)
  have "list_all2 (coll_committed X crc codec (run_ops ops f)) (toc_collections toc) colls"
  proof (rule list_all2_mono [OF lay [of "take (pg_tail p) (fpad (pg_tail p) f)"]])
    fix e c assume "coll_committed X crc codec ?b e c"
    then have "coll_committed X crc codec (?b @ tb) e c" by (rule coll_committed_append)
    then have "coll_committed X crc codec (put 0 (header_encode crc hdr) (?b @ tb)) e c"
      using hl tl(1) by (intro coll_committed_header) simp_all
    then show "coll_committed X crc codec (run_ops ops f) e c"
      unfolding f' by (rule coll_committed_append)
  qed simp
  then show ?thesis
    using read_committed_toc_at [OF at] n tail tl(1) by (auto simp: hdr commit_header_def header_new_def)
qed

lemma checkpoint_above:
  assumes "checkpoint_ops X crc M p g colls codec md = (ops, Inl e)"
  shows "list_all (op_above (pg_tail p)) ops"
proof -
  obtain ops1 r where pc: "pager_colls X crc codec colls (pg_tail p) = (ops1, r)" by fastforce
  from pager_colls_above [OF pc order_refl] pc assms show ?thesis
    by (auto simp: checkpoint_ops_def Let_def split: if_splits sum.splits prod.splits)
qed

text \<open>Crash safety: whatever is on disk, it is the old committed state or the new one.\<close>

lemma checkpoint_crash_safe:
  assumes on: "pager_on crc M p f h t"
    and c: "checkpoint_ops X crc M p g colls codec md = (ops, Inr (toc, tail))"
    and tl: "tail < 2 ^ 64" and toc: "mp_carries M toc" and cr: "crash ops f f'"
  shows "read_committed crc M f' = Inr (h, t, pg_tail p) \<and> same_below (pg_tail p) f f'
     \<or> (\<exists>h'. read_committed crc M f' = Inr (h', toc, tail))"
proof -
  note pt = pager_on_tail [OF on]
  from checkpoint_file [OF c _ tl toc, of f] pt obtain ops1 hdr where
    ops: "ops = ops1 @ [SyncAll, WriteHeader (header_encode crc hdr), SyncAll]"
    and above: "list_all (op_above (pg_tail p)) ops1" by metis
  from crash_root_swap [OF cr ops above] pt
  consider "same_below (pg_tail p) f f'" | "f' = fwrite 0 (header_encode crc hdr) (run_ops ops1 f)"
    by blast
  then show ?thesis
  proof cases
    case 1
    then show ?thesis using pager_on_below [OF on] by (simp add: pager_on_def)
  next
    case 2
    then have "f' = run_ops ops f" by (simp add: ops run_ops_def)
    then show ?thesis using checkpoint_commits [OF c _ tl toc] pt by blast
  qed
qed

text \<open>A failed checkpoint writes only behind the tail, so the committed state stands.\<close>

lemma checkpoint_failed:
  assumes on: "pager_on crc M p f h t"
    and c: "pager_checkpoint X crc M g colls codec md (p, f) = ((p', f'), Inl e)"
  shows "p' = p \<and> pager_on crc M p f' h t \<and> same_below (pg_tail p) f f'"
proof -
  from c obtain ops where ops: "checkpoint_ops X crc M p g colls codec md = (ops, Inl e)" "f' = run_ops ops f" "p' = p"
    by (auto simp: pager_checkpoint_def split: prod.splits sum.splits)
  have "same_below (pg_tail p) f f'"
    unfolding ops(2) using pager_on_tail [OF on] by (intro same_below_run_ops checkpoint_above [OF ops(1)]) simp
  then show ?thesis
    using pager_on_below [OF on] ops(3) by simp
qed

text \<open>Segments are immutable: what a reference below the tail reads does not change in any later commit.\<close>

lemma read_segment_below:
  assumes "same_below n f f'" and "unat (rf_offset r) + unat (rf_len r) \<le> n"
  shows "pager_read_segment X crc (p, f') r = pager_read_segment X crc (p, f) r"
  using assms same_below_slice [OF assms]
  by (auto simp: pager_read_segment_def same_below_def)

lemma same_below_header:
  "same_below n f f' \<Longrightarrow> length hdr = HEADER_SIZE \<Longrightarrow> HEADER_SIZE \<le> i \<Longrightarrow> j \<le> n \<Longrightarrow>
     slice_of (put 0 hdr f') i j = slice_of f i j"
proof -
  assume s: "same_below n f f'" and h: "length hdr = HEADER_SIZE" "HEADER_SIZE \<le> i" "j \<le> n"
  show ?thesis
  proof (cases "HEADER_SIZE \<le> length f'")
    case True
    then have "slice_of (put 0 hdr f') i j = slice_of f' i j"
      using h by (intro slice_put_other) simp_all
    then show ?thesis using s h(3) by (metis same_below_def slice_of_cong_take)
  next
    case False
    then have "i > j" using s h by (simp add: same_below_def)
    then show ?thesis by (simp add: slice_of_def)
  qed
qed

lemma pager_read_segment_at:
  assumes at: "seg_at X crc codec f r s" and ok: "seg_ok X codec s" and o: "pg_open p" and len: "length f < 2 ^ 64"
  shows "pager_read_segment X crc (p, f) r = Inr s"
  using image_segment_at [OF at ok len] at len o
  by (auto simp: image_segment_def pager_read_segment_def seg_at_def get_range_eq)

subsection \<open>The pager and the image writer produce the same bytes\<close>

lemma pager_colls_image:
  "pager_colls X crc codec cs cur = (ops, Inr (es, cur')) \<Longrightarrow> length buf = cur \<Longrightarrow> \<forall>c\<in>set cs. cc_reused c = None \<Longrightarrow>
     \<exists>data. write_colls X crc codec cs buf = Inr (es, buf @ data) \<and> cur' = cur + length data \<and> contiguous cur ops data"
proof (induction cs arbitrary: cur ops es buf)
  case Nil
  then show ?case by simp
next
  case (Cons c cs)
  from Cons.prems(3) have "cc_reused c = None" by simp
  with Cons.prems(1) obtain ops1 refs cur1 ops2 es1 where
    s: "pager_segments X crc codec (cc_segments c) cur = (ops1, Inr (refs, cur1))"
    and p: "pager_colls X crc codec cs cur1 = (ops2, Inr (es1, cur'))"
    and o: "ops = ops1 @ ops2" and es: "es = checkpoint_entry c refs # es1"
    by (auto simp: tryR_eq_Inr split: prod.splits sum.splits)
  from pager_segments_image [OF s Cons.prems(2)] obtain d where
    w: "write_segments X crc codec (cc_segments c) buf = Inr (refs, buf @ d)" "cur1 = cur + length d"
    and cont: "contiguous cur ops1 d" by blast
  from Cons.IH [OF p, of "buf @ d"] Cons.prems(2,3) w(2) obtain d2 where
    d2: "write_colls X crc codec cs (buf @ d) = Inr (es1, (buf @ d) @ d2)" "cur' = cur1 + length d2"
      "contiguous cur1 ops2 d2" by auto
  show ?case
    using d2 w \<open>cc_reused c = None\<close> contiguous_append [OF cont, of ops2 d2]
    by (intro exI [of _ "d @ d2"]) (simp add: o es)
qed

lemma create_compacted_image:
  assumes c: "create_compacted X crc M excl path uuid g colls codec epoch fs = (fs', Inr ())"
    and uuid: "length uuid = 16" and fresh: "\<forall>c\<in>set colls. cc_reused c = None"
    and toc: "\<And>es n. mp_enc M \<lparr>toc_generation = g, toc_collections = es, toc_free_tail_offset = n\<rparr> \<noteq> Some []"
  shows "\<exists>b. fs' path = Some b \<and> write_image X crc M uuid epoch epoch g colls codec = Inr b"
proof -
  let ?p = "\<lparr>pg_open = True, pg_uuid = uuid, pg_created_epoch_s = epoch, pg_tail = HEADER_SIZE, pg_path = path\<rparr>"
  from c obtain ops tc tail where k: "checkpoint_ops X crc M ?p g colls codec epoch = (ops, Inr (tc, tail))"
    and fs': "fs' path = Some (run_ops ops [])"
    by (auto simp: create_compacted_def Let_def pager_checkpoint_def tryR_eq_Inr split: if_splits prod.splits sum.splits)
  from k obtain ops1 es cur tb where pc: "pager_colls X crc codec colls HEADER_SIZE = (ops1, Inr (es, cur))"
    and te: "toc_encode M \<lparr>toc_generation = g, toc_collections = es, toc_free_tail_offset = word_of_nat cur\<rparr> = Inr tb"
    and ops: "ops = ops1 @ [SyncAll, WriteAt cur tb, SyncAll, WriteHeader (header_encode crc
       (commit_header crc uuid epoch epoch (word_of_nat cur) tb)), SyncAll]"
    by (auto simp: checkpoint_ops_def Let_def split: prod.splits sum.splits)
  from pager_colls_image [OF pc, of "replicate HEADER_SIZE 0"] fresh obtain data where
    w: "write_colls X crc codec colls (replicate HEADER_SIZE 0) = Inr (es, replicate HEADER_SIZE 0 @ data)"
    and cur: "cur = HEADER_SIZE + length data" and cont: "contiguous HEADER_SIZE ops1 data" by auto
  let ?h = "header_encode crc (commit_header crc uuid epoch epoch (word_of_nat cur) tb)"
  have cont2: "contiguous HEADER_SIZE (ops1 @ [WriteAt cur tb]) (data @ tb)"
    using cur by (intro contiguous_append [OF cont]) simp
  have "tb \<noteq> []" using te toc [of es "word_of_nat cur"] by (auto simp: toc_encode_def)
  then have "run_ops (ops1 @ [WriteAt cur tb]) [] = replicate HEADER_SIZE 0 @ data @ tb"
    using contiguous_run [OF cont2, of "[]"] contiguous_length [OF cont2, of "[]"] by (simp add: fpad_id fpad_def)
  moreover have "length ?h = HEADER_SIZE"
    using uuid by (simp add: commit_header_def length_header_encode HEADER_SIZE_def)
  ultimately have "run_ops ops [] = put 0 ?h (replicate HEADER_SIZE 0 @ data @ tb)"
    by (simp add: ops run_ops_def fwrite_header)
  then show ?thesis
    using w te fs' cur by (simp add: write_image_def Let_def)
qed

subsection \<open>Properties\<close>

text \<open>
  C1. Crash safety of the commit protocol (STG-003/050): run a checkpoint on a file whose committed chain is intact
  and crash at any moment, with every write since the last sync lost, torn or done; the file then still commits the
  old header and TOC with every byte below the old tail untouched, or it commits the new TOC. Only the one-page
  header write is taken as atomic.
\<close>

theorem checkpoint_crash_atomic:
  assumes "pager_on crc M p f h t"
    and "checkpoint_ops X crc M p g colls codec md = (ops, Inr (toc, tail))"
    and "tail < 2 ^ 64" and "mp_carries M toc" and "crash ops f f'"
  shows "read_committed crc M f' = Inr (h, t, pg_tail p) \<and> same_below (pg_tail p) f f'
     \<or> (\<exists>h'. read_committed crc M f' = Inr (h', toc, tail))"
  using assms by (rule checkpoint_crash_safe)

text \<open>A file with one empty commit, and the empty checkpoint that follows it.\<close>

definition empty_toc :: "u64 \<Rightarrow> toc" where
  "empty_toc off = \<lparr>toc_generation = 0, toc_collections = [], toc_free_tail_offset = off\<rparr>"

definition two_tocs :: "toc msgpack" where
  "two_tocs = two_docs (empty_toc 4096) (empty_toc 4097)"

definition pager_at :: "nat \<Rightarrow> pager" where
  "pager_at n = \<lparr>pg_open = True, pg_uuid = replicate 16 1, pg_created_epoch_s = 0, pg_tail = n, pg_path = ''db''\<rparr>"

lemma two_tocs_carries: "mp_carries two_tocs (empty_toc 4096)" "mp_carries two_tocs (empty_toc 4097)"
  by (simp_all add: two_tocs_def empty_toc_def)

lemma empty_checkpoint:
  "\<exists>ops. checkpoint_ops X crc two_tocs (pager_at n) 0 [] codec 0 =
      (SyncAll # ops, Inr (empty_toc (word_of_nat n), n + 1))"
  by (simp add: checkpoint_ops_def empty_toc_def toc_encode_def Let_def pager_at_def two_tocs_def two_docs_enc)

lemma first_commit: "\<exists>f h. pager_on sum_crc two_tocs (pager_at 4097) f h (empty_toc 4096)"
proof -
  obtain ops where c: "checkpoint_ops id_compressors sum_crc two_tocs (pager_at 4096) 0 [] Codec_None 0 =
      (SyncAll # ops, Inr (empty_toc 4096, 4097))"
    using empty_checkpoint [of id_compressors sum_crc 4096] by auto
  have "\<exists>h. read_committed sum_crc two_tocs (run_ops (SyncAll # ops) []) = Inr (h, empty_toc 4096, 4097)
     \<and> file_uuid h = pg_uuid (pager_at 4096) \<and> created_epoch_s h = pg_created_epoch_s (pager_at 4096)
     \<and> HEADER_SIZE \<le> unat (toc_offset h)
     \<and> list_all2 (coll_committed id_compressors sum_crc Codec_None (run_ops (SyncAll # ops) []))
         (toc_collections (empty_toc 4096)) []"
    by (rule checkpoint_commits [OF c]) (simp_all add: pager_at_def HEADER_SIZE_def two_tocs_carries)
  then obtain h where "pager_on sum_crc two_tocs (pager_at 4097) (run_ops (SyncAll # ops) []) h (empty_toc 4096)"
    by (auto simp: pager_on_def pager_at_def)
  then show ?thesis by blast
qed

theorem checkpoint_crash_atomic_witness:
  "\<exists>f h ops f'. crash (SyncAll # ops) f f'
     \<and> (read_committed sum_crc two_tocs f' = Inr (h, empty_toc 4096, 4097) \<and> same_below 4097 f f'
        \<or> (\<exists>h'. read_committed sum_crc two_tocs f' = Inr (h', empty_toc 4097, 4098)))"
proof -
  from first_commit obtain f h where on: "pager_on sum_crc two_tocs (pager_at 4097) f h (empty_toc 4096)" by blast
  obtain ops where c: "checkpoint_ops id_compressors sum_crc two_tocs (pager_at 4097) 0 [] Codec_None 0 =
      (SyncAll # ops, Inr (empty_toc 4097, 4098))"
    using empty_checkpoint [of id_compressors sum_crc 4097] by auto
  have cr: "crash (SyncAll # ops) f f" by (rule cr_unsynced) (rule un_stop)
  from checkpoint_crash_atomic [OF on c _ two_tocs_carries(2) cr] have
    "read_committed sum_crc two_tocs f = Inr (h, empty_toc 4096, 4097) \<and> same_below 4097 f f
     \<or> (\<exists>h'. read_committed sum_crc two_tocs f = Inr (h', empty_toc 4097, 4098))"
    by (simp add: pager_at_def)
  with cr show ?thesis by blast
qed

text \<open>
  C2. A completed checkpoint is the committed state: reading the chain back gives exactly the TOC it returned, with
  the file's identity kept, and every collection either was carried forward with its references unchanged or has
  its segments, encoded, exactly where the TOC points.
\<close>

theorem checkpoint_committed:
  assumes "checkpoint_ops X crc M p g colls codec md = (ops, Inr (toc, tail))"
    and "HEADER_SIZE \<le> pg_tail p" and "tail < 2 ^ 64" and "mp_carries M toc" and "length (pg_uuid p) = 16"
  shows "\<exists>h. read_committed crc M (run_ops ops f) = Inr (h, toc, tail) \<and> file_uuid h = pg_uuid p
     \<and> created_epoch_s h = pg_created_epoch_s p \<and> HEADER_SIZE \<le> unat (toc_offset h)
     \<and> list_all2 (coll_committed X crc codec (run_ops ops f)) (toc_collections toc) colls"
  using assms by (rule checkpoint_commits)

theorem checkpoint_committed_witness:
  "\<exists>ops h. checkpoint_ops id_compressors sum_crc two_tocs (pager_at 4097) 0 [] Codec_None 0 =
      (SyncAll # ops, Inr (empty_toc 4097, 4098))
    \<and> read_committed sum_crc two_tocs (run_ops (SyncAll # ops) []) = Inr (h, empty_toc 4097, 4098)"
proof -
  obtain ops where c: "checkpoint_ops id_compressors sum_crc two_tocs (pager_at 4097) 0 [] Codec_None 0 =
      (SyncAll # ops, Inr (empty_toc 4097, 4098))"
    using empty_checkpoint [of id_compressors sum_crc 4097] by auto
  from checkpoint_committed [OF c, of "[]"] show ?thesis
    using c by (auto simp: pager_at_def HEADER_SIZE_def two_tocs_carries)
qed

text \<open>
  A checkpoint that fails (a body or the TOC does not encode) leaves the pager as it was and the committed chain
  intact: it has written only behind the tail.
\<close>

theorem checkpoint_failure_harmless:
  assumes "pager_on crc M p f h t"
    and "pager_checkpoint X crc M g colls codec md (p, f) = ((p', f'), Inl e)"
  shows "p' = p \<and> pager_on crc M p' f' h t \<and> same_below (pg_tail p) f f'"
  using checkpoint_failed [OF assms] by simp

text \<open>A package that cannot compress one body fails the checkpoint.\<close>

theorem checkpoint_failure_harmless_witness:
  "\<exists>f h f'. pager_checkpoint (id_compressors\<lparr>zstd_encode := (\<lambda>_. None)\<rparr>) sum_crc two_tocs 1
      [\<lparr>cc_coll_id = 1, cc_name = ''c'', cc_aliases = [], cc_vector_count = 0, cc_tombstone_count = 0,
        cc_segments = [\<lparr>sg_type = SegPayload, sg_flags = 0, sg_coll = 1, sg_body = replicate 2000 0\<rparr>],
        cc_reused = None\<rparr>] Codec_Zstd 0 (pager_at 4097, f) = ((pager_at 4097, f'), Inl (Corrupt ''zstd compress''))
    \<and> pager_on sum_crc two_tocs (pager_at 4097) f' h (empty_toc 4096)"
proof -
  from first_commit obtain f h where on: "pager_on sum_crc two_tocs (pager_at 4097) f h (empty_toc 4096)" by blast
  have c: "pager_checkpoint (id_compressors\<lparr>zstd_encode := (\<lambda>_. None)\<rparr>) sum_crc two_tocs 1
      [\<lparr>cc_coll_id = 1, cc_name = ''c'', cc_aliases = [], cc_vector_count = 0, cc_tombstone_count = 0,
        cc_segments = [\<lparr>sg_type = SegPayload, sg_flags = 0, sg_coll = 1, sg_body = replicate 2000 0\<rparr>],
        cc_reused = None\<rparr>] Codec_Zstd 0 (pager_at 4097, f) = ((pager_at 4097, f), Inl (Corrupt ''zstd compress''))"
    by (simp add: pager_checkpoint_def checkpoint_ops_def pager_at_def segment_encode_def codec_for_def
        COMPRESS_THRESHOLD_def id_compressors_def run_ops_def)
  from checkpoint_failure_harmless [OF on c] c show ?thesis by blast
qed

text \<open>
  The pager and the in-memory image writer produce the same file, byte for byte: a compacted database written to
  a path holds what \<open>write_image\<close> returns for the same collections, uuid and times, so either side opens the other's.
\<close>

theorem compacted_file_is_image:
  assumes "create_compacted X crc M excl path uuid g colls codec epoch fs = (fs', Inr ())"
    and "length uuid = 16" and "\<forall>c\<in>set colls. cc_reused c = None"
    and "\<And>es n. mp_enc M \<lparr>toc_generation = g, toc_collections = es, toc_free_tail_offset = n\<rparr> \<noteq> Some []"
  shows "\<exists>b. fs' path = Some b \<and> write_image X crc M uuid epoch epoch g colls codec = Inr b"
  using assms by (rule create_compacted_image)

theorem compacted_file_is_image_witness:
  "\<exists>fs' b. create_compacted id_compressors sum_crc two_tocs (\<lambda>_. False) ''db'' (replicate 16 1) 0 one_coll
       Codec_None 9 (\<lambda>_. None) = (fs', Inr ())
     \<and> fs' ''db'' = Some b
     \<and> write_image id_compressors sum_crc two_tocs (replicate 16 1) 9 9 0 one_coll Codec_None = Inr b"
proof -
  obtain fs' where c: "create_compacted id_compressors sum_crc two_tocs (\<lambda>_. False) ''db'' (replicate 16 1) 0 one_coll
       Codec_None 9 (\<lambda>_. None) = (fs', Inr ())"
    by (simp add: create_compacted_def pager_checkpoint_def checkpoint_ops_def one_coll_def segment_encode_def
        codec_for_def COMPRESS_THRESHOLD_def Let_def toc_encode_def two_tocs_def two_docs_enc)
  from compacted_file_is_image [OF c] c show ?thesis
    by (fastforce simp: one_coll_def two_tocs_def two_docs_enc split: if_splits)
qed

end
