(* ===== verification/Floats.thy ===== *)
theory Floats
  imports Prelude
begin

section \<open>IEEE 754 numbers as bit patterns\<close>

text \<open>
  \<open>f32\<close> and \<open>f64\<close> are their bit patterns, with the arithmetic of the language: operations are exact on the decoded
  values and rounded to nearest, ties to even. The format is given by \<open>p\<close> fraction bits and \<open>w\<close> exponent bits. A NaN result is the
  quiet NaN (which NaN an operation returns is unspecified in Rust, and nothing here looks at its payload).
  \<open>num_key\<close> orders non-NaN values as \<open><\<close> does, \<open>total_key\<close> orders bit patterns as \<open>total_cmp\<close> does.
\<close>

type_synonym f32 = u32
type_synonym f64 = u64

datatype fval = NaN | Inf bool | Fin bool int int

definition pow2 :: "int \<Rightarrow> int" where
  "pow2 e = 2 ^ nat e"

definition f_bias :: "int \<Rightarrow> int" where
  "f_bias w = pow2 (w - 1) - 1"

definition f_emin :: "int \<Rightarrow> int \<Rightarrow> int" where
  "f_emin p w = 1 - f_bias w - p"

definition f_decode :: "int \<Rightarrow> int \<Rightarrow> int \<Rightarrow> fval" where
  "f_decode p w n =
     (let frac = n mod pow2 p; ex = n div pow2 p mod pow2 w; s = (n div pow2 (p + w) mod 2 = 1)
      in if ex = pow2 w - 1 then (if frac = 0 then Inf s else NaN)
         else if ex = 0 then Fin s frac (f_emin p w)
         else Fin s (frac + pow2 p) (ex - 1 + f_emin p w))"

function flog2 :: "int \<Rightarrow> int" where
  "flog2 n = (if n < 2 then 0 else 1 + flog2 (n div 2))"
  by pat_completeness auto
termination
  by (relation "measure nat") auto

declare flog2.simps [simp del]

text \<open>\<open>num * 2 ^ e / den\<close> as a fraction of whole numbers.\<close>

definition scale_frac :: "int \<Rightarrow> int \<Rightarrow> int \<Rightarrow> int \<times> int" where
  "scale_frac num den e = (if 0 \<le> e then (num * pow2 e, den) else (num, den * pow2 (- e)))"

definition round_even :: "int \<Rightarrow> int \<Rightarrow> int" where
  "round_even num den =
     (let q = num div den; r = num mod den
      in if 2 * r > den \<or> (2 * r = den \<and> odd q) then q + 1 else q)"

text \<open>The magnitude bits of the fraction \<open>num / den\<close>, rounded.\<close>

definition round_mag :: "int \<Rightarrow> int \<Rightarrow> int \<Rightarrow> int \<Rightarrow> int" where
  "round_mag p w num den =
     (if num = 0 then 0
      else
        let e0 = flog2 num - flog2 den - 1 - p;
            (n0, d0) = scale_frac num den (- e0);
            e1 = (if n0 \<ge> d0 * pow2 (p + 1) then e0 + 1 else e0);
            e = max e1 (f_emin p w);
            (n, d) = scale_frac num den (- e);
            bits = (e - f_emin p w) * pow2 p + round_even n d
        in min bits ((pow2 w - 1) * pow2 p))"

definition f_encode :: "int \<Rightarrow> int \<Rightarrow> bool \<Rightarrow> int \<Rightarrow> int" where
  "f_encode p w s mag = (if s then pow2 (p + w) else 0) + mag"

definition f_inf :: "int \<Rightarrow> int \<Rightarrow> int" where
  "f_inf p w = (pow2 w - 1) * pow2 p"

definition f_nan :: "int \<Rightarrow> int \<Rightarrow> int" where
  "f_nan p w = f_inf p w + pow2 (p - 1)"

text \<open>Rounding a decoded value, with the sign kept also for zero.\<close>

fun f_round :: "int \<Rightarrow> int \<Rightarrow> fval \<Rightarrow> int" where
  "f_round p w NaN = f_nan p w"
| "f_round p w (Inf s) = f_encode p w s (f_inf p w)"
| "f_round p w (Fin s m e) = (let (n, d) = scale_frac m 1 e in f_encode p w s (round_mag p w n d))"

definition signed_int :: "bool \<Rightarrow> int \<Rightarrow> int" where
  "signed_int s m = (if s then - m else m)"

fun fv_add :: "fval \<Rightarrow> fval \<Rightarrow> fval" where
  "fv_add NaN _ = NaN"
| "fv_add _ NaN = NaN"
| "fv_add (Inf s) (Inf t) = (if s = t then Inf s else NaN)"
| "fv_add (Inf s) (Fin _ _ _) = Inf s"
| "fv_add (Fin _ _ _) (Inf t) = Inf t"
| "fv_add (Fin s m e) (Fin t n f) =
     (let g = min e f;
          v = signed_int s m * pow2 (e - g) + signed_int t n * pow2 (f - g)
      in if v = 0 then Fin (s \<and> t) 0 0 else Fin (v < 0) \<bar>v\<bar> g)"

fun fv_mul :: "fval \<Rightarrow> fval \<Rightarrow> fval" where
  "fv_mul NaN _ = NaN"
| "fv_mul _ NaN = NaN"
| "fv_mul (Inf s) (Inf t) = Inf (s \<noteq> t)"
| "fv_mul (Inf s) (Fin t n _) = (if n = 0 then NaN else Inf (s \<noteq> t))"
| "fv_mul (Fin s m _) (Inf t) = (if m = 0 then NaN else Inf (s \<noteq> t))"
| "fv_mul (Fin s m e) (Fin t n f) = Fin (s \<noteq> t) (m * n) (e + f)"

definition fv_neg :: "fval \<Rightarrow> fval" where
  "fv_neg v = (case v of NaN \<Rightarrow> NaN | Inf s \<Rightarrow> Inf (\<not> s) | Fin s m e \<Rightarrow> Fin (\<not> s) m e)"

text \<open>A quotient of finite values is rounded from its exact fraction.\<close>

definition f_div :: "int \<Rightarrow> int \<Rightarrow> fval \<Rightarrow> fval \<Rightarrow> int" where
  "f_div p w a b =
     (case (a, b) of
        (Fin s m e, Fin t n f) \<Rightarrow>
          if n = 0 then (if m = 0 then f_nan p w else f_encode p w (s \<noteq> t) (f_inf p w))
          else (let (x, y) = scale_frac m n (e - f) in f_encode p w (s \<noteq> t) (round_mag p w x y))
      | (Inf s, Fin t _ _) \<Rightarrow> f_encode p w (s \<noteq> t) (f_inf p w)
      | (Fin s _ _, Inf t) \<Rightarrow> f_encode p w (s \<noteq> t) 0
      | _ \<Rightarrow> f_nan p w)"

text \<open>The square root, rounded once: an integer root with at least \<open>p + 3\<close> bits and a bit that says whether it is exact.\<close>

function isqrt :: "int \<Rightarrow> int" where
  "isqrt n = (if n \<le> 0 then 0 else let r = 2 * isqrt (n div 4) in if (r + 1) * (r + 1) \<le> n then r + 1 else r)"
  by pat_completeness auto
termination
  by (relation "measure nat") auto

declare isqrt.simps [simp del]

fun f_sqrt :: "int \<Rightarrow> int \<Rightarrow> fval \<Rightarrow> int" where
  "f_sqrt p w NaN = f_nan p w"
| "f_sqrt p w (Inf s) = (if s then f_nan p w else f_inf p w)"
| "f_sqrt p w (Fin s m e) =
     (if m = 0 then f_encode p w s 0
      else if s then f_nan p w
      else
        let t = 2 * (p + 3) + (e mod 2); n = m * pow2 t; r = isqrt n
        in f_round p w (Fin False (2 * r + (if r * r = n then 0 else 1)) ((e - t) div 2 - 1)))"

subsection \<open>The two formats\<close>

definition f32_val :: "f32 \<Rightarrow> fval" where "f32_val x = f_decode 23 8 (uint x)"
definition f64_val :: "f64 \<Rightarrow> fval" where "f64_val x = f_decode 52 11 (uint x)"

definition f32_of :: "fval \<Rightarrow> f32" where "f32_of v = word_of_int (f_round 23 8 v)"
definition f64_of :: "fval \<Rightarrow> f64" where "f64_of v = word_of_int (f_round 52 11 v)"

definition f32_add :: "f32 \<Rightarrow> f32 \<Rightarrow> f32" where "f32_add a b = f32_of (fv_add (f32_val a) (f32_val b))"
definition f32_sub :: "f32 \<Rightarrow> f32 \<Rightarrow> f32" where "f32_sub a b = f32_of (fv_add (f32_val a) (fv_neg (f32_val b)))"
definition f32_mul :: "f32 \<Rightarrow> f32 \<Rightarrow> f32" where "f32_mul a b = f32_of (fv_mul (f32_val a) (f32_val b))"
definition f32_div :: "f32 \<Rightarrow> f32 \<Rightarrow> f32" where "f32_div a b = word_of_int (f_div 23 8 (f32_val a) (f32_val b))"
definition f64_add :: "f64 \<Rightarrow> f64 \<Rightarrow> f64" where "f64_add a b = f64_of (fv_add (f64_val a) (f64_val b))"
definition f64_mul :: "f64 \<Rightarrow> f64 \<Rightarrow> f64" where "f64_mul a b = f64_of (fv_mul (f64_val a) (f64_val b))"
definition f64_div :: "f64 \<Rightarrow> f64 \<Rightarrow> f64" where "f64_div a b = word_of_int (f_div 52 11 (f64_val a) (f64_val b))"

definition f64_sqrt :: "f64 \<Rightarrow> f64" where "f64_sqrt a = word_of_int (f_sqrt 52 11 (f64_val a))"

definition f32_of_int :: "int \<Rightarrow> f32" where "f32_of_int i = f32_of (Fin (i < 0) \<bar>i\<bar> 0)"
definition f64_of_int :: "int \<Rightarrow> f64" where "f64_of_int i = f64_of (Fin (i < 0) \<bar>i\<bar> 0)"
definition f64_of_f32 :: "f32 \<Rightarrow> f64" where "f64_of_f32 x = f64_of (f32_val x)"
definition f32_of_f64 :: "f64 \<Rightarrow> f32" where "f32_of_f64 x = f32_of (f64_val x)"

definition f32_is_finite :: "f32 \<Rightarrow> bool" where
  "f32_is_finite x \<longleftrightarrow> uint x div 2 ^ 23 mod 256 \<noteq> 255"

definition f32_is_nan :: "f32 \<Rightarrow> bool" where
  "f32_is_nan x \<longleftrightarrow> uint x div 2 ^ 23 mod 256 = 255 \<and> uint x mod 2 ^ 23 \<noteq> 0"

definition f64_is_nan :: "f64 \<Rightarrow> bool" where
  "f64_is_nan x \<longleftrightarrow> uint x div 2 ^ 52 mod 2048 = 2047 \<and> uint x mod 2 ^ 52 \<noteq> 0"

text \<open>Keys: \<open>total_cmp\<close> on bit patterns, and the numeric order of non-NaN values (both zeros equal).\<close>

definition key_of :: "int \<Rightarrow> int \<Rightarrow> int \<Rightarrow> int" where
  "key_of half n neg = (if n < half then n else neg - (n - half))"

definition f32_total_key :: "f32 \<Rightarrow> int" where "f32_total_key x = key_of (2 ^ 31) (uint x) (- 1)"
definition f32_num_key :: "f32 \<Rightarrow> int" where "f32_num_key x = key_of (2 ^ 31) (uint x) 0"
definition f64_total_key :: "f64 \<Rightarrow> int" where "f64_total_key x = key_of (2 ^ 63) (uint x) (- 1)"
definition f64_num_key :: "f64 \<Rightarrow> int" where "f64_num_key x = key_of (2 ^ 63) (uint x) 0"

text \<open>\<open>partial_cmp\<close> as IEEE comparison: false when either side is a NaN.\<close>

definition f64_lt :: "f64 \<Rightarrow> f64 \<Rightarrow> bool" where
  "f64_lt a b \<longleftrightarrow> \<not> f64_is_nan a \<and> \<not> f64_is_nan b \<and> f64_num_key a < f64_num_key b"

definition f64_le :: "f64 \<Rightarrow> f64 \<Rightarrow> bool" where
  "f64_le a b \<longleftrightarrow> \<not> f64_is_nan a \<and> \<not> f64_is_nan b \<and> f64_num_key a \<le> f64_num_key b"

definition f64_eq :: "f64 \<Rightarrow> f64 \<Rightarrow> bool" where
  "f64_eq a b \<longleftrightarrow> \<not> f64_is_nan a \<and> \<not> f64_is_nan b \<and> f64_num_key a = f64_num_key b"

definition f32_lt :: "f32 \<Rightarrow> f32 \<Rightarrow> bool" where
  "f32_lt a b \<longleftrightarrow> \<not> f32_is_nan a \<and> \<not> f32_is_nan b \<and> f32_num_key a < f32_num_key b"

definition f32_le :: "f32 \<Rightarrow> f32 \<Rightarrow> bool" where
  "f32_le a b \<longleftrightarrow> \<not> f32_is_nan a \<and> \<not> f32_is_nan b \<and> f32_num_key a \<le> f32_num_key b"

definition f32_eq :: "f32 \<Rightarrow> f32 \<Rightarrow> bool" where
  "f32_eq a b \<longleftrightarrow> \<not> f32_is_nan a \<and> \<not> f32_is_nan b \<and> f32_num_key a = f32_num_key b"

subsection \<open>Facts\<close>

lemma fv_add_commute: "fv_add a b = fv_add b a"
  by (cases a; cases b) (auto simp: Let_def min.commute add.commute)

lemma fv_mul_commute: "fv_mul a b = fv_mul b a"
  by (cases a; cases b) (auto simp: mult.commute add.commute)

lemma f32_add_commute: "f32_add a b = f32_add b a"
  by (simp add: f32_add_def fv_add_commute)

lemma f32_mul_commute: "f32_mul a b = f32_mul b a"
  by (simp add: f32_mul_def fv_mul_commute)

lemma key_of_inject: "0 \<le> m \<Longrightarrow> 0 \<le> n \<Longrightarrow> key_of half m (- 1) = key_of half n (- 1) \<longleftrightarrow> m = n"
  by (auto simp: key_of_def split: if_splits)

lemma total_key_inject32: "f32_total_key a = f32_total_key b \<longleftrightarrow> a = b"
  by (simp add: f32_total_key_def key_of_inject word_uint_eq_iff)

lemma total_key_inject64: "f64_total_key a = f64_total_key b \<longleftrightarrow> a = b"
  by (simp add: f64_total_key_def key_of_inject word_uint_eq_iff)

text \<open>Known values of single and double precision, with their ties, overflow and subnormals.\<close>

lemma float_values:
  "f32_div (f32_of_int 1) (f32_of_int 3) = 0x3EAAAAAB"
  "f64_add (f64_div (f64_of_int 1) (f64_of_int 10)) (f64_div (f64_of_int 2) (f64_of_int 10)) = 0x3FD3333333333334"
  "f32_of_f64 0x3FB999999999999A = 0x3DCCCCCD" "f64_of_f32 0x3DCCCCCD = 0x3FB99999A0000000"
  "f64_of_int (2 ^ 53 + 1) = f64_of_int (2 ^ 53)"
  "f32_add 0x7F7FFFFF 0x7F7FFFFF = 0x7F800000" "f32_mul 3 0x3F000000 = 2"
  "f64_sqrt (f64_of_int 2) = 0x3FF6A09E667F3BCD" "f64_sqrt (f64_of_int 25) = f64_of_int 5"
  "f64_sqrt 0x8000000000000000 = 0x8000000000000000"
  by code_simp+

end
