(* ===== verification/Float_Facts.thy ===== *)
theory Float_Facts
  imports Floats
begin

section \<open>Conversion of integers to \<open>f64\<close>\<close>

text \<open>
  Below \<open>2 ^ 53\<close> the conversion is exact, hence injective, and no larger integer converts to the same value; from
  \<open>2 ^ 53\<close> on it rounds (\<open>float_values\<close> shows the first collision).
\<close>

lemma flog2_nonneg: "0 \<le> flog2 n"
  by (induction n rule: flog2.induct) (subst flog2.simps, simp)

lemma pow2_add: "0 \<le> a \<Longrightarrow> 0 \<le> b \<Longrightarrow> pow2 (a + b) = pow2 a * pow2 b"
  by (simp add: pow2_def nat_add_distrib power_add)

lemma flog2_bounds: "0 < n \<Longrightarrow> pow2 (flog2 n) \<le> n \<and> n < pow2 (flog2 n + 1)"
proof (induction n rule: flog2.induct)
  case (1 n)
  show ?case
  proof (cases "n < 2")
    case True
    then show ?thesis using 1 by (simp add: flog2.simps [of n] pow2_def)
  next
    case False
    let ?h = "flog2 (n div 2)"
    have h: "pow2 ?h \<le> n div 2" "n div 2 < pow2 (?h + 1)" using 1(1) [OF False] False by auto
    have e: "flog2 n = ?h + 1" using False by (simp add: flog2.simps [of n])
    have p: "pow2 (?h + 1) = 2 * pow2 ?h" "pow2 (?h + 1 + 1) = 2 * pow2 (?h + 1)"
      using flog2_nonneg [of "n div 2"] pow2_add [of ?h 1] pow2_add [of "?h + 1" 1] by (simp_all add: pow2_def [of 1])
    show ?thesis unfolding e p using h p(1) by linarith
  qed
qed

lemma pow2_pos [simp]: "0 < pow2 e"
  by (simp add: pow2_def)

lemma pow2_mono: "a \<le> b \<Longrightarrow> pow2 a \<le> pow2 b"
  by (simp add: pow2_def nat_mono)

lemma flog2_less: "0 < n \<Longrightarrow> n < pow2 b \<Longrightarrow> flog2 n < b"
proof (rule ccontr)
  assume n: "0 < n" "n < pow2 b" and "\<not> flog2 n < b"
  then have "pow2 b \<le> pow2 (flog2 n)" by (intro pow2_mono) simp
  then show False using flog2_bounds [OF n(1)] n(2) by linarith
qed

lemma flog2_ge: "0 \<le> b \<Longrightarrow> pow2 b \<le> n \<Longrightarrow> b \<le> flog2 n"
proof (rule ccontr)
  assume n: "0 \<le> b" "pow2 b \<le> n" and "\<not> b \<le> flog2 n"
  moreover have "0 < n" using n pow2_pos [of b] by linarith
  ultimately have "pow2 (flog2 n + 1) \<le> pow2 b" by (intro pow2_mono) simp
  then show False using flog2_bounds [OF \<open>0 < n\<close>] n(2) by linarith
qed

text \<open>The magnitude bits of a whole number, exactly below \<open>2 ^ 53\<close>.\<close>

lemma round_mag_small:
  assumes m: "0 < m" "m < 2 ^ 53"
  shows "round_mag 52 11 m 1 = (flog2 m + 1022) * 2 ^ 52 + m * pow2 (52 - flog2 m)"
proof -
  let ?L = "flog2 m"
  have L: "0 \<le> ?L" "?L < 53" using flog2_nonneg flog2_less [of m 53] m by (auto simp: pow2_def)
  have b: "pow2 ?L \<le> m" "m < pow2 (?L + 1)" using flog2_bounds [OF m(1)] by auto
  have l1: "flog2 1 = 0" by (simp add: flog2.simps)
  have g: "m * pow2 (53 - ?L) \<ge> 2 ^ 53"
  proof -
    have "pow2 ?L * pow2 (53 - ?L) = 2 ^ 53" using pow2_add [of ?L "53 - ?L"] L by (simp add: pow2_def)
    then show ?thesis using mult_right_mono [OF b(1), of "pow2 (53 - ?L)"] by (simp add: order_less_imp_le)
  qed
  have "m * pow2 (52 - ?L) < 2 * 2 ^ 52"
  proof -
    have "pow2 (?L + 1) * pow2 (52 - ?L) = 2 ^ 53"
      using pow2_add [of "?L + 1" "52 - ?L"] L by (simp add: pow2_def)
    then show ?thesis using mult_strict_right_mono [OF b(2), of "pow2 (52 - ?L)"] by simp
  qed
  moreover have "(?L + 1022) * 2 ^ 52 \<le> (52 + 1022) * (2 ^ 52 :: int)" using L by simp
  ultimately have small: "(?L + 1022) * 2 ^ 52 + m * pow2 (52 - ?L) \<le> 2047 * 2 ^ 52" by simp
  have s1: "scale_frac m 1 (- (?L - 53)) = (m * pow2 (53 - ?L), 1)" using L by (simp add: scale_frac_def)
  have s2: "scale_frac m 1 (- (?L - 52)) = (m * pow2 (52 - ?L), 1)" using L by (simp add: scale_frac_def)
  have emin: "f_emin 52 11 = - 1074" by (simp add: f_emin_def f_bias_def pow2_def)
  have r: "round_even n 1 = n" for n by (simp add: round_even_def)
  have "round_mag 52 11 m 1 = min ((?L - 52 + 1074) * pow2 52 + m * pow2 (52 - ?L)) ((pow2 11 - 1) * pow2 52)"
    using m L g s1 s2 by (simp add: round_mag_def l1 emin Let_def r pow2_def [of 53] algebra_simps)
  then show ?thesis using small by (simp add: pow2_def algebra_simps)
qed

lemma round_mag_large:
  assumes m: "2 ^ 53 \<le> m"
  shows "1076 * 2 ^ 52 \<le> round_mag 52 11 m 1"
proof -
  let ?L = "flog2 m"
  have L: "53 \<le> ?L" using flog2_ge [of 53 m] m by (simp add: pow2_def)
  have b: "pow2 ?L \<le> m" using flog2_bounds [of m] m by simp
  have l1: "flog2 1 = 0" by (simp add: flog2.simps)
  have s1: "scale_frac m 1 (- (?L - 53)) = (m, pow2 (?L - 53))"
    using L by (cases "?L = 53") (simp_all add: scale_frac_def pow2_def)
  have s2: "scale_frac m 1 (- (?L - 52)) = (m, pow2 (?L - 52))" using L by (simp add: scale_frac_def)
  have e: "pow2 (?L - 53) * pow2 53 = pow2 ?L" "pow2 (?L - 52) * pow2 52 = pow2 ?L"
    using L pow2_add [of "?L - 53" 53] pow2_add [of "?L - 52" 52] by simp_all
  have emin: "f_emin 52 11 = - 1074" by (simp add: f_emin_def f_bias_def pow2_def)
  have "2 ^ 52 \<le> m div pow2 (?L - 52)"
    using zdiv_mono1 [OF b pow2_pos [of "?L - 52"]] pow2_pos [of "?L - 52"] unfolding e(2) [symmetric]
    by (simp add: pow2_def [of 52])
  moreover have "m div pow2 (?L - 52) \<le> round_even m (pow2 (?L - 52))" by (simp add: round_even_def Let_def)
  ultimately have r: "2 ^ 52 \<le> round_even m (pow2 (?L - 52))" by linarith
  have "round_mag 52 11 m 1
      = min ((?L - 52 + 1074) * pow2 52 + round_even m (pow2 (?L - 52))) ((pow2 11 - 1) * pow2 52)"
    using m L b e(1) s1 s2 by (simp add: round_mag_def l1 emin Let_def algebra_simps)
  moreover have "1075 * 2 ^ 52 \<le> (?L - 52 + 1074) * (2 ^ 52 :: int)" using L by simp
  ultimately show ?thesis using r by (simp add: pow2_def [of 52] pow2_def [of 11] algebra_simps)
qed

text \<open>\<open>f64_of_int\<close> through its magnitude bits, and its numeric key.\<close>

lemma round_mag_bounds:
  assumes "0 \<le> m"
  shows "0 \<le> round_mag 52 11 m 1" "round_mag 52 11 m 1 \<le> 2047 * 2 ^ 52"
proof -
  show "round_mag 52 11 m 1 \<le> 2047 * 2 ^ 52"
    by (simp add: round_mag_def Let_def pow2_def [of 11] pow2_def [of 52] split: prod.split)
  show "0 \<le> round_mag 52 11 m 1"
  proof (cases "m < 2 ^ 53")
    case True
    then show ?thesis
      using assms round_mag_small [of m] flog2_nonneg [of m] pow2_pos [of "52 - flog2 m"]
      by (cases "m = 0") (simp_all add: round_mag_def less_imp_le)
  next
    case False
    then show ?thesis using round_mag_large [of m] by simp
  qed
qed

definition int_key :: "int \<Rightarrow> int" where
  "int_key i = (if i < 0 then - round_mag 52 11 (- i) 1 else round_mag 52 11 i 1)"

lemma max_exponent_frac:
  fixes r d :: int
  assumes d: "0 < d" and r: "0 \<le> r" "r \<le> 2047 * d" and q: "r div d mod 2048 = 2047"
  shows "r mod d = 0"
proof -
  have "0 \<le> r div d" "r div d \<le> 2047"
    using d r zdiv_mono1 [OF r(2) d] by (simp_all add: pos_imp_zdiv_nonneg_iff)
  then have "r div d = 2047" using q by simp
  then have "r = 2047 * d + r mod d" using div_mult_mod_eq [of r d] by simp
  moreover have "0 \<le> r mod d" using d by simp
  ultimately show ?thesis using r(2) by linarith
qed

lemma uint_u64_of: "0 \<le> k \<Longrightarrow> k < 2 ^ 64 \<Longrightarrow> uint (word_of_int k :: u64) = k"
  by (simp add: uint_word_of_int)

lemma uint_f64_of_int:
  "uint (f64_of_int i) = (if i < 0 then 2 ^ 63 else 0) + round_mag 52 11 \<bar>i\<bar> 1"
proof -
  have b: "0 \<le> round_mag 52 11 \<bar>i\<bar> 1" "round_mag 52 11 \<bar>i\<bar> 1 \<le> 2047 * 2 ^ 52" using round_mag_bounds by simp_all
  have e: "f64_of_int i = word_of_int ((if i < 0 then 2 ^ 63 else 0) + round_mag 52 11 \<bar>i\<bar> 1)"
    by (simp add: f64_of_int_def f64_of_def scale_frac_def f_encode_def pow2_def)
  show ?thesis unfolding e by (rule uint_u64_of; cases "i < 0") (use b in simp_all)
qed

lemma f64_of_int_key: "f64_num_key (f64_of_int i) = int_key i"
  using round_mag_bounds [of "\<bar>i\<bar>"]
  by (cases "i < 0") (simp_all add: f64_num_key_def key_of_def uint_f64_of_int int_key_def)

lemma f64_of_int_not_nan: "\<not> f64_is_nan (f64_of_int i)"
proof -
  have b: "0 \<le> round_mag 52 11 \<bar>i\<bar> 1" "round_mag 52 11 \<bar>i\<bar> 1 \<le> 2047 * 2 ^ 52" using round_mag_bounds by simp_all
  let ?r = "round_mag 52 11 \<bar>i\<bar> 1"
  have "((if i < 0 then 2 ^ 63 else 0) + ?r) mod 2 ^ 52 = ?r mod 2 ^ 52"
    using mod_mult_self3 [of 2048 "2 ^ 52" ?r] by (cases "i < 0") simp_all
  moreover have "((if i < 0 then 2 ^ 63 else 0) + ?r) div 2 ^ 52 mod 2048 = ?r div 2 ^ 52 mod 2048"
  proof -
    have "(2 ^ 63 + ?r) div 2 ^ 52 = 2048 + ?r div 2 ^ 52"
      using div_mult_self3 [of "2 ^ 52" 2048 ?r] by simp
    then show ?thesis by (cases "i < 0") simp_all
  qed
  moreover have "?r mod 2 ^ 52 = 0" if "?r div 2 ^ 52 mod 2048 = 2047"
    using max_exponent_frac [of "2 ^ 52" ?r] b that by simp
  ultimately show ?thesis by (simp only: f64_is_nan_def uint_f64_of_int) blast
qed

text \<open>Below \<open>2 ^ 53\<close> the magnitude determines the integer, whatever the other one is.\<close>

lemma round_mag_inject:
  assumes m: "0 \<le> m" "m < 2 ^ 53" and n: "0 \<le> n" and eq: "round_mag 52 11 m 1 = round_mag 52 11 n 1"
  shows "m = n"
proof -
  have small: "round_mag 52 11 k 1 < 1076 * 2 ^ 52
      \<and> (0 < k \<longrightarrow> round_mag 52 11 k 1 div 2 ^ 52 = flog2 k + 1023
           \<and> round_mag 52 11 k 1 = (flog2 k + 1022) * 2 ^ 52 + k * pow2 (52 - flog2 k))"
    if k: "0 \<le> k" "k < 2 ^ 53" for k
  proof (cases "k = 0")
    case False
    then have p: "0 < k" using k by simp
    have L: "0 \<le> flog2 k" "flog2 k < 53" using flog2_nonneg flog2_less [of k 53] p k by (auto simp: pow2_def)
    have b: "pow2 (flog2 k) \<le> k" "k < pow2 (flog2 k + 1)" using flog2_bounds [OF p] by auto
    have e: "pow2 (flog2 k) * pow2 (52 - flog2 k) = 2 ^ 52" "pow2 (flog2 k + 1) * pow2 (52 - flog2 k) = 2 ^ 53"
      using pow2_add [of "flog2 k" "52 - flog2 k"] pow2_add [of "flog2 k + 1" "52 - flog2 k"] L
      by (simp_all add: pow2_def)
    have lo: "2 ^ 52 \<le> k * pow2 (52 - flog2 k)"
      using mult_right_mono [OF b(1), of "pow2 (52 - flog2 k)"] e(1) by (simp add: less_imp_le)
    have hi: "k * pow2 (52 - flog2 k) < 2 ^ 53"
      using mult_strict_right_mono [OF b(2), of "pow2 (52 - flog2 k)"] e(2) by simp
    have r: "round_mag 52 11 k 1 = (flog2 k + 1022) * 2 ^ 52 + k * pow2 (52 - flog2 k)"
      using round_mag_small [OF p k(2)] .
    have d: "round_mag 52 11 k 1 div 2 ^ 52 = flog2 k + 1023" using lo hi unfolding r by simp
    show ?thesis using d r hi L by simp
  qed (simp add: round_mag_def)
  have n2: "n < 2 ^ 53"
  proof (rule ccontr)
    assume "\<not> n < 2 ^ 53"
    then show False using round_mag_large [of n] small [OF m] eq by simp
  qed
  show ?thesis
  proof (cases "m = 0 \<or> n = 0")
    case True
    have "0 < round_mag 52 11 k 1" if "0 < k" "k < 2 ^ 53" for k
      using small [of k] that flog2_nonneg [of k] pow2_pos [of "52 - flog2 k"] by (simp add: add_nonneg_pos)
    moreover have "round_mag 52 11 0 1 = 0" by (simp add: round_mag_def)
    ultimately show ?thesis using True eq m n n2 by (metis less_irrefl order_le_less)
  next
    case False
    then have pos: "0 < m" "0 < n" using m n by auto
    from small [OF m] small [OF n n2] pos eq have L: "flog2 m = flog2 n"
      and r: "(flog2 m + 1022) * 2 ^ 52 + m * pow2 (52 - flog2 m) = (flog2 n + 1022) * 2 ^ 52 + n * pow2 (52 - flog2 n)"
      by auto
    from r [unfolded L] have "m * pow2 (52 - flog2 n) = n * pow2 (52 - flog2 n)" by (simp only: add_left_cancel)
    then show ?thesis using pow2_pos [of "52 - flog2 n"] by simp
  qed
qed

lemma int_key_inject: "\<bar>i\<bar> < 2 ^ 53 \<Longrightarrow> int_key i = int_key j \<Longrightarrow> i = j"
proof -
  assume i: "\<bar>i\<bar> < 2 ^ 53" and eq: "int_key i = int_key j"
  have nonneg: "0 \<le> round_mag 52 11 \<bar>k\<bar> 1" for k using round_mag_bounds by simp
  have abs: "\<bar>int_key k\<bar> = round_mag 52 11 \<bar>k\<bar> 1" for k using nonneg [of k] by (simp add: int_key_def)
  have m: "\<bar>i\<bar> = \<bar>j\<bar>"
    using round_mag_inject [of "\<bar>i\<bar>" "\<bar>j\<bar>"] i eq abs [of i] abs [of j] by simp
  have zero: "round_mag 52 11 \<bar>i\<bar> 1 = 0 \<Longrightarrow> i = 0"
    using round_mag_inject [of "\<bar>i\<bar>" 0] i by (simp add: round_mag_def)
  show "i = j"
    using m eq zero nonneg [of i] by (auto simp: int_key_def split: if_splits)
qed

end
