(* ===== verification/Utf8.thy ===== *)
theory Utf8
  imports Errors
begin

section \<open>Strings and their bytes\<close>

text \<open>
  A Rust \<open>String\<close> is a byte vector that is valid UTF-8; the model keeps its bytes as a \<open>string\<close>.
  \<open>bytes_of\<close> is \<open>as_bytes\<close>, \<open>string_from_utf8\<close> is \<open>String::from_utf8\<close>, with the well-formedness
  table of the standard library (no overlong forms, no surrogates, nothing above U+10FFFF).
\<close>

definition bytes_of :: "string \<Rightarrow> bytes" where
  "bytes_of s = map (\<lambda>c. word_of_nat (of_char c)) s"

definition string_of :: "bytes \<Rightarrow> string" where
  "string_of b = map (\<lambda>x. char_of (unat x)) b"

definition utf8_cont :: "u8 \<Rightarrow> bool" where
  "utf8_cont x \<longleftrightarrow> 0x80 \<le> x \<and> x \<le> 0xbf"

fun utf8_valid :: "bytes \<Rightarrow> bool" where
  "utf8_valid [] \<longleftrightarrow> True"
| "utf8_valid (x # xs) \<longleftrightarrow>
     (if x \<le> 0x7f then utf8_valid xs
      else if 0xc2 \<le> x \<and> x \<le> 0xdf then
        (case xs of a # r \<Rightarrow> utf8_cont a \<and> utf8_valid r | _ \<Rightarrow> False)
      else if 0xe0 \<le> x \<and> x \<le> 0xef then
        (case xs of a # b # r \<Rightarrow>
            (if x = 0xe0 then 0xa0 \<le> a \<and> a \<le> 0xbf
             else if x = 0xed then 0x80 \<le> a \<and> a \<le> 0x9f
             else utf8_cont a) \<and> utf8_cont b \<and> utf8_valid r
         | _ \<Rightarrow> False)
      else if 0xf0 \<le> x \<and> x \<le> 0xf4 then
        (case xs of a # b # c # r \<Rightarrow>
            (if x = 0xf0 then 0x90 \<le> a \<and> a \<le> 0xbf
             else if x = 0xf4 then 0x80 \<le> a \<and> a \<le> 0x8f
             else utf8_cont a) \<and> utf8_cont b \<and> utf8_cont c \<and> utf8_valid r
         | _ \<Rightarrow> False)
      else False)"

definition string_from_utf8 :: "bytes \<Rightarrow> vec_lite_error \<Rightarrow> string res" where
  "string_from_utf8 b e = (if utf8_valid b then Inr (string_of b) else Inl e)"

text \<open>The strings the program can hold.\<close>

definition str_ok :: "string \<Rightarrow> bool" where
  "str_ok s \<longleftrightarrow> utf8_valid (bytes_of s)"

lemma length_bytes_of [simp]: "length (bytes_of s) = length s"
  by (simp add: bytes_of_def)

lemma string_of_bytes_of [simp]: "string_of (bytes_of s) = s"
proof -
  have "char_of (unat (word_of_nat (of_char c) :: u8)) = c" for c
    by (simp add: unat_of_nat take_bit_eq_mod)
  then show ?thesis
    by (induction s) (simp_all add: string_of_def bytes_of_def)
qed

lemma bytes_of_string_of [simp]: "bytes_of (string_of b) = b"
proof -
  have "word_of_nat (of_char (char_of (unat x))) = x" for x :: u8
  proof -
    have "unat x < 256" using unsigned_less [of x, where 'a = nat] by simp
    then show ?thesis by (simp add: of_char_of)
  qed
  then show ?thesis
    by (induction b) (simp_all add: string_of_def bytes_of_def)
qed

lemma bytes_of_inject: "bytes_of s = bytes_of t \<longleftrightarrow> s = t"
  by (metis string_of_bytes_of)

lemma string_from_utf8_bytes_of [codec_simps]: "str_ok s \<Longrightarrow> string_from_utf8 (bytes_of s) e = Inr s"
  by (simp add: string_from_utf8_def str_ok_def)

lemma string_from_utf8_ok: "string_from_utf8 b e = Inr s \<Longrightarrow> str_ok s \<and> b = bytes_of s"
  by (auto simp: string_from_utf8_def str_ok_def split: if_splits)

text \<open>Plain ASCII text is valid, so every literal identifier of the examples is.\<close>

lemma ascii_ok: "(\<And>c. c \<in> set s \<Longrightarrow> of_char c < (128::nat)) \<Longrightarrow> str_ok s"
proof (induction s)
  case (Cons c s)
  have "of_char c < (128::nat)" using Cons.prems by simp
  then have "(word_of_nat (of_char c) :: u8) \<le> 0x7f"
    by (simp add: word_le_nat_alt unat_of_nat take_bit_eq_mod)
  moreover have "str_ok s" using Cons by simp
  ultimately show ?case by (simp add: str_ok_def bytes_of_def)
qed (simp add: str_ok_def bytes_of_def)

end
