(* ===== verification/Points.thy ===== *)
theory Points
  imports Errors Floats Msgpack Utf8
begin

section \<open>Points, sparse vectors and identifiers (\<open>point.rs\<close>)\<close>

text \<open>
  The data model and its validation. A vector is a list of \<open>f32\<close> bit patterns. \<open>sparse_dot\<close> is the linear merge
  of the source; \<open>sparse_weight\<close> is what it computes with: the weight of a term.
\<close>

definition MAX_ID_BYTES :: nat where "MAX_ID_BYTES = 512"
definition MAX_COLLECTION_NAME_BYTES :: nat where "MAX_COLLECTION_NAME_BYTES = 255"

record sparse_vector =
  sv_indices :: "u32 list"
  sv_values :: "f32 list"

record point =
  pt_id :: string
  pt_vector :: "f32 list"
  pt_sparse :: "sparse_vector option"
  pt_payload :: "json option"

definition point_new :: "string \<Rightarrow> f32 list \<Rightarrow> point" where
  "point_new key vector = \<lparr>pt_id = key, pt_vector = vector, pt_sparse = None, pt_payload = None\<rparr>"

definition with_payload :: "json \<Rightarrow> point \<Rightarrow> point" where
  "with_payload v p = p\<lparr>pt_payload := Some v\<rparr>"

definition with_sparse :: "sparse_vector \<Rightarrow> point \<Rightarrow> point" where
  "with_sparse v p = p\<lparr>pt_sparse := Some v\<rparr>"

record hit =
  hit_id :: string
  hit_score :: f32
  hit_payload :: "json option"
  hit_vector :: "f32 list option"

text \<open>\<open>xs.windows(2).any(|w| w[0] >= w[1])\<close>.\<close>

fun some_descent :: "u32 list \<Rightarrow> bool" where
  "some_descent (a # b # r) \<longleftrightarrow> a \<ge> b \<or> some_descent (b # r)"
| "some_descent _ \<longleftrightarrow> False"

definition sparse_validate :: "sparse_vector \<Rightarrow> unit res" where
  "sparse_validate v =
     (if length (sv_indices v) \<noteq> length (sv_values v)
      then Inl (InvalidArgument (''sparse vector has '' @ show_nat (length (sv_indices v))
                  @ '' indices but '' @ show_nat (length (sv_values v)) @ '' values''))
      else if \<exists>x\<in>set (sv_values v). \<not> f32_is_finite x
      then Inl (InvalidArgument ''sparse vector values must be finite'')
      else if some_descent (sv_indices v)
      then Inl (InvalidArgument ''sparse vector indices must be strictly increasing (sorted, unique)'')
      else Inr ())"

text \<open>The merge loop: positions \<open>i\<close> and \<open>j\<close>, the running sum \<open>acc\<close>.\<close>

function sparse_dot_from :: "sparse_vector \<Rightarrow> sparse_vector \<Rightarrow> nat \<Rightarrow> nat \<Rightarrow> f32 \<Rightarrow> f32" where
  "sparse_dot_from a b i j acc =
     (if i < length (sv_indices a) \<and> j < length (sv_indices b)
      then if sv_indices a ! i < sv_indices b ! j then sparse_dot_from a b (i + 1) j acc
           else if sv_indices b ! j < sv_indices a ! i then sparse_dot_from a b i (j + 1) acc
           else sparse_dot_from a b (i + 1) (j + 1)
                  (f32_add acc (f32_mul (sv_values a ! i) (sv_values b ! j)))
      else acc)"
  by pat_completeness auto
termination
  by (relation "measure (\<lambda>(a, b, i, j, s). (length (sv_indices a) - i) + (length (sv_indices b) - j))") auto

declare sparse_dot_from.simps [simp del]

definition sparse_dot :: "sparse_vector \<Rightarrow> sparse_vector \<Rightarrow> f32" where
  "sparse_dot a b = sparse_dot_from a b 0 0 0"

definition validate_id :: "string \<Rightarrow> unit res" where
  "validate_id key =
     (if key = [] then Inl (InvalidArgument ''id must not be empty'')
      else if length key > MAX_ID_BYTES
      then Inl (InvalidArgument (''id exceeds '' @ show_nat MAX_ID_BYTES @ '' bytes: '' @ show_nat (length key) @ '' bytes''))
      else Inr ())"

text \<open>The UTF-8 encodings of the Unicode \<open>White_Space\<close> characters, which is what \<open>trim\<close> removes.\<close>

definition white_space :: "bytes list" where
  "white_space =
     [[0x09], [0x0A], [0x0B], [0x0C], [0x0D], [0x20], [0xC2, 0x85], [0xC2, 0xA0], [0xE1, 0x9A, 0x80],
      [0xE2, 0x80, 0x80], [0xE2, 0x80, 0x81], [0xE2, 0x80, 0x82], [0xE2, 0x80, 0x83], [0xE2, 0x80, 0x84],
      [0xE2, 0x80, 0x85], [0xE2, 0x80, 0x86], [0xE2, 0x80, 0x87], [0xE2, 0x80, 0x88], [0xE2, 0x80, 0x89],
      [0xE2, 0x80, 0x8A], [0xE2, 0x80, 0xA8], [0xE2, 0x80, 0xA9], [0xE2, 0x80, 0xAF], [0xE2, 0x81, 0x9F],
      [0xE3, 0x80, 0x80]]"

text \<open>\<open>s.trim() != s\<close>: valid UTF-8 starts or ends with a white space character.\<close>

definition trim_changes :: "string \<Rightarrow> bool" where
  "trim_changes s \<longleftrightarrow>
     (\<exists>w\<in>set white_space. take (length w) (bytes_of s) = w
        \<or> (length w \<le> length s \<and> drop (length s - length w) (bytes_of s) = w))"

definition validate_collection_name :: "string \<Rightarrow> unit res" where
  "validate_collection_name name =
     (if name = [] then Inl (InvalidArgument ''collection name must not be empty'')
      else if length name > MAX_COLLECTION_NAME_BYTES
      then Inl (InvalidArgument (''collection name exceeds '' @ show_nat MAX_COLLECTION_NAME_BYTES @ '' bytes: ''
                  @ show_nat (length name) @ '' bytes''))
      else if \<exists>c\<in>set name. c = CHR ''/'' \<or> c = CHR 0x5C \<or> c = CHR 0x00
      then Inl (InvalidArgument (''collection name contains a forbidden character (/, '' @ [CHR 0x5C]
                  @ '', or NUL): '' @ quoted name))
      else if trim_changes name
      then Inl (InvalidArgument (''collection name has leading or trailing whitespace: '' @ quoted name))
      else Inr ())"

subsection \<open>Validation\<close>

lemma some_descent_iff: "\<not> some_descent xs \<longleftrightarrow> sorted_wrt (<) xs"
proof (induction xs rule: some_descent.induct)
  case (1 a b r)
  then show ?case by (auto simp: not_le intro: less_trans)
qed auto

definition sparse_ok :: "sparse_vector \<Rightarrow> bool" where
  "sparse_ok v \<longleftrightarrow> length (sv_indices v) = length (sv_values v) \<and> (\<forall>x\<in>set (sv_values v). f32_is_finite x)
     \<and> sorted_wrt (<) (sv_indices v)"

lemma sparse_validate_iff: "sparse_validate v = Inr () \<longleftrightarrow> sparse_ok v"
  by (auto simp: sparse_validate_def sparse_ok_def simp flip: some_descent_iff)

lemma sparse_validate_error: "sparse_validate v = Inl e \<Longrightarrow> \<exists>m. e = InvalidArgument m"
  by (auto simp: sparse_validate_def split: if_splits)

lemma validate_id_iff: "validate_id key = Inr () \<longleftrightarrow> 0 < length key \<and> length key \<le> 512"
  by (auto simp: validate_id_def MAX_ID_BYTES_def)

lemma validate_id_error: "validate_id key = Inl e \<Longrightarrow> \<exists>m. e = InvalidArgument m"
  by (auto simp: validate_id_def split: if_splits)

subsection \<open>The merge computes the sum over the shared terms\<close>

text \<open>
  The shared terms of two index lists, in order, and the sum the merge folds over them. The fold order matters in
  floating point: it is the index order of both operands.
\<close>

definition shared_terms :: "sparse_vector \<Rightarrow> sparse_vector \<Rightarrow> u32 list" where
  "shared_terms a b = filter (\<lambda>t. t \<in> set (sv_indices b)) (sv_indices a)"

definition sparse_weight :: "sparse_vector \<Rightarrow> u32 \<Rightarrow> f32" where
  "sparse_weight v t = the (map_of (zip (sv_indices v) (sv_values v)) t)"

definition dot_spec :: "sparse_vector \<Rightarrow> sparse_vector \<Rightarrow> f32" where
  "dot_spec a b = foldl (\<lambda>s t. f32_add s (f32_mul (sparse_weight a t) (sparse_weight b t))) 0 (shared_terms a b)"

lemma sparse_weight_nth:
  "sparse_ok v \<Longrightarrow> i < length (sv_indices v) \<Longrightarrow> sparse_weight v (sv_indices v ! i) = sv_values v ! i"
proof -
  assume ok: "sparse_ok v" and i: "i < length (sv_indices v)"
  then have "distinct (sv_indices v)" by (auto simp: sparse_ok_def strict_sorted_iff)
  then have "map_of (zip (sv_indices v) (sv_values v)) (sv_indices v ! i) = Some (sv_values v ! i)"
    using ok i by (auto simp: sparse_ok_def intro!: map_of_is_SomeI simp: in_set_zip)
  then show ?thesis by (simp add: sparse_weight_def)
qed

lemma shared_drop:
  fixes xs ys :: "u32 list"
  assumes "sorted_wrt (<) xs" and "sorted_wrt (<) ys" and "i < length xs" and "j < length ys"
  shows "filter (\<lambda>t. t \<in> set (drop j ys)) (drop i xs) =
    (if xs ! i < ys ! j then filter (\<lambda>t. t \<in> set (drop j ys)) (drop (i + 1) xs)
     else if ys ! j < xs ! i then filter (\<lambda>t. t \<in> set (drop (j + 1) ys)) (drop i xs)
     else (xs ! i) # filter (\<lambda>t. t \<in> set (drop (j + 1) ys)) (drop (i + 1) xs))"
proof -
  have dx: "drop i xs = xs ! i # drop (i + 1) xs" and dy: "drop j ys = ys ! j # drop (j + 1) ys"
    using assms(3,4) by (simp_all add: Cons_nth_drop_Suc)
  have sx: "\<forall>t\<in>set (drop (i + 1) xs). xs ! i < t" and sy: "\<forall>t\<in>set (drop (j + 1) ys). ys ! j < t"
    using sorted_wrt_drop [OF assms(1), of i] sorted_wrt_drop [OF assms(2), of j] unfolding dx dy by simp_all
  consider "xs ! i < ys ! j" | "ys ! j < xs ! i" | "xs ! i = ys ! j"
    using less_linear [of "xs ! i" "ys ! j"] by blast
  then show ?thesis
  proof cases
    case 1
    then have "xs ! i \<notin> set (drop j ys)" unfolding dy using sy by auto
    with 1 show ?thesis by (subst dx) simp
  next
    case 2
    have "t \<in> set (drop j ys) \<longleftrightarrow> t \<in> set (drop (j + 1) ys)" if "t \<in> set (drop i xs)" for t
      using that 2 sx unfolding dx dy by auto
    then have "filter (\<lambda>t. t \<in> set (drop j ys)) (drop i xs) = filter (\<lambda>t. t \<in> set (drop (j + 1) ys)) (drop i xs)"
      by (intro filter_cong) auto
    with 2 show ?thesis by simp
  next
    case 3
    have "t \<in> set (drop j ys) \<longleftrightarrow> t \<in> set (drop (j + 1) ys)" if "t \<in> set (drop (i + 1) xs)" for t
      using that 3 sx unfolding dy by auto
    then have "filter (\<lambda>t. t \<in> set (drop j ys)) (drop (i + 1) xs) = filter (\<lambda>t. t \<in> set (drop (j + 1) ys)) (drop (i + 1) xs)"
      by (intro filter_cong) auto
    moreover have "xs ! i \<in> set (drop j ys)" unfolding dy using 3 by simp
    ultimately show ?thesis using 3 by (subst dx) simp
  qed
qed

lemma sparse_dot_from_spec:
  "sparse_ok a \<Longrightarrow> sparse_ok b \<Longrightarrow> sparse_dot_from a b i j s =
    foldl (\<lambda>s t. f32_add s (f32_mul (sparse_weight a t) (sparse_weight b t))) s
      (filter (\<lambda>t. t \<in> set (drop j (sv_indices b))) (drop i (sv_indices a)))"
proof (induction a b i j s rule: sparse_dot_from.induct)
  case (1 a b i j s)
  show ?case
  proof (cases "i < length (sv_indices a) \<and> j < length (sv_indices b)")
    case True
    have sa: "sorted_wrt (<) (sv_indices a)" and sb: "sorted_wrt (<) (sv_indices b)"
      using 1(4,5) by (simp_all add: sparse_ok_def)
    note step = shared_drop [OF sa sb, of i j]
    consider "sv_indices a ! i < sv_indices b ! j" | "sv_indices b ! j < sv_indices a ! i"
      | "sv_indices a ! i = sv_indices b ! j"
      using less_linear [of "sv_indices a ! i" "sv_indices b ! j"] by blast
    then show ?thesis
    proof cases
      case 1
      then show ?thesis
        using "1.IH"(1) "1.prems" True step by (subst sparse_dot_from.simps) simp
    next
      case 2
      then have "\<not> sv_indices a ! i < sv_indices b ! j" by simp
      with 2 show ?thesis
        using "1.IH"(2) "1.prems" True step by (subst sparse_dot_from.simps) simp
    next
      case 3
      moreover from this have "sparse_weight a (sv_indices a ! i) = sv_values a ! i"
        "sparse_weight b (sv_indices a ! i) = sv_values b ! j"
        using "1.prems" True sparse_weight_nth [of a i] sparse_weight_nth [of b j] by simp_all
      ultimately show ?thesis
        using "1.IH"(3) "1.prems" True step by (subst sparse_dot_from.simps) simp
    qed
  next
    case False
    then have "filter (\<lambda>t. t \<in> set (drop j (sv_indices b))) (drop i (sv_indices a)) = []"
      by (auto simp: not_less)
    with False show ?thesis by (subst sparse_dot_from.simps) auto
  qed
qed

lemma sparse_dot_spec: "sparse_ok a \<Longrightarrow> sparse_ok b \<Longrightarrow> sparse_dot a b = dot_spec a b"
  by (simp add: sparse_dot_def dot_spec_def sparse_dot_from_spec shared_terms_def)

lemma shared_terms_commute: "sparse_ok a \<Longrightarrow> sparse_ok b \<Longrightarrow> shared_terms a b = shared_terms b a"
proof -
  assume ok: "sparse_ok a" "sparse_ok b"
  have "sorted_wrt (<) (shared_terms a b)" "sorted_wrt (<) (shared_terms b a)"
    using ok by (auto simp: sparse_ok_def shared_terms_def intro: sorted_wrt_filter)
  moreover have "set (shared_terms a b) = set (shared_terms b a)"
    by (auto simp: shared_terms_def)
  ultimately show ?thesis by (simp add: strict_sorted_iff sorted_distinct_set_unique)
qed

lemma sparse_dot_commute: "sparse_ok a \<Longrightarrow> sparse_ok b \<Longrightarrow> sparse_dot a b = sparse_dot b a"
  by (simp add: sparse_dot_spec dot_spec_def shared_terms_commute [of a b] f32_mul_commute)

subsection \<open>Properties\<close>

text \<open>
  Sparse scoring: on two vectors that pass \<open>validate\<close>, the merge of \<open>dot\<close> is the single-precision sum, in term
  order, of the products over exactly the shared terms, and it is symmetric, bit for bit.
\<close>

theorem sparse_dot_shared_terms:
  assumes "sparse_validate a = Inr ()" and "sparse_validate b = Inr ()"
  shows "sparse_dot a b =
      foldl (\<lambda>s t. f32_add s (f32_mul (sparse_weight a t) (sparse_weight b t))) 0
        (filter (\<lambda>t. t \<in> set (sv_indices b)) (sv_indices a))
    \<and> sparse_dot a b = sparse_dot b a"
  using assms sparse_dot_spec sparse_dot_commute
  by (simp add: sparse_validate_iff dot_spec_def shared_terms_def)

theorem sparse_dot_shared_terms_witness:
  "sparse_dot \<lparr>sv_indices = [1, 4, 9], sv_values = [0x3F800000, 0x40000000, 0x40400000]\<rparr>
              \<lparr>sv_indices = [4, 9], sv_values = [0x40000000, 0x3F000000]\<rparr> = 0x40B00000
   \<and> sparse_dot \<lparr>sv_indices = [4, 9], sv_values = [0x40000000, 0x3F000000]\<rparr>
              \<lparr>sv_indices = [1, 4, 9], sv_values = [0x3F800000, 0x40000000, 0x40400000]\<rparr> = 0x40B00000"
proof -
  let ?a = "\<lparr>sv_indices = [1, 4, 9], sv_values = [0x3F800000, 0x40000000, 0x40400000]\<rparr> :: sparse_vector"
  let ?b = "\<lparr>sv_indices = [4, 9], sv_values = [0x40000000, 0x3F000000]\<rparr> :: sparse_vector"
  have ok: "sparse_validate ?a = Inr ()" "sparse_validate ?b = Inr ()" by code_simp+
  note p = sparse_dot_shared_terms [OF ok]
  have "foldl (\<lambda>s t. f32_add s (f32_mul (sparse_weight ?a t) (sparse_weight ?b t))) 0
        (filter (\<lambda>t. t \<in> set (sv_indices ?b)) (sv_indices ?a)) = 0x40B00000" by code_simp
  then have ab: "sparse_dot ?a ?b = 0x40B00000"
    by (rule trans [OF conjunct1 [OF p]])
  have "sparse_dot ?b ?a = sparse_dot ?a ?b"
    by (rule conjunct2 [OF p, symmetric])
  with ab show ?thesis by (simp only:)
qed

text \<open>The identifier rules (CORE-010/011): an id is accepted exactly when it has 1 to 512 bytes; a collection name
  exactly when it has 1 to 255 bytes, no slash, backslash or NUL, and no white space at either end. Every refusal is
  \<open>InvalidArgument\<close>.
\<close>

theorem names_validated:
  "(validate_id key = Inr () \<longleftrightarrow> 0 < length key \<and> length key \<le> 512)
   \<and> (validate_collection_name name = Inr () \<longleftrightarrow>
        0 < length name \<and> length name \<le> 255 \<and> CHR ''/'' \<notin> set name \<and> CHR 0x5C \<notin> set name \<and> CHR 0x00 \<notin> set name
        \<and> \<not> trim_changes name)
   \<and> validate_id key \<in> {Inr ()} \<union> Inl ` range InvalidArgument
   \<and> validate_collection_name name \<in> {Inr ()} \<union> Inl ` range InvalidArgument"
  by (auto simp: validate_id_def validate_collection_name_def MAX_ID_BYTES_def MAX_COLLECTION_NAME_BYTES_def)

end
