(* ===== verification/Filters.thy ===== *)
theory Filters
  imports Points
begin

section \<open>Payload filters (\<open>filter/mod.rs\<close>)\<close>

text \<open>
  The filter model, its evaluation over a payload, validation and the portable JSON form. An \<open>i64\<close> is a 64-bit word
  read with \<open>sint\<close>; \<open>as_i64\<close> and \<open>as_f64\<close> are \<open>serde_json\<close>'s views of a number.
\<close>

type_synonym i64 = "64 word"

subsection \<open>Views of a JSON value\<close>

fun as_str :: "json \<Rightarrow> string option" where
  "as_str (JStr s) = Some s"
| "as_str _ = None"

fun as_bool :: "json \<Rightarrow> bool option" where
  "as_bool (JBool b) = Some b"
| "as_bool _ = None"

fun num_as_i64 :: "jnum \<Rightarrow> i64 option" where
  "num_as_i64 (PosInt n) = (if n \<le> 0x7FFFFFFFFFFFFFFF then Some n else None)"
| "num_as_i64 (NegInt n) = Some n"
| "num_as_i64 (Flt _) = None"

fun num_as_f64 :: "jnum \<Rightarrow> f64" where
  "num_as_f64 (PosInt n) = f64_of_int (uint n)"
| "num_as_f64 (NegInt n) = f64_of_int (sint n)"
| "num_as_f64 (Flt x) = x"

fun as_i64 :: "json \<Rightarrow> i64 option" where
  "as_i64 (JNum n) = num_as_i64 n"
| "as_i64 _ = None"

fun as_f64 :: "json \<Rightarrow> f64 option" where
  "as_f64 (JNum n) = Some (num_as_f64 n)"
| "as_f64 _ = None"

fun as_array :: "json \<Rightarrow> json list option" where
  "as_array (JArr xs) = Some xs"
| "as_array _ = None"

fun as_object :: "json \<Rightarrow> (string \<times> json) list option" where
  "as_object (JObj es) = Some es"
| "as_object _ = None"

subsection \<open>Match values, ranges, conditions, filters\<close>

datatype match_value = MKeyword string | MInteger i64 | MBoolean bool

definition i64_as_f64 :: "i64 \<Rightarrow> f64" where
  "i64_as_f64 i = f64_of_int (sint i)"

fun matches_stored :: "match_value \<Rightarrow> json \<Rightarrow> bool" where
  "matches_stored (MKeyword s) stored \<longleftrightarrow> as_str stored = Some s"
| "matches_stored (MBoolean b) stored \<longleftrightarrow> as_bool stored = Some b"
| "matches_stored (MInteger i) stored \<longleftrightarrow>
     as_i64 stored = Some i \<or> (case as_f64 stored of None \<Rightarrow> False | Some x \<Rightarrow> f64_eq x (i64_as_f64 i))"

definition unsupported :: "string \<Rightarrow> vec_lite_error" where
  "unsupported feature = InvalidArgument (''unsupported filter feature: '' @ feature)"

fun match_value_from_json :: "json \<Rightarrow> match_value res" where
  "match_value_from_json (JStr s) = Inr (MKeyword s)"
| "match_value_from_json (JBool b) = Inr (MBoolean b)"
| "match_value_from_json (JNum n) =
     (case num_as_i64 n of
        Some i \<Rightarrow> Inr (MInteger i)
      | None \<Rightarrow> Inl (unsupported ''float match value (use a range condition)''))"
| "match_value_from_json _ = Inl (unsupported ''match value '')"

record range =
  rg_gt :: "f64 option"
  rg_gte :: "f64 option"
  rg_lt :: "f64 option"
  rg_lte :: "f64 option"

definition range_new :: range where
  "range_new = \<lparr>rg_gt = None, rg_gte = None, rg_lt = None, rg_lte = None\<rparr>"

definition range_gt :: "f64 \<Rightarrow> range \<Rightarrow> range" where
  "range_gt v r = r\<lparr>rg_gt := Some v\<rparr>"

definition range_gte :: "f64 \<Rightarrow> range \<Rightarrow> range" where
  "range_gte v r = r\<lparr>rg_gte := Some v\<rparr>"

definition range_lt :: "f64 \<Rightarrow> range \<Rightarrow> range" where
  "range_lt v r = r\<lparr>rg_lt := Some v\<rparr>"

definition range_lte :: "f64 \<Rightarrow> range \<Rightarrow> range" where
  "range_lte v r = r\<lparr>rg_lte := Some v\<rparr>"

definition is_none_or :: "'a option \<Rightarrow> ('a \<Rightarrow> bool) \<Rightarrow> bool" where
  "is_none_or x P \<longleftrightarrow> (case x of None \<Rightarrow> True | Some b \<Rightarrow> P b)"

definition range_contains :: "range \<Rightarrow> f64 \<Rightarrow> bool" where
  "range_contains r x \<longleftrightarrow>
     is_none_or (rg_gt r) (\<lambda>b. f64_lt b x) \<and> is_none_or (rg_gte r) (\<lambda>b. f64_le b x)
     \<and> is_none_or (rg_lt r) (\<lambda>b. f64_lt x b) \<and> is_none_or (rg_lte r) (\<lambda>b. f64_le x b)"

datatype condition =
    CEq string match_value
  | CIn string "match_value list"
  | CRange string range
  | CExists string
  | CNested filter
and filter = Filter (must: "condition list") (should: "condition list") (must_not: "condition list")

definition filter_new :: filter where
  "filter_new = Filter [] [] []"

definition filter_must :: "condition \<Rightarrow> filter \<Rightarrow> filter" where
  "filter_must c f = Filter (must f @ [c]) (should f) (must_not f)"

definition filter_should :: "condition \<Rightarrow> filter \<Rightarrow> filter" where
  "filter_should c f = Filter (must f) (should f @ [c]) (must_not f)"

definition filter_must_not :: "condition \<Rightarrow> filter \<Rightarrow> filter" where
  "filter_must_not c f = Filter (must f) (should f) (must_not f @ [c])"

fun condition_key :: "condition \<Rightarrow> string option" where
  "condition_key (CEq key _) = Some key"
| "condition_key (CIn key _) = Some key"
| "condition_key (CRange key _) = Some key"
| "condition_key (CExists key) = Some key"
| "condition_key (CNested _) = None"

definition payload_lookup :: "json option \<Rightarrow> string \<Rightarrow> json option" where
  "payload_lookup payload key =
     Option.bind (Option.bind payload as_object) (\<lambda>es. map_of es key)"

definition is_some_and :: "'a option \<Rightarrow> ('a \<Rightarrow> bool) \<Rightarrow> bool" where
  "is_some_and x P \<longleftrightarrow> (case x of None \<Rightarrow> False | Some v \<Rightarrow> P v)"

fun condition_matches :: "condition \<Rightarrow> json option \<Rightarrow> bool"
  and filter_matches :: "filter \<Rightarrow> json option \<Rightarrow> bool" where
  "condition_matches (CEq key value) payload \<longleftrightarrow>
     is_some_and (payload_lookup payload key) (matches_stored value)"
| "condition_matches (CIn key values) payload \<longleftrightarrow>
     is_some_and (payload_lookup payload key) (\<lambda>stored. \<exists>v\<in>set values. matches_stored v stored)"
| "condition_matches (CRange key rg) payload \<longleftrightarrow>
     is_some_and (Option.bind (payload_lookup payload key) as_f64) (range_contains rg)"
| "condition_matches (CExists key) payload \<longleftrightarrow> payload_lookup payload key \<noteq> None"
| "condition_matches (CNested inner) payload \<longleftrightarrow> filter_matches inner payload"
| "filter_matches (Filter ms ss ns) payload \<longleftrightarrow>
     (\<forall>c\<in>set ms. condition_matches c payload)
     \<and> (ss = [] \<or> (\<exists>c\<in>set ss. condition_matches c payload))
     \<and> \<not> (\<exists>c\<in>set ns. condition_matches c payload)"

text \<open>\<open>validate\<close>: the first offending condition decides the error.\<close>

definition nested_path :: "string \<Rightarrow> vec_lite_error" where
  "nested_path key = unsupported (''nested-path key '' @ [CHR 0x27] @ key @ [CHR 0x27])"

fun condition_validate :: "condition \<Rightarrow> unit res"
  and filter_validate :: "filter \<Rightarrow> unit res" where
  "condition_validate (CNested inner) = filter_validate inner"
| "condition_validate (CEq key _) = (if CHR ''.'' \<in> set key then Inl (nested_path key) else Inr ())"
| "condition_validate (CIn key _) = (if CHR ''.'' \<in> set key then Inl (nested_path key) else Inr ())"
| "condition_validate (CRange key _) = (if CHR ''.'' \<in> set key then Inl (nested_path key) else Inr ())"
| "condition_validate (CExists key) = (if CHR ''.'' \<in> set key then Inl (nested_path key) else Inr ())"
| "filter_validate (Filter ms ss ns) =
     tryR (mapR condition_validate (ms @ ss @ ns)) (\<lambda>_. Inr ())"

subsection \<open>The portable JSON form\<close>

definition contains_key :: "(string \<times> json) list \<Rightarrow> string \<Rightarrow> bool" where
  "contains_key es key \<longleftrightarrow> map_of es key \<noteq> None"

definition range_bound :: "(string \<times> json) list \<Rightarrow> string \<Rightarrow> f64 option res" where
  "range_bound es name =
     (case map_of es name of
        None \<Rightarrow> Inr None
      | Some JNull \<Rightarrow> Inr None
      | Some v \<Rightarrow> (case as_f64 v of
            Some x \<Rightarrow> Inr (Some x)
          | None \<Rightarrow> Inl (InvalidArgument (''range '' @ [CHR 0x27] @ name @ [CHR 0x27] @ '' must be a number''))))"

text \<open>A condition object that is not a nested clause set.\<close>

definition plain_condition :: "(string \<times> json) list \<Rightarrow> condition res" where
  "plain_condition es =
     (case find (contains_key es) [''geo_radius'', ''geo_bounding_box'', ''geo_polygon''] of
        Some geo \<Rightarrow> Inl (unsupported (''geo condition '' @ [CHR 0x27] @ geo @ [CHR 0x27]))
      | None \<Rightarrow>
          tryR (ok_or (Option.bind (map_of es ''key'') as_str)
                  (InvalidArgument (''condition missing '' @ [CHR 0x27] @ ''key'' @ [CHR 0x27]))) (\<lambda>key.
          if CHR ''.'' \<in> set key then Inl (nested_path key)
          else
            case map_of es ''match'' of
              Some m \<Rightarrow>
                tryR (ok_or (as_object m) (InvalidArgument ([CHR 0x27] @ ''match'' @ [CHR 0x27] @ '' must be an object''))) (\<lambda>mobj.
                case map_of mobj ''value'' of
                  Some v \<Rightarrow> tryR (match_value_from_json v) (\<lambda>mv. Inr (CEq key mv))
                | None \<Rightarrow>
                    (case map_of mobj ''any'' of
                       Some any \<Rightarrow>
                         tryR (ok_or (as_array any)
                                (InvalidArgument ([CHR 0x27] @ ''match.any'' @ [CHR 0x27] @ '' must be an array''))) (\<lambda>arr.
                         tryR (mapR match_value_from_json arr) (\<lambda>mvs. Inr (CIn key mvs)))
                     | None \<Rightarrow> Inl (InvalidArgument ([CHR 0x27] @ ''match'' @ [CHR 0x27] @ '' must have ''
                                  @ [CHR 0x27] @ ''value'' @ [CHR 0x27] @ '' or '' @ [CHR 0x27] @ ''any'' @ [CHR 0x27]))))
            | None \<Rightarrow>
                (case map_of es ''range'' of
                   Some r \<Rightarrow>
                     tryR (ok_or (as_object r) (InvalidArgument ([CHR 0x27] @ ''range'' @ [CHR 0x27] @ '' must be an object''))) (\<lambda>robj.
                     tryR (range_bound robj ''gt'') (\<lambda>gt.
                     tryR (range_bound robj ''gte'') (\<lambda>gte.
                     tryR (range_bound robj ''lt'') (\<lambda>lt.
                     tryR (range_bound robj ''lte'') (\<lambda>lte.
                       Inr (CRange key \<lparr>rg_gt = gt, rg_gte = gte, rg_lt = lt, rg_lte = lte\<rparr>))))))
                 | None \<Rightarrow>
                     if contains_key es ''exists'' \<or> contains_key es ''is_empty'' then Inr (CExists key)
                     else Inl (InvalidArgument (''condition on '' @ [CHR 0x27] @ key @ [CHR 0x27]
                                 @ '' has no match/range/exists clause'')))))"

definition is_clause_set :: "(string \<times> json) list \<Rightarrow> bool" where
  "is_clause_set es \<longleftrightarrow> contains_key es ''must'' \<or> contains_key es ''should'' \<or> contains_key es ''must_not''"

definition set_clause :: "string \<Rightarrow> condition list \<Rightarrow> filter \<Rightarrow> filter res" where
  "set_clause clause parsed f =
     (if clause = ''must'' then Inr (Filter parsed (should f) (must_not f))
      else if clause = ''should'' then Inr (Filter (must f) parsed (must_not f))
      else if clause = ''must_not'' then Inr (Filter (must f) (should f) parsed)
      else Inl (InvalidArgument (''unknown filter clause '' @ [CHR 0x27] @ clause @ [CHR 0x27]
                  @ '' (expected must/should/must_not)'')))"

lemma json_child_size: "(k, JArr xs) \<in> set es \<Longrightarrow> x \<in> set xs \<Longrightarrow> size x < size (JObj es)"
proof -
  assume e: "(k, JArr xs) \<in> set es" and x: "x \<in> set xs"
  have "size x < size (JArr xs)" using x by (simp add: size_list_estimation less_Suc_eq_le size_list_estimation')
  also have "size (JArr xs) \<le> size_list (size_prod (\<lambda>_. 0) size) es"
    using e by (rule size_list_estimation') simp
  finally show ?thesis by simp
qed

function condition_from_json :: "json \<Rightarrow> condition res"
  and filter_from_json :: "json \<Rightarrow> filter res" where
  "condition_from_json doc =
     (case doc of
        JObj es \<Rightarrow>
          if is_clause_set es then tryR (filter_from_json (JObj es)) (\<lambda>f. Inr (CNested f))
          else plain_condition es
      | _ \<Rightarrow> Inl (InvalidArgument ''condition must be a JSON object''))"
| "filter_from_json doc =
     (case doc of
        JObj es \<Rightarrow>
          tryR (foldR (\<lambda>f e.
                  case snd e of
                    JArr list \<Rightarrow> tryR (mapR condition_from_json list) (\<lambda>parsed. set_clause (fst e) parsed f)
                  | _ \<Rightarrow> Inl (InvalidArgument (''filter clause '' @ [CHR 0x27] @ fst e @ [CHR 0x27] @ '' must be an array'')))
                 filter_new es) (\<lambda>f.
          tryR (filter_validate f) (\<lambda>_. Inr f))
      | _ \<Rightarrow> Inl (InvalidArgument ''filter must be a JSON object''))"
  by pat_completeness auto

termination
  by (relation "measures [\<lambda>p. case p of Inl d \<Rightarrow> size d | Inr d \<Rightarrow> size d, \<lambda>p. case p of Inl _ \<Rightarrow> 1 | Inr _ \<Rightarrow> 0]")
    (auto intro: json_child_size [simplified])

declare condition_from_json.simps [simp del] filter_from_json.simps [simp del]

subsection \<open>Validation and parsing\<close>

text \<open>The keys a filter addresses, at any depth.\<close>

fun condition_keys :: "condition \<Rightarrow> string set"
  and filter_keys :: "filter \<Rightarrow> string set" where
  "condition_keys (CEq key _) = {key}"
| "condition_keys (CIn key _) = {key}"
| "condition_keys (CRange key _) = {key}"
| "condition_keys (CExists key) = {key}"
| "condition_keys (CNested inner) = filter_keys inner"
| "filter_keys (Filter ms ss ns) =
     (\<Union>c\<in>set ms. condition_keys c) \<union> (\<Union>c\<in>set ss. condition_keys c) \<union> (\<Union>c\<in>set ns. condition_keys c)"

lemma mapR_unit_iff: "(\<exists>us. mapR f xs = Inr us) \<longleftrightarrow> (\<forall>x\<in>set xs. \<exists>u. f x = Inr u)"
  by (induction xs) (auto simp: tryR_eq_Inr)

lemma validate_iff:
  "condition_validate c = Inr () \<longleftrightarrow> (\<forall>k\<in>condition_keys c. CHR ''.'' \<notin> set k)"
  "filter_validate f = Inr () \<longleftrightarrow> (\<forall>k\<in>filter_keys f. CHR ''.'' \<notin> set k)"
proof (induction c and f rule: condition_keys_filter_keys.induct)
  case (6 ms ss ns)
  have "filter_validate (Filter ms ss ns) = Inr () \<longleftrightarrow> (\<forall>c\<in>set (ms @ ss @ ns). condition_validate c = Inr ())"
    using mapR_unit_iff [of condition_validate "ms @ ss @ ns"] by (auto simp: tryR_eq_Inr)
  moreover have "condition_validate c = Inr () \<longleftrightarrow> (\<forall>k\<in>condition_keys c. CHR ''.'' \<notin> set k)"
    if "c \<in> set (ms @ ss @ ns)" for c using 6 that by auto
  ultimately have "filter_validate (Filter ms ss ns) = Inr () \<longleftrightarrow>
      (\<forall>c\<in>set (ms @ ss @ ns). \<forall>k\<in>condition_keys c. CHR ''.'' \<notin> set k)" by blast
  then show ?case by (simp only: filter_keys.simps set_append) blast
qed auto

lemma validate_errors:
  "condition_validate c = Inl e \<Longrightarrow> \<exists>m. e = InvalidArgument m"
  "filter_validate f = Inl e \<Longrightarrow> \<exists>m. e = InvalidArgument m"
proof (induction c and f arbitrary: e and e rule: condition_keys_filter_keys.induct)
  case (6 ms ss ns)
  from 6(4) have "mapR condition_validate (ms @ ss @ ns) = Inl e" by (auto simp: tryR_eq_Inl)
  then obtain c where "c \<in> set (ms @ ss @ ns)" "condition_validate c = Inl e"
    by (rule mapR_InlE)
  with 6(1-3) show ?case by auto
qed (auto simp: nested_path_def unsupported_def split: if_splits)

definition only_invalid :: "'a res \<Rightarrow> bool" where
  "only_invalid r \<longleftrightarrow> (\<forall>e. r = Inl e \<longrightarrow> (\<exists>m. e = InvalidArgument m))"

lemma only_invalid_simps [simp]:
  "only_invalid (Inr v)" "only_invalid (Inl e) \<longleftrightarrow> (\<exists>m. e = InvalidArgument m)"
  "only_invalid (ok_or x (InvalidArgument m))"
  by (cases x; simp add: only_invalid_def)+

lemma only_invalid_tryR [intro]:
  "only_invalid r \<Longrightarrow> (\<And>v. r = Inr v \<Longrightarrow> only_invalid (f v)) \<Longrightarrow> only_invalid (tryR r f)"
  by (cases r) (auto simp: only_invalid_def)

lemma only_invalid_mapR: "(\<And>x. x \<in> set xs \<Longrightarrow> only_invalid (f x)) \<Longrightarrow> only_invalid (mapR f xs)"
  by (induction xs) (auto intro!: only_invalid_tryR)

lemma only_invalid_foldR: "(\<And>s x. x \<in> set xs \<Longrightarrow> only_invalid (f s x)) \<Longrightarrow> only_invalid (foldR f s xs)"
  by (induction xs arbitrary: s) (auto intro!: only_invalid_tryR)

lemma match_value_from_json_invalid: "only_invalid (match_value_from_json v)"
  by (cases v rule: match_value_from_json.cases) (auto simp: unsupported_def split: option.splits)

lemma range_bound_invalid: "only_invalid (range_bound es name)"
  by (auto simp: range_bound_def split: option.splits json.splits)

lemma plain_condition_invalid: "only_invalid (plain_condition es)"
  unfolding plain_condition_def
  by (auto simp: unsupported_def nested_path_def split: option.splits intro!: only_invalid_tryR
      match_value_from_json_invalid range_bound_invalid only_invalid_mapR)

lemma set_clause_invalid: "only_invalid (set_clause k p f)"
  by (simp add: set_clause_def)

lemma from_json_invalid: "only_invalid (condition_from_json doc)" "only_invalid (filter_from_json doc)"
proof (induction doc and doc rule: condition_from_json_filter_from_json.induct)
  case (1 doc)
  then show ?case
    by (subst condition_from_json.simps) (auto split: json.split intro!: only_invalid_tryR plain_condition_invalid)
next
  case (2 doc)
  have v: "only_invalid (filter_validate f)" for f
    using validate_errors(2) by (auto simp: only_invalid_def)
  show ?case
  proof (cases doc)
    case (JObj es)
    have "only_invalid (foldR (\<lambda>f e.
                  case snd e of
                    JArr list \<Rightarrow> tryR (mapR condition_from_json list) (\<lambda>parsed. set_clause (fst e) parsed f)
                  | _ \<Rightarrow> Inl (InvalidArgument (''filter clause '' @ [CHR 0x27] @ fst e @ [CHR 0x27] @ '' must be an array'')))
                 filter_new es)"
      using 2 [OF JObj]
      by (intro only_invalid_foldR) (auto split: json.split intro!: only_invalid_tryR only_invalid_mapR set_clause_invalid)
    then show ?thesis
      by (subst filter_from_json.simps) (auto simp: JObj intro!: only_invalid_tryR v)
  qed (subst filter_from_json.simps; simp)+
qed

lemma from_json_validated: "filter_from_json doc = Inr f \<Longrightarrow> filter_validate f = Inr ()"
  by (subst (asm) filter_from_json.simps) (auto simp: tryR_eq_Inr split: json.splits)

definition no_path_keys :: "filter \<Rightarrow> bool" where
  "no_path_keys f \<longleftrightarrow> (\<forall>k\<in>filter_keys f. CHR ''.'' \<notin> set k)"

subsection \<open>Properties\<close>

text \<open>
  The parser of portable filter documents (FLT-012) is total and strict: on any JSON document it returns a filter
  none of whose conditions, at any nesting depth, addresses a path key with a dot, or it fails with \<open>InvalidArgument\<close>;
  nothing is silently ignored and no other error is possible. Validation itself decides exactly that.
\<close>

theorem filter_documents_strict:
  "(case filter_from_json doc of
      Inr f \<Rightarrow> no_path_keys f
    | Inl e \<Rightarrow> e \<in> range InvalidArgument)
   \<and> (filter_validate g = Inr () \<longleftrightarrow> no_path_keys g)"
proof (cases "filter_from_json doc")
  case (Inl e)
  then show ?thesis using from_json_invalid(2) [of doc] validate_iff(2) by (auto simp: only_invalid_def no_path_keys_def)
next
  case (Inr f)
  then show ?thesis using from_json_validated [OF Inr] validate_iff(2) by (simp add: no_path_keys_def)
qed

end
