(* ===== verification/Options.thy ===== *)
theory Options
  imports Byte_Tags
begin

section \<open>Options (\<open>options.rs\<close>) and their stored form (\<open>persist/config.rs\<close>)\<close>

text \<open>
  The option types with their pinned defaults and builders. A \<open>usize\<close> is a natural number, an \<open>f32\<close> its bit
  pattern (\<open>0x3E800000\<close> is 0.25). \<open>PathBuf\<close> is a string.
\<close>

definition DEFAULT_EMBEDDING_PROVIDER :: string where "DEFAULT_EMBEDDING_PROVIDER = ''bm25''"
definition DEFAULT_MEMORY_BUDGET :: u64 where "DEFAULT_MEMORY_BUDGET = 4 * 1024 * 1024 * 1024"

datatype metric = Cosine | Euclidean | DotProduct
datatype quantization = Quant_None | Quant_Scalar u8 | Quant_Binary
datatype compression = Compression_None | Compression_Lz4 u32 | Compression_Zstd u32
datatype durability = Full | Normal | Off
datatype payload_index_kind = Keyword | IntegerKind | FloatKind

definition metric_default :: metric where "metric_default = Cosine"
definition quantization_default :: quantization where "quantization_default = Quant_Scalar 8"
definition compression_default :: compression where "compression_default = Compression_Lz4 1024"
definition durability_default :: durability where "durability_default = Normal"

record hnsw_options =
  ho_m :: nat
  ho_ef_construction :: nat
  ho_ef_search :: nat

definition hnsw_default :: hnsw_options where
  "hnsw_default = \<lparr>ho_m = 16, ho_ef_construction = 200, ho_ef_search = 100\<rparr>"

record collection_options =
  co_dimension :: nat
  co_metric :: metric
  co_hnsw :: hnsw_options
  co_quantization :: quantization
  co_compression :: compression
  co_embedding_provider :: "string option"
  co_payload_indexes :: "(string \<times> payload_index_kind) list"

definition options_new :: "nat \<Rightarrow> metric \<Rightarrow> collection_options" where
  "options_new dimension metric =
     \<lparr>co_dimension = dimension, co_metric = metric, co_hnsw = hnsw_default,
      co_quantization = quantization_default, co_compression = compression_default,
      co_embedding_provider = None, co_payload_indexes = []\<rparr>"

definition auto_embed :: "string \<Rightarrow> nat \<Rightarrow> collection_options" where
  "auto_embed provider dimension =
     (options_new dimension metric_default)\<lparr>co_embedding_provider := Some provider\<rparr>"

definition with_metric :: "metric \<Rightarrow> collection_options \<Rightarrow> collection_options" where
  "with_metric m opts = opts\<lparr>co_metric := m\<rparr>"

definition with_hnsw :: "nat \<Rightarrow> nat \<Rightarrow> nat \<Rightarrow> collection_options \<Rightarrow> collection_options" where
  "with_hnsw m efc efs opts = opts\<lparr>co_hnsw := \<lparr>ho_m = m, ho_ef_construction = efc, ho_ef_search = efs\<rparr>\<rparr>"

definition with_quantization :: "quantization \<Rightarrow> collection_options \<Rightarrow> collection_options" where
  "with_quantization q opts = opts\<lparr>co_quantization := q\<rparr>"

definition with_payload_index :: "string \<Rightarrow> payload_index_kind \<Rightarrow> collection_options \<Rightarrow> collection_options" where
  "with_payload_index key kind opts = opts\<lparr>co_payload_indexes := co_payload_indexes opts @ [(key, kind)]\<rparr>"

record open_options =
  oo_read_only :: bool
  oo_mmap :: "bool option"
  oo_memory_budget :: u64
  oo_durability :: durability
  oo_background_checkpoint :: bool
  oo_wal_size_limit :: u64
  oo_auto_vacuum_threshold :: u32
  oo_read_only_ignore_wal :: bool
  oo_model_cache_dir :: "string option"

definition open_options_default :: open_options where
  "open_options_default =
     \<lparr>oo_read_only = False, oo_mmap = None, oo_memory_budget = DEFAULT_MEMORY_BUDGET,
      oo_durability = durability_default, oo_background_checkpoint = False,
      oo_wal_size_limit = 64 * 1024 * 1024, oo_auto_vacuum_threshold = 0x3E800000,
      oo_read_only_ignore_wal = False, oo_model_cache_dir = None\<rparr>"

definition open_options_new :: open_options where
  "open_options_new = open_options_default"

definition with_read_only :: "bool \<Rightarrow> open_options \<Rightarrow> open_options" where
  "with_read_only v opts = opts\<lparr>oo_read_only := v\<rparr>"

definition with_mmap :: "bool \<Rightarrow> open_options \<Rightarrow> open_options" where
  "with_mmap v opts = opts\<lparr>oo_mmap := Some v\<rparr>"

definition with_memory_budget :: "u64 \<Rightarrow> open_options \<Rightarrow> open_options" where
  "with_memory_budget bytes opts = opts\<lparr>oo_memory_budget := bytes\<rparr>"

definition with_durability :: "durability \<Rightarrow> open_options \<Rightarrow> open_options" where
  "with_durability v opts = opts\<lparr>oo_durability := v\<rparr>"

definition with_background_checkpoint :: "bool \<Rightarrow> open_options \<Rightarrow> open_options" where
  "with_background_checkpoint v opts = opts\<lparr>oo_background_checkpoint := v\<rparr>"

definition with_wal_size_limit :: "u64 \<Rightarrow> open_options \<Rightarrow> open_options" where
  "with_wal_size_limit bytes opts = opts\<lparr>oo_wal_size_limit := bytes\<rparr>"

definition with_auto_vacuum_threshold :: "u32 \<Rightarrow> open_options \<Rightarrow> open_options" where
  "with_auto_vacuum_threshold ratio opts = opts\<lparr>oo_auto_vacuum_threshold := ratio\<rparr>"

definition with_read_only_ignore_wal :: "bool \<Rightarrow> open_options \<Rightarrow> open_options" where
  "with_read_only_ignore_wal v opts = opts\<lparr>oo_read_only_ignore_wal := v\<rparr>"

definition with_model_cache_dir :: "string \<Rightarrow> open_options \<Rightarrow> open_options" where
  "with_model_cache_dir path opts = opts\<lparr>oo_model_cache_dir := Some path\<rparr>"

subsection \<open>The stored form\<close>

record stored_config =
  sc_dimension :: u32
  sc_metric :: u8
  sc_m :: u32
  sc_ef_construction :: u32
  sc_ef_search :: u32
  sc_quantization :: u8
  sc_quant_bits :: u8
  sc_compression :: u8
  sc_embedding_provider :: "string option"
  sc_created_epoch_s :: u64

fun metric_byte :: "metric \<Rightarrow> u8" where
  "metric_byte Cosine = 0"
| "metric_byte Euclidean = 1"
| "metric_byte DotProduct = 2"

definition config_corrupt :: "string \<Rightarrow> vec_lite_error" where
  "config_corrupt what = Corrupt (''config: '' @ what)"

definition metric_from :: "u8 \<Rightarrow> metric res" where
  "metric_from b =
     (if b = 0 then Inr Cosine
      else if b = 1 then Inr Euclidean
      else if b = 2 then Inr DotProduct
      else Inl (config_corrupt (''unknown metric '' @ show_nat (unat b))))"

fun quant_bytes :: "quantization \<Rightarrow> u8 \<times> u8" where
  "quant_bytes Quant_None = (0, 0)"
| "quant_bytes (Quant_Scalar bits) = (1, bits)"
| "quant_bytes Quant_Binary = (2, 0)"

definition quant_from :: "u8 \<Rightarrow> u8 \<Rightarrow> quantization res" where
  "quant_from byte bits =
     (if byte = 0 then Inr Quant_None
      else if byte = 1 then Inr (Quant_Scalar bits)
      else if byte = 2 then Inr Quant_Binary
      else Inl (config_corrupt (''unknown quantization '' @ show_nat (unat byte))))"

fun compression_byte :: "compression \<Rightarrow> u8" where
  "compression_byte Compression_None = 0"
| "compression_byte (Compression_Lz4 _) = 1"
| "compression_byte (Compression_Zstd _) = 2"

definition compression_from :: "u8 \<Rightarrow> compression res" where
  "compression_from b =
     (if b = 0 then Inr Compression_None
      else if b = 1 then Inr (Compression_Lz4 1024)
      else if b = 2 then Inr (Compression_Zstd 1024)
      else Inl (config_corrupt (''unknown compression '' @ show_nat (unat b))))"

fun pidx_kind_byte :: "payload_index_kind \<Rightarrow> u8" where
  "pidx_kind_byte Keyword = 1"
| "pidx_kind_byte IntegerKind = 2"
| "pidx_kind_byte FloatKind = 3"

definition pidx_kind_from :: "u8 \<Rightarrow> payload_index_kind res" where
  "pidx_kind_from b =
     (if b = 1 then Inr Keyword
      else if b = 2 then Inr IntegerKind
      else if b = 3 then Inr FloatKind
      else Inl (config_corrupt (''unknown pidx kind '' @ show_nat (unat b))))"

definition to_stored :: "collection_options \<Rightarrow> u64 \<Rightarrow> stored_config" where
  "to_stored opts created =
     (let (q, bits) = quant_bytes (co_quantization opts)
      in \<lparr>sc_dimension = word_of_nat (co_dimension opts), sc_metric = metric_byte (co_metric opts),
          sc_m = word_of_nat (ho_m (co_hnsw opts)),
          sc_ef_construction = word_of_nat (ho_ef_construction (co_hnsw opts)),
          sc_ef_search = word_of_nat (ho_ef_search (co_hnsw opts)),
          sc_quantization = q, sc_quant_bits = bits, sc_compression = compression_byte (co_compression opts),
          sc_embedding_provider = co_embedding_provider opts, sc_created_epoch_s = created\<rparr>)"

definition from_stored :: "stored_config \<Rightarrow> collection_options res" where
  "from_stored c =
     tryR (metric_from (sc_metric c)) (\<lambda>m.
     tryR (quant_from (sc_quantization c) (sc_quant_bits c)) (\<lambda>q.
     tryR (compression_from (sc_compression c)) (\<lambda>k.
       Inr \<lparr>co_dimension = unat (sc_dimension c), co_metric = m,
            co_hnsw = \<lparr>ho_m = unat (sc_m c), ho_ef_construction = unat (sc_ef_construction c),
                       ho_ef_search = unat (sc_ef_search c)\<rparr>,
            co_quantization = q, co_compression = k,
            co_embedding_provider = sc_embedding_provider c, co_payload_indexes = []\<rparr>)))"

subsection \<open>Round trips\<close>

interpretation metric_tag: byte_tag metric_byte metric_from
proof
  show "metric_from (metric_byte x) = Inr x" for x by (cases x) (simp_all add: metric_from_def)
  show "metric_from b = Inr x \<Longrightarrow> metric_byte x = b" for b x by (auto simp: metric_from_def split: if_splits)
  show "only_corrupt (metric_from b)" for b by (auto simp: metric_from_def config_corrupt_def)
qed

interpretation pidx_kind_tag: byte_tag pidx_kind_byte pidx_kind_from
proof
  show "pidx_kind_from (pidx_kind_byte x) = Inr x" for x by (cases x) (simp_all add: pidx_kind_from_def)
  show "pidx_kind_from b = Inr x \<Longrightarrow> pidx_kind_byte x = b" for b x
    by (auto simp: pidx_kind_from_def split: if_splits)
  show "only_corrupt (pidx_kind_from b)" for b by (auto simp: pidx_kind_from_def config_corrupt_def)
qed

text \<open>What the stored form keeps: everything but the compression threshold and the declared indexes.\<close>

definition stored_view :: "collection_options \<Rightarrow> collection_options" where
  "stored_view opts = opts\<lparr>co_compression := (case co_compression opts of
        Compression_None \<Rightarrow> Compression_None
      | Compression_Lz4 _ \<Rightarrow> Compression_Lz4 1024
      | Compression_Zstd _ \<Rightarrow> Compression_Zstd 1024), co_payload_indexes := []\<rparr>"

definition options_fit :: "collection_options \<Rightarrow> bool" where
  "options_fit opts \<longleftrightarrow> co_dimension opts < 2 ^ 32 \<and> ho_m (co_hnsw opts) < 2 ^ 32
     \<and> ho_ef_construction (co_hnsw opts) < 2 ^ 32 \<and> ho_ef_search (co_hnsw opts) < 2 ^ 32"

lemma from_stored_to_stored [codec_simps]:
  assumes "options_fit opts"
  shows "from_stored (to_stored opts t) = Inr (stored_view opts)"
proof -
  have q: "quant_from (fst (quant_bytes q)) (snd (quant_bytes q)) = Inr q" for q
    by (cases q) (simp_all add: quant_from_def)
  have k: "compression_from (compression_byte c) = Inr (case c of
        Compression_None \<Rightarrow> Compression_None
      | Compression_Lz4 _ \<Rightarrow> Compression_Lz4 1024
      | Compression_Zstd _ \<Rightarrow> Compression_Zstd 1024)" for c
    by (cases c) (simp_all add: compression_from_def)
  have u: "unat (word_of_nat (co_dimension opts) :: u32) = co_dimension opts"
    "unat (word_of_nat (ho_m (co_hnsw opts)) :: u32) = ho_m (co_hnsw opts)"
    "unat (word_of_nat (ho_ef_construction (co_hnsw opts)) :: u32) = ho_ef_construction (co_hnsw opts)"
    "unat (word_of_nat (ho_ef_search (co_hnsw opts)) :: u32) = ho_ef_search (co_hnsw opts)"
    using assms unat_u32 by (auto simp only: options_fit_def)
  show ?thesis
    by (simp add: from_stored_def to_stored_def case_prod_beta metric_tag.from_to q k u stored_view_def)
qed

lemma from_stored_corrupt: "only_corrupt (from_stored c)"
  by (auto simp: from_stored_def quant_from_def compression_from_def config_corrupt_def
      intro!: only_corrupt_tryR metric_tag.from_corrupt)

text \<open>A thresholded compression never comes back with another threshold than the default.\<close>

lemma from_stored_defaults:
  "from_stored c = Inr opts \<Longrightarrow> co_payload_indexes opts = [] \<and>
     (\<forall>n. co_compression opts = Compression_Lz4 n \<or> co_compression opts = Compression_Zstd n \<longrightarrow> n = 1024)"
  by (auto simp: from_stored_def compression_from_def tryR_eq_Inr split: if_splits)

subsection \<open>Property\<close>

text \<open>
  A collection's options survive the CONFIG projection: reading back what was stored gives the same dimension,
  metric, index parameters, quantization and embedding provider, the same compression codec with the default threshold,
  and no payload indexes (those are sealed separately); no stored record makes the reader fail with anything but
  \<open>Corrupt\<close>.
\<close>

theorem config_round_trip:
  assumes "options_fit opts"
  shows "from_stored (to_stored opts created) = Inr (stored_view opts) \<and> only_corrupt (from_stored c)"
  using from_stored_to_stored [OF assms] from_stored_corrupt by blast

theorem config_round_trip_witness:
  "from_stored (to_stored (auto_embed ''bm25'' 512) 9) = Inr (stored_view (auto_embed ''bm25'' 512))
   \<and> only_corrupt (from_stored (to_stored (options_new 3 Euclidean) 0))"
  by (rule config_round_trip) (simp add: options_fit_def auto_embed_def options_new_def hnsw_default_def)

end
