(* ===== verification/Filter_Index.thy ===== *)
theory Filter_Index
  imports Float_Facts Filters Options "HOL-Library.AList" "HOL-Library.List_Lexorder" "HOL-Library.Char_ord"
begin

section \<open>In-memory payload indexes (\<open>filter/index.rs\<close>)\<close>

text \<open>
  One index per declared key, from a value to the set of slots that hold it, as association lists with one entry per
  key. A bitmap is the set of its slots; a float key is its bit pattern, which is what equality under \<open>total_cmp\<close> compares.
\<close>

type_synonym slots = "u64 set"

datatype key_index =
    KeywordIx "(string \<times> slots) list"
  | IntegerIx "(i64 \<times> slots) list"
  | FloatIx "(f64 \<times> slots) list"

type_synonym payload_indexes = "(string \<times> key_index) list"

datatype posting_value = PKeyword string | PInteger i64 | PFloat f64

subsection \<open>One key's index\<close>

fun key_index_empty :: "payload_index_kind \<Rightarrow> key_index" where
  "key_index_empty Keyword = KeywordIx []"
| "key_index_empty IntegerKind = IntegerIx []"
| "key_index_empty FloatKind = FloatIx []"

definition entry_insert :: "'a \<Rightarrow> u64 \<Rightarrow> ('a \<times> slots) list \<Rightarrow> ('a \<times> slots) list" where
  "entry_insert v slot m = AList.map_default v {slot} (insert slot) m"

definition entry_remove :: "'a \<Rightarrow> u64 \<Rightarrow> ('a \<times> slots) list \<Rightarrow> ('a \<times> slots) list" where
  "entry_remove v slot m = AList.map_entry v (\<lambda>b. b - {slot}) m"

definition entry_get :: "('a \<times> slots) list \<Rightarrow> 'a \<Rightarrow> slots" where
  "entry_get m v = (case map_of m v of None \<Rightarrow> {} | Some b \<Rightarrow> b)"

definition when_some :: "'a option \<Rightarrow> ('a \<Rightarrow> 'b \<Rightarrow> 'b) \<Rightarrow> 'b \<Rightarrow> 'b" where
  "when_some x f m = (case x of None \<Rightarrow> m | Some v \<Rightarrow> f v m)"

fun key_index_add :: "key_index \<Rightarrow> json \<Rightarrow> u64 \<Rightarrow> key_index" where
  "key_index_add (KeywordIx m) value slot = KeywordIx (when_some (as_str value) (\<lambda>s. entry_insert s slot) m)"
| "key_index_add (IntegerIx m) value slot = IntegerIx (when_some (as_i64 value) (\<lambda>i. entry_insert i slot) m)"
| "key_index_add (FloatIx m) value slot = FloatIx (when_some (as_f64 value) (\<lambda>x. entry_insert x slot) m)"

fun key_index_remove :: "key_index \<Rightarrow> json \<Rightarrow> u64 \<Rightarrow> key_index" where
  "key_index_remove (KeywordIx m) value slot = KeywordIx (when_some (as_str value) (\<lambda>s. entry_remove s slot) m)"
| "key_index_remove (IntegerIx m) value slot = IntegerIx (when_some (as_i64 value) (\<lambda>i. entry_remove i slot) m)"
| "key_index_remove (FloatIx m) value slot = FloatIx (when_some (as_f64 value) (\<lambda>x. entry_remove x slot) m)"

fun all_slots :: "key_index \<Rightarrow> slots" where
  "all_slots (KeywordIx m) = \<Union> (snd ` set m)"
| "all_slots (IntegerIx m) = \<Union> (snd ` set m)"
| "all_slots (FloatIx m) = \<Union> (snd ` set m)"

fun eq_bitmap :: "key_index \<Rightarrow> match_value \<Rightarrow> slots" where
  "eq_bitmap (KeywordIx m) (MKeyword s) = entry_get m s"
| "eq_bitmap (IntegerIx m) (MInteger i) = entry_get m i"
| "eq_bitmap (FloatIx m) (MInteger i) = entry_get m (i64_as_f64 i)"
| "eq_bitmap _ _ = {}"

fun range_bitmap :: "key_index \<Rightarrow> range \<Rightarrow> slots option" where
  "range_bitmap (IntegerIx m) rg = Some (\<Union> (snd ` {e \<in> set m. range_contains rg (i64_as_f64 (fst e))}))"
| "range_bitmap (FloatIx m) rg = Some (\<Union> (snd ` {e \<in> set m. range_contains rg (fst e)}))"
| "range_bitmap (KeywordIx m) rg = None"

subsection \<open>The declared indexes of a collection\<close>

definition indexes_new :: "(string \<times> payload_index_kind) list \<Rightarrow> payload_indexes" where
  "indexes_new declared = fold (\<lambda>d. AList.update (fst d) (key_index_empty (snd d))) declared []"

definition declare_index :: "string \<Rightarrow> payload_index_kind \<Rightarrow> payload_indexes \<Rightarrow> bool \<times> payload_indexes" where
  "declare_index key kind ix =
     (if map_of ix key \<noteq> None then (False, ix)
      else (True, AList.update key (key_index_empty kind) ix))"

fun index_kind :: "key_index \<Rightarrow> payload_index_kind" where
  "index_kind (KeywordIx _) = Keyword"
| "index_kind (IntegerIx _) = IntegerKind"
| "index_kind (FloatIx _) = FloatKind"

definition kind_of :: "payload_indexes \<Rightarrow> string \<Rightarrow> payload_index_kind option" where
  "kind_of ix key = map_option index_kind (map_of ix key)"

definition declared_indexes :: "payload_indexes \<Rightarrow> (string \<times> payload_index_kind) list" where
  "declared_indexes ix =
     sort_key fst (map (\<lambda>e. (fst e, case kind_of ix (fst e) of None \<Rightarrow> Keyword | Some k \<Rightarrow> k)) ix)"

definition sorted_postings :: "('a \<Rightarrow> 'k::linorder) \<Rightarrow> ('a \<Rightarrow> posting_value) \<Rightarrow> ('a \<times> slots) list
    \<Rightarrow> (posting_value \<times> u64 list) list" where
  "sorted_postings ord con m = map (\<lambda>e. (con (fst e), sorted_list_of_set (snd e))) (sort_key (\<lambda>e. ord (fst e)) m)"

definition postings :: "payload_indexes \<Rightarrow> string \<Rightarrow> (posting_value \<times> u64 list) list option" where
  "postings ix key =
     (case map_of ix key of
        None \<Rightarrow> None
      | Some (KeywordIx m) \<Rightarrow> Some (sorted_postings (\<lambda>s. s) PKeyword m)
      | Some (IntegerIx m) \<Rightarrow> Some (sorted_postings sint PInteger m)
      | Some (FloatIx m) \<Rightarrow> Some (sorted_postings f64_total_key PFloat m))"

definition indexes_insert :: "payload_indexes \<Rightarrow> u64 \<Rightarrow> json option \<Rightarrow> payload_indexes" where
  "indexes_insert ix slot payload =
     (if ix = [] then ix
      else case Option.bind payload as_object of
        None \<Rightarrow> ix
      | Some obj \<Rightarrow>
          map (\<lambda>e. case map_of obj (fst e) of
                 None \<Rightarrow> e
               | Some v \<Rightarrow> (fst e, key_index_add (snd e) v slot)) ix)"

definition indexes_remove :: "payload_indexes \<Rightarrow> u64 \<Rightarrow> json option \<Rightarrow> payload_indexes" where
  "indexes_remove ix slot payload =
     (if ix = [] then ix
      else case Option.bind payload as_object of
        None \<Rightarrow> ix
      | Some obj \<Rightarrow>
          map (\<lambda>e. case map_of obj (fst e) of
                 None \<Rightarrow> e
               | Some v \<Rightarrow> (fst e, key_index_remove (snd e) v slot)) ix)"

fun index_answer :: "payload_indexes \<Rightarrow> condition \<Rightarrow> slots option" where
  "index_answer ix (CEq key value) = map_option (\<lambda>idx. eq_bitmap idx value) (map_of ix key)"
| "index_answer ix (CIn key values) =
     map_option (\<lambda>idx. fold (\<lambda>v out. out \<union> eq_bitmap idx v) values {}) (map_of ix key)"
| "index_answer ix (CRange key rg) = Option.bind (map_of ix key) (\<lambda>idx. range_bitmap idx rg)"
| "index_answer ix (CExists key) = map_option all_slots (map_of ix key)"
| "index_answer ix (CNested _) = None"

definition candidates :: "payload_indexes \<Rightarrow> filter \<Rightarrow> slots option" where
  "candidates ix f =
     fold (\<lambda>cond acc.
       case index_answer ix cond of
         None \<Rightarrow> acc
       | Some bitmap \<Rightarrow> Some (case acc of None \<Rightarrow> bitmap | Some a \<Rightarrow> a \<inter> bitmap)) (must f) None"

subsection \<open>What an index holds\<close>

text \<open>
  The abstract content of an index: which slots hold the value it keys on, given the payloads of the live slots.
  \<open>entry_holds m view T\<close> says that \<open>m\<close> maps each value to exactly the slots of \<open>T\<close> whose value is viewed as it;
  \<open>P s\<close> is the payload of the live slot \<open>s\<close>, \<open>None\<close> when it has none or is not live.
\<close>

definition entry_holds :: "('a \<times> slots) list \<Rightarrow> (json \<Rightarrow> 'a option) \<Rightarrow> (u64 \<Rightarrow> json option) \<Rightarrow> bool" where
  "entry_holds m view T \<longleftrightarrow>
     distinct (map fst m) \<and> (\<forall>v. entry_get m v = {s. Option.bind (T s) view = Some v})"

fun key_index_holds :: "key_index \<Rightarrow> (u64 \<Rightarrow> json option) \<Rightarrow> bool" where
  "key_index_holds (KeywordIx m) T \<longleftrightarrow> entry_holds m as_str T"
| "key_index_holds (IntegerIx m) T \<longleftrightarrow> entry_holds m as_i64 T"
| "key_index_holds (FloatIx m) T \<longleftrightarrow> entry_holds m as_f64 T"

definition indexes_hold :: "payload_indexes \<Rightarrow> (u64 \<Rightarrow> json option) \<Rightarrow> bool" where
  "indexes_hold ix P \<longleftrightarrow>
     distinct (map fst ix) \<and> (\<forall>(key, idx)\<in>set ix. key_index_holds idx (\<lambda>s. payload_lookup (P s) key))"

text \<open>The same with the indexed values given per key: during a backfill the keys are filled to different slots.\<close>

definition indexes_hold_by :: "payload_indexes \<Rightarrow> (string \<Rightarrow> u64 \<Rightarrow> json option) \<Rightarrow> bool" where
  "indexes_hold_by ix F \<longleftrightarrow> distinct (map fst ix) \<and> (\<forall>(key, idx)\<in>set ix. key_index_holds idx (F key))"

lemma indexes_hold_by_eq: "indexes_hold ix P \<longleftrightarrow> indexes_hold_by ix (\<lambda>key s. payload_lookup (P s) key)"
  by (simp add: indexes_hold_def indexes_hold_by_def)

lemma entry_get_insert:
  "entry_get (entry_insert v slot m) w = (if w = v then insert slot (entry_get m v) else entry_get m w)"
  by (auto simp: entry_get_def entry_insert_def map_of_map_default split: option.splits)

lemma entry_get_remove:
  "entry_get (entry_remove v slot m) w = (if w = v then entry_get m v - {slot} else entry_get m w)"
  by (auto simp: entry_get_def entry_remove_def map_of_map_entry split: option.splits)

lemma distinct_entry:
  "distinct (map fst m) \<Longrightarrow> distinct (map fst (entry_insert v slot m))"
  "distinct (map fst m) \<Longrightarrow> distinct (map fst (entry_remove v slot m))"
  by (simp_all add: entry_insert_def entry_remove_def distinct_map_default distinct_map_entry)

lemma entry_holds_empty: "entry_holds [] view (\<lambda>s. None)"
  by (simp add: entry_holds_def entry_get_def)

lemma entry_holds_insert:
  assumes "entry_holds m view T" and "T slot = None \<or> T slot = Some v"
  shows "entry_holds (when_some (view v) (\<lambda>x. entry_insert x slot) m) view (T(slot \<mapsto> v))"
  using assms
  by (auto simp: entry_holds_def when_some_def entry_get_insert distinct_entry split: option.splits if_splits)

lemma entry_holds_remove:
  assumes "entry_holds m view T" and "T slot = Some v"
  shows "entry_holds (when_some (view v) (\<lambda>x. entry_remove x slot) m) view (T(slot := None))"
  using assms
  by (auto simp: entry_holds_def when_some_def entry_get_remove distinct_entry split: option.splits if_splits)

lemma key_index_holds_empty: "key_index_holds (key_index_empty kind) (\<lambda>s. None)"
  by (cases kind) (simp_all add: entry_holds_empty)

lemma key_index_holds_add:
  "key_index_holds idx T \<Longrightarrow> T slot = None \<or> T slot = Some v
    \<Longrightarrow> key_index_holds (key_index_add idx v slot) (T(slot \<mapsto> v))"
  by (cases idx) (simp_all add: entry_holds_insert)

lemma key_index_holds_remove:
  "key_index_holds idx T \<Longrightarrow> T slot = Some v \<Longrightarrow> key_index_holds (key_index_remove idx v slot) (T(slot := None))"
  by (cases idx) (simp_all add: entry_holds_remove)

lemma payload_lookup_upd:
  "(\<lambda>s. payload_lookup ((P(slot := p)) s) key) = (\<lambda>s. payload_lookup (P s) key)(slot := payload_lookup p key)"
  by auto

lemma payload_lookup_None [simp]: "payload_lookup None key = None"
  by (simp add: payload_lookup_def)

text \<open>A pointwise update of the indexes that leaves the keys alone.\<close>

lemma indexes_hold_map:
  assumes "indexes_hold ix P"
    and "\<And>key idx. (key, idx) \<in> set ix \<Longrightarrow> fst (g (key, idx)) = key
      \<and> key_index_holds (snd (g (key, idx))) (\<lambda>s. payload_lookup (Q s) key)"
  shows "indexes_hold (map g ix) Q"
proof -
  have "map fst (map g ix) = map fst ix" using assms(2) by (auto simp: comp_def)
  moreover have "case g e of (key, idx) \<Rightarrow> key_index_holds idx (\<lambda>s. payload_lookup (Q s) key)" if "e \<in> set ix" for e
    using assms(2) [of "fst e" "snd e"] that by (auto split: prod.split)
  then have "\<forall>(key, idx)\<in>set (map g ix). key_index_holds idx (\<lambda>s. payload_lookup (Q s) key)"
    by auto
  ultimately show ?thesis using assms(1) by (simp only: indexes_hold_def)
qed

lemma indexes_insert_holds_by:
  assumes h: "indexes_hold_by ix F"
    and fresh: "\<And>key. F key slot = None \<or> F key slot = payload_lookup payload key"
  shows "indexes_hold_by (indexes_insert ix slot payload) (\<lambda>key. (F key)(slot := payload_lookup payload key))"
proof (cases "ix = [] \<or> Option.bind payload as_object = None")
  case True
  moreover have "(F key)(slot := payload_lookup payload key) = F key" if "Option.bind payload as_object = None" for key
    using that fresh [of key] by (auto simp: payload_lookup_def)
  ultimately show ?thesis using h by (auto simp: indexes_insert_def indexes_hold_by_def)
next
  case False
  then obtain obj where obj: "Option.bind payload as_object = Some obj" by blast
  let ?g = "\<lambda>e. case map_of obj (fst e) of None \<Rightarrow> e | Some v \<Rightarrow> (fst e, key_index_add (snd e) v slot)"
  have l: "payload_lookup payload key = map_of obj key" for key using obj by (simp add: payload_lookup_def)
  have "fst (?g e) = fst e \<and> key_index_holds (snd (?g e)) ((F (fst e))(slot := map_of obj (fst e)))" if "e \<in> set ix" for e
  proof (cases "map_of obj (fst e)")
    case None
    then have "(F (fst e))(slot := map_of obj (fst e)) = F (fst e)" using fresh [of "fst e"] by (auto simp: l)
    then show ?thesis using None h that by (auto simp: indexes_hold_by_def)
  next
    case (Some v)
    then show ?thesis using h that fresh [of "fst e"] key_index_holds_add [of "snd e" "F (fst e)" slot v]
      by (auto simp: indexes_hold_by_def l)
  qed
  then have "map fst (map ?g ix) = map fst ix \<and>
      (\<forall>e\<in>set (map ?g ix). key_index_holds (snd e) ((F (fst e))(slot := map_of obj (fst e))))"
    by auto
  then have "indexes_hold_by (map ?g ix) (\<lambda>key. (F key)(slot := map_of obj key))"
    using h unfolding indexes_hold_by_def by (simp add: case_prod_beta del: map_map set_map)
  then show ?thesis using False obj by (simp add: indexes_insert_def l)
qed

lemma indexes_insert_holds:
  assumes "indexes_hold ix P" and "P slot = None"
  shows "indexes_hold (indexes_insert ix slot payload) (P(slot := payload))"
  unfolding indexes_hold_by_eq payload_lookup_upd
  by (rule indexes_insert_holds_by) (simp_all add: assms [unfolded indexes_hold_by_eq])

lemma indexes_remove_holds:
  assumes h: "indexes_hold ix P"
  shows "indexes_hold (indexes_remove ix slot (P slot)) (P(slot := None))"
proof (cases "Option.bind (P slot) as_object")
  case None
  then have "payload_lookup (P slot) key = None" for key by (simp add: payload_lookup_def)
  then have "(\<lambda>s. payload_lookup ((P(slot := None)) s) key) = (\<lambda>s. payload_lookup (P s) key)" for key
    by (simp only: payload_lookup_upd) auto
  then show ?thesis using h None by (simp add: indexes_hold_def indexes_remove_def)
next
  case (Some obj)
  show ?thesis
  proof (cases "ix = []")
    case False
    have "indexes_hold (map (\<lambda>e. case map_of obj (fst e) of None \<Rightarrow> e
               | Some v \<Rightarrow> (fst e, key_index_remove (snd e) v slot)) ix) (P(slot := None))"
    proof (rule indexes_hold_map [OF h])
      fix key idx assume e: "(key, idx) \<in> set ix"
      then have k: "key_index_holds idx (\<lambda>s. payload_lookup (P s) key)" using h by (auto simp: indexes_hold_def)
      have l: "payload_lookup (P slot) key = map_of obj key" using Some by (simp add: payload_lookup_def)
      show "fst (case map_of obj (fst (key, idx)) of None \<Rightarrow> (key, idx)
               | Some v \<Rightarrow> (fst (key, idx), key_index_remove (snd (key, idx)) v slot)) = key
          \<and> key_index_holds (snd (case map_of obj (fst (key, idx)) of None \<Rightarrow> (key, idx)
               | Some v \<Rightarrow> (fst (key, idx), key_index_remove (snd (key, idx)) v slot)))
              (\<lambda>s. payload_lookup ((P(slot := None)) s) key)"
      proof (cases "map_of obj key")
        case None
        then have "(\<lambda>s. payload_lookup (P s) key)(slot := None) = (\<lambda>s. payload_lookup (P s) key)"
          using l by auto
        then show ?thesis using None k by (simp only: payload_lookup_upd option.simps fst_conv snd_conv payload_lookup_None)
      next
        case (Some v)
        then show ?thesis using key_index_holds_remove [OF k] l
            by (simp only: payload_lookup_upd option.simps fst_conv snd_conv payload_lookup_None simp_thms)
      qed
    qed
    then show ?thesis using False Some by (simp add: indexes_remove_def)
  qed (simp add: indexes_remove_def indexes_hold_def)
qed

lemma indexes_new_holds: "indexes_hold (indexes_new declared) (\<lambda>s. None)"
proof -
  have "indexes_hold (fold (\<lambda>d. AList.update (fst d) (key_index_empty (snd d))) declared ix) (\<lambda>s. None)"
    if "indexes_hold ix (\<lambda>s. None)" for ix
    using that
  proof (induction declared arbitrary: ix)
    case (Cons d declared)
    have "set (AList.update k v ix) \<subseteq> insert (k, v) (set ix)" for k and v :: key_index
      by (induction ix) auto
    then have "indexes_hold (AList.update (fst d) (key_index_empty (snd d)) ix) (\<lambda>s. None)"
      using Cons.prems key_index_holds_empty by (fastforce simp: indexes_hold_def distinct_update)
    then show ?case using Cons.IH by simp
  qed simp
  from this [of "[]"] show ?thesis by (simp add: indexes_new_def indexes_hold_def)
qed

subsection \<open>Candidates\<close>

text \<open>
  A stored value an index of its kind answers for exactly: a string, an integer a \<open>f64\<close> represents exactly, a number
  other than the negative zero.
\<close>

fun indexable :: "key_index \<Rightarrow> json \<Rightarrow> bool" where
  "indexable (KeywordIx _) v \<longleftrightarrow> as_str v \<noteq> None"
| "indexable (IntegerIx _) v \<longleftrightarrow> (\<exists>j. as_i64 v = Some j \<and> \<bar>sint j\<bar> < 2 ^ 53)"
| "indexable (FloatIx _) v \<longleftrightarrow> (\<exists>x. as_f64 v = Some x \<and> x \<noteq> 0x8000000000000000)"

definition homogeneous :: "payload_indexes \<Rightarrow> (u64 \<Rightarrow> json option) \<Rightarrow> bool" where
  "homogeneous ix P \<longleftrightarrow>
     (\<forall>(key, idx)\<in>set ix. \<forall>s v. payload_lookup (P s) key = Some v \<longrightarrow> indexable idx v)"

lemma as_f64_as_i64: "as_i64 v = Some j \<Longrightarrow> as_f64 v = Some (i64_as_f64 j)"
proof (cases v)
  case (JNum n)
  assume j: "as_i64 v = Some j"
  show ?thesis
  proof (cases n)
    case (PosInt k)
    then have "k \<le> 0x7FFFFFFFFFFFFFFF" and kj: "k = j" using j JNum by (auto split: if_splits)
    then have "uint k < 2 ^ 63" by (simp add: word_le_def)
    then have "sint k = uint k" by (subst sint_uint, intro signed_take_bit_int_eq_self) (simp_all add: order_trans [OF _ uint_ge_0])
    then show ?thesis using PosInt JNum kj by (simp add: i64_as_f64_def)
  qed (use j JNum in \<open>auto simp: i64_as_f64_def\<close>)
qed simp_all

lemma key_of_zeros:
  "0 \<le> a \<Longrightarrow> 0 \<le> b \<Longrightarrow> a \<noteq> b \<Longrightarrow> key_of h a 0 = key_of h b 0 \<Longrightarrow> a = h \<and> b = 0 \<or> a = 0 \<and> b = h"
  by (auto simp: key_of_def split: if_splits)

lemma f64_eq_exact:
  assumes x: "x \<noteq> 0x8000000000000000" and eq: "f64_eq x (f64_of_int i)"
  shows "x = f64_of_int i"
proof (rule ccontr)
  let ?y = "f64_of_int i"
  assume "x \<noteq> ?y"
  then have n: "uint x \<noteq> uint ?y" by (simp add: word_uint_eq_iff)
  have x0: "uint x \<noteq> 2 ^ 63" using x by (simp add: word_uint_eq_iff)
  have k: "key_of (2 ^ 63) (uint x) 0 = key_of (2 ^ 63) (uint ?y) 0"
    using eq by (simp add: f64_eq_def f64_num_key_def)
  then have z: "uint x = 0" "uint ?y = 2 ^ 63" using key_of_zeros [OF _ _ n k] x0 by simp_all
  then have "int_key i = int_key 0"
    using f64_of_int_key [of i] by (simp add: f64_num_key_def key_of_def int_key_def round_mag_def)
  then have "i = 0" using int_key_inject [of 0 i] by simp
  then show False using z(2) by (simp add: uint_f64_of_int round_mag_def)
qed

lemma i64_eq_exact: "\<bar>sint j\<bar> < 2 ^ 53 \<Longrightarrow> f64_eq (i64_as_f64 j) (i64_as_f64 i) \<Longrightarrow> j = i"
  using int_key_inject [of "sint j" "sint i"]
  by (auto simp: f64_eq_def i64_as_f64_def f64_of_int_key intro: word_eq_iff_signed [THEN iffD2])

lemma entry_holds_get: "entry_holds m view T \<Longrightarrow> T s = Some v \<Longrightarrow> view v = Some x \<Longrightarrow> s \<in> entry_get m x"
  by (simp add: entry_holds_def)

lemma entry_get_mem: "s \<in> entry_get m x \<Longrightarrow> \<exists>b. (x, b) \<in> set m \<and> s \<in> b"
  by (auto simp: entry_get_def split: option.splits dest: map_of_SomeD)

lemma eq_bitmap_complete:
  assumes h: "key_index_holds idx T" and v: "T s = Some v" and i: "indexable idx v" and m: "matches_stored mv v"
  shows "s \<in> eq_bitmap idx mv"
proof (cases idx)
  case (KeywordIx es)
  then show ?thesis using assms entry_holds_get [of es as_str T s v] by (cases mv; cases v) auto
next
  case (IntegerIx es)
  then obtain j where j: "as_i64 v = Some j" "\<bar>sint j\<bar> < 2 ^ 53" using i by auto
  then obtain k where k: "mv = MInteger k" using m by (cases mv; cases v) auto
  have "j = k" using m k j as_f64_as_i64 [OF j(1)] i64_eq_exact [OF j(2)] by auto
  then show ?thesis using h v j k IntegerIx by (simp add: entry_holds_get)
next
  case (FloatIx es)
  then obtain x where x: "as_f64 v = Some x" "x \<noteq> 0x8000000000000000" using i by auto
  then obtain k where k: "mv = MInteger k" using m by (cases mv; cases v) auto
  have "x = i64_as_f64 k"
  proof (cases "as_i64 v = Some k")
    case True
    then show ?thesis using as_f64_as_i64 x by fastforce
  next
    case False
    then have "f64_eq x (f64_of_int (sint k))" using m k x by (simp add: i64_as_f64_def)
    then show ?thesis using f64_eq_exact [OF x(2)] by (simp add: i64_as_f64_def)
  qed
  then show ?thesis using h v x k FloatIx by (simp add: entry_holds_get)
qed

lemma range_bitmap_complete:
  assumes h: "key_index_holds idx T" and v: "T s = Some v" and i: "indexable idx v"
    and x: "as_f64 v = Some x" "range_contains rg x" and S: "range_bitmap idx rg = Some S"
  shows "s \<in> S"
proof (cases idx)
  case (IntegerIx es)
  then obtain j where j: "as_i64 v = Some j" using i by auto
  then obtain b where "(j, b) \<in> set es" "s \<in> b"
    using h v IntegerIx entry_holds_get [of es as_i64 T s v j] entry_get_mem by fastforce
  moreover have "range_contains rg (i64_as_f64 j)" using as_f64_as_i64 [OF j] x by simp
  ultimately show ?thesis using S IntegerIx by force
next
  case (FloatIx es)
  then obtain b where "(x, b) \<in> set es" "s \<in> b"
    using h v x entry_holds_get [of es as_f64 T s v x] entry_get_mem by fastforce
  then show ?thesis using S FloatIx x by force
qed (use S in simp)

lemma entry_get_union: "s \<in> entry_get m x \<Longrightarrow> s \<in> \<Union> (snd ` set m)"
  using entry_get_mem by fastforce

lemma all_slots_complete:
  assumes h: "key_index_holds idx T" and v: "T s = Some v" and i: "indexable idx v"
  shows "s \<in> all_slots idx"
proof (cases idx)
  case (KeywordIx es)
  then obtain x where "as_str v = Some x" using i by auto
  then show ?thesis using h v KeywordIx entry_get_union [OF entry_holds_get] by fastforce
next
  case (IntegerIx es)
  then obtain x where "as_i64 v = Some x" using i by auto
  then show ?thesis using h v IntegerIx entry_get_union [OF entry_holds_get] by fastforce
next
  case (FloatIx es)
  then obtain x where "as_f64 v = Some x" using i by auto
  then show ?thesis using h v FloatIx entry_get_union [OF entry_holds_get] by fastforce
qed

lemma in_fold_bitmap: "s \<in> fold (\<lambda>v out. out \<union> f v) vs A \<longleftrightarrow> s \<in> A \<or> (\<exists>v\<in>set vs. s \<in> f v)"
  by (induction vs arbitrary: A) auto

lemma index_answer_complete:
  assumes h: "indexes_hold ix P" and hom: "homogeneous ix P"
    and S: "index_answer ix c = Some S" and m: "condition_matches c (P s)"
  shows "s \<in> S"
proof -
  have idx: "key_index_holds idx (\<lambda>s. payload_lookup (P s) key)"
    "payload_lookup (P s) key = Some v \<Longrightarrow> indexable idx v"
    if "map_of ix key = Some idx" for key idx v
    using h hom map_of_SomeD [OF that] by (auto simp: indexes_hold_def homogeneous_def)
  show ?thesis
  proof (cases c)
    case (CEq key mv)
    obtain i v where i: "map_of ix key = Some i" and v: "payload_lookup (P s) key = Some v"
      and mv: "matches_stored mv v" and e: "S = eq_bitmap i mv"
      using CEq S m by (auto simp: is_some_and_def split: option.splits)
    show ?thesis unfolding e by (rule eq_bitmap_complete [OF idx(1) [OF i] v idx(2) [OF i v] mv])
  next
    case (CIn key vals)
    obtain i v mv where i: "map_of ix key = Some i" and v: "payload_lookup (P s) key = Some v"
      and mv: "mv \<in> set vals" "matches_stored mv v" and e: "S = fold (\<lambda>v out. out \<union> eq_bitmap i v) vals {}"
      using CIn S m by (auto simp: is_some_and_def split: option.splits)
    have "s \<in> eq_bitmap i mv" using eq_bitmap_complete [OF idx(1) [OF i] v idx(2) [OF i v] mv(2)] .
    then show ?thesis using mv(1) by (auto simp: e in_fold_bitmap)
  next
    case (CRange key rg)
    obtain i v x where i: "map_of ix key = Some i" and v: "payload_lookup (P s) key = Some v"
      and x: "as_f64 v = Some x" "range_contains rg x" and e: "range_bitmap i rg = Some S"
      using CRange S m by (auto simp: is_some_and_def bind_eq_Some_conv split: option.splits)
    show ?thesis using range_bitmap_complete [OF idx(1) [OF i] v idx(2) [OF i v] x e] .
  next
    case (CExists key)
    obtain i v where i: "map_of ix key = Some i" and v: "payload_lookup (P s) key = Some v" and e: "S = all_slots i"
      using CExists S m by auto
    show ?thesis unfolding e by (rule all_slots_complete [OF idx(1) [OF i] v idx(2) [OF i v]])
  qed (use S in simp)
qed

lemma candidates_mem:
  "fold (\<lambda>cond acc. case index_answer ix cond of None \<Rightarrow> acc
       | Some bitmap \<Rightarrow> Some (case acc of None \<Rightarrow> bitmap | Some a \<Rightarrow> a \<inter> bitmap)) cs acc = Some S
   \<Longrightarrow> (\<And>A. acc = Some A \<Longrightarrow> s \<in> A) \<Longrightarrow> (\<And>c B. c \<in> set cs \<Longrightarrow> index_answer ix c = Some B \<Longrightarrow> s \<in> B) \<Longrightarrow> s \<in> S"
proof (induction cs arbitrary: acc)
  case (Cons c cs)
  show ?case
    by (rule Cons.IH [OF Cons.prems(1) [simplified]])
      (use Cons.prems(2,3) in \<open>auto split: option.splits\<close>)
qed simp

lemma candidates_complete:
  assumes "indexes_hold ix P" "homogeneous ix P" "candidates ix f = Some S" "filter_matches f (P s)"
  shows "s \<in> S"
proof (rule candidates_mem [OF assms(3) [unfolded candidates_def]])
  fix c B assume "c \<in> set (must f)" and B: "index_answer ix c = Some B"
  then have "condition_matches c (P s)" using assms(4) by (cases f) simp
  then show "s \<in> B" by (rule index_answer_complete [OF assms(1,2) B])
qed simp

subsection \<open>Sealed postings\<close>

lemma sorted_postings_keys: "map fst (sorted_postings ord con m) = map con (map fst (sort_key (\<lambda>e. ord (fst e)) m))"
  by (simp add: sorted_postings_def comp_def)

lemma sorted_postings_strict:
  assumes d: "distinct (map fst m)" and inj: "inj ord"
  shows "sorted_wrt (\<lambda>a b. ord a < ord b) (map fst (sort_key (\<lambda>e. ord (fst e)) m))"
proof -
  let ?xs = "map fst (sort_key (\<lambda>e. ord (fst e)) m)"
  have e: "map ord ?xs = map (\<lambda>e. ord (fst e)) (sort_key (\<lambda>e. ord (fst e)) m)" by simp
  have "sorted (map ord ?xs)" unfolding e by (rule sorted_sort_key)
  moreover have "distinct ?xs" using d by (simp add: distinct_map)
  then have "distinct (map ord ?xs)" using inj by (simp add: distinct_map inj_on_def inj_def)
  ultimately have "sorted_wrt (<) (map ord ?xs)" using strict_sorted_iff by blast
  then show ?thesis by (simp only: sorted_wrt_map)
qed

text \<open>The order sealed values are written in.\<close>

fun posting_less :: "posting_value \<Rightarrow> posting_value \<Rightarrow> bool" where
  "posting_less (PKeyword a) (PKeyword b) \<longleftrightarrow> a < b"
| "posting_less (PInteger a) (PInteger b) \<longleftrightarrow> sint a < sint b"
| "posting_less (PFloat a) (PFloat b) \<longleftrightarrow> f64_total_key a < f64_total_key b"
| "posting_less _ _ \<longleftrightarrow> False"

fun posting_slots :: "posting_value \<Rightarrow> (u64 \<Rightarrow> json option) \<Rightarrow> slots" where
  "posting_slots (PKeyword a) T = {s. Option.bind (T s) as_str = Some a}"
| "posting_slots (PInteger a) T = {s. Option.bind (T s) as_i64 = Some a}"
| "posting_slots (PFloat a) T = {s. Option.bind (T s) as_f64 = Some a}"

lemma postings_of_index:
  assumes h: "key_index_holds idx T"
    and p: "ps = (case idx of KeywordIx m \<Rightarrow> sorted_postings (\<lambda>s. s) PKeyword m
       | IntegerIx m \<Rightarrow> sorted_postings sint PInteger m | FloatIx m \<Rightarrow> sorted_postings f64_total_key PFloat m)"
  shows "sorted_wrt posting_less (map fst ps)" "\<forall>(v, ss)\<in>set ps. ss = sorted_list_of_set (posting_slots v T)"
proof -
  have i: "inj (\<lambda>s::string. s)" "inj (sint :: i64 \<Rightarrow> int)" "inj f64_total_key"
    by (auto simp: inj_def total_key_inject64 intro: word_eq_iff_signed [THEN iffD2])
  show "sorted_wrt posting_less (map fst ps)"
    using h p sorted_postings_strict [OF _ i(1)] sorted_postings_strict [OF _ i(2)] sorted_postings_strict [OF _ i(3)]
    by (cases idx) (auto simp: entry_holds_def sorted_postings_keys sorted_wrt_map comp_def)
  show "\<forall>(v, ss)\<in>set ps. ss = sorted_list_of_set (posting_slots v T)"
    using h p
    by (cases idx) (auto simp: entry_holds_def sorted_postings_def entry_get_def fun_eq_iff split: option.splits)
qed

subsection \<open>Properties\<close>

text \<open>
  C9. The payload indexes are maintained exactly (FLT-020): new indexes hold nothing; if they hold the payloads \<open>P\<close> of the
  live slots, then inserting a fresh slot with its payload and removing a slot with the payload it was stored with leave
  them holding the updated payloads, for every payload (missing, not an object, of another type) and every declared key.
\<close>

theorem indexes_maintained:
  assumes "indexes_hold ix P" and "P slot = None"
  shows "indexes_hold (indexes_new declared) (\<lambda>s. None)
    \<and> indexes_hold (indexes_insert ix slot payload) (P(slot := payload))
    \<and> indexes_hold (indexes_remove ix other (P other)) (P(other := None))"
  using assms indexes_new_holds indexes_insert_holds indexes_remove_holds by blast

definition lang_year :: payload_indexes where
  "lang_year = indexes_new [(''lang'', Keyword), (''year'', IntegerKind)]"

definition en_2024 :: json where
  "en_2024 = JObj [(''lang'', JStr ''en''), (''year'', JNum (PosInt 2024))]"

definition only_slot_0 :: "u64 \<Rightarrow> json option" where
  "only_slot_0 = (\<lambda>s. None)(0 := Some en_2024)"

lemma indexed_slot_0: "indexes_hold (indexes_insert lang_year 0 (Some en_2024)) only_slot_0"
  unfolding lang_year_def only_slot_0_def by (rule indexes_insert_holds [OF indexes_new_holds]) simp

theorem indexes_maintained_witness:
  "indexes_hold (indexes_new []) (\<lambda>s. None)
   \<and> indexes_hold (indexes_insert lang_year 0 (Some en_2024)) ((\<lambda>s. None)(0 := Some en_2024))
   \<and> indexes_hold (indexes_remove lang_year 1 ((\<lambda>s. None) (1 :: u64))) ((\<lambda>s. None)(1 := None))"
  using indexes_maintained [of lang_year "\<lambda>s. None" 0 "[]" "Some en_2024" 1] indexes_new_holds
  unfolding lang_year_def by blast


definition year_2024 :: filter where
  "year_2024 = Filter [CEq ''year'' (MInteger 2024)] [] []"


definition stored_at_0 :: "payload_index_kind \<Rightarrow> jnum \<Rightarrow> payload_indexes" where
  "stored_at_0 kind n = indexes_insert (indexes_new [(''k'', kind)]) 0 (Some (JObj [(''k'', JNum n)]))"

definition matched_not_candidate :: "payload_index_kind \<Rightarrow> jnum \<Rightarrow> i64 \<Rightarrow> bool" where
  "matched_not_candidate kind n i \<longleftrightarrow>
     (let f = Filter [CEq ''k'' (MInteger i)] [] []
      in filter_matches f (Some (JObj [(''k'', JNum n)])) \<and> candidates (stored_at_0 kind n) f = Some {})"

text \<open>
  Outside those values the superset promise fails: an integer index does not know a point stored with 2024.0, a float
  index looks 0 up under the bits of +0.0 and misses -0.0, and an integer index misses \<open>2 ^ 53 + 1\<close> for the query
  \<open>2 ^ 53\<close>. In each case the full filter matches the point, so an indexed search drops a point the scan returns.
\<close>

theorem index_loses_matches:
  "matched_not_candidate IntegerKind (Flt 0x409FA00000000000) 2024
   \<and> matched_not_candidate FloatKind (Flt 0x8000000000000000) 0
   \<and> matched_not_candidate IntegerKind (PosInt 9007199254740993) 9007199254740992"
  by (intro conjI) code_simp+

text \<open>The postings sealed for a key list the values in strictly ascending order (strings by bytes, integers by value,
  floats by \<open>total_cmp\<close>), and with each value exactly the slots that hold it, ascending.
\<close>

theorem postings_sealed_in_order:
  assumes "indexes_hold ix P" and "postings ix key = Some ps"
  shows "sorted_wrt posting_less (map fst ps)
    \<and> list_all (\<lambda>(v, ss). ss = sorted_list_of_set (posting_slots v (\<lambda>s. payload_lookup (P s) key))) ps"
proof -
  obtain idx where i: "map_of ix key = Some idx" using assms(2) by (auto simp: postings_def split: option.splits)
  have h: "key_index_holds idx (\<lambda>s. payload_lookup (P s) key)"
    using assms(1) map_of_SomeD [OF i] by (auto simp: indexes_hold_def)
  show ?thesis
    using postings_of_index [OF h] assms(2) i by (auto simp: postings_def list_all_iff split: key_index.splits)
qed

lemma postings_sealed_in_order_witness:
  "sorted_wrt posting_less (map fst [(PInteger 2024, [0 :: u64])])
    \<and> list_all (\<lambda>(v, ss). ss = sorted_list_of_set
         (posting_slots v (\<lambda>s. payload_lookup (only_slot_0 s) ''year''))) [(PInteger 2024, [0])]"
  by (rule postings_sealed_in_order [OF indexed_slot_0]) code_simp

end
