(* ===== verification/Chunks.thy ===== *)
theory Chunks
  imports Points
begin

section \<open>The text chunker (\<open>chunk.rs\<close>)\<close>

text \<open>
  A text is its UTF-8 bytes. Slicing a \<open>str\<close> at a position that is not a character boundary, and an addition that
  does not fit \<open>usize\<close> (which wraps in a release build and then slices backwards), are panics: \<open>None\<close>.
\<close>

record chunk_options =
  cko_max_chars :: nat
  cko_overlap :: nat

definition chunk_options_default :: chunk_options where
  "chunk_options_default = \<lparr>cko_max_chars = 2048, cko_overlap = 128\<rparr>"

record chunk =
  ck_text :: bytes
  ck_start :: nat
  ck_end :: nat

subsection \<open>The string operations used\<close>

definition char_boundary :: "bytes \<Rightarrow> nat \<Rightarrow> bool" where
  "char_boundary text i \<longleftrightarrow> i = 0 \<or> i = length text \<or> (i < length text \<and> \<not> utf8_cont (text ! i))"

definition str_slice :: "bytes \<Rightarrow> nat \<Rightarrow> nat \<Rightarrow> bytes option" where
  "str_slice text i j =
     (if i \<le> j \<and> j \<le> length text \<and> char_boundary text i \<and> char_boundary text j
      then Some (take (j - i) (drop i text)) else None)"

definition char_at :: "bytes \<Rightarrow> nat \<Rightarrow> bytes \<Rightarrow> bool" where
  "char_at s p w \<longleftrightarrow> take (length w) (drop p s) = w"

definition break_at :: "bytes \<Rightarrow> nat \<Rightarrow> bool" where
  "break_at s p \<longleftrightarrow> (\<exists>w\<in>set (white_space @ [[0x2E], [0x21], [0x3F]]). char_at s p w)"

definition rfind_break :: "bytes \<Rightarrow> nat option" where
  "rfind_break s = find (break_at s) (rev [0..<length s])"

definition leading_space :: "bytes \<Rightarrow> bytes option" where
  "leading_space s = find (char_at s 0) white_space"

definition trailing_space :: "bytes \<Rightarrow> bytes option" where
  "trailing_space s = find (\<lambda>w. length w \<le> length s \<and> char_at s (length s - length w) w) white_space"

lemma white_space_nonempty: "w \<in> set white_space \<Longrightarrow> w \<noteq> []"
  by (auto simp: white_space_def)

lemma leading_space_shorter: "leading_space s = Some w \<Longrightarrow> 0 < length w \<and> length w \<le> length s"
proof -
  assume "leading_space s = Some w"
  then have w: "w \<in> set white_space" "take (length w) s = w"
    by (auto simp: leading_space_def char_at_def find_Some_iff)
  then show ?thesis using white_space_nonempty length_take [of "length w" s] by fastforce
qed

lemma trailing_space_shorter: "trailing_space s = Some w \<Longrightarrow> 0 < length w \<and> length w \<le> length s"
proof -
  assume "trailing_space s = Some w"
  then have "w \<in> set white_space" "length w \<le> length s"
    by (auto simp: trailing_space_def find_Some_iff)
  then show ?thesis using white_space_nonempty by fastforce
qed

lemma space_less:
  "leading_space s = Some w \<Longrightarrow> length s - length w < length s"
  "trailing_space s = Some w \<Longrightarrow> length s - length w < length s"
  using leading_space_shorter [of s w] trailing_space_shorter [of s w] by linarith+

function trim_start :: "bytes \<Rightarrow> bytes" where
  "trim_start s = (case leading_space s of None \<Rightarrow> s | Some w \<Rightarrow> trim_start (drop (length w) s))"
  by pat_completeness auto
termination
  by (relation "measure length") (simp_all add: space_less)

function trim_end :: "bytes \<Rightarrow> bytes" where
  "trim_end s = (case trailing_space s of None \<Rightarrow> s | Some w \<Rightarrow> trim_end (take (length s - length w) s))"
  by pat_completeness auto
termination
  by (relation "measure length") (simp_all add: space_less)

declare trim_start.simps [simp del] trim_end.simps [simp del]

definition str_trim :: "bytes \<Rightarrow> bytes" where
  "str_trim s = trim_end (trim_start s)"

subsection \<open>The splitter\<close>

fun back_boundary :: "bytes \<Rightarrow> nat \<Rightarrow> nat \<Rightarrow> nat" where
  "back_boundary text start 0 = 0"
| "back_boundary text start (Suc stop) =
     (if Suc stop > start \<and> \<not> char_boundary text (Suc stop) then back_boundary text start stop else Suc stop)"

function next_boundary :: "bytes \<Rightarrow> nat \<Rightarrow> nat" where
  "next_boundary text next =
     (if next < length text \<and> \<not> char_boundary text next then next_boundary text (Suc next) else next)"
  by pat_completeness auto
termination
  by (relation "measure (\<lambda>(text, next). length text - next)") auto

declare next_boundary.simps [simp del]

definition break_point :: "bytes \<Rightarrow> nat \<Rightarrow> nat \<Rightarrow> nat option" where
  "break_point text start stop =
     map_option (\<lambda>s. case rfind_break s of
         None \<Rightarrow> stop
       | Some pos \<Rightarrow> back_boundary text start (start + pos + 1)) (str_slice text start stop)"

definition window_end :: "bytes \<Rightarrow> nat \<Rightarrow> nat \<Rightarrow> nat option" where
  "window_end text mx start =
     (if 2 ^ 64 \<le> int start + int mx then None
      else
        let stop = min (start + mx) (length text)
        in if stop < length text then break_point text start (back_boundary text start stop) else Some stop)"

definition window_chunk :: "nat \<Rightarrow> bytes \<Rightarrow> chunk list" where
  "window_chunk start raw =
     (let lead = length raw - length (trim_start raw); trimmed = str_trim raw
      in if trimmed = [] then []
         else [\<lparr>ck_text = trimmed, ck_start = start + lead, ck_end = start + lead + length trimmed\<rparr>])"

definition next_start :: "bytes \<Rightarrow> nat \<Rightarrow> nat \<Rightarrow> nat \<Rightarrow> nat" where
  "next_start text overlap start stop =
     (let next = (if stop \<ge> overlap then stop - overlap else stop)
      in next_boundary text (if next \<le> start then stop else next))"

function chunk_from :: "bytes \<Rightarrow> nat \<Rightarrow> nat \<Rightarrow> nat \<Rightarrow> chunk list option" where
  "chunk_from text mx overlap start =
     (if start < length text then
        (case window_end text mx start of
           None \<Rightarrow> None
         | Some stop \<Rightarrow>
             (case str_slice text start stop of
                None \<Rightarrow> None
              | Some raw \<Rightarrow>
                  if next_start text overlap start stop \<le> start then Some (window_chunk start raw)
                  else map_option (\<lambda>rest. window_chunk start raw @ rest)
                         (chunk_from text mx overlap (next_start text overlap start stop))))
      else Some [])"
  by pat_completeness auto
termination
  by (relation "measure (\<lambda>(text, mx, overlap, start). length text - start)") auto

declare chunk_from.simps [simp del]

definition chunk_text :: "chunk_options \<Rightarrow> bytes \<Rightarrow> chunk list option" where
  "chunk_text opts text =
     (let mx = max (cko_max_chars opts) 1; overlap = min (cko_overlap opts) (mx - 1)
      in chunk_from text mx overlap 0)"

subsection \<open>Character boundaries of valid text\<close>

definition utf8_char :: "bytes \<Rightarrow> bool" where
  "utf8_char c \<longleftrightarrow> c \<noteq> [] \<and> length c \<le> 4 \<and> \<not> utf8_cont (hd c) \<and> (\<forall>y\<in>set (tl c). utf8_cont y)"

lemma utf8_first_char:
  assumes v: "utf8_valid s" and ne: "s \<noteq> []"
  obtains c r where "s = c @ r" "utf8_char c" "utf8_valid r"
proof -
  obtain x xs where s: "s = x # xs" using ne by (cases s) auto
  have lead: "\<not> utf8_cont x" if "x \<le> 0x7f \<or> 0xc2 \<le> x"
    using that by (auto simp: utf8_cont_def word_le_nat_alt)
  consider (one) "x \<le> 0x7f" "utf8_valid xs"
    | (two) a r where "0xc2 \<le> x" "xs = a # r" "utf8_cont a" "utf8_valid r"
    | (three) a b r where "0xc2 \<le> x" "xs = a # b # r" "utf8_cont a" "utf8_cont b" "utf8_valid r"
    | (four) a b d r where "0xc2 \<le> x" "xs = a # b # d # r" "utf8_cont a" "utf8_cont b" "utf8_cont d" "utf8_valid r"
    using v unfolding s
    by (auto simp: utf8_cont_def word_le_nat_alt split: if_splits list.splits)
  then show thesis
  proof cases
    case one
    then show thesis using that [of "[x]" xs] lead s by (simp add: utf8_char_def)
  next
    case two
    then show thesis using that [of "[x, a]" r] lead s by (simp add: utf8_char_def)
  next
    case three
    then show thesis using that [of "[x, a, b]" r] lead s by (simp add: utf8_char_def)
  next
    case four
    then show thesis using that [of "[x, a, b, d]" r] lead s by (simp add: utf8_char_def)
  qed
qed

lemma utf8_induct [consumes 1, case_names empty char]:
  assumes "utf8_valid s" and "P []"
    and "\<And>c r. utf8_char c \<Longrightarrow> utf8_valid r \<Longrightarrow> utf8_valid (c @ r) \<Longrightarrow> P r \<Longrightarrow> P (c @ r)"
  shows "P s"
  using assms(1)
proof (induction s rule: length_induct)
  case (1 s)
  show ?case
  proof (cases "s = []")
    case False
    then obtain c r where "s = c @ r" "utf8_char c" "utf8_valid r" using utf8_first_char 1 by blast
    then show ?thesis using 1 assms(3) by (auto simp: utf8_char_def)
  qed (simp add: assms(2))
qed

lemma boundary_append:
  assumes c: "utf8_char c" and r: "utf8_valid r"
  shows "char_boundary (c @ r) i \<longleftrightarrow> i = 0 \<or> (length c \<le> i \<and> char_boundary r (i - length c))"
proof -
  have tl: "utf8_cont (c ! i)" if "0 < i" "i < length c" for i
    using c that nth_mem [of "i - 1" "tl c"] by (simp add: utf8_char_def nth_tl)
  have hd: "\<not> utf8_cont (r ! 0)" if "r \<noteq> []"
    using utf8_first_char [OF r that] that by (metis hd_append2 hd_conv_nth utf8_char_def)
  show ?thesis
    using tl [of i] hd c by (cases "i < length c") (auto simp: char_boundary_def nth_append utf8_char_def)
qed

lemma boundary_near: "utf8_valid s \<Longrightarrow> i \<le> length s \<Longrightarrow> \<exists>j\<le>i. i \<le> j + 3 \<and> char_boundary s j"
proof (induction s arbitrary: i rule: utf8_induct)
  case (char c r)
  show ?case
  proof (cases "i < length c")
    case True
    then show ?thesis using char(1) by (intro exI [of _ 0]) (simp add: utf8_char_def char_boundary_def)
  next
    case False
    then have "i - length c \<le> length r" using char(5) by simp
    then obtain j where "j \<le> i - length c" "i - length c \<le> j + 3" "char_boundary r j"
      using char(4) by blast
    moreover have "length c \<le> i" using False by simp
    ultimately show ?thesis
      by (intro exI [of _ "length c + j"] conjI) (simp_all add: boundary_append [OF char(1,2)] le_diff_conv2)
  qed
qed (simp add: char_boundary_def)

lemma valid_drop: "utf8_valid s \<Longrightarrow> char_boundary s i \<Longrightarrow> utf8_valid (drop i s)"
proof (induction s arbitrary: i rule: utf8_induct)
  case (char c r)
  then show ?case by (cases "i = 0") (auto simp: boundary_append)
qed simp

lemma boundary_drop: "char_boundary s i \<Longrightarrow> i \<le> length s \<Longrightarrow> char_boundary s (i + j) \<longleftrightarrow> j = 0 \<or> char_boundary (drop i s) j"
  by (auto simp: char_boundary_def)

text \<open>A white space character at a boundary is followed by one.\<close>

lemma white_space_char: "w \<in> set (white_space @ [[0x2E], [0x21], [0x3F]]) \<Longrightarrow> utf8_char w"
  by (auto simp: white_space_def utf8_char_def utf8_cont_def)

lemma white_space_rest: "w \<in> set (white_space @ [[0x2E], [0x21], [0x3F]]) \<Longrightarrow> utf8_valid (w @ r) \<Longrightarrow> utf8_valid r"
  by (auto simp: white_space_def)

lemma char_at_append: "char_at s p w \<Longrightarrow> \<exists>r. drop p s = w @ r"
  unfolding char_at_def by (metis append_take_drop_id)

lemma char_at_boundary:
  assumes v: "utf8_valid s" and w: "w \<in> set (white_space @ [[0x2E], [0x21], [0x3F]])" and at: "char_at s p w"
  shows "char_boundary s p" "char_boundary s (p + length w)" "p + length w \<le> length s"
proof -
  obtain r where r: "drop p s = w @ r" using char_at_append [OF at] by blast
  have c: "utf8_char w" using white_space_char [OF w] .
  then have ne: "w \<noteq> []" by (simp add: utf8_char_def)
  then have p: "p < length s" using r by (metis append_is_Nil_conv drop_all not_le)
  then have "s ! p = hd w" using r ne by (metis hd_append2 hd_drop_conv_nth)
  then show b: "char_boundary s p" using p c by (simp add: char_boundary_def utf8_char_def)
  have l: "length s - p = length w + length r" using r by (metis length_append length_drop)
  then show "p + length w \<le> length s" using p by simp
  have "utf8_valid (w @ r)" using valid_drop [OF v b] r by simp
  then have "utf8_valid r" using white_space_rest [OF w] by blast
  then have "char_boundary (w @ r) (length w)"
    by (simp only: boundary_append [OF c]) (simp add: char_boundary_def)
  then show "char_boundary s (p + length w)" using boundary_drop [OF b, of "length w"] p r by simp
qed

subsection \<open>Trimming\<close>

definition spaces :: "bytes \<Rightarrow> bool" where
  "spaces a \<longleftrightarrow> (\<exists>ws. set ws \<subseteq> set white_space \<and> a = concat ws)"

lemma spaces_Nil [simp]: "spaces []"
  unfolding spaces_def by (intro exI [of _ "[]"]) simp

lemma spaces_append: "spaces a \<Longrightarrow> spaces b \<Longrightarrow> spaces (a @ b)"
  unfolding spaces_def by (metis concat_append le_sup_iff set_append)

lemma spaces_single: "w \<in> set white_space \<Longrightarrow> spaces w"
  unfolding spaces_def by (intro exI [of _ "[w]"]) simp

lemma trim_start_spaces: "\<exists>a. s = a @ trim_start s \<and> spaces a \<and> leading_space (trim_start s) = None"
proof (induction s rule: trim_start.induct)
  case (1 s)
  show ?case
  proof (cases "leading_space s")
    case None
    then show ?thesis by (intro exI [of _ "[]"]) (simp add: trim_start.simps [of s])
  next
    case (Some w)
    then obtain a where a: "drop (length w) s = a @ trim_start (drop (length w) s)" "spaces a"
      "leading_space (trim_start (drop (length w) s)) = None" using 1 by blast
    have w: "w \<in> set white_space" "take (length w) s = w"
      using Some by (auto simp: leading_space_def char_at_def find_Some_iff)
    have "s = w @ drop (length w) s" using w(2) by (metis append_take_drop_id)
    then have "s = (w @ a) @ trim_start (drop (length w) s)" using a(1) by simp
    then show ?thesis using a(2,3) spaces_append [OF spaces_single [OF w(1)] a(2)] Some
      by (intro exI [of _ "w @ a"]) (simp add: trim_start.simps [of s])
  qed
qed

lemma trim_end_spaces: "\<exists>a. s = trim_end s @ a \<and> spaces a \<and> trailing_space (trim_end s) = None"
proof (induction s rule: trim_end.induct)
  case (1 s)
  show ?case
  proof (cases "trailing_space s")
    case None
    then show ?thesis by (intro exI [of _ "[]"]) (simp add: trim_end.simps [of s])
  next
    case (Some w)
    let ?t = "take (length s - length w) s"
    obtain a where a: "?t = trim_end ?t @ a" "spaces a" "trailing_space (trim_end ?t) = None" using 1 Some by blast
    have w: "w \<in> set white_space" "length w \<le> length s" "drop (length s - length w) s = w"
      using Some by (auto simp: trailing_space_def char_at_def find_Some_iff)
    have "s = ?t @ w" using w(3) by (metis append_take_drop_id)
    then have "s = trim_end ?t @ (a @ w)" using a(1) by (metis append_assoc)
    then show ?thesis using a(3) spaces_append [OF a(2) spaces_single [OF w(1)]] Some
      by (intro exI [of _ "a @ w"]) (simp add: trim_end.simps [of s])
  qed
qed

lemma trim_parts:
  obtains a b where "s = a @ str_trim s @ b" "length a = length s - length (trim_start s)" "spaces a" "spaces b"
proof -
  obtain a where a: "s = a @ trim_start s" "spaces a" using trim_start_spaces by blast
  obtain b where b: "trim_start s = str_trim s @ b" "spaces b" unfolding str_trim_def using trim_end_spaces by blast
  have "length a = length s - length (trim_start s)" using a(1) by (metis add_diff_cancel_right' length_append)
  moreover have "s = a @ str_trim s @ b" using a(1) b(1) by metis
  ultimately show thesis using that a(2) b(2) by blast
qed

lemma concat_char_at:
  "text = x @ concat ws @ y \<Longrightarrow> length x \<le> i \<Longrightarrow> i < length x + length (concat ws)
   \<Longrightarrow> \<exists>w\<in>set ws. \<exists>p. char_at text p w \<and> p \<le> i \<and> i < p + length w"
proof (induction ws arbitrary: x)
  case (Cons w ws)
  show ?case
  proof (cases "i < length x + length w")
    case True
    then show ?thesis using Cons.prems by (intro bexI [of _ w] exI [of _ "length x"]) (simp_all add: char_at_def)
  next
    case False
    have "text = (x @ w) @ concat ws @ y" using Cons.prems(1) by simp
    then have "\<exists>w\<in>set ws. \<exists>p. char_at text p w \<and> p \<le> i \<and> i < p + length w"
      by (rule Cons.IH) (use False Cons.prems in simp_all)
    then show ?thesis by auto
  qed
qed simp

text \<open>Position \<open>i\<close> of the text belongs to a white space character.\<close>

definition in_space :: "bytes \<Rightarrow> nat \<Rightarrow> bool" where
  "in_space text i \<longleftrightarrow> (\<exists>w\<in>set white_space. \<exists>p. char_at text p w \<and> p \<le> i \<and> i < p + length w)"

lemma spaces_in_space:
  "text = x @ a @ y \<Longrightarrow> spaces a \<Longrightarrow> length x \<le> i \<Longrightarrow> i < length x + length a \<Longrightarrow> in_space text i"
  unfolding spaces_def in_space_def using concat_char_at by blast

subsection \<open>Windows\<close>

lemma back_boundary_range: "start \<le> stop \<Longrightarrow> start \<le> back_boundary text start stop \<and> back_boundary text start stop \<le> stop"
  by (induction "text" start stop rule: back_boundary.induct) auto

lemma back_boundary_at: "start \<le> stop \<Longrightarrow> char_boundary text start \<Longrightarrow> char_boundary text (back_boundary text start stop)"
  by (induction "text" start stop rule: back_boundary.induct) (auto simp: char_boundary_def)

lemma back_boundary_last:
  "start \<le> j \<Longrightarrow> j \<le> stop \<Longrightarrow> char_boundary text j \<Longrightarrow> j \<le> back_boundary text start stop"
  by (induction "text" start stop rule: back_boundary.induct) (auto simp: le_Suc_eq)

lemma next_boundary_facts:
  "nx \<le> stop \<Longrightarrow> stop \<le> length text \<Longrightarrow> char_boundary text stop \<Longrightarrow>
     nx \<le> next_boundary text nx \<and> next_boundary text nx \<le> stop \<and> char_boundary text (next_boundary text nx)"
proof (induction "text" nx rule: next_boundary.induct)
  case (1 tx nx)
  show ?case
  proof (cases "nx < length tx \<and> \<not> char_boundary tx nx")
    case True
    then have "Suc nx \<le> stop" using 1(2,4) by (metis Suc_leI le_neq_implies_less)
    then show ?thesis using 1 True by (simp add: next_boundary.simps [of tx nx])
  next
    case False
    then have "char_boundary tx nx" using 1(2,3) by (auto simp: char_boundary_def)
    then show ?thesis using False 1(2) by (simp add: next_boundary.simps [of tx nx])
  qed
qed

lemma rfind_break_at: "rfind_break s = Some pos \<Longrightarrow> pos < length s \<and> break_at s pos"
  by (auto simp: rfind_break_def find_Some_iff rev_nth)

lemma char_at_slice:
  "char_at (take n (drop start text)) pos w \<Longrightarrow> char_at text (start + pos) w"
proof -
  assume at: "char_at (take n (drop start text)) pos w"
  let ?y = "drop (start + pos) text"
  have w: "take (min (length w) (n - pos)) ?y = w"
    using at by (simp add: char_at_def drop_take min.commute add.commute)
  then have "length w \<le> min (length w) (n - pos)" by (metis length_take min.cobounded2 min.commute)
  then have "min (length w) (n - pos) = length w" by simp
  then show ?thesis using w by (simp add: char_at_def)
qed

text \<open>A window of valid text from a boundary ends at a boundary inside it.\<close>

lemma window_end_ok:
  assumes v: "utf8_valid text" and s: "start < length text" "char_boundary text start"
    and no: "length text + mx < 2 ^ 64"
  shows "\<exists>stop. window_end text mx start = Some stop \<and> start \<le> stop \<and> stop \<le> start + mx
    \<and> stop \<le> length text \<and> char_boundary text stop"
proof (cases "min (start + mx) (length text) < length text")
  case True
  then have in_text: "start + mx < length text" by (simp add: min_less_iff_disj)
  let ?e = "back_boundary text start (start + mx)"
  have e: "start \<le> ?e" "?e \<le> start + mx" "char_boundary text ?e"
    using back_boundary_range [of start "start + mx" "text"] back_boundary_at [OF _ s(2), of "start + mx"] by auto
  have sl: "str_slice text start ?e = Some (take (?e - start) (drop start text))"
    using e s True by (simp add: str_slice_def)
  have w: "window_end text mx start = break_point text start ?e"
    using no in_text by (simp add: window_end_def Let_def)
  show ?thesis
  proof (cases "rfind_break (take (?e - start) (drop start text))")
    case None
    then show ?thesis using e s True by (simp add: w break_point_def sl)
  next
    case (Some pos)
    let ?b = "back_boundary text start (start + pos + 1)"
    have "pos < ?e - start" using rfind_break_at [OF Some] by simp
    then have "?b \<le> ?e" "start \<le> ?b"
      using back_boundary_range [of start "start + pos + 1" "text"] by linarith+
    moreover have "char_boundary text ?b" using back_boundary_at [OF _ s(2), of "start + pos + 1"] by simp
    ultimately show ?thesis using e s True Some by (simp add: w break_point_def sl)
  qed
next
  case False
  then show ?thesis using no s by (simp add: window_end_def Let_def char_boundary_def)
qed

text \<open>A full window ends behind its start when no wide white space occurs: the scan never stalls.\<close>

definition no_wide_space :: "bytes \<Rightarrow> bool" where
  "no_wide_space text \<longleftrightarrow> (\<forall>w\<in>set white_space. 1 < length w \<longrightarrow> (\<forall>p. \<not> char_at text p w))"

lemma ascii_no_wide_space: "list_all (\<lambda>x. x < 0x80) text \<Longrightarrow> no_wide_space text"
proof -
  assume a: "list_all (\<lambda>x. x < 0x80) text"
  have "\<not> char_at text p w" if w: "w \<in> set white_space" "1 < length w" for p w
  proof
    assume "char_at text p w"
    then have "set w \<subseteq> set text" unfolding char_at_def by (metis set_drop_subset set_take_subset subset_trans)
    moreover have "\<exists>x\<in>set w. \<not> x < 0x80" using w by (auto simp: white_space_def)
    ultimately show False using a by (auto simp: list_all_iff)
  qed
  then show ?thesis by (simp add: no_wide_space_def)
qed

lemma window_end_progress:
  assumes v: "utf8_valid text" and s: "start < length text" "char_boundary text start"
    and mx: "4 \<le> mx" and wide: "no_wide_space text" and stop: "window_end text mx start = Some stop"
  shows "start < stop"
proof (cases "min (start + mx) (length text) < length text")
  case True
  then have in_text: "start + mx < length text" by (simp add: min_less_iff_disj)
  let ?e = "back_boundary text start (start + mx)"
  obtain j where j: "j \<le> start + mx" "start + mx \<le> j + 3" "char_boundary text j"
    using boundary_near [OF v, of "start + mx"] in_text by auto
  have "j \<le> ?e" using j mx by (intro back_boundary_last) auto
  then have e: "start < ?e" using j mx by linarith
  let ?s = "take (?e - start) (drop start text)"
  have "break_point text start ?e = Some stop"
    using stop in_text by (simp add: window_end_def Let_def split: if_splits)
  then have b: "stop = (case rfind_break ?s of None \<Rightarrow> ?e | Some pos \<Rightarrow> back_boundary text start (start + pos + 1))"
    by (auto simp: break_point_def str_slice_def split: if_splits)
  show ?thesis
  proof (cases "rfind_break ?s")
    case None
    then show ?thesis using b e by simp
  next
    case (Some pos)
    then obtain w where w: "w \<in> set (white_space @ [[0x2E], [0x21], [0x3F]])" "char_at ?s pos w"
      using rfind_break_at unfolding break_at_def by blast
    have at: "char_at text (start + pos) w" using char_at_slice [OF w(2)] .
    have "length w = 1"
      using wide at w(1) white_space_nonempty [of w] unfolding no_wide_space_def
      by (cases "1 < length w") (auto simp: less_Suc_eq_0_disj not_less le_Suc_eq)
    then have "char_boundary text (start + pos + 1)" using char_at_boundary(2) [OF v w(1) at] by simp
    then have "start + pos + 1 \<le> back_boundary text start (start + pos + 1)" by (intro back_boundary_last) auto
    then show ?thesis using b Some by simp
  qed
next
  case False
  then have "min (start + mx) (length text) = length text" by simp
  then show ?thesis using stop s by (simp add: window_end_def Let_def split: if_splits)
qed

lemma next_start_facts:
  assumes "start \<le> stop" "stop \<le> length text" "char_boundary text stop"
  shows "next_start text ov start stop \<le> stop \<and> char_boundary text (next_start text ov start stop)
    \<and> (start < stop \<longrightarrow> start < next_start text ov start stop)"
proof -
  let ?n = "if stop \<ge> ov then stop - ov else stop"
  let ?m = "if ?n \<le> start then stop else ?n"
  have "?m \<le> stop" by simp
  then have "?m \<le> next_boundary text ?m" "next_boundary text ?m \<le> stop" "char_boundary text (next_boundary text ?m)"
    using next_boundary_facts [OF _ assms(2,3)] by blast+
  moreover have "start < stop \<longrightarrow> start < ?m" by simp
  ultimately show ?thesis unfolding next_start_def Let_def by (meson less_le_trans)
qed

subsection \<open>The chunks of a window\<close>

lemma spaces_first:
  assumes v: "utf8_valid text" and t: "text = x @ a @ y" and a: "spaces a" "a \<noteq> []"
  shows "char_boundary text (length x)"
proof -
  obtain ws where ws: "set ws \<subseteq> set white_space" "a = concat ws" using a by (auto simp: spaces_def)
  then obtain w vs where "ws = w # vs" using a by (cases ws) auto
  then have "w \<in> set (white_space @ [[0x2E], [0x21], [0x3F]])" "char_at text (length x) w"
    using ws t by (auto simp: char_at_def)
  then show ?thesis using char_at_boundary(1) [OF v] by blast
qed

lemma spaces_last:
  assumes v: "utf8_valid text" and t: "text = x @ a @ y" and a: "spaces a" "a \<noteq> []"
  shows "char_boundary text (length x + length a)"
proof -
  obtain ws where ws: "set ws \<subseteq> set white_space" "a = concat ws" using a by (auto simp: spaces_def)
  then obtain w vs where e: "ws = vs @ [w]" using a by (cases ws rule: rev_cases) auto
  then have "w \<in> set (white_space @ [[0x2E], [0x21], [0x3F]])" "char_at text (length x + length (concat vs)) w"
    using ws t by (auto simp: char_at_def)
  then show ?thesis using char_at_boundary(2) [OF v] ws e by (fastforce simp: add.assoc)
qed

lemma leading_space_prefix: "leading_space (t @ b) = None \<Longrightarrow> leading_space t = None"
proof -
  assume n: "leading_space (t @ b) = None"
  have "\<not> char_at t 0 w" if "w \<in> set white_space" for w
  proof
    assume "char_at t 0 w"
    then have w: "take (length w) t = w" by (simp add: char_at_def)
    then have "length w \<le> length t" by (metis length_take min.cobounded1)
    then have "char_at (t @ b) 0 w" using w by (simp add: char_at_def)
    then show False using n that by (auto simp: leading_space_def find_None_iff)
  qed
  then show ?thesis by (auto simp: leading_space_def find_None_iff)
qed

definition chunk_ok :: "bytes \<Rightarrow> nat \<Rightarrow> chunk \<Rightarrow> bool" where
  "chunk_ok text mx c \<longleftrightarrow>
     ck_start c < ck_end c \<and> ck_end c \<le> length text
     \<and> str_slice text (ck_start c) (ck_end c) = Some (ck_text c)
     \<and> length (ck_text c) \<le> mx \<and> leading_space (ck_text c) = None \<and> trailing_space (ck_text c) = None"

text \<open>The parts of a window: white space, the chunk, white space.\<close>

lemma window_parts:
  assumes s: "start \<le> stop" "stop \<le> length text" and raw: "raw = take (stop - start) (drop start text)"
  obtains x a b y where "text = x @ a @ str_trim raw @ b @ y" "length x = start" "spaces a" "spaces b"
    "start + (length raw - length (trim_start raw)) = length x + length a"
    "length x + length a + length (str_trim raw) + length b = stop"
proof -
  obtain a b where p: "raw = a @ str_trim raw @ b" "length a = length raw - length (trim_start raw)" "spaces a" "spaces b"
    by (rule trim_parts)
  have "text = take start text @ raw @ drop stop text"
    using s unfolding raw by (metis append_take_drop_id drop_drop le_add_diff_inverse2)
  then have t: "text = take start text @ a @ str_trim raw @ b @ drop stop text" using p(1) by (metis append_assoc)
  have l: "length raw = stop - start" using s raw by simp
  have "length raw = length a + length (str_trim raw) + length b" using p(1) by (metis add.assoc length_append)
  then show thesis using that [OF t _ p(3,4)] p(2) l s by simp
qed

lemma window_chunk_ok:
  assumes v: "utf8_valid text" and s: "start \<le> stop" "stop \<le> length text" "char_boundary text start" "char_boundary text stop"
    and mx: "stop \<le> start + mx" and raw: "raw = take (stop - start) (drop start text)"
  shows "list_all (chunk_ok text mx) (window_chunk start raw)"
proof (cases "str_trim raw = []")
  case False
  obtain x a b y where t: "text = x @ a @ str_trim raw @ b @ y" and x: "length x = start" and sp: "spaces a" "spaces b"
    and l: "start + (length raw - length (trim_start raw)) = length x + length a"
      "length x + length a + length (str_trim raw) + length b = stop"
    using window_parts [OF s(1,2) raw] by metis
  let ?i = "length x + length a" and ?j = "length x + length a + length (str_trim raw)"
  have i: "char_boundary text ?i"
  proof (cases "a = []")
    case False
    then show ?thesis using spaces_last [OF v t sp(1)] by simp
  qed (use s x in simp)
  have j: "char_boundary text ?j"
  proof (cases "b = []")
    case False
    have "text = (x @ a @ str_trim raw) @ b @ y" using t by simp
    then show ?thesis using spaces_first [OF v _ sp(2) False, of "x @ a @ str_trim raw" y] by (simp add: add.assoc)
  qed (use s l in simp)
  have "drop ?i text = str_trim raw @ b @ y" by (subst t) simp
  then have sl: "str_slice text ?i ?j = Some (str_trim raw)"
    using i j l s by (simp add: str_slice_def)
  obtain r where "trim_start raw = str_trim raw @ r" using trim_end_spaces unfolding str_trim_def by metis
  then have "leading_space (str_trim raw) = None"
    using trim_start_spaces [of raw] leading_space_prefix [of "str_trim raw" r] by metis
  moreover have "trailing_space (str_trim raw) = None" unfolding str_trim_def using trim_end_spaces by metis
  ultimately show ?thesis
    using False l s mx sl by (simp add: window_chunk_def Let_def chunk_ok_def x)
qed (simp add: window_chunk_def Let_def)

lemma window_chunk_covers:
  assumes s: "start \<le> stop" "stop \<le> length text" and raw: "raw = take (stop - start) (drop start text)"
    and i: "start \<le> i" "i < stop"
  shows "in_space text i \<or> (\<exists>c\<in>set (window_chunk start raw). ck_start c \<le> i \<and> i < ck_end c)"
proof -
  obtain x a b y where t: "text = x @ a @ str_trim raw @ b @ y" and x: "length x = start" and sp: "spaces a" "spaces b"
    and l: "start + (length raw - length (trim_start raw)) = length x + length a"
      "length x + length a + length (str_trim raw) + length b = stop"
    using window_parts [OF s raw] by metis
  consider "i < length x + length a" | "length x + length a \<le> i" "i < length x + length a + length (str_trim raw)"
    | "length x + length a + length (str_trim raw) \<le> i"
    by linarith
  then show ?thesis
  proof cases
    case 1
    then show ?thesis using spaces_in_space [OF t sp(1)] i x by simp
  next
    case 2
    then have "str_trim raw \<noteq> []" by auto
    then show ?thesis using 2 l by (simp add: window_chunk_def Let_def)
  next
    case 3
    have "text = (x @ a @ str_trim raw) @ b @ y" using t by simp
    then show ?thesis using spaces_in_space [OF _ sp(2), of "text" "x @ a @ str_trim raw" y i] 3 i l by simp
  qed
qed

lemma chunk_from_ok:
  assumes v: "utf8_valid text" and no: "length text + mx < 2 ^ 64"
  shows "char_boundary text start \<Longrightarrow> \<exists>cs. chunk_from text mx ov start = Some cs \<and> list_all (chunk_ok text mx) cs
    \<and> (4 \<le> mx \<and> no_wide_space text \<longrightarrow>
        (\<forall>i. start \<le> i \<and> i < length text \<longrightarrow> in_space text i \<or> (\<exists>c\<in>set cs. ck_start c \<le> i \<and> i < ck_end c)))"
proof (induction "length text - start" arbitrary: start rule: less_induct)
  case less
  show ?case
  proof (cases "start < length text")
    case True
    obtain stop where w: "window_end text mx start = Some stop"
      and stop: "start \<le> stop" "stop \<le> start + mx" "stop \<le> length text" "char_boundary text stop"
      using window_end_ok [OF v True less.prems no] by blast
    define raw where "raw = take (stop - start) (drop start text)"
    have sl: "str_slice text start stop = Some raw" using stop less.prems by (simp add: str_slice_def raw_def)
    note ok = window_chunk_ok [OF v stop(1,3) less.prems stop(4,2) raw_def]
    note covers = window_chunk_covers [OF stop(1,3) raw_def]
    let ?n = "next_start text ov start stop"
    note n = next_start_facts [OF stop(1,3,4), of ov]
    show ?thesis
    proof (cases "?n \<le> start")
      case stall: True
      then have "\<not> (4 \<le> mx \<and> no_wide_space text)"
        using window_end_progress [OF v True less.prems _ _ w] n by linarith
      moreover have "chunk_from text mx ov start = Some (window_chunk start raw)"
        using True w sl stall by (simp add: chunk_from.simps [of "text"])
      ultimately show ?thesis using ok by blast
    next
      case False
      then have "length text - ?n < length text - start" using True by linarith
      then obtain cs where cs: "chunk_from text mx ov ?n = Some cs" "list_all (chunk_ok text mx) cs"
        "4 \<le> mx \<and> no_wide_space text \<longrightarrow>
           (\<forall>i. ?n \<le> i \<and> i < length text \<longrightarrow> in_space text i \<or> (\<exists>c\<in>set cs. ck_start c \<le> i \<and> i < ck_end c))"
        using less.hyps n by blast
      have "chunk_from text mx ov start = Some (window_chunk start raw @ cs)"
        using True w sl False cs(1) by (simp add: chunk_from.simps [of "text" mx ov start])
      moreover have "in_space text i \<or> (\<exists>c\<in>set (window_chunk start raw @ cs). ck_start c \<le> i \<and> i < ck_end c)"
        if "4 \<le> mx \<and> no_wide_space text" "start \<le> i \<and> i < length text" for i
      proof (cases "i < stop")
        case True
        then show ?thesis using covers [of i] that by auto
      next
        case False
        then have "?n \<le> i" using n by linarith
        then show ?thesis using cs(3) that by auto
      qed
      ultimately show ?thesis using ok cs(2) by auto
    qed
  next
    case False
    then show ?thesis by (auto simp: chunk_from.simps [of "text"])
  qed
qed

subsection \<open>Properties\<close>

text \<open>
  C10. The chunker is total and UTF-8 safe (EMB-050): on every valid text whose length fits with the window size into
  \<open>usize\<close> it returns, without a panic, chunks that are non-empty, trimmed, at most \<open>max_chars\<close> bytes, and exactly
  the text between two character boundaries.
\<close>

theorem chunks_sound:
  assumes "utf8_valid text" and "length text + max (cko_max_chars opts) 1 < 2 ^ 64"
  shows "\<exists>cs. chunk_text opts text = Some cs \<and> list_all (chunk_ok text (max (cko_max_chars opts) 1)) cs"
  unfolding chunk_text_def Let_def
  using chunk_from_ok [OF assms, of 0 "min (cko_overlap opts) (max (cko_max_chars opts) 1 - 1)"]
  by (auto simp: char_boundary_def)

theorem chunks_sound_witness:
  "\<exists>cs. chunk_text chunk_options_default [0xC3, 0xA9, 0x20] = Some cs \<and> list_all (chunk_ok [0xC3, 0xA9, 0x20] 2048) cs"
  using chunks_sound [of "[0xC3, 0xA9, 0x20]" chunk_options_default]
  by (simp add: chunk_options_default_def utf8_cont_def)

text \<open>
  Nothing is lost on ordinary text: with windows of at least four bytes and no white space outside the one-byte
  characters, each byte of the text is in a chunk or belongs to a white space character.
\<close>

theorem chunks_cover_text:
  assumes "utf8_valid text" and "length text + cko_max_chars opts < 2 ^ 64" and "4 \<le> cko_max_chars opts"
    and "no_wide_space text" and "chunk_text opts text = Some cs" and "i < length text"
  shows "in_space text i \<or> list_ex (\<lambda>c. ck_start c \<le> i \<and> i < ck_end c) cs"
proof -
  have "max (cko_max_chars opts) 1 = cko_max_chars opts" using assms(3) by simp
  then show ?thesis
    using chunk_from_ok [OF assms(1,2), of 0 "min (cko_overlap opts) (cko_max_chars opts - 1)"] assms(3-6)
    by (auto simp: chunk_text_def char_boundary_def list_ex_iff)
qed

lemma small_text_chunk:
  "chunk_text \<lparr>cko_max_chars = 4, cko_overlap = 1\<rparr> [0x61, 0x62] = Some [\<lparr>ck_text = [0x61, 0x62], ck_start = 0, ck_end = 2\<rparr>,
     \<lparr>ck_text = [0x62], ck_start = 1, ck_end = 2\<rparr>]"
  by code_simp

theorem chunks_cover_text_witness:
  "in_space [0x61, 0x62] 1 \<or> list_ex (\<lambda>c. ck_start c \<le> 1 \<and> 1 < ck_end c)
     [\<lparr>ck_text = [0x61, 0x62], ck_start = 0, ck_end = 2\<rparr>, \<lparr>ck_text = [0x62], ck_start = 1, ck_end = 2\<rparr>]"
  by (rule chunks_cover_text [OF _ _ _ _ small_text_chunk]) (simp_all add: ascii_no_wide_space)

lemma rfind_break_0:
  assumes "s \<noteq> []" "break_at s 0" "\<And>p. 0 < p \<Longrightarrow> p < length s \<Longrightarrow> \<not> break_at s p"
  shows "rfind_break s = Some 0"
proof -
  have nth: "rev [0..<length s] ! j = length s - 1 - j" if "j < length s" for j using that by (simp add: rev_nth)
  have l: "length s - 1 < length s" using assms(1) by (cases s) simp_all
  have z: "rev [0..<length s] ! (length s - 1) = 0" using nth [OF l] by simp
  show ?thesis unfolding rfind_break_def find_Some_iff
  proof (intro exI conjI allI impI)
    show "length s - 1 < length (rev [0..<length s])" using l by simp
    show "break_at s (rev [0..<length s] ! (length s - 1))" using assms(2) by (simp only: z)
    show "0 = rev [0..<length s] ! (length s - 1)" by (simp only: z)
    show "\<not> break_at s (rev [0..<length s] ! j)" if "j < length s - 1" for j
      using that nth [of j] assms(3) [of "length s - 1 - j"] by simp
  qed
qed

lemma break_at_lead: "break_at s p \<Longrightarrow> p < length s \<Longrightarrow>
  s ! p \<noteq> 0x61 \<and> \<not> utf8_cont (s ! p)"
proof -
  assume "break_at s p" and p: "p < length s"
  then obtain w where w: "w \<in> set (white_space @ [[0x2E], [0x21], [0x3F]])" "take (length w) (drop p s) = w"
    unfolding break_at_def char_at_def by blast
  have "w \<noteq> []" using white_space_char [OF w(1)] by (simp add: utf8_char_def)
  then have "s ! p = hd w" using w(2) p by (metis hd_drop_conv_nth hd_take length_greater_0_conv)
  moreover have "hd w \<noteq> 0x61" using w(1) by (auto simp: white_space_def)
  ultimately show ?thesis using white_space_char [OF w(1)] by (simp add: utf8_char_def)
qed

text \<open>
  The chunker loses text: when a window contains no other break than a white space character of more than one byte
  at its very start (an ideographic space U+3000 before a long run of letters), the break is put back in front of that
  character, the window is empty, and the loop ends with everything from there on dropped, whatever the overlap and with
  the default window size too.
\<close>

theorem chunker_drops_text:
  assumes w: "w \<in> set white_space" "1 < length w"
    and mx: "length w \<le> cko_max_chars opts" "cko_max_chars opts < length w + n"
    and fits: "int (cko_max_chars opts) < 2 ^ 64"
  shows "chunk_text opts (w @ replicate n 0x61) = Some []"
proof -
  let ?t = "w @ replicate n (0x61 :: u8)" and ?mx = "cko_max_chars opts"
  have c: "utf8_char w" using white_space_char [of w] w(1) by simp
  have m1: "max ?mx 1 = ?mx" using mx w by simp
  have "?t ! ?mx = 0x61" using mx by (simp add: nth_append)
  then have b: "char_boundary ?t ?mx" using mx by (simp add: char_boundary_def utf8_cont_def)
  then have bb: "back_boundary ?t 0 ?mx = ?mx" by (cases ?mx) simp_all
  let ?s = "take ?mx ?t"
  have sl: "str_slice ?t 0 ?mx = Some ?s" using b mx by (simp add: str_slice_def char_boundary_def)
  have nb: "\<not> break_at ?s p" if p: "0 < p" "p < length ?s" for p
  proof (cases "p < length w")
    case True
    then have "?s ! p = tl w ! (p - 1)" using p mx by (simp add: nth_append nth_tl)
    moreover have "tl w ! (p - 1) \<in> set (tl w)" using True p by simp
    ultimately have "utf8_cont (?s ! p)" using c by (simp add: utf8_char_def)
    then show ?thesis using break_at_lead p by blast
  next
    case False
    moreover have "p < ?mx" "p - length w < n" using False p mx by auto
    ultimately have "?s ! p = 0x61" by (simp add: nth_append)
    then show ?thesis using break_at_lead p by blast
  qed
  have "char_at ?s 0 w" using mx by (simp add: char_at_def)
  then have "break_at ?s 0" using w(1) unfolding break_at_def by (metis UnI1 set_append)
  then have r: "rfind_break ?s = Some 0" using nb w mx by (intro rfind_break_0) auto
  have "?t ! 1 = tl w ! 0" using w by (simp add: nth_append nth_tl)
  moreover have "tl w ! 0 \<in> set (tl w)" using w by (intro nth_mem) simp
  ultimately have "utf8_cont (?t ! 1)" using c by (simp add: utf8_char_def)
  then have "\<not> char_boundary ?t 1" using w by (auto simp: char_boundary_def)
  then have "back_boundary ?t 0 (0 + 0 + 1) = 0" by simp
  then have "window_end ?t ?mx 0 = Some 0"
    using fits mx bb sl r by (simp add: window_end_def Let_def break_point_def)
  moreover have "window_chunk 0 [] = []"
    using trim_start_spaces [of "[]"] trim_end_spaces [of "[]"] by (simp add: window_chunk_def str_trim_def)
  moreover have "next_start ?t ov 0 0 = 0" for ov
    by (simp add: next_start_def next_boundary.simps char_boundary_def)
  ultimately show ?thesis
    using w unfolding chunk_text_def Let_def m1
    by (simp add: chunk_from.simps [of ?t] str_slice_def char_boundary_def)
qed

theorem chunker_drops_text_witness:
  "chunk_text chunk_options_default ([0xE3, 0x80, 0x80] @ replicate 5000 0x61) = Some []"
  by (rule chunker_drops_text) (simp_all add: white_space_def chunk_options_default_def)

text \<open>
  A window size near the largest \<open>usize\<close> panics: the second window computes \<open>start + max_chars\<close>, which overflows.
\<close>

theorem chunker_overflow_panics:
  "chunk_text \<lparr>cko_max_chars = 2 ^ 64 - 1, cko_overlap = 1\<rparr> [0x61, 0x62] = None"
proof -
  have sl: "str_slice [0x61, 0x62] 0 2 = Some [0x61, 0x62]" by code_simp
  have nx: "next_start [0x61, 0x62] (Suc 0) 0 2 = Suc 0" by code_simp
  have w: "window_end [0x61, 0x62] (2 ^ 64 - 1) 0 = Some 2" "window_end [0x61, 0x62] (2 ^ 64 - 1) 1 = None"
    by (simp_all add: window_end_def Let_def of_nat_diff)
  show ?thesis
    using w by (simp add: chunk_text_def Let_def chunk_from.simps sl nx)
qed

end
