(* ===== verification/Hnsw.thy ===== *)
theory Hnsw
  imports Errors Floats Options
begin

section \<open>The graph index (\<open>index/mod.rs\<close>)\<close>

text \<open>
  \<open>hnsw_rs\<close> is a package outside the repository. A graph is what it was built from: the metric, the construction
  parameters and the inserted vectors with their node numbers. Its search is the function \<open>ann\<close>, an argument of the
  definitions that search: it returns node numbers with distances and nothing is assumed of it here. The number of layers,
  which the wrapper derives from the capacity hint, only tunes the package and is not kept.
\<close>

record hnsw_index =
  hx_metric :: metric
  hx_m :: nat
  hx_ef_construction :: nat
  hx_max_elements :: nat
  hx_nodes :: "(nat \<times> f32 list) list"

type_synonym ann = "hnsw_index \<Rightarrow> f32 list \<Rightarrow> nat \<Rightarrow> nat \<Rightarrow> (nat \<times> f32) list"

definition bounds_error :: "string \<Rightarrow> nat \<Rightarrow> nat \<Rightarrow> nat \<Rightarrow> vec_lite_error" where
  "bounds_error what lo hi got =
     InvalidArgument (what @ '' must be in '' @ show_nat lo @ ''..='' @ show_nat hi @ '', got '' @ show_nat got)"

definition hnsw_new :: "metric \<Rightarrow> nat \<Rightarrow> nat \<Rightarrow> nat \<Rightarrow> nat \<Rightarrow> hnsw_index res" where
  "hnsw_new metric dimension m ef_construction capacity =
     (if m < 4 \<or> 64 < m then Inl (bounds_error ''hnsw m'' 4 64 m)
      else if ef_construction < 8 \<or> 2048 < ef_construction
      then Inl (bounds_error ''hnsw ef_construction'' 8 2048 ef_construction)
      else Inr \<lparr>hx_metric = metric, hx_m = m, hx_ef_construction = ef_construction,
                hx_max_elements = max capacity 1, hx_nodes = []\<rparr>)"

definition hnsw_insert :: "f32 list \<Rightarrow> nat \<Rightarrow> hnsw_index \<Rightarrow> hnsw_index" where
  "hnsw_insert vector slot ix = ix\<lparr>hx_nodes := hx_nodes ix @ [(slot, vector)]\<rparr>"

definition hnsw_insert_batch :: "(nat \<times> f32 list) list \<Rightarrow> hnsw_index \<Rightarrow> hnsw_index" where
  "hnsw_insert_batch items ix = ix\<lparr>hx_nodes := hx_nodes ix @ items\<rparr>"

definition hnsw_search :: "ann \<Rightarrow> hnsw_index \<Rightarrow> f32 list \<Rightarrow> nat \<Rightarrow> nat \<Rightarrow> (nat \<times> f32) list res" where
  "hnsw_search ann ix query k ef_search =
     (if ef_search < 1 \<or> 4096 < ef_search then Inl (bounds_error ''hnsw ef_search'' 1 4096 ef_search)
      else Inr (ann ix query k ef_search))"

lemma hnsw_new_nodes: "hnsw_new me dim m ef cap = Inr ix \<Longrightarrow> hx_nodes ix = []"
  by (auto simp: hnsw_new_def split: if_splits)

lemma hnsw_new_Inr:
  "(\<exists>ix. hnsw_new me dim m ef cap = Inr ix) \<longleftrightarrow> 4 \<le> m \<and> m \<le> 64 \<and> 8 \<le> ef \<and> ef \<le> 2048"
  by (auto simp: hnsw_new_def)

lemma hnsw_insert_nodes [simp]:
  "hx_nodes (hnsw_insert v s ix) = hx_nodes ix @ [(s, v)]" "hx_nodes (hnsw_insert_batch items ix) = hx_nodes ix @ items"
  by (simp_all add: hnsw_insert_def hnsw_insert_batch_def)

end
