(* ===== verification/Item_Codecs.thy ===== *)
theory Item_Codecs
  imports Utf8 Le_Bytes
begin

section \<open>Counted sequences of items\<close>

text \<open>
  IDDIR, PIDX and SPARSE bodies share one loop: a little-endian \<open>u32\<close> count, then that many items,
  each read at a moving offset. \<open>dec_many\<close> is the \<open>for _ in 0..n\<close> loop. The locale \<open>item_codec\<close> is the
  contract of one item, \<open>counted_codec\<close> adds the count, and its \<open>sublocale\<close> shows that a counted list of
  items is an item again, which is how the nested bodies get their round trips.
\<close>

fun dec_many :: "(bytes \<Rightarrow> nat \<Rightarrow> ('a \<times> nat) res) \<Rightarrow> nat \<Rightarrow> bytes \<Rightarrow> nat \<Rightarrow> ('a list \<times> nat) res" where
  "dec_many dec 0 b at = Inr ([], at)"
| "dec_many dec (Suc n) b at =
     tryR (dec b at) (\<lambda>(x, at1). tryR (dec_many dec n b at1) (\<lambda>(xs, at2). Inr (x # xs, at2)))"

definition dec_counted ::
  "string \<Rightarrow> (bytes \<Rightarrow> nat \<Rightarrow> ('a \<times> nat) res) \<Rightarrow> bytes \<Rightarrow> nat \<Rightarrow> ('a list \<times> nat) res" where
  "dec_counted ctx dec b at = tryR (le_u32 b at ctx) (\<lambda>n. dec_many dec (unat n) b (at + 4))"

definition enc_counted ::
  "(nat \<Rightarrow> bytes res) \<Rightarrow> ('a \<Rightarrow> bytes res) \<Rightarrow> 'a list \<Rightarrow> bytes res" where
  "enc_counted cnt enc xs = tryR (cnt (length xs)) (\<lambda>c. tryR (mapR enc xs) (\<lambda>bs. Inr (c @ concat bs)))"

text \<open>\<open>u32::try_from(n).map_err(..)\<close> and \<open>n as u32\<close>, written out as four bytes.\<close>

definition u32_len :: "string \<Rightarrow> nat \<Rightarrow> bytes res" where
  "u32_len msg n = (if n < 2 ^ 32 then Inr (to_le 4 (word_of_nat n :: u32)) else Inl (Corrupt msg))"

definition u32_cast :: "nat \<Rightarrow> bytes res" where
  "u32_cast n = Inr (to_le 4 (word_of_nat n :: u32))"

locale item_codec =
  fixes enc :: "'a \<Rightarrow> bytes res"
    and dec :: "bytes \<Rightarrow> nat \<Rightarrow> ('a \<times> nat) res"
    and ok :: "'a \<Rightarrow> bool"
  assumes dec_enc: "ok x \<Longrightarrow> enc x = Inr bs \<Longrightarrow> drop at b = bs @ rest \<Longrightarrow> dec b at = Inr (x, at + length bs)"
    and dec_corrupt: "only_corrupt (dec b at)"
begin

lemma many_enc:
  "list_all ok xs \<Longrightarrow> mapR enc xs = Inr bss \<Longrightarrow> drop at b = concat bss @ rest \<Longrightarrow>
     dec_many dec (length xs) b at = Inr (xs, at + length (concat bss))"
proof (induction xs arbitrary: bss at)
  case Nil
  then show ?case by simp
next
  case (Cons x xs)
  from Cons.prems(2) obtain bs bss' where e: "enc x = Inr bs" "mapR enc xs = Inr bss'" "bss = bs # bss'"
    by (auto simp: tryR_eq_Inr)
  have d: "drop at b = bs @ concat bss' @ rest"
    using Cons.prems(3) e(3) by simp
  have "dec b at = Inr (x, at + length bs)"
    using Cons.prems(1) by (intro dec_enc [OF _ e(1) d]) simp
  moreover have "dec_many dec (length xs) b (at + length bs) = Inr (xs, at + length bs + length (concat bss'))"
    using Cons.prems(1) by (intro Cons.IH [OF _ e(2) drop_add_append [OF d]]) simp
  ultimately show ?case by (simp add: e(3))
qed

lemma many_corrupt: "only_corrupt (dec_many dec n b at)"
  by (induction n arbitrary: at) (auto intro!: only_corrupt_tryR dec_corrupt)

end

locale counted_codec = item_codec +
  fixes ctx :: string
    and cnt :: "nat \<Rightarrow> bytes res"
  assumes cnt_u32: "n < 2 ^ 32 \<Longrightarrow> cnt n = Inr bs \<Longrightarrow> bs = to_le 4 (word_of_nat n :: u32)"
begin

lemma counted_dec_enc:
  assumes ok: "length xs < 2 ^ 32 \<and> list_all ok xs" and e: "enc_counted cnt enc xs = Inr bs"
    and d: "drop at b = bs @ rest"
  shows "dec_counted ctx dec b at = Inr (xs, at + length bs)"
proof -
  from e obtain c bss where c: "cnt (length xs) = Inr c" "mapR enc xs = Inr bss" "bs = c @ concat bss"
    by (auto simp: enc_counted_def tryR_eq_Inr)
  from cnt_u32 [OF _ c(1)] ok have cb: "c = to_le 4 (word_of_nat (length xs) :: u32)" by simp
  have d1: "drop at b = to_le 4 (word_of_nat (length xs) :: u32) @ concat bss @ rest"
    using d by (simp add: c(3) cb)
  have r: "le_u32 b at ctx = Inr (word_of_nat (length xs))"
    by (rule u32f.rd_drop [OF d1]) simp
  have "dec_many dec (length xs) b (at + 4) = Inr (xs, at + 4 + length (concat bss))"
    using ok drop_add_append [OF d1] by (intro many_enc [OF _ c(2)]) simp_all
  with r ok show ?thesis
    by (simp add: dec_counted_def unat_u32 c(3) cb)
qed

lemma counted_corrupt: "only_corrupt (dec_counted ctx dec b at)"
  unfolding dec_counted_def by (intro only_corrupt_tryR le_only_corrupt many_corrupt)

end

sublocale counted_codec \<subseteq> listed: item_codec "enc_counted cnt enc" "dec_counted ctx dec"
  "\<lambda>xs. length xs < 2 ^ 32 \<and> list_all ok xs"
  by unfold_locales (use counted_dec_enc counted_corrupt in auto)

lemma u32_len_law: "n < 2 ^ 32 \<Longrightarrow> u32_len msg n = Inr bs \<Longrightarrow> bs = to_le 4 (word_of_nat n :: u32)"
  by (simp add: u32_len_def)

lemma u32_cast_law: "n < 2 ^ 32 \<Longrightarrow> u32_cast n = Inr bs \<Longrightarrow> bs = to_le 4 (word_of_nat n :: u32)"
  by (simp add: u32_cast_def)

end
