(* ===== verification/Bodies.thy ===== *)
theory Bodies
  imports Instances Item_Codecs Msgpack Options
begin

section \<open>Segment bodies (\<open>storage/body.rs\<close>)\<close>

text \<open>
  CONFIG, TOMBSTONE, PAYLOAD, PIDX, SPARSE, VOCAB and HNSW bodies. The portable serialization of
  \<open>RoaringTreemap\<close> (package \<open>roaring\<close>) is the parameter \<open>roaring\<close>; a bitmap is the set of its slots.
  \<open>f32\<close> weights are bit patterns, as \<open>to_bits\<close> writes them.
\<close>

record roaring =
  ro_ser :: "u64 set \<Rightarrow> bytes option"
  ro_de :: "bytes \<Rightarrow> u64 set option"

definition ro_carries :: "roaring \<Rightarrow> u64 set \<Rightarrow> bool" where
  "ro_carries R s \<longleftrightarrow> (\<exists>b. ro_ser R s = Some b \<and> ro_de R b = Some s)"

subsection \<open>CONFIG\<close>

text \<open>The document itself, \<open>stored_config\<close>, is with the options it projects.\<close>

definition stored_config_encode :: "stored_config msgpack \<Rightarrow> stored_config \<Rightarrow> bytes res" where
  "stored_config_encode M c = ok_or (mp_enc M c) (Corrupt ''config: '')"

definition stored_config_decode :: "stored_config msgpack \<Rightarrow> bytes \<Rightarrow> stored_config res" where
  "stored_config_decode M b = guarded_dec M ''config: '' b"

subsection \<open>TOMBSTONE\<close>

definition encode_tombstone :: "roaring \<Rightarrow> u64 set \<Rightarrow> bytes res" where
  "encode_tombstone R slots = ok_or (ro_ser R slots) (Corrupt ''tombstone: '')"

definition decode_tombstone :: "roaring \<Rightarrow> bytes \<Rightarrow> u64 set res" where
  "decode_tombstone R b = ok_or (ro_de R b) (Corrupt ''tombstone: '')"

subsection \<open>PAYLOAD\<close>

definition payload_entry_encode :: "json msgpack \<Rightarrow> u64 \<times> json \<Rightarrow> bytes res" where
  "payload_entry_encode M e =
     tryR (ok_or (mp_enc M (snd e)) (Corrupt ''payload: '')) (\<lambda>mp.
     if 2 ^ 32 \<le> length mp then Inl (Corrupt ''payload: entry exceeds 4 GiB'')
     else Inr (to_le 8 (fst e) @ to_le 4 (word_of_nat (length mp) :: u32) @ mp))"

definition payload_encode :: "json msgpack \<Rightarrow> (u64 \<times> json) list \<Rightarrow> bytes res" where
  "payload_encode M es = tryR (mapR (payload_entry_encode M) es) (\<lambda>bss. Inr (concat bss))"

function payload_decode_from :: "json msgpack \<Rightarrow> bytes \<Rightarrow> nat \<Rightarrow> (u64 \<times> json) list res" where
  "payload_decode_from M b at =
     (if length b \<le> at then Inr []
      else
        tryR (le_u64 b at ''payload'') (\<lambda>slot.
        tryR (le_u32 b (at + 8) ''payload'') (\<lambda>len.
        tryR (body_slice b (at + 12) (unat len) ''payload'') (\<lambda>bs.
        tryR (guarded_dec M ''payload: '' bs) (\<lambda>value.
        tryR (payload_decode_from M b (at + 12 + unat len)) (\<lambda>es. Inr ((slot, value) # es)))))))"
  by pat_completeness auto
termination
  by (relation "measure (\<lambda>(M, b, at). length b - at)") auto

declare payload_decode_from.simps [simp del]

definition payload_decode :: "json msgpack \<Rightarrow> bytes \<Rightarrow> (u64 \<times> json) list res" where
  "payload_decode M b = payload_decode_from M b 0"

subsection \<open>PIDX\<close>

record payload_index =
  px_kind :: u8
  px_key :: string
  px_postings :: "(bytes \<times> u64 set) list"

definition posting_encode :: "roaring \<Rightarrow> bytes \<times> u64 set \<Rightarrow> bytes res" where
  "posting_encode R p =
     tryR (u32_len ''pidx: value too long'' (length (fst p))) (\<lambda>vl.
     tryR (ok_or (ro_ser R (snd p)) (Corrupt ''pidx: '')) (\<lambda>bm.
     tryR (u32_len ''pidx: bitmap too large'' (length bm)) (\<lambda>bl.
       Inr (vl @ fst p @ bl @ bm))))"

definition pidx_encode :: "roaring \<Rightarrow> payload_index \<Rightarrow> bytes res" where
  "pidx_encode R p =
     (if 2 ^ 16 \<le> length (px_key p) then Inl (Corrupt ''pidx: key exceeds 64 KiB'')
      else
        tryR (enc_counted (u32_len ''pidx: too many postings'') (posting_encode R) (px_postings p)) (\<lambda>ps.
          Inr ([px_kind p] @ to_le 2 (word_of_nat (length (px_key p)) :: u16) @ bytes_of (px_key p) @ ps)))"

definition posting_decode :: "roaring \<Rightarrow> bytes \<Rightarrow> nat \<Rightarrow> ((bytes \<times> u64 set) \<times> nat) res" where
  "posting_decode R b at =
     tryR (le_u32 b at ''pidx'') (\<lambda>vl.
     let at = at + 4
     in tryR (body_slice b at (unat vl) ''pidx'') (\<lambda>value.
     let at = at + unat vl
     in tryR (le_u32 b at ''pidx'') (\<lambda>bl.
     let at = at + 4
     in tryR (body_slice b at (unat bl) ''pidx'') (\<lambda>bm.
        tryR (ok_or (ro_de R bm) (Corrupt ''pidx: '')) (\<lambda>bitmap.
          Inr ((value, bitmap), at + unat bl))))))"

definition pidx_decode :: "roaring \<Rightarrow> bytes \<Rightarrow> payload_index res" where
  "pidx_decode R b =
     (if b = [] then Inl (Corrupt ''pidx: empty body'')
      else
        tryR (le_u16 b 1 ''pidx'') (\<lambda>key_len.
        tryR (body_slice b 3 (unat key_len) ''pidx'') (\<lambda>raw.
        tryR (string_from_utf8 raw (Corrupt ''pidx: key not utf-8'')) (\<lambda>key.
        tryR (dec_counted ''pidx'' (posting_decode R) b (3 + unat key_len)) (\<lambda>(ps, at).
          Inr \<lparr>px_kind = b ! 0, px_key = key, px_postings = ps\<rparr>)))))"

subsection \<open>SPARSE\<close>

type_synonym sparse_terms = "(u32 \<times> (u64 \<times> u32) list) list"

definition weight_encode :: "u64 \<times> u32 \<Rightarrow> bytes res" where
  "weight_encode p = Inr (to_le 8 (fst p) @ to_le 4 (snd p))"

definition term_encode :: "u32 \<times> (u64 \<times> u32) list \<Rightarrow> bytes res" where
  "term_encode t =
     tryR (enc_counted (u32_len ''sparse: too many postings'') weight_encode (snd t)) (\<lambda>ps.
       Inr (to_le 4 (fst t) @ ps))"

definition sparse_encode :: "sparse_terms \<Rightarrow> bytes res" where
  "sparse_encode ts = enc_counted (u32_len ''sparse: too many terms'') term_encode ts"

definition weight_decode :: "bytes \<Rightarrow> nat \<Rightarrow> ((u64 \<times> u32) \<times> nat) res" where
  "weight_decode b at =
     tryR (le_u64 b at ''sparse'') (\<lambda>slot.
     tryR (le_u32 b (at + 8) ''sparse'') (\<lambda>weight. Inr ((slot, weight), at + 8 + 4)))"

definition term_decode :: "bytes \<Rightarrow> nat \<Rightarrow> ((u32 \<times> (u64 \<times> u32) list) \<times> nat) res" where
  "term_decode b at =
     tryR (le_u32 b at ''sparse'') (\<lambda>term_id.
     tryR (dec_counted ''sparse'' weight_decode b (at + 4)) (\<lambda>(ps, at). Inr ((term_id, ps), at)))"

definition sparse_decode :: "bytes \<Rightarrow> sparse_terms res" where
  "sparse_decode b = tryR (dec_counted ''sparse'' term_decode b 0) (\<lambda>(ts, at). Inr ts)"

subsection \<open>VOCAB and HNSW\<close>

definition encode_vocab :: "bytes \<Rightarrow> bytes" where
  "encode_vocab state = state"

definition decode_vocab :: "bytes \<Rightarrow> bytes" where
  "decode_vocab b = b"

record hnsw_body =
  hb_graph_format :: u8
  hb_dump :: bytes

definition hnsw_encode :: "hnsw_body \<Rightarrow> bytes" where
  "hnsw_encode h = hb_graph_format h # hb_dump h"

definition hnsw_decode :: "bytes \<Rightarrow> hnsw_body res" where
  "hnsw_decode b =
     (case b of [] \<Rightarrow> Inl (Corrupt ''hnsw: empty body'')
      | x # r \<Rightarrow> Inr \<lparr>hb_graph_format = x, hb_dump = r\<rparr>)"

subsection \<open>Round trips\<close>

lemma stored_config_decode_encode [codec_simps]:
  "mp_carries M c \<Longrightarrow> stored_config_encode M c = Inr bs \<Longrightarrow> stored_config_decode M bs = Inr c"
  by (auto simp: stored_config_encode_def stored_config_decode_def intro: guarded_dec_carries)

lemma decode_tombstone_encode [codec_simps]:
  "ro_carries R s \<Longrightarrow> encode_tombstone R s = Inr bs \<Longrightarrow> decode_tombstone R bs = Inr s"
  by (auto simp: ro_carries_def encode_tombstone_def decode_tombstone_def)

lemma hnsw_decode_encode [codec_simps]: "hnsw_decode (hnsw_encode h) = Inr h"
  by (simp add: hnsw_decode_def hnsw_encode_def)

lemma vocab_decode_encode [codec_simps]: "decode_vocab (encode_vocab s) = s"
  by (simp add: decode_vocab_def encode_vocab_def)

lemma body_slice_drop: "drop at b = s @ rest \<Longrightarrow> s = [] \<longrightarrow> at \<le> length b \<Longrightarrow> body_slice b at (length s) w = Inr s"
proof -
  assume d: "drop at b = s @ rest" and e: "s = [] \<longrightarrow> at \<le> length b"
  have "length (drop at b) = length s + length rest" by (simp add: d)
  then have "at + length s \<le> length b" using e by (cases s) auto
  then show ?thesis by (simp add: body_slice_def slice_of_def d)
qed

lemma body_slice_corrupt [simp, intro]: "only_corrupt (body_slice b at n w)"
  by (simp add: body_slice_def)

lemma payload_decode_from_encode:
  "\<forall>e\<in>set es. mp_carries M (snd e) \<Longrightarrow> mapR (payload_entry_encode M) es = Inr bss \<Longrightarrow>
     drop at b = concat bss \<Longrightarrow> at \<le> length b \<Longrightarrow> payload_decode_from M b at = Inr es"
proof (induction es arbitrary: bss at)
  case Nil
  then show ?case by (subst payload_decode_from.simps) simp
next
  case (Cons e es)
  obtain slot v where e: "e = (slot, v)" by (cases e)
  from Cons.prems(2) obtain bs bss' where f: "payload_entry_encode M e = Inr bs"
    "mapR (payload_entry_encode M) es = Inr bss'" "bss = bs # bss'"
    by (auto simp: tryR_eq_Inr)
  from f(1) obtain mp where mp: "mp_enc M v = Some mp" "length mp < 2 ^ 32"
    "bs = to_le 8 slot @ to_le 4 (word_of_nat (length mp) :: u32) @ mp"
    by (auto simp: payload_entry_encode_def e tryR_eq_Inr split: if_splits)
  have d0: "drop at b = to_le 8 slot @ to_le 4 (word_of_nat (length mp) :: u32) @ mp @ concat bss'"
    using Cons.prems(3) by (simp add: f(3) mp(3))
  have d8: "drop (at + 8) b = to_le 4 (word_of_nat (length mp) :: u32) @ mp @ concat bss'"
    using drop_add_append [OF d0] by simp
  have d12: "drop (at + 12) b = mp @ concat bss'"
    by (rule drop_next [OF d8]) simp
  have "length (drop at b) = 12 + length mp + length (concat bss')" by (simp add: d0)
  then have le: "at + 12 + length mp \<le> length b" "at < length b" by simp_all
  have r: "le_u64 b at ''payload'' = Inr slot" "le_u32 b (at + 8) ''payload'' = Inr (word_of_nat (length mp))"
    using u64f.rd_drop [OF d0] u32f.rd_drop [OF d8] by simp_all
  have sl: "body_slice b (at + 12) (length mp) ''payload'' = Inr mp"
    using le by (intro body_slice_drop [OF d12]) simp
  have g: "guarded_dec M ''payload: '' mp = Inr v"
    using Cons.prems(1) mp(1) by (intro guarded_dec_carries) (simp_all add: e)
  have rest: "payload_decode_from M b (at + 12 + length mp) = Inr es"
    using Cons.prems(1) le by (intro Cons.IH [OF _ f(2) drop_add_append [OF d12]]) simp_all
  have n: "unat (word_of_nat (length mp) :: u32) = length mp"
    using mp(2) by (rule unat_u32)
  show ?case
    using le by (subst payload_decode_from.simps) (simp add: r n sl g rest e not_le)
qed

lemma payload_decode_encode [codec_simps]:
  "\<forall>e\<in>set es. mp_carries M (snd e) \<Longrightarrow> payload_encode M es = Inr bs \<Longrightarrow> payload_decode M bs = Inr es"
  by (auto simp: payload_encode_def payload_decode_def tryR_eq_Inr intro: payload_decode_from_encode)

interpretation sparse_weight: counted_codec weight_encode weight_decode "\<lambda>_. True" "''sparse''"
  "u32_len ''sparse: too many postings''"
proof
  fix x :: "u64 \<times> u32" and b at bs rest
  assume e: "weight_encode x = Inr bs" and d: "drop at b = bs @ rest"
  obtain s w where x: "x = (s, w)" by (cases x)
  have d0: "drop at b = to_le 8 s @ to_le 4 w @ rest"
    using e d by (auto simp: weight_encode_def x)
  show "weight_decode b at = Inr (x, at + length bs)"
    using u64f.rd_drop [OF d0] u32f.rd_drop [OF drop_add_append [OF d0]] e
    by (auto simp: weight_decode_def weight_encode_def x)
next
  show "only_corrupt (weight_decode b at)" for b at
    by (auto simp: weight_decode_def)
qed (rule u32_len_law)

interpretation sparse_term: counted_codec term_encode term_decode "\<lambda>t. length (snd t) < 2 ^ 32"
  "''sparse''" "u32_len ''sparse: too many terms''"
proof
  fix x :: "u32 \<times> (u64 \<times> u32) list" and b at bs rest
  assume ok: "length (snd x) < 2 ^ 32" and e: "term_encode x = Inr bs" and d: "drop at b = bs @ rest"
  obtain t ps where x: "x = (t, ps)" by (cases x)
  from e obtain pb where pb: "enc_counted (u32_len ''sparse: too many postings'') weight_encode ps = Inr pb"
    "bs = to_le 4 t @ pb"
    by (auto simp: term_encode_def x tryR_eq_Inr)
  have d0: "drop at b = to_le 4 t @ pb @ rest" using d pb by simp
  have "dec_counted ''sparse'' weight_decode b (at + 4) = Inr (ps, at + 4 + length pb)"
    using ok drop_add_append [OF d0]
    by (intro sparse_weight.listed.dec_enc [OF _ pb(1)]) (simp_all add: x list_all_iff)
  then show "term_decode b at = Inr (x, at + length bs)"
    using u32f.rd_drop [OF d0] by (simp add: term_decode_def x pb(2))
next
  show "only_corrupt (term_decode b at)" for b at
    by (auto simp: term_decode_def intro!: only_corrupt_tryR sparse_weight.listed.dec_corrupt)
qed (rule u32_len_law)

text \<open>The encoder has checked every count, so success alone gives the round trip.\<close>

lemma enc_counted_u32_length: "enc_counted (u32_len m) enc xs = Inr bs \<Longrightarrow> length xs < 2 ^ 32"
  by (auto simp: enc_counted_def u32_len_def tryR_eq_Inr split: if_splits)

lemma enc_counted_items: "enc_counted cnt enc xs = Inr bs \<Longrightarrow> x \<in> set xs \<Longrightarrow> \<exists>b. enc x = Inr b"
  by (auto simp: enc_counted_def tryR_eq_Inr mapR_Inr_iff in_set_conv_nth list_all2_conv_all_nth)

lemma sparse_decode_encode [codec_simps]:
  assumes "sparse_encode ts = Inr bs"
  shows "sparse_decode (bs @ rest) = Inr ts"
proof -
  have "list_all (\<lambda>t. length (snd t) < 2 ^ 32) ts"
    using enc_counted_items [OF assms [unfolded sparse_encode_def]]
    by (fastforce simp: list_all_iff term_encode_def tryR_eq_Inr dest: enc_counted_u32_length)
  then have "dec_counted ''sparse'' term_decode (bs @ rest) 0 = Inr (ts, 0 + length bs)"
    using assms enc_counted_u32_length [OF assms [unfolded sparse_encode_def]]
    by (intro sparse_term.listed.dec_enc) (auto simp: sparse_encode_def)
  then show ?thesis by (simp add: sparse_decode_def)
qed

lemma posting_codec: "counted_codec (posting_encode R) (posting_decode R) (\<lambda>p. ro_carries R (snd p))
  (u32_len ''pidx: too many postings'')"
proof
  fix x :: "bytes \<times> u64 set" and b at bs rest
  assume ok: "ro_carries R (snd x)" and e: "posting_encode R x = Inr bs" and d: "drop at b = bs @ rest"
  obtain v s where x: "x = (v, s)" by (cases x)
  from e obtain bm where bm: "ro_ser R s = Some bm" "length v < 2 ^ 32" "length bm < 2 ^ 32"
    "bs = to_le 4 (word_of_nat (length v) :: u32) @ v @ to_le 4 (word_of_nat (length bm) :: u32) @ bm"
    by (auto simp: posting_encode_def x tryR_eq_Inr u32_len_def split: if_splits)
  have de: "ro_de R bm = Some s" using ok bm(1) by (auto simp: ro_carries_def x)
  have d0: "drop at b = to_le 4 (word_of_nat (length v) :: u32) @ v
      @ to_le 4 (word_of_nat (length bm) :: u32) @ bm @ rest" using d by (simp add: bm(4))
  have d4: "drop (at + 4) b = v @ to_le 4 (word_of_nat (length bm) :: u32) @ bm @ rest"
    using drop_add_append [OF d0] by simp
  have dv: "drop (at + 4 + length v) b = to_le 4 (word_of_nat (length bm) :: u32) @ bm @ rest"
    using drop_add_append [OF d4] by simp
  have dm: "drop (at + 4 + length v + 4) b = bm @ rest"
    using drop_add_append [OF dv] by simp
  have "length (drop at b) = 8 + length v + length bm + length rest" by (simp add: d0)
  then have le: "at + 4 + length v + 4 \<le> length b" by simp
  have sl: "body_slice b (at + 4) (length v) ''pidx'' = Inr v"
    "body_slice b (at + 4 + length v + 4) (length bm) ''pidx'' = Inr bm"
    using le by (intro body_slice_drop [OF d4] body_slice_drop [OF dm]; simp)+
  show "posting_decode R b at = Inr (x, at + length bs)"
    using u32f.rd_drop [OF d0] u32f.rd_drop [OF dv] sl
    by (simp add: posting_decode_def Let_def unat_u32 [OF bm(2)] unat_u32 [OF bm(3)] de x bm(4) add.assoc)
next
  show "only_corrupt (posting_decode R b at)" for b at
    by (auto simp: posting_decode_def Let_def intro!: only_corrupt_tryR)
qed (rule u32_len_law)

interpretation pidx_posting: counted_codec "posting_encode R" "posting_decode R" "\<lambda>p. ro_carries R (snd p)"
  "''pidx''" "u32_len ''pidx: too many postings''"
  for R :: roaring
  by (rule posting_codec)

lemma pidx_decode_encode [codec_simps]:
  assumes e: "pidx_encode R p = Inr bs" and ok: "str_ok (px_key p)" "\<forall>q\<in>set (px_postings p). ro_carries R (snd q)"
  shows "pidx_decode R bs = Inr p"
proof -
  from e obtain ps where ps: "enc_counted (u32_len ''pidx: too many postings'') (posting_encode R) (px_postings p) = Inr ps"
    and len: "length (px_key p) < 2 ^ 16"
    and bs: "bs = [px_kind p] @ to_le 2 (word_of_nat (length (px_key p)) :: u16) @ bytes_of (px_key p) @ ps"
    by (auto simp: pidx_encode_def tryR_eq_Inr split: if_splits)
  have d0: "drop 0 bs = [px_kind p] @ to_le 2 (word_of_nat (length (px_key p)) :: u16) @ bytes_of (px_key p) @ ps"
    by (simp add: bs)
  have d1: "drop 1 bs = to_le 2 (word_of_nat (length (px_key p)) :: u16) @ bytes_of (px_key p) @ ps"
    using drop_add_append [OF d0] by simp
  have d3: "drop 3 bs = bytes_of (px_key p) @ ps"
    using drop_add_append [OF d1] by simp
  have dk: "drop (3 + length (px_key p)) bs = ps @ []"
    using drop_add_append [OF d3] by simp
  have sl: "body_slice bs 3 (length (px_key p)) ''pidx'' = Inr (bytes_of (px_key p))"
    using body_slice_drop [OF d3] by (simp add: bs)
  have "dec_counted ''pidx'' (posting_decode R) bs (3 + length (px_key p)) =
      Inr (px_postings p, 3 + length (px_key p) + length ps)"
    using ok(2) enc_counted_u32_length [OF ps]
    by (intro pidx_posting.listed.dec_enc [OF _ ps dk]) (simp add: list_all_iff)
  moreover have "bs ! 0 = px_kind p" "bs \<noteq> []" by (simp_all add: bs)
  ultimately show ?thesis
    using u16f.rd_drop [OF d1]
    by (simp add: pidx_decode_def unat_u16 [OF len] sl string_from_utf8_bytes_of [OF ok(1)])
qed

subsection \<open>Every body decoder fails only as corruption\<close>

lemma payload_decode_from_corrupt: "only_corrupt (payload_decode_from M b at)"
proof (induction M b at rule: payload_decode_from.induct)
  case (1 M b at)
  then show ?case
    by (subst payload_decode_from.simps) (auto intro!: only_corrupt_tryR)
qed

lemma body_decoders_corrupt:
  "only_corrupt (stored_config_decode C b)" "only_corrupt (decode_tombstone R b)"
  "only_corrupt (payload_decode M b)" "only_corrupt (pidx_decode R b)"
  "only_corrupt (sparse_decode b)" "only_corrupt (hnsw_decode b)"
  by (auto simp: stored_config_decode_def decode_tombstone_def payload_decode_def pidx_decode_def
      sparse_decode_def hnsw_decode_def string_from_utf8_def
      intro!: only_corrupt_tryR payload_decode_from_corrupt pidx_posting.listed.dec_corrupt
        sparse_term.listed.dec_corrupt split: list.splits)

subsection \<open>Properties\<close>

text \<open>
  A PAYLOAD body round-trips: slots and documents come back in order, whenever each document is carried by
  MessagePack at depth at most 16.
\<close>

theorem payload_round_trip:
  assumes "\<forall>e\<in>set es. mp_carries M (snd e)" and "payload_encode M es = Inr bs"
  shows "payload_decode M bs = Inr es"
  using assms by (rule payload_decode_encode)

theorem payload_round_trip_witness:
  "\<exists>bs. payload_encode (one_doc (JBool True)) [(3, JBool True), (9, JBool True)] = Inr bs
     \<and> payload_decode (one_doc (JBool True)) bs = Inr [(3, JBool True), (9, JBool True)]"
proof -
  obtain bs where bs: "payload_encode (one_doc (JBool True)) [(3, JBool True), (9, JBool True)] = Inr bs"
    by (simp add: payload_encode_def payload_entry_encode_def)
  from payload_round_trip [OF _ this] bs show ?thesis by simp
qed

text \<open>A PIDX body round-trips, with every bound the encoder checks (key at most 64 KiB, posting counts and lengths
  below \<open>2 ^ 32\<close>): success of the encoder is enough, given that the bitmaps survive their serialization.
\<close>

theorem pidx_round_trip:
  assumes "pidx_encode R p = Inr bs" and "str_ok (px_key p)" and "\<forall>q\<in>set (px_postings p). ro_carries R (snd q)"
  shows "pidx_decode R bs = Inr p"
  using assms by (rule pidx_decode_encode)

theorem pidx_round_trip_witness:
  "\<exists>R bs. pidx_encode R \<lparr>px_kind = 1, px_key = ''tag'', px_postings = [([7], {4}), ([8, 9], {4})]\<rparr> = Inr bs
     \<and> pidx_decode R bs = Inr \<lparr>px_kind = 1, px_key = ''tag'', px_postings = [([7], {4}), ([8, 9], {4})]\<rparr>"
proof -
  let ?R = "\<lparr>ro_ser = (\<lambda>_. Some [1, 2]), ro_de = (\<lambda>_. Some {4})\<rparr>"
  let ?p = "\<lparr>px_kind = 1, px_key = ''tag'', px_postings = [([7], {4}), ([8, 9], {4})]\<rparr>"
  obtain bs where bs: "pidx_encode ?R ?p = Inr bs"
    by (simp add: pidx_encode_def enc_counted_def u32_len_def posting_encode_def)
  have "str_ok ''tag''" by code_simp
  from pidx_round_trip [OF bs] this have "pidx_decode ?R bs = Inr ?p"
    by (simp add: ro_carries_def)
  with bs show ?thesis by blast
qed

text \<open>A SPARSE body round-trips whatever follows it; the encoder's own count checks are all it needs.
\<close>

theorem sparse_round_trip:
  assumes "sparse_encode ts = Inr bs"
  shows "sparse_decode (bs @ rest) = Inr ts"
  using assms by (rule sparse_decode_encode)

theorem sparse_round_trip_witness:
  "\<exists>bs. sparse_encode [(5, [(1, 0x3F800000)]), (6, [])] = Inr bs
     \<and> sparse_decode (bs @ [0]) = Inr [(5, [(1, 0x3F800000)]), (6, [])]"
proof -
  obtain bs where bs: "sparse_encode [(5, [(1, 0x3F800000)]), (6, [])] = Inr bs"
    by (simp add: sparse_encode_def enc_counted_def u32_len_def term_encode_def weight_encode_def)
  from sparse_round_trip [OF this] bs show ?thesis by blast
qed

end
