(* ===== verification/Vectors.thy ===== *)
theory Vectors
  imports Byte_Tags Bodies
begin

section \<open>VECTORS bodies (\<open>storage/vectors.rs\<close>)\<close>

text \<open>
  The fixed-stride vector block: encoding tags, header, stride, the owned \<open>VectorsBody\<close> and the borrowing
  \<open>VectorsView\<close> of the mmap read path, which agree on every input. \<open>checked_mul\<close> overflow is the explicit
  bound \<open>2 ^ 64\<close> (a 64-bit \<open>usize\<close>). \<open>f32\<close> components are bit patterns.
\<close>

datatype encoding = EncF32 | EncSq8 | EncSq4 | EncSq2 | EncSq1 | EncBinary | EncPq

fun encoding_to_byte :: "encoding \<Rightarrow> u8" where
  "encoding_to_byte EncF32 = 0"
| "encoding_to_byte EncSq8 = 1"
| "encoding_to_byte EncSq4 = 2"
| "encoding_to_byte EncSq2 = 3"
| "encoding_to_byte EncSq1 = 4"
| "encoding_to_byte EncBinary = 5"
| "encoding_to_byte EncPq = 6"

definition encoding_from_byte :: "u8 \<Rightarrow> encoding res" where
  "encoding_from_byte b =
     (if b = 0 then Inr EncF32
      else if b = 1 then Inr EncSq8
      else if b = 2 then Inr EncSq4
      else if b = 3 then Inr EncSq2
      else if b = 4 then Inr EncSq1
      else if b = 5 then Inr EncBinary
      else if b = 6 then Inr EncPq
      else Inl (Corrupt (''vectors: unknown encoding '' @ show_nat (unat b))))"

fun has_sq_params :: "encoding \<Rightarrow> bool" where
  "has_sq_params EncSq8 = True"
| "has_sq_params EncSq4 = True"
| "has_sq_params EncSq2 = True"
| "has_sq_params EncSq1 = True"
| "has_sq_params _ = False"

definition HEADER_LEN :: nat where "HEADER_LEN = 1 + 4 + 8 + 8"
definition SQ_PARAMS_LEN :: nat where "SQ_PARAMS_LEN = 4 + 4"

record body_header =
  bh_encoding :: encoding
  bh_dimension :: u32
  bh_count :: u64
  bh_first_slot :: u64
  bh_sq_params :: "(u32 \<times> u32) option"
  bh_records_at :: nat

definition parse_header :: "bytes \<Rightarrow> body_header res" where
  "parse_header b =
     (if b = [] then Inl (Corrupt ''vectors: empty body'')
      else
        tryR (encoding_from_byte (b ! 0)) (\<lambda>e.
        if e = EncPq then Inl (UnsupportedProvider ''pq'' [])
        else
        tryR (le_u32 b 1 ''vectors'') (\<lambda>dim.
        tryR (le_u64 b 5 ''vectors'') (\<lambda>count.
        tryR (le_u64 b 13 ''vectors'') (\<lambda>first.
        if has_sq_params e then
          tryR (le_u32 b HEADER_LEN ''vectors'') (\<lambda>scale.
          tryR (le_u32 b (HEADER_LEN + 4) ''vectors'') (\<lambda>offset.
            Inr \<lparr>bh_encoding = e, bh_dimension = dim, bh_count = count, bh_first_slot = first,
                 bh_sq_params = Some (scale, offset), bh_records_at = HEADER_LEN + SQ_PARAMS_LEN\<rparr>))
        else
          Inr \<lparr>bh_encoding = e, bh_dimension = dim, bh_count = count, bh_first_slot = first,
               bh_sq_params = None, bh_records_at = HEADER_LEN\<rparr>)))))"

text \<open>\<open>dim\<close> is a \<open>u32\<close>, so \<open>dim * 4\<close> cannot overflow a 64-bit \<open>usize\<close>.\<close>

definition stride_for :: "encoding \<Rightarrow> u32 \<Rightarrow> nat res" where
  "stride_for e dimension =
     (let dim = unat dimension
      in if dim = 0 then Inl (Corrupt ''vectors: zero dimension'')
         else case e of
           EncF32 \<Rightarrow> Inr (dim * 4)
         | EncSq8 \<Rightarrow> Inr dim
         | EncSq4 \<Rightarrow> Inr ((dim + 1) div 2)
         | EncSq2 \<Rightarrow> Inr ((dim + 3) div 4)
         | EncSq1 \<Rightarrow> Inr ((dim + 7) div 8)
         | EncBinary \<Rightarrow>
             if dim mod 8 \<noteq> 0
             then Inl (Corrupt (''vectors: binary dimension '' @ show_nat dim @ '' not a multiple of 8''))
             else Inr (dim div 8)
         | EncPq \<Rightarrow> Inl (Corrupt ''vectors: pq stride requires the pq feature''))"

record vectors_body =
  vb_encoding :: encoding
  vb_dimension :: u32
  vb_first_slot :: u64
  vb_count :: u64
  vb_sq_params :: "(u32 \<times> u32) option"
  vb_records :: bytes

text \<open>\<open>slot.checked_sub(first)\<close>, the count check, then the slice (\<open>records.get(start..end)\<close>).\<close>

definition record_at :: "u64 \<Rightarrow> u64 \<Rightarrow> u64 \<Rightarrow> nat \<Rightarrow> bytes \<Rightarrow> bytes option" where
  "record_at slot first count stride records =
     (if slot < first then None
      else let index = unat slot - unat first
        in if unat count \<le> index then None
           else let start = index * stride; e = start + stride
             in if 2 ^ 64 \<le> e \<or> length records < e then None else Some (slice_of records start e))"

definition vectors_record :: "vectors_body \<Rightarrow> u64 \<Rightarrow> bytes option" where
  "vectors_record v slot =
     (case stride_for (vb_encoding v) (vb_dimension v) of
        Inl _ \<Rightarrow> None
      | Inr stride \<Rightarrow> record_at slot (vb_first_slot v) (vb_count v) stride (vb_records v))"

definition vectors_encode :: "vectors_body \<Rightarrow> bytes" where
  "vectors_encode v =
     [encoding_to_byte (vb_encoding v)] @ to_le 4 (vb_dimension v) @ to_le 8 (vb_count v)
     @ to_le 8 (vb_first_slot v)
     @ (case vb_sq_params v of None \<Rightarrow> [] | Some (scale, offset) \<Rightarrow> to_le 4 scale @ to_le 4 offset)
     @ vb_records v"

text \<open>The checks \<open>VectorsBody::decode\<close> and \<open>VectorsView::parse\<close> share: header, stride, record bytes.\<close>

definition vectors_checked :: "bytes \<Rightarrow> (body_header \<times> nat \<times> bytes) res" where
  "vectors_checked b =
     tryR (parse_header b) (\<lambda>h.
     tryR (stride_for (bh_encoding h) (bh_dimension h)) (\<lambda>stride.
     let want = stride * unat (bh_count h)
     in if 2 ^ 64 \<le> want then Inl (Corrupt ''vectors: record size overflow'')
        else if length b < bh_records_at h then Inl (Corrupt ''vectors: truncated header'')
        else let records = drop (bh_records_at h) b
          in if length records \<noteq> want
             then Inl (Corrupt (''vectors: expected '' @ show_nat want @ '' record bytes, got ''
                         @ show_nat (length records)))
             else Inr (h, stride, records)))"

definition vectors_decode :: "bytes \<Rightarrow> vectors_body res" where
  "vectors_decode b =
     tryR (vectors_checked b) (\<lambda>(h, stride, records).
       Inr \<lparr>vb_encoding = bh_encoding h, vb_dimension = bh_dimension h, vb_first_slot = bh_first_slot h,
            vb_count = bh_count h, vb_sq_params = bh_sq_params h, vb_records = records\<rparr>)"

record vectors_view =
  vv_encoding :: encoding
  vv_dimension :: u32
  vv_first_slot :: u64
  vv_count :: u64
  vv_sq_params :: "(u32 \<times> u32) option"
  vv_stride :: nat
  vv_records :: bytes

definition view_parse :: "bytes \<Rightarrow> vectors_view res" where
  "view_parse b =
     tryR (vectors_checked b) (\<lambda>(h, stride, records).
       Inr \<lparr>vv_encoding = bh_encoding h, vv_dimension = bh_dimension h, vv_first_slot = bh_first_slot h,
            vv_count = bh_count h, vv_sq_params = bh_sq_params h, vv_stride = stride, vv_records = records\<rparr>)"

definition view_record :: "vectors_view \<Rightarrow> u64 \<Rightarrow> bytes option" where
  "view_record v slot = record_at slot (vv_first_slot v) (vv_count v) (vv_stride v) (vv_records v)"

text \<open>\<open>bytes.chunks_exact(4).map(f32::from_le_bytes)\<close>.\<close>

fun f32_chunks :: "bytes \<Rightarrow> u32 list" where
  "f32_chunks (a # b # c # d # r) = of_le [a, b, c, d] # f32_chunks r"
| "f32_chunks _ = []"

definition view_f32_record :: "vectors_view \<Rightarrow> u64 \<Rightarrow> u32 list option" where
  "view_f32_record v slot =
     (if vv_encoding v \<noteq> EncF32 then None else map_option f32_chunks (view_record v slot))"

subsection \<open>Tags and strides\<close>

interpretation encoding_tag: byte_tag encoding_to_byte encoding_from_byte
proof
  show "encoding_from_byte (encoding_to_byte x) = Inr x" for x
    by (cases x) (simp_all add: encoding_from_byte_def)
  show "encoding_from_byte b = Inr x \<Longrightarrow> encoding_to_byte x = b" for b x
    by (auto simp: encoding_from_byte_def split: if_splits)
  show "only_corrupt (encoding_from_byte b)" for b
    by (auto simp: encoding_from_byte_def)
qed

lemma stride_pos: "stride_for e d = Inr n \<Longrightarrow> 0 < n"
  by (auto simp: stride_for_def Let_def split: encoding.splits if_splits)

lemma stride_dim_pos: "stride_for e d = Inr n \<Longrightarrow> 0 < d"
  by (auto simp: stride_for_def Let_def unat_eq_zero word_neq_0_conv split: if_splits)

lemma stride_for_corrupt [simp, intro]: "only_corrupt (stride_for e d)"
  by (auto simp: stride_for_def Let_def split: encoding.splits)

subsection \<open>Round trip\<close>

definition vectors_ok :: "vectors_body \<Rightarrow> bool" where
  "vectors_ok v \<longleftrightarrow> vb_encoding v \<noteq> EncPq
     \<and> (vb_sq_params v \<noteq> None \<longleftrightarrow> has_sq_params (vb_encoding v))
     \<and> (\<exists>n. stride_for (vb_encoding v) (vb_dimension v) = Inr n \<and> length (vb_records v) = n * unat (vb_count v))
     \<and> length (vb_records v) < 2 ^ 64"

definition vectors_prefix :: "vectors_body \<Rightarrow> bytes" where
  "vectors_prefix v = (case vb_sq_params v of None \<Rightarrow> [] | Some (scale, offset) \<Rightarrow> to_le 4 scale @ to_le 4 offset)"

lemma parse_header_encode:
  assumes ok: "vectors_ok v"
  shows "parse_header (vectors_encode v) =
    Inr \<lparr>bh_encoding = vb_encoding v, bh_dimension = vb_dimension v, bh_count = vb_count v,
         bh_first_slot = vb_first_slot v, bh_sq_params = vb_sq_params v,
         bh_records_at = 21 + length (vectors_prefix v)\<rparr>"
proof -
  let ?b = "vectors_encode v"
  have d0: "drop 0 ?b = [encoding_to_byte (vb_encoding v)] @ to_le 4 (vb_dimension v) @ to_le 8 (vb_count v)
     @ to_le 8 (vb_first_slot v) @ vectors_prefix v @ vb_records v"
    by (simp add: vectors_encode_def vectors_prefix_def)
  have d1: "drop 1 ?b = to_le 4 (vb_dimension v) @ to_le 8 (vb_count v)
     @ to_le 8 (vb_first_slot v) @ vectors_prefix v @ vb_records v"
    by (rule drop_next [OF d0]) simp
  have d5: "drop 5 ?b = to_le 8 (vb_count v) @ to_le 8 (vb_first_slot v) @ vectors_prefix v @ vb_records v"
    by (rule drop_next [OF d1]) simp
  have d13: "drop 13 ?b = to_le 8 (vb_first_slot v) @ vectors_prefix v @ vb_records v"
    by (rule drop_next [OF d5]) simp
  have d21: "drop 21 ?b = vectors_prefix v @ vb_records v"
    by (rule drop_next [OF d13]) simp
  have r: "le_u32 ?b 1 c = Inr (vb_dimension v)" "le_u64 ?b 5 c = Inr (vb_count v)"
    "le_u64 ?b 13 c = Inr (vb_first_slot v)" for c
    using le_drop(2) [OF d1] le_drop(3) [OF d5] le_drop(3) [OF d13] by simp_all
  have b: "?b ! 0 = encoding_to_byte (vb_encoding v)" "?b \<noteq> []"
    by (simp_all add: vectors_encode_def)
  show ?thesis
  proof (cases "vb_sq_params v")
    case None
    then show ?thesis
      using ok r(1) by (simp add: parse_header_def b encoding_tag.from_to r vectors_ok_def HEADER_LEN_def vectors_prefix_def)
  next
    case (Some p)
    obtain s t where p: "p = (s, t)" by (cases p)
    have e21: "drop 21 ?b = to_le 4 s @ to_le 4 t @ vb_records v"
      using d21 by (simp add: vectors_prefix_def Some p)
    have e25: "drop 25 ?b = to_le 4 t @ vb_records v"
      by (rule drop_next [OF e21]) simp
    have s: "le_u32 ?b 21 c = Inr s" "le_u32 ?b 25 c = Inr t" for c
      using le_drop(2) [OF e21] le_drop(2) [OF e25] by simp_all
    show ?thesis
      using ok r(1) by (simp add: parse_header_def b encoding_tag.from_to r vectors_ok_def HEADER_LEN_def
          SQ_PARAMS_LEN_def vectors_prefix_def Some p s)
  qed
qed

lemma vectors_checked_encode:
  assumes ok: "vectors_ok v" and n: "stride_for (vb_encoding v) (vb_dimension v) = Inr n"
  shows "\<exists>h. vectors_checked (vectors_encode v) = Inr (h, n, vb_records v) \<and> bh_encoding h = vb_encoding v
    \<and> bh_dimension h = vb_dimension v \<and> bh_first_slot h = vb_first_slot v \<and> bh_count h = vb_count v
    \<and> bh_sq_params h = vb_sq_params v"
proof -
  have "length (vectors_encode v) = 21 + length (vectors_prefix v) + length (vb_records v)"
    by (simp add: vectors_encode_def vectors_prefix_def)
  moreover have d0: "drop 0 (vectors_encode v) = ([encoding_to_byte (vb_encoding v)] @ to_le 4 (vb_dimension v)
     @ to_le 8 (vb_count v) @ to_le 8 (vb_first_slot v) @ vectors_prefix v) @ vb_records v"
    by (simp add: vectors_encode_def vectors_prefix_def)
  have "drop (21 + length (vectors_prefix v)) (vectors_encode v) = vb_records v"
    by (rule drop_next [OF d0]) simp
  ultimately show ?thesis
    using ok n by (auto simp: vectors_checked_def parse_header_encode [OF ok] Let_def vectors_ok_def mult.commute)
qed

lemma vectors_decode_encode [codec_simps]:
  assumes "vectors_ok v"
  shows "vectors_decode (vectors_encode v) = Inr v"
proof -
  from assms obtain n where "stride_for (vb_encoding v) (vb_dimension v) = Inr n"
    by (auto simp: vectors_ok_def)
  from vectors_checked_encode [OF assms this] show ?thesis
    by (auto simp: vectors_decode_def)
qed

text \<open>Whatever is decoded is well formed, so decode is a left inverse on its own results as well.\<close>

lemma vectors_checkedD:
  "vectors_checked b = Inr (h, n, r) \<Longrightarrow>
     stride_for (bh_encoding h) (bh_dimension h) = Inr n \<and> length r = n * unat (bh_count h) \<and> length r < 2 ^ 64
     \<and> bh_encoding h \<noteq> EncPq \<and> (bh_sq_params h \<noteq> None \<longleftrightarrow> has_sq_params (bh_encoding h))"
  by (auto simp: vectors_checked_def parse_header_def tryR_eq_Inr Let_def split: if_splits)

lemma vectors_decode_ok: "vectors_decode b = Inr v \<Longrightarrow> vectors_ok v"
  by (auto simp: vectors_decode_def tryR_eq_Inr vectors_ok_def dest!: vectors_checkedD)

text \<open>Neither count nor stride of a decoded body is unbounded: both are at most the size of the input.\<close>

lemma vectors_decode_count: "vectors_decode b = Inr v \<Longrightarrow> unat (vb_count v) \<le> length b"
proof -
  assume "vectors_decode b = Inr v"
  then obtain h n r where c: "vectors_checked b = Inr (h, n, r)" and v: "vb_count v = bh_count h"
    by (auto simp: vectors_decode_def tryR_eq_Inr)
  from vectors_checkedD [OF c] have "length r = n * unat (bh_count h)" "0 < n"
    by (auto dest: stride_pos)
  moreover have "length r \<le> length b"
    using c by (auto simp: vectors_checked_def tryR_eq_Inr Let_def split: if_splits)
  ultimately show ?thesis
    using v by (metis le_trans mult_le_mono1 nat_mult_1 Suc_leI One_nat_def)
qed

subsection \<open>The view agrees with the owned body, and addressing is total inside it\<close>

lemma view_agrees:
  assumes "vectors_decode b = Inr v"
  shows "\<exists>w. view_parse b = Inr w \<and> vv_encoding w = vb_encoding v \<and> vv_count w = vb_count v
    \<and> vv_first_slot w = vb_first_slot v \<and> (\<forall>slot. view_record w slot = vectors_record v slot)"
proof -
  from assms obtain h n r where c: "vectors_checked b = Inr (h, n, r)"
    and v: "v = \<lparr>vb_encoding = bh_encoding h, vb_dimension = bh_dimension h, vb_first_slot = bh_first_slot h,
            vb_count = bh_count h, vb_sq_params = bh_sq_params h, vb_records = r\<rparr>"
    by (auto simp: vectors_decode_def tryR_eq_Inr)
  from vectors_checkedD [OF c] show ?thesis
    by (simp add: view_parse_def c v view_record_def vectors_record_def)
qed

lemma view_parse_iff: "(\<exists>w. view_parse b = Inr w) \<longleftrightarrow> (\<exists>v. vectors_decode b = Inr v)"
  by (auto simp: vectors_decode_def view_parse_def tryR_eq_Inr)

lemma record_at_in_range:
  assumes "length records = stride * unat count" and "length records < 2 ^ 64"
  shows "record_at slot first count stride records =
    (if first \<le> slot \<and> unat slot - unat first < unat count
     then Some (slice_of records ((unat slot - unat first) * stride) (Suc (unat slot - unat first) * stride))
     else None)"
proof (cases "first \<le> slot \<and> unat slot - unat first < unat count")
  case True
  then have "Suc (unat slot - unat first) * stride \<le> unat count * stride"
    by (intro mult_le_mono1) simp
  then have "(unat slot - unat first) * stride + stride \<le> length records"
    using assms(1) by (simp add: mult.commute add.commute)
  then show ?thesis
    using True assms(2) by (simp add: record_at_def Let_def add.commute not_less)
next
  case False
  then show ?thesis by (auto simp: record_at_def Let_def)
qed

lemma vectors_record_range:
  assumes "vectors_ok v"
  shows "(\<exists>r. vectors_record v slot = Some r) \<longleftrightarrow>
    vb_first_slot v \<le> slot \<and> unat slot - unat (vb_first_slot v) < unat (vb_count v)"
  using assms by (auto simp: vectors_ok_def vectors_record_def record_at_in_range split: if_splits)

lemma stride_Inl_corrupt: "stride_for e d = Inl x \<Longrightarrow> \<exists>m. x = Corrupt m"
  using stride_for_corrupt [of e d] by (auto simp: only_corrupt_def)

lemma encoding_Inl_corrupt: "encoding_from_byte b = Inl x \<Longrightarrow> \<exists>m. x = Corrupt m"
  using encoding_tag.from_corrupt [of b] by (auto simp: only_corrupt_def)

lemma vectors_decode_errors:
  "vectors_decode b = Inl e \<Longrightarrow> (\<exists>m. e = Corrupt m) \<or> e = UnsupportedProvider ''pq'' []"
  by (auto simp: vectors_decode_def vectors_checked_def parse_header_def tryR_eq_Inl Let_def
      dest!: le_Inl_corrupt stride_Inl_corrupt encoding_Inl_corrupt split: if_splits)

subsection \<open>Properties\<close>

text \<open>A VECTORS body round-trips: encoding, dimension, count, first slot, quantization parameters and record bytes.
\<close>

theorem vectors_round_trip:
  assumes "vectors_ok v"
  shows "vectors_decode (vectors_encode v) = Inr v"
  using assms by (rule vectors_decode_encode)

definition two_vectors :: vectors_body where
  "two_vectors = \<lparr>vb_encoding = EncSq4, vb_dimension = 3, vb_first_slot = 10, vb_count = 2,
     vb_sq_params = Some (1, 2), vb_records = [1, 2, 3, 4]\<rparr>"

lemma two_vectors_ok: "vectors_ok two_vectors"
  by (simp add: vectors_ok_def two_vectors_def stride_for_def)

theorem vectors_round_trip_witness: "vectors_decode (vectors_encode two_vectors) = Inr two_vectors"
  by (rule vectors_round_trip) (rule two_vectors_ok)

text \<open>
  C6. What a decoded body promises: its record block has exactly \<open>stride * count\<close> bytes with a non-zero stride, so
  \<open>count\<close> is bounded by the input length (no unbounded allocation from a corrupt count), a slot has a record
  exactly when it is in \<open>first_slot .. first_slot + count\<close>, and the borrowing view of the mmap path accepts the
  same input and returns the same record bytes for every slot.
\<close>

theorem vectors_decoded_addressing:
  assumes "vectors_decode b = Inr v"
  shows "unat (vb_count v) \<le> length b
    \<and> (\<forall>slot. (vectors_record v slot \<noteq> None) \<longleftrightarrow>
          vb_first_slot v \<le> slot \<and> unat slot - unat (vb_first_slot v) < unat (vb_count v))
    \<and> (\<exists>w. view_parse b = Inr w \<and> (\<forall>slot. view_record w slot = vectors_record v slot))"
proof -
  have "vectors_record v slot \<noteq> None \<longleftrightarrow>
      vb_first_slot v \<le> slot \<and> unat slot - unat (vb_first_slot v) < unat (vb_count v)" for slot
    using vectors_record_range [OF vectors_decode_ok [OF assms], of slot] by auto
  then show ?thesis
    using vectors_decode_count [OF assms] view_agrees [OF assms] by blast
qed

theorem vectors_decoded_addressing_witness:
  "(vectors_record two_vectors 11 \<noteq> None) \<and> vectors_record two_vectors 12 = None
    \<and> (\<exists>w. view_parse (vectors_encode two_vectors) = Inr w \<and> view_record w 11 = vectors_record two_vectors 11)"
proof -
  note p = vectors_decoded_addressing [OF vectors_decode_encode [OF two_vectors_ok]]
  have s: "unat (vb_first_slot two_vectors) = 10" "vb_first_slot two_vectors = 10" "unat (vb_count two_vectors) = 2"
    by (simp_all add: two_vectors_def)
  from p have r: "\<forall>slot. (vectors_record two_vectors slot \<noteq> None) = (10 \<le> slot \<and> unat slot - 10 < 2)"
    unfolding s(2,3) by simp
  have "vectors_record two_vectors 11 \<noteq> None" "vectors_record two_vectors 12 = None"
    using r [rule_format, of 11] r [rule_format, of 12] by simp_all
  with p show ?thesis by blast
qed

end
