(* ===== verification/Mmap.thy ===== *)
theory Mmap
  imports Image Vectors
begin

section \<open>The memory-mapped read path (\<open>storage/mmap.rs\<close>)\<close>

text \<open>
  A mapping is the bytes of the file at map time. A region is a window of records inside it: absolute start, stride, first
  slot and count. The position of a borrowed record inside the mapping, which the source gets by subtracting pointers, is
  the end of the segment body minus the length of the record block.
\<close>

type_synonym file_map = bytes

record vectors_region =
  vr_map :: file_map
  vr_records_start :: nat
  vr_stride :: nat
  vr_dimension :: u32
  vr_first_slot :: u64
  vr_count :: u64

definition map_len :: "file_map \<Rightarrow> nat" where
  "map_len m = length m"

text \<open>The body of an uncompressed segment, as its bounds inside the mapping.\<close>

definition map_segment_body :: "(bytes \<Rightarrow> u32) \<Rightarrow> file_map \<Rightarrow> seg_ref \<Rightarrow> (nat \<times> nat) res" where
  "map_segment_body crc m ref =
     (let at = unat (rf_offset ref); header_end = at + SEGMENT_HEADER_SIZE; loc = seg_loc (rf_offset ref)
      in if 2 ^ 64 \<le> int header_end \<or> length m < header_end then Inl (Corrupt (loc @ '': truncated header''))
         else
           tryR (codec_from_byte (m ! (at + 1))) (\<lambda>codec.
           if codec \<noteq> Codec_None
           then Inl (Corrupt (loc @ '': mmap read path requires an uncompressed body''))
           else
             let stored_len = unat (of_le (slice_of m (at + 8) (at + 16)) :: u64);
                 body_crc32 = (of_le (slice_of m (at + 24) (at + 28)) :: u32);
                 body_end = header_end + stored_len
             in if 2 ^ 64 \<le> int body_end \<or> length m < body_end
                then Inl (Corrupt (loc @ '': body past end of file''))
                else if crc (slice_of m header_end body_end) \<noteq> body_crc32
                then Inl (Corrupt (loc @ '': body crc mismatch''))
                else Inr (header_end, body_end)))"

definition map_vectors_view :: "(bytes \<Rightarrow> u32) \<Rightarrow> file_map \<Rightarrow> seg_ref \<Rightarrow> (vectors_view \<times> nat) res" where
  "map_vectors_view crc m ref =
     tryR (seg_from_byte (rf_type ref)) (\<lambda>t.
     if t \<noteq> SegVectors then Inl (Corrupt (seg_loc (rf_offset ref) @ '': expected VECTORS for mmap view''))
     else
       tryR (map_segment_body crc m ref) (\<lambda>(body_start, body_end).
       tryR (view_parse (slice_of m body_start body_end)) (\<lambda>view. Inr (view, body_end))))"

definition map_vectors_region :: "(bytes \<Rightarrow> u32) \<Rightarrow> file_map \<Rightarrow> seg_ref \<Rightarrow> vectors_region res" where
  "map_vectors_region crc m ref =
     tryR (map_vectors_view crc m ref) (\<lambda>(view, body_end).
     if vv_encoding view \<noteq> EncF32
     then Inl (Corrupt (seg_loc (rf_offset ref) @ '': mmap tier requires the F32 encoding''))
     else
       let records = (case view_record view (vv_first_slot view) of
                        Some _ \<Rightarrow> body_end - length (vv_records view)
                      | None \<Rightarrow> length m)
       in Inr \<lparr>vr_map = m, vr_records_start = records, vr_stride = vv_stride view,
               vr_dimension = vv_dimension view, vr_first_slot = vv_first_slot view, vr_count = vv_count view\<rparr>)"

definition region_byte_len :: "vectors_region \<Rightarrow> u64" where
  "region_byte_len r = vr_count r * word_of_nat (vr_stride r)"

definition region_record :: "vectors_region \<Rightarrow> u64 \<Rightarrow> bytes option" where
  "region_record r slot =
     (if slot < vr_first_slot r then None
      else let index = unat slot - unat (vr_first_slot r)
        in if unat (vr_count r) \<le> index then None
           else let start = vr_records_start r + index * vr_stride r; stop = start + vr_stride r
             in if 2 ^ 64 \<le> int stop \<or> length (vr_map r) < stop then None
                else Some (slice_of (vr_map r) start stop))"

text \<open>\<open>read_f32_into\<close>: the decoded components, \<open>None\<close> for the result \<open>false\<close>.\<close>

definition region_read_f32 :: "vectors_region \<Rightarrow> u64 \<Rightarrow> u32 list option" where
  "region_read_f32 r slot = map_option f32_chunks (region_record r slot)"

subsection \<open>Agreement with the decoded body\<close>

lemma of_le_u64: "at + 8 \<le> length b \<Longrightarrow> le_u64 b at c = Inr (of_le (slice_of b at (at + 8)))"
  by (simp add: le_u64_def need_def)

lemma of_le_u32: "at + 4 \<le> length b \<Longrightarrow> le_u32 b at c = Inr (of_le (slice_of b at (at + 4)))"
  by (simp add: le_u32_def need_def)

text \<open>Where the ordinary reader returns the body of an uncompressed segment, the mapped one delimits the same bytes.\<close>

lemma map_segment_body_agrees:
  assumes rd: "segment_read X crc m (unat (rf_offset ref)) off = Inr (sg, n)"
    and codec: "m ! (unat (rf_offset ref) + 1) = 0" and fits: "int (length m) < 2 ^ 64"
  shows "\<exists>s e. map_segment_body crc m ref = Inr (s, e) \<and> slice_of m s e = sg_body sg \<and> s \<le> e \<and> e \<le> length m"
proof -
  let ?at = "unat (rf_offset ref)" and ?h = "unat (rf_offset ref) + SEGMENT_HEADER_SIZE"
  have h: "?h \<le> length m" using rd by (auto simp: segment_read_def split: if_splits)
  then have l: "?at + 32 \<le> length m" by (simp add: SEGMENT_HEADER_SIZE_def)
  have f: "le_u64 m (?at + 8) c = Inr (of_le (slice_of m (?at + 8) (?at + 16)))"
    "le_u64 m (?at + 16) c = Inr (of_le (slice_of m (?at + 16) (?at + 24)))"
    "le_u32 m (?at + 24) c = Inr (of_le (slice_of m (?at + 24) (?at + 28)))" for c
    using l of_le_u64 [of "?at + 8" m c] of_le_u64 [of "?at + 16" m c] of_le_u32 [of "?at + 24" m c]
    by (simp_all add: add.assoc)
  have c0: "codec_from_byte (m ! (?at + 1)) = Inr Codec_None" using codec by (simp add: codec_from_byte_def)
  let ?e = "?h + unat (of_le (slice_of m (?at + 8) (?at + 16)) :: u64)"
  have e: "?e \<le> length m" "crc (slice_of m ?h ?e) = of_le (slice_of m (?at + 24) (?at + 28))"
    and b: "sg_body sg = slice_of m ?h ?e"
    using rd h by (auto simp: segment_read_def f c0 [simplified] tryR_eq_Inr Let_def decompress_def split: if_splits sum.splits)
  have "length m < 18446744073709551616" using fits by simp
  then have "?h < 18446744073709551616" "?e < 18446744073709551616" using h e(1) by linarith+
  then show ?thesis
    using h e b c0 by - (rule exI [of _ ?h], rule exI [of _ ?e], simp add: map_segment_body_def Let_def not_less not_le)
qed

lemma view_records_suffix:
  assumes "view_parse b = Inr v"
  shows "length (vv_records v) \<le> length b" "vv_records v = drop (length b - length (vv_records v)) b"
    "length (vv_records v) = vv_stride v * unat (vv_count v)" "length (vv_records v) < 2 ^ 64"
proof -
  obtain h n r where c: "vectors_checked b = Inr (h, n, r)"
    and v: "vv_records v = r" "vv_stride v = n" "vv_count v = bh_count h"
    using assms by (auto simp: view_parse_def tryR_eq_Inr)
  have r: "r = drop (bh_records_at h) b" "bh_records_at h \<le> length b"
    using c by (auto simp: vectors_checked_def tryR_eq_Inr Let_def split: if_splits)
  show "length (vv_records v) \<le> length b" "vv_records v = drop (length b - length (vv_records v)) b"
    using r v by simp_all
  show "length (vv_records v) = vv_stride v * unat (vv_count v)" "length (vv_records v) < 2 ^ 64"
    using vectors_checkedD [OF c] v by simp_all
qed

lemma region_agrees:
  assumes body: "map_segment_body crc m ref = Inr (s, e)" "s \<le> e" "e \<le> length m" and fits: "int (length m) < 2 ^ 64"
    and t: "seg_from_byte (rf_type ref) = Inr SegVectors" and v: "view_parse (slice_of m s e) = Inr v"
    and enc: "vv_encoding v = EncF32"
  shows "\<exists>r. map_vectors_region crc m ref = Inr r \<and> vr_first_slot r = vv_first_slot v \<and> vr_count r = vv_count v
    \<and> (\<forall>slot. region_record r slot = view_record v slot)"
proof -
  note p = view_records_suffix [OF v]
  let ?n = "length (vv_records v)"
  have len: "length (slice_of m s e) = e - s" using body by simp
  define start where "start = (case view_record v (vv_first_slot v) of Some _ \<Rightarrow> e - ?n | None \<Rightarrow> length m)"
  define r where "r = \<lparr>vr_map = m, vr_records_start = start, vr_stride = vv_stride v,
               vr_dimension = vv_dimension v, vr_first_slot = vv_first_slot v, vr_count = vv_count v\<rparr>"
  have "map_vectors_region crc m ref = Inr r"
    using t body v enc by (simp add: map_vectors_region_def map_vectors_view_def Let_def r_def start_def)
  moreover have "region_record r slot = view_record v slot" for slot
  proof (cases "vv_first_slot v \<le> slot \<and> unat slot - unat (vv_first_slot v) < unat (vv_count v)")
    case True
    let ?i = "unat slot - unat (vv_first_slot v)"
    have "0 < unat (vv_count v)" using True by linarith
    then have st: "start = e - ?n"
      using record_at_in_range [OF p(3,4), of "vv_first_slot v" "vv_first_slot v"] by (simp add: start_def view_record_def)
    have "Suc ?i * vv_stride v \<le> unat (vv_count v) * vv_stride v" using True by (intro mult_le_mono1) simp
    then have i: "?i * vv_stride v + vv_stride v \<le> ?n" using p(3) by (simp add: mult.commute add.commute)
    have n: "?n \<le> e - s" using p(1) len by simp
    have stop: "start + ?i * vv_stride v + vv_stride v \<le> e" using st i n body by linarith
    define N where "N = ?n"
    have rec: "vv_records v = slice_of m (e - N) e"
    proof -
      have "vv_records v = drop (e - s - N) (slice_of m s e)" using p(2) len by (simp add: N_def)
      then show ?thesis using n body by (simp add: N_def slice_of_def drop_take)
    qed
    have "slice_of m (start + ?i * vv_stride v) (start + ?i * vv_stride v + vv_stride v)
        = slice_of (vv_records v) (?i * vv_stride v) (Suc ?i * vv_stride v)"
      unfolding rec using i n body st by (simp add: N_def [symmetric] slice_of_def drop_take add.commute)
    moreover have "length m < 18446744073709551616" using fits by simp
    then have "start + ?i * vv_stride v + vv_stride v < 18446744073709551616" using stop body(3) by linarith
    ultimately show ?thesis
      using True stop body(3) record_at_in_range [OF p(3,4), of slot "vv_first_slot v"]
      by (simp add: region_record_def r_def Let_def view_record_def not_less not_le)
  next
    case False
    then show ?thesis using record_at_in_range [OF p(3,4), of slot "vv_first_slot v"]
      by (auto simp: region_record_def r_def Let_def view_record_def not_less not_le)
  qed
  ultimately show ?thesis by (intro exI [of _ r]) (simp add: r_def)
qed

subsection \<open>Property\<close>

text \<open>
  C36. The mapped read path returns the same vectors as the ordinary one (STG-004): where the segment reader and the VECTORS
  decoder accept an uncompressed \<open>f32\<close> segment, the region over it is built without an error, and for every slot number
  it returns the record bytes and the components of the decoded body, and nothing outside its slot range.
\<close>

theorem mmap_agrees_with_decode:
  assumes "segment_read X crc m (unat (rf_offset ref)) off = Inr (sg, n)" and "m ! (unat (rf_offset ref) + 1) = 0"
    and "int (length m) < 2 ^ 64" and "rf_type ref = seg_to_byte SegVectors"
    and "vectors_decode (sg_body sg) = Inr v" and "vb_encoding v = EncF32"
  shows "\<exists>r. map_vectors_region crc m ref = Inr r \<and> vr_first_slot r = vb_first_slot v \<and> vr_count r = vb_count v
    \<and> (\<forall>slot. region_record r slot = vectors_record v slot
          \<and> region_read_f32 r slot = map_option f32_chunks (vectors_record v slot))"
proof -
  obtain s e where b: "map_segment_body crc m ref = Inr (s, e)" "slice_of m s e = sg_body sg" "s \<le> e" "e \<le> length m"
    using map_segment_body_agrees [OF assms(1-3)] by blast
  obtain w where w: "view_parse (sg_body sg) = Inr w" "vv_encoding w = vb_encoding v" "vv_count w = vb_count v"
    "vv_first_slot w = vb_first_slot v" "\<forall>slot. view_record w slot = vectors_record v slot"
    using view_agrees [OF assms(5)] by blast
  have t: "seg_from_byte (rf_type ref) = Inr SegVectors" unfolding assms(4) by (rule seg_tag.from_to)
  show ?thesis
    using region_agrees [OF b(1,3,4) assms(3) t, of w] w b(2) assms(6) by (auto simp: region_read_f32_def)
qed

definition two_f32 :: vectors_body where
  "two_f32 = \<lparr>vb_encoding = EncF32, vb_dimension = 1, vb_first_slot = 0, vb_count = 2,
     vb_sq_params = None, vb_records = [0, 0, 0x80, 0x3F, 0, 0, 0, 0x40]\<rparr>"

lemma two_f32_ok: "vectors_ok two_f32"
  by (simp add: vectors_ok_def two_f32_def stride_for_def)

theorem mmap_agrees_with_decode_witness:
  "\<exists>bs r. segment_encode id_compressors sum_crc
         \<lparr>sg_type = SegVectors, sg_flags = 0, sg_coll = 1, sg_body = vectors_encode two_f32\<rparr> Codec_None = Inr bs
     \<and> map_vectors_region sum_crc bs \<lparr>rf_type = 2, rf_offset = 0, rf_len = 61\<rparr> = Inr r
     \<and> region_read_f32 r 1 = Some [0x40000000] \<and> region_record r 2 = None"
proof -
  let ?s = "\<lparr>sg_type = SegVectors, sg_flags = 0, sg_coll = 1, sg_body = vectors_encode two_f32\<rparr>"
  let ?ref = "\<lparr>rf_type = 2, rf_offset = 0, rf_len = 61\<rparr>"
  have l: "length (vectors_encode two_f32) = 29" by (simp add: vectors_encode_def two_f32_def)
  obtain bs where bs: "segment_encode id_compressors sum_crc ?s Codec_None = Inr bs" "length bs = 61" "bs ! 1 = 0"
    using l by (simp add: segment_encode_def)
  have rd: "segment_read id_compressors sum_crc bs (unat (rf_offset ?ref)) 0 = Inr (?s, 61)"
    using segment_read_encode [OF bs(1), of 0 bs "[]" 0] bs l by simp
  have d: "vectors_decode (sg_body ?s) = Inr two_f32" using vectors_decode_encode [OF two_f32_ok] by simp
  have e: "vb_encoding two_f32 = EncF32" by (simp add: two_f32_def)
  have "vectors_record two_f32 1 = Some [0, 0, 0, 0x40]" "vectors_record two_f32 2 = None"
    by (simp_all add: vectors_record_def record_at_def two_f32_def stride_for_def slice_of_def)
  moreover have "f32_chunks [0, 0, 0, 0x40] = [0x40000000]"
    by (simp add: of_le_def)
  ultimately show ?thesis
    using mmap_agrees_with_decode [OF rd _ _ _ d e] bs by auto
qed

end
