(* ===== verification/Keyed_Store.thy ===== *)
theory Keyed_Store
  imports Main
begin

section \<open>Stores addressed by key\<close>

text \<open>
  The contract between a collection's slot storage and its clients: the batch writes, the scans and the replay of a log
  rest on it alone. \<open>filter_count\<close> is the code's \<open>iter().filter(..).count()\<close> with a test that changes the state.
\<close>

fun filter_count :: "('k \<Rightarrow> 's \<Rightarrow> bool \<times> 's) \<Rightarrow> 'k list \<Rightarrow> 's \<Rightarrow> nat \<times> 's" where
  "filter_count step [] s = (0, s)"
| "filter_count step (k # ks) s =
     (let (hit, s1) = step k s; (n, s2) = filter_count step ks s1 in ((if hit then 1 else 0) + n, s2))"

lemma filter_count_simps:
  "fst (filter_count step (k # ks) s) = (if fst (step k s) then 1 else 0) + fst (filter_count step ks (snd (step k s)))"
  "snd (filter_count step (k # ks) s) = snd (filter_count step ks (snd (step k s)))"
  by (simp_all split: prod.split)

lemma distinct_map_of_rev: "distinct (map fst xs) \<Longrightarrow> map_of (rev xs) = map_of xs"
  by (intro map_of_eqI) (auto simp: rev_map [symmetric])

locale keyed_store =
  fixes inv :: "'s \<Rightarrow> bool" and free :: "'s \<Rightarrow> nat" and view :: "'s \<Rightarrow> 'k \<Rightarrow> 'v option"
    and put :: "'p \<Rightarrow> 's \<Rightarrow> 's" and fits :: "'p \<Rightarrow> bool" and key :: "'p \<Rightarrow> 'k" and content :: "'p \<Rightarrow> 'v"
    and del :: "'k \<Rightarrow> 's \<Rightarrow> bool \<times> 's"
  assumes put_inv: "inv s \<Longrightarrow> fits p \<Longrightarrow> 0 < free s \<Longrightarrow> inv (put p s)"
    and put_view: "inv s \<Longrightarrow> fits p \<Longrightarrow> view (put p s) = (view s)(key p \<mapsto> content p)"
    and put_free: "free (put p s) = free s - 1"
    and del_inv: "inv s \<Longrightarrow> inv (snd (del k s))"
    and del_view: "inv s \<Longrightarrow> view (snd (del k s)) = (view s)(k := None)"
    and del_found: "inv s \<Longrightarrow> fst (del k s) \<longleftrightarrow> k \<in> dom (view s)"
    and del_free: "free (snd (del k s)) = free s"
begin

lemma put_all_inv: "inv s \<Longrightarrow> list_all fits ps \<Longrightarrow> length ps \<le> free s \<Longrightarrow> inv (fold put ps s)"
  by (induction ps arbitrary: s) (simp_all add: put_inv put_free)

lemma put_all_free: "free (fold put ps s) = free s - length ps"
  by (induction ps arbitrary: s) (simp_all add: put_free)

text \<open>A batch acts as its entries from left to right: of two with the same key the later one stays.\<close>

lemma put_all_view:
  "inv s \<Longrightarrow> list_all fits ps \<Longrightarrow> length ps \<le> free s
    \<Longrightarrow> view (fold put ps s) = view s ++ map_of (rev (map (\<lambda>p. (key p, content p)) ps))"
  by (induction ps arbitrary: s) (simp_all add: put_inv put_free put_view map_add_upd_left fun_eq_iff map_add_def split: option.split)

lemma del_all_inv: "inv s \<Longrightarrow> inv (snd (filter_count del ks s))"
  by (induction ks arbitrary: s) (simp_all add: filter_count_simps del_inv del: filter_count.simps(2))

lemma del_all_free: "free (snd (filter_count del ks s)) = free s"
  by (induction ks arbitrary: s) (simp_all add: filter_count_simps del_free del: filter_count.simps(2))

lemma del_all_view: "inv s \<Longrightarrow> view (snd (filter_count del ks s)) = view s |` (- set ks)"
  by (induction ks arbitrary: s)
    (auto simp add: filter_count_simps del_inv del_view restrict_map_def fun_eq_iff simp del: filter_count.simps(2))

text \<open>The count is of distinct keys that were there, however often a key is named.\<close>

lemma del_all_count: "inv s \<Longrightarrow> fst (filter_count del ks s) = card (set ks \<inter> dom (view s))"
proof (induction ks arbitrary: s)
  case (Cons k ks)
  have "set (k # ks) \<inter> dom (view s) = (if k \<in> dom (view s) then {k} else {}) \<union> (set ks \<inter> (dom (view s) - {k}))"
    by auto
  moreover have "k \<notin> set ks \<inter> (dom (view s) - {k})" by simp
  moreover have "dom (view (snd (del k s))) = dom (view s) - {k}" using Cons.prems by (auto simp: del_view)
  ultimately show ?case
    using Cons.IH [OF del_inv [OF Cons.prems, of k]] Cons.prems
    by (auto simp: filter_count_simps del_found simp del: filter_count.simps(2))
qed simp

text \<open>Deleting after writing: what a log that replays both leaves.\<close>

lemma put_del_view:
  "inv s \<Longrightarrow> list_all fits ps \<Longrightarrow> length ps \<le> free s
    \<Longrightarrow> view (snd (filter_count del ks (fold put ps s)))
      = (view s ++ map_of (rev (map (\<lambda>p. (key p, content p)) ps))) |` (- set ks)"
  by (simp add: del_all_view put_all_inv put_all_view)

end

text \<open>A store that also lists its keys in a fixed order.\<close>

locale listed_store = keyed_store inv free view put fits key content del
  for inv :: "'s \<Rightarrow> bool" and free :: "'s \<Rightarrow> nat" and view :: "'s \<Rightarrow> 'k \<Rightarrow> 'v option"
    and put :: "'p \<Rightarrow> 's \<Rightarrow> 's" and fits :: "'p \<Rightarrow> bool" and key :: "'p \<Rightarrow> 'k" and content :: "'p \<Rightarrow> 'v"
    and del :: "'k \<Rightarrow> 's \<Rightarrow> bool \<times> 's" +
  fixes listing :: "'s \<Rightarrow> ('k \<times> 'v) list"
  assumes listing_distinct: "inv s \<Longrightarrow> distinct (map fst (listing s))"
    and listing_view: "inv s \<Longrightarrow> map_of (listing s) = view s"
begin

lemma listing_set: "inv s \<Longrightarrow> set (map fst (listing s)) = dom (view s)"
  using listing_view [of s] by (metis dom_map_of_conv_image_fst list.set_map)

lemma listing_length: "inv s \<Longrightarrow> length (listing s) = card (dom (view s))"
  using listing_set [of s] listing_distinct [of s] by (metis distinct_card length_map)

text \<open>Writing a listing into an empty store rebuilds the store.\<close>

lemma rebuild_view:
  assumes "inv s" and "inv e" "view e = Map.empty" "length (listing s) \<le> free e"
    and ps: "map (\<lambda>p. (key p, content p)) ps = listing s" "list_all fits ps"
  shows "view (fold put ps e) = view s"
proof -
  have "length ps = length (listing s)" using ps(1) by (metis length_map)
  moreover have "map_of (rev (listing s)) = map_of (listing s)"
    using assms(1) by (intro distinct_map_of_rev listing_distinct)
  ultimately show ?thesis using assms put_all_view [of e ps] listing_view [of s] by simp
qed

end

end
