(* ===== verification/Collections.thy ===== *)
theory Collections
  imports Hnsw Filter_Index Mmap Keyed_Store
begin

section \<open>Slot storage of a collection (\<open>collection.rs\<close>)\<close>

text \<open>
  The in-memory state of a collection and the operations on it. A hash map from ids to slots is an association list with one
  entry per id, a set of slots a set, \<open>usize\<close> a natural number; positions are guarded the way the code guards them, and
  the invariant below shows that no list is read out of range. The quantizers are the argument \<open>Q\<close>.
\<close>

definition INITIAL_INDEX_CAPACITY :: nat where "INITIAL_INDEX_CAPACITY = 1024"
definition MAX_PAYLOAD_BYTES :: nat where "MAX_PAYLOAD_BYTES = 16 * 1024 * 1024"

record sealed_refs =
  sr_refs :: "seg_ref list"
  sr_vector_count :: u64
  sr_tombstone_count :: u64

record base_tier =
  bt_regions :: "vectors_region list"
  bt_count :: nat
  bt_seg_refs :: "seg_ref list"
  bt_vector_count :: u64
  bt_tombstone_count :: u64
  bt_indexed :: bool

record 'q collection_data =
  cd_vectors :: "f32 list"
  cd_ids :: "string list"
  cd_id_to_slot :: "(string \<times> nat) list"
  cd_tombstones :: "nat set"
  cd_payloads :: "json option list"
  cd_sparses :: "sparse_vector option list"
  cd_index :: "hnsw_index option"
  cd_codes :: bytes
  cd_quant_params :: "'q option"
  cd_payload_indexes :: payload_indexes
  cd_base :: "base_tier option"
  cd_sealed :: "sealed_refs option"
  cd_dirty :: bool

definition data_empty :: "hnsw_index option \<Rightarrow> payload_indexes \<Rightarrow> 'q collection_data" where
  "data_empty index pix =
     \<lparr>cd_vectors = [], cd_ids = [], cd_id_to_slot = [], cd_tombstones = {}, cd_payloads = [], cd_sparses = [],
      cd_index = index, cd_codes = [], cd_quant_params = None, cd_payload_indexes = pix, cd_base = None,
      cd_sealed = None, cd_dirty = False\<rparr>"

subsection \<open>Reading a slot\<close>

definition in_region :: "u64 \<Rightarrow> vectors_region \<Rightarrow> bool" where
  "in_region slot r \<longleftrightarrow> vr_first_slot r \<le> slot \<and> slot < vr_first_slot r + vr_count r"

definition base_read :: "base_tier \<Rightarrow> u64 \<Rightarrow> f32 list option" where
  "base_read b slot = Option.bind (find (in_region slot) (bt_regions b)) (\<lambda>r. region_read_f32 r slot)"

definition base_count :: "'q collection_data \<Rightarrow> nat" where
  "base_count d = (case cd_base d of None \<Rightarrow> 0 | Some b \<Rightarrow> bt_count b)"

definition overlay_vector :: "'q collection_data \<Rightarrow> nat \<Rightarrow> nat \<Rightarrow> f32 list" where
  "overlay_vector d slot dim = (let o' = slot - base_count d in slice_of (cd_vectors d) (o' * dim) ((o' + 1) * dim))"

definition base_vector :: "'q collection_data \<Rightarrow> nat \<Rightarrow> f32 list" where
  "base_vector d slot =
     (case cd_base d of
        None \<Rightarrow> []
      | Some b \<Rightarrow> (case base_read b (word_of_nat slot) of None \<Rightarrow> [] | Some v \<Rightarrow> v))"

text \<open>\<open>vector_at\<close> borrows, \<open>copy_vector\<close> copies; both fall back to the empty vector for an unmapped base slot.\<close>

definition vector_at :: "'q collection_data \<Rightarrow> nat \<Rightarrow> nat \<Rightarrow> f32 list" where
  "vector_at d slot dim = (if base_count d \<le> slot then overlay_vector d slot dim else base_vector d slot)"

definition copy_vector :: "'q collection_data \<Rightarrow> nat \<Rightarrow> nat \<Rightarrow> f32 list" where
  "copy_vector d slot dim = (if base_count d \<le> slot then overlay_vector d slot dim else base_vector d slot)"

definition live_slot :: "'q collection_data \<Rightarrow> nat \<Rightarrow> bool" where
  "live_slot d slot \<longleftrightarrow> map_of (cd_id_to_slot d) (cd_ids d ! slot) = Some slot"

definition live_slots :: "'q collection_data \<Rightarrow> nat list" where
  "live_slots d = List.filter (live_slot d) [0..<length (cd_ids d)]"

subsection \<open>Writing\<close>

record prepared_point =
  pp_id :: string
  pp_vector :: "f32 list"
  pp_sparse :: "sparse_vector option"
  pp_payload :: "json option"

text \<open>The part \<open>tombstone\<close> and \<open>apply_upsert\<close> share: retire the slot an id has.\<close>

definition retire_slot :: "string \<Rightarrow> nat \<Rightarrow> 'q collection_data \<Rightarrow> 'q collection_data" where
  "retire_slot key slot d =
     d\<lparr>cd_id_to_slot := AList.delete key (cd_id_to_slot d),
       cd_tombstones := insert slot (cd_tombstones d),
       cd_payload_indexes := indexes_remove (cd_payload_indexes d) (word_of_nat slot) (cd_payloads d ! slot),
       cd_payloads := (cd_payloads d)[slot := None],
       cd_sparses := (cd_sparses d)[slot := None]\<rparr>"

definition tombstone :: "string \<Rightarrow> 'q collection_data \<Rightarrow> bool \<times> 'q collection_data" where
  "tombstone key d =
     (case map_of (cd_id_to_slot d) key of
        None \<Rightarrow> (False, d)
      | Some slot \<Rightarrow> (True, (retire_slot key slot d)\<lparr>cd_dirty := True\<rparr>))"

definition append_point :: "nat \<Rightarrow> prepared_point \<Rightarrow> 'q collection_data \<Rightarrow> 'q collection_data" where
  "append_point dim p d =
     (let slot = length (cd_ids d); overlay = slot - base_count d; vectors = cd_vectors d @ pp_vector p
      in d\<lparr>cd_vectors := vectors,
           cd_ids := cd_ids d @ [pp_id p],
           cd_payloads := cd_payloads d @ [pp_payload p],
           cd_sparses := cd_sparses d @ [pp_sparse p],
           cd_id_to_slot := AList.update (pp_id p) slot (cd_id_to_slot d),
           cd_payload_indexes := indexes_insert (cd_payload_indexes d) (word_of_nat slot) (pp_payload p),
           cd_dirty := True,
           cd_index := map_option (hnsw_insert (slice_of vectors (overlay * dim) ((overlay + 1) * dim)) slot) (cd_index d)\<rparr>)"

definition apply_upsert :: "nat \<Rightarrow> prepared_point \<Rightarrow> 'q collection_data \<Rightarrow> 'q collection_data" where
  "apply_upsert dim p d =
     append_point dim p
       (case map_of (cd_id_to_slot d) (pp_id p) of None \<Rightarrow> d | Some slot \<Rightarrow> retire_slot (pp_id p) slot d)"

definition apply_prepared :: "nat \<Rightarrow> prepared_point list \<Rightarrow> 'q collection_data \<Rightarrow> 'q collection_data" where
  "apply_prepared dim ps d = fold (apply_upsert dim) ps d"

definition tombstone_all :: "string list \<Rightarrow> 'q collection_data \<Rightarrow> nat \<times> 'q collection_data" where
  "tombstone_all keys d = filter_count tombstone keys d"

text \<open>Validation and normalization of one point; \<open>json_len\<close> is the length of \<open>serde_json\<close>'s text of a payload.\<close>

definition reserved_key :: "json \<Rightarrow> string option" where
  "reserved_key payload =
     Option.bind (as_object payload) (\<lambda>es. find (\<lambda>k. k \<noteq> [] \<and> hd k = CHR ''_'') (map fst es))"

definition reserved_error :: "string \<Rightarrow> vec_lite_error" where
  "reserved_error key = InvalidArgument (''payload key '' @ quoted key @ '' is reserved (keys starting with '' @ [CHR 0x27] @ ''_'' @ [CHR 0x27] @ '')'')"

definition vector_norm :: "f32 list \<Rightarrow> f64" where
  "vector_norm v = f64_sqrt (foldl f64_add 0x8000000000000000 (map (\<lambda>x. f64_mul (f64_of_f32 x) (f64_of_f32 x)) v))"

definition scale_vector :: "f64 \<Rightarrow> f32 list \<Rightarrow> f32 list" where
  "scale_vector norm v = map (\<lambda>x. f32_of_f64 (f64_div (f64_of_f32 x) norm)) v"

definition check_payload :: "(json \<Rightarrow> nat) \<Rightarrow> bool \<Rightarrow> point \<Rightarrow> unit res" where
  "check_payload json_len allow_reserved p =
     (case pt_payload p of
        None \<Rightarrow> Inr ()
      | Some payload \<Rightarrow>
          (case (if allow_reserved then None else reserved_key payload) of
             Some key \<Rightarrow> Inl (reserved_error key)
           | None \<Rightarrow>
               if json_len payload > MAX_PAYLOAD_BYTES
               then Inl (InvalidArgument (''payload for id '' @ quoted (pt_id p) @ '' is '' @ show_nat (json_len payload)
                           @ '' bytes, over the '' @ show_nat MAX_PAYLOAD_BYTES @ ''-byte limit''))
               else Inr ()))"

definition check_sparse :: "collection_options \<Rightarrow> bool \<Rightarrow> point \<Rightarrow> unit res" where
  "check_sparse opts allow_reserved p =
     (case pt_sparse p of
        None \<Rightarrow> Inr ()
      | Some sparse \<Rightarrow>
          tryR (sparse_validate sparse) (\<lambda>_.
          if \<not> allow_reserved \<and> co_embedding_provider opts \<noteq> None
          then Inl (InvalidArgument ''auto-embed collections manage the sparse lane; do not supply an explicit sparse vector'')
          else Inr ()))"

definition prepare_vector :: "collection_options \<Rightarrow> point \<Rightarrow> f32 list res" where
  "prepare_vector opts p =
     (if co_metric opts = Cosine
      then let norm = vector_norm (pt_vector p)
        in if f64_eq norm 0
           then Inl (InvalidArgument (''zero vector for id '' @ quoted (pt_id p) @ '' is not allowed with the cosine metric''))
           else Inr (scale_vector norm (pt_vector p))
      else Inr (pt_vector p))"

definition prepare_inner :: "(json \<Rightarrow> nat) \<Rightarrow> collection_options \<Rightarrow> bool \<Rightarrow> point \<Rightarrow> prepared_point res" where
  "prepare_inner json_len opts allow_reserved p =
     tryR (validate_id (pt_id p)) (\<lambda>_.
     if length (pt_vector p) \<noteq> co_dimension opts
     then Inl (DimensionMismatch (co_dimension opts) (length (pt_vector p)))
     else if \<exists>x\<in>set (pt_vector p). \<not> f32_is_finite x
     then Inl (InvalidArgument (''vector for id '' @ quoted (pt_id p) @ '' contains NaN or infinite values''))
     else
       tryR (check_payload json_len allow_reserved p) (\<lambda>_.
       tryR (check_sparse opts allow_reserved p) (\<lambda>_.
       tryR (prepare_vector opts p) (\<lambda>vector.
         Inr \<lparr>pp_id = pt_id p, pp_vector = vector, pp_sparse = pt_sparse p, pp_payload = pt_payload p\<rparr>))))"

end
