(* ===== verification/Wal.thy ===== *)
theory Wal
  imports Instances Options Files
begin

section \<open>The write-ahead log (\<open>storage/wal.rs\<close>)\<close>

text \<open>
  Entry framing, append, scan and truncate. The state is the handle (\<open>uuid_prefix\<close>, \<open>next_seq\<close>) and the bytes of
  the sidecar file. \<open>crc\<close> is \<open>crc32fast\<close> over the header prefix and the body. \<open>wal_append\<close> also returns whether it
  synced. The log of acknowledged entries (\<open>wal_holds\<close>) is the abstract state: a scan recovers exactly it.
\<close>

definition WAL_MAGIC :: bytes where "WAL_MAGIC = [0x56, 0x4C, 0x57, 0x4C]"
definition WAL_FORMAT_VERSION :: u32 where "WAL_FORMAT_VERSION = 1"
definition WAL_HEADER_SIZE :: nat where "WAL_HEADER_SIZE = 16"
definition ENTRY_HEADER_SIZE :: nat where "ENTRY_HEADER_SIZE = 24"
definition ENTRY_CRC_PREFIX :: nat where "ENTRY_CRC_PREFIX = 20"

datatype wal_op =
  UpsertBatch | DeleteBatch | CreateColl | DropColl | Rename | Alias | VocabUpdate | PidxDeclare

fun wal_op_to_byte :: "wal_op \<Rightarrow> u8" where
  "wal_op_to_byte UpsertBatch = 1"
| "wal_op_to_byte DeleteBatch = 2"
| "wal_op_to_byte CreateColl = 3"
| "wal_op_to_byte DropColl = 4"
| "wal_op_to_byte Rename = 5"
| "wal_op_to_byte Alias = 6"
| "wal_op_to_byte VocabUpdate = 7"
| "wal_op_to_byte PidxDeclare = 8"

definition wal_op_from_byte :: "u8 \<Rightarrow> wal_op res" where
  "wal_op_from_byte b =
     (if b = 1 then Inr UpsertBatch
      else if b = 2 then Inr DeleteBatch
      else if b = 3 then Inr CreateColl
      else if b = 4 then Inr DropColl
      else if b = 5 then Inr Rename
      else if b = 6 then Inr Alias
      else if b = 7 then Inr VocabUpdate
      else if b = 8 then Inr PidxDeclare
      else Inl (Corrupt (''wal: unknown op '' @ show_nat (unat b))))"

record wal_entry =
  we_seq :: u64
  we_coll_id :: u32
  we_op :: wal_op
  we_body :: bytes

definition entry_crc :: "(bytes \<Rightarrow> u32) \<Rightarrow> bytes \<Rightarrow> bytes \<Rightarrow> u32" where
  "entry_crc crc header_prefix body = crc (header_prefix @ body)"

text \<open>The 20 bytes in front of the checksum.\<close>

definition entry_prefix :: "wal_entry \<Rightarrow> bytes" where
  "entry_prefix e = to_le 8 (we_seq e) @ to_le 4 (we_coll_id e) @ [wal_op_to_byte (we_op e)] @ [0, 0, 0]
     @ to_le 4 (word_of_nat (length (we_body e)) :: u32)"

definition entry_encode :: "(bytes \<Rightarrow> u32) \<Rightarrow> wal_entry \<Rightarrow> bytes res" where
  "entry_encode crc e =
     (if 2 ^ 32 \<le> length (we_body e) then Inl (Corrupt ''wal: entry body exceeds 4 GiB'')
      else Inr (entry_prefix e @ to_le 4 (entry_crc crc (entry_prefix e) (we_body e)) @ we_body e))"

record wal =
  wl_uuid_prefix :: bytes
  wl_next_seq :: u64

record replay =
  rp_entries :: "wal_entry list"
  rp_discarded_tail :: bool

definition wal_header :: "bytes \<Rightarrow> bytes" where
  "wal_header uuid_prefix = WAL_MAGIC @ to_le 4 WAL_FORMAT_VERSION @ uuid_prefix"

definition wal_write_header :: "bytes \<Rightarrow> bytes \<Rightarrow> bytes" where
  "wal_write_header uuid_prefix f = fwrite 0 (wal_header uuid_prefix) f"

text \<open>\<open>f\<close> is the sidecar as found, empty when it was just created.\<close>

definition wal_open :: "bytes \<Rightarrow> bytes \<Rightarrow> wal \<times> bytes" where
  "wal_open uuid f =
     (let prefix = take 8 uuid
      in (\<lparr>wl_uuid_prefix = prefix, wl_next_seq = 1\<rparr>,
          if length f < WAL_HEADER_SIZE then wal_write_header prefix f else f))"

definition wal_append ::
  "(bytes \<Rightarrow> u32) \<Rightarrow> u32 \<Rightarrow> wal_op \<Rightarrow> bytes \<Rightarrow> durability \<Rightarrow> wal \<times> bytes \<Rightarrow> (wal \<times> bytes) \<times> (u64 \<times> bool) res" where
  "wal_append crc coll op body durability = (\<lambda>(w, f).
     let seq = wl_next_seq w;
         entry = \<lparr>we_seq = seq, we_coll_id = coll, we_op = op, we_body = body\<rparr>
     in case entry_encode crc entry of
          Inl e \<Rightarrow> ((w, f), Inl e)
        | Inr bs \<Rightarrow> ((w\<lparr>wl_next_seq := seq + 1\<rparr>, f @ bs), Inr (seq, durability = Full)))"

definition decode_entry :: "(bytes \<Rightarrow> u32) \<Rightarrow> bytes \<Rightarrow> nat \<Rightarrow> u64 \<Rightarrow> (wal_entry \<times> nat) option" where
  "decode_entry crc all at expected_seq =
     (if length all < at + ENTRY_HEADER_SIZE then None
      else
        theR (tryR (le_u64 all at ''wal'') (\<lambda>seq.
              if seq \<noteq> expected_seq then Inl (Corrupt [])
              else
              tryR (le_u32 all (at + 8) ''wal'') (\<lambda>coll.
              tryR (wal_op_from_byte (all ! (at + 12))) (\<lambda>op.
              tryR (le_u32 all (at + 16) ''wal'') (\<lambda>body_len.
              tryR (le_u32 all (at + 20) ''wal'') (\<lambda>stored_crc.
              let body_start = at + ENTRY_HEADER_SIZE;
                  body_end = body_start + unat body_len
              in if length all < body_end then Inl (Corrupt [])
                 else let body = slice_of all body_start body_end
                   in if entry_crc crc (slice_of all at (at + ENTRY_CRC_PREFIX)) body \<noteq> stored_crc
                      then Inl (Corrupt [])
                      else Inr (\<lparr>we_seq = seq, we_coll_id = coll, we_op = op, we_body = body\<rparr>, body_end))))))))"

lemma decode_entry_next: "decode_entry crc all at s = Some (e, next) \<Longrightarrow> at + 24 \<le> next \<and> next \<le> length all"
  by (auto simp: decode_entry_def theR_def tryR_eq_Inr ENTRY_HEADER_SIZE_def Let_def split: if_splits sum.splits)

function scan_from :: "(bytes \<Rightarrow> u32) \<Rightarrow> bytes \<Rightarrow> nat \<Rightarrow> u64 \<Rightarrow> wal_entry list \<times> bool" where
  "scan_from crc all at expected_seq =
     (if at < length all
      then case decode_entry crc all at expected_seq of
             Some (entry, next) \<Rightarrow>
               let (es, d) = scan_from crc all next (we_seq entry + 1) in (entry # es, d)
           | None \<Rightarrow> ([], True)
      else ([], False))"
  by pat_completeness auto
termination
  by (relation "measure (\<lambda>(crc, all, at, s). length all - at)") (auto dest!: decode_entry_next)

declare scan_from.simps [simp del]

definition wal_scan :: "(bytes \<Rightarrow> u32) \<Rightarrow> bytes \<Rightarrow> bytes \<Rightarrow> replay" where
  "wal_scan crc all uuid_prefix =
     (if length all < WAL_HEADER_SIZE then \<lparr>rp_entries = [], rp_discarded_tail = False\<rparr>
      else if slice_of all 0 4 \<noteq> WAL_MAGIC \<or> slice_of all 8 16 \<noteq> uuid_prefix
      then \<lparr>rp_entries = [], rp_discarded_tail = True\<rparr>
      else let (es, d) = scan_from crc all WAL_HEADER_SIZE 1
        in \<lparr>rp_entries = es, rp_discarded_tail = d\<rparr>)"

definition wal_replay :: "(bytes \<Rightarrow> u32) \<Rightarrow> wal \<times> bytes \<Rightarrow> wal \<times> replay" where
  "wal_replay crc = (\<lambda>(w, f).
     let r = wal_scan crc f (wl_uuid_prefix w)
     in (w\<lparr>wl_next_seq := (if rp_entries r = [] then 1 else we_seq (last (rp_entries r)) + 1)\<rparr>, r))"

definition wal_truncate :: "wal \<times> bytes \<Rightarrow> wal \<times> bytes" where
  "wal_truncate = (\<lambda>(w, f).
     (w\<lparr>wl_next_seq := 1\<rparr>, wal_write_header (wl_uuid_prefix w) (take WAL_HEADER_SIZE (fpad WAL_HEADER_SIZE f))))"

definition wal_size :: "bytes \<Rightarrow> nat" where
  "wal_size f = length f"

definition wal_is_empty :: "bytes \<Rightarrow> bool" where
  "wal_is_empty f \<longleftrightarrow> wal_size f \<le> WAL_HEADER_SIZE"

subsection \<open>Framing\<close>

interpretation wal_op_tag: byte_tag wal_op_to_byte wal_op_from_byte
proof
  show "wal_op_from_byte (wal_op_to_byte x) = Inr x" for x
    by (cases x) (simp_all add: wal_op_from_byte_def)
  show "wal_op_from_byte b = Inr x \<Longrightarrow> wal_op_to_byte x = b" for b x
    by (auto simp: wal_op_from_byte_def split: if_splits)
  show "only_corrupt (wal_op_from_byte b)" for b
    by (auto simp: wal_op_from_byte_def)
qed

lemma length_entry_prefix [simp]: "length (entry_prefix e) = 20"
  by (simp add: entry_prefix_def)

lemma entry_encode_form:
  "entry_encode crc e = Inr bs \<longleftrightarrow> length (we_body e) < 2 ^ 32
     \<and> bs = entry_prefix e @ to_le 4 (entry_crc crc (entry_prefix e) (we_body e)) @ we_body e"
  by (auto simp: entry_encode_def)

lemma entry_encode_length: "entry_encode crc e = Inr bs \<Longrightarrow> length bs = 24 + length (we_body e)"
  by (simp add: entry_encode_form)

text \<open>The header fields of an entry that begins at \<open>at\<close>.\<close>

lemma entry_fields:
  assumes d: "drop at all = entry_prefix e @ to_le 4 (k :: u32) @ rest"
  shows "at + 24 \<le> length all" "le_u64 all at c = Inr (we_seq e)" "le_u32 all (at + 8) c = Inr (we_coll_id e)"
    "all ! (at + 12) = wal_op_to_byte (we_op e)"
    "le_u32 all (at + 16) c = Inr (word_of_nat (length (we_body e)))" "le_u32 all (at + 20) c = Inr k"
    "drop (at + 24) all = rest" "slice_of all at (at + 20) = entry_prefix e"
proof -
  have "length (drop at all) = 24 + length rest" by (simp add: d)
  then show le: "at + 24 \<le> length all" by simp
  have d0: "drop at all = to_le 8 (we_seq e) @ to_le 4 (we_coll_id e) @ [wal_op_to_byte (we_op e)] @ [0, 0, 0]
     @ to_le 4 (word_of_nat (length (we_body e)) :: u32) @ to_le 4 k @ rest"
    by (simp add: d entry_prefix_def)
  have d8: "drop (at + 8) all = to_le 4 (we_coll_id e) @ [wal_op_to_byte (we_op e)] @ [0, 0, 0]
     @ to_le 4 (word_of_nat (length (we_body e)) :: u32) @ to_le 4 k @ rest"
    by (rule drop_next [OF d0]) simp
  have d12: "drop (at + 12) all = [wal_op_to_byte (we_op e)] @ [0, 0, 0]
     @ to_le 4 (word_of_nat (length (we_body e)) :: u32) @ to_le 4 k @ rest"
    by (rule drop_next [OF d8]) simp
  have d13: "drop (at + 13) all = [0, 0, 0] @ to_le 4 (word_of_nat (length (we_body e)) :: u32) @ to_le 4 k @ rest"
    by (rule drop_next [OF d12]) simp
  have d16: "drop (at + 16) all = to_le 4 (word_of_nat (length (we_body e)) :: u32) @ to_le 4 k @ rest"
    by (rule drop_next [OF d13]) simp
  have d20: "drop (at + 20) all = to_le 4 k @ rest"
    by (rule drop_next [OF d16]) simp
  show "drop (at + 24) all = rest"
    by (rule drop_next [OF d20]) simp
  show "le_u64 all at c = Inr (we_seq e)" "le_u32 all (at + 8) c = Inr (we_coll_id e)"
    "le_u32 all (at + 16) c = Inr (word_of_nat (length (we_body e)))" "le_u32 all (at + 20) c = Inr k"
    using le_drop(3) [OF d0] le_drop(2) [OF d8] le_drop(2) [OF d16] le_drop(2) [OF d20] by simp_all
  show "all ! (at + 12) = wal_op_to_byte (we_op e)"
    using le nth_drop [of "at + 12" all 0] by (simp add: d12)
  show "slice_of all at (at + 20) = entry_prefix e"
    by (simp add: slice_of_def d)
qed

lemma decode_entry_encode:
  assumes e: "entry_encode crc e = Inr bs" and d: "drop at all = bs @ rest"
  shows "decode_entry crc all at (we_seq e) = Some (e, at + length bs)"
proof -
  from e have len: "length (we_body e) < 2 ^ 32"
    and bs: "bs = entry_prefix e @ to_le 4 (entry_crc crc (entry_prefix e) (we_body e)) @ we_body e"
    by (simp_all add: entry_encode_form)
  note f = entry_fields [OF d [unfolded bs append_assoc]]
  have "length (drop (at + 24) all) = length (we_body e) + length rest" by (simp add: f(7))
  then have le: "at + 24 + length (we_body e) \<le> length all" using f(1) by simp
  have sl: "slice_of all (at + 24) (at + 24 + length (we_body e)) = we_body e"
    by (simp add: slice_of_def f(7))
  show ?thesis
    using le by (simp add: decode_entry_def ENTRY_HEADER_SIZE_def ENTRY_CRC_PREFIX_def f(1-6,8)
        wal_op_tag.from_to unat_u32 [OF len] Let_def sl bs)
qed

text \<open>A torn entry, and one followed by too few bytes to reach its declared end, are not decoded.\<close>

lemma decode_entry_short:
  assumes e: "entry_encode crc e = Inr bs" and d: "drop at all = take n bs @ extra"
    and short: "length (take n bs @ extra) < length bs" and n: "24 \<le> n \<or> extra = []"
  shows "decode_entry crc all at s = None"
proof (cases "length all < at + 24")
  case True
  then show ?thesis by (simp add: decode_entry_def ENTRY_HEADER_SIZE_def)
next
  case False
  from e have len: "length (we_body e) < 2 ^ 32"
    and bs: "bs = entry_prefix e @ to_le 4 (entry_crc crc (entry_prefix e) (we_body e)) @ we_body e"
    by (simp_all add: entry_encode_form)
  have l: "length (drop at all) = length (take n bs @ extra)" by (simp add: d)
  with False n have "24 \<le> n" by (auto simp: min_def split: if_splits)
  then have "take n bs = entry_prefix e @ to_le 4 (entry_crc crc (entry_prefix e) (we_body e)) @ take (n - 24) (we_body e)"
    by (simp add: bs)
  with d have d': "drop at all = entry_prefix e @ to_le 4 (entry_crc crc (entry_prefix e) (we_body e))
      @ take (n - 24) (we_body e) @ extra" by simp
  note f = entry_fields [OF d']
  have "length all < at + 24 + length (we_body e)"
    using short l f(1) e by (simp add: entry_encode_length)
  then show ?thesis
    by (simp add: decode_entry_def ENTRY_HEADER_SIZE_def f(1-6) wal_op_tag.from_to unat_u32 [OF len] Let_def)
qed

subsection \<open>Scanning\<close>

text \<open>Sequence numbers without a gap, from \<open>s\<close>.\<close>

fun numbered :: "u64 \<Rightarrow> wal_entry list \<Rightarrow> bool" where
  "numbered s [] \<longleftrightarrow> True"
| "numbered s (e # es) \<longleftrightarrow> we_seq e = s \<and> numbered (s + 1) es"

lemma numbered_append: "numbered s (es @ fs) \<longleftrightarrow> numbered s es \<and> numbered (s + word_of_nat (length es)) fs"
  by (induction es arbitrary: s) (simp_all add: algebra_simps)

lemma numbered_last: "numbered s es \<Longrightarrow> es \<noteq> [] \<Longrightarrow> we_seq (last es) + 1 = s + word_of_nat (length es)"
proof (induction es arbitrary: s)
  case (Cons e es)
  show ?case
  proof (cases "es = []")
    case False
    have "we_seq (last es) + 1 = (s + 1) + word_of_nat (length es)"
      by (rule Cons.IH) (use Cons.prems False in simp_all)
    with False show ?thesis by (simp add: ac_simps)
  qed (use Cons.prems in simp)
qed simp

lemma decode_entry_seq: "decode_entry crc all at s = Some (e, next) \<Longrightarrow> we_seq e = s"
  by (auto simp: decode_entry_def theR_def tryR_eq_Inr Let_def split: if_splits sum.splits)

lemma scan_from_numbered: "scan_from crc all at s = (es, d) \<Longrightarrow> numbered s es"
proof (induction crc all at s arbitrary: es d rule: scan_from.induct)
  case (1 crc all at s)
  show ?case
  proof (cases "at < length all")
    case False
    then show ?thesis using 1(2) by (simp add: scan_from.simps [of crc all at s])
  next
    case True
    show ?thesis
    proof (cases "decode_entry crc all at s")
      case None
      then show ?thesis using 1(2) True by (simp add: scan_from.simps [of crc all at s])
    next
      case (Some p)
      obtain e nx where p: "p = (e, nx)" by (cases p)
      obtain es' d' where r: "scan_from crc all nx (we_seq e + 1) = (es', d')" by fastforce
      have "numbered (we_seq e + 1) es'"
        by (rule 1(1) [OF True _ p [symmetric] r]) (simp add: Some p)
      moreover have "es = e # es'"
        using 1(2) True Some p r by (simp add: scan_from.simps [of crc all at s])
      ultimately show ?thesis
        using decode_entry_seq [of crc all at s e nx] Some p by simp
    qed
  qed
qed

text \<open>A run of encoded entries is scanned as those entries, whatever comes behind it.\<close>

lemma scan_from_entries:
  "numbered s es \<Longrightarrow> mapR (entry_encode crc) es = Inr bss \<Longrightarrow> drop at all = concat bss @ rest \<Longrightarrow>
     scan_from crc all at s =
       (let (es', d) = scan_from crc all (at + length (concat bss)) (s + word_of_nat (length es)) in (es @ es', d))"
proof (induction es arbitrary: at s bss)
  case Nil
  then show ?case by (auto simp: case_prod_beta)
next
  case (Cons e es)
  from Cons.prems(2) obtain bs bss' where b: "entry_encode crc e = Inr bs"
    "mapR (entry_encode crc) es = Inr bss'" "bss = bs # bss'"
    by (auto simp: tryR_eq_Inr)
  have d: "drop at all = bs @ concat bss' @ rest" using Cons.prems(3) by (simp add: b(3))
  have "length (drop at all) \<ge> 24" using entry_encode_length [OF b(1)] by (simp add: d)
  then have lt: "at < length all" by simp
  have de: "decode_entry crc all at s = Some (e, at + length bs)"
    using decode_entry_encode [OF b(1) d] Cons.prems(1) by simp
  have IH: "scan_from crc all (at + length bs) (s + 1) =
      (let (es', d) = scan_from crc all (at + length bs + length (concat bss')) (s + 1 + word_of_nat (length es))
       in (es @ es', d))"
    using Cons.prems(1) by (intro Cons.IH [OF _ b(2) drop_add_append [OF d]]) simp
  show ?case
    using Cons.prems(1)
    by (subst scan_from.simps) (simp add: lt de IH b(3) case_prod_beta Let_def add.assoc)
qed

definition encoded_log :: "(bytes \<Rightarrow> u32) \<Rightarrow> bytes \<Rightarrow> wal_entry list \<Rightarrow> bytes \<Rightarrow> bool" where
  "encoded_log crc prefix es f \<longleftrightarrow> length prefix = 8 \<and> numbered 1 es
     \<and> (\<exists>bss. mapR (entry_encode crc) es = Inr bss \<and> f = wal_header prefix @ concat bss)"

lemma length_wal_header: "length prefix = 8 \<Longrightarrow> length (wal_header prefix) = 16"
  by (simp add: wal_header_def WAL_MAGIC_def)

lemma wal_scan_header:
  assumes "length prefix = 8"
  shows "wal_scan crc (wal_header prefix @ rest) prefix =
    (let (es, d) = scan_from crc (wal_header prefix @ rest) 16 1 in \<lparr>rp_entries = es, rp_discarded_tail = d\<rparr>)"
proof -
  have "slice_of (wal_header prefix @ rest) 0 4 = WAL_MAGIC" "slice_of (wal_header prefix @ rest) 8 16 = prefix"
    using assms by (simp_all add: wal_header_def WAL_MAGIC_def slice_of_def)
  then show ?thesis
    using length_wal_header [OF assms] by (simp add: wal_scan_def WAL_HEADER_SIZE_def)
qed

text \<open>
  Whatever follows a log of encoded entries, they are recovered; what is added depends only on how the bytes behind
  them decode at the next sequence number.
\<close>

lemma wal_scan_log:
  assumes log: "encoded_log crc prefix es f" and tail: "tail = [] \<or> decode_entry crc (f @ tail) (length f) (1 + word_of_nat (length es)) = None"
  shows "wal_scan crc (f @ tail) prefix = \<lparr>rp_entries = es, rp_discarded_tail = (tail \<noteq> [])\<rparr>"
proof -
  from log obtain bss where b: "length prefix = 8" "numbered 1 es" "mapR (entry_encode crc) es = Inr bss"
    "f = wal_header prefix @ concat bss" by (auto simp: encoded_log_def)
  have "drop 16 (f @ tail) = concat bss @ tail"
    using length_wal_header [OF b(1)] by (simp add: b(4))
  from scan_from_entries [OF b(2,3) this]
  have "scan_from crc (f @ tail) 16 1 = (let (es', d) = scan_from crc (f @ tail) (length f) (1 + word_of_nat (length es))
      in (es @ es', d))"
    using length_wal_header [OF b(1)] by (simp add: b(4))
  also have "scan_from crc (f @ tail) (length f) (1 + word_of_nat (length es)) = ([], tail \<noteq> [])"
    using tail by (subst scan_from.simps) auto
  finally have s: "scan_from crc (f @ tail) 16 1 = (es, tail \<noteq> [])" by simp
  have "f @ tail = wal_header prefix @ (concat bss @ tail)" by (simp add: b(4))
  then show ?thesis using wal_scan_header [OF b(1), of crc "concat bss @ tail"] s by simp
qed

lemma wal_scan_clean: "encoded_log crc prefix es f \<Longrightarrow> wal_scan crc f prefix = \<lparr>rp_entries = es, rp_discarded_tail = False\<rparr>"
  using wal_scan_log [of crc prefix es f "[]"] by simp

lemma wal_scan_torn:
  assumes log: "encoded_log crc prefix es f" and e: "entry_encode crc e = Inr bs"
    and n: "n < length bs"
  shows "wal_scan crc (f @ take n bs) prefix = \<lparr>rp_entries = es, rp_discarded_tail = (0 < n)\<rparr>"
proof -
  have "decode_entry crc (f @ take n bs) (length f) (1 + word_of_nat (length es)) = None"
    by (rule decode_entry_short [OF e, where n = n and extra = "[]"]) (use n in simp_all)
  with log have "wal_scan crc (f @ take n bs) prefix = \<lparr>rp_entries = es, rp_discarded_tail = (take n bs \<noteq> [])\<rparr>"
    by (intro wal_scan_log) simp_all
  moreover have "bs \<noteq> []" using n by auto
  ultimately show ?thesis by simp
qed

subsection \<open>The log as an interface\<close>

text \<open>
  What the persistence layer relies on: a log that appends, resets, and recovers exactly what was appended. \<open>entry\<close> is the
  record an append writes.
\<close>

locale append_log =
  fixes holds :: "'s \<Rightarrow> 'e list \<Rightarrow> bool"
    and app :: "'a \<Rightarrow> 's \<Rightarrow> 's option"
    and entry :: "'s \<Rightarrow> 'a \<Rightarrow> 'e"
    and reset :: "'s \<Rightarrow> 's"
    and recover :: "'s \<Rightarrow> 'e list"
  assumes app_holds: "holds s es \<Longrightarrow> app a s = Some s' \<Longrightarrow> holds s' (es @ [entry s a])"
    and reset_holds: "holds s es \<Longrightarrow> holds (reset s) []"
    and recover_holds: "holds s es \<Longrightarrow> recover s = es"
begin

text \<open>A run of appends (those that succeed), with the entries they write.\<close>

lemma app_recover: "holds s es \<Longrightarrow> app a s = Some s' \<Longrightarrow> recover s' = recover s @ [entry s a]"
  by (simp add: app_holds recover_holds)

lemma fold_apps:
  "holds s es \<Longrightarrow> foldR (\<lambda>s a. case app a s of None \<Rightarrow> Inl () | Some s' \<Rightarrow> Inr s') s as = Inr s' \<Longrightarrow>
     \<exists>fs. list_all2 (\<lambda>a f. \<exists>s. f = entry s a) as fs \<and> holds s' (es @ fs) \<and> recover s' = es @ fs"
proof (induction as arbitrary: s es)
  case Nil
  then show ?case by (auto simp: recover_holds)
next
  case (Cons a as)
  from Cons.prems(2) obtain s1 where s1: "app a s = Some s1"
    "foldR (\<lambda>s a. case app a s of None \<Rightarrow> Inl () | Some s' \<Rightarrow> Inr s') s1 as = Inr s'"
    by (auto simp: tryR_eq_Inr split: option.splits)
  from Cons.IH [OF app_holds [OF Cons.prems(1) s1(1)] s1(2)] obtain fs where
    "list_all2 (\<lambda>a f. \<exists>s. f = entry s a) as fs" "holds s' ((es @ [entry s a]) @ fs)" "recover s' = (es @ [entry s a]) @ fs" by blast
  then show ?case by (intro exI [of _ "entry s a # fs"]) auto
qed

lemma reset_recover: "holds s es \<Longrightarrow> recover (reset s) = []"
  by (rule recover_holds) (rule reset_holds)

end

definition wal_holds :: "(bytes \<Rightarrow> u32) \<Rightarrow> wal \<times> bytes \<Rightarrow> wal_entry list \<Rightarrow> bool" where
  "wal_holds crc s es \<longleftrightarrow> encoded_log crc (wl_uuid_prefix (fst s)) es (snd s)
     \<and> wl_next_seq (fst s) = 1 + word_of_nat (length es)"

definition wal_app ::
  "(bytes \<Rightarrow> u32) \<Rightarrow> u32 \<times> wal_op \<times> bytes \<times> durability \<Rightarrow> wal \<times> bytes \<Rightarrow> (wal \<times> bytes) option" where
  "wal_app crc a s = (case a of (coll, op, body, d) \<Rightarrow>
     (case wal_append crc coll op body d s of (s', Inl _) \<Rightarrow> None | (s', Inr _) \<Rightarrow> Some s'))"

definition wal_entry_of :: "wal \<times> bytes \<Rightarrow> u32 \<times> wal_op \<times> bytes \<times> durability \<Rightarrow> wal_entry" where
  "wal_entry_of s a = (case a of (coll, op, body, d) \<Rightarrow>
     \<lparr>we_seq = wl_next_seq (fst s), we_coll_id = coll, we_op = op, we_body = body\<rparr>)"

lemma mapR_append_one: "mapR f xs = Inr ys \<Longrightarrow> f x = Inr y \<Longrightarrow> mapR f (xs @ [x]) = Inr (ys @ [y])"
  by (induction xs arbitrary: ys) (auto simp: tryR_eq_Inr)

lemma wal_append_holds:
  assumes h: "wal_holds crc s es" and a: "wal_append crc coll op body d s = (s', Inr (seq, synced))"
  shows "wal_holds crc s' (es @ [\<lparr>we_seq = seq, we_coll_id = coll, we_op = op, we_body = body\<rparr>])
    \<and> seq = 1 + word_of_nat (length es) \<and> synced = (d = Full)"
proof -
  obtain w f where s: "s = (w, f)" by (cases s)
  let ?e = "\<lparr>we_seq = wl_next_seq w, we_coll_id = coll, we_op = op, we_body = body\<rparr>"
  obtain bs where e: "entry_encode crc ?e = Inr bs" and s': "s' = (w\<lparr>wl_next_seq := wl_next_seq w + 1\<rparr>, f @ bs)"
    and r: "seq = wl_next_seq w" "synced = (d = Full)"
  proof (cases "entry_encode crc ?e")
    case (Inl x)
    then show thesis using a by (simp add: wal_append_def s Let_def)
  next
    case (Inr bs)
    then have "s' = (w\<lparr>wl_next_seq := wl_next_seq w + 1\<rparr>, f @ bs)" "seq = wl_next_seq w" "synced = (d = Full)"
      using a by (auto simp: wal_append_def s Let_def)
    with Inr show thesis by (rule that)
  qed
  from h obtain bss where b: "length (wl_uuid_prefix w) = 8" "numbered 1 es" "mapR (entry_encode crc) es = Inr bss"
    "f = wal_header (wl_uuid_prefix w) @ concat bss" "wl_next_seq w = 1 + word_of_nat (length es)"
    by (auto simp: wal_holds_def encoded_log_def s)
  have "mapR (entry_encode crc) (es @ [?e]) = Inr (bss @ [bs])"
    by (rule mapR_append_one [OF b(3) e])
  moreover have "numbered 1 (es @ [?e])" using b(2,5) by (simp add: numbered_append)
  ultimately have "encoded_log crc (wl_uuid_prefix w) (es @ [?e]) (f @ bs)"
    using b(1,4) by (auto simp: encoded_log_def)
  then show ?thesis
    using b(5) r by (simp add: wal_holds_def s' algebra_simps)
qed

lemma fwrite_header_append: "length hdr \<le> length f \<Longrightarrow> hdr \<noteq> [] \<Longrightarrow> fwrite 0 hdr f = hdr @ drop (length hdr) f"
  by (simp add: fwrite_def put_def fpad_def)

lemma wal_truncate_holds: "wal_holds crc s es \<Longrightarrow> wal_holds crc (wal_truncate s) []"
proof -
  assume h: "wal_holds crc s es"
  obtain w f where s: "s = (w, f)" by (cases s)
  have p: "length (wl_uuid_prefix w) = 8" using h by (simp add: wal_holds_def encoded_log_def s)
  have "fwrite 0 (wal_header (wl_uuid_prefix w)) (take 16 (fpad 16 f)) = wal_header (wl_uuid_prefix w)"
    using length_wal_header [OF p] by (subst fwrite_header_append) auto
  then show ?thesis
    using p by (simp add: wal_truncate_def s wal_holds_def encoded_log_def wal_write_header_def WAL_HEADER_SIZE_def)
qed

interpretation wal_log: append_log "wal_holds crc" "wal_app crc" wal_entry_of wal_truncate
    "\<lambda>s. rp_entries (snd (wal_replay crc s))"
  for crc :: "bytes \<Rightarrow> u32"
proof
  fix s s' :: "wal \<times> bytes" and es and a :: "u32 \<times> wal_op \<times> bytes \<times> durability"
  assume h: "wal_holds crc s es"
  show "wal_holds crc (wal_truncate s) []" using h by (rule wal_truncate_holds)
  show "rp_entries (snd (wal_replay crc s)) = es"
    using h wal_scan_clean by (auto simp: wal_replay_def wal_holds_def case_prod_beta Let_def)
  assume p: "wal_app crc a s = Some s'"
  obtain coll op body d where a: "a = (coll, op, body, d)" by (cases a)
  from p obtain seq sy where q: "wal_append crc coll op body d s = (s', Inr (seq, sy))"
    by (auto simp: wal_app_def a split: prod.splits sum.splits)
  moreover have "seq = wl_next_seq (fst s)"
    using q by (auto simp: wal_append_def case_prod_beta Let_def split: sum.splits)
  moreover have "wal_holds crc s' (es @ [\<lparr>we_seq = seq, we_coll_id = coll, we_op = op, we_body = body\<rparr>])"
    using wal_append_holds [OF h q] by (rule conjunct1)
  ultimately show "wal_holds crc s' (es @ [wal_entry_of s a])"
    by (simp add: wal_entry_of_def a)
qed

lemma wal_open_holds: "8 \<le> length uuid \<Longrightarrow> wal_holds crc (wal_open uuid []) []"
proof -
  assume u: "8 \<le> length uuid"
  then have p: "length (take 8 uuid) = 8" by simp
  have "fwrite 0 (wal_header (take 8 uuid)) [] = wal_header (take 8 uuid)"
    using length_wal_header [OF p] by (auto simp: fwrite_def put_def fpad_def)
  then show ?thesis
    using p by (simp add: wal_open_def wal_holds_def encoded_log_def wal_write_header_def WAL_HEADER_SIZE_def Let_def)
qed

text \<open>A replay of a log with a torn tail sets the handle up for the entries it recovered.\<close>

lemma wal_replay_torn:
  assumes h: "encoded_log crc (wl_uuid_prefix w) es f" and e: "entry_encode crc e = Inr bs" and n: "n < length bs"
  shows "wal_replay crc (w, f @ take n bs) =
    (w\<lparr>wl_next_seq := 1 + word_of_nat (length es)\<rparr>, \<lparr>rp_entries = es, rp_discarded_tail = (0 < n)\<rparr>)"
proof -
  have "numbered 1 es" using h by (simp add: encoded_log_def)
  then have "(if es = [] then 1 else we_seq (last es) + 1) = 1 + word_of_nat (length es)"
    using numbered_last by auto
  then show ?thesis
    by (simp add: wal_replay_def wal_scan_torn [OF h e n] Let_def split del: if_split cong: if_cong)
qed

text \<open>
  The torn tail stays in the file. While what is appended behind it does not reach the declared end of the torn
  entry, a scan stops in front of it: the appended entries are not recovered.
\<close>

lemma wal_append_behind_torn:
  assumes h: "encoded_log crc (wl_uuid_prefix w) es f" and e: "entry_encode crc e = Inr bs"
    and n: "24 \<le> n" "n < length bs" and fits: "length new < length bs - n"
  shows "wal_scan crc (f @ take n bs @ new) (wl_uuid_prefix w) = \<lparr>rp_entries = es, rp_discarded_tail = True\<rparr>"
proof -
  have "decode_entry crc (f @ take n bs @ new) (length f) (1 + word_of_nat (length es)) = None"
    by (rule decode_entry_short [OF e, where n = n and extra = new]) (use n fits in simp_all)
  with h have "wal_scan crc (f @ take n bs @ new) (wl_uuid_prefix w) =
      \<lparr>rp_entries = es, rp_discarded_tail = (take n bs @ new \<noteq> [])\<rparr>"
    by (intro wal_scan_log) simp_all
  moreover have "take n bs \<noteq> []" using n by auto
  ultimately show ?thesis by simp
qed

subsection \<open>Properties\<close>

text \<open>A run of acknowledged appends.\<close>

definition wal_run ::
  "(bytes \<Rightarrow> u32) \<Rightarrow> wal \<times> bytes \<Rightarrow> (u32 \<times> wal_op \<times> bytes \<times> durability) list \<Rightarrow> unit + wal \<times> bytes" where
  "wal_run crc = foldR (\<lambda>s a. case wal_app crc a s of None \<Rightarrow> Inl () | Some s' \<Rightarrow> Inr s')"

lemma wal_run_holds:
  assumes h: "wal_holds crc (w0, f0) es0" and r: "wal_run crc (w0, f0) ops = Inr (w, f)"
  shows "wl_uuid_prefix w = wl_uuid_prefix w0
    \<and> (\<exists>es. wal_holds crc (w, f) (es0 @ es)
       \<and> map (\<lambda>e. (we_coll_id e, we_op e, we_body e)) es = map (\<lambda>(coll, op, body, d). (coll, op, body)) ops)"
proof -
  have "wl_uuid_prefix (fst (w, f)) = wl_uuid_prefix w0"
    by (rule foldR_invariant [OF r [unfolded wal_run_def]])
      (auto simp: wal_app_def wal_append_def Let_def split: option.splits sum.splits prod.splits)
  moreover obtain es where es: "list_all2 (\<lambda>a f. \<exists>s. f = wal_entry_of s a) ops es" "wal_holds crc (w, f) (es0 @ es)"
    using wal_log.fold_apps [OF h r [unfolded wal_run_def]] by blast
  moreover have "map (\<lambda>e. (we_coll_id e, we_op e, we_body e)) es = map (\<lambda>(coll, op, body, d). (coll, op, body)) ops"
    using es(1) by (induction rule: list_all2_induct) (auto simp: wal_entry_of_def)
  ultimately show ?thesis by auto
qed

lemma wal_run_snoc:
  assumes "wal_run crc s (ops @ [a]) = Inr (w, f)"
  obtains w' f' e bs where "wal_run crc s ops = Inr (w', f')" "entry_encode crc e = Inr bs" "f = f' @ bs"
proof -
  obtain w' f' where s: "wal_run crc s ops = Inr (w', f')" "wal_app crc a (w', f') = Some (w, f)"
    using assms by (auto simp: wal_run_def foldR_append tryR_eq_Inr split: option.splits)
  then show thesis
    using that by (auto simp: wal_app_def wal_append_def Let_def split: prod.splits sum.splits)
qed

lemma wal_run_grows: "wal_run crc (w, f) ops = Inr (w', f') \<Longrightarrow> length f \<le> length f'"
proof (induction ops arbitrary: w' f' rule: rev_induct)
  case (snoc a ops)
  then show ?case using wal_run_snoc [OF snoc.prems] snoc.IH by (metis length_append trans_le_add1)
qed (simp add: wal_run_def)

lemma wal_open_log:
  assumes "wal_holds crc (w, f) es" "wl_uuid_prefix w = take 8 uuid"
  shows "16 \<le> length f" "wal_open uuid (f @ g) = (\<lparr>wl_uuid_prefix = take 8 uuid, wl_next_seq = 1\<rparr>, f @ g)"
proof -
  show "16 \<le> length f"
    using assms(1) length_wal_header [of "wl_uuid_prefix w"] by (auto simp: wal_holds_def encoded_log_def)
  then show "wal_open uuid (f @ g) = (\<lparr>wl_uuid_prefix = take 8 uuid, wl_next_seq = 1\<rparr>, f @ g)"
    by (simp add: wal_open_def Let_def WAL_HEADER_SIZE_def)
qed

lemma wal_recover_torn:
  assumes "wal_holds crc (w, f) es" "wl_uuid_prefix w = take 8 uuid" "entry_encode crc e = Inr bs" "n < length bs"
  shows "snd (wal_replay crc (wal_open uuid (f @ take n bs))) = \<lparr>rp_entries = es, rp_discarded_tail = (0 < n)\<rparr>"
proof -
  have "encoded_log crc (wl_uuid_prefix \<lparr>wl_uuid_prefix = take 8 uuid, wl_next_seq = 1\<rparr>) es f"
    using assms(1,2) by (simp add: wal_holds_def)
  from wal_replay_torn [OF this assms(3,4)] show ?thesis by (simp add: wal_open_log(2) [OF assms(1,2)])
qed

lemma wal_recover_whole:
  assumes "wal_holds crc (w, f) es" "wl_uuid_prefix w = take 8 uuid"
  shows "rp_entries (snd (wal_replay crc (wal_open uuid f))) = es"
proof -
  have "entry_encode crc \<lparr>we_seq = 0, we_coll_id = 0, we_op = DropColl, we_body = []\<rparr>
      = Inr (case entry_encode crc \<lparr>we_seq = 0, we_coll_id = 0, we_op = DropColl, we_body = []\<rparr> of Inr bs \<Rightarrow> bs)"
    by (simp add: entry_encode_def)
  from wal_recover_torn [OF assms this, of 0] show ?thesis by (simp add: entry_encode_def)
qed



text \<open>
  Whatever bytes are in the sidecar, the recovered entries are numbered 1, 2, 3 and so on without a gap, and a log of
  another database (another uuid prefix) yields nothing.
\<close>

theorem wal_scan_contiguous:
  "numbered 1 (rp_entries (wal_scan crc f prefix))
   \<and> (slice_of f 8 16 = prefix \<or> rp_entries (wal_scan crc f prefix) = [])"
  using scan_from_numbered [of crc f WAL_HEADER_SIZE 1] by (auto simp: wal_scan_def Let_def split: prod.splits)

text \<open>
  A torn tail is reported but stays in the file, and later appends go behind it. When the torn entry got its 24 header
  bytes to disk and the new entry is shorter than what the torn one still lacks, the next recovery stops in front of the
  torn entry: an append acknowledged (and synced) after the first recovery is lost.
\<close>

theorem wal_append_behind_torn_tail_lost:
  assumes "encoded_log crc (take 8 uuid) es f" and "length uuid = 16"
    and "entry_encode crc e = Inr torn" and "24 \<le> n" and "n < length torn"
    and "fst (wal_replay crc (wal_open uuid (f @ take n torn))) = w"
    and "wal_append crc coll op body Full (w, f @ take n torn) = ((w', f'), Inr (seq, True))"
    and "24 + length body < length torn - n"
  shows "rp_entries (snd (wal_replay crc (wal_open uuid f'))) = es"
proof -
  have "16 \<le> length f"
    using assms(1) length_wal_header [of "take 8 uuid"] by (auto simp: encoded_log_def)
  then have o: "wal_open uuid (f @ x) = (\<lparr>wl_uuid_prefix = take 8 uuid, wl_next_seq = 1\<rparr>, f @ x)" for x
    by (simp add: wal_open_def Let_def WAL_HEADER_SIZE_def)
  from assms(7) obtain bs where bs: "f' = f @ take n torn @ bs" "length bs = 24 + length body"
    by (auto simp: wal_append_def Let_def dest: entry_encode_length split: sum.splits)
  have "wal_scan crc (f @ take n torn @ bs) (wl_uuid_prefix \<lparr>wl_uuid_prefix = take 8 uuid, wl_next_seq = 1\<rparr>) =
      \<lparr>rp_entries = es, rp_discarded_tail = True\<rparr>"
    by (rule wal_append_behind_torn [OF _ assms(3-5)]) (use assms(1,8) bs(2) in simp_all)
  then show ?thesis
    by (simp add: bs(1) o wal_replay_def Let_def)
qed

theorem wal_append_behind_torn_tail_lost_witness:
  "\<exists>f torn w w' f'. entry_encode sum_crc \<lparr>we_seq = 1, we_coll_id = 1, we_op = UpsertBatch, we_body = replicate 100 1\<rparr> = Inr torn
     \<and> wal_open (replicate 16 3) [] = (w, f)
     \<and> wal_append sum_crc 1 UpsertBatch [8] Full (w, f @ take 30 torn) = ((w', f'), Inr (1, True))
     \<and> rp_entries (snd (wal_replay sum_crc (wal_open (replicate 16 3) f'))) = []"
proof -
  let ?e = "\<lparr>we_seq = 1, we_coll_id = 1, we_op = UpsertBatch, we_body = replicate 100 1\<rparr>"
  obtain torn where t: "entry_encode sum_crc ?e = Inr torn" "length torn = 124" by (simp add: entry_encode_def)
  obtain w f where o: "wal_open (replicate 16 3) [] = (w, f)" by fastforce
  have h: "wal_holds sum_crc (w, f) []"
    using wal_open_holds [of "replicate 16 3" sum_crc] o by simp
  have w: "w = \<lparr>wl_uuid_prefix = replicate 8 3, wl_next_seq = 1\<rparr>"
    using o by (auto simp: wal_open_def Let_def)
  have log: "encoded_log sum_crc (take 8 (replicate 16 3)) [] f" using h by (simp add: wal_holds_def w)
  then have "16 \<le> length f"
    using length_wal_header [of "replicate 8 3"] by (auto simp: encoded_log_def)
  then have "wal_open (replicate 16 3) (f @ take 30 torn) = (w, f @ take 30 torn)"
    by (simp add: wal_open_def Let_def WAL_HEADER_SIZE_def w)
  then have r: "fst (wal_replay sum_crc (wal_open (replicate 16 3) (f @ take 30 torn))) = w"
    using wal_replay_torn [OF _ t(1), of w "[]" f 30] log t(2) by (simp add: w)
  obtain w' f' where a: "wal_append sum_crc 1 UpsertBatch [8] Full (w, f @ take 30 torn) = ((w', f'), Inr (1, True))"
    by (simp add: wal_append_def entry_encode_def Let_def w)
  have "rp_entries (snd (wal_replay sum_crc (wal_open (replicate 16 3) f'))) = []"
    by (rule wal_append_behind_torn_tail_lost [OF log _ t(1) _ _ r a]) (simp_all add: t(2))
  with t(1) o a show ?thesis by blast
qed

end
