(* ===== verification/Wal_Bodies.thy ===== *)
theory Wal_Bodies
  imports Msgpack_Guard Bodies Points Wal
begin

section \<open>The bodies of log entries (\<open>persist/wal_body.rs\<close>)\<close>

text \<open>
  Each operation's body is a MessagePack value. The serializer \<open>rmp_serde\<close> is a package, so a body type comes with its
  \<open>msgpack\<close> record; \<open>wal_codecs\<close> collects them. The round trip below is the repository's part: the depth guard in front
  of the decoder accepts what the encoder writes.
\<close>

record create_coll =
  wc_name :: string
  wc_aliases :: "string list"
  wc_config :: stored_config

record wal_alias =
  wa_create :: bool
  wa_alias :: string

record pidx_declare =
  wp_key :: string
  wp_kind :: u8

type_synonym rename_body = string

definition wal_encode :: "'a msgpack \<Rightarrow> 'a \<Rightarrow> bytes res" where
  "wal_encode M x = ok_or (mp_enc M x) (Corrupt ''wal body encode: '')"

definition wal_decode :: "'a msgpack \<Rightarrow> bytes \<Rightarrow> string \<Rightarrow> 'a res" where
  "wal_decode M b op = guarded_dec M (''wal body '' @ op @ '': '') b"

record wal_codecs =
  wm_points :: "point list msgpack"
  wm_ids :: "string list msgpack"
  wm_create :: "create_coll msgpack"
  wm_rename :: "rename_body msgpack"
  wm_alias :: "wal_alias msgpack"
  wm_pidx :: "pidx_declare msgpack"

lemma wal_decode_encode: "mp_carries M x \<Longrightarrow> wal_encode M x = Inr b \<Longrightarrow> wal_decode M b op = Inr x"
  by (auto simp: wal_encode_def wal_decode_def ok_or_def guarded_dec_carries split: option.splits)

lemma wal_encode_carried: "mp_carries M x \<Longrightarrow> \<exists>b. wal_encode M x = Inr b"
  by (auto simp: wal_encode_def mp_carries_def)

text \<open>The guard bounds what a log can be replayed from: a body nested more deeply is written and then refused.\<close>

lemma wal_decode_deep:
  "mp_enc M x = Some (mp_bytes v) \<Longrightarrow> mp_ok v \<Longrightarrow> MAX_MSGPACK_DEPTH < mp_height v
    \<Longrightarrow> wal_encode M x = Inr (mp_bytes v) \<and> wal_decode M (mp_bytes v) op = Inl too_deep"
  by (simp add: wal_encode_def wal_decode_def guarded_dec_deep)

end
