(* ===== verification/Collection_Ops.thy ===== *)
theory Collection_Ops
  imports Collections Wal_Bodies
begin

section \<open>Collection handles (\<open>collection.rs\<close>)\<close>

text \<open>
  The state behind a handle and the operations of the public interface that do not involve text. An operation that can
  fail half way returns its result together with the state it leaves. The write-ahead log is a state \<open>'s\<close> with the
  function \<open>L\<close> that appends to it (the trait \<open>WalSink\<close>); \<open>after_write\<close>, which may checkpoint the whole database, is
  run by the database level after the operations here. A shared embedder is a position in the list \<open>E\<close> of embedder states, so two collections can hold the same one. \<open>Q\<close> are the quantizers, \<open>json_len\<close> the length of a payload's
  JSON text, the \<open>msgpack\<close> records the MessagePack forms of the bodies.
\<close>

datatype embedder_slot = EmbNone | EmbReady nat | EmbMissing string

record 'e embedder_ops =
  em_embed :: "'e \<Rightarrow> string \<Rightarrow> f32 list res"
  em_add_document :: "'e \<Rightarrow> string \<Rightarrow> 'e"
  em_fit :: "'e \<Rightarrow> string list \<Rightarrow> 'e res"
  em_export :: "'e \<Rightarrow> bytes res"
  em_import :: "'e \<Rightarrow> bytes \<Rightarrow> 'e res"

record 'q collection =
  cl_name :: string
  cl_aliases :: "string list"
  cl_config :: collection_options
  cl_coll_id :: u32
  cl_deleted :: bool
  cl_persistent :: bool
  cl_embedder :: "embedder_slot"
  cl_pending_vocab :: "bytes option"
  cl_text_dirty :: bool
  cl_data :: "'q collection_data"

record 'q quantizers =
  qz_scalar :: "u8 \<Rightarrow> f32 list list \<Rightarrow> (bytes \<times> 'q) res"
  qz_binary :: "f32 list list \<Rightarrow> (bytes \<times> 'q) res"

type_synonym 's wal_log = "u32 \<Rightarrow> wal_op \<Rightarrow> bytes \<Rightarrow> 's \<Rightarrow> unit res \<times> 's"

subsection \<open>Construction\<close>

definition index_for :: "collection_options \<Rightarrow> nat \<Rightarrow> hnsw_index option res" where
  "index_for opts capacity =
     (if co_metric opts = DotProduct then Inr None
      else tryR (hnsw_new (co_metric opts) (co_dimension opts) (ho_m (co_hnsw opts))
                  (ho_ef_construction (co_hnsw opts)) capacity) (\<lambda>ix. Inr (Some ix)))"

definition with_embedder ::
  "string \<Rightarrow> collection_options \<Rightarrow> u32 \<Rightarrow> bool \<Rightarrow> nat \<Rightarrow> embedder_slot \<Rightarrow> 'q collection res" where
  "with_embedder name opts coll_id persistent capacity slot =
     tryR (index_for opts (max capacity INITIAL_INDEX_CAPACITY)) (\<lambda>index.
       Inr \<lparr>cl_name = name, cl_aliases = [], cl_config = opts, cl_coll_id = coll_id, cl_deleted = False,
            cl_persistent = persistent, cl_embedder = slot, cl_pending_vocab = None, cl_text_dirty = False,
            cl_data = data_empty index (indexes_new (co_payload_indexes opts))\<rparr>)"

definition with_capacity ::
  "(string \<Rightarrow> nat \<Rightarrow> 'e res) \<Rightarrow> string \<Rightarrow> collection_options \<Rightarrow> u32 \<Rightarrow> bool \<Rightarrow> nat \<Rightarrow> 'e list
    \<Rightarrow> ('q collection \<times> 'e list) res" where
  "with_capacity build_provider name opts coll_id persistent capacity E =
     (case co_embedding_provider opts of
        None \<Rightarrow> tryR (with_embedder name opts coll_id persistent capacity EmbNone) (\<lambda>c. Inr (c, E))
      | Some provider \<Rightarrow>
          tryR (build_provider provider (co_dimension opts)) (\<lambda>e.
          tryR (with_embedder name opts coll_id persistent capacity (EmbReady (length E))) (\<lambda>c. Inr (c, E @ [e]))))"

subsection \<open>Reading\<close>

definition guard :: "'q collection \<Rightarrow> unit res" where
  "guard c = (if cl_deleted c then Inl (CollectionNotFound (cl_name c)) else Inr ())"

definition point_at :: "'q collection \<Rightarrow> nat \<Rightarrow> point" where
  "point_at c slot =
     \<lparr>pt_id = cd_ids (cl_data c) ! slot, pt_vector = copy_vector (cl_data c) slot (co_dimension (cl_config c)),
      pt_sparse = cd_sparses (cl_data c) ! slot, pt_payload = cd_payloads (cl_data c) ! slot\<rparr>"

definition coll_get :: "string \<Rightarrow> 'q collection \<Rightarrow> point option res" where
  "coll_get key c =
     tryR (guard c) (\<lambda>_. Inr (map_option (point_at c) (map_of (cd_id_to_slot (cl_data c)) key)))"

definition coll_len :: "'q collection \<Rightarrow> nat" where
  "coll_len c = (if cl_deleted c then 0 else length (cd_id_to_slot (cl_data c)))"

definition coll_is_empty :: "'q collection \<Rightarrow> bool" where
  "coll_is_empty c \<longleftrightarrow> coll_len c = 0"

definition live_points :: "'q collection \<Rightarrow> point list" where
  "live_points c = map (point_at c) (live_slots (cl_data c))"

definition tombstone_ratio :: "'q collection \<Rightarrow> f32" where
  "tombstone_ratio c =
     (let total = length (cd_ids (cl_data c))
      in if total = 0 then 0
         else f32_div (f32_of_int (int (card (cd_tombstones (cl_data c))))) (f32_of_int (int total)))"

record collection_stats =
  cs_name :: string
  cs_dimension :: nat
  cs_len :: nat
  cs_tombstones :: nat
  cs_auto_embed :: bool
  cs_metric :: metric
  cs_payload_indexes :: "(string \<times> payload_index_kind) list"

definition coll_stats :: "'q collection \<Rightarrow> collection_stats" where
  "coll_stats c =
     \<lparr>cs_name = cl_name c, cs_dimension = co_dimension (cl_config c), cs_len = length (cd_id_to_slot (cl_data c)),
      cs_tombstones = card (cd_tombstones (cl_data c)), cs_auto_embed = (co_embedding_provider (cl_config c) \<noteq> None),
      cs_metric = co_metric (cl_config c), cs_payload_indexes = declared_indexes (cd_payload_indexes (cl_data c))\<rparr>"

subsection \<open>Logged writes\<close>

text \<open>
  The part of a write that concerns the collection and its log: validate, log, apply. In the code \<open>after_write\<close> follows, which
  may checkpoint the whole database; \<open>Sessions\<close> composes the two.
\<close>

definition encode_wal :: "'a msgpack \<Rightarrow> 'a \<Rightarrow> 'q collection \<Rightarrow> bytes option res" where
  "encode_wal M x c =
     (if cl_persistent c then tryR (wal_encode M x) (\<lambda>b. Inr (Some b)) else Inr None)"

definition coll_log :: "'s wal_log \<Rightarrow> wal_op \<Rightarrow> bytes option \<Rightarrow> 'q collection \<Rightarrow> 's \<Rightarrow> unit res \<times> 's" where
  "coll_log L op body c s =
     (case body of
        None \<Rightarrow> (Inr (), s)
      | Some b \<Rightarrow> if cl_persistent c then L (cl_coll_id c) op b s else (Inr (), s))"

definition upsert_batch_step ::
  "(json \<Rightarrow> nat) \<Rightarrow> point list msgpack \<Rightarrow> 's wal_log \<Rightarrow> bool \<Rightarrow> point list \<Rightarrow> 'q collection \<Rightarrow> 's
    \<Rightarrow> unit res \<times> 'q collection \<times> 's" where
  "upsert_batch_step json_len M L allow_reserved points c s =
     (case tryR (guard c) (\<lambda>_.
           tryR (encode_wal M points c) (\<lambda>body.
           tryR (mapR (prepare_inner json_len (cl_config c) allow_reserved) points) (\<lambda>prepared. Inr (body, prepared)))) of
        Inl e \<Rightarrow> (Inl e, c, s)
      | Inr (body, prepared) \<Rightarrow>
          (case coll_log L UpsertBatch body c s of
             (Inl e, s1) \<Rightarrow> (Inl e, c, s1)
           | (Inr _, s1) \<Rightarrow>
               (Inr (), c\<lparr>cl_data := apply_prepared (co_dimension (cl_config c)) prepared (cl_data c)\<rparr>, s1)))"

definition user_upsert_step ::
  "(json \<Rightarrow> nat) \<Rightarrow> point list msgpack \<Rightarrow> 's wal_log \<Rightarrow> point list \<Rightarrow> 'q collection \<Rightarrow> 's
    \<Rightarrow> unit res \<times> 'q collection \<times> 's" where
  "user_upsert_step json_len M L points c s = upsert_batch_step json_len M L False points c s"

definition delete_batch_step ::
  "string list msgpack \<Rightarrow> 's wal_log \<Rightarrow> string list \<Rightarrow> 'q collection \<Rightarrow> 's
    \<Rightarrow> nat res \<times> 'q collection \<times> 's" where
  "delete_batch_step M L keys c s =
     (case tryR (guard c) (\<lambda>_. encode_wal M keys c) of
        Inl e \<Rightarrow> (Inl e, c, s)
      | Inr body \<Rightarrow>
          (case coll_log L DeleteBatch body c s of
             (Inl e, s1) \<Rightarrow> (Inl e, c, s1)
           | (Inr _, s1) \<Rightarrow>
               (let (n, d) = tombstone_all keys (cl_data c) in (Inr n, c\<lparr>cl_data := d\<rparr>, s1))))"

end
