(* ===== verification/Collection_Inv.thy ===== *)
theory Collection_Inv
  imports Collections
begin

section \<open>The invariant of a collection and its abstraction to a map\<close>

text \<open>
  The slot storage keeps one live slot per id, parallel lists of payloads and sparse lanes, the vectors of the slots above
  the mapped base, the set of dead slots, payload indexes that hold exactly the stored payloads, and a graph with a node for
  each live slot. \<open>contents\<close> is what a caller sees of it: a map from ids to a vector, a sparse lane and a payload. The
  write operations keep the invariant and act on the map as insertion and deletion.
\<close>

subsection \<open>The invariant\<close>

definition ids_ok :: "'q collection_data \<Rightarrow> bool" where
  "ids_ok d \<longleftrightarrow> distinct (map fst (cd_id_to_slot d)) \<and>
     (\<forall>k s. map_of (cd_id_to_slot d) k = Some s \<longrightarrow> s < length (cd_ids d) \<and> cd_ids d ! s = k)"

definition lists_ok :: "nat \<Rightarrow> 'q collection_data \<Rightarrow> bool" where
  "lists_ok dim d \<longleftrightarrow> length (cd_payloads d) = length (cd_ids d) \<and> length (cd_sparses d) = length (cd_ids d) \<and>
     base_count d \<le> length (cd_ids d) \<and> length (cd_vectors d) = (length (cd_ids d) - base_count d) * dim \<and>
     length (cd_ids d) \<le> 2 ^ 64 \<and> (\<forall>s<base_count d. length (base_vector d s) = dim)"

definition dead_slots :: "'q collection_data \<Rightarrow> nat set" where
  "dead_slots d = {s. s < length (cd_ids d) \<and> \<not> live_slot d s}"

definition dead_ok :: "'q collection_data \<Rightarrow> bool" where
  "dead_ok d \<longleftrightarrow> cd_tombstones d = dead_slots d \<and> (\<forall>s\<in>dead_slots d. cd_payloads d ! s = None \<and> cd_sparses d ! s = None)"

definition slot_payload :: "'q collection_data \<Rightarrow> u64 \<Rightarrow> json option" where
  "slot_payload d s = (if unat s < length (cd_payloads d) then cd_payloads d ! unat s else None)"

definition payloads_ok :: "'q collection_data \<Rightarrow> bool" where
  "payloads_ok d \<longleftrightarrow> indexes_hold (cd_payload_indexes d) (slot_payload d)"

definition graph_ok :: "nat \<Rightarrow> 'q collection_data \<Rightarrow> bool" where
  "graph_ok dim d \<longleftrightarrow>
     (case cd_index d of
        None \<Rightarrow> True
      | Some ix \<Rightarrow> distinct (map fst (hx_nodes ix)) \<and>
          (\<forall>(s, v)\<in>set (hx_nodes ix). s < length (cd_ids d) \<and> v = copy_vector d s dim) \<and>
          (\<forall>s<length (cd_ids d). live_slot d s \<longrightarrow> s \<in> fst ` set (hx_nodes ix)))"

definition data_inv :: "nat \<Rightarrow> 'q collection_data \<Rightarrow> bool" where
  "data_inv dim d \<longleftrightarrow> ids_ok d \<and> lists_ok dim d \<and> dead_ok d \<and> payloads_ok d \<and> graph_ok dim d"

subsection \<open>The abstraction\<close>

type_synonym stored = "f32 list \<times> sparse_vector option \<times> json option"

definition slot_contents :: "nat \<Rightarrow> 'q collection_data \<Rightarrow> nat \<Rightarrow> stored" where
  "slot_contents dim d s = (copy_vector d s dim, cd_sparses d ! s, cd_payloads d ! s)"

definition contents :: "nat \<Rightarrow> 'q collection_data \<Rightarrow> string \<Rightarrow> stored option" where
  "contents dim d key = map_option (slot_contents dim d) (map_of (cd_id_to_slot d) key)"

definition prepared_contents :: "prepared_point \<Rightarrow> stored" where
  "prepared_contents p = (pp_vector p, pp_sparse p, pp_payload p)"

text \<open>How many more slots fit.\<close>

definition room :: "'q collection_data \<Rightarrow> nat" where
  "room d = 2 ^ 64 - length (cd_ids d)"

lemmas inv_defs = data_inv_def ids_ok_def lists_ok_def

lemma vector_at_copy: "vector_at d s dim = copy_vector d s dim"
  by (simp add: vector_at_def copy_vector_def)

lemma ids_okD: "ids_ok d \<Longrightarrow> map_of (cd_id_to_slot d) k = Some s \<Longrightarrow> s < length (cd_ids d) \<and> cd_ids d ! s = k"
  by (simp add: ids_ok_def)

lemma live_slot_iff:
  "ids_ok d \<Longrightarrow> live_slot d s \<longleftrightarrow> map_of (cd_id_to_slot d) (cd_ids d ! s) = Some s"
  by (simp add: live_slot_def)

lemma live_of_key: "ids_ok d \<Longrightarrow> map_of (cd_id_to_slot d) k = Some s \<Longrightarrow> live_slot d s"
  by (simp add: live_slot_def ids_okD)

lemma dom_contents: "dom (contents dim d) = fst ` set (cd_id_to_slot d)"
proof -
  have "dom (contents dim d) = dom (map_of (cd_id_to_slot d))" by (auto simp: contents_def)
  then show ?thesis by (simp add: dom_map_of_conv_image_fst)
qed

lemma card_contents: "ids_ok d \<Longrightarrow> card (dom (contents dim d)) = length (cd_id_to_slot d)"
  unfolding dom_contents ids_ok_def by (metis distinct_card length_map list.set_map)

lemma copy_vector_length:
  assumes "lists_ok dim d" "s < length (cd_ids d)"
  shows "length (copy_vector d s dim) = dim"
proof (cases "base_count d \<le> s")
  case True
  have "(s - base_count d + 1) * dim \<le> (length (cd_ids d) - base_count d) * dim"
    using assms True by (intro mult_right_mono) (auto simp: lists_ok_def)
  then show ?thesis using assms True by (simp add: copy_vector_def overlay_vector_def Let_def lists_ok_def)
qed (use assms in \<open>simp add: copy_vector_def lists_ok_def\<close>)

subsection \<open>The empty collection\<close>

lemma slot_payload_empty [simp]: "slot_payload (data_empty ix pix) = (\<lambda>s. None)"
  by (simp add: slot_payload_def data_empty_def fun_eq_iff)

lemma data_empty_inv:
  "(\<forall>i. index = Some i \<longrightarrow> hx_nodes i = []) \<Longrightarrow> data_inv dim (data_empty index (indexes_new declared))"
  unfolding data_inv_def payloads_ok_def slot_payload_empty
  using indexes_new_holds
  by (auto simp: ids_ok_def lists_ok_def dead_ok_def dead_slots_def graph_ok_def data_empty_def base_count_def
      split: option.splits)

lemma data_empty_contents: "contents dim (data_empty index pix) = Map.empty"
  by (simp add: contents_def data_empty_def fun_eq_iff)

subsection \<open>Fields outside the invariant\<close>

text \<open>Codes, quantizer parameters, sealed references and the dirty flag play no part.\<close>

definition same_store :: "'q collection_data \<Rightarrow> 'q collection_data \<Rightarrow> bool" where
  "same_store d e \<longleftrightarrow> cd_vectors d = cd_vectors e \<and> cd_ids d = cd_ids e \<and> cd_id_to_slot d = cd_id_to_slot e \<and>
     cd_tombstones d = cd_tombstones e \<and> cd_payloads d = cd_payloads e \<and> cd_sparses d = cd_sparses e \<and>
     cd_index d = cd_index e \<and> cd_payload_indexes d = cd_payload_indexes e \<and> cd_base d = cd_base e"

lemma same_store_views:
  assumes "same_store d e"
  shows "copy_vector d = copy_vector e" "live_slot d = live_slot e" "slot_payload d = slot_payload e"
    "base_count d = base_count e" "base_vector d = base_vector e" "slot_contents dim d = slot_contents dim e" "live_slots d = live_slots e"
  using assms
  by (simp_all add: fun_eq_iff same_store_def copy_vector_def overlay_vector_def base_vector_def base_count_def
      live_slot_def slot_payload_def slot_contents_def live_slots_def cong: filter_cong)

lemma same_store_inv:
  assumes "same_store d e"
  shows "data_inv dim d \<longleftrightarrow> data_inv dim e"
  unfolding data_inv_def ids_ok_def lists_ok_def dead_ok_def dead_slots_def payloads_ok_def graph_ok_def
    same_store_views [OF assms]
  by (simp only: assms [unfolded same_store_def])

lemma same_store_contents:
  assumes "same_store d e"
  shows "contents dim d = contents dim e"
  unfolding contents_def [abs_def] same_store_views [OF assms] by (simp only: assms [unfolded same_store_def])

subsection \<open>Retiring a slot\<close>

lemma map_of_delete [simp]: "map_of (AList.delete k al) = (map_of al)(k := None)"
  by (rule AList.delete_conv')

lemma map_of_update [simp]: "map_of (AList.update k v al) = (map_of al)(k \<mapsto> v)"
  by (rule AList.update_conv')

lemma retire_fields [simp]:
  "cd_vectors (retire_slot key slot d) = cd_vectors d" "cd_ids (retire_slot key slot d) = cd_ids d"
  "cd_id_to_slot (retire_slot key slot d) = AList.delete key (cd_id_to_slot d)"
  "cd_tombstones (retire_slot key slot d) = insert slot (cd_tombstones d)"
  "cd_payloads (retire_slot key slot d) = (cd_payloads d)[slot := None]"
  "cd_sparses (retire_slot key slot d) = (cd_sparses d)[slot := None]"
  "cd_index (retire_slot key slot d) = cd_index d" "cd_base (retire_slot key slot d) = cd_base d"
  "cd_payload_indexes (retire_slot key slot d) =
     indexes_remove (cd_payload_indexes d) (word_of_nat slot) (cd_payloads d ! slot)"
  by (simp_all add: retire_slot_def)

lemma copy_vector_cong:
  "cd_vectors d' = cd_vectors d \<Longrightarrow> cd_base d' = cd_base d \<Longrightarrow> copy_vector d' s dim = copy_vector d s dim"
  by (simp add: copy_vector_def overlay_vector_def base_vector_def base_count_def)

lemma retire_copy_vector [simp]: "copy_vector (retire_slot key slot d) s dim = copy_vector d s dim"
  by (rule copy_vector_cong) simp_all

lemma retire_base [simp]:
  "base_count (retire_slot key slot d) = base_count d" "base_vector (retire_slot key slot d) s = base_vector d s"
  by (simp_all add: base_count_def base_vector_def)

lemma retire_live:
  assumes "ids_ok d" "map_of (cd_id_to_slot d) key = Some slot"
  shows "live_slot (retire_slot key slot d) s \<longleftrightarrow> live_slot d s \<and> s \<noteq> slot"
  using assms by (auto simp: live_slot_def ids_okD)

lemma unat_slot: "n < 2 ^ 64 \<Longrightarrow> unat (word_of_nat n :: u64) = n"
  by (simp add: unat_of_nat)

lemma slot_eq: "n < 2 ^ 64 \<Longrightarrow> s = (word_of_nat n :: u64) \<longleftrightarrow> unat s = n"
  using unat_slot [of n] by (auto intro: word_unat_eq_iff [THEN iffD2])

lemma slot_payload_at: "s < length (cd_payloads d) \<Longrightarrow> length (cd_payloads d) \<le> 2 ^ 64
    \<Longrightarrow> slot_payload d (word_of_nat s) = cd_payloads d ! s"
  by (simp add: slot_payload_def unat_slot del: of_nat_numeral)

lemma retire_slot_payload:
  assumes "slot < length (cd_payloads d)" "length (cd_payloads d) \<le> 2 ^ 64"
  shows "slot_payload (retire_slot key slot d) = (slot_payload d)(word_of_nat slot := None)"
proof
  fix s :: u64
  have "s = word_of_nat slot \<longleftrightarrow> unat s = slot" using assms by (intro slot_eq) simp
  then show "slot_payload (retire_slot key slot d) s = ((slot_payload d)(word_of_nat slot := None)) s"
    using assms by (auto simp: slot_payload_def)
qed

lemma retire_inv:
  assumes inv: "data_inv dim d" and key: "map_of (cd_id_to_slot d) key = Some slot"
  shows "data_inv dim (retire_slot key slot d)"
proof -
  note i = inv [unfolded data_inv_def]
  have ids: "ids_ok d" and slot: "slot < length (cd_ids d)" using i key by (auto dest: ids_okD)
  have "ids_ok (retire_slot key slot d)"
    using ids by (simp add: ids_ok_def distinct_delete)
  moreover have "lists_ok dim (retire_slot key slot d)" using i by (simp add: lists_ok_def)
  moreover have dead: "dead_slots (retire_slot key slot d) = insert slot (dead_slots d)"
    using retire_live [OF ids key] slot by (auto simp: dead_slots_def)
  then have "dead_ok (retire_slot key slot d)"
    using i slot unfolding dead_ok_def dead by (auto simp: lists_ok_def nth_list_update)
  moreover have "payloads_ok (retire_slot key slot d)"
    using i slot indexes_remove_holds [of "cd_payload_indexes d" "slot_payload d" "word_of_nat slot"]
    by (simp add: payloads_ok_def retire_slot_payload slot_payload_at lists_ok_def)
  moreover have "graph_ok dim (retire_slot key slot d)"
    using i retire_live [OF ids key] by (auto simp: graph_ok_def split: option.splits)
  ultimately show ?thesis by (simp add: data_inv_def)
qed

lemma retire_contents:
  assumes inv: "data_inv dim d" and key: "map_of (cd_id_to_slot d) key = Some slot"
  shows "contents dim (retire_slot key slot d) = (contents dim d)(key := None)"
proof
  fix k
  have ids: "ids_ok d" using inv by (simp add: data_inv_def)
  show "contents dim (retire_slot key slot d) k = ((contents dim d)(key := None)) k"
  proof (cases "map_of (cd_id_to_slot d) k")
    case (Some s)
    then have "s \<noteq> slot" if "k \<noteq> key" using ids_okD [OF ids Some] ids_okD [OF ids key] that by auto
    then show ?thesis using Some by (auto simp: contents_def slot_contents_def)
  qed (simp add: contents_def)
qed

subsection \<open>Deletion\<close>

lemma dirty_inv [simp]: "data_inv dim (d\<lparr>cd_dirty := b\<rparr>) \<longleftrightarrow> data_inv dim d"
  by (rule same_store_inv) (simp add: same_store_def)

lemma dirty_contents [simp]: "contents dim (d\<lparr>cd_dirty := b\<rparr>) = contents dim d"
  by (rule same_store_contents) (simp add: same_store_def)

lemma tombstone_result: "fst (tombstone key d) \<longleftrightarrow> key \<in> dom (contents dim d)"
  by (auto simp: tombstone_def contents_def split: option.splits)

lemma tombstone_inv: "data_inv dim d \<Longrightarrow> data_inv dim (snd (tombstone key d))"
  by (simp add: tombstone_def retire_inv split: option.split)

lemma tombstone_contents: "data_inv dim d \<Longrightarrow> contents dim (snd (tombstone key d)) = (contents dim d)(key := None)"
  by (simp add: tombstone_def retire_contents split: option.split) (auto simp: contents_def fun_eq_iff)

lemma tombstone_room [simp]: "room (snd (tombstone key d)) = room d"
  by (simp add: tombstone_def room_def split: option.split)

subsection \<open>Appending a point\<close>

lemma append_fields [simp]:
  "cd_vectors (append_point dim p d) = cd_vectors d @ pp_vector p"
  "cd_ids (append_point dim p d) = cd_ids d @ [pp_id p]"
  "cd_payloads (append_point dim p d) = cd_payloads d @ [pp_payload p]"
  "cd_sparses (append_point dim p d) = cd_sparses d @ [pp_sparse p]"
  "cd_id_to_slot (append_point dim p d) = AList.update (pp_id p) (length (cd_ids d)) (cd_id_to_slot d)"
  "cd_payload_indexes (append_point dim p d) =
     indexes_insert (cd_payload_indexes d) (word_of_nat (length (cd_ids d))) (pp_payload p)"
  "cd_tombstones (append_point dim p d) = cd_tombstones d" "cd_base (append_point dim p d) = cd_base d"
  by (simp_all add: append_point_def Let_def)

lemma append_base [simp]:
  "base_count (append_point dim p d) = base_count d" "base_vector (append_point dim p d) s = base_vector d s"
  by (simp_all add: base_count_def base_vector_def)

lemma slice_suffix: "a = length xs \<Longrightarrow> b = a + length ys \<Longrightarrow> slice_of (xs @ ys) a b = ys"
  by (simp add: slice_of_def)

lemma append_copy_old:
  assumes "lists_ok dim d" "s < length (cd_ids d)"
  shows "copy_vector (append_point dim p d) s dim = copy_vector d s dim"
proof (cases "base_count d \<le> s")
  case True
  have "(s - base_count d + 1) * dim \<le> (length (cd_ids d) - base_count d) * dim"
    using assms True by (intro mult_right_mono) (auto simp: lists_ok_def)
  then show ?thesis
    using assms True by (simp add: copy_vector_def overlay_vector_def Let_def lists_ok_def slice_of_append_left)
qed (simp add: copy_vector_def base_vector_def)

lemma append_copy_new:
  assumes "lists_ok dim d" "length (pp_vector p) = dim"
  shows "copy_vector (append_point dim p d) (length (cd_ids d)) dim = pp_vector p"
  using assms by (simp add: copy_vector_def overlay_vector_def Let_def lists_ok_def slice_suffix)

lemma append_graph:
  assumes "lists_ok dim d" "length (pp_vector p) = dim"
  shows "cd_index (append_point dim p d) = map_option (hnsw_insert (pp_vector p) (length (cd_ids d))) (cd_index d)"
  using assms by (simp add: append_point_def Let_def lists_ok_def slice_suffix)

lemma append_live:
  assumes "ids_ok d" "map_of (cd_id_to_slot d) (pp_id p) = None" "s < length (cd_ids d)"
  shows "live_slot (append_point dim p d) s \<longleftrightarrow> live_slot d s"
  using assms by (auto simp: live_slot_def nth_append)

lemma append_slot_payload:
  assumes "lists_ok dim d" "length (cd_ids d) < 2 ^ 64"
  shows "slot_payload (append_point dim p d) = (slot_payload d)(word_of_nat (length (cd_ids d)) := pp_payload p)"
proof
  fix s :: u64
  have "s = word_of_nat (length (cd_ids d)) \<longleftrightarrow> unat s = length (cd_ids d)" using assms by (intro slot_eq)
  then show "slot_payload (append_point dim p d) s
      = ((slot_payload d)(word_of_nat (length (cd_ids d)) := pp_payload p)) s"
    using assms by (auto simp: slot_payload_def lists_ok_def nth_append)
qed

lemma append_inv:
  assumes inv: "data_inv dim d" and fresh: "map_of (cd_id_to_slot d) (pp_id p) = None"
    and dim: "length (pp_vector p) = dim" and fits: "length (cd_ids d) < 2 ^ 64"
  shows "data_inv dim (append_point dim p d)"
proof -
  note i = inv [unfolded data_inv_def]
  have ids: "ids_ok d" and l: "lists_ok dim d" using i by auto
  let ?d = "append_point dim p d" and ?n = "length (cd_ids d)"
  have live: "live_slot ?d s \<longleftrightarrow> s = ?n \<or> live_slot d s" if "s < Suc ?n" for s
    using that append_live [where p = p and dim = dim, OF ids fresh] by (cases "s = ?n") (auto simp: live_slot_def nth_append)
  have "ids_ok ?d"
    unfolding ids_ok_def
  proof (intro conjI allI impI)
    show "distinct (map fst (cd_id_to_slot ?d))" using ids by (simp add: ids_ok_def distinct_update)
    fix k s assume k: "map_of (cd_id_to_slot ?d) k = Some s"
    then show "s < length (cd_ids ?d)" using ids_okD [OF ids, of k s] by (auto split: if_splits)
    show "cd_ids ?d ! s = k" using k ids_okD [OF ids, of k s] by (auto simp: nth_append split: if_splits)
  qed
  moreover have "lists_ok dim ?d"
    using l dim fits by (auto simp: lists_ok_def Suc_diff_le)
  moreover have dead: "dead_slots ?d = dead_slots d"
    using live append_live [where p = p and dim = dim, OF ids fresh] by (auto simp: dead_slots_def less_Suc_eq)
  then have "dead_ok ?d"
    using i unfolding dead_ok_def dead by (auto simp: lists_ok_def nth_append dead_slots_def)
  moreover have "slot_payload d (word_of_nat ?n) = None"
    using l fits by (simp add: slot_payload_def unat_slot lists_ok_def)
  then have "payloads_ok ?d"
    using i fits indexes_insert_holds [of "cd_payload_indexes d" "slot_payload d" "word_of_nat ?n" "pp_payload p"]
    by (simp add: payloads_ok_def append_slot_payload [OF l])
  moreover have "graph_ok dim ?d"
  proof (cases "cd_index d")
    case (Some ix)
    then have g: "distinct (map fst (hx_nodes ix))" "\<And>s v. (s, v) \<in> set (hx_nodes ix) \<Longrightarrow> s < ?n \<and> v = copy_vector d s dim"
      "\<And>s. s < ?n \<Longrightarrow> live_slot d s \<Longrightarrow> s \<in> fst ` set (hx_nodes ix)"
      using i by (auto simp: graph_ok_def)
    have "?n \<notin> fst ` set (hx_nodes ix)" using g(2) by fastforce
    then show ?thesis
      using g live append_copy_old [OF l] append_copy_new [OF l dim]
      by (auto simp: graph_ok_def append_graph [OF l dim] Some less_Suc_eq)
  qed (simp add: graph_ok_def append_graph [OF l dim])
  ultimately show ?thesis by (simp add: data_inv_def)
qed

lemma append_contents:
  assumes inv: "data_inv dim d" and dim: "length (pp_vector p) = dim"
  shows "contents dim (append_point dim p d) = (contents dim d)(pp_id p \<mapsto> prepared_contents p)"
proof
  fix k
  note i = inv [unfolded data_inv_def]
  have l: "lists_ok dim d" "length (cd_payloads d) = length (cd_ids d)" "length (cd_sparses d) = length (cd_ids d)"
    using i by (auto simp: lists_ok_def)
  show "contents dim (append_point dim p d) k = ((contents dim d)(pp_id p \<mapsto> prepared_contents p)) k"
  proof (cases "k = pp_id p")
    case False
    then show ?thesis
      using l i append_copy_old [OF l(1)]
      by (cases "map_of (cd_id_to_slot d) k")
        (auto simp: contents_def slot_contents_def nth_append dest: ids_okD)
  qed (use l append_copy_new [OF l(1) dim] in \<open>simp add: contents_def slot_contents_def prepared_contents_def nth_append\<close>)
qed

subsection \<open>Insertion or replacement\<close>

lemma apply_upsert_inv:
  assumes inv: "data_inv dim d" and "length (pp_vector p) = dim" "0 < room d"
  shows "data_inv dim (apply_upsert dim p d)"
proof (cases "map_of (cd_id_to_slot d) (pp_id p)")
  case None
  then show ?thesis using assms by (simp add: apply_upsert_def append_inv room_def)
next
  case (Some slot)
  then show ?thesis
    using assms retire_inv [OF inv Some] by (simp add: apply_upsert_def append_inv room_def)
qed

lemma apply_upsert_contents:
  assumes inv: "data_inv dim d" and "length (pp_vector p) = dim"
  shows "contents dim (apply_upsert dim p d) = (contents dim d)(pp_id p \<mapsto> prepared_contents p)"
proof (cases "map_of (cd_id_to_slot d) (pp_id p)")
  case None
  then show ?thesis using assms by (simp add: apply_upsert_def append_contents)
next
  case (Some slot)
  then show ?thesis
    using assms retire_inv [OF inv Some] retire_contents [OF inv Some] by (simp add: apply_upsert_def append_contents)
qed

lemma apply_upsert_room: "room (apply_upsert dim p d) = room d - 1"
  by (simp add: apply_upsert_def room_def split: option.split)

subsection \<open>The live points in slot order\<close>

definition listing :: "nat \<Rightarrow> 'q collection_data \<Rightarrow> (string \<times> stored) list" where
  "listing dim d = map (\<lambda>s. (cd_ids d ! s, slot_contents dim d s)) (live_slots d)"

lemma live_slots_set: "set (live_slots d) = {s. s < length (cd_ids d) \<and> live_slot d s}"
  by (auto simp: live_slots_def)

lemma live_slots_distinct [simp]: "distinct (live_slots d)"
  by (simp add: live_slots_def)

lemma live_slots_sorted [simp]: "sorted (live_slots d)"
  by (simp add: live_slots_def sorted_wrt_filter)

lemma live_slots_inj: "ids_ok d \<Longrightarrow> inj_on (\<lambda>s. cd_ids d ! s) (set (live_slots d))"
  unfolding inj_on_def live_slots_set live_slot_def by (metis (mono_tags, lifting) mem_Collect_eq option.inject)

lemma listing_distinct: "ids_ok d \<Longrightarrow> distinct (map fst (listing dim d))"
  by (simp add: listing_def comp_def distinct_map live_slots_inj)

lemma listing_view:
  assumes "ids_ok d"
  shows "map_of (listing dim d) = contents dim d"
proof (rule ext)
  fix k
  have d: "distinct (map fst (listing dim d))" using assms by (rule listing_distinct)
  have "(k, v) \<in> set (listing dim d) \<longleftrightarrow> contents dim d k = Some v" for v
  proof -
    have "(k, v) \<in> set (listing dim d) \<longleftrightarrow>
        (\<exists>s. s < length (cd_ids d) \<and> live_slot d s \<and> cd_ids d ! s = k \<and> slot_contents dim d s = v)"
      unfolding listing_def set_map live_slots_set by blast
    also have "\<dots> \<longleftrightarrow> (\<exists>s. map_of (cd_id_to_slot d) k = Some s \<and> slot_contents dim d s = v)"
      using ids_okD [OF assms, of k] by (auto simp: live_slot_def)
    finally show ?thesis by (simp add: contents_def)
  qed
  then show "map_of (listing dim d) k = contents dim d k"
    using d by (metis map_of_eq_Some_iff not_Some_eq)
qed

subsection \<open>The slot storage is a listed store\<close>

abbreviation has_dimension :: "nat \<Rightarrow> prepared_point \<Rightarrow> bool" where
  "has_dimension dim p \<equiv> length (pp_vector p) = dim"

interpretation slots: keyed_store "data_inv dim" room "contents dim" "apply_upsert dim" "has_dimension dim"
  pp_id prepared_contents tombstone
  for dim :: nat
  by unfold_locales
    (simp_all add: apply_upsert_inv apply_upsert_contents apply_upsert_room tombstone_inv tombstone_contents tombstone_result)

interpretation live: listed_store "data_inv dim" room "contents dim" "apply_upsert dim" "has_dimension dim"
  pp_id prepared_contents tombstone "listing dim"
  for dim :: nat
  by unfold_locales (simp_all add: listing_distinct listing_view data_inv_def)

lemma live_slots_length: "data_inv dim d \<Longrightarrow> length (live_slots d) = card (dom (contents dim d))"
  using live.listing_length [of dim d] by (simp add: listing_def)

lemma tombstone_all_facts:
  assumes "data_inv dim d"
  shows "data_inv dim (snd (tombstone_all keys d))"
    "contents dim (snd (tombstone_all keys d)) = contents dim d |` (- set keys)"
    "fst (tombstone_all keys d) = card (set keys \<inter> dom (contents dim d))"
  using assms by (simp_all add: tombstone_all_def slots.del_all_inv slots.del_all_view slots.del_all_count)

lemma apply_prepared_facts:
  assumes "data_inv dim d" "list_all (has_dimension dim) ps" "length ps \<le> room d"
  shows "data_inv dim (apply_prepared dim ps d)"
    "contents dim (apply_prepared dim ps d) = contents dim d ++ map_of (rev (map (\<lambda>p. (pp_id p, prepared_contents p)) ps))"
    "room (apply_prepared dim ps d) = room d - length ps"
  using assms by (simp_all add: apply_prepared_def slots.put_all_inv slots.put_all_view slots.put_all_free)

end
