(* ===== verification/Maintenance.thy ===== *)
theory Maintenance
  imports Collection_Ops Collection_Inv
begin

section \<open>Reindexing, compaction, declared indexes and replay (\<open>collection.rs\<close>)\<close>

text \<open>
  The operations that rebuild parts of a collection, and the hooks that loading, checkpoints and recovery use. Each keeps
  the invariant; compaction and reindexing also keep the contents.
\<close>

subsection \<open>Quantization and reindexing\<close>

definition set_codes :: "bytes \<Rightarrow> 'q option \<Rightarrow> 'q collection_data \<Rightarrow> 'q collection_data" where
  "set_codes codes params d = d\<lparr>cd_codes := codes, cd_quant_params := params\<rparr>"

definition recompute_quantization ::
  "'q quantizers \<Rightarrow> collection_options \<Rightarrow> f32 list list \<Rightarrow> 'q collection_data \<Rightarrow> unit res \<times> 'q collection_data" where
  "recompute_quantization Q opts live d =
     (if live = [] then (Inr (), set_codes [] None d)
      else
        let fitted = (case co_quantization opts of
                        Quant_None \<Rightarrow> Inr ([], None)
                      | Quant_Scalar bits \<Rightarrow> tryR (qz_scalar Q bits live) (\<lambda>(codes, params). Inr (codes, Some params))
                      | Quant_Binary \<Rightarrow> tryR (qz_binary Q live) (\<lambda>(codes, params). Inr (codes, Some params)))
        in case fitted of
             Inl e \<Rightarrow> (Inl e, d)
           | Inr (codes, params) \<Rightarrow> (Inr (), set_codes codes params d))"

definition live_vectors :: "nat \<Rightarrow> 'q collection_data \<Rightarrow> (nat \<times> f32 list) list" where
  "live_vectors dim d = map (\<lambda>s. (s, copy_vector d s dim)) (live_slots d)"

definition fresh_graph :: "collection_options \<Rightarrow> nat \<Rightarrow> hnsw_index res" where
  "fresh_graph opts capacity =
     hnsw_new (co_metric opts) (co_dimension opts) (ho_m (co_hnsw opts)) (ho_ef_construction (co_hnsw opts)) capacity"

definition budget_gated :: "'q collection_data \<Rightarrow> bool" where
  "budget_gated d = (case cd_base d of None \<Rightarrow> False | Some b \<Rightarrow> \<not> bt_indexed b)"

definition reindex :: "'q quantizers \<Rightarrow> 'q collection \<Rightarrow> unit res \<times> 'q collection" where
  "reindex Q c =
     (let d = cl_data c; opts = cl_config c; live = live_vectors (co_dimension opts) d;
          index = tryR (guard c) (\<lambda>_.
            if co_metric opts = DotProduct \<or> budget_gated d then Inr None
            else tryR (fresh_graph opts (max (length live) 1)) (\<lambda>fresh.
              Inr (Some (if live = [] then fresh else hnsw_insert_batch live fresh))))
      in case index of
           Inl e \<Rightarrow> (Inl e, c)
         | Inr ix \<Rightarrow>
             (case recompute_quantization Q opts (map snd live) (d\<lparr>cd_index := ix\<rparr>) of
                (r, d1) \<Rightarrow> (r, c\<lparr>cl_data := d1\<rparr>)))"

subsection \<open>Compaction\<close>

definition live_prepared :: "nat \<Rightarrow> 'q collection_data \<Rightarrow> prepared_point list" where
  "live_prepared dim d =
     map (\<lambda>s. \<lparr>pp_id = cd_ids d ! s, pp_vector = copy_vector d s dim, pp_sparse = cd_sparses d ! s,
              pp_payload = cd_payloads d ! s\<rparr>) (live_slots d)"

definition clear_slots :: "'q collection_data \<Rightarrow> 'q collection_data" where
  "clear_slots d =
     d\<lparr>cd_vectors := [], cd_ids := [], cd_id_to_slot := [], cd_tombstones := {}, cd_payloads := [], cd_sparses := [],
       cd_base := None, cd_sealed := None, cd_dirty := True,
       cd_payload_indexes := indexes_new (declared_indexes (cd_payload_indexes d))\<rparr>"

definition compact :: "'q quantizers \<Rightarrow> 'q collection \<Rightarrow> unit res \<times> 'q collection" where
  "compact Q c =
     (case guard c of
        Inl e \<Rightarrow> (Inl e, c)
      | Inr _ \<Rightarrow>
          let opts = cl_config c; dim = co_dimension opts; live = live_prepared dim (cl_data c);
              d = clear_slots (cl_data c);
              index = (if co_metric opts = DotProduct then Inr None
                       else tryR (fresh_graph opts (max (length live) 1)) (\<lambda>fresh. Inr (Some fresh)))
          in case index of
               Inl e \<Rightarrow> (Inl e, c\<lparr>cl_data := d\<rparr>)
             | Inr ix \<Rightarrow>
                 (case recompute_quantization Q opts (map pp_vector live) (apply_prepared dim live (d\<lparr>cd_index := ix\<rparr>)) of
                    (r, d1) \<Rightarrow> (r, c\<lparr>cl_data := d1\<rparr>)))"

subsection \<open>Declared payload indexes\<close>

definition backfill :: "'q collection_data \<Rightarrow> payload_indexes \<Rightarrow> payload_indexes" where
  "backfill d ix = fold (\<lambda>s ix. indexes_insert ix (word_of_nat s) (cd_payloads d ! s)) (live_slots d) ix"

definition apply_declare_index :: "string \<Rightarrow> payload_index_kind \<Rightarrow> 'q collection_data \<Rightarrow> 'q collection_data" where
  "apply_declare_index key kind d =
     (case declare_index key kind (cd_payload_indexes d) of
        (False, _) \<Rightarrow> d
      | (True, ix) \<Rightarrow> d\<lparr>cd_payload_indexes := backfill d ix, cd_dirty := True\<rparr>)"

fun kind_text :: "payload_index_kind \<Rightarrow> string" where
  "kind_text Keyword = ''Keyword''"
| "kind_text IntegerKind = ''Integer''"
| "kind_text FloatKind = ''Float''"

definition indexable_key :: "string \<Rightarrow> bool" where
  "indexable_key key \<longleftrightarrow> key \<noteq> [] \<and> hd key \<noteq> CHR ''_'' \<and> CHR ''.'' \<notin> set key"

definition create_payload_index_step ::
  "pidx_declare msgpack \<Rightarrow> 's wal_log \<Rightarrow> string \<Rightarrow> payload_index_kind \<Rightarrow> 'q collection \<Rightarrow> 's
    \<Rightarrow> unit res \<times> 'q collection \<times> 's" where
  "create_payload_index_step M L key kind c s =
     (case guard c of
        Inl e \<Rightarrow> (Inl e, c, s)
      | Inr _ \<Rightarrow>
          if \<not> indexable_key key
          then (Inl (InvalidArgument (''cannot index payload key '' @ quoted key
                     @ '' (empty, reserved '' @ [CHR 0x27] @ ''_'' @ [CHR 0x27] @ '' prefix, or nested path)'')), c, s)
          else
            (case kind_of (cd_payload_indexes (cl_data c)) key of
               Some existing \<Rightarrow>
                 (if existing = kind then Inr ()
                  else Inl (InvalidArgument (''payload index '' @ quoted key @ '' is already declared as '' @ kind_text existing)),
                  c, s)
             | None \<Rightarrow>
                 (case encode_wal M \<lparr>wp_key = key, wp_kind = pidx_kind_byte kind\<rparr> c of
                    Inl e \<Rightarrow> (Inl e, c, s)
                  | Inr body \<Rightarrow>
                      (case coll_log L PidxDeclare body c s of
                         (Inl e, s1) \<Rightarrow> (Inl e, c, s1)
                       | (Inr _, s1) \<Rightarrow> (Inr (), c\<lparr>cl_data := apply_declare_index key kind (cl_data c)\<rparr>, s1)))))"

definition coll_declared_indexes :: "'q collection \<Rightarrow> (string \<times> payload_index_kind) list" where
  "coll_declared_indexes c = declared_indexes (cd_payload_indexes (cl_data c))"

subsection \<open>Loading, sealing and replay\<close>

definition install_points :: "(json \<Rightarrow> nat) \<Rightarrow> point list \<Rightarrow> 'q collection \<Rightarrow> 'q collection res" where
  "install_points json_len points c =
     tryR (mapR (prepare_inner json_len (cl_config c) True) points) (\<lambda>prepared.
       Inr (c\<lparr>cl_data := apply_prepared (co_dimension (cl_config c)) prepared (cl_data c)\<rparr>))"

definition clean_reuse :: "'q collection \<Rightarrow> (seg_ref list \<times> u64 \<times> u64) option" where
  "clean_reuse c =
     (let d = cl_data c
      in if cd_dirty d then None
         else case cd_base d of
                Some b \<Rightarrow> Some (bt_seg_refs b, bt_vector_count b, bt_tombstone_count b)
              | None \<Rightarrow> map_option (\<lambda>s. (sr_refs s, sr_vector_count s, sr_tombstone_count s)) (cd_sealed d))"

definition mark_sealed :: "seg_ref list \<Rightarrow> u64 \<Rightarrow> u64 \<Rightarrow> 'q collection \<Rightarrow> 'q collection" where
  "mark_sealed refs vector_count tombstone_count c =
     c\<lparr>cl_data := (cl_data c)
         \<lparr>cd_sealed := Some \<lparr>sr_refs = refs, sr_vector_count = vector_count, sr_tombstone_count = tombstone_count\<rparr>,
          cd_dirty := False\<rparr>\<rparr>"

definition drop_base_unchecked :: "'q collection \<Rightarrow> 'q collection" where
  "drop_base_unchecked c = c\<lparr>cl_data := (cl_data c)\<lparr>cd_base := None, cd_sealed := None\<rparr>\<rparr>"

definition stored_text :: "json option \<Rightarrow> string option" where
  "stored_text payload = Option.bind (payload_lookup payload ''_text'') as_str"

definition fold_texts :: "'e embedder_ops \<Rightarrow> prepared_point list \<Rightarrow> 'e \<Rightarrow> 'e" where
  "fold_texts ops ps e =
     fold (\<lambda>p e. case stored_text (pp_payload p) of None \<Rightarrow> e | Some t \<Rightarrow> em_add_document ops e t) ps e"

definition replay_upsert ::
  "(json \<Rightarrow> nat) \<Rightarrow> 'e embedder_ops \<Rightarrow> point list \<Rightarrow> 'q collection \<Rightarrow> 'e list \<Rightarrow> ('q collection \<times> 'e list) res" where
  "replay_upsert json_len ops points c E =
     tryR (mapR (prepare_inner json_len (cl_config c) True) points) (\<lambda>prepared.
       Inr (c\<lparr>cl_data := apply_prepared (co_dimension (cl_config c)) prepared (cl_data c)\<rparr>,
            case cl_embedder c of
              EmbReady r \<Rightarrow> (if r < length E then E[r := fold_texts ops prepared (E ! r)] else E)
            | _ \<Rightarrow> E))"

definition replay_delete :: "string list \<Rightarrow> 'q collection \<Rightarrow> 'q collection" where
  "replay_delete keys c = c\<lparr>cl_data := snd (tombstone_all keys (cl_data c))\<rparr>"

definition replay_declare_index :: "string \<Rightarrow> payload_index_kind \<Rightarrow> 'q collection \<Rightarrow> 'q collection" where
  "replay_declare_index key kind c = c\<lparr>cl_data := apply_declare_index key kind (cl_data c)\<rparr>"

subsection \<open>Scrolling\<close>

record scroll_page =
  sp_points :: "point list"
  sp_next_cursor :: "string option"

definition rposition :: "'a \<Rightarrow> 'a list \<Rightarrow> nat option" where
  "rposition x xs = find (\<lambda>i. xs ! i = x) (rev [0..<length xs])"

definition scroll_start :: "'q collection_data \<Rightarrow> string option \<Rightarrow> nat" where
  "scroll_start d after =
     (case after of
        None \<Rightarrow> 0
      | Some key \<Rightarrow>
          (case map_of (cd_id_to_slot d) key of
             Some s \<Rightarrow> s + 1
           | None \<Rightarrow> (case rposition key (cd_ids d) of None \<Rightarrow> 0 | Some s \<Rightarrow> s + 1)))"

definition wanted :: "filter option \<Rightarrow> 'q collection_data \<Rightarrow> nat \<Rightarrow> bool" where
  "wanted f d s = (case f of None \<Rightarrow> True | Some g \<Rightarrow> filter_matches g (cd_payloads d ! s))"

definition validate_option :: "filter option \<Rightarrow> unit res" where
  "validate_option f = (case f of None \<Rightarrow> Inr () | Some g \<Rightarrow> filter_validate g)"

fun scroll_from :: "nat \<Rightarrow> filter option \<Rightarrow> 'q collection \<Rightarrow> nat list \<Rightarrow> point list \<Rightarrow> scroll_page" where
  "scroll_from limit f c [] points = \<lparr>sp_points = points, sp_next_cursor = None\<rparr>"
| "scroll_from limit f c (s # slots) points =
     (if \<not> live_slot (cl_data c) s \<or> \<not> wanted f (cl_data c) s then scroll_from limit f c slots points
      else if length points = limit
      then \<lparr>sp_points = points, sp_next_cursor = (if points = [] then None else Some (pt_id (last points)))\<rparr>
      else scroll_from limit f c slots (points @ [point_at c s]))"

definition limit_error :: vec_lite_error where
  "limit_error = InvalidArgument ''limit must be greater than 0''"

definition scroll :: "string option \<Rightarrow> nat \<Rightarrow> filter option \<Rightarrow> 'q collection \<Rightarrow> scroll_page res" where
  "scroll after limit f c =
     tryR (guard c) (\<lambda>_.
     if limit = 0 then Inl limit_error
     else tryR (validate_option f) (\<lambda>_.
       Inr (scroll_from limit f c [scroll_start (cl_data c) after..<length (cd_ids (cl_data c))] [])))"

subsection \<open>The invariant of a collection handle\<close>

text \<open>A collection with a graph was created with parameters the graph accepts, so rebuilding the graph cannot fail.\<close>

definition config_ok :: "collection_options \<Rightarrow> bool" where
  "config_ok opts \<longleftrightarrow> co_metric opts = DotProduct \<or>
     (4 \<le> ho_m (co_hnsw opts) \<and> ho_m (co_hnsw opts) \<le> 64
      \<and> 8 \<le> ho_ef_construction (co_hnsw opts) \<and> ho_ef_construction (co_hnsw opts) \<le> 2048)"

definition coll_inv :: "'q collection \<Rightarrow> bool" where
  "coll_inv c \<longleftrightarrow> config_ok (cl_config c) \<and> data_inv (co_dimension (cl_config c)) (cl_data c)"

definition coll_contents :: "'q collection \<Rightarrow> string \<Rightarrow> stored option" where
  "coll_contents c = contents (co_dimension (cl_config c)) (cl_data c)"

lemma hnsw_new_bounds:
  "hnsw_new me dim m ef cap = Inr ix \<Longrightarrow> 4 \<le> m \<and> m \<le> 64 \<and> 8 \<le> ef \<and> ef \<le> 2048"
  using hnsw_new_Inr [of me dim m ef cap] by blast

lemma with_embedder_facts:
  assumes "with_embedder name opts coll_id persistent capacity slot = Inr c"
  shows "coll_inv c \<and> coll_contents c = Map.empty \<and> cl_config c = opts \<and> cl_coll_id c = coll_id \<and> cl_name c = name
    \<and> \<not> cl_deleted c \<and> cl_aliases c = [] \<and> cl_persistent c = persistent \<and> cl_embedder c = slot
    \<and> room (cl_data c) = 2 ^ 64"
proof -
  obtain index where i: "index_for opts (max capacity INITIAL_INDEX_CAPACITY) = Inr index"
    and c: "c = \<lparr>cl_name = name, cl_aliases = [], cl_config = opts, cl_coll_id = coll_id, cl_deleted = False,
            cl_persistent = persistent, cl_embedder = slot, cl_pending_vocab = None, cl_text_dirty = False,
            cl_data = data_empty index (indexes_new (co_payload_indexes opts))\<rparr>"
    using assms by (auto simp: with_embedder_def tryR_eq_Inr)
  have "\<forall>x. index = Some x \<longrightarrow> hx_nodes x = []"
    using i by (auto simp: index_for_def tryR_eq_Inr hnsw_new_nodes split: if_splits)
  then have "data_inv (co_dimension opts) (cl_data c)" unfolding c by (simp add: data_empty_inv)
  moreover have "contents (co_dimension opts) (cl_data c) = Map.empty" unfolding c by (simp add: data_empty_contents)
  moreover have "room (cl_data c) = 2 ^ 64" by (simp add: c room_def data_empty_def)
  moreover have "config_ok opts"
    using i by (auto simp: index_for_def tryR_eq_Inr config_ok_def dest: hnsw_new_bounds split: if_split_asm)
  ultimately show ?thesis by (simp add: coll_inv_def coll_contents_def) (simp add: c)
qed

subsection \<open>Rebuilding the slots\<close>

lemma set_codes_same: "same_store (set_codes codes params d) d"
  by (simp add: same_store_def set_codes_def)

lemma recompute_quantization_same: "same_store (snd (recompute_quantization Q opts live d)) d"
  by (simp add: recompute_quantization_def Let_def set_codes_same same_store_def [of d d] split: sum.split)

lemma clear_slots_same:
  "same_store ((clear_slots d)\<lparr>cd_index := ix\<rparr>) (data_empty ix (indexes_new (declared_indexes (cd_payload_indexes d))))"
  by (simp add: same_store_def clear_slots_def data_empty_def)

lemma clear_slots_facts:
  assumes "\<forall>i. ix = Some i \<longrightarrow> hx_nodes i = []"
  shows "data_inv dim ((clear_slots d)\<lparr>cd_index := ix\<rparr>)" "contents dim ((clear_slots d)\<lparr>cd_index := ix\<rparr>) = Map.empty"
    "room ((clear_slots d)\<lparr>cd_index := ix\<rparr>) = 2 ^ 64"
  using assms
  by (simp_all add: same_store_inv [OF clear_slots_same] same_store_contents [OF clear_slots_same] data_empty_inv
      data_empty_contents) (simp add: room_def clear_slots_def)

lemma live_prepared_listing: "map (\<lambda>p. (pp_id p, prepared_contents p)) (live_prepared dim d) = listing dim d"
  by (simp add: live_prepared_def listing_def prepared_contents_def slot_contents_def)

lemma live_slots_bound: "length (live_slots d) \<le> length (cd_ids d)"
  unfolding live_slots_def by (rule order_trans [OF length_filter_le]) simp

lemma live_prepared_fits:
  assumes "data_inv dim d"
  shows "list_all (has_dimension dim) (live_prepared dim d)" "length (live_prepared dim d) \<le> 2 ^ 64"
proof -
  have l: "lists_ok dim d" using assms by (simp add: data_inv_def)
  show "list_all (has_dimension dim) (live_prepared dim d)"
    using copy_vector_length [OF l] by (auto simp: live_prepared_def list_all_iff live_slots_set)
  show "length (live_prepared dim d) \<le> 2 ^ 64"
    using l live_slots_bound [of d] by (auto simp: live_prepared_def lists_ok_def)
qed

text \<open>Every slot an append fills is live when the ids are distinct, so nothing is dead afterwards.\<close>

lemma apply_upsert_length: "length (cd_ids (apply_upsert dim p d)) = Suc (length (cd_ids d))"
  by (simp add: apply_upsert_def split: option.split)

lemma apply_prepared_length: "length (cd_ids (apply_prepared dim ps d)) = length (cd_ids d) + length ps"
  by (induction ps arbitrary: d) (simp_all add: apply_prepared_def apply_upsert_length)

lemma dead_none:
  assumes "data_inv dim d" "length (cd_ids d) = card (dom (contents dim d))"
  shows "cd_tombstones d = {}"
proof -
  have "length (live_slots d) = length (cd_ids d)" using assms live_slots_length [of dim d] by simp
  then have "card (set (live_slots d)) = length (cd_ids d)" by (simp add: distinct_card)
  then have "set (live_slots d) = {..<length (cd_ids d)}"
    by (intro card_subset_eq) (auto simp: live_slots_set)
  then show ?thesis
    using assms(1) by (auto simp: data_inv_def dead_ok_def dead_slots_def live_slots_set)
qed

lemma rebuilt_facts:
  assumes inv: "data_inv dim d" and ix: "\<forall>i. ix = Some i \<longrightarrow> hx_nodes i = []"
  defines "r \<equiv> apply_prepared dim (live_prepared dim d) ((clear_slots d)\<lparr>cd_index := ix\<rparr>)"
  shows "data_inv dim r \<and> contents dim r = contents dim d \<and> cd_tombstones r = {}"
proof -
  let ?e = "(clear_slots d)\<lparr>cd_index := ix\<rparr>"
  note l = live_prepared_fits [OF inv]
  have e: "data_inv dim ?e" "contents dim ?e = Map.empty" "room ?e = 2 ^ 64"
    by (rule clear_slots_facts [OF ix])+
  have r: "data_inv dim r" unfolding r_def using e l by (intro apply_prepared_facts(1)) auto
  have c: "contents dim r = contents dim d"
    unfolding r_def apply_prepared_def using e l
    by (intro live.rebuild_view [OF inv e(1,2) _ live_prepared_listing]) (simp_all add: listing_def live_prepared_def)
  have "length (cd_ids ?e) = 0" by (simp add: clear_slots_def)
  then have "length (cd_ids r) = card (dom (contents dim d))"
    unfolding r_def apply_prepared_length using live_slots_length [OF inv] by (simp add: live_prepared_def)
  then have "cd_tombstones r = {}" using dead_none [OF r] c by simp
  then show ?thesis using r c by simp
qed

lemma fresh_graph_ok: "config_ok opts \<Longrightarrow> co_metric opts \<noteq> DotProduct \<Longrightarrow> \<exists>f. fresh_graph opts n = Inr f"
  unfolding fresh_graph_def hnsw_new_Inr by (simp add: config_ok_def)

lemma compact_facts:
  assumes inv: "coll_inv c" and ok: "compact Q c = (r, c')" and g: "guard c = Inr ()"
  shows "coll_inv c' \<and> coll_contents c' = coll_contents c \<and> cd_tombstones (cl_data c') = {} \<and> cl_config c' = cl_config c"
proof -
  let ?dim = "co_dimension (cl_config c)"
  let ?d = "cl_data c"
  obtain ix where ix: "(if co_metric (cl_config c) = DotProduct then Inr None
              else tryR (fresh_graph (cl_config c) (max (length (live_prepared ?dim ?d)) 1)) (\<lambda>fresh. Inr (Some fresh))) = Inr ix"
    using inv fresh_graph_ok [of "cl_config c"] by (fastforce simp: coll_inv_def tryR_eq_Inr)
  obtain d1 where q: "recompute_quantization Q (cl_config c) (map pp_vector (live_prepared ?dim ?d))
              (apply_prepared ?dim (live_prepared ?dim ?d) ((clear_slots ?d)\<lparr>cd_index := ix\<rparr>)) = (r, d1)"
    and c': "c' = c\<lparr>cl_data := d1\<rparr>"
    using ok unfolding compact_def Let_def ix g by (auto split: prod.splits)
  have e: "\<forall>i. ix = Some i \<longrightarrow> hx_nodes i = []"
    using ix by (auto simp: tryR_eq_Inr fresh_graph_def hnsw_new_nodes split: if_splits)
  have s: "same_store d1 (apply_prepared ?dim (live_prepared ?dim ?d) ((clear_slots ?d)\<lparr>cd_index := ix\<rparr>))"
    using recompute_quantization_same [of Q "cl_config c" "map pp_vector (live_prepared ?dim ?d)"] q by (metis snd_conv)
  have "data_inv ?dim ?d" using inv by (simp add: coll_inv_def)
  from rebuilt_facts [OF this e] show ?thesis
    using same_store_inv [OF s] same_store_contents [OF s] s inv
    by (simp add: c' coll_inv_def coll_contents_def same_store_def)
qed

subsection \<open>Replacing the graph\<close>

lemma index_views [simp]:
  "copy_vector (d\<lparr>cd_index := ix\<rparr>) s dim = copy_vector d s dim" "live_slot (d\<lparr>cd_index := ix\<rparr>) s = live_slot d s"
  "slot_payload (d\<lparr>cd_index := ix\<rparr>) = slot_payload d" "base_count (d\<lparr>cd_index := ix\<rparr>) = base_count d"
  "base_vector (d\<lparr>cd_index := ix\<rparr>) s = base_vector d s" "slot_contents dim (d\<lparr>cd_index := ix\<rparr>) = slot_contents dim d"
  by (simp_all add: copy_vector_def overlay_vector_def base_vector_def base_count_def live_slot_def slot_payload_def
      slot_contents_def fun_eq_iff)

lemma payload_indexes_views [simp]:
  "copy_vector (d\<lparr>cd_payload_indexes := ix\<rparr>) s dim = copy_vector d s dim"
  "live_slot (d\<lparr>cd_payload_indexes := ix\<rparr>) s = live_slot d s"
  "slot_payload (d\<lparr>cd_payload_indexes := ix\<rparr>) = slot_payload d"
  "base_count (d\<lparr>cd_payload_indexes := ix\<rparr>) = base_count d"
  "base_vector (d\<lparr>cd_payload_indexes := ix\<rparr>) s = base_vector d s"
  "slot_contents dim (d\<lparr>cd_payload_indexes := ix\<rparr>) = slot_contents dim d"
  by (simp_all add: copy_vector_def overlay_vector_def base_vector_def base_count_def live_slot_def slot_payload_def
      slot_contents_def fun_eq_iff)

lemma contents_updates [simp]:
  "contents dim (d\<lparr>cd_index := ix\<rparr>) = contents dim d" "contents dim (d\<lparr>cd_payload_indexes := pix\<rparr>) = contents dim d"
  by (rule ext, simp add: contents_def)+

lemma payload_indexes_inv:
  "data_inv dim d \<Longrightarrow> indexes_hold ix (slot_payload d) \<Longrightarrow> data_inv dim (d\<lparr>cd_payload_indexes := ix\<rparr>)"
  by (simp add: data_inv_def ids_ok_def lists_ok_def dead_ok_def dead_slots_def payloads_ok_def graph_ok_def
      cong: option.case_cong)

lemma live_vectors_nodes:
  "map fst (live_vectors dim d) = live_slots d" "fst ` set (live_vectors dim d) = set (live_slots d)"
  "(s, v) \<in> set (live_vectors dim d) \<longleftrightarrow> s < length (cd_ids d) \<and> live_slot d s \<and> v = copy_vector d s dim"
  by (auto simp: live_vectors_def comp_def live_slots_set image_image)

lemma index_inv:
  assumes inv: "data_inv dim d" and ix: "\<forall>i. ix = Some i \<longrightarrow> hx_nodes i = live_vectors dim d"
  shows "data_inv dim (d\<lparr>cd_index := ix\<rparr>)"
proof -
  have "graph_ok dim (d\<lparr>cd_index := ix\<rparr>)"
    using ix by (cases ix) (auto simp: graph_ok_def live_vectors_nodes live_slots_set)
  then show ?thesis
    using inv by (simp add: data_inv_def ids_ok_def lists_ok_def dead_ok_def dead_slots_def payloads_ok_def)
qed

lemma reindex_facts:
  assumes inv: "coll_inv c" and ok: "reindex Q c = (r, c')" and g: "guard c = Inr ()"
  shows "coll_inv c' \<and> cl_config c' = cl_config c \<and> coll_contents c' = coll_contents c \<and>
    (case cd_index (cl_data c') of None \<Rightarrow> co_metric (cl_config c) = DotProduct \<or> budget_gated (cl_data c)
     | Some ix \<Rightarrow> hx_nodes ix = live_vectors (co_dimension (cl_config c)) (cl_data c))"
proof -
  let ?dim = "co_dimension (cl_config c)"
  let ?d = "cl_data c"
  let ?live = "live_vectors ?dim ?d"
  let ?graph = "(if co_metric (cl_config c) = DotProduct \<or> budget_gated ?d then Inr None
              else tryR (fresh_graph (cl_config c) (max (length ?live) 1))
                (\<lambda>fresh. Inr (Some (if ?live = [] then fresh else hnsw_insert_batch ?live fresh))))"
  obtain ix where ix: "?graph = Inr ix"
  proof (cases "co_metric (cl_config c) = DotProduct")
    case False
    then show ?thesis
      using that inv fresh_graph_ok [of "cl_config c" "max (length ?live) 1"]
      by (cases "budget_gated ?d") (fastforce simp: coll_inv_def)+
  qed (use that in simp)
  obtain d1 where q: "recompute_quantization Q (cl_config c) (map snd ?live) (?d\<lparr>cd_index := ix\<rparr>) = (r, d1)"
    and c': "c' = c\<lparr>cl_data := d1\<rparr>"
    using ok unfolding reindex_def Let_def g tryR_Inr ix by (auto split: prod.splits)
  have n: "hx_nodes i = ?live" if "ix = Some i" for i
  proof -
    have "tryR (fresh_graph (cl_config c) (max (length ?live) 1))
        (\<lambda>f. Inr (Some (if ?live = [] then f else hnsw_insert_batch ?live f))) = Inr (Some i)"
      using ix that by (simp split: if_split_asm)
    then obtain f where "fresh_graph (cl_config c) (max (length ?live) 1) = Inr f"
      and i: "i = (if ?live = [] then f else hnsw_insert_batch ?live f)"
      unfolding tryR_eq_Inr by blast
    then have "hx_nodes f = []" by (simp add: fresh_graph_def hnsw_new_nodes)
    then show ?thesis by (simp add: i)
  qed
  have s: "same_store d1 (?d\<lparr>cd_index := ix\<rparr>)"
    using recompute_quantization_same [of Q "cl_config c" "map snd ?live" "?d\<lparr>cd_index := ix\<rparr>"] q by simp
  have "data_inv ?dim (?d\<lparr>cd_index := ix\<rparr>)" using inv n by (intro index_inv) (auto simp: coll_inv_def)
  moreover have "co_metric (cl_config c) = DotProduct \<or> budget_gated ?d" if "ix = None"
    using ix that by (auto simp: tryR_eq_Inr split: if_splits)
  ultimately show ?thesis
    using same_store_inv [OF s] same_store_contents [OF s] s n inv
    by (auto simp: c' coll_inv_def coll_contents_def same_store_def split: option.split)
qed

subsection \<open>Backfilling a declared index\<close>

lemma backfill_step:
  assumes "indexes_hold_by ix F"
    and "\<And>s. s \<in> set ss \<Longrightarrow> slot_payload d (word_of_nat s) = cd_payloads d ! s"
    and "\<And>key w. F key w = None \<or> F key w = payload_lookup (slot_payload d w) key"
  shows "indexes_hold_by (fold (\<lambda>s ix. indexes_insert ix (word_of_nat s) (cd_payloads d ! s)) ss ix)
    (\<lambda>key w. if w \<in> word_of_nat ` set ss then payload_lookup (slot_payload d w) key else F key w)"
  using assms
proof (induction ss arbitrary: ix F)
  case (Cons s ss)
  let ?F = "\<lambda>key. (F key)(word_of_nat s := payload_lookup (cd_payloads d ! s) key)"
  have at: "slot_payload d (word_of_nat s) = cd_payloads d ! s" using Cons.prems(2) [of s] by simp
  have "indexes_hold_by (indexes_insert ix (word_of_nat s) (cd_payloads d ! s)) ?F"
    using Cons.prems(3) [of _ "word_of_nat s"] by (intro indexes_insert_holds_by Cons.prems(1)) (simp add: at)
  from Cons.IH [OF this] Cons.prems(2,3) at
  have "indexes_hold_by (fold (\<lambda>s ix. indexes_insert ix (word_of_nat s) (cd_payloads d ! s)) (s # ss) ix)
    (\<lambda>key w. if w \<in> word_of_nat ` set ss then payload_lookup (slot_payload d w) key else ?F key w)"
    by simp
  moreover have "(\<lambda>key w. if w \<in> word_of_nat ` set ss then payload_lookup (slot_payload d w) key else ?F key w) =
      (\<lambda>key w. if w \<in> word_of_nat ` set (s # ss) then payload_lookup (slot_payload d w) key else F key w)"
    using at by (auto simp: fun_eq_iff)
  ultimately show ?case by simp
qed simp

lemma declare_by:
  assumes "indexes_hold_by ix F" "map_of ix key = None"
  shows "indexes_hold_by (AList.update key (key_index_empty kind) ix) (F(key := (\<lambda>w. None)))"
proof -
  have "set (AList.update key (key_index_empty kind) ix) \<subseteq> insert (key, key_index_empty kind) (set ix)"
    by (induction ix) auto
  moreover have "key \<noteq> fst e" if "e \<in> set ix" for e using assms(2) that by (auto simp: map_of_eq_None_iff)
  ultimately show ?thesis
    using assms(1) key_index_holds_empty [of kind] by (fastforce simp: indexes_hold_by_def distinct_update)
qed

lemma dead_payload:
  assumes "data_inv dim d" "w \<notin> word_of_nat ` set (live_slots d)"
  shows "slot_payload d w = None"
proof (cases "unat w < length (cd_ids d)")
  case True
  have "word_of_nat (unat w) = w" by simp
  then have "\<not> live_slot d (unat w)" using assms(2) True by (force simp: live_slots_set)
  then show ?thesis using assms(1) True by (auto simp: data_inv_def dead_ok_def dead_slots_def lists_ok_def slot_payload_def)
qed (use assms in \<open>simp add: slot_payload_def data_inv_def lists_ok_def\<close>)

lemma backfill_holds:
  assumes inv: "data_inv dim d" and fresh: "map_of (cd_payload_indexes d) key = None"
  shows "indexes_hold (backfill d (AList.update key (key_index_empty kind) (cd_payload_indexes d))) (slot_payload d)"
proof -
  let ?L = "\<lambda>k w. payload_lookup (slot_payload d w) k"
  have l: "lists_ok dim d" and h: "indexes_hold_by (cd_payload_indexes d) ?L"
    using inv by (auto simp: data_inv_def payloads_ok_def indexes_hold_by_eq)
  have "indexes_hold_by (backfill d (AList.update key (key_index_empty kind) (cd_payload_indexes d)))
      (\<lambda>k w. if w \<in> word_of_nat ` set (live_slots d) then ?L k w else (?L(key := (\<lambda>w. None))) k w)"
    unfolding backfill_def
    using l by (intro backfill_step declare_by h fresh) (auto simp: slot_payload_at lists_ok_def live_slots_set)
  moreover have "(\<lambda>k w. if w \<in> word_of_nat ` set (live_slots d) then ?L k w else (?L(key := (\<lambda>w. None))) k w) = ?L"
    using dead_payload [OF inv] by (auto simp: fun_eq_iff)
  ultimately show ?thesis by (simp only: indexes_hold_by_eq)
qed

lemma apply_declare_inv:
  assumes inv: "data_inv dim d"
  shows "data_inv dim (apply_declare_index key kind d) \<and> contents dim (apply_declare_index key kind d) = contents dim d"
proof (cases "map_of (cd_payload_indexes d) key")
  case None
  let ?ix = "backfill d (AList.update key (key_index_empty kind) (cd_payload_indexes d))"
  have e: "apply_declare_index key kind d = d\<lparr>cd_payload_indexes := ?ix, cd_dirty := True\<rparr>"
    using None by (simp add: apply_declare_index_def declare_index_def)
  show ?thesis using inv backfill_holds [OF inv None, of kind] by (simp add: e payload_indexes_inv)
qed (use inv in \<open>simp add: apply_declare_index_def declare_index_def\<close>)

end
