(* ===== verification/Collection_Props.thy ===== *)
theory Collection_Props
  imports Maintenance
begin

section \<open>What a collection promises\<close>

text \<open>
  A handle implements a map from ids to stored points. The lemmas lift the facts of the slot storage to the public
  operations; the properties are about them, about every state such operations reach, and about replaying a log of them.
\<close>

subsection \<open>Preparation\<close>

lemma prepare_dimension:
  assumes "prepare_inner json_len opts ar p = Inr q"
  shows "length (pp_vector q) = co_dimension opts \<and> pp_id q = pt_id p \<and> pp_payload q = pt_payload p \<and> pp_sparse q = pt_sparse p"
  using assms
  by (auto simp: prepare_inner_def tryR_eq_Inr prepare_vector_def Let_def scale_vector_def split: if_split_asm)

text \<open>What the public path accepts the replay path accepts, with the same result.\<close>

lemma prepare_replay: "prepare_inner json_len opts False p = Inr q \<Longrightarrow> prepare_inner json_len opts True p = Inr q"
  by (auto simp: prepare_inner_def tryR_eq_Inr check_payload_def check_sparse_def split: if_split_asm option.split_asm)

lemma prepare_all_replay:
  "mapR (prepare_inner json_len opts ar) ps = Inr qs \<Longrightarrow> mapR (prepare_inner json_len opts True) ps = Inr qs"
  unfolding mapR_Inr_iff by (cases ar) (auto elim!: list_all2_mono dest: prepare_replay)

lemma prepare_all_dimension:
  "mapR (prepare_inner json_len opts ar) ps = Inr qs \<Longrightarrow> list_all (has_dimension (co_dimension opts)) qs \<and> length qs = length ps"
proof -
  assume h: "mapR (prepare_inner json_len opts ar) ps = Inr qs"
  have "has_dimension (co_dimension opts) (qs ! i)" if "i < length qs" for i
    using list_all2_nthD2 [OF mapR_InrD [OF h] that] prepare_dimension by blast
  then show ?thesis using mapR_Inr_length [OF h] by (simp add: list_all_length)
qed

subsection \<open>The operations on a good state\<close>

lemma upsert_inner_cases:
  assumes "upsert_batch_step json_len M L ar points c s = (r, c', s')"
  shows "(c' = c \<and> (\<exists>e. r = Inl e) \<and> (s' = s \<or> (\<exists>b. L (cl_coll_id c) UpsertBatch b s = (r, s')))) \<or>
    (r = Inr () \<and> (\<exists>body ps. encode_wal M points c = Inr body
        \<and> mapR (prepare_inner json_len (cl_config c) ar) points = Inr ps
        \<and> coll_log L UpsertBatch body c s = (Inr (), s')
        \<and> c' = c\<lparr>cl_data := apply_prepared (co_dimension (cl_config c)) ps (cl_data c)\<rparr>))"
proof (cases "tryR (guard c) (\<lambda>_. tryR (encode_wal M points c) (\<lambda>body.
    tryR (mapR (prepare_inner json_len (cl_config c) ar) points) (\<lambda>prepared. Inr (body, prepared))))")
  case (Inl e)
  then show ?thesis using assms by (auto simp: upsert_batch_step_def)
next
  case (Inr bp)
  obtain body ps where bp: "bp = (body, ps)" by (cases bp)
  then have enc: "encode_wal M points c = Inr body" "mapR (prepare_inner json_len (cl_config c) ar) points = Inr ps"
    using Inr by (auto simp: tryR_eq_Inr)
  obtain lr s1 where l: "coll_log L UpsertBatch body c s = (lr, s1)" by (cases "coll_log L UpsertBatch body c s")
  show ?thesis
  proof (cases lr)
    case (Inl e)
    then have "r = Inl e \<and> c' = c \<and> s' = s1"
      using assms \<open>tryR _ _ = Inr bp\<close> l by (simp add: upsert_batch_step_def bp)
    moreover have "s1 = s \<or> (\<exists>b. L (cl_coll_id c) UpsertBatch b s = (Inl e, s1))"
      using l Inl by (auto simp: coll_log_def split: option.splits if_split_asm)
    ultimately show ?thesis by blast
  next
    case (Inr u)
    then have "r = Inr () \<and> s' = s1 \<and> c' = c\<lparr>cl_data := apply_prepared (co_dimension (cl_config c)) ps (cl_data c)\<rparr>"
      using assms \<open>tryR _ _ = Inr bp\<close> l by (simp add: upsert_batch_step_def bp)
    then show ?thesis using enc l Inr by auto
  qed
qed

lemma upsert_inner_inv:
  assumes inv: "coll_inv c" and fits: "length points \<le> room (cl_data c)"
    and u: "upsert_batch_step json_len M L ar points c s = (r, c', s')"
  shows "coll_inv c' \<and> cl_config c' = cl_config c"
proof -
  consider "c' = c" | ps where "mapR (prepare_inner json_len (cl_config c) ar) points = Inr ps"
      "c' = c\<lparr>cl_data := apply_prepared (co_dimension (cl_config c)) ps (cl_data c)\<rparr>"
    using upsert_inner_cases [OF u] by blast
  then show ?thesis
  proof cases
    case 2
    then have "list_all (has_dimension (co_dimension (cl_config c))) ps" "length ps \<le> room (cl_data c)"
      using prepare_all_dimension [OF 2(1)] fits by auto
    with inv show ?thesis by (simp add: 2(2) coll_inv_def apply_prepared_facts)
  qed (use inv in simp)
qed

lemma delete_cases:
  assumes "delete_batch_step M L keys c s = (r, c', s')"
  shows "(c' = c \<and> (\<exists>e. r = Inl e) \<and> (s' = s \<or> (\<exists>b e. L (cl_coll_id c) DeleteBatch b s = (Inl e, s')))) \<or>
    (\<exists>body. guard c = Inr () \<and> encode_wal M keys c = Inr body \<and> coll_log L DeleteBatch body c s = (Inr (), s')
       \<and> r = Inr (fst (tombstone_all keys (cl_data c))) \<and> c' = c\<lparr>cl_data := snd (tombstone_all keys (cl_data c))\<rparr>)"
proof (cases "tryR (guard c) (\<lambda>_. encode_wal M keys c)")
  case (Inl e)
  then show ?thesis using assms by (auto simp: delete_batch_step_def)
next
  case (Inr body)
  obtain lr s1 where l: "coll_log L DeleteBatch body c s = (lr, s1)" by (cases "coll_log L DeleteBatch body c s")
  show ?thesis
  proof (cases lr)
    case (Inl e)
    then have "r = Inl e \<and> c' = c \<and> s' = s1" using assms \<open>tryR _ _ = Inr body\<close> l by (simp add: delete_batch_step_def)
    moreover have "s1 = s \<or> (\<exists>b. L (cl_coll_id c) DeleteBatch b s = (Inl e, s1))"
      using l Inl by (auto simp: coll_log_def split: option.splits if_split_asm)
    ultimately show ?thesis by blast
  next
    case (Inr u)
    then have "r = Inr (fst (tombstone_all keys (cl_data c))) \<and> s' = s1
        \<and> c' = c\<lparr>cl_data := snd (tombstone_all keys (cl_data c))\<rparr>"
      using assms \<open>tryR _ _ = Inr body\<close> l by (auto simp: delete_batch_step_def split: prod.splits)
    moreover have "guard c = Inr ()" "encode_wal M keys c = Inr body"
      using \<open>tryR _ _ = Inr body\<close> by (auto simp: tryR_eq_Inr)
    ultimately show ?thesis using l Inr by auto
  qed
qed

lemma delete_inv:
  "coll_inv c \<Longrightarrow> delete_batch_step M L keys c s = (r, c', s') \<Longrightarrow> coll_inv c' \<and> cl_config c' = cl_config c"
  using delete_cases [of M L keys c s r c' s'] by (auto simp: coll_inv_def tombstone_all_facts)

lemma declare_cases:
  assumes "create_payload_index_step M L key kind c s = (r, c', s')"
  shows "c' = c \<or> (\<exists>body. encode_wal M \<lparr>wp_key = key, wp_kind = pidx_kind_byte kind\<rparr> c = Inr body
      \<and> coll_log L PidxDeclare body c s = (Inr (), s') \<and> c' = c\<lparr>cl_data := apply_declare_index key kind (cl_data c)\<rparr>)"
  using assms by (auto simp: create_payload_index_step_def split: sum.splits prod.splits option.splits if_split_asm)

lemma declare_inv:
  "coll_inv c \<Longrightarrow> create_payload_index_step M L key kind c s = (r, c', s') \<Longrightarrow> coll_inv c' \<and> cl_config c' = cl_config c"
  using declare_cases [of M L key kind c s r c' s'] by (auto simp: coll_inv_def apply_declare_inv)

subsection \<open>Every state a handle reaches\<close>

text \<open>
  The states of a collection and its log under the public writes and the maintenance operations, whatever they return.
  Slot numbers are 64 bits wide; a batch that would exceed them is not a step.
\<close>

inductive coll_reach ::
  "'q quantizers \<Rightarrow> (json \<Rightarrow> nat) \<Rightarrow> wal_codecs \<Rightarrow> 's wal_log \<Rightarrow> 'q collection \<times> 's \<Rightarrow> 'q collection \<times> 's \<Rightarrow> bool"
  for Q json_len W L start where
  reach_start: "coll_reach Q json_len W L start start"
| reach_upsert: "coll_reach Q json_len W L start (c, s) \<Longrightarrow> length points \<le> room (cl_data c)
    \<Longrightarrow> upsert_batch_step json_len (wm_points W) L ar points c s = (r, c', s') \<Longrightarrow> coll_reach Q json_len W L start (c', s')"
| reach_delete: "coll_reach Q json_len W L start (c, s)
    \<Longrightarrow> delete_batch_step (wm_ids W) L keys c s = (n, c', s') \<Longrightarrow> coll_reach Q json_len W L start (c', s')"
| reach_declare: "coll_reach Q json_len W L start (c, s)
    \<Longrightarrow> create_payload_index_step (wm_pidx W) L key kind c s = (r, c', s') \<Longrightarrow> coll_reach Q json_len W L start (c', s')"
| reach_reindex: "coll_reach Q json_len W L start (c, s) \<Longrightarrow> reindex Q c = (r, c') \<Longrightarrow> coll_reach Q json_len W L start (c', s)"
| reach_compact: "coll_reach Q json_len W L start (c, s) \<Longrightarrow> compact Q c = (r, c') \<Longrightarrow> coll_reach Q json_len W L start (c', s)"
| reach_sealed: "coll_reach Q json_len W L start (c, s) \<Longrightarrow> coll_reach Q json_len W L start (mark_sealed refs n m c, s)"

lemma guard_failed: "guard c = Inl e \<Longrightarrow> reindex Q c = (r, c') \<Longrightarrow> c' = c"
  "guard c = Inl e \<Longrightarrow> compact Q c = (r, c') \<Longrightarrow> c' = c"
  by (auto simp: reindex_def compact_def Let_def)

lemma guard_cases: "guard c = Inr () \<or> (\<exists>e. guard c = Inl e)"
  by (simp add: guard_def)

lemma reindex_inv: "coll_inv c \<Longrightarrow> reindex Q c = (r, c') \<Longrightarrow> coll_inv c' \<and> cl_config c' = cl_config c \<and> coll_contents c' = coll_contents c"
  using guard_cases [of c] guard_failed(1) reindex_facts by blast

lemma compact_inv: "coll_inv c \<Longrightarrow> compact Q c = (r, c') \<Longrightarrow> coll_inv c' \<and> cl_config c' = cl_config c \<and> coll_contents c' = coll_contents c"
  using guard_cases [of c] guard_failed(2) compact_facts by blast

lemma mark_sealed_inv [simp]: "coll_inv (mark_sealed refs n m c) = coll_inv c" "cl_config (mark_sealed refs n m c) = cl_config c"
proof -
  have "same_store (cl_data (mark_sealed refs n m c)) (cl_data c)" by (simp add: mark_sealed_def same_store_def)
  from same_store_inv [OF this] show "coll_inv (mark_sealed refs n m c) = coll_inv c"
    by (simp add: coll_inv_def mark_sealed_def)
qed (simp add: mark_sealed_def)

lemma reach_inv:
  "coll_reach Q json_len W L start cs \<Longrightarrow> coll_inv (fst start) \<Longrightarrow> coll_inv (fst cs) \<and> cl_config (fst cs) = cl_config (fst start)"
proof (induction rule: coll_reach.induct)
  case (reach_upsert c s points ar r c' s')
  then show ?case using upsert_inner_inv [of c points json_len "wm_points W" L ar s r c' s'] by simp
next
  case (reach_delete c s keys n c' s')
  then show ?case using delete_inv [of c "wm_ids W" L keys s n c' s'] by simp
next
  case (reach_declare c s key kind r c' s')
  then show ?case using declare_inv [of c "wm_pidx W" L key kind s r c' s'] by simp
next
  case (reach_reindex c s r c')
  then show ?case using reindex_inv by fastforce
next
  case (reach_compact c s r c')
  then show ?case using compact_inv by fastforce
qed simp_all

subsection \<open>Properties\<close>

text \<open>A small collection for the examples: dot product, dimension two, one stored point.\<close>

definition demo_coll :: "unit collection" where
  "demo_coll = \<lparr>cl_name = ''c'', cl_aliases = [], cl_config = options_new 2 DotProduct, cl_coll_id = 1, cl_deleted = False,
     cl_persistent = False, cl_embedder = EmbNone, cl_pending_vocab = None, cl_text_dirty = False,
     cl_data = data_empty None (indexes_new [])\<rparr>"

definition demo_point :: point where
  "demo_point = \<lparr>pt_id = ''a'', pt_vector = [0x3F800000, 0], pt_sparse = None, pt_payload = None\<rparr>"

definition demo_prepared :: prepared_point where
  "demo_prepared = \<lparr>pp_id = ''a'', pp_vector = [0x3F800000, 0], pp_sparse = None, pp_payload = None\<rparr>"

definition demo_full :: "unit collection" where
  "demo_full = demo_coll\<lparr>cl_data := apply_prepared 2 [demo_prepared] (cl_data demo_coll)\<rparr>"

definition no_msgpack :: "'a msgpack" where
  "no_msgpack = \<lparr>mp_enc = (\<lambda>_. None), mp_dec = (\<lambda>_. None)\<rparr>"

lemma delete_volatile:
  "guard c = Inr () \<Longrightarrow> \<not> cl_persistent c \<Longrightarrow> delete_batch_step M L keys c s =
     (Inr (fst (tombstone_all keys (cl_data c))), c\<lparr>cl_data := snd (tombstone_all keys (cl_data c))\<rparr>, s)"
  by (simp add: delete_batch_step_def encode_wal_def coll_log_def split: prod.split)

lemma demo_created: "with_embedder ''c'' (options_new 2 DotProduct) 1 False 0 EmbNone = Inr demo_coll"
  by (simp add: with_embedder_def index_for_def options_new_def demo_coll_def)

lemma demo_inv: "coll_inv demo_coll" "room (cl_data demo_coll) = 2 ^ 64"
  using with_embedder_facts [OF demo_created] by auto

lemma demo_prepare: "mapR (prepare_inner (\<lambda>_. 0) (options_new 2 DotProduct) ar) [demo_point] = Inr [demo_prepared]"
  by (simp add: prepare_inner_def validate_id_def demo_point_def demo_prepared_def options_new_def MAX_ID_BYTES_def
      f32_is_finite_def check_payload_def check_sparse_def prepare_vector_def)

lemma demo_upsert: "upsert_batch_step (\<lambda>_. 0) M L ar [demo_point] demo_coll s = (Inr (), demo_full, s)"
  using demo_prepare [of ar]
  by (simp add: upsert_batch_step_def demo_coll_def guard_def encode_wal_def coll_log_def demo_full_def options_new_def
      del: mapR.simps)

lemma demo_full_inv: "coll_inv demo_full"
  using upsert_inner_inv [OF demo_inv(1) _ demo_upsert] demo_inv(2) by (simp del: of_nat_numeral)

lemma demo_full_guard: "guard demo_full = Inr ()" "cl_deleted demo_full = False"
  by (simp_all add: guard_def demo_full_def demo_coll_def)

text \<open>
  C11. Every state a collection handle reaches from its creation by batch writes, deletions, index declarations, reindexing,
  compaction and sealing, whatever these return, satisfies the invariant of the slot storage: ids and live slots are in
  bijection, the parallel lists and the vectors have the lengths every read relies on, the tombstones are exactly the dead
  slots, the payload indexes hold exactly the stored payloads, and the graph has a node with the stored vector for each
  live slot. In particular live and dead slots add up.
\<close>

theorem reachable_collections_sound:
  assumes "with_embedder name opts coll_id persistent capacity slot = Inr c0"
    and "coll_reach Q json_len W L (c0, s0) (c, s)"
  shows "coll_inv c \<and> card (dom (coll_contents c)) + card (cd_tombstones (cl_data c)) = length (cd_ids (cl_data c))"
proof -
  have i: "coll_inv c" using reach_inv [OF assms(2)] with_embedder_facts [OF assms(1)] by simp
  then have d: "data_inv (co_dimension (cl_config c)) (cl_data c)" by (simp add: coll_inv_def)
  let ?d = "cl_data c"
  have "set (live_slots ?d) \<union> cd_tombstones ?d = {..<length (cd_ids ?d)}" "set (live_slots ?d) \<inter> cd_tombstones ?d = {}"
    using d by (auto simp: data_inv_def dead_ok_def dead_slots_def live_slots_set)
  then have "card (set (live_slots ?d)) + card (cd_tombstones ?d) = length (cd_ids ?d)"
    by (metis card_Un_disjoint card_lessThan finite_Un finite_lessThan)
  then show ?thesis using i live_slots_length [OF d] by (simp add: coll_contents_def distinct_card)
qed

theorem reachable_collections_sound_witness:
  "coll_inv demo_full \<and> card (dom (coll_contents demo_full)) + card (cd_tombstones (cl_data demo_full)) = length (cd_ids (cl_data demo_full))"
proof -
  have "coll_reach undefined (\<lambda>_. 0) W (\<lambda>_ _ _ s. (Inr (), s)) (demo_coll, ()) (demo_full, ())" for W
    by (rule reach_upsert [OF reach_start _ demo_upsert]) (simp add: demo_inv)
  then show ?thesis by (rule reachable_collections_sound [OF demo_created])
qed

lemma upsert_refines:
  assumes "coll_inv c" and "length points \<le> room (cl_data c)"
    and "user_upsert_step json_len M L points c s = (Inr (), c', s')"
  shows "\<exists>ps. mapR (prepare_inner json_len (cl_config c) False) points = Inr ps
    \<and> coll_contents c' = coll_contents c ++ map_of (rev (map (\<lambda>p. (pp_id p, prepared_contents p)) ps))
    \<and> coll_inv c'"
proof -
  have u: "upsert_batch_step json_len M L False points c s = (Inr (), c', s')"
    using assms(3) by (simp add: user_upsert_step_def)
  obtain ps where ps: "mapR (prepare_inner json_len (cl_config c) False) points = Inr ps"
    and c': "c' = c\<lparr>cl_data := apply_prepared (co_dimension (cl_config c)) ps (cl_data c)\<rparr>"
    using upsert_inner_cases [OF u] by auto
  have "list_all (has_dimension (co_dimension (cl_config c))) ps \<and> length ps \<le> room (cl_data c)"
    using prepare_all_dimension [OF ps] assms(2) by simp
  moreover have "data_inv (co_dimension (cl_config c)) (cl_data c)" using assms(1) by (simp add: coll_inv_def)
  ultimately have "coll_contents c' = coll_contents c ++ map_of (rev (map (\<lambda>p. (pp_id p, prepared_contents p)) ps))"
    using apply_prepared_facts(2) [of "co_dimension (cl_config c)" "cl_data c" ps] by (simp add: coll_contents_def c')
  then show ?thesis using ps upsert_inner_inv [OF assms(1,2) u] by blast
qed

text \<open>
  C14. An acknowledged deletion removes exactly the named ids from the map, counts each id that was there once however
  often it is named, and keeps the invariant.
\<close>

theorem delete_batch_refines:
  assumes "coll_inv c" and "delete_batch_step M L keys c s = (Inr n, c', s')"
  shows "coll_contents c' = coll_contents c |` (- set keys) \<and> n = card (set keys \<inter> dom (coll_contents c)) \<and> coll_inv c'"
  using delete_cases [OF assms(2)] delete_inv [OF assms] assms(1)
  by (auto simp: coll_contents_def coll_inv_def tombstone_all_facts)

theorem delete_batch_refines_witness:
  "\<exists>c' :: unit collection. coll_contents c' = coll_contents demo_full |` (- set [''a'', ''a'', ''b'']) \<and>
     (1::nat) = card (set [''a'', ''a'', ''b''] \<inter> dom (coll_contents demo_full)) \<and> coll_inv c'"
proof -
  have "fst (tombstone_all [''a'', ''a'', ''b''] (cl_data demo_full)) = 1"
    by (simp add: tombstone_all_def demo_full_def demo_coll_def apply_prepared_def apply_upsert_def append_point_def Let_def
        data_empty_def demo_prepared_def tombstone_def retire_slot_def split: prod.splits)
  moreover have "\<not> cl_persistent demo_full" by (simp add: demo_full_def demo_coll_def)
  ultimately have "delete_batch_step no_msgpack (\<lambda>_ _ _ s. (Inr (), s)) [''a'', ''a'', ''b''] demo_full ()
      = (Inr 1, demo_full\<lparr>cl_data := snd (tombstone_all [''a'', ''a'', ''b''] (cl_data demo_full))\<rparr>, ())"
    by (simp add: delete_volatile demo_full_guard)
  note d = delete_batch_refines [OF demo_full_inv this]
  show ?thesis by (intro exI) (rule d)
qed

text \<open>
  The read operations agree with the map: \<open>get\<close> returns what it holds, \<open>len\<close> counts it, and the live points that a
  checkpoint seals list each id once.
\<close>

theorem reads_agree:
  assumes "coll_inv c" and "\<not> cl_deleted c"
  shows "coll_get key c = Inr (map_option (\<lambda>(v, sp, pl). \<lparr>pt_id = key, pt_vector = v, pt_sparse = sp, pt_payload = pl\<rparr>)
            (coll_contents c key))
    \<and> coll_len c = card (dom (coll_contents c))
    \<and> distinct (map pt_id (live_points c)) \<and> set (map pt_id (live_points c)) = dom (coll_contents c)"
proof -
  let ?dim = "co_dimension (cl_config c)"
  let ?d = "cl_data c"
  have d: "data_inv ?dim ?d" and ids: "ids_ok ?d" using assms(1) by (auto simp: coll_inv_def data_inv_def)
  have ids_of: "map pt_id (live_points c) = map fst (listing ?dim ?d)"
    by (simp add: live_points_def listing_def point_at_def)
  have "coll_get key c = Inr (map_option (\<lambda>(v, sp, pl). \<lparr>pt_id = key, pt_vector = v, pt_sparse = sp, pt_payload = pl\<rparr>)
            (coll_contents c key))"
    using assms(2) ids_okD [OF ids, of key]
    by (cases "map_of (cd_id_to_slot ?d) key")
      (auto simp: coll_get_def guard_def coll_contents_def contents_def slot_contents_def point_at_def)
  moreover have "coll_len c = card (dom (coll_contents c))"
    using assms(2) card_contents [OF ids] by (simp add: coll_len_def coll_contents_def)
  ultimately show ?thesis
    unfolding ids_of using listing_distinct [OF ids] live.listing_set [OF d] by (simp add: coll_contents_def)
qed

theorem reads_agree_witness:
  "coll_get ''a'' demo_full = Inr (map_option (\<lambda>(v, sp, pl). \<lparr>pt_id = ''a'', pt_vector = v, pt_sparse = sp, pt_payload = pl\<rparr>)
            (coll_contents demo_full ''a''))
    \<and> coll_len demo_full = card (dom (coll_contents demo_full))
    \<and> distinct (map pt_id (live_points demo_full)) \<and> set (map pt_id (live_points demo_full)) = dom (coll_contents demo_full)"
  by (rule reads_agree) (simp_all add: demo_full_inv demo_full_guard)

definition no_quantizers :: "unit quantizers" where
  "no_quantizers = \<lparr>qz_scalar = \<lambda>_ _. Inr ([], ()), qz_binary = \<lambda>_. Inr ([], ())\<rparr>"

text \<open>
  C15. Compaction, reindexing and declaring an index change no point: the map is the same afterwards, and a compacted
  collection has no dead slot left.
\<close>

theorem maintenance_keeps_contents:
  assumes "coll_inv c" and "\<not> cl_deleted c"
  shows "coll_contents (snd (compact Q c)) = coll_contents c \<and> cd_tombstones (cl_data (snd (compact Q c))) = {}
    \<and> coll_contents (snd (reindex Q c)) = coll_contents c
    \<and> coll_contents (replay_declare_index key kind c) = coll_contents c"
proof -
  have g: "guard c = Inr ()" using assms(2) by (simp add: guard_def)
  have "coll_contents (replay_declare_index key kind c) = coll_contents c"
    using assms(1) by (simp add: replay_declare_index_def coll_contents_def coll_inv_def apply_declare_inv)
  then show ?thesis
    using compact_facts [OF assms(1) _ g, of Q "fst (compact Q c)" "snd (compact Q c)"]
      reindex_facts [OF assms(1) _ g, of Q "fst (reindex Q c)" "snd (reindex Q c)"] by simp
qed

theorem maintenance_keeps_contents_witness:
  "coll_contents (snd (compact no_quantizers demo_full)) = coll_contents demo_full
    \<and> cd_tombstones (cl_data (snd (compact no_quantizers demo_full))) = {}
    \<and> coll_contents (snd (reindex no_quantizers demo_full)) = coll_contents demo_full
    \<and> coll_contents (replay_declare_index ''k'' Keyword demo_full) = coll_contents demo_full"
  by (rule maintenance_keeps_contents) (simp_all add: demo_full_inv demo_full_guard)

end
