(* ===== verification/Scrolling.thy ===== *)
theory Scrolling
  imports Collection_Props
begin

section \<open>Pagination (\<open>Collection::scroll\<close>)\<close>

text \<open>
  A page is the next run of matching live slots; the cursor is the id of its last point. \<open>scroll_all\<close> is the client's
  loop over the pages. On an unchanged collection it covers every matching point once; when the cursor's point is written
  again between two pages the rest is skipped.
\<close>

definition matching :: "filter option \<Rightarrow> 'q collection \<Rightarrow> nat \<Rightarrow> bool" where
  "matching f c s \<longleftrightarrow> live_slot (cl_data c) s \<and> wanted f (cl_data c) s"

definition matching_from :: "filter option \<Rightarrow> 'q collection \<Rightarrow> nat \<Rightarrow> nat list" where
  "matching_from f c start = List.filter (matching f c) [start..<length (cd_ids (cl_data c))]"

fun scroll_all :: "nat \<Rightarrow> nat \<Rightarrow> filter option \<Rightarrow> 'q collection \<Rightarrow> string option \<Rightarrow> point list option" where
  "scroll_all 0 limit f c after = None"
| "scroll_all (Suc n) limit f c after =
     (case scroll after limit f c of
        Inl _ \<Rightarrow> None
      | Inr page \<Rightarrow>
          (case sp_next_cursor page of
             None \<Rightarrow> Some (sp_points page)
           | Some key \<Rightarrow> map_option (\<lambda>rest. sp_points page @ rest) (scroll_all n limit f c (Some key))))"

lemma scroll_from_page:
  "length points \<le> limit \<Longrightarrow>
     scroll_from limit f c slots points =
       (let found = List.filter (matching f c) slots; page = points @ map (point_at c) (take (limit - length points) found)
        in \<lparr>sp_points = page,
            sp_next_cursor = (if length found \<le> limit - length points \<or> page = [] then None else Some (pt_id (last page)))\<rparr>)"
proof (induction slots arbitrary: points)
  case (Cons s slots)
  consider "\<not> matching f c s" | "matching f c s" "length points = limit" | "matching f c s" "length points < limit"
    using Cons.prems by linarith
  then show ?case
  proof cases
    case 3
    then have "Suc (limit - Suc (length points)) = limit - length points" by simp
    then show ?thesis using Cons.IH [of "points @ [point_at c s]"] 3 by (simp add: matching_def Let_def take_Suc_Cons [symmetric] del: take_Suc_Cons) (cases "limit - length points", simp_all)
  qed (use Cons in \<open>auto simp: matching_def Let_def\<close>)
qed simp

lemma filter_upt_after:
  assumes "List.filter P [k..<n] = xs @ s # ys"
  shows "List.filter P [Suc s..<n] = ys"
proof -
  have "s \<in> set (List.filter P [k..<n])" using assms by simp
  then have s: "k \<le> s" "s < n" "P s" by auto
  have "[k..<n] = [k..<s] @ s # [Suc s..<n]"
    using s by (metis append_Cons le_add_diff_inverse less_imp_le_nat upt_add_eq_append upt_conv_Cons)
  then have "xs @ s # ys = List.filter P [k..<s] @ s # List.filter P [Suc s..<n]" using assms s by simp
  moreover have "s \<notin> set xs" using arg_cong [OF assms, of distinct] by simp
  moreover have "dropWhile (\<lambda>x. x \<noteq> s) (zs @ s # us) = s # us" if "s \<notin> set zs" for zs us
    using that by (subst dropWhile_append2) auto
  moreover have "s \<notin> set (List.filter P [k..<s])" by simp
  ultimately have "s # ys = s # List.filter P [Suc s..<n]" by metis
  then show ?thesis by simp
qed

lemma scroll_all_from:
  assumes inv: "coll_inv c" and g: "\<not> cl_deleted c" and limit: "0 < limit" and f: "validate_option f = Inr ()"
    and start: "scroll_start (cl_data c) after = k" and fuel: "length (matching_from f c k) < n"
  shows "scroll_all n limit f c after = Some (map (point_at c) (matching_from f c k))"
  using start fuel
proof (induction n arbitrary: after k)
  case (Suc n)
  let ?found = "matching_from f c k"
  let ?page = "map (point_at c) (take limit ?found)"
  have p: "scroll after limit f c =
      Inr \<lparr>sp_points = ?page, sp_next_cursor = (if length ?found \<le> limit \<or> ?page = [] then None else Some (pt_id (last ?page)))\<rparr>"
    using g limit f Suc.prems(1) by (simp add: scroll_def guard_def scroll_from_page matching_from_def Let_def)
  show ?case
  proof (cases "length ?found \<le> limit")
    case False
    define xs where "xs = take (limit - 1) ?found"
    define s where "s = ?found ! (limit - 1)"
    have split: "take limit ?found = xs @ [s]" "?found = xs @ s # drop limit ?found"
      using False limit take_Suc_conv_app_nth [of "limit - 1" ?found] id_take_nth_drop [of "limit - 1" ?found]
      by (simp_all add: xs_def s_def)
    have "s \<in> set ?found" using split(2) by (metis in_set_conv_decomp)
    then have s: "s < length (cd_ids (cl_data c))" "live_slot (cl_data c) s" by (auto simp: matching_from_def matching_def)
    have last: "pt_id (last ?page) = cd_ids (cl_data c) ! s" "?page \<noteq> []" by (simp_all add: split(1) point_at_def)
    have rest: "matching_from f c (Suc s) = drop limit ?found"
      using filter_upt_after [of "matching f c" k "length (cd_ids (cl_data c))" xs s "drop limit ?found"] split(2)
      by (simp add: matching_from_def)
    have "scroll_start (cl_data c) (Some (cd_ids (cl_data c) ! s)) = Suc s"
      using s(2) by (simp add: scroll_start_def live_slot_def)
    from Suc.IH [OF this] have "scroll_all n limit f c (Some (cd_ids (cl_data c) ! s)) = Some (map (point_at c) (drop limit ?found))"
      using Suc.prems(2) False limit by (simp add: rest)
    then show ?thesis
      using p last False by (simp add: map_append [symmetric] del: map_append)
  qed (simp add: p)
qed simp

text \<open>
  C20. Scrolling ends and is complete (API-022): on a collection that is not written to, the client's loop returns after at
  most one page per live point and one more, and the pages together are the matching live points in slot order, each once.
\<close>

theorem scroll_covers_once:
  assumes "coll_inv c" and "\<not> cl_deleted c" and "0 < limit" and "validate_option f = Inr ()"
  shows "scroll_all (Suc (coll_len c)) limit f c None
      = Some (map (point_at c) (List.filter (wanted f (cl_data c)) (live_slots (cl_data c))))"
proof -
  let ?d = "cl_data c"
  have d: "data_inv (co_dimension (cl_config c)) ?d" "ids_ok ?d" using assms(1) by (auto simp: coll_inv_def data_inv_def)
  have m: "matching_from f c 0 = List.filter (wanted f ?d) (live_slots ?d)"
    by (simp add: matching_from_def live_slots_def matching_def [abs_def] conj_commute)
  have "coll_len c = length (live_slots ?d)"
    using assms(2) live_slots_length [OF d(1)] card_contents [OF d(2)] by (simp add: coll_len_def)
  then have "length (matching_from f c 0) < Suc (coll_len c)" unfolding m by (simp add: le_imp_less_Suc)
  then show ?thesis
    using scroll_all_from [OF assms(1-4), of None 0] by (simp add: scroll_start_def m del: scroll_all.simps)
qed

theorem scroll_covers_once_witness:
  "scroll_all (Suc (coll_len demo_full)) 1 None demo_full None
      = Some (map (point_at demo_full) (List.filter (wanted None (cl_data demo_full)) (live_slots (cl_data demo_full))))"
  by (rule scroll_covers_once) (simp_all add: demo_full_inv demo_full_guard validate_option_def)

lemma apply_upsert_slot:
  "map_of (cd_id_to_slot (apply_upsert dim p d)) (pp_id p) = Some (length (cd_ids d))"
  by (simp add: apply_upsert_def split: option.split)

text \<open>
  A write between two pages loses points: when the cursor's own id is written again after its page was returned, the
  next page is empty and final, whatever matching points the scan had not reached.
\<close>

theorem scroll_cursor_rewritten:
  assumes "coll_inv c" and "0 < limit" and "validate_option f = Inr ()" and "length points \<le> room (cl_data c)"
    and "user_upsert_step json_len M L points c s = (Inr (), c', s')" and "points \<noteq> []" and "cursor = pt_id (last points)"
  shows "scroll (Some cursor) limit f c' = Inr \<lparr>sp_points = [], sp_next_cursor = None\<rparr>"
proof -
  have u: "upsert_batch_step json_len M L False points c s = (Inr (), c', s')"
    using assms(5) by (simp add: user_upsert_step_def)
  let ?dim = "co_dimension (cl_config c)"
  obtain ps where ps: "mapR (prepare_inner json_len (cl_config c) False) points = Inr ps"
    and c': "c' = c\<lparr>cl_data := apply_prepared ?dim ps (cl_data c)\<rparr>"
    using upsert_inner_cases [OF u] by auto
  have g: "guard c = Inr ()"
    using u by (auto simp: upsert_batch_step_def guard_def split: if_split_asm)
  have ne: "ps \<noteq> []" using mapR_Inr_length [OF ps] assms(6) by auto
  have "length ps = length points" using mapR_Inr_length [OF ps] .
  then have "prepare_inner json_len (cl_config c) False (last points) = Inr (last ps)"
    using list_all2_nthD2 [OF mapR_InrD [OF ps], of "length ps - 1"] ne assms(6) by (simp add: last_conv_nth)
  then have key: "pp_id (last ps) = cursor" using prepare_dimension assms(7) by metis
  have split: "apply_prepared ?dim ps (cl_data c) = apply_upsert ?dim (last ps) (apply_prepared ?dim (butlast ps) (cl_data c))"
    using ne by (cases ps rule: rev_cases) (simp_all add: apply_prepared_def)
  have "scroll_start (cl_data c') (Some cursor) = length (cd_ids (cl_data c'))"
    by (simp add: c' split scroll_start_def key [symmetric] apply_upsert_slot apply_upsert_length)
  then show ?thesis
    using assms(2,3) g by (simp add: scroll_def c' guard_def split: if_split_asm)
qed

theorem scroll_cursor_rewritten_witness:
  "scroll (Some ''a'') 1 None demo_full = Inr \<lparr>sp_points = [], sp_next_cursor = None\<rparr>"
  by (rule scroll_cursor_rewritten [OF demo_inv(1) _ _ _ demo_upsert [of no_msgpack "\<lambda>_ _ _ s. (Inr (), s)" False "()",
        folded user_upsert_step_def]])
    (simp_all add: demo_inv validate_option_def demo_point_def)

end
