(* ===== verification/Simd.thy ===== *)
theory Simd
  imports Floats
begin

section \<open>The vector kernels (\<open>simd/\<close>)\<close>

text \<open>
  The only backend of this repository is the scalar one. A float sum starts from the negative zero, as \<open>Iterator::sum\<close>
  does. \<open>simd_backend\<close> is the contract of the trait: the cosine kernel is the clamped dot product.
\<close>

definition f32_neg_zero :: f32 where "f32_neg_zero = 0x80000000"
definition f32_one :: f32 where "f32_one = 0x3F800000"
definition f32_minus_one :: f32 where "f32_minus_one = 0xBF800000"

definition f32_sqrt :: "f32 \<Rightarrow> f32" where "f32_sqrt a = word_of_int (f_sqrt 23 8 (f32_val a))"

definition f32_abs :: "f32 \<Rightarrow> f32" where "f32_abs x = word_of_int (uint x mod 2 ^ 31)"

definition f32_clamp :: "f32 \<Rightarrow> f32 \<Rightarrow> f32 \<Rightarrow> f32" where
  "f32_clamp lo hi x = (let y = (if f32_lt x lo then lo else x) in if f32_lt hi y then hi else y)"

definition f32_sum :: "f32 list \<Rightarrow> f32" where
  "f32_sum xs = foldl f32_add f32_neg_zero xs"

subsection \<open>\<open>ScalarBackend\<close>\<close>

definition dot_product :: "f32 list \<Rightarrow> f32 list \<Rightarrow> f32" where
  "dot_product a b = f32_sum (map2 f32_mul a b)"

definition euclidean_distance_squared :: "f32 list \<Rightarrow> f32 list \<Rightarrow> f32" where
  "euclidean_distance_squared a b = f32_sum (map2 (\<lambda>x y. let d = f32_sub x y in f32_mul d d) a b)"

definition cosine_similarity :: "f32 list \<Rightarrow> f32 list \<Rightarrow> f32" where
  "cosine_similarity a b = f32_clamp f32_minus_one f32_one (dot_product a b)"

definition l2_norm :: "f32 list \<Rightarrow> f32" where
  "l2_norm a = f32_sqrt (f32_sum (map (\<lambda>x. f32_mul x x) a))"

definition euclidean_distance :: "f32 list \<Rightarrow> f32 list \<Rightarrow> f32" where
  "euclidean_distance a b = f32_sqrt (euclidean_distance_squared a b)"

subsection \<open>The default methods of the trait\<close>

definition int8_dot_product :: "8 word list \<Rightarrow> 8 word list \<Rightarrow> 32 word" where
  "int8_dot_product a b = sum_list (map2 (\<lambda>x y. word_of_int (sint x) * word_of_int (sint y)) a b)"

definition manhattan_distance :: "f32 list \<Rightarrow> f32 list \<Rightarrow> f32" where
  "manhattan_distance a b = f32_sum (map2 (\<lambda>x y. f32_abs (f32_sub x y)) a b)"

definition normalize_in_place :: "f32 list \<Rightarrow> f32 list" where
  "normalize_in_place a =
     (let norm = l2_norm a
      in if f32_eq norm 0 \<or> \<not> f32_is_finite norm then a
         else let inv = f32_div f32_one norm in map (\<lambda>x. f32_mul x inv) a)"

definition add_assign :: "f32 list \<Rightarrow> f32 list \<Rightarrow> f32 list" where
  "add_assign a b = map2 f32_add a b @ drop (length b) a"

definition sub_assign :: "f32 list \<Rightarrow> f32 list \<Rightarrow> f32 list" where
  "sub_assign a b = map2 f32_sub a b @ drop (length b) a"

definition scale_assign :: "f32 list \<Rightarrow> f32 \<Rightarrow> f32 list" where
  "scale_assign a s = map (\<lambda>x. f32_mul x s) a"

fun min_index_from :: "nat \<Rightarrow> nat \<times> f32 \<Rightarrow> f32 list \<Rightarrow> nat \<times> f32" where
  "min_index_from i best [] = best"
| "min_index_from i best (v # vs) = min_index_from (i + 1) (if f32_lt v (snd best) then (i, v) else best) vs"

definition horizontal_min_index :: "f32 list \<Rightarrow> (nat \<times> f32) option" where
  "horizontal_min_index a = (case a of [] \<Rightarrow> None | v # vs \<Rightarrow> Some (min_index_from 1 (0, v) vs))"

text \<open>\<open>round() as u8\<close>: half away from zero, then saturating, NaN to zero.\<close>

fun round_half_away :: "int \<Rightarrow> int \<Rightarrow> int" where
  "round_half_away m e = (if 0 \<le> e then m * pow2 e else (m + pow2 (- e - 1)) div pow2 (- e))"

definition f32_round_to_u8 :: "f32 \<Rightarrow> 8 word" where
  "f32_round_to_u8 x =
     (case f32_val x of
        NaN \<Rightarrow> 0
      | Inf s \<Rightarrow> (if s then 0 else 255)
      | Fin s m e \<Rightarrow> (if s then 0 else word_of_int (min 255 (round_half_away m e))))"

definition quantize_f32_to_u8 :: "f32 list \<Rightarrow> f32 \<Rightarrow> f32 \<Rightarrow> nat \<Rightarrow> 8 word list" where
  "quantize_f32_to_u8 src scale offset levels =
     (if f32_eq scale 0 then map (\<lambda>_. 0) src
      else let inv_scale = f32_div f32_one scale; max_level = f32_of_int (int (levels - 1))
        in map (\<lambda>s. f32_round_to_u8 (f32_clamp 0 max_level (f32_mul (f32_sub s offset) inv_scale))) src)"

definition dequantize_u8_to_f32 :: "8 word list \<Rightarrow> f32 \<Rightarrow> f32 \<Rightarrow> f32 list" where
  "dequantize_u8_to_f32 src scale offset = map (\<lambda>s. f32_add offset (f32_mul (f32_of_int (uint s)) scale)) src"

subsection \<open>The contract\<close>

locale simd_backend =
  fixes dot :: "f32 list \<Rightarrow> f32 list \<Rightarrow> f32" and cosine :: "f32 list \<Rightarrow> f32 list \<Rightarrow> f32"
  assumes dot_commute: "length a = length b \<Longrightarrow> dot a b = dot b a"
    and cosine_clamps: "cosine a b = f32_clamp f32_minus_one f32_one (dot a b)"
begin

lemma cosine_commute: "length a = length b \<Longrightarrow> cosine a b = cosine b a"
  by (simp add: cosine_clamps dot_commute)

text \<open>A cosine score is a number between -1 and 1 or a NaN.\<close>

lemma cosine_bounded:
  "f32_is_nan (cosine a b) \<or> (f32_le f32_minus_one (cosine a b) \<and> f32_le (cosine a b) f32_one)"
proof -
  have c: "\<not> f32_is_nan f32_minus_one" "\<not> f32_is_nan f32_one" "f32_num_key f32_minus_one < f32_num_key f32_one"
    by (simp_all add: f32_minus_one_def f32_one_def f32_is_nan_def f32_num_key_def key_of_def)
  then show ?thesis
    unfolding cosine_clamps f32_clamp_def Let_def by (auto simp: f32_lt_def f32_le_def)
qed

end

lemma map2_commute: "(\<And>x y. f x y = f y x) \<Longrightarrow> map2 f a b = map2 f b a"
  by (induction a b rule: list_induct2') auto

interpretation scalar: simd_backend dot_product cosine_similarity
  by unfold_locales (simp_all add: dot_product_def cosine_similarity_def map2_commute [OF f32_mul_commute])

end
