(* ===== verification/Search.thy ===== *)
theory Search
  imports Maintenance Simd "HOL-Library.Product_Lexorder"
begin

section \<open>Nearest-neighbour search (\<open>collection.rs\<close>, \<open>query.rs\<close>)\<close>

text \<open>
  A search gathers scored slots, orders them and projects them to hits. The graph package's search is the argument
  \<open>ann\<close>. \<open>limit + tombstones\<close> wraps at the width of \<open>usize\<close>, as an optimized build's addition does.
\<close>

type_synonym scored = "nat \<times> f32"

definition SMALL_EXACT_MAX :: nat where "SMALL_EXACT_MAX = 256"
definition POSTFILTER_MIN_LIVE :: nat where "POSTFILTER_MIN_LIVE = 512"
definition EF_SEARCH_MAX :: nat where "EF_SEARCH_MAX = 4096"

definition usize_add :: "nat \<Rightarrow> nat \<Rightarrow> nat" where
  "usize_add a b = (a + b) mod 2 ^ 64"

fun metric_is_similarity :: "metric \<Rightarrow> bool" where
  "metric_is_similarity Cosine \<longleftrightarrow> True"
| "metric_is_similarity DotProduct \<longleftrightarrow> True"
| "metric_is_similarity Euclidean \<longleftrightarrow> False"

definition distance_to_score :: "metric \<Rightarrow> f32 \<Rightarrow> f32" where
  "distance_to_score metric distance = (if metric = Cosine then f32_sub f32_one distance else distance)"

definition score_slot :: "'q collection_data \<Rightarrow> f32 list \<Rightarrow> metric \<Rightarrow> nat \<Rightarrow> nat \<Rightarrow> f32" where
  "score_slot d query metric dim slot =
     (let v = vector_at d slot dim
      in case metric of
           Cosine \<Rightarrow> cosine_similarity query v
         | Euclidean \<Rightarrow> euclidean_distance query v
         | DotProduct \<Rightarrow> dot_product query v)"

definition brute_force :: "'q collection_data \<Rightarrow> f32 list \<Rightarrow> metric \<Rightarrow> nat \<Rightarrow> scored list" where
  "brute_force d query metric dim =
     map (\<lambda>s. (s, score_slot d query metric dim s)) (List.filter (live_slot d) [0..<length (cd_ids d)])"

definition filtered_scan :: "'q collection_data \<Rightarrow> f32 list \<Rightarrow> metric \<Rightarrow> nat \<Rightarrow> filter \<Rightarrow> scored list" where
  "filtered_scan d query metric dim f =
     map (\<lambda>s. (s, score_slot d query metric dim s))
       (List.filter (\<lambda>s. live_slot d s \<and> filter_matches f (cd_payloads d ! s)) [0..<length (cd_ids d)])"

definition score_candidates :: "'q collection_data \<Rightarrow> f32 list \<Rightarrow> metric \<Rightarrow> nat \<Rightarrow> filter \<Rightarrow> slots \<Rightarrow> scored list" where
  "score_candidates d query metric dim f S =
     map (\<lambda>s. (s, score_slot d query metric dim s))
       (List.filter (\<lambda>s. s < length (cd_ids d) \<and> live_slot d s \<and> filter_matches f (cd_payloads d ! s))
         (map unat (sorted_list_of_set S)))"

text \<open>The loops over a graph's answer: keep what passes the test, stop at \<open>limit\<close>.\<close>

definition gather :: "(nat \<Rightarrow> bool) \<Rightarrow> metric \<Rightarrow> nat \<Rightarrow> scored list \<Rightarrow> scored list" where
  "gather ok metric limit found =
     take limit (map (\<lambda>(s, distance). (s, distance_to_score metric distance)) (List.filter (ok \<circ> fst) found))"

text \<open>
  Over-fetching with growth: \<open>None\<close> is a \<open>break\<close>, after which the exact scan answers. The start value is positive unless
  the collection has no slot, so the test for zero is never the one that ends the loop.
\<close>

function post_filter :: "ann \<Rightarrow> hnsw_index \<Rightarrow> f32 list \<Rightarrow> metric \<Rightarrow> (nat \<Rightarrow> bool) \<Rightarrow> nat \<Rightarrow> nat \<Rightarrow> nat \<Rightarrow> nat \<Rightarrow> scored list option" where
  "post_filter ann ix query metric ok limit ef_search tot fetch =
     (case hnsw_search ann ix query fetch (max ef_search (min fetch EF_SEARCH_MAX)) of
        Inl _ \<Rightarrow> None
      | Inr found \<Rightarrow>
          let out = gather ok metric limit found
          in if limit \<le> length out then Some out
             else if tot \<le> fetch \<or> fetch = 0 then None
             else post_filter ann ix query metric ok limit ef_search tot (min (fetch * 4) tot))"
  by pat_completeness auto
termination
  by (relation "measure (\<lambda>(ann, ix, query, metric, ok, limit, ef_search, tot, fetch). tot - fetch)") auto

declare post_filter.simps [simp del]

definition filtered_planner ::
  "ann \<Rightarrow> 'q collection_data \<Rightarrow> f32 list \<Rightarrow> metric \<Rightarrow> nat \<Rightarrow> filter \<Rightarrow> nat \<Rightarrow> nat \<Rightarrow> scored list" where
  "filtered_planner ann d query metric dim f limit ef_search =
     (let live = length (cd_id_to_slot d); tot = length (cd_ids d);
          scan = filtered_scan d query metric dim f;
          graph = (case cd_index d of
                     Some ix \<Rightarrow>
                       if POSTFILTER_MIN_LIVE \<le> live
                       then (case post_filter ann ix query metric (\<lambda>s. live_slot d s \<and> filter_matches f (cd_payloads d ! s))
                                    limit ef_search tot (min (max (limit * 4) 64) tot) of
                               Some out \<Rightarrow> out
                             | None \<Rightarrow> scan)
                       else scan
                   | None \<Rightarrow> scan)
      in case candidates (cd_payload_indexes d) f of
           Some S \<Rightarrow>
             if card S * 4 \<le> live \<or> live < POSTFILTER_MIN_LIVE \<or> cd_index d = None
             then score_candidates d query metric dim f S else graph
         | None \<Rightarrow> graph)"

text \<open>The unfiltered search: exact on small sets and without a graph, else over the graph with an exact fallback.\<close>

definition unfiltered ::
  "ann \<Rightarrow> 'q collection_data \<Rightarrow> f32 list \<Rightarrow> metric \<Rightarrow> nat \<Rightarrow> nat \<Rightarrow> nat \<Rightarrow> scored list res" where
  "unfiltered ann d query metric dim limit ef_search =
     (let live = length (cd_id_to_slot d); fetch = usize_add limit (card (cd_tombstones d));
          exact = brute_force d query metric dim
      in case cd_index d of
           None \<Rightarrow> Inr exact
         | Some ix \<Rightarrow>
             if live \<le> max SMALL_EXACT_MAX fetch then Inr exact
             else tryR (hnsw_search ann ix query fetch ef_search) (\<lambda>found.
               let out = gather (live_slot d) metric limit found
               in Inr (if length out < min limit live then exact else out)))"

definition order_scored :: "metric \<Rightarrow> nat \<Rightarrow> scored list \<Rightarrow> scored list" where
  "order_scored metric limit xs =
     take limit (if metric_is_similarity metric then sort_key (\<lambda>h. - f32_total_key (snd h)) xs
                 else sort_key (\<lambda>h. f32_total_key (snd h)) xs)"

definition project_slots :: "'q collection_data \<Rightarrow> scored list \<Rightarrow> nat \<Rightarrow> bool \<Rightarrow> bool \<Rightarrow> hit list" where
  "project_slots d ranked dim wp wv =
     map (\<lambda>(s, score). \<lparr>hit_id = cd_ids d ! s, hit_score = score,
            hit_payload = (if wp then cd_payloads d ! s else None),
            hit_vector = (if wv then Some (copy_vector d s dim) else None)\<rparr>) ranked"

definition active_filter :: "filter option \<Rightarrow> filter option" where
  "active_filter f = (case f of None \<Rightarrow> None | Some g \<Rightarrow> if must g = [] \<and> should g = [] \<and> must_not g = [] then None else Some g)"

subsection \<open>The query, after a stale vocabulary was refitted\<close>

definition check_query :: "collection_options \<Rightarrow> f32 list \<Rightarrow> nat \<Rightarrow> nat option \<Rightarrow> filter option \<Rightarrow> (nat \<times> f32 list) res" where
  "check_query opts query limit ef f =
     tryR (validate_option f) (\<lambda>_.
     if limit = 0 then Inl limit_error
     else if length query \<noteq> co_dimension opts then Inl (DimensionMismatch (co_dimension opts) (length query))
     else if \<exists>x\<in>set query. \<not> f32_is_finite x then Inl (InvalidArgument ''query vector contains NaN or infinite values'')
     else
       let ef_search = (case ef of None \<Rightarrow> ho_ef_search (co_hnsw opts) | Some e \<Rightarrow> e)
       in if ef_search < 1 \<or> EF_SEARCH_MAX < ef_search then Inl (bounds_error ''ef_search'' 1 EF_SEARCH_MAX ef_search)
          else if co_metric opts = Cosine
          then let norm = vector_norm query
            in if f64_eq norm 0 then Inl (InvalidArgument ''zero query vector is not allowed with the cosine metric'')
               else Inr (ef_search, scale_vector norm query)
          else Inr (ef_search, query))"

definition ranked_slots :: "ann \<Rightarrow> collection_options \<Rightarrow> 'q collection_data \<Rightarrow> f32 list \<Rightarrow> nat \<Rightarrow> nat \<Rightarrow> filter option \<Rightarrow> scored list res" where
  "ranked_slots ann opts d q limit ef_search f =
     (if cd_id_to_slot d = [] then Inr []
      else tryR (case active_filter f of
                   Some g \<Rightarrow> Inr (filtered_planner ann d q (co_metric opts) (co_dimension opts) g limit ef_search)
                 | None \<Rightarrow> unfiltered ann d q (co_metric opts) (co_dimension opts) limit ef_search)
             (\<lambda>scored. Inr (order_scored (co_metric opts) limit scored)))"

definition run_query ::
  "ann \<Rightarrow> 'q collection \<Rightarrow> f32 list \<Rightarrow> nat \<Rightarrow> nat option \<Rightarrow> bool \<Rightarrow> bool \<Rightarrow> filter option \<Rightarrow> hit list res" where
  "run_query ann c query limit ef wp wv f =
     tryR (check_query (cl_config c) query limit ef f) (\<lambda>(ef_search, q).
     tryR (ranked_slots ann (cl_config c) (cl_data c) q limit ef_search f) (\<lambda>ranked.
       Inr (project_slots (cl_data c) ranked (co_dimension (cl_config c)) wp wv)))"

subsection \<open>The sparse lane and fusion\<close>

definition sparse_score :: "sparse_vector \<Rightarrow> 'q collection_data \<Rightarrow> nat \<Rightarrow> f32 option" where
  "sparse_score query d s =
     Option.bind (cd_sparses d ! s) (\<lambda>sp. let score = sparse_dot sp query in if f32_eq score 0 then None else Some score)"

definition sparse_ranked :: "sparse_vector \<Rightarrow> nat \<Rightarrow> filter option \<Rightarrow> 'q collection_data \<Rightarrow> scored list" where
  "sparse_ranked query limit f d =
     take limit (sort_key (\<lambda>h. (- f32_total_key (snd h), cd_ids d ! fst h))
       (List.map_filter (\<lambda>s. if live_slot d s \<and> wanted f d s then map_option (Pair s) (sparse_score query d s) else None)
         [0..<length (cd_ids d)]))"

definition search_sparse :: "sparse_vector \<Rightarrow> nat \<Rightarrow> 'q collection \<Rightarrow> hit list res" where
  "search_sparse query limit c =
     tryR (guard c) (\<lambda>_.
     if limit = 0 then Inl limit_error
     else tryR (sparse_validate query) (\<lambda>_.
       Inr (project_slots (cl_data c) (sparse_ranked query limit None (cl_data c)) (co_dimension (cl_config c)) True False)))"

definition rank_in :: "string list \<Rightarrow> string \<Rightarrow> nat option" where
  "rank_in ids key = map_of (rev (zip ids [1..<Suc (length ids)])) key"

definition lane_term :: "f32 \<Rightarrow> f32 \<Rightarrow> nat option \<Rightarrow> f32" where
  "lane_term weight rrf_k rank =
     (case rank of None \<Rightarrow> 0 | Some r \<Rightarrow> f32_div weight (f32_add rrf_k (f32_of_int (int r))))"

definition fuse :: "f32 \<Rightarrow> f32 \<Rightarrow> string list \<Rightarrow> string list \<Rightarrow> (string \<times> f32 \<times> nat) list" where
  "fuse alpha rrf_k dense_ids sparse_ids =
     map (\<lambda>key. (key,
            f32_add (lane_term alpha rrf_k (rank_in dense_ids key))
                    (lane_term (f32_sub f32_one alpha) rrf_k (rank_in sparse_ids key)),
            case rank_in dense_ids key of None \<Rightarrow> 2 ^ 64 - 1 | Some r \<Rightarrow> r))
       (remdups_adj (sort (dense_ids @ sparse_ids)))"

definition fused_order :: "(string \<times> f32 \<times> nat) list \<Rightarrow> (string \<times> f32 \<times> nat) list" where
  "fused_order fused = sort_key (\<lambda>(key, score, rank). (- f32_total_key score, rank, key)) fused"

definition fused_hit :: "'q collection_data \<Rightarrow> nat \<Rightarrow> bool \<Rightarrow> bool \<Rightarrow> string \<times> f32 \<times> nat \<Rightarrow> hit option" where
  "fused_hit d dim wp wv h =
     map_option (\<lambda>s. \<lparr>hit_id = fst h, hit_score = fst (snd h),
         hit_payload = (if wp then cd_payloads d ! s else None),
         hit_vector = (if wv then Some (copy_vector d s dim) else None)\<rparr>)
       (map_of (cd_id_to_slot d) (fst h))"

definition run_hybrid ::
  "ann \<Rightarrow> 'q collection \<Rightarrow> f32 list option \<Rightarrow> sparse_vector option \<Rightarrow> f32 \<Rightarrow> f32 \<Rightarrow> nat \<Rightarrow> bool \<Rightarrow> bool \<Rightarrow> filter option
    \<Rightarrow> hit list res" where
  "run_hybrid ann c dense sparse alpha rrf_k limit wp wv f =
     (let d = cl_data c; dim = co_dimension (cl_config c)
      in if limit = 0 then Inl limit_error
         else tryR (case sparse of None \<Rightarrow> Inr () | Some s \<Rightarrow> sparse_validate s) (\<lambda>_.
           case (dense, sparse) of
             (None, None) \<Rightarrow> Inl (InvalidArgument ''a hybrid query needs at least one lane (dense or sparse)'')
           | (Some v, None) \<Rightarrow> run_query ann c v limit None wp wv f
           | (None, Some s) \<Rightarrow> Inr (project_slots d (sparse_ranked s limit f d) dim wp wv)
           | (Some v, Some s) \<Rightarrow>
               let fetch = max (min (limit * 4) (2 ^ 64 - 1)) 100
               in tryR (run_query ann c v fetch None False False f) (\<lambda>dense_hits.
                 let sparse_ids = map (\<lambda>h. cd_ids d ! fst h) (sparse_ranked s fetch f d);
                     fused = take limit (fused_order (fuse alpha rrf_k (map hit_id dense_hits) sparse_ids))
                 in Inr (List.map_filter (fused_hit d dim wp wv) fused))))"

subsection \<open>Candidates are what they should be\<close>

text \<open>What is relied on from the graph package: the answer names nodes of the graph, each once.\<close>

definition ann_ok :: "ann \<Rightarrow> bool" where
  "ann_ok ann \<longleftrightarrow> (\<forall>ix q k ef. distinct (map fst (hx_nodes ix)) \<longrightarrow>
     distinct (map fst (ann ix q k ef)) \<and> set (map fst (ann ix q k ef)) \<subseteq> set (map fst (hx_nodes ix)))"

definition linear_ann :: ann where
  "linear_ann ix q k ef =
     take k (sort_key (\<lambda>h. f32_total_key (snd h)) (map (\<lambda>(s, v). (s, euclidean_distance q v)) (hx_nodes ix)))"

definition pool :: "'q collection_data \<Rightarrow> (nat \<Rightarrow> bool) \<Rightarrow> nat set" where
  "pool d ok = {s. s < length (cd_ids d) \<and> live_slot d s \<and> ok s}"

definition candidates_ok :: "'q collection_data \<Rightarrow> (nat \<Rightarrow> bool) \<Rightarrow> nat \<Rightarrow> scored list \<Rightarrow> bool" where
  "candidates_ok d ok limit out \<longleftrightarrow> distinct (map fst out) \<and> set (map fst out) \<subseteq> pool d ok
     \<and> min limit (card (pool d ok)) \<le> length out"

lemma pool_finite [simp]: "finite (pool d ok)"
  by (simp add: pool_def)

lemma pool_live: "pool d (\<lambda>_. True) = set (live_slots d)"
  by (simp add: pool_def live_slots_set)

lemma all_of_pool: "distinct (map fst out) \<Longrightarrow> set (map fst out) = pool d ok \<Longrightarrow> candidates_ok d ok limit out"
  unfolding candidates_ok_def by (metis distinct_card length_map min.cobounded2 order_refl)

lemma brute_force_ok: "candidates_ok d (\<lambda>_. True) limit (brute_force d query metric dim)"
  by (intro all_of_pool) (auto simp: brute_force_def pool_def comp_def)

lemma filtered_scan_ok:
  "candidates_ok d (\<lambda>s. filter_matches f (cd_payloads d ! s)) limit (filtered_scan d query metric dim f)"
  by (intro all_of_pool) (auto simp: filtered_scan_def pool_def comp_def)

lemma gather_fst: "map fst (gather ok metric limit found) = take limit (List.filter ok (map fst found))"
  by (simp add: gather_def take_map filter_map comp_def case_prod_beta)

lemma gather_ok:
  assumes a: "ann_ok ann" and g: "graph_ok dim d" "cd_index d = Some ix"
    and found: "hnsw_search ann ix query k ef = Inr found"
    and ok: "\<And>s. ok s \<Longrightarrow> live_slot d s \<and> wish s"
    and enough: "min limit (card (pool d wish)) \<le> length (gather ok metric limit found)"
  shows "candidates_ok d wish limit (gather ok metric limit found)"
proof -
  have "found = ann ix query k ef" using found by (simp add: hnsw_search_def split: if_split_asm)
  moreover have "distinct (map fst (hx_nodes ix))" using g by (simp add: graph_ok_def)
  ultimately have f: "distinct (map fst found)" "set (map fst found) \<subseteq> set (map fst (hx_nodes ix))"
    using a by (auto simp: ann_ok_def)
  have n: "s < length (cd_ids d)" if "s \<in> set (map fst (hx_nodes ix))" for s
    using g that by (auto simp: graph_ok_def)
  have "set (map fst (gather ok metric limit found)) \<subseteq> {s \<in> set (map fst found). ok s}"
    unfolding gather_fst using set_take_subset by fastforce
  also have "\<dots> \<subseteq> pool d wish" using f(2) n ok by (auto simp: pool_def)
  finally show ?thesis
    using f(1) enough unfolding candidates_ok_def gather_fst by (simp add: distinct_take)
qed

lemma post_filter_ok:
  assumes a: "ann_ok ann" and g: "graph_ok dim d" "cd_index d = Some ix"
    and out: "post_filter ann ix query metric (\<lambda>s. live_slot d s \<and> wish s) limit ef tot fetch = Some out"
  shows "candidates_ok d wish limit out"
  using out
proof (induction "tot - fetch" arbitrary: fetch rule: less_induct)
  case less
  let ?ok = "\<lambda>s. live_slot d s \<and> wish s"
  obtain found where found: "hnsw_search ann ix query fetch (max ef (min fetch EF_SEARCH_MAX)) = Inr found"
    using less.prems by (subst (asm) post_filter.simps) (simp split: sum.splits)
  show ?case
  proof (cases "limit \<le> length (gather ?ok metric limit found)")
    case True
    then have "out = gather ?ok metric limit found"
      using less.prems found by (subst (asm) post_filter.simps) (simp add: Let_def)
    then show ?thesis using gather_ok [OF a g found, where ok = ?ok and wish = wish and metric = metric and limit = limit] True by simp
  next
    case False
    then have "\<not> (tot \<le> fetch \<or> fetch = 0) \<and>
        post_filter ann ix query metric ?ok limit ef tot (min (fetch * 4) tot) = Some out"
      using less.prems found by (subst (asm) post_filter.simps) (simp add: Let_def split: if_split_asm)
    then show ?thesis using less.hyps [of "min (fetch * 4) tot"] by auto
  qed
qed

lemma score_candidates_scan:
  assumes inv: "data_inv dim d" and hom: "homogeneous (cd_payload_indexes d) (slot_payload d)"
    and S: "candidates (cd_payload_indexes d) f = Some S"
  shows "score_candidates d query metric dim f S = filtered_scan d query metric dim f"
proof -
  let ?P = "\<lambda>s. s < length (cd_ids d) \<and> live_slot d s \<and> filter_matches f (cd_payloads d ! s)"
  let ?L = "map unat (sorted_list_of_set S)"
  have l: "lists_ok dim d" and h: "indexes_hold (cd_payload_indexes d) (slot_payload d)"
    using inv by (auto simp: data_inv_def payloads_ok_def)
  have mem: "s \<in> set ?L" if "?P s" for s
  proof -
    have "slot_payload d (word_of_nat s) = cd_payloads d ! s" "unat (word_of_nat s :: u64) = s"
      using l that by (auto simp: lists_ok_def slot_payload_at unat_slot)
    moreover from this have "word_of_nat s \<in> S" using candidates_complete [OF h hom S] that by metis
    ultimately show ?thesis by force
  qed
  have "sorted_wrt (\<lambda>x y. unat x \<le> unat y) (sorted_list_of_set S)"
    by (rule sorted_wrt_mono_rel [OF _ sorted_sorted_list_of_set]) (simp add: word_le_nat_alt)
  then have "sorted ?L" by (simp add: sorted_wrt_map)
  moreover have "distinct ?L" by (simp add: distinct_map inj_on_def word_unat_eq_iff)
  ultimately have "sorted (List.filter ?P ?L)" "distinct (List.filter ?P ?L)" by (simp_all add: sorted_wrt_filter)
  moreover have "sorted (List.filter ?P [0..<length (cd_ids d)])" "distinct (List.filter ?P [0..<length (cd_ids d)])"
    by (simp_all add: sorted_wrt_filter)
  moreover have "set (List.filter ?P ?L) = set (List.filter ?P [0..<length (cd_ids d)])"
    using mem by auto
  ultimately have "List.filter ?P ?L = List.filter ?P [0..<length (cd_ids d)]" by (rule sorted_distinct_set_unique)
  also have "\<dots> = List.filter (\<lambda>s. live_slot d s \<and> filter_matches f (cd_payloads d ! s)) [0..<length (cd_ids d)]"
    by (rule filter_cong) auto
  finally show ?thesis by (simp only: score_candidates_def filtered_scan_def)
qed

lemma filtered_planner_ok:
  assumes inv: "data_inv dim d" and hom: "homogeneous (cd_payload_indexes d) (slot_payload d)" and a: "ann_ok ann"
  shows "candidates_ok d (\<lambda>s. filter_matches f (cd_payloads d ! s)) limit (filtered_planner ann d query metric dim f limit ef)"
proof -
  have g: "graph_ok dim d" using inv by (simp add: data_inv_def)
  note scan = filtered_scan_ok [of d f limit query metric dim]
  show ?thesis
    unfolding filtered_planner_def Let_def
    using scan score_candidates_scan [OF inv hom, of f _ query metric] post_filter_ok [OF a g]
    by (auto split: option.split)
qed

lemma unfiltered_ok:
  assumes inv: "data_inv dim d" and a: "ann_ok ann" and out: "unfiltered ann d query metric dim limit ef = Inr out"
  shows "candidates_ok d (\<lambda>_. True) limit out"
proof -
  have g: "graph_ok dim d" and ids: "ids_ok d" using inv by (auto simp: data_inv_def)
  have n: "card (pool d (\<lambda>_. True)) = length (cd_id_to_slot d)"
    using live_slots_length [OF inv] card_contents [OF ids, of dim] by (simp add: pool_live distinct_card)
  show ?thesis
  proof (cases "out = brute_force d query metric dim")
    case False
    then obtain ix found where ix: "cd_index d = Some ix"
      and found: "hnsw_search ann ix query (usize_add limit (card (cd_tombstones d))) ef = Inr found"
      and o: "out = gather (live_slot d) metric limit found" "\<not> length out < min limit (length (cd_id_to_slot d))"
      using out by (auto simp: unfiltered_def Let_def tryR_eq_Inr split: option.splits if_split_asm)
    show ?thesis unfolding o(1) by (rule gather_ok [OF a g ix found]) (use o n in auto)
  qed (simp add: brute_force_ok)
qed

end
