(* ===== verification/Search_Props.thy ===== *)
theory Search_Props
  imports Search Collection_Props
begin

section \<open>What a search returns\<close>

subsection \<open>Ordering and projection\<close>

definition rank_key :: "metric \<Rightarrow> f32 \<Rightarrow> int" where
  "rank_key metric score = (if metric_is_similarity metric then - f32_total_key score else f32_total_key score)"

lemma order_scored_sort: "order_scored metric limit xs = take limit (sort_key (\<lambda>h. rank_key metric (snd h)) xs)"
  by (cases "metric_is_similarity metric") (simp_all add: order_scored_def rank_key_def)

lemma order_scored_sorted: "sorted (map (\<lambda>h. rank_key metric (snd h)) (order_scored metric limit xs))"
  by (simp add: order_scored_sort take_map [symmetric] sorted_wrt_take)

lemma order_scored_ok:
  assumes "candidates_ok d ok limit xs"
  shows "distinct (map fst (order_scored metric limit xs)) \<and> set (map fst (order_scored metric limit xs)) \<subseteq> pool d ok
    \<and> length (order_scored metric limit xs) = min limit (card (pool d ok))"
proof -
  let ?ys = "sort_key (\<lambda>h. rank_key metric (snd h)) xs"
  have "mset (map fst ?ys) = mset (map fst xs)" by simp
  then have y: "distinct (map fst ?ys)" "set (map fst ?ys) = set (map fst xs)"
    using assms by (metis candidates_ok_def distinct_count_atmost_1 mset_eq_imp_distinct_iff, metis mset_eq_setD)
  have "length xs \<le> card (pool d ok)"
    using assms card_mono [OF pool_finite [of d ok], of "set (map fst xs)"]
    by (metis candidates_ok_def distinct_card length_map)
  moreover have "min limit (card (pool d ok)) \<le> length xs" using assms by (simp add: candidates_ok_def)
  ultimately show ?thesis
    using assms y set_take_subset [of limit "map fst ?ys"]
    by (auto simp: order_scored_sort take_map [symmetric] distinct_take candidates_ok_def)
qed

subsection \<open>Hits and the map\<close>

definition filter_wants :: "filter option \<Rightarrow> json option \<Rightarrow> bool" where
  "filter_wants f payload = (case f of None \<Rightarrow> True | Some g \<Rightarrow> filter_matches g payload)"

definition matching_keys :: "'q collection \<Rightarrow> filter option \<Rightarrow> string set" where
  "matching_keys c f = {k. \<exists>v sp pl. coll_contents c k = Some (v, sp, pl) \<and> filter_wants f pl}"

definition hit_ok :: "'q collection \<Rightarrow> filter option \<Rightarrow> bool \<Rightarrow> bool \<Rightarrow> hit \<Rightarrow> bool" where
  "hit_ok c f wp wv h =
     (case coll_contents c (hit_id h) of
        None \<Rightarrow> False
      | Some (v, sp, pl) \<Rightarrow>
          filter_wants f pl \<and> hit_payload h = (if wp then pl else None) \<and> hit_vector h = (if wv then Some v else None))"

definition slot_wants :: "'q collection_data \<Rightarrow> filter option \<Rightarrow> nat \<Rightarrow> bool" where
  "slot_wants d f s = filter_wants f (cd_payloads d ! s)"

lemma active_filter_wants: "filter_wants (active_filter f) payload = filter_wants f payload"
proof (cases f)
  case (Some g)
  then show ?thesis by (cases g) (simp add: active_filter_def filter_wants_def)
qed (simp add: active_filter_def)

lemma live_contents:
  assumes "data_inv dim d" "s < length (cd_ids d)" "live_slot d s"
  shows "contents dim d (cd_ids d ! s) = Some (copy_vector d s dim, cd_sparses d ! s, cd_payloads d ! s)"
  using assms by (simp add: contents_def slot_contents_def live_slot_def)

lemma pool_keys:
  assumes inv: "coll_inv c"
  shows "card (pool (cl_data c) (slot_wants (cl_data c) f)) = card (matching_keys c f)"
proof -
  let ?d = "cl_data c"
  let ?dim = "co_dimension (cl_config c)"
  have d: "data_inv ?dim ?d" and ids: "ids_ok ?d" using inv by (auto simp: coll_inv_def data_inv_def)
  have "inj_on (\<lambda>s. cd_ids ?d ! s) (pool ?d (slot_wants ?d f))"
    using live_slots_inj [OF ids] by (rule inj_on_subset) (auto simp: pool_def live_slots_set)
  moreover have "matching_keys c f = (\<lambda>s. cd_ids ?d ! s) ` pool ?d (slot_wants ?d f)"
  proof (intro set_eqI iffI)
    fix k assume "k \<in> matching_keys c f"
    then obtain s where "map_of (cd_id_to_slot ?d) k = Some s" "filter_wants f (cd_payloads ?d ! s)"
      by (auto simp: matching_keys_def coll_contents_def contents_def slot_contents_def)
    then show "k \<in> (\<lambda>s. cd_ids ?d ! s) ` pool ?d (slot_wants ?d f)"
      using ids_okD [OF ids, of k s] live_of_key [OF ids, of k s] by (auto simp: pool_def slot_wants_def)
  next
    fix k assume "k \<in> (\<lambda>s. cd_ids ?d ! s) ` pool ?d (slot_wants ?d f)"
    then show "k \<in> matching_keys c f"
      using live_contents [OF d] by (auto simp: matching_keys_def coll_contents_def pool_def slot_wants_def)
  qed
  ultimately show ?thesis by (simp add: card_image)
qed

lemma project_hits:
  fixes wp wv :: bool
  assumes inv: "coll_inv c" and r: "set (map fst ranked) \<subseteq> pool (cl_data c) (slot_wants (cl_data c) f)" "distinct (map fst ranked)"
  defines "hits \<equiv> project_slots (cl_data c) ranked (co_dimension (cl_config c)) wp wv"
  shows "distinct (map hit_id hits) \<and> list_all (hit_ok c f wp wv) hits \<and> map hit_score hits = map snd ranked"
proof -
  let ?d = "cl_data c"
  have d: "data_inv (co_dimension (cl_config c)) ?d" and ids: "ids_ok ?d" using inv by (auto simp: coll_inv_def data_inv_def)
  have "map hit_id hits = map (\<lambda>s. cd_ids ?d ! s) (map fst ranked)"
    by (simp add: hits_def project_slots_def case_prod_beta)
  moreover have "set (map fst ranked) \<subseteq> set (live_slots ?d)" using r(1) by (auto simp: pool_def live_slots_set)
  ultimately have "distinct (map hit_id hits)"
    using r(2) inj_on_subset [OF live_slots_inj [OF ids]] by (simp only: distinct_map)
  moreover have "hit_ok c f wp wv h" if h: "h \<in> set hits" for h
  proof -
    obtain s x where sx: "(s, x) \<in> set ranked" and e: "h = \<lparr>hit_id = cd_ids ?d ! s, hit_score = x,
            hit_payload = (if wp then cd_payloads ?d ! s else None),
            hit_vector = (if wv then Some (copy_vector ?d s (co_dimension (cl_config c))) else None)\<rparr>"
      using h by (auto simp: hits_def project_slots_def)
    have "s \<in> pool ?d (slot_wants ?d f)" using r(1) sx by force
    then show ?thesis using live_contents [OF d] by (simp add: hit_ok_def coll_contents_def e pool_def slot_wants_def)
  qed
  ultimately show ?thesis
    by (simp add: list_all_iff) (simp add: hits_def project_slots_def case_prod_beta)
qed

lemma ranked_slots_ok:
  assumes inv: "coll_inv c" and a: "ann_ok ann"
    and hom: "active_filter f = None \<or> homogeneous (cd_payload_indexes (cl_data c)) (slot_payload (cl_data c))"
    and r: "ranked_slots ann (cl_config c) (cl_data c) q limit ef f = Inr ranked"
  shows "distinct (map fst ranked) \<and> set (map fst ranked) \<subseteq> pool (cl_data c) (slot_wants (cl_data c) f)
    \<and> length ranked = min limit (card (pool (cl_data c) (slot_wants (cl_data c) f)))
    \<and> sorted (map (\<lambda>h. rank_key (co_metric (cl_config c)) (snd h)) ranked)"
proof (cases "cd_id_to_slot (cl_data c) = []")
  case True
  then have "pool (cl_data c) (slot_wants (cl_data c) f) = {}" by (auto simp: pool_def live_slot_def)
  then show ?thesis using r True by (simp add: ranked_slots_def)
next
  case False
  let ?d = "cl_data c"
  have d: "data_inv (co_dimension (cl_config c)) ?d" using inv by (simp add: coll_inv_def)
  have w: "slot_wants ?d f = slot_wants ?d (active_filter f)" by (simp add: slot_wants_def active_filter_wants fun_eq_iff)
  obtain xs where xs: "ranked = order_scored (co_metric (cl_config c)) limit xs" "candidates_ok ?d (slot_wants ?d f) limit xs"
  proof (cases "active_filter f")
    case None
    then obtain xs where u: "unfiltered ann ?d q (co_metric (cl_config c)) (co_dimension (cl_config c)) limit ef = Inr xs"
      and "ranked = order_scored (co_metric (cl_config c)) limit xs"
      using r False by (auto simp: ranked_slots_def tryR_eq_Inr)
    moreover have "slot_wants ?d f = (\<lambda>_. True)" using None by (simp add: w slot_wants_def filter_wants_def fun_eq_iff)
    ultimately show ?thesis using that unfiltered_ok [OF d a u] by simp
  next
    case (Some g)
    let ?xs = "filtered_planner ann ?d q (co_metric (cl_config c)) (co_dimension (cl_config c)) g limit ef"
    have "slot_wants ?d f = (\<lambda>s. filter_matches g (cd_payloads ?d ! s))"
      using Some by (simp add: w slot_wants_def filter_wants_def fun_eq_iff)
    moreover have "ranked = order_scored (co_metric (cl_config c)) limit ?xs"
      using r False Some by (simp add: ranked_slots_def)
    ultimately show ?thesis using that filtered_planner_ok [OF d _ a] hom Some by simp
  qed
  then show ?thesis using order_scored_ok [OF xs(2)] order_scored_sorted by blast
qed

subsection \<open>Scores\<close>

text \<open>A slot's score is the kernel's value for the vector of that slot, or what the graph package answered for that slot.\<close>

definition slot_scored :: "ann \<Rightarrow> 'q collection_data \<Rightarrow> metric \<Rightarrow> nat \<Rightarrow> f32 list \<Rightarrow> nat \<Rightarrow> f32 \<Rightarrow> bool" where
  "slot_scored ann d metric dim q s score \<longleftrightarrow> score = score_slot d q metric dim s
     \<or> (\<exists>ix k ef distance. cd_index d = Some ix \<and> (s, distance) \<in> set (ann ix q k ef) \<and> score = distance_to_score metric distance)"

lemma gather_scored:
  assumes "cd_index d = Some ix" "hnsw_search ann ix q k ef = Inr found" "(s, score) \<in> set (gather ok metric limit found)"
  shows "slot_scored ann d metric dim q s score"
proof -
  have "found = ann ix q k ef" using assms(2) by (simp add: hnsw_search_def split: if_split_asm)
  moreover obtain distance where "(s, distance) \<in> set found" "score = distance_to_score metric distance"
    using assms(3) by (auto simp: gather_def dest!: in_set_takeD)
  ultimately show ?thesis using assms(1) by (auto simp: slot_scored_def)
qed

lemma post_filter_scored:
  assumes ix: "cd_index d = Some ix"
    and out: "post_filter ann ix q metric ok limit ef tot fetch = Some out" and m: "(s, score) \<in> set out"
  shows "slot_scored ann d metric dim q s score"
  using out
proof (induction "tot - fetch" arbitrary: fetch rule: less_induct)
  case less
  obtain found where found: "hnsw_search ann ix q fetch (max ef (min fetch EF_SEARCH_MAX)) = Inr found"
    using less.prems by (subst (asm) post_filter.simps) (simp split: sum.splits)
  show ?case
  proof (cases "limit \<le> length (gather ok metric limit found)")
    case True
    then have "out = gather ok metric limit found"
      using less.prems found by (subst (asm) post_filter.simps) (simp add: Let_def)
    then show ?thesis using gather_scored [OF ix found] m by blast
  next
    case False
    then have "\<not> (tot \<le> fetch \<or> fetch = 0) \<and> post_filter ann ix q metric ok limit ef tot (min (fetch * 4) tot) = Some out"
      using less.prems found by (subst (asm) post_filter.simps) (simp add: Let_def split: if_split_asm)
    then show ?thesis using less.hyps [of "min (fetch * 4) tot"] by auto
  qed
qed

lemma exact_scored:
  "(s, x) \<in> set (brute_force d q metric dim) \<Longrightarrow> slot_scored ann d metric dim q s x"
  "(s, x) \<in> set (filtered_scan d q metric dim f) \<Longrightarrow> slot_scored ann d metric dim q s x"
  "(s, x) \<in> set (score_candidates d q metric dim f S) \<Longrightarrow> slot_scored ann d metric dim q s x"
  by (auto simp: brute_force_def filtered_scan_def score_candidates_def slot_scored_def)

lemma planner_scored:
  "(s, x) \<in> set (filtered_planner ann d q metric dim f limit ef) \<Longrightarrow> slot_scored ann d metric dim q s x"
  by (auto simp: filtered_planner_def Let_def intro: exact_scored post_filter_scored split: option.splits if_splits)

lemma unfiltered_scored:
  "unfiltered ann d q metric dim limit ef = Inr out \<Longrightarrow> (s, x) \<in> set out \<Longrightarrow> slot_scored ann d metric dim q s x"
  by (auto simp: unfiltered_def Let_def tryR_eq_Inr intro: exact_scored gather_scored split: option.splits if_splits)

lemma ranked_scored:
  assumes "ranked_slots ann opts d q limit ef f = Inr ranked" "(s, x) \<in> set ranked"
  shows "slot_scored ann d (co_metric opts) (co_dimension opts) q s x"
proof -
  have "\<exists>xs. (unfiltered ann d q (co_metric opts) (co_dimension opts) limit ef = Inr xs
      \<or> (\<exists>g. xs = filtered_planner ann d q (co_metric opts) (co_dimension opts) g limit ef)) \<and> (s, x) \<in> set xs"
    using assms by (auto simp: ranked_slots_def tryR_eq_Inr order_scored_sort dest!: in_set_takeD split: if_splits option.splits)
  then show ?thesis using unfiltered_scored planner_scored by metis
qed

definition scored_as :: "ann \<Rightarrow> 'q collection \<Rightarrow> f32 list \<Rightarrow> hit \<Rightarrow> bool" where
  "scored_as ann c q h \<longleftrightarrow> (\<exists>s. map_of (cd_id_to_slot (cl_data c)) (hit_id h) = Some s
     \<and> slot_scored ann (cl_data c) (co_metric (cl_config c)) (co_dimension (cl_config c)) q s (hit_score h))"

subsection \<open>Properties\<close>


lemma linear_ann_ok: "ann_ok linear_ann"
  unfolding ann_ok_def
proof (intro allI impI conjI)
  fix ix :: hnsw_index and q k and ef :: nat
  let ?xs = "sort_key (\<lambda>h. f32_total_key (snd h)) (map (\<lambda>(s, v). (s, euclidean_distance q v)) (hx_nodes ix))"
  have m: "mset (map fst ?xs) = mset (map fst (hx_nodes ix))"
    by (simp add: image_mset.compositionality comp_def case_prod_beta)
  have e: "map fst (linear_ann ix q k ef) = take k (map fst ?xs)" by (simp add: linear_ann_def take_map)
  show "set (map fst (linear_ann ix q k ef)) \<subseteq> set (map fst (hx_nodes ix))"
    unfolding e using set_take_subset mset_eq_setD [OF m] by metis
  assume "distinct (map fst (hx_nodes ix))"
  then have "distinct (map fst ?xs)" using mset_eq_imp_distinct_iff [OF m] by blast
  then show "distinct (map fst (linear_ann ix q k ef))" unfolding e by (rule distinct_take)
qed

lemma demo_query: "\<exists>hits. run_query linear_ann demo_full [0x3F800000, 0] 3 None True True None = Inr hits"
  by (simp add: run_query_def check_query_def validate_option_def demo_full_def demo_coll_def options_new_def hnsw_default_def
      f32_is_finite_def EF_SEARCH_MAX_def ranked_slots_def active_filter_def unfiltered_def Let_def apply_prepared_def
      apply_upsert_def append_point_def data_empty_def)


text \<open>The exact paths in terms of slots. For a filter, the values behind an index are ones it can answer for.\<close>

lemma exact_ranked:
  assumes "coll_inv c" and "active_filter f = None \<or> homogeneous (cd_payload_indexes (cl_data c)) (slot_payload (cl_data c))"
    and "cd_index (cl_data c) = None \<or> coll_len c \<le> SMALL_EXACT_MAX" and "\<not> cl_deleted c"
  shows "ranked_slots ann (cl_config c) (cl_data c) q limit ef f =
    Inr (take limit (sort_key (\<lambda>h. rank_key (co_metric (cl_config c)) (snd h))
      (map (\<lambda>s. (s, score_slot (cl_data c) q (co_metric (cl_config c)) (co_dimension (cl_config c)) s))
        (List.filter (slot_wants (cl_data c) f) (live_slots (cl_data c))))))"
proof -
  let ?d = "cl_data c" and ?m = "co_metric (cl_config c)" and ?dim = "co_dimension (cl_config c)"
  let ?score = "\<lambda>s. (s, score_slot ?d q ?m ?dim s)"
  have d: "data_inv ?dim ?d" using assms(1) by (simp add: coll_inv_def)
  have small: "cd_index ?d = None \<or> length (cd_id_to_slot ?d) \<le> SMALL_EXACT_MAX" using assms(3,4) by (simp add: coll_len_def)
  have w: "slot_wants ?d f = slot_wants ?d (active_filter f)" by (simp add: slot_wants_def active_filter_wants fun_eq_iff)
  show ?thesis
  proof (cases "cd_id_to_slot ?d = []")
    case True
    then have "live_slots ?d = []" by (simp add: live_slots_def live_slot_def)
    then show ?thesis using True by (simp add: ranked_slots_def)
  next
    case False
    show ?thesis
    proof (cases "active_filter f")
      case None
      then have "List.filter (slot_wants ?d f) (live_slots ?d) = live_slots ?d"
        by (simp add: w slot_wants_def filter_wants_def)
      moreover have "unfiltered ann ?d q ?m ?dim limit ef = Inr (map ?score (live_slots ?d))"
        using small by (auto simp: unfiltered_def Let_def brute_force_def live_slots_def split: option.split)
      ultimately show ?thesis using False None by (simp add: ranked_slots_def order_scored_sort)
    next
      case (Some g)
      have "filtered_scan ?d q ?m ?dim g = map ?score (List.filter (slot_wants ?d f) (live_slots ?d))"
        using Some by (simp add: filtered_scan_def live_slots_def w slot_wants_def filter_wants_def conj_commute)
      moreover have "filtered_planner ann ?d q ?m ?dim g limit ef = filtered_scan ?d q ?m ?dim g"
      proof -
        have hom: "homogeneous (cd_payload_indexes ?d) (slot_payload ?d)" using assms(2) Some by simp
        show ?thesis
        using small score_candidates_scan [OF d hom, of g]
        by (auto simp: filtered_planner_def Let_def SMALL_EXACT_MAX_def POSTFILTER_MIN_LIVE_def split: option.split)
      qed
      ultimately show ?thesis using False Some by (simp add: ranked_slots_def order_scored_sort)
    qed
  qed
qed

lemma demo_homogeneous: "homogeneous (cd_payload_indexes (cl_data demo_full)) (slot_payload (cl_data demo_full))"
  by (simp add: homogeneous_def demo_full_def demo_coll_def apply_prepared_def apply_upsert_def append_point_def Let_def
      data_empty_def demo_prepared_def indexes_new_def indexes_insert_def)



end
