(* ===== verification/Text_Ops.thy ===== *)
theory Text_Ops
  imports Search Collection_Props
begin

section \<open>Text collections (\<open>collection.rs\<close>, the auto-embed part)\<close>

text \<open>
  Operations that embed text, keep the vocabulary and search with it. They run on a collection, the list \<open>E\<close> of embedder
  states (a shared embedder is a position in it) and the log state; the checkpoint that a write on an open file drives is added
  in \<open>Sessions\<close>. The providers are the record \<open>ops\<close> (the trait
  \<open>Embedder\<close>); a failing \<open>fit\<close> or \<open>import_state\<close> is taken to leave the embedder as it was, which holds of the providers
  of the repository. A record \<open>env\<close> carries the packages and services; \<open>ev_build\<close> is the factory of the built-in providers
  and \<open>ev_now\<close> the clock.
\<close>

record ('e, 's) env =
  ev_json_len :: "json \<Rightarrow> nat"
  ev_wal :: wal_codecs
  ev_emb :: "'e embedder_ops"
  ev_log :: "'s wal_log"
  ev_ann :: ann
  ev_build :: "string \<Rightarrow> nat \<Rightarrow> 'e res"
  ev_now :: u64

subsection \<open>Providers\<close>

definition available_providers :: "string list" where
  "available_providers = [''bm25'', ''tfidf'', ''bow'', ''char_ngram'']"

definition is_onnx_provider :: "string \<Rightarrow> bool" where
  "is_onnx_provider provider \<longleftrightarrow> take 10 provider = ''fastembed:''"

definition embedder_ready :: "'q collection \<Rightarrow> nat option" where
  "embedder_ready c = (case cl_embedder c of EmbReady r \<Rightarrow> Some r | _ \<Rightarrow> None)"

definition text_embedder :: "'q collection \<Rightarrow> nat res" where
  "text_embedder c =
     (case cl_embedder c of
        EmbReady r \<Rightarrow> Inr r
      | EmbMissing name \<Rightarrow>
          let remedy =
            (if is_onnx_provider name
             then ''provider '' @ quoted name @ '' requires a build with the `onnx` feature; vector-level reads and searches keep working''
             else ''provider '' @ quoted name @ '' is not registered in this process; call Database::register_embedder(''
                    @ quoted name @ '', ...) before text operations'')
          in Inl (UnsupportedProvider remedy available_providers)
      | EmbNone \<Rightarrow> Inl (InvalidArgument ''text operations require an auto-embed collection (use CollectionOptions::auto_embed)''))"

definition embed_nonzero :: "'e embedder_ops \<Rightarrow> 'e \<Rightarrow> string \<Rightarrow> nat \<Rightarrow> f32 list res" where
  "embed_nonzero ops e text dim =
     tryR (em_embed ops e text) (\<lambda>v.
       if \<exists>x\<in>set v. \<not> f32_eq x 0 then Inr v
       else Inr (case replicate dim 0 of [] \<Rightarrow> [] | _ # r \<Rightarrow> f32_one # r))"

definition sparse_from_dense :: "f32 list \<Rightarrow> sparse_vector option" where
  "sparse_from_dense v =
     (let es = List.filter (\<lambda>(i, x). \<not> f32_eq x 0) (enumerate 0 v)
      in if es = [] then None else Some \<lparr>sv_indices = map (\<lambda>e. word_of_nat (fst e)) es, sv_values = map snd es\<rparr>)"

text \<open>The vocabulary carried through an open and bound later.\<close>

definition bind_embedder :: "'e embedder_ops \<Rightarrow> string \<Rightarrow> nat \<Rightarrow> 'q collection \<Rightarrow> 'e list \<Rightarrow> unit res \<times> 'q collection \<times> 'e list" where
  "bind_embedder ops name r c E =
     (if cl_embedder c \<noteq> EmbMissing name then (Inr (), c, E)
      else case cl_pending_vocab c of
        None \<Rightarrow> (Inr (), c\<lparr>cl_embedder := EmbReady r\<rparr>, E)
      | Some state \<Rightarrow>
          (case em_import ops (E ! r) state of
             Inl e \<Rightarrow> (Inl e, c\<lparr>cl_pending_vocab := None\<rparr>, E)
           | Inr e \<Rightarrow> (Inr (), c\<lparr>cl_pending_vocab := None, cl_embedder := EmbReady r\<rparr>, E[r := e])))"

definition replay_import_vocab :: "'e embedder_ops \<Rightarrow> bytes \<Rightarrow> 'q collection \<Rightarrow> 'e list \<Rightarrow> ('q collection \<times> 'e list) res" where
  "replay_import_vocab ops state c E =
     (case cl_embedder c of
        EmbReady r \<Rightarrow> tryR (em_import ops (E ! r) state) (\<lambda>e. Inr (c\<lparr>cl_text_dirty := False\<rparr>, E[r := e]))
      | EmbMissing _ \<Rightarrow> Inr (c\<lparr>cl_pending_vocab := Some state\<rparr>, E)
      | EmbNone \<Rightarrow> Inr (c, E))"

definition export_vocab_state :: "'e embedder_ops \<Rightarrow> 'q collection \<Rightarrow> 'e list \<Rightarrow> bytes option res" where
  "export_vocab_state ops c E =
     (case cl_embedder c of
        EmbReady r \<Rightarrow> tryR (em_export ops (E ! r)) (\<lambda>state. Inr (if state = [] then None else Some state))
      | EmbMissing _ \<Rightarrow> Inr (cl_pending_vocab c)
      | EmbNone \<Rightarrow> Inr None)"

definition mark_text_dirty :: "'q collection \<Rightarrow> 'q collection" where
  "mark_text_dirty c = c\<lparr>cl_text_dirty := True\<rparr>"

subsection \<open>Writing documents\<close>

text \<open>\<open>serde_json\<close>'s object is a \<open>BTreeMap\<close>: an insertion keeps the keys in order.\<close>

fun obj_insert :: "string \<Rightarrow> json \<Rightarrow> (string \<times> json) list \<Rightarrow> (string \<times> json) list" where
  "obj_insert k v [] = [(k, v)]"
| "obj_insert k v ((k', v') # r) =
     (if k = k' then (k, v) # r else if k < k' then (k, v) # (k', v') # r else (k', v') # obj_insert k v r)"

definition text_payload :: "string \<Rightarrow> json option \<Rightarrow> json" where
  "text_payload text user =
     (case user of
        None \<Rightarrow> JObj [(''_text'', JStr text)]
      | Some (JObj es) \<Rightarrow> JObj (obj_insert ''_text'' (JStr text) es)
      | Some other \<Rightarrow> other)"

text \<open>The loop under the embedder's lock: the embedder learns each document as it goes, also those of a failing batch.\<close>

fun text_points :: "'e embedder_ops \<Rightarrow> nat \<Rightarrow> (string \<times> string \<times> json option) list \<Rightarrow> 'e \<Rightarrow> point list res \<times> 'e" where
  "text_points ops dim [] e = (Inr [], e)"
| "text_points ops dim ((key, text, user) # items) e =
     (case Option.bind user reserved_key of
        Some k \<Rightarrow> (Inl (InvalidArgument (''payload key '' @ quoted k @ '' is reserved (keys starting with '' @ [CHR 0x27] @ ''_'' @ [CHR 0x27] @ '')'')), e)
      | None \<Rightarrow>
          let e1 = em_add_document ops e text
          in case embed_nonzero ops e1 text dim of
               Inl err \<Rightarrow> (Inl err, e1)
             | Inr v \<Rightarrow>
                 (case text_points ops dim items e1 of
                    (Inl err, e2) \<Rightarrow> (Inl err, e2)
                  | (Inr ps, e2) \<Rightarrow>
                      (Inr (\<lparr>pt_id = key, pt_vector = v, pt_sparse = sparse_from_dense v,
                             pt_payload = Some (text_payload text user)\<rparr> # ps), e2)))"

definition upsert_text_batch_step ::
  "('e, 's) env \<Rightarrow> (string \<times> string \<times> json option) list \<Rightarrow> 'q collection \<Rightarrow> 'e list \<Rightarrow> 's
    \<Rightarrow> unit res \<times> 'q collection \<times> 'e list \<times> 's" where
  "upsert_text_batch_step V items c E s =
     (case tryR (guard c) (\<lambda>_. text_embedder c) of
        Inl e \<Rightarrow> (Inl e, c, E, s)
      | Inr r \<Rightarrow>
          (case text_points (ev_emb V) (co_dimension (cl_config c)) items (E ! r) of
             (Inl e, emb) \<Rightarrow> (Inl e, c, E[r := emb], s)
           | (Inr points, emb) \<Rightarrow>
               (case upsert_batch_step (ev_json_len V) (wm_points (ev_wal V)) (ev_log V) True points c s of
                  (Inl e, c1, s1) \<Rightarrow> (Inl e, c1, E[r := emb], s1)
                | (Inr _, c1, s1) \<Rightarrow> (Inr (), c1\<lparr>cl_text_dirty := True\<rparr>, E[r := emb], s1))))"

subsection \<open>Refitting\<close>

definition text_documents :: "'q collection_data \<Rightarrow> (string \<times> string \<times> json) list" where
  "text_documents d =
     List.map_filter (\<lambda>s. case cd_payloads d ! s of
          None \<Rightarrow> None
        | Some payload \<Rightarrow> map_option (\<lambda>text. (cd_ids d ! s, text, payload)) (stored_text (Some payload)))
       (live_slots d)"

definition refit_point :: "'e embedder_ops \<Rightarrow> 'e \<Rightarrow> nat \<Rightarrow> string \<times> string \<times> json \<Rightarrow> point res" where
  "refit_point ops e dim doc =
     tryR (embed_nonzero ops e (fst (snd doc)) dim) (\<lambda>v.
       Inr \<lparr>pt_id = fst doc, pt_vector = v, pt_sparse = sparse_from_dense v, pt_payload = Some (snd (snd doc))\<rparr>)"

definition log_vocab :: "('e, 's) env \<Rightarrow> 'e \<Rightarrow> 'q collection \<Rightarrow> 's \<Rightarrow> unit res \<times> 's" where
  "log_vocab V e c s =
     (if \<not> cl_persistent c then (Inr (), s)
      else case em_export (ev_emb V) e of
        Inl err \<Rightarrow> (Inl err, s)
      | Inr state \<Rightarrow> if state = [] then (Inr (), s) else coll_log (ev_log V) VocabUpdate (Some state) c s)"

definition do_refit_step ::
  "('e, 's) env \<Rightarrow> 'q collection \<Rightarrow> 'e list \<Rightarrow> 's \<Rightarrow> unit res \<times> 'q collection \<times> 'e list \<times> 's" where
  "do_refit_step V c E s =
     (let ops = ev_emb V; docs = text_documents (cl_data c)
      in case embedder_ready c of
           None \<Rightarrow> (Inr (), c, E, s)
         | Some r \<Rightarrow>
             if docs = [] then (Inr (), c, E, s)
             else case em_fit ops (E ! r) (map (\<lambda>d. fst (snd d)) docs) of
               Inl e \<Rightarrow> (Inl e, c, E, s)
             | Inr emb \<Rightarrow>
                 (case mapR (refit_point ops emb (co_dimension (cl_config c))) docs of
                    Inl e \<Rightarrow> (Inl e, c, E[r := emb], s)
                  | Inr points \<Rightarrow>
                      (case upsert_batch_step (ev_json_len V) (wm_points (ev_wal V)) (ev_log V) True points c s of
                         (Inl e, c1, s1) \<Rightarrow> (Inl e, c1, E[r := emb], s1)
                       | (Inr _, c1, s1) \<Rightarrow>
                           (case log_vocab V emb c1 s1 of
                              (Inl e, s2) \<Rightarrow> (Inl e, c1, E[r := emb], s2)
                            | (Inr _, s2) \<Rightarrow> (Inr (), c1\<lparr>cl_text_dirty := False\<rparr>, E[r := emb], s2)))))"

definition refit_if_dirty_step ::
  "('e, 's) env \<Rightarrow> 'q collection \<Rightarrow> 'e list \<Rightarrow> 's \<Rightarrow> unit res \<times> 'q collection \<times> 'e list \<times> 's" where
  "refit_if_dirty_step V c E s =
     (if cl_text_dirty c then do_refit_step V (c\<lparr>cl_text_dirty := False\<rparr>) E s else (Inr (), c, E, s))"

subsection \<open>Searching\<close>

text \<open>The queries refit a stale collection first, here without the checkpoint that a refit on an open file may drive.\<close>

definition execute_query ::
  "('e, 's) env \<Rightarrow> f32 list \<Rightarrow> nat \<Rightarrow> nat option \<Rightarrow> bool \<Rightarrow> bool \<Rightarrow> filter option \<Rightarrow> 'q collection \<Rightarrow> 'e list \<Rightarrow> 's
    \<Rightarrow> hit list res \<times> 'q collection \<times> 'e list \<times> 's" where
  "execute_query V query limit ef wp wv f c E s =
     (case guard c of
        Inl e \<Rightarrow> (Inl e, c, E, s)
      | Inr _ \<Rightarrow>
          (case refit_if_dirty_step V c E s of
             (Inl e, c1, E1, s1) \<Rightarrow> (Inl e, c1, E1, s1)
           | (Inr _, c1, E1, s1) \<Rightarrow> (run_query (ev_ann V) c1 query limit ef wp wv f, c1, E1, s1)))"

definition search ::
  "('e, 's) env \<Rightarrow> f32 list \<Rightarrow> nat \<Rightarrow> 'q collection \<Rightarrow> 'e list \<Rightarrow> 's \<Rightarrow> hit list res \<times> 'q collection \<times> 'e list \<times> 's" where
  "search V vector limit = execute_query V vector limit None True False None"

text \<open>The dense lane of a hybrid query refits through \<open>execute_query\<close>, once the arguments were found good.\<close>

definition execute_hybrid ::
  "('e, 's) env \<Rightarrow> f32 list option \<Rightarrow> sparse_vector option \<Rightarrow> f32 \<Rightarrow> f32 \<Rightarrow> nat \<Rightarrow> bool \<Rightarrow> bool \<Rightarrow> filter option
    \<Rightarrow> 'q collection \<Rightarrow> 'e list \<Rightarrow> 's \<Rightarrow> hit list res \<times> 'q collection \<times> 'e list \<times> 's" where
  "execute_hybrid V dense sparse alpha rrf_k limit wp wv f c E s =
     (case tryR (guard c) (\<lambda>_. if limit = 0 then Inl limit_error
             else case sparse of None \<Rightarrow> Inr () | Some sv \<Rightarrow> sparse_validate sv) of
        Inl e \<Rightarrow> (Inl e, c, E, s)
      | Inr _ \<Rightarrow>
          (case (if dense = None then (Inr (), c, E, s) else refit_if_dirty_step V c E s) of
             (Inl e, c1, E1, s1) \<Rightarrow> (Inl e, c1, E1, s1)
           | (Inr _, c1, E1, s1) \<Rightarrow> (run_hybrid (ev_ann V) c1 dense sparse alpha rrf_k limit wp wv f, c1, E1, s1)))"

definition embed_for_hybrid ::
  "('e, 's) env \<Rightarrow> string \<Rightarrow> 'q collection \<Rightarrow> 'e list \<Rightarrow> 's
    \<Rightarrow> (f32 list \<times> sparse_vector option) res \<times> 'q collection \<times> 'e list \<times> 's" where
  "embed_for_hybrid V query c E s =
     (case tryR (guard c) (\<lambda>_. text_embedder c) of
        Inl e \<Rightarrow> (Inl e, c, E, s)
      | Inr r \<Rightarrow>
          (case refit_if_dirty_step V c E s of
             (Inl e, c1, E1, s1) \<Rightarrow> (Inl e, c1, E1, s1)
           | (Inr _, c1, E1, s1) \<Rightarrow>
               (tryR (em_embed (ev_emb V) (E1 ! r) query) (\<lambda>dense. Inr (dense, sparse_from_dense dense)), c1, E1, s1)))"

definition search_text ::
  "('e, 's) env \<Rightarrow> string \<Rightarrow> nat \<Rightarrow> 'q collection \<Rightarrow> 'e list \<Rightarrow> 's \<Rightarrow> hit list res \<times> 'q collection \<times> 'e list \<times> 's" where
  "search_text V query limit c E s =
     (case tryR (guard c) (\<lambda>_. text_embedder c) of
        Inl e \<Rightarrow> (Inl e, c, E, s)
      | Inr r \<Rightarrow>
          (case refit_if_dirty_step V c E s of
             (Inl e, c1, E1, s1) \<Rightarrow> (Inl e, c1, E1, s1)
           | (Inr _, c1, E1, s1) \<Rightarrow>
               (case em_embed (ev_emb V) (E1 ! r) query of
                  Inl e \<Rightarrow> (Inl e, c1, E1, s1)
                | Inr v \<Rightarrow>
                    if 0 < limit \<and> (\<forall>x\<in>set v. f32_eq x 0) then (Inr [], c1, E1, s1)
                    else search V v limit c1 E1 s1)))"

text \<open>The queries of a batch are independent; here they run one after the other.\<close>

fun search_batch ::
  "('e, 's) env \<Rightarrow> f32 list list \<Rightarrow> nat \<Rightarrow> 'q collection \<Rightarrow> 'e list \<Rightarrow> 's
    \<Rightarrow> hit list res list \<times> 'q collection \<times> 'e list \<times> 's" where
  "search_batch V [] limit c E s = ([], c, E, s)"
| "search_batch V (q # qs) limit c E s =
     (case search V q limit c E s of
        (r, c1, E1, s1) \<Rightarrow> (case search_batch V qs limit c1 E1 s1 of (rs, c2, E2, s2) \<Rightarrow> (r # rs, c2, E2, s2)))"

subsection \<open>Documents are stored with their text\<close>

lemma obj_insert_lookup: "map_of (obj_insert k v es) = (map_of es)(k \<mapsto> v)"
  by (induction k v es rule: obj_insert.induct) auto

lemma text_points_facts:
  "text_points ops dim items e = (Inr ps, e') \<Longrightarrow>
     map (\<lambda>p. (pt_id p, pt_payload p)) ps = map (\<lambda>(key, text, user). (key, Some (text_payload text user))) items"
  by (induction ops dim items e arbitrary: ps e' rule: text_points.induct)
    (auto simp: Let_def split: option.splits sum.splits prod.splits)

lemma upsert_inner_contents:
  assumes "coll_inv c" and "length points \<le> room (cl_data c)"
    and u: "upsert_batch_step json_len M L ar points c s = (Inr (), c', s')"
  shows "\<exists>ps. mapR (prepare_inner json_len (cl_config c) ar) points = Inr ps
    \<and> coll_contents c' = coll_contents c ++ map_of (rev (map (\<lambda>p. (pp_id p, prepared_contents p)) ps))
    \<and> coll_inv c' \<and> cl_config c' = cl_config c"
proof -
  obtain ps where ps: "mapR (prepare_inner json_len (cl_config c) ar) points = Inr ps"
    and c': "c' = c\<lparr>cl_data := apply_prepared (co_dimension (cl_config c)) ps (cl_data c)\<rparr>"
    using upsert_inner_cases [OF u] by auto
  have "list_all (has_dimension (co_dimension (cl_config c))) ps \<and> length ps \<le> room (cl_data c)"
    using prepare_all_dimension [OF ps] assms(2) by simp
  moreover have "data_inv (co_dimension (cl_config c)) (cl_data c)" using assms(1) by (simp add: coll_inv_def)
  ultimately have k: "coll_contents c' = coll_contents c ++ map_of (rev (map (\<lambda>p. (pp_id p, prepared_contents p)) ps))"
    using apply_prepared_facts(2) [of "co_dimension (cl_config c)" "cl_data c" ps] by (simp add: coll_contents_def c')
  then show ?thesis using ps upsert_inner_inv [OF assms] by simp
qed

text \<open>The documents of a collection are its stored points that have a text, once each.\<close>

lemma documents_distinct:
  assumes "ids_ok (cl_data c)"
  shows "distinct (map fst (text_documents (cl_data c)))"
proof -
  let ?d = "cl_data c"
  have "distinct (map (\<lambda>s. cd_ids ?d ! s) (live_slots ?d))"
    using live_slots_inj [OF assms] by (simp add: distinct_map)
  moreover have "\<exists>P. map fst (List.map_filter (\<lambda>s. case cd_payloads ?d ! s of None \<Rightarrow> None
      | Some payload \<Rightarrow> map_option (\<lambda>text. (cd_ids ?d ! s, text, payload)) (stored_text (Some payload))) ss)
    = map (\<lambda>s. cd_ids ?d ! s) (List.filter P ss)" for ss
    by (rule exI [where x = "\<lambda>s. case cd_payloads ?d ! s of None \<Rightarrow> False | Some p \<Rightarrow> stored_text (Some p) \<noteq> None"],
        induction ss) (auto simp: map_filter_simps split: option.splits)
  ultimately show ?thesis unfolding text_documents_def by (metis distinct_map_filter)
qed

lemma documents_contents:
  assumes "ids_ok (cl_data c)"
  shows "(key, text, payload) \<in> set (text_documents (cl_data c))
    \<longleftrightarrow> (\<exists>x. coll_contents c key = Some x \<and> snd (snd x) = Some payload \<and> stored_text (Some payload) = Some text)"
proof -
  let ?d = "cl_data c"
  have "(key, text, payload) \<in> set (text_documents ?d) \<longleftrightarrow>
      (\<exists>s. s < length (cd_ids ?d) \<and> cd_ids ?d ! s = key \<and> map_of (cd_id_to_slot ?d) key = Some s
        \<and> cd_payloads ?d ! s = Some payload \<and> stored_text (Some payload) = Some text)"
    by (auto simp: text_documents_def map_filter_def live_slots_set live_slot_def split: option.splits)
      (force simp: live_slots_set live_slot_def)
  moreover have "s < length (cd_ids ?d) \<and> cd_ids ?d ! s = key" if "map_of (cd_id_to_slot ?d) key = Some s" for s
    using assms that by (auto simp: ids_ok_def dest: map_of_SomeD)
  ultimately show ?thesis
    by (auto simp: coll_contents_def contents_def slot_contents_def)
qed

text \<open>What a refit makes of a stored point: a document gets the vector and the lane of its text, anything else stays.\<close>

definition reembed :: "'e embedder_ops \<Rightarrow> 'e \<Rightarrow> collection_options \<Rightarrow> string \<Rightarrow> stored \<Rightarrow> stored res" where
  "reembed ops e opts key x =
     (case stored_text (snd (snd x)) of
        None \<Rightarrow> Inr x
      | Some text \<Rightarrow>
          tryR (embed_nonzero ops e text (co_dimension opts)) (\<lambda>v.
          tryR (prepare_vector opts \<lparr>pt_id = key, pt_vector = v, pt_sparse = sparse_from_dense v, pt_payload = snd (snd x)\<rparr>) (\<lambda>w.
            Inr (w, sparse_from_dense v, snd (snd x)))))"

definition reembedded :: "'e embedder_ops \<Rightarrow> 'e \<Rightarrow> 'q collection \<Rightarrow> 'q collection \<Rightarrow> bool" where
  "reembedded ops e c c' \<longleftrightarrow>
     (\<forall>key. case coll_contents c key of
        None \<Rightarrow> coll_contents c' key = None
      | Some x \<Rightarrow> \<exists>y. reembed ops e (cl_config c) key x = Inr y \<and> coll_contents c' key = Some y)"

lemma refit_prepared:
  assumes "refit_point ops e (co_dimension opts) (key, text, payload) = Inr p" and "prepare_inner json_len opts True p = Inr q"
  shows "pp_id q = key"
    and "snd (snd x) = Some payload \<Longrightarrow> stored_text (snd (snd x)) = Some text \<Longrightarrow> reembed ops e opts key x = Inr (prepared_contents q)"
  using assms
  by (auto simp: refit_point_def reembed_def prepare_inner_def tryR_eq_Inr prepared_contents_def split: if_split_asm)

lemma refit_points_stored:
  assumes i: "coll_inv c" and fits: "length (text_documents (cl_data c)) \<le> room (cl_data c)"
    and p: "mapR (refit_point ops e (co_dimension (cl_config c))) (text_documents (cl_data c)) = Inr points"
    and u: "upsert_batch_step json_len M L True points c s = (Inr (), c', s')"
  shows "reembedded ops e c c' \<and> coll_inv c' \<and> cl_config c' = cl_config c"
proof -
  let ?docs = "text_documents (cl_data c)" and ?o = "cl_config c"
  have "length points \<le> room (cl_data c)" using mapR_Inr_length [OF p] fits by simp
  note uc = upsert_inner_contents [OF i this u]
  then obtain ps where ps: "mapR (prepare_inner json_len ?o True) points = Inr ps"
    "coll_contents c' = coll_contents c ++ map_of (rev (map (\<lambda>p. (pp_id p, prepared_contents p)) ps))"
    and good: "coll_inv c'" "cl_config c' = cl_config c"
    by blast
  have ids: "ids_ok (cl_data c)" using i by (simp add: coll_inv_def data_inv_def)
  have same: "length points = length ?docs" "length ps = length points"
    using mapR_Inr_length [OF p] mapR_Inr_length [OF ps(1)] by simp_all
  have at: "pp_id (ps ! n) = fst (?docs ! n) \<and> (\<forall>x. snd (snd x) = Some (snd (snd (?docs ! n)))
      \<longrightarrow> stored_text (snd (snd x)) = Some (fst (snd (?docs ! n))) \<longrightarrow> reembed ops e ?o (fst (?docs ! n)) x = Inr (prepared_contents (ps ! n)))"
    if n: "n < length ?docs" for n
  proof -
    have r: "refit_point ops e (co_dimension ?o) (?docs ! n) = Inr (points ! n)"
      using list_all2_nthD2 [OF mapR_InrD [OF p], of n] n same by simp
    have q: "prepare_inner json_len ?o True (points ! n) = Inr (ps ! n)"
      using list_all2_nthD2 [OF mapR_InrD [OF ps(1)], of n] n same by simp
    show ?thesis
      using refit_prepared [OF _ q, of ops e "fst (?docs ! n)" "fst (snd (?docs ! n))" "snd (snd (?docs ! n))"] r by simp
  qed
  have keys: "map pp_id ps = map fst ?docs"
    using at same by (intro nth_equalityI) simp_all
  let ?new = "map_of (rev (map (\<lambda>p. (pp_id p, prepared_contents p)) ps))"
  have d: "distinct (map fst (rev (map (\<lambda>p. (pp_id p, prepared_contents p)) ps)))"
    using documents_distinct [OF ids] keys by (simp add: comp_def rev_map [symmetric])
  have dom: "dom ?new = fst ` set ?docs"
  proof -
    have "set (map pp_id ps) = set (map fst ?docs)" using keys by simp
    then show ?thesis by (simp add: dom_map_of_conv_image_fst image_image)
  qed
  have "case coll_contents c key of None \<Rightarrow> coll_contents c' key = None
      | Some x \<Rightarrow> \<exists>y. reembed ops e ?o key x = Inr y \<and> coll_contents c' key = Some y" for key
  proof (cases "key \<in> fst ` set ?docs")
    case True
    then obtain n where n: "n < length ?docs" "fst (?docs ! n) = key" by (auto simp: in_set_conv_nth)
    have "(pp_id (ps ! n), prepared_contents (ps ! n)) \<in> set (map (\<lambda>p. (pp_id p, prepared_contents p)) ps)"
      using n same by auto
    then have "?new key = Some (prepared_contents (ps ! n))"
      using d at [OF n(1)] n(2) by (intro map_of_is_SomeI) auto
    then have new: "coll_contents c' key = Some (prepared_contents (ps ! n))" using ps(2) by simp
    have "(key, fst (snd (?docs ! n)), snd (snd (?docs ! n))) \<in> set ?docs" using n by (metis nth_mem prod.collapse)
    then obtain x where x: "coll_contents c key = Some x" "snd (snd x) = Some (snd (snd (?docs ! n)))"
      "stored_text (snd (snd x)) = Some (fst (snd (?docs ! n)))"
      unfolding documents_contents [OF ids] by auto
    then have "reembed ops e ?o key x = Inr (prepared_contents (ps ! n))" using at [OF n(1)] n(2) by blast
    then show ?thesis using new x(1) by (simp del: split_paired_Ex)
  next
    case False
    then have k: "coll_contents c' key = coll_contents c key"
      using dom ps(2) by (simp add: map_add_dom_app_simps(3))
    have "stored_text (snd (snd x)) = None" if x: "coll_contents c key = Some x" for x
    proof (rule ccontr)
      assume "stored_text (snd (snd x)) \<noteq> None"
      then obtain t payload where "snd (snd x) = Some payload" "stored_text (Some payload) = Some t"
        by (cases "snd (snd x)") (auto simp: stored_text_def)
      then have "(key, t, payload) \<in> set ?docs" unfolding documents_contents [OF ids] using x by blast
      then show False using False by force
    qed
    then show ?thesis by (auto simp: k reembed_def split: option.splits)
  qed
  then show ?thesis using good unfolding reembedded_def by blast
qed

subsection \<open>A small text collection\<close>

definition unit_embedder :: "unit embedder_ops" where
  "unit_embedder = \<lparr>em_embed = (\<lambda>_ _. Inr [0x3F800000, 0]), em_add_document = (\<lambda>e _. e), em_fit = (\<lambda>e _. Inr e),
     em_export = (\<lambda>_. Inr []), em_import = (\<lambda>e _. Inr e)\<rparr>"

definition no_wal :: wal_codecs where
  "no_wal = \<lparr>wm_points = no_msgpack, wm_ids = no_msgpack, wm_create = no_msgpack, wm_rename = no_msgpack,
     wm_alias = no_msgpack, wm_pidx = no_msgpack\<rparr>"

definition text_env :: "(unit, unit) env" where
  "text_env = \<lparr>ev_json_len = (\<lambda>_. 0), ev_wal = no_wal, ev_emb = unit_embedder, ev_log = (\<lambda>_ _ _ s. (Inr (), s)),
     ev_ann = linear_ann, ev_build = (\<lambda>p _. Inl (UnsupportedProvider p available_providers)), ev_now = 0\<rparr>"

definition text_prepared :: prepared_point where
  "text_prepared = \<lparr>pp_id = ''a'', pp_vector = [0x3F800000, 0], pp_sparse = Some \<lparr>sv_indices = [0], sv_values = [0x3F800000]\<rparr>,
     pp_payload = Some (JObj [(''_text'', JStr ''cow'')])\<rparr>"

text \<open>The collection has been filled with a vector of its own for the document; the embedder knows another.\<close>

definition text_stale :: prepared_point where
  "text_stale = text_prepared\<lparr>pp_vector := [0, 0x3F800000], pp_sparse := Some \<lparr>sv_indices = [1], sv_values = [0x3F800000]\<rparr>\<rparr>"

definition text_coll :: "unit collection" where
  "text_coll = demo_coll\<lparr>cl_embedder := EmbReady 0, cl_data := apply_prepared 2 [text_stale] (cl_data demo_coll)\<rparr>"

definition text_point :: point where
  "text_point = \<lparr>pt_id = ''a'', pt_vector = [0x3F800000, 0], pt_sparse = Some \<lparr>sv_indices = [0], sv_values = [0x3F800000]\<rparr>,
     pt_payload = Some (JObj [(''_text'', JStr ''cow'')])\<rparr>"

lemma text_prepare: "mapR (prepare_inner (\<lambda>_. 0) (options_new 2 DotProduct) True) [text_point] = Inr [text_prepared]"
  by (simp add: prepare_inner_def validate_id_def text_prepared_def options_new_def MAX_ID_BYTES_def
      f32_is_finite_def check_payload_def check_sparse_def prepare_vector_def sparse_validate_def text_point_def)

lemma text_coll_inv: "coll_inv text_coll" "cl_config text_coll = options_new 2 DotProduct" "room (cl_data text_coll) = 2 ^ 64 - 1"
proof -
  have "data_inv 2 (cl_data demo_coll)" using demo_inv(1) by (simp add: coll_inv_def demo_coll_def options_new_def)
  then show "coll_inv text_coll" "room (cl_data text_coll) = 2 ^ 64 - 1"
    using demo_inv apply_prepared_facts [of 2 "cl_data demo_coll" "[text_stale]"]
    by (simp_all add: text_coll_def coll_inv_def text_stale_def text_prepared_def) (simp add: demo_coll_def options_new_def)
qed (simp add: text_coll_def demo_coll_def)

lemma text_coll_documents: "text_documents (cl_data text_coll) = [(''a'', ''cow'', JObj [(''_text'', JStr ''cow'')])]"
  by (simp add: text_documents_def text_coll_def apply_prepared_def apply_upsert_def append_point_def Let_def demo_coll_def
      data_empty_def text_stale_def text_prepared_def live_slots_def live_slot_def base_count_def map_filter_simps stored_text_def
      payload_lookup_def)

lemma text_upsert:
  "upsert_batch_step (\<lambda>_. 0) M L True [text_point] text_coll s
     = (Inr (), text_coll\<lparr>cl_data := apply_prepared 2 [text_prepared] (cl_data text_coll)\<rparr>, s)"
  using text_prepare
  by (simp add: upsert_batch_step_def text_coll_def demo_coll_def guard_def encode_wal_def coll_log_def del: mapR.simps)
    (simp add: options_new_def)

end
