(* ===== verification/Iddir.thy ===== *)
theory Iddir
  imports Item_Codecs
begin

section \<open>The id directory (\<open>storage/iddir.rs\<close>)\<close>

text \<open>
  A hash-bucketed \<open>id \<rightarrow> slot\<close> directory. \<open>xxh\<close> stands for \<open>xxh64(_, 0)\<close> of a package outside the
  repository; nothing is assumed of it. The locale \<open>id_map\<close> is the interface the loader relies on:
  inserting fresh ids builds a map. A bucket count is a \<open>Vec\<close> length, so it is below \<open>2 ^ 64\<close> and the
  bucket index is the hash modulo it.
\<close>

record iddir =
  buckets :: "(string \<times> u64) list list"

definition iddir_new :: "nat \<Rightarrow> iddir" where
  "iddir_new bucket_count = \<lparr>buckets = replicate (max bucket_count 1) []\<rparr>"

definition bucket_of :: "(bytes \<Rightarrow> u64) \<Rightarrow> iddir \<Rightarrow> string \<Rightarrow> nat" where
  "bucket_of xxh d key = unat (xxh (bytes_of key)) mod length (buckets d)"

definition iddir_insert :: "(bytes \<Rightarrow> u64) \<Rightarrow> string \<Rightarrow> u64 \<Rightarrow> iddir \<Rightarrow> iddir" where
  "iddir_insert xxh key slot d =
     (let b = bucket_of xxh d key in d\<lparr>buckets := (buckets d)[b := buckets d ! b @ [(key, slot)]]\<rparr>)"

definition iddir_get :: "(bytes \<Rightarrow> u64) \<Rightarrow> iddir \<Rightarrow> string \<Rightarrow> u64 option" where
  "iddir_get xxh d key = map_option snd (find (\<lambda>(k, _). k = key) (buckets d ! bucket_of xxh d key))"

definition iddir_len :: "iddir \<Rightarrow> nat" where
  "iddir_len d = sum_list (map length (buckets d))"

definition iddir_entries :: "iddir \<Rightarrow> (string \<times> u64) list" where
  "iddir_entries d = concat (buckets d)"

definition iddir_entry_bytes :: "string \<times> u64 \<Rightarrow> bytes" where
  "iddir_entry_bytes e = to_le 2 (word_of_nat (length (fst e)) :: u16) @ bytes_of (fst e) @ to_le 8 (snd e)"

definition iddir_encode :: "iddir \<Rightarrow> bytes" where
  "iddir_encode d =
     to_le 4 (word_of_nat (length (buckets d)) :: u32)
     @ concat (map (\<lambda>bucket. to_le 4 (word_of_nat (length bucket) :: u32)
                    @ concat (map iddir_entry_bytes bucket)) (buckets d))"

definition iddir_dec_entry :: "bytes \<Rightarrow> nat \<Rightarrow> ((string \<times> u64) \<times> nat) res" where
  "iddir_dec_entry b at =
     tryR (le_u16 b at ''iddir'') (\<lambda>id_len.
       let at = at + 2; e = at + unat id_len
       in if length b < e then Inl (Corrupt ''iddir: id past end'')
          else tryR (string_from_utf8 (slice_of b at e) (Corrupt ''iddir: id not utf-8'')) (\<lambda>key.
               tryR (le_u64 b e ''iddir'') (\<lambda>slot. Inr ((key, slot), e + 8))))"

definition iddir_decode :: "bytes \<Rightarrow> iddir res" where
  "iddir_decode b =
     tryR (le_u32 b 0 ''iddir'') (\<lambda>bucket_count.
       if bucket_count = 0 then Inl (Corrupt ''iddir: zero buckets'')
       else tryR (dec_many (dec_counted ''iddir'' iddir_dec_entry) (unat bucket_count) b 4)
              (\<lambda>(bs, at). Inr \<lparr>buckets = bs\<rparr>))"

subsection \<open>The directory is a map\<close>

definition iddir_inv :: "(bytes \<Rightarrow> u64) \<Rightarrow> iddir \<Rightarrow> bool" where
  "iddir_inv xxh d \<longleftrightarrow> buckets d \<noteq> []
     \<and> (\<forall>i < length (buckets d). \<forall>(key, s) \<in> set (buckets d ! i). bucket_of xxh d key = i)"

lemma bucket_of_less: "buckets d \<noteq> [] \<Longrightarrow> bucket_of xxh d key < length (buckets d)"
  by (simp add: bucket_of_def)

lemma find_map_of: "map_option snd (find (\<lambda>(k, _). k = key) xs) = map_of xs key"
  by (induction xs) (auto split: if_splits)

lemma iddir_get_map_of: "iddir_get xxh d key = map_of (buckets d ! bucket_of xxh d key) key"
  by (simp add: iddir_get_def find_map_of)

lemma bucket_of_insert [simp]: "bucket_of xxh (iddir_insert xxh key s d) key' = bucket_of xxh d key'"
  by (simp add: bucket_of_def iddir_insert_def Let_def)

locale id_map =
  fixes empty :: 'd
    and ins :: "string \<Rightarrow> u64 \<Rightarrow> 'd \<Rightarrow> 'd"
    and get :: "'d \<Rightarrow> string \<Rightarrow> u64 option"
    and inv :: "'d \<Rightarrow> bool"
  assumes inv_empty: "inv empty"
    and inv_ins: "inv d \<Longrightarrow> inv (ins key s d)"
    and get_empty: "get empty key = None"
    and get_ins: "inv d \<Longrightarrow> get d key = None \<Longrightarrow> get (ins key s d) key' = (if key' = key then Some s else get d key')"
begin

lemma fold_ins:
  "inv d \<Longrightarrow> distinct (map fst es) \<Longrightarrow> (\<forall>e\<in>set es. get d (fst e) = None) \<Longrightarrow>
     inv (fold (\<lambda>(key, s). ins key s) es d) \<and>
     (\<forall>key. get (fold (\<lambda>(key, s). ins key s) es d) key = (case map_of es key of None \<Rightarrow> get d key | Some s \<Rightarrow> Some s))"
proof (induction es arbitrary: d)
  case Nil
  then show ?case by simp
next
  case (Cons e es)
  obtain i s where e: "e = (i, s)" by (cases e)
  have i: "inv (ins i s d)" using Cons.prems(1) by (rule inv_ins)
  have g: "get (ins i s d) key' = (if key' = i then Some s else get d key')" for key'
    by (rule get_ins) (use Cons.prems e in auto)
  have "\<forall>e\<in>set es. get (ins i s d) (fst e) = None"
    using Cons.prems e g by (auto simp: image_iff)
  moreover have "distinct (map fst es)" using Cons.prems(2) by simp
  ultimately have IH: "inv (fold (\<lambda>(key, s). ins key s) es (ins i s d))"
    "\<And>key. get (fold (\<lambda>(key, s). ins key s) es (ins i s d)) key =
       (case map_of es key of None \<Rightarrow> get (ins i s d) key | Some s \<Rightarrow> Some s)"
    using Cons.IH [OF i] by blast+
  have "map_of es i = None"
    using Cons.prems(2) e by (simp add: map_of_eq_None_iff)
  with IH show ?case by (auto simp: e g split: option.splits)
qed

lemma build: "distinct (map fst es) \<Longrightarrow> get (fold (\<lambda>(key, s). ins key s) es empty) key = map_of es key"
  using fold_ins [OF inv_empty, of es] by (auto simp: get_empty split: option.splits)

end

lemma iddir_inv_insert: "iddir_inv xxh d \<Longrightarrow> iddir_inv xxh (iddir_insert xxh key s d)"
proof -
  assume inv: "iddir_inv xxh d"
  then have lt: "bucket_of xxh d key < length (buckets d)"
    by (simp add: iddir_inv_def bucket_of_less)
  from inv lt show ?thesis
    by (auto simp: iddir_inv_def nth_list_update iddir_insert_def Let_def bucket_of_def split: if_splits)
qed

lemma iddir_get_insert:
  assumes inv: "iddir_inv xxh d" and fresh: "iddir_get xxh d key = None"
  shows "iddir_get xxh (iddir_insert xxh key s d) key' = (if key' = key then Some s else iddir_get xxh d key')"
proof -
  have lt: "bucket_of xxh d i < length (buckets d)" for i
    using inv by (simp add: iddir_inv_def bucket_of_less)
  have b: "buckets (iddir_insert xxh key s d) ! bucket_of xxh d i =
      (if bucket_of xxh d i = bucket_of xxh d key then buckets d ! bucket_of xxh d key @ [(key, s)]
       else buckets d ! bucket_of xxh d i)" for i
    using lt by (simp add: iddir_insert_def Let_def)
  from fresh show ?thesis
    by (auto simp: iddir_get_map_of b map_add_def map_of_append split: option.splits)
qed

interpretation iddir: id_map "iddir_new n" "iddir_insert xxh" "iddir_get xxh" "iddir_inv xxh"
  for n :: nat and xxh :: "bytes \<Rightarrow> u64"
proof
  show "iddir_inv xxh (iddir_new n)"
    by (auto simp: iddir_inv_def iddir_new_def)
  show "iddir_get xxh (iddir_new n) key = None" for key
    by (simp add: iddir_get_map_of iddir_new_def bucket_of_def)
qed (simp_all add: iddir_inv_insert iddir_get_insert)

lemma iddir_entries_insert_length: "buckets d \<noteq> [] \<Longrightarrow> iddir_len (iddir_insert xxh key s d) = Suc (iddir_len d)"
  using bucket_of_less [of d xxh key]
  by (simp add: iddir_len_def iddir_insert_def Let_def map_update sum_list_update elem_le_sum_list)

subsection \<open>Encoding\<close>

definition iddir_entry_ok :: "string \<times> u64 \<Rightarrow> bool" where
  "iddir_entry_ok e \<longleftrightarrow> length (fst e) < 2 ^ 16 \<and> str_ok (fst e)"

definition iddir_ok :: "iddir \<Rightarrow> bool" where
  "iddir_ok d \<longleftrightarrow> buckets d \<noteq> [] \<and> length (buckets d) < 2 ^ 32
     \<and> list_all (\<lambda>b. length b < 2 ^ 32 \<and> list_all iddir_entry_ok b) (buckets d)"

lemma iddir_dec_entry_bytes:
  assumes "iddir_entry_ok e" and d: "drop at b = iddir_entry_bytes e @ rest"
  shows "iddir_dec_entry b at = Inr (e, at + length (iddir_entry_bytes e))"
proof -
  obtain key s where e: "e = (key, s)" by (cases e)
  have ok: "length key < 2 ^ 16" "str_ok key" using assms(1) by (simp_all add: e iddir_entry_ok_def)
  have d0: "drop at b = to_le 2 (word_of_nat (length key) :: u16) @ bytes_of key @ to_le 8 s @ rest"
    using d by (simp add: e iddir_entry_bytes_def)
  have d2: "drop (at + 2) b = bytes_of key @ to_le 8 s @ rest"
    using drop_add_append [OF d0] by simp
  have d3: "drop (at + 2 + length key) b = to_le 8 s @ rest"
    using drop_add_append [OF d2] by simp
  have "length (drop (at + 2 + length key) b) = 8 + length rest" by (simp add: d3)
  then have le: "at + 2 + length key \<le> length b" by simp
  have r: "le_u16 b at ''iddir'' = Inr (word_of_nat (length key))"
    by (rule u16f.rd_drop [OF d0]) simp
  have r2: "le_u64 b (at + 2 + length key) ''iddir'' = Inr s"
    by (rule u64f.rd_drop [OF d3]) simp
  have sl: "slice_of b (at + 2) (at + 2 + length key) = bytes_of key"
    by (simp add: slice_of_def d2)
  show ?thesis
    using le by (simp add: iddir_dec_entry_def r unat_u16 [OF ok(1)] Let_def sl string_from_utf8_bytes_of [OF ok(2)]
        r2 e iddir_entry_bytes_def)
qed

interpretation iddir_entry: counted_codec "\<lambda>e. Inr (iddir_entry_bytes e)" iddir_dec_entry iddir_entry_ok
  "''iddir''" u32_cast
proof
  fix x b at bs rest
  show "iddir_entry_ok x \<Longrightarrow> Inr (iddir_entry_bytes x) = Inr bs \<Longrightarrow> drop at b = bs @ rest
      \<Longrightarrow> iddir_dec_entry b at = Inr (x, at + length bs)"
    using iddir_dec_entry_bytes by auto
  show "only_corrupt (iddir_dec_entry b at)"
    by (auto simp: iddir_dec_entry_def Let_def string_from_utf8_def intro!: only_corrupt_tryR)
qed (rule u32_cast_law)

lemma mapR_Inr [simp]: "mapR (\<lambda>x. Inr (f x)) xs = Inr (map f xs)"
  by (induction xs) simp_all

lemma iddir_decode_encode [codec_simps]:
  assumes "iddir_ok d"
  shows "iddir_decode (iddir_encode d @ rest) = Inr d"
proof -
  let ?enc = "enc_counted u32_cast (\<lambda>e. Inr (iddir_entry_bytes e))"
  let ?n = "word_of_nat (length (buckets d)) :: u32"
  let ?b = "iddir_encode d @ rest"
  have f: "?enc = (\<lambda>bk. Inr (to_le 4 (word_of_nat (length bk) :: u32) @ concat (map iddir_entry_bytes bk)))"
    by (simp add: fun_eq_iff enc_counted_def u32_cast_def)
  have d0: "drop 0 ?b = to_le 4 ?n @ concat (map (\<lambda>bk. to_le 4 (word_of_nat (length bk) :: u32)
      @ concat (map iddir_entry_bytes bk)) (buckets d)) @ rest"
    by (simp add: iddir_encode_def)
  have r: "le_u32 ?b 0 ''iddir'' = Inr ?n"
    by (rule u32f.rd_drop [OF d0]) simp
  have n: "unat ?n = length (buckets d)"
    using assms by (intro unat_u32) (simp add: iddir_ok_def)
  moreover have "0 < length (buckets d)" using assms by (simp add: iddir_ok_def)
  ultimately have "?n \<noteq> 0" by (metis less_numeral_extra(3) unat_0)
  moreover have "dec_many (dec_counted ''iddir'' iddir_dec_entry) (length (buckets d)) ?b 4 =
      Inr (buckets d, 4 + length (concat (map (\<lambda>bk. to_le 4 (word_of_nat (length bk) :: u32)
      @ concat (map iddir_entry_bytes bk)) (buckets d))))"
    using assms drop_add_append [OF d0]
    by (intro iddir_entry.listed.many_enc) (simp_all add: iddir_ok_def f)
  ultimately show ?thesis
    by (simp add: iddir_decode_def r n)
qed

lemma iddir_decode_corrupt: "only_corrupt (iddir_decode b)"
  unfolding iddir_decode_def
  by (auto intro!: only_corrupt_tryR iddir_entry.listed.many_corrupt)

subsection \<open>Properties\<close>

lemma iddir_len_bucket: "i < length (buckets d) \<Longrightarrow> length (buckets d ! i) \<le> iddir_len d"
  by (simp add: iddir_len_def) (metis elem_le_sum_list length_map nth_map)

lemma iddir_insert_entries:
  assumes "buckets d \<noteq> []"
  shows "buckets (iddir_insert xxh k s d) \<noteq> [] \<and> length (buckets (iddir_insert xxh k s d)) = length (buckets d)
    \<and> iddir_len (iddir_insert xxh k s d) = Suc (iddir_len d)
    \<and> (list_all (list_all P) (buckets d) \<longrightarrow> P (k, s) \<longrightarrow> list_all (list_all P) (buckets (iddir_insert xxh k s d)))"
proof -
  have "list_all (list_all P) (buckets (iddir_insert xxh k s d))"
    if "list_all (list_all P) (buckets d)" "P (k, s)"
    using that bucket_of_less [OF assms, of xxh k]
    by (auto simp: iddir_insert_def Let_def list_all_iff dest!: set_update_subset_insert [THEN subsetD] nth_mem)
  with assms iddir_entries_insert_length [OF assms] show ?thesis
    by (auto simp: iddir_insert_def Let_def)
qed

lemma iddir_fold_ok:
  assumes "list_all iddir_entry_ok es" and "length es < 2 ^ 32" and "n < 2 ^ 32"
  shows "iddir_ok (fold (\<lambda>(k, s). iddir_insert xxh k s) es (iddir_new n))"
proof -
  have "buckets d \<noteq> [] \<Longrightarrow> list_all (list_all iddir_entry_ok) (buckets d) \<Longrightarrow>
      (let d' = fold (\<lambda>(k, s). iddir_insert xxh k s) es d
       in buckets d' \<noteq> [] \<and> length (buckets d') = length (buckets d) \<and> iddir_len d' = iddir_len d + length es
          \<and> list_all (list_all iddir_entry_ok) (buckets d'))" for d
    using assms(1)
  proof (induction es arbitrary: d)
    case (Cons e es)
    obtain k s where e: "e = (k, s)" by (cases e)
    note i = iddir_insert_entries [OF Cons.prems(1), of xxh k s iddir_entry_ok]
    show ?case
      using Cons.IH [of "iddir_insert xxh k s d"] i Cons.prems by (simp add: e Let_def)
  qed simp
  moreover have "buckets (iddir_new n) \<noteq> []" "list_all (list_all iddir_entry_ok) (buckets (iddir_new n))"
    "length (buckets (iddir_new n)) = max n 1" "iddir_len (iddir_new n) = 0"
    by (simp_all add: iddir_new_def list_all_iff iddir_len_def sum_list_replicate)
  ultimately have
    d: "buckets (fold (\<lambda>(k, s). iddir_insert xxh k s) es (iddir_new n)) \<noteq> []"
    "length (buckets (fold (\<lambda>(k, s). iddir_insert xxh k s) es (iddir_new n))) = max n 1"
    "iddir_len (fold (\<lambda>(k, s). iddir_insert xxh k s) es (iddir_new n)) = length es"
    "list_all (list_all iddir_entry_ok) (buckets (fold (\<lambda>(k, s). iddir_insert xxh k s) es (iddir_new n)))"
    unfolding Let_def by (metis add_0)+
  then show ?thesis
    using assms(2,3) iddir_len_bucket [of _ "fold (\<lambda>(k, s). iddir_insert xxh k s) es (iddir_new n)"]
    by (fastforce simp: iddir_ok_def list_all_iff in_set_conv_nth)
qed

text \<open>
  C5. The id directory is a map that survives storage: inserting distinct ids one by one, encoding the directory
  and decoding the bytes gives a directory whose lookup is exactly the inserted association, for every hash
  function and bucket count; ids not inserted are absent.
\<close>

theorem iddir_stored_map:
  assumes "distinct (map fst es)" and "list_all iddir_entry_ok es" and "length es < 2 ^ 32" and "n < 2 ^ 32"
  shows "\<exists>d. iddir_decode (iddir_encode (fold (\<lambda>(k, s). iddir_insert xxh k s) es (iddir_new n)) @ rest) = Inr d
    \<and> (\<forall>k. iddir_get xxh d k = map_of es k)"
  using iddir_decode_encode [OF iddir_fold_ok [OF assms(2-4)]] iddir.build [OF assms(1)] by blast

theorem iddir_stored_map_witness:
  "\<exists>d. iddir_decode (iddir_encode (iddir_insert (\<lambda>_. 7) ''b'' 1 (iddir_insert (\<lambda>_. 7) ''a'' 0 (iddir_new 4)))) = Inr d
     \<and> iddir_get (\<lambda>_. 7) d ''b'' = Some 1 \<and> iddir_get (\<lambda>_. 7) d ''c'' = None"
proof -
  have "str_ok ''a''" "str_ok ''b''" by code_simp+
  then have "\<exists>d. iddir_decode (iddir_encode (fold (\<lambda>(k, s). iddir_insert (\<lambda>_. 7) k s) [(''a'', 0), (''b'', 1)]
      (iddir_new 4)) @ []) = Inr d \<and> (\<forall>k. iddir_get (\<lambda>_. 7) d k = map_of [(''a'', 0), (''b'', 1)] k)"
    by (intro iddir_stored_map) (simp_all add: iddir_entry_ok_def)
  then show ?thesis by auto
qed

end
