(* ===== verification/Seal.thy ===== *)
theory Seal
  imports Maintenance Iddir Image
begin

section \<open>Sealing and loading a collection (\<open>persist/seal.rs\<close>)\<close>

text \<open>
  A checkpoint turns the live points of a collection into segments: CONFIG, VECTORS, IDDIR, PAYLOAD, one PIDX for each
  declared index, SPARSE, VOCAB. Loading dispatches on the segment type and rebuilds options and points. A live point is
  a \<open>point\<close>; \<open>BTreeMap\<close> is an association list kept in key order; \<open>vec![None; n]\<close> updated by index is a list.
  \<open>M\<close> and \<open>C\<close> are the MessagePack package at payloads and at the stored configuration, \<open>R\<close> the bitmap package and
  \<open>xxh\<close> the hash of the id directory.
\<close>

subsection \<open>The sparse lane\<close>

fun push_term :: "u32 \<Rightarrow> 'a \<Rightarrow> (u32 \<times> 'a list) list \<Rightarrow> (u32 \<times> 'a list) list" where
  "push_term t x [] = [(t, [x])]"
| "push_term t x ((u, xs) # r) =
     (if t = u then (u, xs @ [x]) # r else if t < u then (t, [x]) # (u, xs) # r else (u, xs) # push_term t x r)"

definition slot_terms :: "nat \<times> point \<Rightarrow> (u32 \<times> u64 \<times> f32) list" where
  "slot_terms e =
     (case pt_sparse (snd e) of
        None \<Rightarrow> []
      | Some sv \<Rightarrow> map (\<lambda>(idx, val). (idx, word_of_nat (fst e), val)) (zip (sv_indices sv) (sv_values sv)))"

definition sparse_to_postings :: "point list \<Rightarrow> sparse_terms" where
  "sparse_to_postings live =
     fold (\<lambda>(t, x). push_term t x) (concat (map slot_terms (enumerate 0 live))) []"

definition push_weight :: "nat \<Rightarrow> u32 \<Rightarrow> u64 \<times> f32 \<Rightarrow> sparse_vector option list \<Rightarrow> sparse_vector option list" where
  "push_weight n t p acc =
     (let s = unat (fst p)
      in if s < n then
           let e = (case acc ! s of None \<Rightarrow> \<lparr>sv_indices = [], sv_values = []\<rparr> | Some e \<Rightarrow> e)
           in acc[s := Some \<lparr>sv_indices = sv_indices e @ [t], sv_values = sv_values e @ [snd p]\<rparr>]
         else acc)"

definition postings_to_sparse :: "sparse_terms \<Rightarrow> nat \<Rightarrow> sparse_vector option list" where
  "postings_to_sparse ts n =
     fold (\<lambda>(t, ps). fold (push_weight n t) ps) ts (replicate n None)"

subsection \<open>Sealing\<close>

record loaded_base =
  lb_regions :: "vectors_region list"
  lb_slot_count :: nat
  lb_ids :: "string option list"
  lb_payloads :: "json option list"
  lb_sparses :: "sparse_vector option list"
  lb_seg_refs :: "seg_ref list"
  lb_vector_count :: u64
  lb_tombstone_count :: u64
  lb_indexed :: bool

record loaded_collection =
  ld_options :: collection_options
  ld_points :: "point list"
  ld_base :: "loaded_base option"
  ld_vocab :: "bytes option"
  ld_committed :: "(seg_ref list \<times> u64 \<times> u64) option"

text \<open>\<open>n.next_power_of_two().max(8)\<close>.\<close>

function pow2_above :: "nat \<Rightarrow> nat \<Rightarrow> nat" where
  "pow2_above p n = (if n \<le> p \<or> p = 0 then p else pow2_above (2 * p) n)"
  by pat_completeness auto
termination by (relation "measure (\<lambda>(p, n). n - p)") auto

declare pow2_above.simps [simp del]

definition bucket_count :: "nat \<Rightarrow> nat" where
  "bucket_count n = max (pow2_above 1 n) 8"

fun posting_value_bytes :: "posting_value \<Rightarrow> bytes" where
  "posting_value_bytes (PKeyword s) = bytes_of s"
| "posting_value_bytes (PInteger i) = to_le 8 i"
| "posting_value_bytes (PFloat f) = to_le 8 f"

definition seal_vectors :: "collection_options \<Rightarrow> point list \<Rightarrow> vectors_body res" where
  "seal_vectors opts live =
     (if 2 ^ 32 \<le> co_dimension opts then Inl (Corrupt ''seal: dimension exceeds u32'')
      else Inr \<lparr>vb_encoding = EncF32, vb_dimension = word_of_nat (co_dimension opts), vb_first_slot = 0,
                vb_count = word_of_nat (length live), vb_sq_params = None,
                vb_records = concat (map (\<lambda>p. concat (map (to_le 4) (pt_vector p))) live)\<rparr>)"

definition seal_iddir :: "(bytes \<Rightarrow> u64) \<Rightarrow> point list \<Rightarrow> iddir" where
  "seal_iddir xxh live =
     fold (\<lambda>(slot, p). iddir_insert xxh (pt_id p) (word_of_nat slot)) (enumerate 0 live)
       (iddir_new (bucket_count (length live)))"

definition payload_entries :: "point list \<Rightarrow> (u64 \<times> json) list" where
  "payload_entries live =
     List.map_filter (\<lambda>(slot, p). map_option (\<lambda>v. (word_of_nat slot, v)) (pt_payload p)) (enumerate 0 live)"

definition seal_indexes :: "(string \<times> payload_index_kind) list \<Rightarrow> point list \<Rightarrow> payload_indexes" where
  "seal_indexes declared live =
     fold (\<lambda>(slot, p) ix. indexes_insert ix (word_of_nat slot) (pt_payload p)) (enumerate 0 live)
       (indexes_new declared)"

definition seal_pidx :: "roaring \<Rightarrow> payload_indexes \<Rightarrow> string \<times> payload_index_kind \<Rightarrow> bytes res" where
  "seal_pidx R ix d =
     pidx_encode R \<lparr>px_kind = pidx_kind_byte (snd d), px_key = fst d,
       px_postings = map (\<lambda>(value, slots). (posting_value_bytes value, set slots))
                       (case postings ix (fst d) of None \<Rightarrow> [] | Some ps \<Rightarrow> ps)\<rparr>"

definition seg_of :: "u32 \<Rightarrow> segment_type \<Rightarrow> bytes \<Rightarrow> segment" where
  "seg_of coll_id t body = \<lparr>sg_type = t, sg_flags = 0, sg_coll = coll_id, sg_body = body\<rparr>"

definition seal ::
  "json msgpack \<Rightarrow> stored_config msgpack \<Rightarrow> roaring \<Rightarrow> (bytes \<Rightarrow> u64) \<Rightarrow> u32 \<Rightarrow> string \<Rightarrow> string list
    \<Rightarrow> collection_options \<Rightarrow> (string \<times> payload_index_kind) list \<Rightarrow> bytes option \<Rightarrow> point list \<Rightarrow> u64
    \<Rightarrow> checkpoint_coll res" where
  "seal M C R xxh coll_id name aliases opts declared vocab live created =
     tryR (stored_config_encode C (to_stored opts created)) (\<lambda>config.
     tryR (seal_vectors opts live) (\<lambda>vectors.
     tryR (if payload_entries live = [] then Inr []
           else tryR (payload_encode M (payload_entries live)) (\<lambda>b. Inr [seg_of coll_id SegPayload b])) (\<lambda>payload.
     tryR (mapR (seal_pidx R (seal_indexes declared live)) declared) (\<lambda>pidx.
     tryR (if sparse_to_postings live = [] then Inr []
           else tryR (sparse_encode (sparse_to_postings live)) (\<lambda>b. Inr [seg_of coll_id SegSparse b])) (\<lambda>sparse.
       Inr \<lparr>cc_coll_id = coll_id, cc_name = name, cc_aliases = aliases, cc_vector_count = word_of_nat (length live),
            cc_tombstone_count = 0,
            cc_segments =
              [seg_of coll_id SegConfig config, seg_of coll_id SegVectors (vectors_encode vectors),
               seg_of coll_id SegIddir (iddir_encode (seal_iddir xxh live))]
              @ payload @ map (seg_of coll_id SegPidx) pidx @ sparse
              @ (case vocab of
                   None \<Rightarrow> []
                 | Some state \<Rightarrow> if state = [] then [] else [seg_of coll_id SegVocab (encode_vocab state)]),
            cc_reused = None\<rparr>)))))"

subsection \<open>Loading\<close>

record load_state =
  ls_stored :: "stored_config option"
  ls_vectors :: "vectors_body option"
  ls_iddir :: "iddir option"
  ls_payload :: "(u64 \<times> json) list"
  ls_declared :: "(string \<times> payload_index_kind) list"
  ls_vocab :: "bytes option"
  ls_sparse :: "sparse_terms option"

definition load_state_empty :: load_state where
  "load_state_empty = \<lparr>ls_stored = None, ls_vectors = None, ls_iddir = None, ls_payload = [], ls_declared = [],
     ls_vocab = None, ls_sparse = None\<rparr>"

definition load_segment ::
  "json msgpack \<Rightarrow> stored_config msgpack \<Rightarrow> roaring \<Rightarrow> load_state \<Rightarrow> segment \<Rightarrow> load_state res" where
  "load_segment M C R st seg =
     (case sg_type seg of
        SegConfig \<Rightarrow> tryR (stored_config_decode C (sg_body seg)) (\<lambda>c. Inr (st\<lparr>ls_stored := Some c\<rparr>))
      | SegVocab \<Rightarrow> Inr (st\<lparr>ls_vocab := Some (decode_vocab (sg_body seg))\<rparr>)
      | SegVectors \<Rightarrow> tryR (vectors_decode (sg_body seg)) (\<lambda>v. Inr (st\<lparr>ls_vectors := Some v\<rparr>))
      | SegIddir \<Rightarrow> tryR (iddir_decode (sg_body seg)) (\<lambda>d. Inr (st\<lparr>ls_iddir := Some d\<rparr>))
      | SegPayload \<Rightarrow> tryR (payload_decode M (sg_body seg)) (\<lambda>es. Inr (st\<lparr>ls_payload := es\<rparr>))
      | SegSparse \<Rightarrow> tryR (sparse_decode (sg_body seg)) (\<lambda>ts. Inr (st\<lparr>ls_sparse := Some ts\<rparr>))
      | SegPidx \<Rightarrow>
          tryR (pidx_decode R (sg_body seg)) (\<lambda>p. tryR (pidx_kind_from (px_kind p)) (\<lambda>k.
            Inr (st\<lparr>ls_declared := ls_declared st @ [(px_key p, k)]\<rparr>)))
      | _ \<Rightarrow> Inr st)"

definition place_id :: "string option list \<Rightarrow> string \<times> u64 \<Rightarrow> string option list res" where
  "place_id ids e =
     (if unat (snd e) < length ids then Inr (ids[unat (snd e) := Some (fst e)])
      else Inl (Corrupt ''load: IDDIR slot out of range''))"

definition place_payloads :: "nat \<Rightarrow> (u64 \<times> json) list \<Rightarrow> json option list" where
  "place_payloads n es =
     fold (\<lambda>(slot, v) ps. if unat slot < n then ps[unat slot := Some v] else ps) es (replicate n None)"

definition place_sparses :: "nat \<Rightarrow> sparse_terms option \<Rightarrow> sparse_vector option list" where
  "place_sparses n ts = (case ts of None \<Rightarrow> replicate n None | Some ts \<Rightarrow> postings_to_sparse ts n)"

definition loaded_options :: "load_state \<Rightarrow> stored_config \<Rightarrow> collection_options res" where
  "loaded_options st stored =
     tryR (from_stored stored) (\<lambda>o'. Inr (o'\<lparr>co_payload_indexes := ls_declared st\<rparr>))"

definition load_point ::
  "vectors_body \<Rightarrow> string option list \<Rightarrow> json option list \<Rightarrow> sparse_vector option list \<Rightarrow> nat \<Rightarrow> point res" where
  "load_point vectors ids payloads sparses slot =
     tryR (ok_or (ids ! slot) (Corrupt (''load: slot '' @ show_nat slot @ '' has no id''))) (\<lambda>key.
     tryR (ok_or (vectors_record vectors (word_of_nat slot)) (Corrupt (''load: slot '' @ show_nat slot @ '' has no vector'')))
       (\<lambda>bs. Inr \<lparr>pt_id = key, pt_vector = f32_chunks bs, pt_sparse = sparses ! slot, pt_payload = payloads ! slot\<rparr>))"

definition load ::
  "json msgpack \<Rightarrow> stored_config msgpack \<Rightarrow> roaring \<Rightarrow> segment list \<Rightarrow> loaded_collection res" where
  "load M C R segments =
     tryR (foldR (load_segment M C R) load_state_empty segments) (\<lambda>st.
     tryR (ok_or (ls_stored st) (Corrupt ''load: missing CONFIG'')) (\<lambda>stored.
     tryR (ok_or (ls_vectors st) (Corrupt ''load: missing VECTORS'')) (\<lambda>vectors.
     tryR (ok_or (ls_iddir st) (Corrupt ''load: missing IDDIR'')) (\<lambda>dir.
     tryR (loaded_options st stored) (\<lambda>opts.
     let n = unat (vb_count vectors)
     in tryR (foldR place_id (replicate n None) (iddir_entries dir)) (\<lambda>ids.
        tryR (mapR (load_point vectors ids (place_payloads n (ls_payload st)) (place_sparses n (ls_sparse st)))
                [0..<n]) (\<lambda>points.
          Inr \<lparr>ld_options = opts, ld_points = points, ld_base = None, ld_vocab = ls_vocab st, ld_committed = None\<rparr>)))))))"

text \<open>The mmap tier reads everything but the vectors and the vocabulary.\<close>

definition based_segment ::
  "json msgpack \<Rightarrow> stored_config msgpack \<Rightarrow> roaring \<Rightarrow> load_state \<Rightarrow> segment \<Rightarrow> load_state res" where
  "based_segment M C R st seg =
     (if sg_type seg = SegVectors \<or> sg_type seg = SegVocab then Inr st else load_segment M C R st seg)"

definition load_based ::
  "json msgpack \<Rightarrow> stored_config msgpack \<Rightarrow> roaring \<Rightarrow> segment list \<Rightarrow> nat
    \<Rightarrow> (collection_options \<times> string option list \<times> json option list \<times> sparse_vector option list) res" where
  "load_based M C R segments slot_count =
     tryR (foldR (based_segment M C R) load_state_empty segments) (\<lambda>st.
     tryR (ok_or (ls_stored st) (Corrupt ''load: missing CONFIG'')) (\<lambda>stored.
     tryR (ok_or (ls_iddir st) (Corrupt ''load: missing IDDIR'')) (\<lambda>dir.
     tryR (loaded_options st stored) (\<lambda>opts.
     tryR (foldR place_id (replicate slot_count None) (iddir_entries dir)) (\<lambda>ids.
       Inr (opts, ids, place_payloads slot_count (ls_payload st), place_sparses slot_count (ls_sparse st)))))))"

subsection \<open>Postings are the lanes, sorted by term\<close>

definition flat :: "(u32 \<times> 'a list) list \<Rightarrow> (u32 \<times> 'a) list" where
  "flat m = concat (map (\<lambda>(t, xs). map (Pair t) xs) m)"

lemma flat_simps [simp]: "flat [] = []" "flat ((t, xs) # m) = map (Pair t) xs @ flat m"
  by (simp_all add: flat_def)

lemma flat_keys: "y \<in> set (flat m) \<Longrightarrow> fst y \<in> fst ` set m"
  by (force simp: flat_def)

lemma push_term_keys: "fst ` set (push_term t x m) = insert t (fst ` set m)"
  by (induction t x m rule: push_term.induct) auto

lemma push_term_sorted:
  "sorted_wrt (<) (map fst m) \<Longrightarrow> sorted_wrt (<) (map fst (push_term t x m))"
proof (induction t x m rule: push_term.induct)
  case (2 t x u xs r)
  then show ?case
    using push_term_keys [of t x r] by (auto simp flip: set_map)
qed simp

lemma flat_sorted: "sorted_wrt (<) (map fst m) \<Longrightarrow> sorted (map fst (flat m))"
proof (induction m)
  case (Cons e m)
  obtain t xs where e: "e = (t, xs)" by (cases e)
  have "t \<le> fst y" if "y \<in> set (flat m)" for y
    using Cons.prems flat_keys [OF that] by (auto simp: e)
  moreover have "map fst (map (Pair t) xs) = replicate (length xs) t"
    by (simp add: comp_def map_replicate_const)
  ultimately show ?case using Cons by (auto simp: e sorted_append simp del: map_map)
qed simp

lemma flat_push_filter:
  "sorted_wrt (<) (map fst m) \<Longrightarrow>
     filter (\<lambda>e. fst e = k) (flat (push_term t x m)) = filter (\<lambda>e. fst e = k) (flat m) @ (if t = k then [(t, x)] else [])"
proof (induction t x m rule: push_term.induct)
  case (2 t x u xs r)
  have no: "filter (\<lambda>e. fst e = k) (flat r) = []" if "k \<le> u" for k
    using 2(2) that by (auto simp: filter_empty_conv dest!: flat_keys)
  show ?case
    using 2 no [of t] no [of u] by (auto simp: filter_empty_conv)
qed simp

lemma flat_push_mset: "mset (flat (push_term t x m)) = add_mset (t, x) (mset (flat m))"
  by (induction t x m rule: push_term.induct) auto

lemma flat_built:
  "flat (fold (\<lambda>(t, x). push_term t x) es []) = sort_key fst es"
proof -
  let ?m = "\<lambda>es. fold (\<lambda>(t, x). push_term t x) es []"
  have "sorted_wrt (<) (map fst (?m es)) \<and> mset (flat (?m es)) = mset es
      \<and> (\<forall>k. filter (\<lambda>e. fst e = k) (flat (?m es)) = filter (\<lambda>e. fst e = k) es)"
  proof (induction es rule: rev_induct)
    case (snoc e es)
    then show ?case by (cases e) (simp add: push_term_sorted flat_push_filter flat_push_mset)
  qed simp
  then show ?thesis
    by (intro properties_for_sort_key [symmetric]) (auto simp: flat_sorted eq_commute)
qed

lemma built_empty: "fold (\<lambda>(t, x). push_term t x) es [] = [] \<longleftrightarrow> es = []"
proof (induction es rule: rev_induct)
  case (snoc e es)
  have "push_term t x m \<noteq> []" for t x and m :: "(u32 \<times> 'b list) list"
    by (cases "(t, x, m)" rule: push_term.cases) auto
  then show ?case by (cases e) simp
qed simp

definition lane_of :: "(u32 \<times> f32) list \<Rightarrow> sparse_vector option" where
  "lane_of xs = (if xs = [] then None else Some \<lparr>sv_indices = map fst xs, sv_values = map snd xs\<rparr>)"

definition at_slot :: "nat \<Rightarrow> (u32 \<times> u64 \<times> f32) list \<Rightarrow> (u32 \<times> f32) list" where
  "at_slot s es = map (\<lambda>(t, _, w). (t, w)) (filter (\<lambda>(_, sl, _). unat sl = s) es)"

lemma postings_lanes:
  "postings_to_sparse ts n = map (\<lambda>s. lane_of (at_slot s (flat ts))) [0..<n]"
proof -
  have f: "fold (\<lambda>(t, ps). fold (push_weight n t) ps) ts acc = fold (\<lambda>(t, p). push_weight n t p) (flat ts) acc"
    for acc
    by (induction ts arbitrary: acc) (auto simp: fold_map comp_def)
  have "fold (\<lambda>(t, p). push_weight n t p) es (replicate n None)
      = map (\<lambda>s. lane_of (at_slot s es)) [0..<n]" for es
  proof (induction es rule: rev_induct)
    case Nil
    show ?case by (simp add: lane_of_def at_slot_def map_replicate_const)
  next
    case (snoc e es)
    obtain t sl w where e: "e = (t, sl, w)" by (cases e)
    let ?l = "map (\<lambda>s. lane_of (at_slot s es)) [0..<n]"
    have step: "lane_of (at_slot s (es @ [e])) = (if s = unat sl then
        (let v = (case lane_of (at_slot s es) of None \<Rightarrow> \<lparr>sv_indices = [], sv_values = []\<rparr> | Some v \<Rightarrow> v)
         in Some \<lparr>sv_indices = sv_indices v @ [t], sv_values = sv_values v @ [w]\<rparr>)
        else lane_of (at_slot s es))" for s
      by (simp add: e at_slot_def lane_of_def)
    have "push_weight n t (sl, w) ?l = map (\<lambda>s. lane_of (at_slot s (es @ [e]))) [0..<n]"
    proof (cases "unat sl < n")
      case True
      then show ?thesis
        by (intro nth_equalityI) (simp_all add: push_weight_def Let_def step nth_list_update)
    next
      case False
      then show ?thesis
        by (intro nth_equalityI) (auto simp: push_weight_def step)
    qed
    then show ?case using snoc by (simp add: e)
  qed
  then show ?thesis by (simp add: postings_to_sparse_def f)
qed

definition tidy_sparse :: "sparse_vector option \<Rightarrow> sparse_vector option" where
  "tidy_sparse s = (case s of None \<Rightarrow> None | Some v \<Rightarrow> if sv_indices v = [] then None else Some v)"

definition lane_ok :: "point \<Rightarrow> bool" where
  "lane_ok p \<longleftrightarrow> (case pt_sparse p of None \<Rightarrow> True | Some v \<Rightarrow> sparse_ok v)"

lemma slot_terms_other: "i < 2 ^ 64 \<Longrightarrow> i \<noteq> s \<Longrightarrow> filter (\<lambda>(_, sl, _). unat sl = s) (slot_terms (i, p)) = []"
  by (auto simp: slot_terms_def filter_empty_conv unat_u64 split: option.splits)

lemma slot_terms_same: "s < 2 ^ 64 \<Longrightarrow> filter (\<lambda>(_, sl, _). unat sl = s) (slot_terms (s, p)) = slot_terms (s, p)"
  by (auto simp: slot_terms_def unat_u64 intro!: filter_True split: option.splits)

lemma slot_terms_filter:
  "k + length live \<le> 2 ^ 64 \<Longrightarrow>
     filter (\<lambda>(_, sl, _). unat sl = s) (concat (map slot_terms (enumerate k live)))
       = (if k \<le> s \<and> s < k + length live then slot_terms (s, live ! (s - k)) else [])"
proof (induction live arbitrary: k)
  case (Cons p live)
  have ih: "filter (\<lambda>(_, sl, _). unat sl = s) (concat (map slot_terms (enumerate (Suc k) live)))
      = (if Suc k \<le> s \<and> s < Suc k + length live then slot_terms (s, live ! (s - Suc k)) else [])"
    using Cons by simp
  have k: "k < 2 ^ 64" using Cons.prems by simp
  show ?case
  proof (cases "k = s")
    case True
    then show ?thesis using ih slot_terms_same [of s p] k by simp
  next
    case False
    then show ?thesis using ih slot_terms_other [OF k False, of p] by (auto simp: nth_Cons')
  qed
qed auto

lemma lane_recovered:
  assumes "sparse_ok v" and "pt_sparse p = Some v"
  shows "map (\<lambda>(t, _, w). (t, w)) (sort_key fst (slot_terms (s, p))) = zip (sv_indices v) (sv_values v)"
proof -
  have "sorted_wrt (<) (sv_indices v)" and l: "length (sv_indices v) = length (sv_values v)"
    using assms(1) by (auto simp: sparse_ok_def)
  then have "sorted (sv_indices v)"
    by (simp add: strict_sorted_imp_sorted)
  then have "sorted (map fst (slot_terms (s, p)))"
    using l by (simp add: slot_terms_def assms(2) comp_def case_prod_unfold)
  then have "sort_key fst (slot_terms (s, p)) = slot_terms (s, p)"
    by (rule sort_key_id_if_sorted)
  then show ?thesis by (simp add: slot_terms_def assms(2) comp_def case_prod_unfold)
qed

lemma sparse_lanes_round_trip:
  assumes "length live \<le> 2 ^ 64" and "\<forall>p\<in>set live. lane_ok p"
  shows "postings_to_sparse (sparse_to_postings live) (length live) = map (\<lambda>p. tidy_sparse (pt_sparse p)) live"
proof (rule nth_equalityI)
  show "length (postings_to_sparse (sparse_to_postings live) (length live)) = length (map (\<lambda>p. tidy_sparse (pt_sparse p)) live)"
    by (simp add: postings_lanes)
  fix s assume "s < length (postings_to_sparse (sparse_to_postings live) (length live))"
  then have s: "s < length live" by (simp add: postings_lanes)
  let ?es = "concat (map slot_terms (enumerate 0 live))"
  have "at_slot s (flat (sparse_to_postings live)) = at_slot s (sort_key fst ?es)"
    by (simp add: sparse_to_postings_def flat_built)
  also have "\<dots> = map (\<lambda>(t, _, w). (t, w)) (sort_key fst (slot_terms (s, live ! s)))"
    using slot_terms_filter [of 0 live s] assms(1) s by (simp add: at_slot_def filter_sort)
  finally have a: "at_slot s (flat (sparse_to_postings live)) = map (\<lambda>(t, _, w). (t, w)) (sort_key fst (slot_terms (s, live ! s)))" .
  have ok: "lane_ok (live ! s)" using assms(2) s by simp
  have "lane_of (at_slot s (flat (sparse_to_postings live))) = tidy_sparse (pt_sparse (live ! s))"
  proof (cases "pt_sparse (live ! s)")
    case None
    then show ?thesis by (simp add: a slot_terms_def lane_of_def tidy_sparse_def)
  next
    case (Some v)
    then have v: "sparse_ok v" using ok by (simp add: lane_ok_def)
    then have l: "length (sv_indices v) = length (sv_values v)" by (simp add: sparse_ok_def)
    from l have "zip (sv_indices v) (sv_values v) = [] \<longleftrightarrow> sv_indices v = []" by (cases "sv_indices v") auto
    with l show ?thesis
      by (simp add: a lane_recovered [OF v Some] lane_of_def tidy_sparse_def Some)
  qed
  then show "postings_to_sparse (sparse_to_postings live) (length live) ! s = map (\<lambda>p. tidy_sparse (pt_sparse p)) live ! s"
    using s by (simp add: postings_lanes)
qed

subsection \<open>Vectors, ids and payloads land at their slots\<close>

lemma f32_chunks_to_le: "f32_chunks (to_le 4 (x :: u32) @ b) = x # f32_chunks b"
proof -
  have "\<exists>a b c d. l = [a, b, c, d]" if "length l = 4" for l :: bytes
    using that by (auto simp: numeral_eq_Suc length_Suc_conv)
  from this [of "to_le 4 x"] obtain a1 a2 a3 a4 where a: "to_le 4 x = [a1, a2, a3, a4]" by auto
  have "of_le (to_le 4 x) = x" by (rule of_le_to_le) simp
  then show ?thesis by (simp add: a)
qed

lemma f32_chunks_vector: "f32_chunks (concat (map (to_le 4) v)) = v"
  by (induction v) (simp_all add: f32_chunks_to_le)

definition sealable :: "collection_options \<Rightarrow> point list \<Rightarrow> bool" where
  "sealable opts live \<longleftrightarrow> length live \<le> 2 ^ 31 \<and> options_fit opts \<and> 0 < co_dimension opts
     \<and> 4 * co_dimension opts * length live < 2 ^ 64 \<and> distinct (map pt_id live)
     \<and> (\<forall>p\<in>set live. length (pt_vector p) = co_dimension opts \<and> lane_ok p
          \<and> str_ok (pt_id p) \<and> length (pt_id p) \<le> 512)"

lemma vector_bytes_length: "length (concat (map (to_le 4) (v :: u32 list))) = 4 * length v"
  by (induction v) simp_all

lemma seal_vectors_record:
  assumes ok: "sealable opts live" and v: "seal_vectors opts live = Inr v"
  shows "vectors_ok v \<and> unat (vb_count v) = length live
    \<and> (\<forall>s < length live. map_option f32_chunks (vectors_record v (word_of_nat s)) = Some (pt_vector (live ! s)))"
proof -
  let ?bs = "map (\<lambda>p. concat (map (to_le 4) (pt_vector p))) live"
  let ?n = "4 * co_dimension opts"
  have len: "\<forall>b\<in>set ?bs. length b = ?n"
    using ok by (auto simp: sealable_def vector_bytes_length)
  have dim: "co_dimension opts < 2 ^ 32" "0 < co_dimension opts" and cnt: "length live < 2 ^ 64"
    using ok by (auto simp: sealable_def options_fit_def)
  have f: "vb_encoding v = EncF32" "vb_first_slot v = 0" "vb_count v = word_of_nat (length live)"
    "vb_sq_params v = None" "vb_records v = concat ?bs" "vb_dimension v = word_of_nat (co_dimension opts)"
    using v dim by (auto simp: seal_vectors_def)
  have st: "stride_for (vb_encoding v) (vb_dimension v) = Inr ?n"
    using dim by (simp add: stride_for_def Let_def f unat_u32)
  have total: "length (concat ?bs) = ?n * length live"
    using length_concat_same [OF len] by simp
  have un: "unat (vb_count v) = length live" by (simp add: f unat_u64 [OF cnt])
  have bound: "?n * length live < 2 ^ 64" using ok by (simp add: sealable_def)
  have vok: "vectors_ok v"
    using st bound total un by (simp add: vectors_ok_def f)
  have "map_option f32_chunks (vectors_record v (word_of_nat s)) = Some (pt_vector (live ! s))"
    if s: "s < length live" for s
  proof -
    have us: "unat (word_of_nat s :: u64) = s" using s cnt by (intro unat_u64) simp
    have "vectors_record v (word_of_nat s) = Some (slice_of (concat ?bs) (s * ?n) (Suc s * ?n))"
      using record_at_in_range [of "concat ?bs" ?n "vb_count v" "word_of_nat s" 0] total bound un s us
      by (simp add: vectors_record_def st f(2,5) mult.commute)
    then show ?thesis
      using slice_concat [OF len, of s] s by (simp add: f32_chunks_vector)
  qed
  then show ?thesis using vok un by simp
qed

lemma iddir_entries_insert:
  assumes "buckets d \<noteq> []"
  shows "set (iddir_entries (iddir_insert xxh k s d)) = insert (k, s) (set (iddir_entries d))"
proof -
  have "set (concat (bs[b := bs ! b @ [e]])) = insert e (set (concat bs))" if "b < length bs" for b e
    and bs :: "(string \<times> u64) list list"
    using that by (induction bs arbitrary: b) (auto simp: nth_Cons split: nat.splits)
  then show ?thesis
    using bucket_of_less [OF assms, of xxh k] by (simp add: iddir_entries_def iddir_insert_def Let_def)
qed

lemma iddir_entries_fold:
  "buckets d \<noteq> [] \<Longrightarrow>
     set (iddir_entries (fold (\<lambda>(k, s). iddir_insert xxh k s) es d)) = set es \<union> set (iddir_entries d)"
proof (induction es arbitrary: d)
  case (Cons e es)
  obtain k s where e: "e = (k, s)" by (cases e)
  have "buckets (iddir_insert xxh k s d) \<noteq> []"
    using iddir_insert_entries [OF Cons.prems] by blast
  then show ?case using Cons by (simp add: e iddir_entries_insert)
qed simp

lemma seal_iddir_fold:
  "seal_iddir xxh live = fold (\<lambda>(k, s). iddir_insert xxh k s)
     (map (\<lambda>(slot, p). (pt_id p, word_of_nat slot)) (enumerate 0 live)) (iddir_new (bucket_count (length live)))"
  by (simp add: seal_iddir_def fold_map comp_def case_prod_unfold)

lemma place_ids:
  assumes "\<forall>e\<in>set es. unat (snd e) < length ids \<and> fst e = f (unat (snd e))"
  shows "foldR place_id ids es = Inr (map (\<lambda>i. if i \<in> (unat \<circ> snd) ` set es then Some (f i) else ids ! i) [0..<length ids])"
  using assms
proof (induction es arbitrary: ids)
  case Nil
  then show ?case by (simp add: map_nth)
next
  case (Cons e es)
  have p: "place_id ids e = Inr (ids[unat (snd e) := Some (f (unat (snd e)))])"
    using Cons.prems by (simp add: place_id_def)
  show ?case
    using Cons.prems by (simp add: p Cons.IH)
qed

lemma seal_iddir_entries:
  "set (iddir_entries (seal_iddir xxh live)) = {(pt_id (live ! i), word_of_nat i) | i. i < length live}"
proof -
  have "iddir_entries (iddir_new n) = []" for n by (simp add: iddir_entries_def iddir_new_def)
  moreover have "buckets (iddir_new n) \<noteq> []" for n by (simp add: iddir_new_def)
  ultimately show ?thesis
    by (force simp: seal_iddir_fold iddir_entries_fold in_set_enumerate_eq image_iff)
qed

lemma sealed_ids_placed:
  assumes "length live < 2 ^ 64"
  shows "foldR place_id (replicate (length live) None) (iddir_entries (seal_iddir xxh live))
    = Inr (map (\<lambda>p. Some (pt_id p)) live)"
proof -
  let ?es = "iddir_entries (seal_iddir xxh live)"
  have "foldR place_id (replicate (length live) None) ?es
      = Inr (map (\<lambda>i. if i \<in> (unat \<circ> snd) ` set ?es then Some (pt_id (live ! i)) else replicate (length live) None ! i)
          [0..<length (replicate (length live) (None :: string option))])"
    using assms by (intro place_ids) (auto simp: seal_iddir_entries unat_u64)
  moreover have "i \<in> (unat \<circ> snd) ` set ?es" if "i < length live" for i
    using that assms by (force simp: seal_iddir_entries unat_u64 image_iff)
  ultimately show ?thesis
    by (auto simp: map_equality_iff intro!: nth_equalityI)
qed

lemma payloads_placed_from:
  "k + length live \<le> n \<Longrightarrow> n \<le> 2 ^ 64 \<Longrightarrow> length ps = n \<Longrightarrow>
     fold (\<lambda>(slot, v) ps. if unat slot < n then ps[unat slot := Some v] else ps)
       (List.map_filter (\<lambda>(slot, p). map_option (\<lambda>v. (word_of_nat slot :: u64, v)) (pt_payload p)) (enumerate k live)) ps
     = map (\<lambda>i. if k \<le> i \<and> i < k + length live \<and> pt_payload (live ! (i - k)) \<noteq> None
                then pt_payload (live ! (i - k)) else ps ! i) [0..<n]"
proof (induction live arbitrary: k ps)
  case Nil
  then show ?case by (auto simp: map_filter_simps intro!: nth_equalityI)
next
  case (Cons p live)
  have k: "unat (word_of_nat k :: u64) = k" using Cons.prems by (intro unat_u64) simp
  show ?case
  proof (cases "pt_payload p")
    case None
    then show ?thesis
      using Cons by (auto simp: map_filter_simps nth_Cons' intro!: nth_equalityI)
  next
    case (Some v)
    then show ?thesis
      using Cons by (auto simp: map_filter_simps nth_Cons' k nth_list_update intro!: nth_equalityI)
  qed
qed

lemma payloads_placed:
  assumes "length live \<le> 2 ^ 64"
  shows "place_payloads (length live) (payload_entries live) = map pt_payload live"
  unfolding place_payloads_def payload_entries_def
  using payloads_placed_from [of 0 live "length live" "replicate (length live) None"] assms
  by (auto intro!: nth_equalityI)

subsection \<open>What was sealed is what is loaded\<close>

lemma load_seal_pidx:
  assumes "\<And>s. ro_carries R s" and "str_ok (fst d)" and "seal_pidx R ix d = Inr b"
  shows "load_segment M C R st (seg_of n SegPidx b) = Inr (st\<lparr>ls_declared := ls_declared st @ [d]\<rparr>)"
proof -
  have "pidx_decode R b = Inr \<lparr>px_kind = pidx_kind_byte (snd d), px_key = fst d,
       px_postings = map (\<lambda>(value, slots). (posting_value_bytes value, set slots))
                       (case postings ix (fst d) of None \<Rightarrow> [] | Some ps \<Rightarrow> ps)\<rparr>"
    using assms by (intro pidx_decode_encode) (auto simp: seal_pidx_def)
  then show ?thesis
    by (simp add: load_segment_def seg_of_def pidx_kind_tag.from_to)
qed

lemma load_seal_pidxs:
  assumes "\<And>s. ro_carries R s" and "\<forall>d\<in>set ds. str_ok (fst d)" and "mapR (seal_pidx R ix) ds = Inr bs"
  shows "foldR (load_segment M C R) st (map (seg_of n SegPidx) bs) = Inr (st\<lparr>ls_declared := ls_declared st @ ds\<rparr>)"
  using assms(2,3)
proof (induction ds arbitrary: bs st)
  case (Cons d ds)
  from Cons.prems(2) obtain b bs' where b: "seal_pidx R ix d = Inr b" "mapR (seal_pidx R ix) ds = Inr bs'" "bs = b # bs'"
    by (auto simp: tryR_eq_Inr)
  show ?case
    using Cons load_seal_pidx [OF assms(1) _ b(1)] b(2) by (simp add: b(3))
qed simp

definition saved_options :: "collection_options \<Rightarrow> (string \<times> payload_index_kind) list \<Rightarrow> collection_options" where
  "saved_options opts declared = (stored_view opts)\<lparr>co_payload_indexes := declared\<rparr>"

definition saved_point :: "point \<Rightarrow> point" where
  "saved_point p = p\<lparr>pt_sparse := tidy_sparse (pt_sparse p)\<rparr>"

definition saved_vocab :: "bytes option \<Rightarrow> bytes option" where
  "saved_vocab v = (case v of None \<Rightarrow> None | Some s \<Rightarrow> if s = [] then None else Some s)"

text \<open>The packages carry what is sealed: each payload, the stored configuration, every bitmap.\<close>

definition carried ::
  "json msgpack \<Rightarrow> stored_config msgpack \<Rightarrow> roaring \<Rightarrow> collection_options \<Rightarrow> u64 \<Rightarrow> point list \<Rightarrow> bool" where
  "carried M C R opts created live \<longleftrightarrow>
     (\<forall>p\<in>set live. \<forall>v. pt_payload p = Some v \<longrightarrow> mp_carries M v) \<and> mp_carries C (to_stored opts created)
     \<and> (\<forall>s. ro_carries R s)"

lemma payload_entries_carried:
  "carried M C R opts created live \<Longrightarrow> \<forall>e\<in>set (payload_entries live). mp_carries M (snd e)"
  by (fastforce simp: carried_def payload_entries_def map_filter_def in_set_enumerate_eq)

lemma seal_facts:
  assumes "seal M C R xxh cid name aliases opts declared vocab live created = Inr cc"
  shows "\<exists>config v payload pidx sparse.
    stored_config_encode C (to_stored opts created) = Inr config \<and> seal_vectors opts live = Inr v
    \<and> (payload = [] \<and> payload_entries live = []
       \<or> (\<exists>b. payload = [seg_of cid SegPayload b] \<and> payload_encode M (payload_entries live) = Inr b))
    \<and> mapR (seal_pidx R (seal_indexes declared live)) declared = Inr pidx
    \<and> (sparse = [] \<and> sparse_to_postings live = []
       \<or> (\<exists>b. sparse = [seg_of cid SegSparse b] \<and> sparse_encode (sparse_to_postings live) = Inr b))
    \<and> cc_segments cc =
        [seg_of cid SegConfig config, seg_of cid SegVectors (vectors_encode v), seg_of cid SegIddir (iddir_encode (seal_iddir xxh live))]
        @ payload @ map (seg_of cid SegPidx) pidx @ sparse
        @ (case saved_vocab vocab of None \<Rightarrow> [] | Some state \<Rightarrow> [seg_of cid SegVocab state])"
  using assms
  by (fastforce simp: seal_def tryR_eq_Inr saved_vocab_def encode_vocab_def split: if_splits option.splits)

lemma seal_iddir_ok:
  assumes "sealable opts live"
  shows "iddir_decode (iddir_encode (seal_iddir xxh live)) = Inr (seal_iddir xxh live)"
proof -
  have n: "length live \<le> 2 ^ 31" using assms by (simp add: sealable_def)
  have pow: "p = 2 ^ i \<Longrightarrow> i \<le> 31 \<Longrightarrow> m \<le> 2 ^ 31 \<Longrightarrow> pow2_above p m \<le> 2 ^ 31" for p m i
  proof (induction p m arbitrary: i rule: pow2_above.induct)
    case (1 p m)
    have le: "(2 :: nat) ^ i \<le> 2 ^ 31" by (rule power_increasing) (use 1 in simp_all)
    show ?case
    proof (cases "m \<le> p \<or> p = 0")
      case True
      then show ?thesis using le by (subst pow2_above.simps) (simp add: 1)
    next
      case False
      then have "i < 31" using 1 by (cases "i = 31") auto
      then have "pow2_above (2 * p) m \<le> 2 ^ 31"
        using 1 False by (intro 1(1) [of "Suc i"]) auto
      then show ?thesis using False by (subst pow2_above.simps) simp
    qed
  qed
  have b: "bucket_count (length live) < 2 ^ 32"
    using pow [of 1 0 "length live"] n by (simp add: bucket_count_def)
  have "\<forall>p\<in>set live. length (pt_id p) < 65536 \<and> str_ok (pt_id p)"
    using assms by (fastforce simp: sealable_def)
  then have "iddir_ok (seal_iddir xxh live)"
    unfolding seal_iddir_fold
    using b n by (intro iddir_fold_ok) (auto simp: list_all_iff iddir_entry_ok_def in_set_enumerate_eq)
  then show ?thesis using iddir_decode_encode [of _ "[]"] by simp
qed

lemma load_points_map:
  assumes "\<And>s. s < length live \<Longrightarrow> map_option f32_chunks (vectors_record v (word_of_nat s)) = Some (pt_vector (live ! s))"
  shows "mapR (load_point v (map (\<lambda>p. Some (pt_id p)) live) (map pt_payload live) (map (\<lambda>p. tidy_sparse (pt_sparse p)) live))
      [0..<length live] = Inr (map saved_point live)"
proof -
  have "mapR (load_point v (map (\<lambda>p. Some (pt_id p)) live) (map pt_payload live) (map (\<lambda>p. tidy_sparse (pt_sparse p)) live))
      [0..<length live] = Inr (map (\<lambda>s. saved_point (live ! s)) [0..<length live])"
  proof (rule mapR_all_Inr)
    fix s assume "s \<in> set [0..<length live]"
    then have s: "s < length live" by simp
    from assms [OF s] obtain bs where "vectors_record v (word_of_nat s) = Some bs" "f32_chunks bs = pt_vector (live ! s)"
      by auto
    then show "load_point v (map (\<lambda>p. Some (pt_id p)) live) (map pt_payload live) (map (\<lambda>p. tidy_sparse (pt_sparse p)) live) s
        = Inr (saved_point (live ! s))"
      using s by (simp add: load_point_def saved_point_def)
  qed
  also have "map (\<lambda>s. saved_point (live ! s)) [0..<length live] = map saved_point live"
    by (auto intro: nth_equalityI)
  finally show ?thesis .
qed

lemma load_of_seal:
  assumes ok: "sealable opts live" and carried: "carried M C R opts created live"
    and keys: "\<forall>d\<in>set declared. str_ok (fst d)"
    and s: "seal M C R xxh cid name aliases opts declared vocab live created = Inr cc"
  shows "load M C R (cc_segments cc) = Inr \<lparr>ld_options = saved_options opts declared, ld_points = map saved_point live,
     ld_base = None, ld_vocab = saved_vocab vocab, ld_committed = None\<rparr>"
proof -
  from seal_facts [OF s] obtain config v payload pidx sparse where
    config: "stored_config_encode C (to_stored opts created) = Inr config" and v: "seal_vectors opts live = Inr v"
    and payload: "payload = [] \<and> payload_entries live = []
       \<or> (\<exists>b. payload = [seg_of cid SegPayload b] \<and> payload_encode M (payload_entries live) = Inr b)"
    and pidx: "mapR (seal_pidx R (seal_indexes declared live)) declared = Inr pidx"
    and sparse: "sparse = [] \<and> sparse_to_postings live = []
       \<or> (\<exists>b. sparse = [seg_of cid SegSparse b] \<and> sparse_encode (sparse_to_postings live) = Inr b)"
    and segs: "cc_segments cc =
        [seg_of cid SegConfig config, seg_of cid SegVectors (vectors_encode v), seg_of cid SegIddir (iddir_encode (seal_iddir xxh live))]
        @ payload @ map (seg_of cid SegPidx) pidx @ sparse
        @ (case saved_vocab vocab of None \<Rightarrow> [] | Some state \<Rightarrow> [seg_of cid SegVocab state])"
    by blast
  let ?c = "to_stored opts created"
  have len: "length live \<le> 2 ^ 64" "length live < 2 ^ 64" using ok by (auto simp: sealable_def)
  have C: "stored_config_decode C config = Inr ?c"
    using carried config by (intro stored_config_decode_encode) (auto simp: carried_def)
  note V = seal_vectors_record [OF ok v]
  have Vd: "vectors_decode (vectors_encode v) = Inr v" using V by (simp add: vectors_decode_encode)
  define st where "st = \<lparr>ls_stored = Some ?c, ls_vectors = Some v, ls_iddir = Some (seal_iddir xxh live),
     ls_payload = [], ls_declared = [], ls_vocab = None, ls_sparse = None\<rparr>"
  have P: "foldR (load_segment M C R) st payload = Inr (st\<lparr>ls_payload := payload_entries live\<rparr>)"
    using payload payload_decode_encode [OF payload_entries_carried [OF carried]]
    by (auto simp: load_segment_def seg_of_def st_def)
  have I: "foldR (load_segment M C R) st' (map (seg_of cid SegPidx) pidx) = Inr (st'\<lparr>ls_declared := ls_declared st' @ declared\<rparr>)" for st'
    using carried by (intro load_seal_pidxs [OF _ keys pidx]) (simp add: carried_def)
  have S: "\<exists>ts. foldR (load_segment M C R) st' sparse = Inr (st'\<lparr>ls_sparse := ts\<rparr>)
      \<and> place_sparses (length live) ts = map (\<lambda>p. tidy_sparse (pt_sparse p)) live" if "ls_sparse st' = None" for st'
  proof -
    have t: "postings_to_sparse (sparse_to_postings live) (length live) = map (\<lambda>p. tidy_sparse (pt_sparse p)) live"
      using ok len by (intro sparse_lanes_round_trip) (auto simp: sealable_def)
    from sparse show ?thesis
    proof
      assume e: "sparse = [] \<and> sparse_to_postings live = []"
      then have "place_sparses (length live) None = map (\<lambda>p. tidy_sparse (pt_sparse p)) live"
        using t by (simp add: place_sparses_def postings_to_sparse_def)
      then show ?thesis using e that by (intro exI [of _ None]) simp
    next
      assume "\<exists>b. sparse = [seg_of cid SegSparse b] \<and> sparse_encode (sparse_to_postings live) = Inr b"
      then obtain b where b: "sparse = [seg_of cid SegSparse b]" "sparse_encode (sparse_to_postings live) = Inr b" by auto
      have "sparse_decode b = Inr (sparse_to_postings live)"
        using sparse_decode_encode [OF b(2), of "[]"] by simp
      then show ?thesis using t b by (intro exI [of _ "Some (sparse_to_postings live)"]) (simp add: load_segment_def seg_of_def place_sparses_def)
    qed
  qed
  define st2 where "st2 = st\<lparr>ls_payload := payload_entries live, ls_declared := declared\<rparr>"
  obtain ts where ts: "foldR (load_segment M C R) st2 sparse = Inr (st2\<lparr>ls_sparse := ts\<rparr>)"
    and ts_placed: "place_sparses (length live) ts = map (\<lambda>p. tidy_sparse (pt_sparse p)) live"
    using S [of st2] by (auto simp: st2_def st_def)
  have W: "foldR (load_segment M C R) st' (case saved_vocab vocab of None \<Rightarrow> [] | Some state \<Rightarrow> [seg_of cid SegVocab state])
      = Inr (st'\<lparr>ls_vocab := saved_vocab vocab\<rparr>)" if "ls_vocab st' = None" for st'
    using that by (auto simp: load_segment_def seg_of_def decode_vocab_def split: option.splits)
  have "foldR (load_segment M C R) load_state_empty
      [seg_of cid SegConfig config, seg_of cid SegVectors (vectors_encode v), seg_of cid SegIddir (iddir_encode (seal_iddir xxh live))]
      = Inr st"
    by (simp add: load_segment_def seg_of_def C Vd seal_iddir_ok [OF ok] load_state_empty_def st_def)
  then have F: "foldR (load_segment M C R) load_state_empty (cc_segments cc)
      = Inr (st2\<lparr>ls_sparse := ts, ls_vocab := saved_vocab vocab\<rparr>)"
    unfolding segs foldR_append using P I ts W by (simp add: st2_def st_def)
  have O: "loaded_options st' ?c = Inr (saved_options opts declared)" if "ls_declared st' = declared" for st'
    using from_stored_to_stored [of opts created] ok that by (simp add: loaded_options_def saved_options_def sealable_def)
  have Q: "mapR (load_point v (map (\<lambda>p. Some (pt_id p)) live) (map pt_payload live) (map (\<lambda>p. tidy_sparse (pt_sparse p)) live))
      [0..<length live] = Inr (map saved_point live)"
    using V by (intro load_points_map) simp
  show ?thesis
    unfolding load_def F tryR_Inr
    using V Q ts_placed
    by (simp add: O st2_def st_def Let_def sealed_ids_placed [OF len(2)] payloads_placed [OF len(1)])
qed

subsection \<open>Installing a mapped base\<close>

fun batches :: "nat \<Rightarrow> 'a list \<Rightarrow> 'a list \<Rightarrow> 'a list list" where
  "batches k acc [] = (if acc = [] then [] else [acc])"
| "batches k acc (x # xs) =
     (let acc' = acc @ [x] in if length acc' = k then acc' # batches k [] xs else batches k acc' xs)"

definition tier_of :: "loaded_base \<Rightarrow> base_tier" where
  "tier_of base = \<lparr>bt_regions = lb_regions base, bt_count = lb_slot_count base, bt_seg_refs = lb_seg_refs base,
     bt_vector_count = lb_vector_count base, bt_tombstone_count = lb_tombstone_count base, bt_indexed = lb_indexed base\<rparr>"

definition install_slot :: "nat \<times> string option \<Rightarrow> 'q collection_data \<Rightarrow> 'q collection_data" where
  "install_slot e d =
     (case snd e of
        Some key \<Rightarrow>
          d\<lparr>cd_id_to_slot := AList.update key (fst e) (cd_id_to_slot d), cd_ids := cd_ids d @ [key],
            cd_payload_indexes := indexes_insert (cd_payload_indexes d) (word_of_nat (fst e)) (cd_payloads d ! fst e)\<rparr>
      | None \<Rightarrow> d\<lparr>cd_ids := cd_ids d @ [[]], cd_tombstones := insert (fst e) (cd_tombstones d)\<rparr>)"

definition mapped_vectors :: "base_tier \<Rightarrow> 'q collection_data \<Rightarrow> (nat \<times> f32 list) list" where
  "mapped_vectors tier d =
     List.map_filter (\<lambda>slot. if live_slot d slot then map_option (Pair slot) (base_read tier (word_of_nat slot)) else None)
       [0..<bt_count tier]"

definition install_base :: "loaded_base \<Rightarrow> 'q collection \<Rightarrow> unit res \<times> 'q collection" where
  "install_base base c =
     (let opts = cl_config c; tier = tier_of base;
          d0 = (cl_data c)\<lparr>cd_vectors := [], cd_ids := [], cd_id_to_slot := [], cd_tombstones := {},
                 cd_payloads := lb_payloads base, cd_sparses := lb_sparses base,
                 cd_payload_indexes := indexes_new (co_payload_indexes opts)\<rparr>;
          d = fold install_slot (enumerate 0 (lb_ids base)) d0;
          index = (if lb_indexed base \<and> co_metric opts \<noteq> DotProduct
                   then tryR (fresh_graph opts (max (length (cd_id_to_slot d)) 1)) (\<lambda>fresh.
                          Inr (Some (fold hnsw_insert_batch (batches 8192 [] (mapped_vectors tier d)) fresh)))
                   else Inr None)
      in case index of
           Inl e \<Rightarrow> (Inl e, c\<lparr>cl_data := d\<rparr>)
         | Inr ix \<Rightarrow>
             (Inr (), c\<lparr>cl_data := d\<lparr>cd_index := ix, cd_codes := [], cd_quant_params := None, cd_base := Some tier,
                                   cd_sealed := None, cd_dirty := False\<rparr>\<rparr>))"

end
