(* ===== verification/Mapped_Base.thy ===== *)
theory Mapped_Base
  imports Seal Collection_Props
begin

section \<open>Loaded collections: materialized and mapped\<close>

text \<open>
  A loaded base becomes a collection that satisfies the state invariant and holds the sealed points; the materialized tier,
  which feeds the loaded points through the ordinary write path, reaches the same contents. With the round trip of sealing
  this gives what a reopened collection is.
\<close>

subsection \<open>The slots of a base\<close>

definition base_ids_ok :: "string option list \<Rightarrow> bool" where
  "base_ids_ok ids \<longleftrightarrow> (\<forall>i j k. i < length ids \<longrightarrow> j < length ids \<longrightarrow> ids ! i = Some k \<longrightarrow> ids ! j = Some k \<longrightarrow> i = j)"

lemma base_ids_ok_snoc: "base_ids_ok (ids @ [x]) \<Longrightarrow> base_ids_ok ids"
  by (auto simp: base_ids_ok_def nth_append)

lemma install_slot_fields [simp]:
  "cd_vectors (install_slot e d) = cd_vectors d" "cd_payloads (install_slot e d) = cd_payloads d"
  "cd_sparses (install_slot e d) = cd_sparses d" "cd_index (install_slot e d) = cd_index d"
  "cd_base (install_slot e d) = cd_base d"
  by (simp_all add: install_slot_def split: option.splits)

lemma install_slot_simps:
  "install_slot (n, None) d = d\<lparr>cd_ids := cd_ids d @ [[]], cd_tombstones := insert n (cd_tombstones d)\<rparr>"
  "install_slot (n, Some k) d = d\<lparr>cd_id_to_slot := AList.update k n (cd_id_to_slot d), cd_ids := cd_ids d @ [k],
     cd_payload_indexes := indexes_insert (cd_payload_indexes d) (word_of_nat n) (cd_payloads d ! n)\<rparr>"
  by (simp_all add: install_slot_def)

lemma install_slots_fields [simp]:
  "cd_vectors (fold install_slot es d) = cd_vectors d" "cd_payloads (fold install_slot es d) = cd_payloads d"
  "cd_sparses (fold install_slot es d) = cd_sparses d" "cd_base (fold install_slot es d) = cd_base d"
  by (induction es arbitrary: d) simp_all

definition slot_payloads :: "string option list \<Rightarrow> json option list \<Rightarrow> u64 \<Rightarrow> json option" where
  "slot_payloads ids ps = (\<lambda>s. if unat s < length ids \<and> ids ! unat s \<noteq> None then ps ! unat s else None)"

lemma install_slots:
  assumes "cd_ids d = []" "cd_id_to_slot d = []" "cd_tombstones d = {}" "indexes_hold (cd_payload_indexes d) (\<lambda>_. None)"
    and "base_ids_ok ids" and "length ids \<le> 2 ^ 64"
  defines "e \<equiv> fold install_slot (enumerate 0 ids) d"
  shows "cd_ids e = map (\<lambda>i. case i of None \<Rightarrow> [] | Some k \<Rightarrow> k) ids
    \<and> cd_tombstones e = {i. i < length ids \<and> ids ! i = None}
    \<and> distinct (map fst (cd_id_to_slot e))
    \<and> (\<forall>k s. map_of (cd_id_to_slot e) k = Some s \<longleftrightarrow> s < length ids \<and> ids ! s = Some k)
    \<and> indexes_hold (cd_payload_indexes e) (slot_payloads ids (cd_payloads d))"
  using assms(5,6) unfolding e_def
proof (induction ids rule: rev_induct)
  case Nil
  then show ?case using assms(1-4) by (simp add: slot_payloads_def)
next
  case (snoc x ids)
  let ?e = "fold install_slot (enumerate 0 ids) d" and ?n = "length ids"
  have n: "?n < 2 ^ 64" using snoc.prems(2) by simp
  have ok: "base_ids_ok ids" by (rule base_ids_ok_snoc [OF snoc.prems(1)])
  note ih = snoc.IH [OF ok less_imp_le [OF n]]
  have e: "fold install_slot (enumerate 0 (ids @ [x])) d = install_slot (?n, x) ?e"
    by (simp add: enumerate_append_eq)
  have fresh: "ids ! i \<noteq> Some k" if "x = Some k" "i < ?n" for i k
  proof
    assume "ids ! i = Some k"
    then have "(ids @ [x]) ! i = Some k" "(ids @ [x]) ! ?n = Some k" using that by (simp_all add: nth_append)
    then have "i = ?n" using snoc.prems(1) that(2) unfolding base_ids_ok_def by (metis length_append_singleton less_SucI lessI)
    with that(2) show False by simp
  qed
  let ?P = "\<lambda>ids. slot_payloads ids (cd_payloads d)"
  show ?case
  proof (cases x)
    case None
    have "?P (ids @ [x]) = ?P ids" using None by (auto simp: slot_payloads_def nth_append fun_eq_iff)
    then have h: "indexes_hold (cd_payload_indexes ?e) (?P (ids @ [x]))" using ih by simp
    then show ?thesis
      using ih None unfolding e by (auto simp: install_slot_simps nth_append less_Suc_eq)
  next
    case (Some k)
    have p: "?P (ids @ [x]) = (?P ids)(word_of_nat ?n := cd_payloads d ! ?n)"
      using Some slot_eq [OF n] unat_slot [OF n] by (auto simp: slot_payloads_def nth_append fun_eq_iff)
    have "indexes_hold (indexes_insert (cd_payload_indexes ?e) (word_of_nat ?n) (cd_payloads d ! ?n)) (?P (ids @ [x]))"
      unfolding p using ih unat_slot [OF n] by (intro indexes_insert_holds) (auto simp: slot_payloads_def)
    moreover have "distinct (map fst (AList.update k ?n (cd_id_to_slot ?e)))"
      using ih by (intro distinct_update) simp
    moreover have "map_of (AList.update k ?n (cd_id_to_slot ?e)) k' = Some s
        \<longleftrightarrow> s < length (ids @ [x]) \<and> (ids @ [x]) ! s = Some k'" for k' s
      using ih fresh [OF Some] Some by (auto simp: nth_append less_Suc_eq)
    ultimately show ?thesis
      using ih Some unfolding e by (auto simp: install_slot_simps nth_append less_Suc_eq)
  qed
qed

subsection \<open>The installed collection\<close>

text \<open>What a base must be: parallel lists, one slot per id, nothing stored in a dead slot, a readable vector everywhere.\<close>

definition base_ok :: "nat \<Rightarrow> loaded_base \<Rightarrow> bool" where
  "base_ok dim base \<longleftrightarrow> length (lb_ids base) = lb_slot_count base \<and> length (lb_payloads base) = lb_slot_count base
     \<and> length (lb_sparses base) = lb_slot_count base \<and> lb_slot_count base \<le> 2 ^ 64 \<and> base_ids_ok (lb_ids base)
     \<and> (\<forall>s<lb_slot_count base. lb_ids base ! s = None \<longrightarrow> lb_payloads base ! s = None \<and> lb_sparses base ! s = None)
     \<and> (\<forall>s<lb_slot_count base. \<exists>v. base_read (tier_of base) (word_of_nat s) = Some v \<and> length v = dim)"

definition base_contents :: "loaded_base \<Rightarrow> string \<Rightarrow> stored option" where
  "base_contents base key =
     map_of (List.map_filter (\<lambda>s. map_option (\<lambda>k. (k, (the (base_read (tier_of base) (word_of_nat s)),
         lb_sparses base ! s, lb_payloads base ! s))) (lb_ids base ! s)) [0..<lb_slot_count base]) key"

lemma concat_batches: "concat (batches k acc xs) = acc @ xs"
  by (induction k acc xs rule: batches.induct) (auto simp: Let_def)

lemma insert_batches: "hx_nodes (fold hnsw_insert_batch bs ix) = hx_nodes ix @ concat bs"
  by (induction bs arbitrary: ix) simp_all

lemma map_filter_same:
  "(\<And>x. x \<in> set xs \<Longrightarrow> f x = g x) \<Longrightarrow> xs = ys \<Longrightarrow> List.map_filter f xs = List.map_filter g ys"
  by (auto simp: map_filter_def cong: filter_cong)

lemma base_contents_Some:
  assumes "base_ok dim base"
  shows "base_contents base key = Some x \<longleftrightarrow> (\<exists>s<lb_slot_count base. lb_ids base ! s = Some key \<and>
    x = (the (base_read (tier_of base) (word_of_nat s)), lb_sparses base ! s, lb_payloads base ! s))"
proof -
  let ?f = "\<lambda>s. map_option (\<lambda>k. (k, (the (base_read (tier_of base) (word_of_nat s)),
         lb_sparses base ! s, lb_payloads base ! s))) (lb_ids base ! s)"
  have d: "distinct (map fst (List.map_filter ?f [0..<lb_slot_count base]))"
  proof -
    have "distinct (map fst (List.map_filter ?f ss))" if "distinct ss" "set ss \<subseteq> {..<lb_slot_count base}" for ss
      using that assms
    proof (induction ss)
      case (Cons s ss)
      then show ?case
      proof (cases "lb_ids base ! s")
        case (Some k)
        have "k \<notin> fst ` set (List.map_filter ?f ss)"
        proof
          assume "k \<in> fst ` set (List.map_filter ?f ss)"
          then obtain t where t: "t \<in> set ss" "lb_ids base ! t = Some k" by (auto simp: map_filter_def)
          moreover have "s < lb_slot_count base" "set ss \<subseteq> {..<lb_slot_count base}" using Cons.prems(2) by auto
          moreover have "length (lb_ids base) = lb_slot_count base" "base_ids_ok (lb_ids base)"
            using Cons.prems(3) by (simp_all add: base_ok_def)
          ultimately have "t = s" using Some unfolding base_ids_ok_def by (metis lessThan_iff subsetD)
          then show False using t(1) Cons.prems(1) by simp
        qed
        then show ?thesis using Cons Some by (simp add: map_filter_simps)
      qed (simp add: map_filter_simps)
    qed (simp add: map_filter_simps)
    from this [of "[0..<lb_slot_count base]"] show ?thesis by (simp add: atLeast0LessThan)
  qed
  show ?thesis
    unfolding base_contents_def map_of_eq_Some_iff [OF d]
    by (force simp: map_filter_def image_iff)
qed

lemma install_base_facts:
  assumes c: "config_ok (cl_config c)" and b: "base_ok (co_dimension (cl_config c)) base"
    and r: "install_base base c = (r, c')"
  shows "r = Inr () \<and> coll_inv c' \<and> cl_config c' = cl_config c \<and> coll_contents c' = base_contents base"
proof -
  let ?opts = "cl_config c" and ?t = "tier_of base" and ?n = "lb_slot_count base"
  let ?dim = "co_dimension ?opts"
  define d0 where "d0 = (cl_data c)\<lparr>cd_vectors := [], cd_ids := [], cd_id_to_slot := [], cd_tombstones := {},
                 cd_payloads := lb_payloads base, cd_sparses := lb_sparses base,
                 cd_payload_indexes := indexes_new (co_payload_indexes ?opts)\<rparr>"
  define d where "d = fold install_slot (enumerate 0 (lb_ids base)) d0"
  have len: "length (lb_ids base) = ?n" "length (lb_payloads base) = ?n" "length (lb_sparses base) = ?n" "?n \<le> 2 ^ 64"
    "base_ids_ok (lb_ids base)" using b by (auto simp: base_ok_def)
  have z: "cd_ids d0 = []" "cd_id_to_slot d0 = []" "cd_tombstones d0 = {}" "cd_payload_indexes d0 = indexes_new (co_payload_indexes ?opts)"
    and p0: "cd_payloads d0 = lb_payloads base"
    by (simp_all add: d0_def)
  have D: "cd_ids d = map (\<lambda>i. case i of None \<Rightarrow> [] | Some k \<Rightarrow> k) (lb_ids base)"
    "cd_tombstones d = {i. i < ?n \<and> lb_ids base ! i = None}" "distinct (map fst (cd_id_to_slot d))"
    "\<And>k s. map_of (cd_id_to_slot d) k = Some s \<longleftrightarrow> s < ?n \<and> lb_ids base ! s = Some k"
    "indexes_hold (cd_payload_indexes d) (slot_payloads (lb_ids base) (lb_payloads base))"
    using install_slots [of d0 "lb_ids base", unfolded p0 z] len indexes_new_holds [of "co_payload_indexes ?opts"]
    by (simp_all add: d_def)
  have fs: "cd_vectors d = []" "cd_payloads d = lb_payloads base" "cd_sparses d = lb_sparses base"
    by (simp_all add: d_def d0_def)
  have live: "live_slot d s \<longleftrightarrow> lb_ids base ! s \<noteq> None" if "s < ?n" for s
    using that D(1,4) len(1) len(5) by (auto simp: live_slot_def split: option.splits)
  have rd: "\<exists>v. base_read ?t (word_of_nat s) = Some v \<and> length v = ?dim" if "s < ?n" for s
    using b that by (auto simp: base_ok_def)
  define good where "good e \<longleftrightarrow> e = d\<lparr>cd_index := cd_index e, cd_codes := [], cd_quant_params := None, cd_base := Some ?t,
       cd_sealed := None, cd_dirty := False\<rparr> \<and> (\<forall>i. cd_index e = Some i \<longrightarrow> hx_nodes i = mapped_vectors ?t d)" for e
  have shape: "r = Inr () \<and> good (cl_data c') \<and> c' = c\<lparr>cl_data := cl_data c'\<rparr>"
  proof (cases "lb_indexed base \<and> co_metric ?opts \<noteq> DotProduct")
    case True
    then obtain f where f: "fresh_graph ?opts (max (length (cd_id_to_slot d)) 1) = Inr f"
      using fresh_graph_ok [OF c] by blast
    moreover have "hx_nodes f = []" using f by (auto simp: fresh_graph_def dest: hnsw_new_nodes)
    ultimately show ?thesis
      using r True by (auto simp: install_base_def Let_def good_def insert_batches concat_batches simp flip: d0_def d_def)
  next
    case False
    then show ?thesis
      using r by (auto simp: install_base_def Let_def good_def simp flip: d0_def d_def)
  qed
  then obtain ix where ix: "cl_data c' = d\<lparr>cd_index := ix, cd_codes := [], cd_quant_params := None, cd_base := Some ?t,
       cd_sealed := None, cd_dirty := False\<rparr>" "\<And>i. ix = Some i \<Longrightarrow> hx_nodes i = mapped_vectors ?t d"
    unfolding good_def by blast
  let ?e = "cl_data c'"
  have bc: "base_count ?e = ?n" by (simp add: ix base_count_def tier_of_def)
  have lv: "live_slot ?e s \<longleftrightarrow> lb_ids base ! s \<noteq> None" if "s < ?n" for s
    using live [OF that] by (simp add: ix live_slot_def)
  have cv: "copy_vector ?e s ?dim = the (base_read ?t (word_of_nat s))" if "s < ?n" for s
    using that rd [OF that] by (auto simp: copy_vector_def bc) (auto simp: base_vector_def ix)
  have bv: "length (base_vector ?e s) = ?dim" if "s < ?n" for s
    using rd [OF that] by (auto simp: base_vector_def ix)
  have mv: "mapped_vectors ?t d = map (\<lambda>s. (s, the (base_read ?t (word_of_nat s)))) (List.filter (\<lambda>s. lb_ids base ! s \<noteq> None) [0..<?n])"
  proof -
    have "mapped_vectors ?t d = List.map_filter (\<lambda>s. if lb_ids base ! s \<noteq> None then Some (s, the (base_read ?t (word_of_nat s))) else None) [0..<?n]"
        unfolding mapped_vectors_def
    proof (rule map_filter_same)
      fix s assume "s \<in> set [0..<bt_count ?t]"
      then have "s < ?n" by (simp add: tier_of_def)
      with live rd show "(if live_slot d s then map_option (Pair s) (base_read ?t (word_of_nat s)) else None)
          = (if lb_ids base ! s \<noteq> None then Some (s, the (base_read ?t (word_of_nat s))) else None)"
        by force
    qed (simp add: tier_of_def)
    then show ?thesis by (simp add: map_filter_def comp_def)
  qed
  have ids: "ids_ok ?e" using D(1,3,4) len(1) by (auto simp: ids_ok_def ix)
  have lists: "lists_ok ?dim ?e" using len bv by (simp add: lists_ok_def bc) (simp add: ix fs D(1))
  have lids: "length (cd_ids ?e) = ?n" by (simp add: ix D(1) len)
  have dead: "dead_ok ?e"
  proof -
    have "dead_slots ?e = {i. i < ?n \<and> lb_ids base ! i = None}" using lv by (auto simp: dead_slots_def lids)
    then show ?thesis using b D(2) by (auto simp: dead_ok_def ix fs base_ok_def)
  qed
  have pay: "payloads_ok ?e"
  proof -
    have "slot_payload ?e = slot_payloads (lb_ids base) (lb_payloads base)"
      using b by (auto simp: slot_payloads_def slot_payload_def ix fs len fun_eq_iff base_ok_def)
    then show ?thesis using D(5) by (simp add: payloads_ok_def ix)
  qed
  have graph: "graph_ok ?dim ?e"
  proof (cases "cd_index ?e")
    case (Some i)
    then have "hx_nodes i = mapped_vectors ?t d" using ix by simp
    then show ?thesis using lv cv Some by (auto simp: graph_ok_def lids mv comp_def image_image)
  qed (simp add: graph_ok_def)
  have "coll_inv c'"
    using c shape ids lists dead pay graph by (metis coll_inv_def collection.select_convs(3) collection.surjective
        collection.update_convs(10) data_inv_def)
  moreover have "coll_contents c' key = base_contents base key" for key
  proof -
    have k: "map_of (cd_id_to_slot ?e) key = Some s \<longleftrightarrow> s < ?n \<and> lb_ids base ! s = Some key" for s
      using D(4) by (simp add: ix)
    have cf: "cl_config c' = ?opts" using shape by (metis collection.select_convs(3) collection.surjective collection.update_convs(10))
    have "coll_contents c' key = Some x \<longleftrightarrow> base_contents base key = Some x" for x
      unfolding base_contents_Some [OF b] coll_contents_def contents_def cf
      using k cv by (auto simp: slot_contents_def ix fs)
    then show ?thesis by (metis option.exhaust)
  qed
  moreover have "cl_config c' = cl_config c" using shape by (metis collection.select_convs(3) collection.surjective collection.update_convs(10))
  ultimately show ?thesis using shape by auto
qed

subsection \<open>The two loaders agree\<close>

definition sans_vectors :: "segment list \<Rightarrow> segment list" where
  "sans_vectors segs = List.filter (\<lambda>s. sg_type s \<noteq> SegVectors) segs"

lemma load_segment_others:
  assumes "load_segment M C R st seg = Inr st'" and "sg_type seg \<noteq> SegVectors" and "sg_type seg \<noteq> SegVocab"
  shows "load_segment M C R (st\<lparr>ls_vectors := v, ls_vocab := w\<rparr>) seg = Inr (st'\<lparr>ls_vectors := v, ls_vocab := w\<rparr>)"
  using assms by (auto simp: load_segment_def tryR_eq_Inr split: segment_type.splits)

lemma load_segment_skipped:
  assumes "load_segment M C R st seg = Inr st'" and "sg_type seg = SegVectors \<or> sg_type seg = SegVocab"
  shows "st'\<lparr>ls_vectors := v, ls_vocab := w\<rparr> = st\<lparr>ls_vectors := v, ls_vocab := w\<rparr>"
  using assms by (auto simp: load_segment_def tryR_eq_Inr)

lemma based_segments:
  "foldR (load_segment M C R) st segs = Inr st' \<Longrightarrow>
     foldR (based_segment M C R) (st\<lparr>ls_vectors := v, ls_vocab := w\<rparr>) (sans_vectors segs)
       = Inr (st'\<lparr>ls_vectors := v, ls_vocab := w\<rparr>)"
proof (induction segs arbitrary: st)
  case Nil
  then show ?case by (simp add: sans_vectors_def)
next
  case (Cons seg segs)
  then obtain st1 where st1: "load_segment M C R st seg = Inr st1" "foldR (load_segment M C R) st1 segs = Inr st'"
    by (auto simp: tryR_eq_Inr)
  show ?case
  proof (cases "sg_type seg = SegVectors \<or> sg_type seg = SegVocab")
    case True
    then show ?thesis
      using Cons.IH [OF st1(2)] load_segment_skipped [OF st1(1) True, where v = v and w = w]
      by (auto simp: sans_vectors_def based_segment_def)
  next
    case False
    then show ?thesis
      using Cons.IH [OF st1(2)] load_segment_others [OF st1(1), where v = v and w = w]
      by (simp add: sans_vectors_def based_segment_def)
  qed
qed

lemma place_ids_length: "foldR place_id ids es = Inr ids' \<Longrightarrow> length ids' = length ids"
  by (induction es arbitrary: ids) (auto simp: tryR_eq_Inr place_id_def split: if_splits)

lemma place_payloads_length [simp]: "length (place_payloads n es) = n"
proof -
  have "length (fold (\<lambda>(slot, v) ps. if unat slot < n then ps[unat slot := Some v] else ps) es ps) = length ps" for ps
    by (induction es arbitrary: ps) auto
  then show ?thesis by (simp add: place_payloads_def)
qed

lemma place_sparses_length [simp]: "length (place_sparses n ts) = n"
  by (simp add: place_sparses_def postings_lanes split: option.split)

lemma load_based_of_load:
  assumes "load M C R segs = Inr ld"
  shows "load_based M C R (sans_vectors segs) (length (ld_points ld))
    = Inr (ld_options ld, map (\<lambda>p. Some (pt_id p)) (ld_points ld), map pt_payload (ld_points ld), map pt_sparse (ld_points ld))"
proof -
  from assms obtain st stored vectors dir opts ids points where
    st: "foldR (load_segment M C R) load_state_empty segs = Inr st" "ls_stored st = Some stored" "ls_vectors st = Some vectors"
      "ls_iddir st = Some dir" "loaded_options st stored = Inr opts"
    and ids: "foldR place_id (replicate (unat (vb_count vectors)) None) (iddir_entries dir) = Inr ids"
    and points: "mapR (load_point vectors ids (place_payloads (unat (vb_count vectors)) (ls_payload st))
        (place_sparses (unat (vb_count vectors)) (ls_sparse st))) [0..<unat (vb_count vectors)] = Inr points"
    and ld: "ld = \<lparr>ld_options = opts, ld_points = points, ld_base = None, ld_vocab = ls_vocab st, ld_committed = None\<rparr>"
    by (auto simp: load_def tryR_eq_Inr Let_def)
  let ?n = "unat (vb_count vectors)"
  have n: "length points = ?n" using mapR_Inr_length [OF points] by simp
  have p: "load_point vectors ids (place_payloads ?n (ls_payload st)) (place_sparses ?n (ls_sparse st)) i = Inr (points ! i)"
    if "i < ?n" for i
    using list_all2_nthD [OF mapR_InrD [OF points], of i] that by simp
  have q: "ids ! i = Some (pt_id (points ! i)) \<and> place_payloads ?n (ls_payload st) ! i = pt_payload (points ! i)
      \<and> place_sparses ?n (ls_sparse st) ! i = pt_sparse (points ! i)" if "i < ?n" for i
  proof -
    from p [OF that] obtain k bs where "ids ! i = Some k" and
      "points ! i = \<lparr>pt_id = k, pt_vector = f32_chunks bs, pt_sparse = place_sparses ?n (ls_sparse st) ! i,
         pt_payload = place_payloads ?n (ls_payload st) ! i\<rparr>"
      by (auto simp: load_point_def tryR_eq_Inr dest: sym)
    then show ?thesis by simp
  qed
  have i: "ids = map (\<lambda>p. Some (pt_id p)) points"
    using q n place_ids_length [OF ids] by (intro nth_equalityI) auto
  have ps: "place_payloads ?n (ls_payload st) = map pt_payload points"
    "place_sparses ?n (ls_sparse st) = map pt_sparse points"
    using q n by (auto intro: nth_equalityI)
  have "foldR (based_segment M C R) load_state_empty (sans_vectors segs) = Inr (st\<lparr>ls_vectors := None, ls_vocab := None\<rparr>)"
    using based_segments [OF st(1), where v = None and w = None] by (simp add: load_state_empty_def)
  moreover have "loaded_options (st\<lparr>ls_vectors := None, ls_vocab := None\<rparr>) stored = Inr opts"
    using st(5) by (simp add: loaded_options_def)
  ultimately show ?thesis
    using st ids by (simp add: load_based_def ld n i [symmetric] ps)
qed

text \<open>A point that goes in through the write path comes out unchanged, except that a cosine collection normalizes its vector.\<close>

definition point_contents :: "point \<Rightarrow> stored" where
  "point_contents p = (pt_vector p, pt_sparse p, pt_payload p)"

definition stored_again :: "collection_options \<Rightarrow> stored \<Rightarrow> stored" where
  "stored_again opts x = (if co_metric opts = Cosine then (scale_vector (vector_norm (fst x)) (fst x), snd x) else x)"

lemma stored_again_plain: "co_metric opts \<noteq> Cosine \<Longrightarrow> stored_again opts x = x"
  by (simp add: stored_again_def)

lemma prepare_contents:
  "prepare_inner json_len opts ar p = Inr q \<Longrightarrow> pp_id q = pt_id p \<and> prepared_contents q = stored_again opts (point_contents p)"
  by (auto simp: prepare_inner_def prepare_vector_def tryR_eq_Inr prepared_contents_def point_contents_def stored_again_def Let_def
      split: if_splits)

lemma map_of_again: "map_of (map (\<lambda>p. (k p, g (h p))) xs) = (\<lambda>key. map_option g (map_of (map (\<lambda>p. (k p, h p)) xs) key))"
  by (induction xs) auto

lemma install_points_contents:
  assumes c: "coll_inv c" "coll_contents c = Map.empty" "length points \<le> room (cl_data c)"
    and d: "distinct (map pt_id points)" and i: "install_points json_len points c = Inr c'"
  shows "coll_inv c' \<and> coll_contents c' = (\<lambda>key. map_option (stored_again (cl_config c)) (map_of (map (\<lambda>p. (pt_id p, point_contents p)) points) key))"
proof -
  let ?o = "cl_config c"
  obtain ps where ps: "mapR (prepare_inner json_len ?o True) points = Inr ps"
    "c' = c\<lparr>cl_data := apply_prepared (co_dimension ?o) ps (cl_data c)\<rparr>"
    using i by (auto simp: install_points_def tryR_eq_Inr)
  have "map (\<lambda>q. (pp_id q, prepared_contents q)) ps = map (\<lambda>p. (pt_id p, stored_again ?o (point_contents p))) points"
    using mapR_InrD [OF ps(1)] prepare_contents
    by (auto simp: list_all2_conv_all_nth intro!: nth_equalityI)
  moreover have "length ps = length points" by (rule mapR_Inr_length [OF ps(1)])
  moreover have "list_all (has_dimension (co_dimension ?o)) ps" using prepare_all_dimension [OF ps(1)] by simp
  moreover have "distinct (map fst (map (\<lambda>p. (pt_id p, stored_again ?o (point_contents p))) points))" using d by (simp add: comp_def)
  moreover have "contents (co_dimension ?o) (cl_data c) = Map.empty" using c(2) by (simp add: coll_contents_def)
  ultimately show ?thesis
    using apply_prepared_facts [of "co_dimension ?o" "cl_data c" ps] c(1,3) ps(2)
      distinct_map_of_rev [of "map (\<lambda>p. (pt_id p, stored_again ?o (point_contents p))) points"]
      map_of_again [of pt_id "stored_again ?o" point_contents points]
    by (simp add: coll_inv_def coll_contents_def)
qed

definition based_on :: "vectors_region list \<Rightarrow> loaded_collection \<Rightarrow> loaded_base" where
  "based_on regions ld =
     \<lparr>lb_regions = regions, lb_slot_count = length (ld_points ld), lb_ids = map (\<lambda>p. Some (pt_id p)) (ld_points ld),
      lb_payloads = map pt_payload (ld_points ld), lb_sparses = map pt_sparse (ld_points ld), lb_seg_refs = [],
      lb_vector_count = 0, lb_tombstone_count = 0, lb_indexed = True\<rparr>"

lemma based_contents:
  assumes d: "distinct (map pt_id (ld_points ld))" and n: "length (ld_points ld) \<le> 2 ^ 64"
    and b: "lb_slot_count base = length (ld_points ld)" "lb_ids base = map (\<lambda>p. Some (pt_id p)) (ld_points ld)"
      "lb_payloads base = map pt_payload (ld_points ld)" "lb_sparses base = map pt_sparse (ld_points ld)"
    and r: "\<And>s. s < length (ld_points ld) \<Longrightarrow> base_read (tier_of base) (word_of_nat s) = Some (pt_vector (ld_points ld ! s))"
    and dim: "\<forall>p\<in>set (ld_points ld). length (pt_vector p) = dim"
  shows "base_ok dim base \<and> base_contents base = map_of (map (\<lambda>p. (pt_id p, point_contents p)) (ld_points ld))"
proof -
  let ?ps = "ld_points ld"
  have ids: "base_ids_ok (lb_ids base)"
    using d by (auto simp: base_ids_ok_def b(2) distinct_conv_nth)
  then have ok: "base_ok dim base"
    using n r dim by (auto simp: base_ok_def b)
  have "List.map_filter (\<lambda>s. map_option (\<lambda>k. (k, (the (base_read (tier_of base) (word_of_nat s)),
         lb_sparses base ! s, lb_payloads base ! s))) (lb_ids base ! s)) [0..<length ?ps]
      = List.map_filter (\<lambda>s. Some (pt_id (?ps ! s), point_contents (?ps ! s))) [0..<length ?ps]"
    by (rule map_filter_same) (simp_all add: b r point_contents_def)
  also have "\<dots> = map (\<lambda>p. (pt_id p, point_contents p)) ?ps"
    by (auto simp: map_filter_def intro: nth_equalityI)
  finally show ?thesis using ok by (simp add: base_contents_def b(1) fun_eq_iff)
qed

subsection \<open>Properties\<close>

text \<open>
  C16. Sealing and loading: a collection of live points with distinct ids is read back from the segments it was sealed
  into, in slot order, each with its vector, payload and sparse lane, with its options (as CONFIG keeps them), its
  declared indexes and its vocabulary. An empty sparse lane comes back as no lane.
\<close>

theorem seal_load_round_trip:
  assumes "sealable opts live" and "carried M C R opts created live" and "\<forall>d\<in>set declared. str_ok (fst d)"
    and "seal M C R xxh cid name aliases opts declared vocab live created = Inr cc"
  shows "load M C R (cc_segments cc) = Inr \<lparr>ld_options = saved_options opts declared, ld_points = map saved_point live,
     ld_base = None, ld_vocab = saved_vocab vocab, ld_committed = None\<rparr>"
  using assms by (rule load_of_seal)

text \<open>
  C17. Whatever the materializing loader accepts, the mapped loader accepts without the vectors, with the same options, ids,
  payloads and lanes; and if the mapped regions serve the vectors of the loaded points, installing the base gives a collection that
  satisfies the invariant. The contents of the collection that the points are fed into through the write path are those of the
  base, each vector normalized once more where the metric is cosine, and exactly those of the base for the other metrics.
\<close>

theorem mapped_tier_agrees:
  assumes "load M C R segs = Inr ld" and "distinct (map pt_id (ld_points ld))" and "length (ld_points ld) \<le> 2 ^ 64"
    and "with_embedder name (ld_options ld) cid persistent capacity slot = Inr c"
    and "install_points json_len (ld_points ld) c = Inr c1"
    and "\<forall>s<length (ld_points ld). base_read (tier_of (based_on regions ld)) (word_of_nat s) = Some (pt_vector (ld_points ld ! s))"
    and "\<forall>p\<in>set (ld_points ld). length (pt_vector p) = co_dimension (ld_options ld)"
  shows "load_based M C R (sans_vectors segs) (length (ld_points ld))
      = Inr (ld_options ld, lb_ids (based_on regions ld), lb_payloads (based_on regions ld), lb_sparses (based_on regions ld))
    \<and> fst (install_base (based_on regions ld) c) = Inr () \<and> coll_inv (snd (install_base (based_on regions ld) c))
    \<and> coll_contents c1 = (\<lambda>key. map_option (stored_again (ld_options ld)) (coll_contents (snd (install_base (based_on regions ld) c)) key))
    \<and> (co_metric (ld_options ld) \<noteq> Cosine \<longrightarrow> coll_contents (snd (install_base (based_on regions ld) c)) = coll_contents c1)"
proof -
  have c: "coll_inv c" "coll_contents c = Map.empty" "cl_config c = ld_options ld" "room (cl_data c) = 2 ^ 64"
    using with_embedder_facts [OF assms(4)] by blast+
  have p: "coll_contents c1 = (\<lambda>key. map_option (stored_again (ld_options ld)) (map_of (map (\<lambda>p. (pt_id p, point_contents p)) (ld_points ld)) key))"
    using install_points_contents [OF c(1,2) _ assms(2,5)] assms(3) c(3,4) by simp
  have b: "base_ok (co_dimension (cl_config c)) (based_on regions ld)"
    "base_contents (based_on regions ld) = map_of (map (\<lambda>p. (pt_id p, point_contents p)) (ld_points ld))"
    using based_contents [OF assms(2,3), of "based_on regions ld" "co_dimension (cl_config c)"] assms(6,7) c(3)
    by (auto simp: based_on_def)
  have k: "config_ok (cl_config c)" using c(1) by (simp add: coll_inv_def)
  have plain: "map_option (stored_again (ld_options ld)) x = x" if "co_metric (ld_options ld) \<noteq> Cosine" for x
    by (cases x) (simp_all add: stored_again_plain [OF that])
  show ?thesis
    using install_base_facts [OF k b(1) prod.collapse [symmetric]] load_based_of_load [OF assms(1)] b(2) p plain
    by (simp add: based_on_def)
qed

subsection \<open>A collection sealed, loaded and installed\<close>

definition id_roaring :: roaring where
  "id_roaring = \<lparr>ro_ser = (\<lambda>s. Some (concat (map (to_le 8) (sorted_list_of_set s)))),
     ro_de = (\<lambda>b. Some (set (map (\<lambda>i. of_le (slice_of b (8 * i) (8 * i + 8))) [0..<length b div 8])))\<rparr>"

lemma id_roaring_carries: "ro_carries id_roaring s"
proof -
  let ?xs = "sorted_list_of_set s"
  let ?bs = "map (to_le 8) ?xs :: bytes list"
  have l: "\<forall>b\<in>set ?bs. length b = 8" by auto
  have n: "length (concat ?bs) = 8 * length ?xs" using length_concat_same [OF l] by simp
  have "of_le (slice_of (concat ?bs) (8 * i) (8 * i + 8)) = ?xs ! i" if "i < length ?xs" for i
  proof -
    have e: "8 * i = i * 8" "i * 8 + 8 = Suc i * 8" by simp_all
    have "slice_of (concat ?bs) (8 * i) (8 * i + 8) = ?bs ! i"
      unfolding e using slice_concat [OF l, of i] that by simp
    then show ?thesis using that by (simp add: of_le_to_le)
  qed
  moreover have "length (concat ?bs) div 8 = length ?xs" by (simp only: n nonzero_mult_div_cancel_left)
  ultimately have "map (\<lambda>i. of_le (slice_of (concat ?bs) (8 * i) (8 * i + 8))) [0..<length (concat ?bs) div 8] = ?xs"
    by (simp only: ) (rule nth_equalityI, simp_all)
  moreover have "set ?xs = s" by (simp add: finite_subset [OF subset_UNIV finite])
  ultimately show ?thesis unfolding ro_carries_def id_roaring_def
    by (simp del: list.set_map set_map set_upt)
qed

definition two_live :: "point list" where
  "two_live = [\<lparr>pt_id = ''a'', pt_vector = [0x3F800000, 0], pt_sparse = Some \<lparr>sv_indices = [2, 7], sv_values = [1, 2]\<rparr>,
      pt_payload = Some (JBool True)\<rparr>,
    \<lparr>pt_id = ''b'', pt_vector = [0, 0], pt_sparse = Some \<lparr>sv_indices = [], sv_values = []\<rparr>, pt_payload = None\<rparr>]"

lemma two_live_sealable: "sealable (options_new 2 DotProduct) two_live"
proof -
  have "str_ok ''a''" "str_ok ''b''" by code_simp+
  then show ?thesis
    by (simp add: sealable_def two_live_def options_fit_def options_new_def hnsw_default_def lane_ok_def sparse_ok_def
        f32_is_finite_def)
qed

lemma two_live_carried:
  "carried (one_doc (JBool True)) (one_doc (to_stored (options_new 2 DotProduct) 9)) id_roaring (options_new 2 DotProduct) 9 two_live"
  by (simp add: carried_def two_live_def id_roaring_carries)

theorem seal_load_round_trip_witness:
  "\<exists>cc :: checkpoint_coll. load (one_doc (JBool True)) (one_doc (to_stored (options_new 2 DotProduct) 9)) id_roaring (cc_segments cc)
     = Inr \<lparr>ld_options = saved_options (options_new 2 DotProduct) [(''k'', Keyword)], ld_points = map saved_point two_live,
         ld_base = None, ld_vocab = Some [1], ld_committed = None\<rparr>"
proof -
  let ?M = "one_doc (JBool True)" and ?C = "one_doc (to_stored (options_new 2 DotProduct) 9)"
  have p: "payload_entries two_live = [(0, JBool True)]"
    by (simp add: payload_entries_def two_live_def map_filter_simps)
  have s: "sparse_to_postings two_live = [(2, [(0, 1)]), (7, [(0, 2)])]"
    by (simp add: sparse_to_postings_def two_live_def slot_terms_def)
  have i: "seal_indexes [(''k'', Keyword)] two_live = [(''k'', KeywordIx [])]"
    by (simp add: seal_indexes_def two_live_def indexes_new_def indexes_insert_def)
  obtain cc where cc: "seal ?M ?C id_roaring (\<lambda>_. 7) 1 ''c'' [] (options_new 2 DotProduct) [(''k'', Keyword)] (Some [1]) two_live 9 = Inr cc"
    by (simp add: seal_def p s i stored_config_encode_def seal_vectors_def options_new_def payload_encode_def
        payload_entry_encode_def seal_pidx_def postings_def sorted_postings_def pidx_encode_def enc_counted_def u32_len_def
        sparse_encode_def term_encode_def weight_encode_def)
  have "str_ok ''k''" by code_simp
  from seal_load_round_trip [OF two_live_sealable two_live_carried _ cc] this show ?thesis
    by (intro exI [of _ cc]) (simp add: saved_vocab_def)
qed

definition demo_region :: vectors_region where
  "demo_region = \<lparr>vr_map = concat (map (to_le 4) [0x3F800000 :: f32, 0]), vr_records_start = 0, vr_stride = 8,
     vr_dimension = 2, vr_first_slot = 0, vr_count = 1\<rparr>"

definition demo_loaded :: loaded_collection where
  "demo_loaded = \<lparr>ld_options = options_new 2 DotProduct, ld_points = [demo_point], ld_base = None, ld_vocab = None, ld_committed = None\<rparr>"

lemma demo_region_reads:
  "base_read (tier_of (based_on [demo_region] demo_loaded)) 0 = Some (pt_vector demo_point)"
proof -
  have "f32_chunks (concat (map (to_le 4) [0x3F800000 :: f32, 0])) = [0x3F800000, 0]" by (rule f32_chunks_vector)
  moreover have "length (concat (map (to_le 4) [0x3F800000 :: f32, 0])) = 8" by simp
  moreover have "slice_of xs 0 8 = xs" if "length xs = 8" for xs :: bytes using that by (simp add: slice_of_def)
  ultimately have "region_read_f32 demo_region 0 = Some [0x3F800000, 0]"
    unfolding region_read_f32_def region_record_def demo_region_def by (simp del: concat.simps list.map)
  then show ?thesis
    by (simp add: base_read_def tier_of_def based_on_def in_region_def demo_point_def) (simp add: demo_region_def)
qed

lemma demo_sealed:
  obtains cc :: checkpoint_coll where
    "load no_msgpack (one_doc (to_stored (options_new 2 DotProduct) 9)) id_roaring (cc_segments cc) = Inr demo_loaded"
proof -
  let ?C = "one_doc (to_stored (options_new 2 DotProduct) 9)"
  have p: "payload_entries [demo_point] = []" "sparse_to_postings [demo_point] = []"
    by (simp_all add: payload_entries_def demo_point_def map_filter_simps sparse_to_postings_def slot_terms_def)
  obtain cc where cc: "seal no_msgpack ?C id_roaring (\<lambda>_. 7) 1 ''c'' [] (options_new 2 DotProduct) [] None [demo_point] 9 = Inr cc"
    by (simp add: seal_def p stored_config_encode_def seal_vectors_def options_new_def)
  have "str_ok ''a''" by code_simp
  then have "sealable (options_new 2 DotProduct) [demo_point]"
    by (simp add: sealable_def demo_point_def options_fit_def options_new_def hnsw_default_def lane_ok_def)
  moreover have "carried no_msgpack ?C id_roaring (options_new 2 DotProduct) 9 [demo_point]"
    by (simp add: carried_def demo_point_def id_roaring_carries)
  moreover have "saved_options (options_new 2 DotProduct) [] = options_new 2 DotProduct"
    by (simp add: saved_options_def stored_view_def options_new_def compression_default_def)
  moreover have "saved_point demo_point = demo_point" by (simp add: saved_point_def demo_point_def tidy_sparse_def)
  ultimately show thesis
    using load_of_seal [OF _ _ _ cc] that [of cc] by (simp add: demo_loaded_def saved_vocab_def)
qed

lemma demo_installed: "install_points (\<lambda>_. 0) [demo_point] demo_coll = Inr demo_full"
  using demo_prepare [of True] by (simp add: install_points_def demo_full_def demo_coll_def options_new_def del: mapR.simps)

theorem mapped_tier_agrees_witness:
  "\<exists>cc :: checkpoint_coll. load_based no_msgpack (one_doc (to_stored (options_new 2 DotProduct) 9)) id_roaring (sans_vectors (cc_segments cc)) 1
      = Inr (options_new 2 DotProduct, [Some ''a''], [None], [None])
    \<and> fst (install_base (based_on [demo_region] demo_loaded) demo_coll) = Inr ()
    \<and> coll_contents (snd (install_base (based_on [demo_region] demo_loaded) demo_coll)) = coll_contents demo_full"
proof -
  obtain cc :: checkpoint_coll where
    cc: "load no_msgpack (one_doc (to_stored (options_new 2 DotProduct) 9)) id_roaring (cc_segments cc) = Inr demo_loaded"
    by (rule demo_sealed)
  have d: "length (pt_vector demo_point) = 2" "co_dimension (options_new 2 DotProduct) = 2"
    "co_metric (options_new 2 DotProduct) = DotProduct"
    by (simp_all add: demo_point_def options_new_def)
  have "with_embedder ''c'' (ld_options demo_loaded) 1 False 0 EmbNone = Inr demo_coll"
    using demo_created by (simp add: demo_loaded_def)
  note m = mapped_tier_agrees [OF cc _ _ this, of "\<lambda>_. 0" demo_full "[demo_region]"]
  have h: "distinct (map pt_id (ld_points demo_loaded))" "length (ld_points demo_loaded) \<le> 2 ^ 64"
    "install_points (\<lambda>_. 0) (ld_points demo_loaded) demo_coll = Inr demo_full"
    "\<forall>s<length (ld_points demo_loaded). base_read (tier_of (based_on [demo_region] demo_loaded)) (word_of_nat s) = Some (pt_vector (ld_points demo_loaded ! s))"
    "\<forall>p\<in>set (ld_points demo_loaded). length (pt_vector p) = co_dimension (ld_options demo_loaded)"
    "co_metric (ld_options demo_loaded) \<noteq> Cosine"
    using demo_installed demo_region_reads d by (simp_all add: demo_loaded_def)
  have r: "load_based no_msgpack (one_doc (to_stored (options_new 2 DotProduct) 9)) id_roaring (sans_vectors (cc_segments cc)) 1
      = Inr (options_new 2 DotProduct, [Some ''a''], [None], [None])"
    using conjunct1 [OF m [OF h(1-5)]] by (simp add: demo_loaded_def based_on_def demo_point_def)
  show ?thesis using m [OF h(1-5)] h(6) r by blast
qed

end
