(* ===== verification/Registry.thy ===== *)
theory Registry
  imports Text_Ops Mapped_Base
begin

section \<open>The registry (\<open>database.rs\<close>)\<close>

text \<open>
  A database handle. Every \<open>CollectionInner\<close> ever built is a cell of \<open>db_cells\<close> and an \<open>Arc\<close> to it is its position, so a
  handle of a deleted collection still names its cell. The maps of the registry are association lists; where the code
  iterates over a \<open>DashMap\<close>, whose order is not specified, the model goes through the list. The file behind the database is the
  log function of the environment \<open>V\<close>; \<open>db_persistent\<close> tells whether there is one. The registry mutex makes each
  operation one step.
\<close>

definition MAX_DIMENSION :: nat where "MAX_DIMENSION = 65536"

record ('q, 'e) database =
  db_cells :: "'q collection list"
  db_collections :: "(string \<times> nat) list"
  db_aliases :: "(string \<times> string) list"
  db_registered :: "(string \<times> nat) list"
  db_embedders :: "'e list"
  db_next_coll_id :: u32
  db_persistent :: bool

definition memory :: "('q, 'e) database" where
  "memory = \<lparr>db_cells = [], db_collections = [], db_aliases = [], db_registered = [], db_embedders = [],
     db_next_coll_id = 1, db_persistent = False\<rparr>"

definition cell :: "('q, 'e) database \<Rightarrow> nat \<Rightarrow> 'q collection" where
  "cell db r = db_cells db ! r"

definition set_cell :: "nat \<Rightarrow> 'q collection \<Rightarrow> ('q, 'e) database \<Rightarrow> ('q, 'e) database" where
  "set_cell r c db = db\<lparr>db_cells := (db_cells db)[r := c]\<rparr>"

definition on_cell :: "nat \<Rightarrow> ('q collection \<Rightarrow> 'q collection) \<Rightarrow> ('q, 'e) database \<Rightarrow> ('q, 'e) database" where
  "on_cell r f db = set_cell r (f (cell db r)) db"

definition collection_by_id :: "('q, 'e) database \<Rightarrow> u32 \<Rightarrow> (string \<times> nat) option" where
  "collection_by_id db coll_id = find (\<lambda>e. cl_coll_id (cell db (snd e)) = coll_id) (db_collections db)"

definition db_append :: "('e, 's) env \<Rightarrow> u32 \<Rightarrow> wal_op \<Rightarrow> bytes res \<Rightarrow> ('q, 'e) database \<Rightarrow> 's \<Rightarrow> unit res \<times> 's" where
  "db_append V coll_id op body db s =
     (if \<not> db_persistent db then (Inr (), s)
      else case body of Inl e \<Rightarrow> (Inl e, s) | Inr b \<Rightarrow> ev_log V coll_id op b s)"

subsection \<open>Creating collections\<close>

definition with_registered_in_available :: "('q, 'e) database \<Rightarrow> vec_lite_error \<Rightarrow> vec_lite_error" where
  "with_registered_in_available db e =
     (case e of
        UnsupportedProvider requested available \<Rightarrow> UnsupportedProvider requested (sort (available @ map fst (db_registered db)))
      | other \<Rightarrow> other)"

text \<open>The slot of a new collection, and the embedder states with the one it may have built.\<close>

definition resolve_embedder ::
  "('e, 's) env \<Rightarrow> bool \<Rightarrow> collection_options \<Rightarrow> ('q, 'e) database \<Rightarrow> (embedder_slot \<times> 'e list) res" where
  "resolve_embedder V defer_missing opts db =
     (case co_embedding_provider opts of
        None \<Rightarrow> Inr (EmbNone, db_embedders db)
      | Some provider \<Rightarrow>
          (case ev_build V provider (co_dimension opts) of
             Inr e \<Rightarrow> Inr (EmbReady (length (db_embedders db)), db_embedders db @ [e])
           | Inl err \<Rightarrow>
               (case map_of (db_registered db) provider of
                  Some r \<Rightarrow> Inr (EmbReady r, db_embedders db)
                | None \<Rightarrow> if defer_missing then Inr (EmbMissing provider, db_embedders db)
                          else Inl (with_registered_in_available db err))))"

definition create_entries :: "('e, 's) env \<Rightarrow> string \<Rightarrow> collection_options \<Rightarrow> (wal_op \<times> bytes res) list" where
  "create_entries V name opts =
     (CreateColl, wal_encode (wm_create (ev_wal V))
        \<lparr>wc_name = name, wc_aliases = [], wc_config = to_stored opts (ev_now V)\<rparr>)
     # map (\<lambda>(key, kind). (PidxDeclare, wal_encode (wm_pidx (ev_wal V)) \<lparr>wp_key = key, wp_kind = pidx_kind_byte kind\<rparr>))
         (co_payload_indexes opts)"

fun append_all :: "('e, 's) env \<Rightarrow> u32 \<Rightarrow> (wal_op \<times> bytes res) list \<Rightarrow> ('q, 'e) database \<Rightarrow> 's \<Rightarrow> unit res \<times> 's" where
  "append_all V coll_id [] db s = (Inr (), s)"
| "append_all V coll_id ((op, body) # es) db s =
     (case db_append V coll_id op body db s of
        (Inl e, s1) \<Rightarrow> (Inl e, s1)
      | (Inr _, s1) \<Rightarrow> append_all V coll_id es db s1)"

definition create_collection_impl ::
  "('e, 's) env \<Rightarrow> string \<Rightarrow> collection_options \<Rightarrow> bool \<Rightarrow> ('q, 'e) database \<Rightarrow> 's \<Rightarrow> nat res \<times> ('q, 'e) database \<times> 's" where
  "create_collection_impl V name opts defer_missing db s =
     (case tryR (validate_collection_name name) (\<lambda>_.
           if co_dimension opts = 0 \<or> MAX_DIMENSION < co_dimension opts
           then Inl (InvalidArgument (''dimension must be in 1..='' @ show_nat MAX_DIMENSION @ '', got '' @ show_nat (co_dimension opts)))
           else tryR (resolve_embedder V defer_missing opts db) (\<lambda>slot.
             if map_of (db_collections db) name \<noteq> None then Inl (AlreadyExists name) else Inr slot)) of
        Inl e \<Rightarrow> (Inl e, db, s)
      | Inr (slot, E) \<Rightarrow>
          let coll_id = db_next_coll_id db; db1 = db\<lparr>db_next_coll_id := coll_id + 1\<rparr>
          in case append_all V coll_id (create_entries V name opts) db1 s of
               (Inl e, s1) \<Rightarrow> (Inl e, db1, s1)
             | (Inr _, s1) \<Rightarrow>
                 (case with_embedder name opts coll_id (db_persistent db) 0 slot of
                    Inl e \<Rightarrow> (Inl e, db1, s1)
                  | Inr c \<Rightarrow>
                      (Inr (length (db_cells db)),
                       db1\<lparr>db_cells := db_cells db @ [c], db_embedders := E,
                           db_collections := AList.update name (length (db_cells db)) (db_collections db)\<rparr>, s1)))"

definition create_collection ::
  "('e, 's) env \<Rightarrow> string \<Rightarrow> collection_options \<Rightarrow> ('q, 'e) database \<Rightarrow> 's \<Rightarrow> nat res \<times> ('q, 'e) database \<times> 's" where
  "create_collection V name opts = create_collection_impl V name opts False"

definition create_collection_deferred ::
  "('e, 's) env \<Rightarrow> string \<Rightarrow> collection_options \<Rightarrow> ('q, 'e) database \<Rightarrow> 's \<Rightarrow> nat res \<times> ('q, 'e) database \<times> 's" where
  "create_collection_deferred V name opts = create_collection_impl V name opts True"

subsection \<open>Custom embedders\<close>

fun bind_all :: "'e embedder_ops \<Rightarrow> string \<Rightarrow> nat \<Rightarrow> (string \<times> nat) list \<Rightarrow> ('q, 'e) database \<Rightarrow> unit res \<times> ('q, 'e) database" where
  "bind_all ops name e [] db = (Inr (), db)"
| "bind_all ops name e ((n, r) # cs) db =
     (case bind_embedder ops name e (cell db r) (db_embedders db) of
        (res, c, E) \<Rightarrow>
          let db1 = (set_cell r c db)\<lparr>db_embedders := E\<rparr>
          in case res of Inl err \<Rightarrow> (Inl err, db1) | Inr _ \<Rightarrow> bind_all ops name e cs db1)"

definition register_embedder ::
  "('e, 's) env \<Rightarrow> string \<Rightarrow> 'e \<Rightarrow> ('q, 'e) database \<Rightarrow> unit res \<times> ('q, 'e) database" where
  "register_embedder V name embedder db =
     (if name \<in> set available_providers \<or> is_onnx_provider name
      then (Inl (AlreadyExists (''embedding provider '' @ quoted name @ '' is built-in'')), db)
      else if map_of (db_registered db) name \<noteq> None
      then (Inl (AlreadyExists (''embedding provider '' @ quoted name @ '' is already registered'')), db)
      else
        let e = length (db_embedders db);
            db1 = db\<lparr>db_embedders := db_embedders db @ [embedder], db_registered := AList.update name e (db_registered db)\<rparr>
        in bind_all (ev_emb V) name e (db_collections db) db1)"

subsection \<open>Lookup, aliases, removal, renaming\<close>

definition lookup_collection :: "string \<Rightarrow> ('q, 'e) database \<Rightarrow> nat res" where
  "lookup_collection name db =
     (case map_of (db_collections db) name of
        Some r \<Rightarrow> Inr r
      | None \<Rightarrow>
          (case Option.bind (map_of (db_aliases db) name) (map_of (db_collections db)) of
             Some r \<Rightarrow> Inr r
           | None \<Rightarrow> Inl (CollectionNotFound name)))"

definition create_alias ::
  "('e, 's) env \<Rightarrow> string \<Rightarrow> string \<Rightarrow> ('q, 'e) database \<Rightarrow> 's \<Rightarrow> unit res \<times> ('q, 'e) database \<times> 's" where
  "create_alias V alias target db s =
     (case tryR (validate_collection_name alias) (\<lambda>_.
           if map_of (db_collections db) alias \<noteq> None \<or> map_of (db_aliases db) alias \<noteq> None then Inl (AlreadyExists alias)
           else ok_or (map_of (db_collections db) target) (CollectionNotFound target)) of
        Inl e \<Rightarrow> (Inl e, db, s)
      | Inr r \<Rightarrow>
          (case db_append V (cl_coll_id (cell db r)) Alias
                  (wal_encode (wm_alias (ev_wal V)) \<lparr>wa_create = True, wa_alias = alias\<rparr>) db s of
             (Inl e, s1) \<Rightarrow> (Inl e, db, s1)
           | (Inr _, s1) \<Rightarrow>
               (Inr (), on_cell r (\<lambda>c. c\<lparr>cl_aliases := cl_aliases c @ [alias]\<rparr>)
                          (db\<lparr>db_aliases := AList.update alias target (db_aliases db)\<rparr>), s1)))"

definition delete_alias ::
  "('e, 's) env \<Rightarrow> string \<Rightarrow> ('q, 'e) database \<Rightarrow> 's \<Rightarrow> unit res \<times> ('q, 'e) database \<times> 's" where
  "delete_alias V alias db s =
     (case map_of (db_aliases db) alias of
        None \<Rightarrow> (Inl (CollectionNotFound alias), db, s)
      | Some target \<Rightarrow>
          let r = map_of (db_collections db) target
          in case (case r of
                     None \<Rightarrow> (Inr (), s)
                   | Some r \<Rightarrow> db_append V (cl_coll_id (cell db r)) Alias
                       (wal_encode (wm_alias (ev_wal V)) \<lparr>wa_create = False, wa_alias = alias\<rparr>) db s) of
               (Inl e, s1) \<Rightarrow> (Inl e, db, s1)
             | (Inr _, s1) \<Rightarrow>
                 let db1 = db\<lparr>db_aliases := AList.delete alias (db_aliases db)\<rparr>
                 in (Inr (), case r of
                               None \<Rightarrow> db1
                             | Some r \<Rightarrow> on_cell r (\<lambda>c. c\<lparr>cl_aliases := filter (\<lambda>a. a \<noteq> alias) (cl_aliases c)\<rparr>) db1, s1))"

definition list_aliases :: "('q, 'e) database \<Rightarrow> (string \<times> string) list" where
  "list_aliases db = sort_key fst (sort_key snd (db_aliases db))"

definition delete_collection ::
  "('e, 's) env \<Rightarrow> string \<Rightarrow> ('q, 'e) database \<Rightarrow> 's \<Rightarrow> unit res \<times> ('q, 'e) database \<times> 's" where
  "delete_collection V name db s =
     (case map_of (db_collections db) name of
        None \<Rightarrow> (Inl (CollectionNotFound name), db, s)
      | Some r \<Rightarrow>
          (case db_append V (cl_coll_id (cell db r)) DropColl (Inr []) db s of
             (Inl e, s1) \<Rightarrow> (Inl e, db, s1)
           | (Inr _, s1) \<Rightarrow>
               (Inr (), on_cell r (\<lambda>c. drop_base_unchecked (c\<lparr>cl_deleted := True\<rparr>))
                  (db\<lparr>db_collections := AList.delete name (db_collections db),
                      db_aliases := fold AList.delete (cl_aliases (cell db r)) (db_aliases db)\<rparr>), s1)))"

definition rename_collection ::
  "('e, 's) env \<Rightarrow> string \<Rightarrow> string \<Rightarrow> ('q, 'e) database \<Rightarrow> 's \<Rightarrow> unit res \<times> ('q, 'e) database \<times> 's" where
  "rename_collection V old new db s =
     (case tryR (validate_collection_name new) (\<lambda>_.
           if map_of (db_collections db) new \<noteq> None then Inl (AlreadyExists new)
           else ok_or (map_of (db_collections db) old) (CollectionNotFound old)) of
        Inl e \<Rightarrow> (Inl e, db, s)
      | Inr r \<Rightarrow>
          (case db_append V (cl_coll_id (cell db r)) Rename (wal_encode (wm_rename (ev_wal V)) new) db s of
             (Inl e, s1) \<Rightarrow> (Inl e, db, s1)
           | (Inr _, s1) \<Rightarrow>
               (Inr (), on_cell r (\<lambda>c. c\<lparr>cl_name := new\<rparr>)
                  (db\<lparr>db_collections := AList.update new r (AList.delete old (db_collections db)),
                      db_aliases := fold (\<lambda>a. AList.update a new) (cl_aliases (cell db r)) (db_aliases db)\<rparr>), s1)))"

definition list_collections :: "('q, 'e) database \<Rightarrow> string list" where
  "list_collections db = sort (map fst (db_collections db))"

subsection \<open>Loading and replay\<close>

definition lenient_slot :: "('e, 's) env \<Rightarrow> collection_options \<Rightarrow> ('q, 'e) database \<Rightarrow> embedder_slot \<times> 'e list" where
  "lenient_slot V opts db =
     (case resolve_embedder V True opts db of Inr p \<Rightarrow> p | Inl _ \<Rightarrow> (EmbNone, db_embedders db))"

definition import_loaded_vocab ::
  "('e, 's) env \<Rightarrow> loaded_collection \<Rightarrow> 'q collection \<Rightarrow> 'e list \<Rightarrow> ('q collection \<times> 'e list) res" where
  "import_loaded_vocab V ld c E =
     (case ld_vocab ld of
        Some state \<Rightarrow> replay_import_vocab (ev_emb V) state c E
      | None \<Rightarrow>
          if co_embedding_provider (ld_options ld) \<noteq> None \<and> (ld_base ld \<noteq> None \<or> ld_points ld \<noteq> [])
          then Inr (mark_text_dirty c, E) else Inr (c, E))"

definition install_loaded :: "('e, 's) env \<Rightarrow> loaded_collection \<Rightarrow> 'q collection \<Rightarrow> 'q collection res" where
  "install_loaded V ld c =
     (case ld_base ld of
        Some base \<Rightarrow> (case install_base base c of (Inl e, _) \<Rightarrow> Inl e | (Inr _, c1) \<Rightarrow> Inr c1)
      | None \<Rightarrow>
          tryR (install_points (ev_json_len V) (ld_points ld) c) (\<lambda>c1.
            Inr (case ld_committed ld of None \<Rightarrow> c1 | Some (refs, n, t) \<Rightarrow> mark_sealed refs n t c1)))"

definition install_collection ::
  "('e, 's) env \<Rightarrow> string \<Rightarrow> u32 \<Rightarrow> string list \<Rightarrow> loaded_collection \<Rightarrow> ('q, 'e) database \<Rightarrow> ('q, 'e) database res" where
  "install_collection V name coll_id aliases ld db =
     (let capacity = (case ld_base ld of None \<Rightarrow> length (ld_points ld) | Some b \<Rightarrow> lb_slot_count b);
          (slot, E) = lenient_slot V (ld_options ld) db
      in tryR (with_embedder name (ld_options ld) coll_id True capacity slot) (\<lambda>c.
         tryR (import_loaded_vocab V ld (c\<lparr>cl_aliases := aliases\<rparr>) E) (\<lambda>(c1, E1).
         tryR (install_loaded V ld c1) (\<lambda>c2.
           Inr (db\<lparr>db_cells := db_cells db @ [c2], db_embedders := E1,
                   db_aliases := fold (\<lambda>a. AList.update a name) aliases (db_aliases db),
                   db_collections := AList.update name (length (db_cells db)) (db_collections db)\<rparr>)))))"

definition created_empty :: "collection_options \<Rightarrow> loaded_collection" where
  "created_empty opts = \<lparr>ld_options = opts, ld_points = [], ld_base = None, ld_vocab = None, ld_committed = None\<rparr>"

definition apply_wal_entry :: "('e, 's) env \<Rightarrow> wal_entry \<Rightarrow> ('q, 'e) database \<Rightarrow> ('q, 'e) database res" where
  "apply_wal_entry V entry db =
     (let W = ev_wal V; body = we_body entry; found = collection_by_id db (we_coll_id entry)
      in case we_op entry of
        CreateColl \<Rightarrow>
          if found \<noteq> None then Inr db
          else tryR (wal_decode (wm_create W) body ''create'') (\<lambda>b.
               tryR (from_stored (wc_config b)) (\<lambda>opts.
                 install_collection V (wc_name b) (we_coll_id entry) (wc_aliases b) (created_empty opts) db))
      | DropColl \<Rightarrow>
          (case found of
             None \<Rightarrow> Inr db
           | Some (name, r) \<Rightarrow>
               Inr (on_cell r (\<lambda>c. c\<lparr>cl_deleted := True\<rparr>) (db\<lparr>db_collections := AList.delete name (db_collections db)\<rparr>)))
      | Rename \<Rightarrow>
          tryR (wal_decode (wm_rename W) body ''rename'') (\<lambda>new.
            case found of
              None \<Rightarrow> Inr db
            | Some (name, r) \<Rightarrow>
                Inr (on_cell r (\<lambda>c. c\<lparr>cl_name := new\<rparr>)
                  (db\<lparr>db_collections := AList.update new r (AList.delete name (db_collections db))\<rparr>)))
      | UpsertBatch \<Rightarrow>
          tryR (wal_decode (wm_points W) body ''upsert'') (\<lambda>points.
            case found of
              None \<Rightarrow> Inr db
            | Some (name, r) \<Rightarrow>
                tryR (replay_upsert (ev_json_len V) (ev_emb V) points (cell db r) (db_embedders db)) (\<lambda>(c, E).
                  Inr ((set_cell r c db)\<lparr>db_embedders := E\<rparr>)))
      | DeleteBatch \<Rightarrow>
          tryR (wal_decode (wm_ids W) body ''delete'') (\<lambda>keys.
            case found of
              None \<Rightarrow> Inr db
            | Some (name, r) \<Rightarrow> Inr (on_cell r (replay_delete keys) db))
      | Alias \<Rightarrow>
          tryR (wal_decode (wm_alias W) body ''alias'') (\<lambda>b.
            case found of
              None \<Rightarrow> Inr db
            | Some (name, r) \<Rightarrow>
                if wa_create b
                then Inr (on_cell r (\<lambda>c. c\<lparr>cl_aliases := cl_aliases c @ [wa_alias b]\<rparr>)
                       (db\<lparr>db_aliases := AList.update (wa_alias b) name (db_aliases db)\<rparr>))
                else Inr (on_cell r (\<lambda>c. c\<lparr>cl_aliases := filter (\<lambda>a. a \<noteq> wa_alias b) (cl_aliases c)\<rparr>)
                       (db\<lparr>db_aliases := AList.delete (wa_alias b) (db_aliases db)\<rparr>)))
      | PidxDeclare \<Rightarrow>
          tryR (wal_decode (wm_pidx W) body ''pidx'') (\<lambda>b.
            case found of
              None \<Rightarrow> Inr db
            | Some (name, r) \<Rightarrow>
                tryR (pidx_kind_from (wp_kind b)) (\<lambda>kind. Inr (on_cell r (replay_declare_index (wp_key b) kind) db)))
      | VocabUpdate \<Rightarrow>
          (case found of
             None \<Rightarrow> Inr db
           | Some (name, r) \<Rightarrow>
               tryR (replay_import_vocab (ev_emb V) body (cell db r) (db_embedders db)) (\<lambda>(c, E).
                 Inr ((set_cell r c db)\<lparr>db_embedders := E\<rparr>))))"

definition replay_entries :: "('e, 's) env \<Rightarrow> wal_entry list \<Rightarrow> ('q, 'e) database \<Rightarrow> ('q, 'e) database res" where
  "replay_entries V es db = foldR (\<lambda>db e. apply_wal_entry V e db) db es"

end
