(* ===== verification/Registry_Inv.thy ===== *)
theory Registry_Inv
  imports Registry
begin

section \<open>What the registry keeps\<close>

text \<open>
  The invariant of a database: the registered collections are exactly the cells that are not deleted, each under its own
  name; the ids are distinct and below the counter; an alias resolves exactly when the collection it points to carries it.
  Every registry operation and every operation on a handle, also on a stale one, keeps it.
\<close>

definition names_ok :: "('q, 'e) database \<Rightarrow> bool" where
  "names_ok db \<longleftrightarrow> distinct (map fst (db_collections db)) \<and>
     (\<forall>n r. map_of (db_collections db) n = Some r \<longleftrightarrow>
        r < length (db_cells db) \<and> cl_name (cell db r) = n \<and> \<not> cl_deleted (cell db r))"

definition coll_ids_ok :: "('q, 'e) database \<Rightarrow> bool" where
  "coll_ids_ok db \<longleftrightarrow> distinct (map cl_coll_id (db_cells db)) \<and> (\<forall>c\<in>set (db_cells db). cl_coll_id c < db_next_coll_id db)"

definition aliases_ok :: "('q, 'e) database \<Rightarrow> bool" where
  "aliases_ok db \<longleftrightarrow> distinct (map fst (db_aliases db)) \<and>
     (\<forall>a t. map_of (db_aliases db) a = Some t \<longleftrightarrow>
        (\<exists>r. map_of (db_collections db) t = Some r \<and> a \<in> set (cl_aliases (cell db r))))"

definition reg_inv :: "('q, 'e) database \<Rightarrow> bool" where
  "reg_inv db \<longleftrightarrow> names_ok db \<and> coll_ids_ok db \<and> aliases_ok db \<and>
     (\<forall>r. r < length (db_cells db) \<and> \<not> cl_deleted (cell db r) \<longrightarrow> coll_inv (cell db r))"

lemmas reg_defs = reg_inv_def names_ok_def coll_ids_ok_def aliases_ok_def

subsection \<open>Reading the registry\<close>

lemma registered: "reg_inv db \<Longrightarrow> map_of (db_collections db) n = Some r \<longleftrightarrow>
    r < length (db_cells db) \<and> cl_name (cell db r) = n \<and> \<not> cl_deleted (cell db r)"
  by (simp add: reg_inv_def names_ok_def)

lemma registered_mem: "reg_inv db \<Longrightarrow> (n, r) \<in> set (db_collections db) \<longleftrightarrow>
    r < length (db_cells db) \<and> cl_name (cell db r) = n \<and> \<not> cl_deleted (cell db r)"
  using registered [of db n r] by (auto simp: reg_inv_def names_ok_def)

lemma unregistered: "reg_inv db \<Longrightarrow> map_of (db_collections db) n = None \<Longrightarrow> r < length (db_cells db)
    \<Longrightarrow> cl_name (cell db r) = n \<Longrightarrow> cl_deleted (cell db r)"
  using registered [of db n r] by auto

lemma cells_inv: "reg_inv db \<Longrightarrow> r < length (db_cells db) \<Longrightarrow> \<not> cl_deleted (cell db r) \<Longrightarrow> coll_inv (cell db r)"
  by (simp add: reg_inv_def)

lemma cell_ids: "reg_inv db \<Longrightarrow> r < length (db_cells db) \<Longrightarrow> r' < length (db_cells db) \<Longrightarrow>
    cl_coll_id (cell db r) = cl_coll_id (cell db r') \<longleftrightarrow> r = r'"
  by (auto simp: reg_inv_def coll_ids_ok_def cell_def distinct_conv_nth)

lemma find_registered:
  assumes "reg_inv db" "r < length (db_cells db)" "\<not> cl_deleted (cell db r)"
  shows "collection_by_id db (cl_coll_id (cell db r)) = Some (cl_name (cell db r), r)"
proof -
  have m: "(cl_name (cell db r), r) \<in> set (db_collections db)" using registered_mem [OF assms(1)] assms(2,3) by blast
  have u: "e = (cl_name (cell db r), r)"
    if "e \<in> set (db_collections db)" "cl_coll_id (cell db (snd e)) = cl_coll_id (cell db r)" for e
    using registered_mem [OF assms(1), of "fst e" "snd e"] that cell_ids [OF assms(1) _ assms(2), of "snd e"]
    by (cases e) auto
  show ?thesis
  proof (cases "collection_by_id db (cl_coll_id (cell db r))")
    case None
    then show ?thesis using m by (auto simp: collection_by_id_def find_None_iff)
  next
    case (Some e)
    then have "e \<in> set (db_collections db) \<and> cl_coll_id (cell db (snd e)) = cl_coll_id (cell db r)"
      by (auto simp: collection_by_id_def find_Some_iff)
    then show ?thesis using u Some by simp
  qed
qed

lemma find_fresh:
  assumes "reg_inv db" "\<forall>c\<in>set (db_cells db). cl_coll_id c \<noteq> i"
  shows "collection_by_id db i = None"
proof -
  have "cl_coll_id (cell db (snd e)) \<noteq> i" if "e \<in> set (db_collections db)" for e
    using registered_mem [OF assms(1), of "fst e" "snd e"] that assms(2) by (auto simp: cell_def)
  then show ?thesis unfolding collection_by_id_def find_None_iff by blast
qed

subsection \<open>Changing a cell\<close>

definition same_handle :: "'q collection \<Rightarrow> 'q collection \<Rightarrow> bool" where
  "same_handle c c' \<longleftrightarrow> cl_name c' = cl_name c \<and> cl_coll_id c' = cl_coll_id c \<and> cl_deleted c' = cl_deleted c
     \<and> cl_aliases c' = cl_aliases c"

lemma set_cell_fields [simp]:
  "db_cells (set_cell r c db) = (db_cells db)[r := c]" "db_collections (set_cell r c db) = db_collections db"
  "db_aliases (set_cell r c db) = db_aliases db" "db_next_coll_id (set_cell r c db) = db_next_coll_id db"
  "db_persistent (set_cell r c db) = db_persistent db" "db_embedders (set_cell r c db) = db_embedders db"
  "db_registered (set_cell r c db) = db_registered db"
  by (simp_all add: set_cell_def)

lemma cell_set_cell: "cell (set_cell r c db) i = (if i = r \<and> r < length (db_cells db) then c else cell db i)"
  by (cases "r < length (db_cells db)") (auto simp: cell_def nth_list_update list_update_beyond)

lemma cell_updates [simp]:
  "cell (db\<lparr>db_aliases := a\<rparr>) = cell db" "cell (db\<lparr>db_collections := cs\<rparr>) = cell db"
  "cell (db\<lparr>db_embedders := E\<rparr>) = cell db" "cell (db\<lparr>db_next_coll_id := n\<rparr>) = cell db"
  "cell (db\<lparr>db_registered := rg\<rparr>) = cell db"
  by (simp_all add: cell_def fun_eq_iff)

lemma ids_set_cell: "cl_coll_id c = cl_coll_id (cell db r) \<Longrightarrow> map cl_coll_id ((db_cells db)[r := c]) = map cl_coll_id (db_cells db)"
  by (cases "r < length (db_cells db)") (simp_all add: map_update list_update_beyond cell_def, metis list_update_id nth_map)

lemma coll_ids_set_cell:
  "coll_ids_ok db \<Longrightarrow> cl_coll_id c = cl_coll_id (cell db r) \<Longrightarrow> db_cells db' = (db_cells db)[r := c]
    \<Longrightarrow> db_next_coll_id db' = db_next_coll_id db \<Longrightarrow> coll_ids_ok db'"
proof -
  assume a: "coll_ids_ok db" "cl_coll_id c = cl_coll_id (cell db r)" "db_cells db' = (db_cells db)[r := c]"
    "db_next_coll_id db' = db_next_coll_id db"
  have "map cl_coll_id (db_cells db') = map cl_coll_id (db_cells db)" using ids_set_cell [OF a(2)] a(3) by simp
  moreover have "list_all (\<lambda>i. i < db_next_coll_id db) (map cl_coll_id (db_cells db))"
    using a(1) by (simp add: coll_ids_ok_def list_all_iff)
  ultimately have "distinct (map cl_coll_id (db_cells db'))" "list_all (\<lambda>i. i < db_next_coll_id db) (map cl_coll_id (db_cells db'))"
    using a(1) by (simp_all add: coll_ids_ok_def)
  then show "coll_ids_ok db'" using a(4) by (simp add: coll_ids_ok_def list_all_iff)
qed

lemma reg_inv_set_cell:
  assumes i: "reg_inv db" and c: "\<not> cl_deleted c \<Longrightarrow> coll_inv c" and h: "same_handle (cell db r) c"
  shows "reg_inv (set_cell r c db)"
proof -
  let ?db = "set_cell r c db"
  have f: "cl_name (cell ?db i) = cl_name (cell db i)" "cl_deleted (cell ?db i) = cl_deleted (cell db i)"
    "cl_aliases (cell ?db i) = cl_aliases (cell db i)" for i
    using h by (simp_all add: cell_set_cell same_handle_def)
  have "coll_ids_ok ?db" by (rule coll_ids_set_cell [of db c r]) (use i h in \<open>simp_all add: reg_inv_def same_handle_def\<close>)
  moreover have "\<forall>i. i < length (db_cells ?db) \<and> \<not> cl_deleted (cell ?db i) \<longrightarrow> coll_inv (cell ?db i)"
    using i c by (auto simp: reg_inv_def cell_set_cell)
  moreover have "names_ok ?db" "aliases_ok ?db" using i by (simp_all add: reg_inv_def names_ok_def aliases_ok_def f)
  ultimately show ?thesis by (simp add: reg_inv_def)
qed

lemma reg_inv_embedders [simp]: "reg_inv (db\<lparr>db_embedders := E\<rparr>) = reg_inv db"
  "reg_inv (db\<lparr>db_registered := rg\<rparr>) = reg_inv db"
  by (simp_all add: reg_defs)

lemma reg_inv_next: "reg_inv db \<Longrightarrow> db_next_coll_id db \<le> n \<Longrightarrow> reg_inv (db\<lparr>db_next_coll_id := n\<rparr>)"
  by (auto simp: reg_defs)

lemma next_greater: "(n :: u32) + 1 \<noteq> 0 \<Longrightarrow> n < n + 1"
  using inc_less_eq_triv_imp [of n] by (metis add.left_inverse add.commute not_le)

subsection \<open>The registry operations\<close>

lemma registered_append:
  assumes i: "reg_inv db" and n: "map_of (db_collections db) (cl_name c) = None" and w: "db_next_coll_id db + 1 \<noteq> 0"
    and c: "\<not> cl_deleted c" "cl_aliases c = []" "cl_coll_id c = db_next_coll_id db" "coll_inv c"
    and f: "db_cells db' = db_cells db @ [c]" "db_next_coll_id db' = db_next_coll_id db + 1" "db_aliases db' = db_aliases db"
      "db_collections db' = AList.update (cl_name c) (length (db_cells db)) (db_collections db)"
  shows "reg_inv db'"
proof -
  have cells: "r < length (db_cells db) \<Longrightarrow> cell db' r = cell db r" "cell db' (length (db_cells db)) = c" for r
    by (simp_all add: cell_def f nth_append)
  have old: "r \<noteq> length (db_cells db)" if "map_of (db_collections db) k = Some r" for k r
    using registered [OF i, of k r] that by auto
  have names: "map_of (db_collections db') k = Some r \<longleftrightarrow>
      r < length (db_cells db') \<and> cl_name (cell db' r) = k \<and> \<not> cl_deleted (cell db' r)" for k r
  proof (cases "r < length (db_cells db)")
    case True
    then show ?thesis using registered [OF i, of k r] registered [OF i, of "cl_name c" r] n cells(1) by (auto simp: f)
  next
    case False
    then show ?thesis using registered [OF i, of k r] n c(1) cells(2) by (auto simp: f less_Suc_eq)
  qed
  have "names_ok db'" using names i by (auto simp: names_ok_def reg_inv_def f(4) distinct_update)
  moreover have "coll_ids_ok db'"
  proof -
    have "\<forall>x\<in>set (db_cells db). cl_coll_id x < db_next_coll_id db" "distinct (map cl_coll_id (db_cells db))"
      using i by (auto simp: reg_inv_def coll_ids_ok_def)
    then show ?thesis using next_greater [OF w] c(3) by (auto simp: coll_ids_ok_def f dest: less_trans)
  qed
  moreover have "aliases_ok db'"
  proof -
    have "map_of (db_aliases db') a = Some t \<longleftrightarrow>
        (\<exists>r. map_of (db_collections db') t = Some r \<and> a \<in> set (cl_aliases (cell db' r)))" for a t
    proof (cases "t = cl_name c")
      case True
      then show ?thesis using i n c(2) cells(2) by (auto simp: f reg_inv_def aliases_ok_def)
    next
      case False
      then have "map_of (db_collections db') t = map_of (db_collections db) t" by (simp add: f)
      moreover have "cell db' r = cell db r" if "map_of (db_collections db) t = Some r" for r
        using registered [OF i, of t r] that by (simp add: cells(1))
      ultimately show ?thesis using i by (auto simp: f reg_inv_def aliases_ok_def)
    qed
    then show ?thesis using i by (auto simp: aliases_ok_def reg_inv_def f)
  qed
  moreover have "coll_inv (cell db' r)" if "r < length (db_cells db')" "\<not> cl_deleted (cell db' r)" for r
    using that i c(4) cells by (auto simp: f reg_inv_def less_Suc_eq)
  ultimately show ?thesis by (simp add: reg_inv_def)
qed

text \<open>A change of one registered cell that keeps its id, with the registry maps changed along.\<close>

lemma registered_change:
  assumes i: "reg_inv db" and r: "map_of (db_collections db) n = Some r"
    and c: "cl_coll_id c = cl_coll_id (cell db r)" "\<not> cl_deleted c \<Longrightarrow> coll_inv c"
    and f: "db_cells db' = (db_cells db)[r := c]" "db_next_coll_id db' = db_next_coll_id db"
    and d: "distinct (map fst (db_collections db'))" "distinct (map fst (db_aliases db'))"
    and names: "map_of (db_collections db') = (map_of (db_collections db))(n := None, cl_name c := (if cl_deleted c then None else Some r))"
      "cl_name c \<noteq> n \<Longrightarrow> map_of (db_collections db) (cl_name c) = None"
    and al: "\<And>a t. t \<noteq> n \<Longrightarrow> t \<noteq> cl_name c \<Longrightarrow>
        map_of (db_aliases db') a = Some t \<longleftrightarrow> map_of (db_aliases db) a = Some t"
      "cl_name c \<noteq> n \<Longrightarrow> n \<notin> ran (map_of (db_aliases db'))"
      "\<And>a. map_of (db_aliases db') a = Some (cl_name c) \<longleftrightarrow> \<not> cl_deleted c \<and> a \<in> set (cl_aliases c)"
  shows "reg_inv db'"
proof -
  have rl: "r < length (db_cells db)" "cl_name (cell db r) = n" "\<not> cl_deleted (cell db r)" using registered [OF i] r by auto
  have cells: "cell db' k = (if k = r then c else cell db k)" for k using rl(1) by (auto simp: cell_def f nth_list_update)
  have names': "map_of (db_collections db') k = Some x \<longleftrightarrow>
      x < length (db_cells db') \<and> cl_name (cell db' x) = k \<and> \<not> cl_deleted (cell db' x)" for k x
  proof (cases "x = r")
    case True
    then show ?thesis using rl registered [OF i, of k x] names(2) by (auto simp: cells f names(1))
  next
    case False
    then show ?thesis using rl registered [OF i, of k x] r names(2) by (auto simp: cells f names(1))
  qed
  have "names_ok db'" using names' d(1) by (simp add: names_ok_def)
  moreover have "coll_ids_ok db'" using i by (intro coll_ids_set_cell [OF _ c(1) f]) (simp add: reg_inv_def)
  moreover have "map_of (db_aliases db') a = Some t \<longleftrightarrow>
      (\<exists>x. map_of (db_collections db') t = Some x \<and> a \<in> set (cl_aliases (cell db' x)))" for a t
  proof -
    consider "t = cl_name c" | "t = n" "t \<noteq> cl_name c" | "t \<noteq> n" "t \<noteq> cl_name c" by blast
    then show ?thesis
    proof cases
      case 1
      then show ?thesis using al(3) by (simp add: names(1) cells)
    next
      case 2
      then have "map_of (db_aliases db') a \<noteq> Some n" using al(2) by (metis ranI)
      then show ?thesis using 2 by (simp add: names(1))
    next
      case 3
      then have "map_of (db_collections db') t = map_of (db_collections db) t" by (simp add: names(1))
      moreover have "cell db' x = cell db x" if "map_of (db_collections db) t = Some x" for x
        using registered [OF i, of t x] that 3 rl by (auto simp: cells)
      ultimately show ?thesis using i al(1) [OF 3] by (auto simp: reg_inv_def aliases_ok_def)
    qed
  qed
  then have "aliases_ok db'" using d(2) by (simp add: aliases_ok_def)
  moreover have "coll_inv (cell db' k)" if "k < length (db_cells db')" "\<not> cl_deleted (cell db' k)" for k
    using that i c(2) by (auto simp: cells f reg_inv_def)
  ultimately show ?thesis by (simp add: reg_inv_def)
qed

lemma distinct_fold_update: "distinct (map fst al) \<Longrightarrow> distinct (map fst (fold (\<lambda>a. AList.update a v) as al))"
  by (induction as arbitrary: al) (simp_all add: distinct_update)

lemma distinct_fold_delete: "distinct (map fst al) \<Longrightarrow> distinct (map fst (fold AList.delete as al))"
  by (induction as arbitrary: al) (simp_all add: distinct_delete)

lemma map_of_fold_update: "map_of (fold (\<lambda>a. AList.update a v) as al) = (\<lambda>k. if k \<in> set as then Some v else map_of al k)"
  by (induction as arbitrary: al) (auto simp: fun_eq_iff)

lemma map_of_fold_delete: "map_of (fold AList.delete as al) = (\<lambda>k. if k \<in> set as then None else map_of al k)"
  by (induction as arbitrary: al) (auto simp: fun_eq_iff)

lemma alias_holds: "reg_inv db \<Longrightarrow> map_of (db_collections db) n = Some r \<Longrightarrow>
    map_of (db_aliases db) a = Some n \<longleftrightarrow> a \<in> set (cl_aliases (cell db r))"
  by (simp add: reg_inv_def aliases_ok_def)

lemma reg_distinct: "reg_inv db \<Longrightarrow> distinct (map fst (db_collections db))" "reg_inv db \<Longrightarrow> distinct (map fst (db_aliases db))"
  by (auto simp: reg_inv_def names_ok_def aliases_ok_def)

lemma on_cell_fields: "db_cells (on_cell r f db) = (db_cells db)[r := f (cell db r)]"
    "db_collections (on_cell r f db) = db_collections db" "db_aliases (on_cell r f db) = db_aliases db"
    "db_next_coll_id (on_cell r f db) = db_next_coll_id db" "db_persistent (on_cell r f db) = db_persistent db"
  by (simp_all add: on_cell_def)

lemma coll_inv_handle [simp]: "coll_inv (c\<lparr>cl_aliases := x\<rparr>) = coll_inv c" "coll_inv (c\<lparr>cl_name := n\<rparr>) = coll_inv c"
  by (simp_all add: coll_inv_def)

lemma create_alias_inv:
  assumes i: "reg_inv db" and o: "create_alias V alias target db s = (res, db', s')"
  shows "reg_inv db'"
proof (cases "db' = db")
  case False
  then obtain r where r: "map_of (db_collections db) target = Some r" "map_of (db_aliases db) alias = None"
    and db: "db' = on_cell r (\<lambda>c. c\<lparr>cl_aliases := cl_aliases c @ [alias]\<rparr>) (db\<lparr>db_aliases := AList.update alias target (db_aliases db)\<rparr>)"
    using o by (auto simp: create_alias_def tryR_eq_Inr ok_or_def split: sum.splits prod.splits option.splits if_split_asm)
  have c: "cl_name (cell db r) = target" "\<not> cl_deleted (cell db r)" "coll_inv (cell db r)"
    using registered [OF i] r(1) cells_inv [OF i] by auto
  show ?thesis
  proof (rule registered_change [OF i r(1), of "(cell db r)\<lparr>cl_aliases := cl_aliases (cell db r) @ [alias]\<rparr>"])
    show "map_of (db_aliases db') a = Some (cl_name ((cell db r)\<lparr>cl_aliases := cl_aliases (cell db r) @ [alias]\<rparr>)) \<longleftrightarrow>
        \<not> cl_deleted ((cell db r)\<lparr>cl_aliases := cl_aliases (cell db r) @ [alias]\<rparr>)
        \<and> a \<in> set (cl_aliases ((cell db r)\<lparr>cl_aliases := cl_aliases (cell db r) @ [alias]\<rparr>))" for a
      using alias_holds [OF i r(1), of a] c by (simp add: db on_cell_fields)
  qed (use c r fun_upd_idem [of "map_of (db_collections db)", OF r(1)] in
      \<open>auto simp: db on_cell_fields reg_distinct [OF i] distinct_update simp del: map_of_eq_Some_iff\<close>)
qed (use i in simp)

lemma delete_alias_inv:
  assumes i: "reg_inv db" and o: "delete_alias V alias db s = (res, db', s')"
  shows "reg_inv db'"
proof (cases "db' = db")
  case False
  obtain target where t: "map_of (db_aliases db) alias = Some target"
    using o False by (auto simp: delete_alias_def split: option.splits)
  then obtain r where r: "map_of (db_collections db) target = Some r" "alias \<in> set (cl_aliases (cell db r))"
    using i by (auto simp: reg_inv_def aliases_ok_def)
  let ?c = "(cell db r)\<lparr>cl_aliases := filter (\<lambda>a. a \<noteq> alias) (cl_aliases (cell db r))\<rparr>"
  have db: "db' = on_cell r (\<lambda>c. c\<lparr>cl_aliases := filter (\<lambda>a. a \<noteq> alias) (cl_aliases c)\<rparr>)
      (db\<lparr>db_aliases := AList.delete alias (db_aliases db)\<rparr>)"
    using o False t r(1) by (auto simp: delete_alias_def Let_def split: prod.splits sum.splits)
  have c: "cl_name (cell db r) = target" "\<not> cl_deleted (cell db r)" "coll_inv (cell db r)"
    using registered [OF i] r(1) cells_inv [OF i] by auto
  show ?thesis
  proof (rule registered_change [OF i r(1), of ?c])
    show "map_of (db_aliases db') a = Some (cl_name ?c) \<longleftrightarrow> \<not> cl_deleted ?c \<and> a \<in> set (cl_aliases ?c)" for a
      using alias_holds [OF i r(1), of a] c by (auto simp: db on_cell_fields simp del: map_of_eq_Some_iff)
  qed (use c r t fun_upd_idem [of "map_of (db_collections db)", OF r(1)] in
      \<open>auto simp: db on_cell_fields reg_distinct [OF i] distinct_delete simp del: map_of_eq_Some_iff\<close>)
qed (use i in simp)

lemma delete_collection_inv:
  assumes i: "reg_inv db" and o: "delete_collection V name db s = (res, db', s')"
  shows "reg_inv db'"
proof (cases "db' = db")
  case False
  then obtain r where r: "map_of (db_collections db) name = Some r"
    and db: "db' = on_cell r (\<lambda>c. drop_base_unchecked (c\<lparr>cl_deleted := True\<rparr>))
      (db\<lparr>db_collections := AList.delete name (db_collections db),
          db_aliases := fold AList.delete (cl_aliases (cell db r)) (db_aliases db)\<rparr>)"
    using o by (auto simp: delete_collection_def split: sum.splits prod.splits option.splits)
  have c: "cl_name (cell db r) = name" "\<not> cl_deleted (cell db r)" using registered [OF i] r by auto
  let ?c = "drop_base_unchecked ((cell db r)\<lparr>cl_deleted := True\<rparr>)"
  have keys: "cl_name ?c = name" "cl_deleted ?c" "cl_coll_id ?c = cl_coll_id (cell db r)"
    using c by (simp_all add: drop_base_unchecked_def)
  show ?thesis
  proof (rule registered_change [OF i r, of ?c])
    show "map_of (db_aliases db') a = Some (cl_name ?c) \<longleftrightarrow> \<not> cl_deleted ?c \<and> a \<in> set (cl_aliases ?c)" for a
      using alias_holds [OF i r, of a] keys by (auto simp: db on_cell_fields map_of_fold_delete simp del: map_of_eq_Some_iff)
    show "map_of (db_aliases db') a = Some t \<longleftrightarrow> map_of (db_aliases db) a = Some t" if "t \<noteq> name" for a t
      using alias_holds [OF i r, of a] that by (auto simp: db on_cell_fields map_of_fold_delete simp del: map_of_eq_Some_iff)
  qed (use keys in \<open>auto simp: db on_cell_fields reg_distinct [OF i] distinct_delete distinct_fold_delete simp del: map_of_eq_Some_iff\<close>)
qed (use i in simp)

lemma rename_collection_inv:
  assumes i: "reg_inv db" and o: "rename_collection V old new db s = (res, db', s')"
  shows "reg_inv db'"
proof (cases "db' = db")
  case False
  then obtain r where r: "map_of (db_collections db) old = Some r" "map_of (db_collections db) new = None"
    and db: "db' = on_cell r (\<lambda>c. c\<lparr>cl_name := new\<rparr>)
      (db\<lparr>db_collections := AList.update new r (AList.delete old (db_collections db)),
          db_aliases := fold (\<lambda>a. AList.update a new) (cl_aliases (cell db r)) (db_aliases db)\<rparr>)"
    using o by (auto simp: rename_collection_def tryR_eq_Inr ok_or_def split: sum.splits prod.splits option.splits if_split_asm)
  have c: "cl_name (cell db r) = old" "\<not> cl_deleted (cell db r)" "coll_inv (cell db r)"
    using registered [OF i] r cells_inv [OF i] by auto
  let ?c = "(cell db r)\<lparr>cl_name := new\<rparr>"
  have no: "map_of (db_aliases db) a \<noteq> Some new" for a
    using i r(2) by (auto simp: reg_inv_def aliases_ok_def simp del: map_of_eq_Some_iff)
  show ?thesis
  proof (rule registered_change [OF i r(1), of ?c])
    show "map_of (db_aliases db') a = Some (cl_name ?c) \<longleftrightarrow> \<not> cl_deleted ?c \<and> a \<in> set (cl_aliases ?c)" for a
      using no [of a] c by (simp add: db on_cell_fields map_of_fold_update)
    show "old \<notin> ran (map_of (db_aliases db'))" if "cl_name ?c \<noteq> old"
      using alias_holds [OF i r(1)] that
      by (auto simp: db on_cell_fields map_of_fold_update ran_def simp del: map_of_eq_Some_iff split: if_split_asm)
    show "map_of (db_aliases db') a = Some t \<longleftrightarrow> map_of (db_aliases db) a = Some t" if "t \<noteq> old" "t \<noteq> cl_name ?c" for a t
      using alias_holds [OF i r(1), of a] that by (auto simp: db on_cell_fields map_of_fold_update simp del: map_of_eq_Some_iff)
  qed (use c r in \<open>auto simp: db on_cell_fields reg_distinct [OF i] distinct_delete distinct_update distinct_fold_update
        simp del: map_of_eq_Some_iff\<close>)
qed (use i in simp)

lemma create_cases:
  assumes "create_collection_impl V name opts defer_missing db s = (res, db', s')"
  shows "(db' = db \<or> db' = db\<lparr>db_next_coll_id := db_next_coll_id db + 1\<rparr>) \<and> (\<exists>e. res = Inl e) \<or>
    (\<exists>slot E c. map_of (db_collections db) name = None
       \<and> append_all V (db_next_coll_id db) (create_entries V name opts) (db\<lparr>db_next_coll_id := db_next_coll_id db + 1\<rparr>) s = (Inr (), s')
       \<and> resolve_embedder V defer_missing opts db = Inr (slot, E)
       \<and> with_embedder name opts (db_next_coll_id db) (db_persistent db) 0 slot = Inr c
       \<and> res = Inr (length (db_cells db))
       \<and> db' = db\<lparr>db_next_coll_id := db_next_coll_id db + 1, db_cells := db_cells db @ [c], db_embedders := E,
           db_collections := AList.update name (length (db_cells db)) (db_collections db)\<rparr>)"
proof (cases "tryR (validate_collection_name name) (\<lambda>_.
    if co_dimension opts = 0 \<or> MAX_DIMENSION < co_dimension opts
    then Inl (InvalidArgument (''dimension must be in 1..='' @ show_nat MAX_DIMENSION @ '', got '' @ show_nat (co_dimension opts)))
    else tryR (resolve_embedder V defer_missing opts db) (\<lambda>slot.
      if map_of (db_collections db) name \<noteq> None then Inl (AlreadyExists name) else Inr slot))")
  case (Inl e)
  then show ?thesis using assms by (auto simp: create_collection_impl_def)
next
  case (Inr p)
  obtain slot E where p: "p = (slot, E)" by (cases p)
  have ok: "map_of (db_collections db) name = None" "resolve_embedder V defer_missing opts db = Inr (slot, E)"
    using Inr by (auto simp: p tryR_eq_Inr split: if_split_asm)
  show ?thesis
    using assms Inr ok
    by (auto simp: create_collection_impl_def p Let_def split: prod.splits sum.splits)
qed

lemma create_collection_inv:
  assumes i: "reg_inv db" and w: "db_next_coll_id db + 1 \<noteq> 0"
    and o: "create_collection_impl V name opts d db s = (res, db', s')"
  shows "reg_inv db'"
proof -
  consider "db' = db" | "db' = db\<lparr>db_next_coll_id := db_next_coll_id db + 1\<rparr>"
    | slot E c where "map_of (db_collections db) name = None"
      "with_embedder name opts (db_next_coll_id db) (db_persistent db) 0 slot = Inr c"
      "db' = db\<lparr>db_next_coll_id := db_next_coll_id db + 1, db_cells := db_cells db @ [c], db_embedders := E,
           db_collections := AList.update name (length (db_cells db)) (db_collections db)\<rparr>"
    using create_cases [OF o] by blast
  then show ?thesis
  proof cases
    case 2
    then show ?thesis using reg_inv_next [OF i, of "db_next_coll_id db + 1"] next_greater [OF w] by simp
  next
    case 3
    then show ?thesis
      using with_embedder_facts [OF 3(2)] w by (intro registered_append [OF i, of c]) auto
  qed (use i in simp)
qed

lemma bind_all_inv:
  "bind_all ops name e cs db = (res, db') \<Longrightarrow> reg_inv db \<Longrightarrow> \<forall>(n, r)\<in>set cs. map_of (db_collections db) n = Some r
    \<Longrightarrow> reg_inv db'"
proof (induction cs arbitrary: db)
  case (Cons x cs)
  obtain n r where x: "x = (n, r)" by (cases x)
  obtain b c E where b: "bind_embedder ops name e (cell db r) (db_embedders db) = (b, c, E)"
    by (cases "bind_embedder ops name e (cell db r) (db_embedders db)") auto
  have h: "same_handle (cell db r) c" "coll_inv (cell db r) \<Longrightarrow> coll_inv c"
    using b by (auto simp: bind_embedder_def same_handle_def coll_inv_def split: if_split_asm option.splits sum.splits)
  let ?db = "(set_cell r c db)\<lparr>db_embedders := E\<rparr>"
  have "r < length (db_cells db)" "\<not> cl_deleted (cell db r)"
    using Cons.prems(2,3) registered [OF Cons.prems(2), of n r] by (auto simp: x)
  then have "reg_inv ?db" using reg_inv_set_cell [OF Cons.prems(2) _ h(1)] h(2) cells_inv [OF Cons.prems(2), of r] by simp
  then show ?case
    using Cons.IH [of ?db] Cons.prems(1,3) by (auto simp: x b Let_def split: sum.splits)
qed auto

lemma register_embedder_inv:
  assumes i: "reg_inv db" and o: "register_embedder V name emb db = (res, db')"
  shows "reg_inv db'"
proof (cases "db' = db")
  case False
  let ?db = "db\<lparr>db_embedders := db_embedders db @ [emb], db_registered := AList.update name (length (db_embedders db)) (db_registered db)\<rparr>"
  have "bind_all (ev_emb V) name (length (db_embedders db)) (db_collections db) ?db = (res, db')"
    using o False by (auto simp: register_embedder_def Let_def split: if_split_asm)
  moreover have "reg_inv ?db" using i by simp
  moreover have "\<forall>(n, r)\<in>set (db_collections db). map_of (db_collections db) n = Some r" using reg_distinct [OF i] by auto
  ultimately show ?thesis by (intro bind_all_inv [of "ev_emb V" name "length (db_embedders db)" "db_collections db" ?db res db']) simp_all
qed (use i in simp)

subsection \<open>Operations on handles\<close>

lemma upsert_handle: "upsert_batch_step jl M L ar ps c s = (r, c', s') \<Longrightarrow> same_handle c c'"
  using upsert_inner_cases [of jl M L ar ps c s r c' s'] by (auto simp: same_handle_def)

lemma delete_handle: "delete_batch_step M L keys c s = (r, c', s') \<Longrightarrow> same_handle c c'"
  using delete_cases [of M L keys c s r c' s'] by (auto simp: same_handle_def)

lemma declare_handle: "create_payload_index_step M L key kind c s = (r, c', s') \<Longrightarrow> same_handle c c'"
  using declare_cases [of M L key kind c s r c' s'] by (auto simp: same_handle_def)

lemma reindex_handle: "reindex Q c = (r, c') \<Longrightarrow> same_handle c c'"
  by (auto simp: reindex_def Let_def same_handle_def split: sum.splits prod.splits)

lemma compact_handle: "compact Q c = (r, c') \<Longrightarrow> same_handle c c'"
  by (auto simp: compact_def Let_def same_handle_def split: sum.splits prod.splits)

lemma same_handle_refl [simp]: "same_handle c c"
  by (simp add: same_handle_def)

lemma same_handle_trans: "same_handle a b \<Longrightarrow> same_handle b c \<Longrightarrow> same_handle a c"
  by (simp add: same_handle_def)

lemma reach_handle: "coll_reach Q jl W L start cs \<Longrightarrow> same_handle (fst start) (fst cs)"
proof (induction rule: coll_reach.induct)
  case (reach_sealed c s refs n m)
  then show ?case by (simp add: same_handle_def mark_sealed_def)
qed (auto intro: same_handle_trans dest: upsert_handle delete_handle declare_handle reindex_handle compact_handle)

subsection \<open>Every state a database reaches\<close>

text \<open>
  The registry operations with any arguments and whatever they return, and any run of collection operations on any handle,
  stale ones included. The counter of ids is 32 bits wide; a creation that would wrap it is not a step.
\<close>

inductive reg_reach ::
  "'q quantizers \<Rightarrow> ('e, 's) env \<Rightarrow> ('q, 'e) database \<times> 's \<Rightarrow> ('q, 'e) database \<times> 's \<Rightarrow> bool"
  for Q V start where
  db_start: "reg_reach Q V start start"
| db_create: "reg_reach Q V start (db, s) \<Longrightarrow> db_next_coll_id db + 1 \<noteq> 0
    \<Longrightarrow> create_collection_impl V name opts d db s = (r, db', s') \<Longrightarrow> reg_reach Q V start (db', s')"
| db_alias: "reg_reach Q V start (db, s) \<Longrightarrow> create_alias V alias target db s = (u, db', s') \<Longrightarrow> reg_reach Q V start (db', s')"
| db_unalias: "reg_reach Q V start (db, s) \<Longrightarrow> delete_alias V alias db s = (u, db', s') \<Longrightarrow> reg_reach Q V start (db', s')"
| db_delete: "reg_reach Q V start (db, s) \<Longrightarrow> delete_collection V name db s = (u, db', s') \<Longrightarrow> reg_reach Q V start (db', s')"
| db_rename: "reg_reach Q V start (db, s) \<Longrightarrow> rename_collection V old new db s = (u, db', s') \<Longrightarrow> reg_reach Q V start (db', s')"
| db_register: "reg_reach Q V start (db, s) \<Longrightarrow> register_embedder V name emb db = (u, db') \<Longrightarrow> reg_reach Q V start (db', s)"
| db_handle: "reg_reach Q V start (db, s) \<Longrightarrow> r < length (db_cells db)
    \<Longrightarrow> coll_reach Q (ev_json_len V) (ev_wal V) (ev_log V) (cell db r, s) (c, s') \<Longrightarrow> reg_reach Q V start (set_cell r c db, s')"

lemma reg_reach_inv: "reg_reach Q V start x \<Longrightarrow> reg_inv (fst start) \<Longrightarrow> reg_inv (fst x)"
proof (induction rule: reg_reach.induct)
  case (db_handle db s r c s')
  then have i: "reg_inv db" by simp
  have h: "same_handle (cell db r) c" using reach_handle [OF db_handle(3)] by simp
  have "coll_inv c" if "\<not> cl_deleted c"
    using reach_inv [OF db_handle(3)] cells_inv [OF i db_handle(2)] h that by (simp add: same_handle_def)
  then show ?case using reg_inv_set_cell [OF i _ h] by simp
next
  case (db_create db s name opts d r db' s')
  then show ?case using create_collection_inv [of db] by simp
qed (auto dest: create_alias_inv delete_alias_inv delete_collection_inv rename_collection_inv register_embedder_inv)

lemma memory_inv: "reg_inv (memory :: ('q, 'e) database)" "reg_inv (memory\<lparr>db_persistent := p\<rparr> :: ('q, 'e) database)"
  by (simp_all add: memory_def reg_defs)

lemma lookup_Inr:
  assumes "reg_inv db" "lookup_collection n db = Inr r"
  shows "r < length (db_cells db) \<and> \<not> cl_deleted (cell db r) \<and> coll_inv (cell db r)
    \<and> (cl_name (cell db r) = n \<or> n \<in> set (cl_aliases (cell db r)))"
proof -
  consider "map_of (db_collections db) n = Some r"
    | t where "map_of (db_aliases db) n = Some t" "map_of (db_collections db) t = Some r"
    using assms(2) by (auto simp: lookup_collection_def bind_eq_Some_conv split: option.splits simp del: map_of_eq_Some_iff)
  then show ?thesis
  proof cases
    case 1
    then show ?thesis using registered [OF assms(1), of n r] cells_inv [OF assms(1), of r] by blast
  next
    case 2
    then show ?thesis
      using registered [OF assms(1), of t r] cells_inv [OF assms(1), of r] alias_holds [OF assms(1) 2(2), of n] by blast
  qed
qed

subsection \<open>A small database\<close>

definition demo_db :: "(unit, unit) database" where
  "demo_db = memory\<lparr>db_next_coll_id := 2, db_cells := [demo_coll], db_collections := [(''c'', 0)]\<rparr>"

lemma demo_db_created:
  "create_collection_impl text_env ''c'' (options_new 2 DotProduct) False (memory :: (unit, unit) database) () = (Inr 0, demo_db, ())"
proof -
  have n: "validate_collection_name ''c'' = Inr ()" by code_simp
  have e: "resolve_embedder text_env False (options_new 2 DotProduct) (memory :: (unit, unit) database) = Inr (EmbNone, [])"
    by (simp add: resolve_embedder_def options_new_def memory_def)
  have m: "db_collections memory = []" "db_cells memory = []" "db_next_coll_id memory = 1" "db_persistent memory = False"
    by (simp_all add: memory_def)
  have a: "append_all text_env i (create_entries text_env ''c'' (options_new 2 DotProduct)) (memory\<lparr>db_next_coll_id := n\<rparr>) s
      = (Inr (), s)" for i n s
    by (simp add: create_entries_def db_append_def options_new_def m)
  have d: "co_dimension (options_new 2 DotProduct) = 2" by (simp add: options_new_def)
  show ?thesis
    by (simp add: create_collection_impl_def n e m a d demo_created MAX_DIMENSION_def) (simp add: demo_db_def memory_def)
qed

lemma demo_db_inv: "reg_inv demo_db"
  by (rule create_collection_inv [OF memory_inv(1) _ demo_db_created]) (simp add: memory_def)

definition demo_renamed :: "(unit, unit) database" where
  "demo_renamed = demo_db\<lparr>db_cells := [demo_coll\<lparr>cl_name := ''d''\<rparr>], db_collections := [(''d'', 0)]\<rparr>"

lemma demo_rename: "rename_collection text_env ''c'' ''d'' demo_db () = (Inr (), demo_renamed, ())"
proof -
  have n: "validate_collection_name ''d'' = Inr ()" by code_simp
  show ?thesis
    by (simp add: rename_collection_def n ok_or_def demo_db_def memory_def db_append_def on_cell_def set_cell_def cell_def
        demo_renamed_def demo_coll_def)
qed

subsection \<open>Properties\<close>

text \<open>
  Names and aliases are meant to share one namespace (CORE-011), but a creation tests the names alone: the name of an alias is
  accepted, and from then on it leads to the new collection although the alias is still listed.
\<close>

lemma name_shadows_alias:
  assumes "create_collection_impl V n opts deferred db s = (Inr r, db', s')"
  shows "lookup_collection n db' = Inr r \<and> db_aliases db' = db_aliases db"
  using assms
  by (auto simp: create_collection_impl_def Let_def lookup_collection_def map_of_update split: sum.splits prod.splits if_splits)

text \<open>
  C22. From the empty database, or any other state with the invariant, creating, aliasing, renaming and deleting collections,
  registering embedders and using handles, also those of deleted collections, keep the invariant of the registry: exactly the
  live collections are registered, under distinct names, their identifiers are distinct and below the next one, and the alias
  table holds exactly the aliases that live collections list. So the listed names are distinct and sorted, a name or alias that
  resolves gives a live collection that carries it, and every live collection satisfies the invariant of its slots. (A name may
  also be an alias; it then leads to the collection of that name.)
\<close>

theorem registry_sound:
  assumes "reg_inv db0" and "reg_reach Q V (db0, s0) (db, s)"
  shows "reg_inv db \<and> distinct (list_collections db) \<and> sorted (list_collections db)
    \<and> (\<forall>n r. lookup_collection n db = Inr r \<longrightarrow> r < length (db_cells db) \<and> \<not> cl_deleted (cell db r)
         \<and> coll_inv (cell db r) \<and> (cl_name (cell db r) = n \<or> n \<in> set (cl_aliases (cell db r))))"
proof -
  have i: "reg_inv db" using reg_reach_inv [OF assms(2)] assms(1) by simp
  have "distinct (list_collections db)" using reg_distinct(1) [OF i] by (simp add: list_collections_def)
  then show ?thesis using i lookup_Inr [OF i] by (auto simp: list_collections_def)
qed

theorem registry_sound_witness:
  "reg_inv demo_renamed \<and> distinct (list_collections demo_renamed) \<and> sorted (list_collections demo_renamed)
    \<and> lookup_collection ''d'' demo_renamed = Inr 0 \<and> coll_inv (cell demo_renamed 0)"
proof -
  have "reg_reach no_quantizers text_env ((memory :: (unit, unit) database), ()) (demo_db, ())"
    by (rule db_create [OF db_start _ demo_db_created]) (simp add: memory_def)
  note sound = registry_sound [OF memory_inv(1) db_rename [OF this demo_rename]]
  have "lookup_collection ''d'' demo_renamed = Inr 0" by (simp add: demo_renamed_def lookup_collection_def)
  with sound show ?thesis by blast
qed

text \<open>
  Renaming keeps the collection's identity: the new name and every alias of the collection lead to the same handle, every
  other name resolves as before, and nothing but the name of that one collection changes.
\<close>

theorem rename_keeps_handle:
  assumes i: "reg_inv db" and o: "rename_collection V old new db s = (Inr (), db', s')"
  shows "\<exists>r. map_of (db_collections db) old = Some r \<and> lookup_collection new db' = Inr r
    \<and> map_of (db_collections db') old = None
    \<and> (\<forall>n. n \<notin> {old, new} \<longrightarrow> lookup_collection n db' = lookup_collection n db)
    \<and> db_cells db' = (db_cells db)[r := (cell db r)\<lparr>cl_name := new\<rparr>]"
proof -
  obtain r where r: "map_of (db_collections db) old = Some r" "map_of (db_collections db) new = None"
    and db: "db' = on_cell r (\<lambda>c. c\<lparr>cl_name := new\<rparr>)
      (db\<lparr>db_collections := AList.update new r (AList.delete old (db_collections db)),
          db_aliases := fold (\<lambda>a. AList.update a new) (cl_aliases (cell db r)) (db_aliases db)\<rparr>)"
    using o by (auto simp: rename_collection_def tryR_eq_Inr ok_or_def split: sum.splits prod.splits option.splits if_split_asm)
  have n: "map_of (db_aliases db) a \<noteq> Some new" for a
    using i r(2) by (auto simp: reg_inv_def aliases_ok_def simp del: map_of_eq_Some_iff)
  have "lookup_collection new db' = Inr r" by (simp add: db on_cell_fields lookup_collection_def)
  moreover have "lookup_collection n db' = lookup_collection n db" if "n \<notin> {old, new}" for n
    using that alias_holds [OF i r(1), of n] r(1) n [of n]
    by (cases "map_of (db_aliases db) n")
      (auto simp: db on_cell_fields lookup_collection_def map_of_fold_update simp del: map_of_eq_Some_iff split: option.split)
  moreover have "map_of (db_collections db') old = None" using r by (auto simp: db on_cell_fields)
  ultimately show ?thesis using r(1) by (auto simp: db on_cell_fields)
qed

theorem rename_keeps_handle_witness:
  "\<exists>r. map_of (db_collections demo_db) ''c'' = Some r \<and> lookup_collection ''d'' demo_renamed = Inr r
    \<and> db_cells demo_renamed = (db_cells demo_db)[r := (cell demo_db r)\<lparr>cl_name := ''d''\<rparr>]"
  using rename_keeps_handle [OF demo_db_inv demo_rename] by blast

end
