(* ===== verification/Recovery.thy ===== *)
theory Recovery
  imports Registry_Inv
begin

section \<open>Recovery from the log (\<open>database.rs\<close>, the replay path)\<close>

text \<open>
  A database that logs every operation, and the database that replaying its log rebuilds. The two run in lock step: cell by
  cell they hold the same rows; only the graph, the quantizer's codes and the sealing state, which are rebuilt, may differ.
  The bodies of the logged operations are values the MessagePack package carries.
\<close>

subsection \<open>The rows of a collection\<close>

definition rows :: "'q collection_data \<Rightarrow> 'q collection_data" where
  "rows d = d\<lparr>cd_index := None, cd_codes := [], cd_quant_params := None, cd_sealed := None, cd_dirty := False\<rparr>"

lemma rows_fields [simp]:
  "cd_vectors (rows d) = cd_vectors d" "cd_ids (rows d) = cd_ids d" "cd_id_to_slot (rows d) = cd_id_to_slot d"
  "cd_tombstones (rows d) = cd_tombstones d" "cd_payloads (rows d) = cd_payloads d" "cd_sparses (rows d) = cd_sparses d"
  "cd_payload_indexes (rows d) = cd_payload_indexes d" "cd_base (rows d) = cd_base d"
  by (simp_all add: rows_def)

lemma rows_eq: "rows d = rows e \<longleftrightarrow> cd_vectors d = cd_vectors e \<and> cd_ids d = cd_ids e \<and> cd_id_to_slot d = cd_id_to_slot e \<and>
     cd_tombstones d = cd_tombstones e \<and> cd_payloads d = cd_payloads e \<and> cd_sparses d = cd_sparses e \<and>
     cd_payload_indexes d = cd_payload_indexes e \<and> cd_base d = cd_base e"
  by (cases d; cases e) (simp add: rows_def)

lemma rows_base_count: "rows d = rows e \<Longrightarrow> base_count d = base_count e"
  by (simp add: rows_eq base_count_def)

lemma rows_retire: "rows d = rows e \<Longrightarrow> rows (retire_slot key slot d) = rows (retire_slot key slot e)"
  by (simp add: rows_eq retire_slot_def)

lemma rows_append: "rows d = rows e \<Longrightarrow> rows (append_point dim p d) = rows (append_point dim p e)"
  using rows_base_count [of d e] by (simp add: rows_eq append_point_def Let_def)

lemma rows_upsert: "rows d = rows e \<Longrightarrow> rows (apply_upsert dim p d) = rows (apply_upsert dim p e)"
proof -
  assume r: "rows d = rows e"
  then have i: "cd_id_to_slot d = cd_id_to_slot e" by (simp add: rows_eq)
  show ?thesis
  proof (cases "map_of (cd_id_to_slot e) (pp_id p)")
    case None
    then show ?thesis using rows_append [OF r, of dim p] by (simp add: apply_upsert_def i)
  next
    case (Some slot)
    then show ?thesis using rows_append [OF rows_retire [OF r, of "pp_id p" slot], of dim p] by (simp add: apply_upsert_def i)
  qed
qed

lemma rows_prepared: "rows d = rows e \<Longrightarrow> rows (apply_prepared dim ps d) = rows (apply_prepared dim ps e)"
proof (induction ps arbitrary: d e)
  case (Cons p ps)
  show ?case using Cons.IH [OF rows_upsert [OF Cons.prems], of dim p] by (simp add: apply_prepared_def)
qed (simp add: apply_prepared_def)

lemma apply_prepared_base: "cd_base (apply_prepared dim ps d) = cd_base d"
  by (induction ps arbitrary: d)
    (simp_all add: apply_prepared_def apply_upsert_def append_point_def retire_slot_def Let_def split: option.split)

lemma tombstones_base: "cd_base (snd (tombstone_all keys d)) = cd_base d"
proof (induction keys arbitrary: d)
  case (Cons k keys)
  have "cd_base (snd (tombstone k d)) = cd_base d" by (simp add: tombstone_def retire_slot_def split: option.split)
  then show ?case using Cons by (simp add: tombstone_all_def filter_count_simps del: filter_count.simps(2))
qed (simp add: tombstone_all_def)

lemma rows_tombstone: "rows d = rows e \<Longrightarrow> rows (snd (tombstone key d)) = rows (snd (tombstone key e))"
proof -
  assume r: "rows d = rows e"
  then have i: "cd_id_to_slot d = cd_id_to_slot e" by (simp add: rows_eq)
  show ?thesis
  proof (cases "map_of (cd_id_to_slot e) key")
    case None
    then show ?thesis using r by (simp add: tombstone_def i)
  next
    case (Some slot)
    then show ?thesis using rows_retire [OF r, of key slot] by (simp add: tombstone_def i rows_eq)
  qed
qed

lemma rows_tombstones: "rows d = rows e \<Longrightarrow> rows (snd (tombstone_all keys d)) = rows (snd (tombstone_all keys e))"
proof (induction keys arbitrary: d e)
  case (Cons k keys)
  show ?case
    using Cons.IH [OF rows_tombstone [OF Cons.prems], of k]
    by (simp add: tombstone_all_def filter_count_simps del: filter_count.simps(2))
qed (simp add: tombstone_all_def)

lemma rows_live_slots: "rows d = rows e \<Longrightarrow> live_slots d = live_slots e"
  by (simp add: rows_eq live_slots_def live_slot_def [abs_def])

lemma rows_declare: "rows d = rows e \<Longrightarrow> rows (apply_declare_index key kind d) = rows (apply_declare_index key kind e)"
proof -
  assume r: "rows d = rows e"
  then have "cd_payload_indexes d = cd_payload_indexes e" "cd_payloads d = cd_payloads e" by (auto simp: rows_eq)
  moreover have "backfill d ix = backfill e ix" for ix using rows_live_slots [OF r] r by (simp add: backfill_def rows_eq)
  ultimately show ?thesis using r by (simp add: apply_declare_index_def rows_eq split: prod.split bool.split)
qed

text \<open>What the rows determine: the stored map, the order and the declared indexes.\<close>

lemma rows_contents: "rows d = rows e \<Longrightarrow> listing dim d = listing dim e \<and> contents dim d = contents dim e
    \<and> declared_indexes (cd_payload_indexes d) = declared_indexes (cd_payload_indexes e)"
proof -
  assume r: "rows d = rows e"
  then have f: "cd_vectors d = cd_vectors e" "cd_ids d = cd_ids e" "cd_id_to_slot d = cd_id_to_slot e"
    "cd_payloads d = cd_payloads e" "cd_sparses d = cd_sparses e" "cd_base d = cd_base e"
    "cd_payload_indexes d = cd_payload_indexes e" by (auto simp: rows_eq)
  have "copy_vector d s dim = copy_vector e s dim" for s
    by (simp add: copy_vector_def overlay_vector_def base_vector_def base_count_def f Let_def)
  then have "slot_contents dim d = slot_contents dim e" by (simp add: slot_contents_def fun_eq_iff f)
  then show ?thesis using rows_live_slots [OF r] by (simp add: listing_def contents_def [abs_def] f)
qed

lemma rows_reindex: "reindex Q c = (r, c') \<Longrightarrow> rows (cl_data c') = rows (cl_data c)"
  by (auto simp: reindex_def Let_def recompute_quantization_def rows_eq set_codes_def split: sum.splits prod.splits if_split_asm)

subsection \<open>Replaying declared indexes\<close>

text \<open>A creation logs one declaration per index; on the empty collection they rebuild what the creation built.\<close>

lemma declare_empty: "live_slots d = [] \<Longrightarrow> key \<notin> fst ` set (cd_payload_indexes d) \<Longrightarrow>
    rows (apply_declare_index key kind d)
      = rows (d\<lparr>cd_payload_indexes := AList.update key (key_index_empty kind) (cd_payload_indexes d)\<rparr>)"
  by (simp add: apply_declare_index_def declare_index_def backfill_def rows_eq map_of_eq_None_iff)

lemma declare_keeps_slots: "live_slots (apply_declare_index key kind d) = live_slots d"
  by (auto simp: apply_declare_index_def live_slots_def live_slot_def [abs_def] split: prod.split bool.split)

lemma declare_all_empty:
  "live_slots d = [] \<Longrightarrow> distinct (map fst ks) \<Longrightarrow> fst ` set ks \<inter> fst ` set (cd_payload_indexes d) = {} \<Longrightarrow>
    rows (fold (\<lambda>k. apply_declare_index (fst k) (snd k)) ks d)
      = rows (d\<lparr>cd_payload_indexes := fold (\<lambda>k. AList.update (fst k) (key_index_empty (snd k))) ks (cd_payload_indexes d)\<rparr>)"
proof (induction ks arbitrary: d)
  case (Cons k ks)
  let ?e = "apply_declare_index (fst k) (snd k) d"
  have k: "fst k \<notin> fst ` set (cd_payload_indexes d)" using Cons.prems(3) by auto
  note e = declare_empty [OF Cons.prems(1) k, of "snd k"]
  have p: "cd_payload_indexes ?e = AList.update (fst k) (key_index_empty (snd k)) (cd_payload_indexes d)"
    using e by (simp add: rows_eq)
  have "rows (fold (\<lambda>k. apply_declare_index (fst k) (snd k)) ks ?e)
      = rows (?e\<lparr>cd_payload_indexes := fold (\<lambda>k. AList.update (fst k) (key_index_empty (snd k))) ks (cd_payload_indexes ?e)\<rparr>)"
    using Cons.prems Cons.prems(2) k by (intro Cons.IH) (auto simp: declare_keeps_slots p dom_update)
  also have "\<dots> = rows (d\<lparr>cd_payload_indexes := fold (\<lambda>k. AList.update (fst k) (key_index_empty (snd k))) ks (cd_payload_indexes ?e)\<rparr>)"
    using e by (simp add: rows_eq)
  finally show ?case by (simp add: p)
qed simp

subsection \<open>Twin databases\<close>

definition twin :: "'q collection \<Rightarrow> 'q collection \<Rightarrow> bool" where
  "twin c c' \<longleftrightarrow> same_handle c c' \<and> cl_config c' = stored_view (cl_config c) \<and> co_embedding_provider (cl_config c) = None
     \<and> cl_embedder c' = EmbNone \<and> cl_persistent c \<and> cd_base (cl_data c) = None
     \<and> rows (cl_data c') = rows (cl_data c)"

definition twins :: "('q, 'e) database \<Rightarrow> ('q, 'e) database \<Rightarrow> bool" where
  "twins db db' \<longleftrightarrow> length (db_cells db') = length (db_cells db) \<and> db_collections db' = db_collections db
     \<and> (\<forall>r<length (db_cells db). twin (cell db r) (cell db' r))"

lemma twins_cell: "twins db db' \<Longrightarrow> r < length (db_cells db) \<Longrightarrow> twin (cell db r) (cell db' r)"
  by (simp add: twins_def)

lemma twins_set_cell: "twins db db' \<Longrightarrow> twin c c' \<Longrightarrow> twins (set_cell r c db) (set_cell r c' db')"
  by (auto simp: twins_def cell_set_cell)

lemma twins_maps [simp]:
  "twins (db\<lparr>db_aliases := a\<rparr>) db' = twins db db'" "twins (db\<lparr>db_embedders := E\<rparr>) db' = twins db db'"
  "twins db (db'\<lparr>db_aliases := a\<rparr>) = twins db db'" "twins db (db'\<lparr>db_embedders := E\<rparr>) = twins db db'"
  by (simp_all add: twins_def)

lemma twins_collections: "twins db db' \<Longrightarrow> twins (db\<lparr>db_collections := cs\<rparr>) (db'\<lparr>db_collections := cs\<rparr>)"
  by (simp add: twins_def)

lemma twins_find:
  assumes "reg_inv db" "twins db db'"
  shows "collection_by_id db' i = collection_by_id db i"
proof -
  have "cl_coll_id (cell db' (snd e)) = cl_coll_id (cell db (snd e))" if "e \<in> set (db_collections db)" for e
    using that registered_mem [OF assms(1), of "fst e" "snd e"] twins_cell [OF assms(2), of "snd e"]
    by (simp add: twin_def same_handle_def)
  then show ?thesis using assms(2) by (auto simp: collection_by_id_def twins_def intro!: find_cong)
qed

lemma set_same_cell: "set_cell r (cell db r) db = db"
  by (simp add: set_cell_def cell_def)

lemma stored_view_fields [simp]: "co_dimension (stored_view opts) = co_dimension opts" "co_metric (stored_view opts) = co_metric opts"
  "co_hnsw (stored_view opts) = co_hnsw opts" "co_embedding_provider (stored_view opts) = co_embedding_provider opts"
  "co_payload_indexes (stored_view opts) = []"
  by (simp_all add: stored_view_def)

lemma prepare_stored_view: "prepare_inner jl (stored_view opts) ar = prepare_inner jl opts ar"
  by (rule ext) (simp only: prepare_inner_def check_sparse_def prepare_vector_def stored_view_fields)

subsection \<open>A log that keeps every entry\<close>

definition logs_all :: "('e, wal_entry list) env \<Rightarrow> bool" where
  "logs_all V \<longleftrightarrow> (\<forall>i op b s. \<exists>e. ev_log V i op b s = (Inr (), s @ [e]) \<and> we_coll_id e = i \<and> we_op e = op \<and> we_body e = b)"

lemma logs_allE:
  assumes "logs_all V" "ev_log V i op b s = (r, s')"
  obtains e where "r = Inr ()" "s' = s @ [e]" "we_coll_id e = i" "we_op e = op" "we_body e = b"
  using assms unfolding logs_all_def by (metis prod.inject)

text \<open>One logged operation on a live handle, and its entry applied to the twin.\<close>

definition stepping :: "('e, wal_entry list) env \<Rightarrow> ('q, 'e) database \<Rightarrow> ('q, 'e) database \<Rightarrow> bool" where
  "stepping V db db' \<longleftrightarrow> logs_all V \<and> reg_inv db \<and> twins db db'"

lemma steppingD: "stepping V db db' \<Longrightarrow> logs_all V" "stepping V db db' \<Longrightarrow> reg_inv db" "stepping V db db' \<Longrightarrow> twins db db'"
  by (simp_all add: stepping_def)

lemma found: "stepping V db db' \<Longrightarrow> r < length (db_cells db) \<Longrightarrow> \<not> cl_deleted (cell db r) \<Longrightarrow>
    collection_by_id db' (cl_coll_id (cell db r)) = Some (cl_name (cell db r), r)"
  using find_registered [of db r] twins_find [of db db'] by (simp add: stepping_def)

lemma upsert_step:
  assumes st: "stepping V db db'" and bound: "r < length (db_cells db)"
    and u: "user_upsert_step (ev_json_len V) (wm_points (ev_wal V)) (ev_log V) ps (cell db r) s = (res, c, s')"
    and p: "mp_carries (wm_points (ev_wal V)) ps"
  shows "\<exists>es db2. s' = s @ es \<and> replay_entries V es db' = Inr db2 \<and> twins (set_cell r c db) db2"
proof -
  let ?c = "cell db r"
  note log = steppingD(1) [OF st] and tw = steppingD(3) [OF st] and cells = twins_cell [OF steppingD(3) [OF st] bound]
  note u' = u [unfolded user_upsert_step_def]
  have pers: "cl_persistent ?c" using cells by (simp add: twin_def)
  consider "c = ?c" "s' = s" | body qs where "res = Inr ()" "encode_wal (wm_points (ev_wal V)) ps ?c = Inr body"
      "mapR (prepare_inner (ev_json_len V) (cl_config ?c) False) ps = Inr qs"
      "coll_log (ev_log V) UpsertBatch body ?c s = (Inr (), s')"
      "c = ?c\<lparr>cl_data := apply_prepared (co_dimension (cl_config ?c)) qs (cl_data ?c)\<rparr>"
    using upsert_inner_cases [OF u'] by (metis logs_allE [OF log] sum.distinct(1))
  then show ?thesis
  proof cases
    case 1
    then show ?thesis using tw by (intro exI [of _ "[]"]) (simp add: replay_entries_def set_same_cell)
  next
    case 2
    obtain b where b: "body = Some b" "wal_encode (wm_points (ev_wal V)) ps = Inr b"
      using 2(2) pers by (auto simp: encode_wal_def tryR_eq_Inr)
    obtain e where e: "s' = s @ [e]" "we_coll_id e = cl_coll_id ?c" "we_op e = UpsertBatch" "we_body e = b"
      using 2(4) pers by (auto simp: coll_log_def b elim: logs_allE [OF log])
    have live: "\<not> cl_deleted ?c" using u' 2(1) by (auto simp: upsert_batch_step_def guard_def)
    let ?d = "(cell db' r)\<lparr>cl_data := apply_prepared (co_dimension (cl_config ?c)) qs (cl_data (cell db' r))\<rparr>"
    have d: "replay_upsert (ev_json_len V) (ev_emb V) ps (cell db' r) E = Inr (?d, E)" for E
      using cells prepare_all_replay [OF 2(3)] by (simp add: replay_upsert_def twin_def prepare_stored_view)
    have "twin c ?d" using cells rows_prepared [of "cl_data (cell db' r)" "cl_data ?c"]
      by (simp add: 2(5) twin_def same_handle_def) (simp add: rows_eq apply_prepared_base)
    then show ?thesis
      using wal_decode_encode [OF p b(2)] found [OF st bound live] d tw
      by (intro exI [of _ "[e]"] exI [of _ "(set_cell r ?d db')\<lparr>db_embedders := db_embedders db'\<rparr>"])
        (simp add: e replay_entries_def apply_wal_entry_def Let_def twins_set_cell)
  qed
qed

lemma delete_step:
  assumes st: "stepping V db db'" and bound: "r < length (db_cells db)"
    and u: "delete_batch_step (wm_ids (ev_wal V)) (ev_log V) keys (cell db r) s = (res, c, s')"
    and p: "mp_carries (wm_ids (ev_wal V)) keys"
  shows "\<exists>es db2. s' = s @ es \<and> replay_entries V es db' = Inr db2 \<and> twins (set_cell r c db) db2"
proof -
  let ?c = "cell db r"
  note log = steppingD(1) [OF st] and tw = steppingD(3) [OF st] and cells = twins_cell [OF steppingD(3) [OF st] bound]
  have pers: "cl_persistent ?c" using cells by (simp add: twin_def)
  consider "c = ?c" "s' = s" | body where "guard ?c = Inr ()" "encode_wal (wm_ids (ev_wal V)) keys ?c = Inr body"
      "coll_log (ev_log V) DeleteBatch body ?c s = (Inr (), s')" "c = ?c\<lparr>cl_data := snd (tombstone_all keys (cl_data ?c))\<rparr>"
    using delete_cases [OF u] by (metis logs_allE [OF log] sum.distinct(1))
  then show ?thesis
  proof cases
    case 1
    then show ?thesis using tw by (intro exI [of _ "[]"]) (simp add: replay_entries_def set_same_cell)
  next
    case 2
    obtain b where b: "body = Some b" "wal_encode (wm_ids (ev_wal V)) keys = Inr b"
      using 2(2) pers by (auto simp: encode_wal_def tryR_eq_Inr)
    obtain e where e: "s' = s @ [e]" "we_coll_id e = cl_coll_id ?c" "we_op e = DeleteBatch" "we_body e = b"
      using 2(3) pers by (auto simp: coll_log_def b elim: logs_allE [OF log])
    have live: "\<not> cl_deleted ?c" using 2(1) by (simp add: guard_def split: if_split_asm)
    have "twin c (replay_delete keys (cell db' r))"
      using cells rows_tombstones [of "cl_data (cell db' r)" "cl_data ?c" keys]
      by (simp add: 2(4) twin_def same_handle_def replay_delete_def tombstones_base)
    then show ?thesis
      using wal_decode_encode [OF p b(2)] found [OF st bound live] tw
      by (intro exI [of _ "[e]"] exI [of _ "set_cell r (replay_delete keys (cell db' r)) db'"])
        (simp add: e replay_entries_def apply_wal_entry_def Let_def twins_set_cell on_cell_def)
  qed
qed

lemma declare_base: "cd_base (apply_declare_index key kind d) = cd_base d"
  by (simp add: apply_declare_index_def split: prod.split bool.split)

lemma declare_step:
  assumes st: "stepping V db db'" and bound: "r < length (db_cells db)"
    and u: "create_payload_index_step (wm_pidx (ev_wal V)) (ev_log V) key kind (cell db r) s = (res, c, s')"
    and p: "mp_carries (wm_pidx (ev_wal V)) \<lparr>wp_key = key, wp_kind = pidx_kind_byte kind\<rparr>"
  shows "\<exists>es db2. s' = s @ es \<and> replay_entries V es db' = Inr db2 \<and> twins (set_cell r c db) db2"
proof -
  let ?c = "cell db r"
  note log = steppingD(1) [OF st] and tw = steppingD(3) [OF st] and cells = twins_cell [OF steppingD(3) [OF st] bound]
  have pers: "cl_persistent ?c" using cells by (simp add: twin_def)
  obtain b where b: "wal_encode (wm_pidx (ev_wal V)) \<lparr>wp_key = key, wp_kind = pidx_kind_byte kind\<rparr> = Inr b"
    using wal_encode_carried [OF p] by blast
  obtain e where e: "ev_log V (cl_coll_id ?c) PidxDeclare b s = (Inr (), s @ [e])"
    "we_coll_id e = cl_coll_id ?c" "we_op e = PidxDeclare" "we_body e = b"
    using log unfolding logs_all_def by blast
  consider "c = ?c" "s' = s" | "\<not> cl_deleted ?c" "s' = s @ [e]" "c = ?c\<lparr>cl_data := apply_declare_index key kind (cl_data ?c)\<rparr>"
    using u pers b e(1)
    by (auto simp: create_payload_index_step_def guard_def encode_wal_def coll_log_def split: if_split_asm option.splits)
  then show ?thesis
  proof cases
    case 1
    then show ?thesis using tw by (intro exI [of _ "[]"]) (simp add: replay_entries_def set_same_cell)
  next
    case 2
    have "twin c (replay_declare_index key kind (cell db' r))"
      using cells rows_declare [of "cl_data (cell db' r)" "cl_data ?c" key kind]
      by (simp add: 2(3) twin_def same_handle_def replay_declare_index_def declare_base)
    then show ?thesis
      using wal_decode_encode [OF p b] found [OF st bound 2(1)] tw
      by (intro exI [of _ "[e]"] exI [of _ "set_cell r (replay_declare_index key kind (cell db' r)) db'"])
        (simp add: 2 e replay_entries_def apply_wal_entry_def Let_def twins_set_cell on_cell_def pidx_kind_tag.from_to)
  qed
qed

lemma reindex_step:
  assumes st: "stepping V db db'" and bound: "r < length (db_cells db)" and u: "reindex Q (cell db r) = (res, c)"
  shows "twins (set_cell r c db) db'"
proof -
  note tw = steppingD(3) [OF st] and cells = twins_cell [OF steppingD(3) [OF st] bound]
  have "cl_config c = cl_config (cell db r)" "cl_persistent c = cl_persistent (cell db r)"
    using u by (auto simp: reindex_def Let_def split: sum.splits prod.splits)
  then have "twin c (cell db' r)"
    using cells reindex_handle [OF u] rows_reindex [OF u] by (auto simp: twin_def same_handle_def rows_eq)
  then have "twins (set_cell r c db) (set_cell r (cell db' r) db')" by (rule twins_set_cell [OF tw])
  then show ?thesis by (simp add: set_same_cell)
qed

text \<open>The registry operations.\<close>

lemma twins_on_cell:
  "twins db db' \<Longrightarrow> (\<And>c c'. twin c c' \<Longrightarrow> twin (f c) (g c')) \<Longrightarrow> r < length (db_cells db)
    \<Longrightarrow> twins (on_cell r f db) (on_cell r g db')"
  by (simp add: on_cell_def twins_set_cell twins_cell)

lemma twin_updates:
  "twin c c' \<Longrightarrow> twin (c\<lparr>cl_aliases := x\<rparr>) (c'\<lparr>cl_aliases := x\<rparr>)"
  "twin c c' \<Longrightarrow> twin (c\<lparr>cl_name := n\<rparr>) (c'\<lparr>cl_name := n\<rparr>)"
  "twin c c' \<Longrightarrow> cl_aliases c' = cl_aliases c"
  by (auto simp: twin_def same_handle_def)

lemma twin_dropped: "twin c c' \<Longrightarrow> twin (drop_base_unchecked (c\<lparr>cl_deleted := True\<rparr>)) (c'\<lparr>cl_deleted := True\<rparr>)"
  by (auto simp: twin_def same_handle_def drop_base_unchecked_def rows_eq)

lemma db_append_logged:
  "logs_all V \<Longrightarrow> db_persistent db \<Longrightarrow> body = Inr b \<Longrightarrow> db_append V i op body db s = (r, s')
    \<Longrightarrow> r = Inr () \<and> (\<exists>e. s' = s @ [e] \<and> we_coll_id e = i \<and> we_op e = op \<and> we_body e = b)"
  using logs_allE [of V i op b s r s'] by (simp add: db_append_def) metis

lemma logged_once:
  assumes st: "stepping V db db'" and pers: "db_persistent db" and b: "body = Inr b"
    and c: "db1 = db \<and> (s' = s \<or> (\<exists>i op err. db_append V i op body db s = (Inl err, s'))) \<or>
      (\<exists>r. map_of (db_collections db) n = Some r \<and> db_append V (cl_coll_id (cell db r)) op body db s = (Inr (), s') \<and> db1 = g r)"
    and step: "\<And>r e. map_of (db_collections db) n = Some r \<Longrightarrow> r < length (db_cells db)
      \<Longrightarrow> collection_by_id db' (we_coll_id e) = Some (n, r) \<Longrightarrow> we_op e = op \<Longrightarrow> we_body e = b
      \<Longrightarrow> \<exists>db2. apply_wal_entry V e db' = Inr db2 \<and> twins (g r) db2"
  shows "\<exists>es db2. s' = s @ es \<and> replay_entries V es db' = Inr db2 \<and> twins db1 db2"
proof -
  note log = steppingD(1) [OF st] and inv = steppingD(2) [OF st] and tw = steppingD(3) [OF st]
  consider "db1 = db" "s' = s" | i p err where "db1 = db" "db_append V i p body db s = (Inl err, s')"
    | r where "map_of (db_collections db) n = Some r" "db_append V (cl_coll_id (cell db r)) op body db s = (Inr (), s')" "db1 = g r"
    using c by blast
  then show ?thesis
  proof cases
    case 1
    then show ?thesis using tw by (intro exI [of _ "[]"]) (simp add: replay_entries_def)
  next
    case 2
    then show ?thesis using db_append_logged [OF log pers b 2(2)] by simp
  next
    case 3
    obtain e where e: "s' = s @ [e]" "we_coll_id e = cl_coll_id (cell db r)" "we_op e = op" "we_body e = b"
      using db_append_logged [OF log pers b 3(2)] by blast
    have r: "r < length (db_cells db)" "\<not> cl_deleted (cell db r)" "cl_name (cell db r) = n" using registered [OF inv] 3(1) by auto
    show ?thesis
      using step [OF 3(1) r(1) _ e(3,4)] found [OF st r(1,2)] e(1,2) r(3) 3(3)
      by (intro exI [of _ "[e]"]) (auto simp: replay_entries_def)
  qed
qed

lemma create_alias_step:
  assumes st: "stepping V db db'" and pers: "db_persistent db"
    and u: "create_alias V alias target db s = (res, db1, s')"
    and p: "mp_carries (wm_alias (ev_wal V)) \<lparr>wa_create = True, wa_alias = alias\<rparr>"
  shows "\<exists>es db2. s' = s @ es \<and> replay_entries V es db' = Inr db2 \<and> twins db1 db2"
proof -
  obtain b where b: "wal_encode (wm_alias (ev_wal V)) \<lparr>wa_create = True, wa_alias = alias\<rparr> = Inr b"
    using wal_encode_carried [OF p] by blast
  show ?thesis
  proof (rule logged_once [OF st pers b, where n = target and op = Alias])
    show "db1 = db \<and> (s' = s \<or> (\<exists>i op err. db_append V i op (wal_encode (wm_alias (ev_wal V)) \<lparr>wa_create = True, wa_alias = alias\<rparr>) db s = (Inl err, s'))) \<or>
      (\<exists>r. map_of (db_collections db) target = Some r
        \<and> db_append V (cl_coll_id (cell db r)) Alias (wal_encode (wm_alias (ev_wal V)) \<lparr>wa_create = True, wa_alias = alias\<rparr>) db s = (Inr (), s')
        \<and> db1 = on_cell r (\<lambda>c. c\<lparr>cl_aliases := cl_aliases c @ [alias]\<rparr>)
            (db\<lparr>db_aliases := AList.update alias target (db_aliases db)\<rparr>))"
      using u by (simp add: create_alias_def split: sum.splits prod.splits)
        (auto simp: tryR_eq_Inr ok_or_def split: if_split_asm option.splits)
  qed (use wal_decode_encode [OF p b] steppingD(3) [OF st] in
      \<open>auto simp: apply_wal_entry_def Let_def intro!: twins_on_cell simp: twin_updates\<close>)
qed

lemma delete_alias_step:
  assumes st: "stepping V db db'" and pers: "db_persistent db"
    and u: "delete_alias V alias db s = (res, db1, s')"
    and p: "mp_carries (wm_alias (ev_wal V)) \<lparr>wa_create = False, wa_alias = alias\<rparr>"
  shows "\<exists>es db2. s' = s @ es \<and> replay_entries V es db' = Inr db2 \<and> twins db1 db2"
proof (cases "map_of (db_aliases db) alias")
  case None
  then show ?thesis using u steppingD(3) [OF st] by (intro exI [of _ "[]"]) (auto simp: delete_alias_def replay_entries_def)
next
  case (Some target)
  obtain b where b: "wal_encode (wm_alias (ev_wal V)) \<lparr>wa_create = False, wa_alias = alias\<rparr> = Inr b"
    using wal_encode_carried [OF p] by blast
  obtain r where r: "map_of (db_collections db) target = Some r"
    using steppingD(2) [OF st] Some by (auto simp: reg_inv_def aliases_ok_def)
  show ?thesis
  proof (rule logged_once [OF st pers b, where n = target and op = Alias])
    show "db1 = db \<and> (s' = s \<or> (\<exists>i op err. db_append V i op (wal_encode (wm_alias (ev_wal V)) \<lparr>wa_create = False, wa_alias = alias\<rparr>) db s = (Inl err, s'))) \<or>
      (\<exists>r. map_of (db_collections db) target = Some r
        \<and> db_append V (cl_coll_id (cell db r)) Alias (wal_encode (wm_alias (ev_wal V)) \<lparr>wa_create = False, wa_alias = alias\<rparr>) db s = (Inr (), s')
        \<and> db1 = on_cell r (\<lambda>c. c\<lparr>cl_aliases := filter (\<lambda>a. a \<noteq> alias) (cl_aliases c)\<rparr>)
            (db\<lparr>db_aliases := AList.delete alias (db_aliases db)\<rparr>))"
      using u Some r by (auto simp: delete_alias_def Let_def split: sum.splits prod.splits)
  qed (use wal_decode_encode [OF p b] steppingD(3) [OF st] in
      \<open>auto simp: apply_wal_entry_def Let_def intro!: twins_on_cell simp: twin_updates\<close>)
qed

lemma delete_collection_step:
  assumes st: "stepping V db db'" and pers: "db_persistent db"
    and u: "delete_collection V name db s = (res, db1, s')"
  shows "\<exists>es db2. s' = s @ es \<and> replay_entries V es db' = Inr db2 \<and> twins db1 db2"
proof (rule logged_once [OF st pers, where n = name and op = DropColl])
  show "db1 = db \<and> (s' = s \<or> (\<exists>i op err. db_append V i op (Inr []) db s = (Inl err, s'))) \<or>
      (\<exists>r. map_of (db_collections db) name = Some r \<and> db_append V (cl_coll_id (cell db r)) DropColl (Inr []) db s = (Inr (), s')
        \<and> db1 = on_cell r (\<lambda>c. drop_base_unchecked (c\<lparr>cl_deleted := True\<rparr>))
            (db\<lparr>db_collections := AList.delete name (db_collections db),
                db_aliases := fold AList.delete (cl_aliases (cell db r)) (db_aliases db)\<rparr>))"
    using u by (auto simp: delete_collection_def split: sum.splits prod.splits option.splits)
qed (use steppingD(3) [OF st] in
    \<open>auto simp: apply_wal_entry_def Let_def twins_def cell_set_cell on_cell_def twin_dropped\<close>)

lemma rename_collection_step:
  assumes st: "stepping V db db'" and pers: "db_persistent db"
    and u: "rename_collection V old new db s = (res, db1, s')"
    and p: "mp_carries (wm_rename (ev_wal V)) new"
  shows "\<exists>es db2. s' = s @ es \<and> replay_entries V es db' = Inr db2 \<and> twins db1 db2"
proof -
  obtain b where b: "wal_encode (wm_rename (ev_wal V)) new = Inr b" using wal_encode_carried [OF p] by blast
  show ?thesis
  proof (rule logged_once [OF st pers b, where n = old and op = Rename])
    show "db1 = db \<and> (s' = s \<or> (\<exists>i op err. db_append V i op (wal_encode (wm_rename (ev_wal V)) new) db s = (Inl err, s'))) \<or>
      (\<exists>r. map_of (db_collections db) old = Some r
        \<and> db_append V (cl_coll_id (cell db r)) Rename (wal_encode (wm_rename (ev_wal V)) new) db s = (Inr (), s')
        \<and> db1 = on_cell r (\<lambda>c. c\<lparr>cl_name := new\<rparr>)
            (db\<lparr>db_collections := AList.update new r (AList.delete old (db_collections db)),
                db_aliases := fold (\<lambda>a. AList.update a new) (cl_aliases (cell db r)) (db_aliases db)\<rparr>))"
      using u by (simp add: rename_collection_def split: sum.splits prod.splits)
        (auto simp: tryR_eq_Inr ok_or_def split: if_split_asm option.splits)
  qed (use wal_decode_encode [OF p b] steppingD(3) [OF st] in
      \<open>auto simp: apply_wal_entry_def Let_def twins_def cell_set_cell on_cell_def twin_updates\<close>)
qed

subsection \<open>A logged creation\<close>

definition entry_for :: "u32 \<Rightarrow> wal_op \<times> bytes res \<Rightarrow> wal_entry \<Rightarrow> bool" where
  "entry_for i x e \<longleftrightarrow> we_coll_id e = i \<and> we_op e = fst x \<and> snd x = Inr (we_body e)"

lemma entry_for_pair: "entry_for i (op, body) e \<longleftrightarrow> we_coll_id e = i \<and> we_op e = op \<and> body = Inr (we_body e)"
  by (simp add: entry_for_def)

lemma append_all_logged:
  "logs_all V \<Longrightarrow> db_persistent db \<Longrightarrow> append_all V i xs db s = (Inr (), s') \<Longrightarrow>
    \<exists>es. s' = s @ es \<and> list_all2 (entry_for i) xs es"
proof (induction xs arbitrary: s)
  case (Cons x xs)
  obtain op body where x: "x = (op, body)" by (cases x)
  obtain b where b: "body = Inr b" using Cons.prems by (cases body) (auto simp: x db_append_def)
  obtain r s1 where a: "db_append V i op body db s = (r, s1)" by (cases "db_append V i op body db s")
  obtain e where e: "r = Inr ()" "s1 = s @ [e]" "we_coll_id e = i" "we_op e = op" "we_body e = b"
    using db_append_logged [OF Cons.prems(1,2) b a] by auto
  obtain es where "s' = s1 @ es" "list_all2 (entry_for i) xs es"
    using Cons.IH [OF Cons.prems(1,2), of s1] Cons.prems(3) by (auto simp: x a e(1))
  then show ?case using e(2-5) b by (intro exI [of _ "e # es"]) (simp add: x entry_for_pair)
qed simp

lemma find_set_cell:
  assumes "cl_coll_id c = cl_coll_id (cell db r)"
  shows "collection_by_id (set_cell r c db) = collection_by_id db"
proof -
  have "cl_coll_id (cell (set_cell r c db) k) = cl_coll_id (cell db k)" for k using assms by (auto simp: cell_set_cell)
  then show ?thesis by (simp add: collection_by_id_def fun_eq_iff)
qed

definition declare_all :: "(string \<times> payload_index_kind) list \<Rightarrow> 'q collection \<Rightarrow> 'q collection" where
  "declare_all ks c = fold (\<lambda>k. replay_declare_index (fst k) (snd k)) ks c"

lemma declare_all_data: "declare_all ks c = c\<lparr>cl_data := fold (\<lambda>k. apply_declare_index (fst k) (snd k)) ks (cl_data c)\<rparr>"
  by (induction ks arbitrary: c) (simp_all add: declare_all_def replay_declare_index_def)

lemma replay_declared:
  assumes "\<forall>k\<in>set ks. mp_carries (wm_pidx (ev_wal V)) \<lparr>wp_key = fst k, wp_kind = pidx_kind_byte (snd k)\<rparr>"
    and "list_all2 (entry_for i) (map (\<lambda>(key, kind). (PidxDeclare, wal_encode (wm_pidx (ev_wal V))
           \<lparr>wp_key = key, wp_kind = pidx_kind_byte kind\<rparr>)) ks) es"
    and "collection_by_id db i = Some (n, r)"
  shows "replay_entries V es db = Inr (set_cell r (declare_all ks (cell db r)) db)"
  using assms
proof (induction ks arbitrary: es db)
  case Nil
  then show ?case by (simp add: replay_entries_def declare_all_def set_same_cell)
next
  case (Cons k ks)
  obtain e es' where es: "es = e # es'" "we_coll_id e = i" "we_op e = PidxDeclare"
    "wal_encode (wm_pidx (ev_wal V)) \<lparr>wp_key = fst k, wp_kind = pidx_kind_byte (snd k)\<rparr> = Inr (we_body e)"
    "list_all2 (entry_for i) (map (\<lambda>(key, kind). (PidxDeclare, wal_encode (wm_pidx (ev_wal V))
       \<lparr>wp_key = key, wp_kind = pidx_kind_byte kind\<rparr>)) ks) es'"
    using Cons.prems(2) by (cases k) (auto simp: list_all2_Cons1 entry_for_pair)
  let ?db = "set_cell r (replay_declare_index (fst k) (snd k) (cell db r)) db"
  have "apply_wal_entry V e db = Inr ?db"
    using Cons.prems(1,3) wal_decode_encode [OF _ es(4)]
    by (simp add: apply_wal_entry_def es Let_def on_cell_def pidx_kind_tag.from_to)
  moreover have f: "collection_by_id ?db = collection_by_id db"
    by (rule find_set_cell) (simp add: replay_declare_index_def)
  have "replay_entries V es' ?db = Inr (set_cell r (declare_all ks (cell ?db r)) ?db)"
    using Cons.prems es(5) f by (intro Cons.IH) auto
  moreover have "set_cell r (declare_all ks (cell ?db r)) ?db = set_cell r (declare_all (k # ks) (cell db r)) db"
    by (cases "r < length (db_cells db)") (simp_all add: set_cell_def cell_def declare_all_def list_update_beyond)
  ultimately show ?case by (simp add: replay_entries_def es(1))
qed

lemma with_embedder_stored:
  assumes "with_embedder name opts i p n slot = Inr c"
  shows "with_embedder name (stored_view opts) i p n slot
    = Inr (c\<lparr>cl_config := stored_view opts, cl_data := (cl_data c)\<lparr>cd_payload_indexes := []\<rparr>\<rparr>)"
proof -
  have "index_for (stored_view opts) k = index_for opts k" for k by (simp only: index_for_def stored_view_fields)
  then show ?thesis using assms by (auto simp: with_embedder_def tryR_eq_Inr data_empty_def indexes_new_def)
qed

lemma install_created:
  assumes "with_embedder name opts i True 0 EmbNone = Inr c" "co_embedding_provider opts = None"
  shows "install_collection V name i [] (created_empty opts) db
    = Inr (db\<lparr>db_cells := db_cells db @ [c], db_collections := AList.update name (length (db_cells db)) (db_collections db)\<rparr>)"
proof -
  have "cl_aliases c = []" using with_embedder_facts [OF assms(1)] by simp
  then have "c\<lparr>cl_aliases := []\<rparr> = c" by (metis collection.surjective collection.update_convs(2))
  then show ?thesis
    using assms
    by (simp add: install_collection_def created_empty_def lenient_slot_def resolve_embedder_def import_loaded_vocab_def
        install_loaded_def install_points_def apply_prepared_def)
qed

lemma update_fresh: "k \<notin> fst ` set al \<Longrightarrow> AList.update k v al = al @ [(k, v)]"
  by (induction al) auto

lemma find_append: "find P (xs @ ys) = (case find P xs of None \<Rightarrow> find P ys | Some x \<Rightarrow> Some x)"
  by (induction xs) auto

lemma created_twin:
  assumes c: "with_embedder name opts i True 0 EmbNone = Inr c"
    and o: "co_embedding_provider opts = None" "distinct (map fst (co_payload_indexes opts))"
  shows "twin c (declare_all (co_payload_indexes opts)
      (c\<lparr>cl_config := stored_view opts, cl_data := (cl_data c)\<lparr>cd_payload_indexes := []\<rparr>\<rparr>))"
proof -
  let ?d = "(cl_data c)\<lparr>cd_payload_indexes := []\<rparr>"
  have d: "cd_payload_indexes (cl_data c) = indexes_new (co_payload_indexes opts)" "live_slots ?d = []" "cd_base (cl_data c) = None"
    "cl_config c = opts" "cl_embedder c = EmbNone" "cl_persistent c"
    using c by (auto simp: with_embedder_def tryR_eq_Inr data_empty_def live_slots_def)
  have "rows (fold (\<lambda>k. apply_declare_index (fst k) (snd k)) (co_payload_indexes opts) ?d) = rows (cl_data c)"
    using declare_all_empty [OF d(2) o(2)] by (simp add: rows_eq d(1) indexes_new_def)
  then show ?thesis using d(3-6) o(1) by (simp add: declare_all_data twin_def same_handle_def)
qed

lemma create_step:
  assumes st: "stepping V db db'" and pers: "db_persistent db" and w: "db_next_coll_id db + 1 \<noteq> 0"
    and u: "create_collection V name opts db s = (res, db1, s')"
    and fails: "\<And>err. res = Inl err \<Longrightarrow> s' = s"
    and o: "co_embedding_provider opts = None" "options_fit opts" "distinct (map fst (co_payload_indexes opts))"
    and p: "mp_carries (wm_create (ev_wal V)) \<lparr>wc_name = name, wc_aliases = [], wc_config = to_stored opts (ev_now V)\<rparr>"
      "\<forall>k\<in>set (co_payload_indexes opts). mp_carries (wm_pidx (ev_wal V)) \<lparr>wp_key = fst k, wp_kind = pidx_kind_byte (snd k)\<rparr>"
  shows "\<exists>es db2. s' = s @ es \<and> replay_entries V es db' = Inr db2 \<and> twins db1 db2"
proof -
  note log = steppingD(1) [OF st] and inv = steppingD(2) [OF st] and tw = steppingD(3) [OF st]
  let ?i = "db_next_coll_id db"
  consider e where "db1 = db \<or> db1 = db\<lparr>db_next_coll_id := ?i + 1\<rparr>" "res = Inl e"
    | slot E c where "append_all V ?i (create_entries V name opts) (db\<lparr>db_next_coll_id := ?i + 1\<rparr>) s = (Inr (), s')"
      "resolve_embedder V False opts db = Inr (slot, E)" "with_embedder name opts ?i (db_persistent db) 0 slot = Inr c"
      "db1 = db\<lparr>db_next_coll_id := ?i + 1, db_cells := db_cells db @ [c], db_embedders := E,
           db_collections := AList.update name (length (db_cells db)) (db_collections db)\<rparr>"
      "map_of (db_collections db) name = None"
    using create_cases [OF u [unfolded create_collection_def]] by blast
  then show ?thesis
  proof cases
    case 1
    have "s' = s" using fails [OF 1(2)] .
    moreover have "twins db1 db'" using 1(1) tw by (auto simp: twins_def)
    ultimately show ?thesis by (intro exI [of _ "[]"]) (simp add: replay_entries_def)
  next
    case 2
    have slot: "slot = EmbNone" using 2(2) o(1) by (simp add: resolve_embedder_def)
    have c: "with_embedder name opts ?i True 0 EmbNone = Inr c" using 2(3) pers by (simp add: slot)
    define c' where "c' = c\<lparr>cl_config := stored_view opts, cl_data := (cl_data c)\<lparr>cd_payload_indexes := []\<rparr>\<rparr>"
    obtain b where b: "wal_encode (wm_create (ev_wal V)) \<lparr>wc_name = name, wc_aliases = [], wc_config = to_stored opts (ev_now V)\<rparr> = Inr b"
      using wal_encode_carried [OF p(1)] by blast
    obtain e es where s': "s' = s @ e # es" and e: "we_coll_id e = ?i" "we_op e = CreateColl" "we_body e = b"
      and es: "list_all2 (entry_for ?i) (map (\<lambda>(key, kind). (PidxDeclare, wal_encode (wm_pidx (ev_wal V))
           \<lparr>wp_key = key, wp_kind = pidx_kind_byte kind\<rparr>)) (co_payload_indexes opts)) es"
      using append_all_logged [OF log _ 2(1)] pers b by (auto simp: create_entries_def list_all2_Cons1 entry_for_pair)
    let ?r = "length (db_cells db)"
    let ?db = "db'\<lparr>db_cells := db_cells db' @ [c'], db_collections := AList.update name ?r (db_collections db')\<rparr>"
    have len: "length (db_cells db') = ?r" using tw by (simp add: twins_def)
    have "\<forall>x\<in>set (db_cells db). cl_coll_id x \<noteq> ?i" using inv by (fastforce simp: reg_inv_def coll_ids_ok_def)
    then have none: "collection_by_id db' ?i = None" using find_fresh [OF inv] twins_find [OF inv tw] by simp
    have "install_collection V name ?i [] (created_empty (stored_view opts)) db' = Inr ?db"
      using install_created [OF with_embedder_stored [OF c, folded c'_def], of V db'] o(1) len by simp
    then have a: "apply_wal_entry V e db' = Inr ?db"
      using none wal_decode_encode [OF p(1) b] from_stored_to_stored [OF o(2)] by (simp add: apply_wal_entry_def e Let_def)
    have cell': "cell ?db ?r = c'" by (simp add: cell_def len nth_append)
    have ci: "cl_coll_id c' = ?i" using with_embedder_facts [OF c] by (simp add: c'_def)
    have fresh: "name \<notin> fst ` set (db_collections db')" using 2(5) tw by (simp add: twins_def map_of_eq_None_iff)
    have old: "snd e < ?r" if "e \<in> set (db_collections db')" for e
      using that tw registered_mem [OF inv, of "fst e" "snd e"] by (simp add: twins_def)
    have "find (\<lambda>e. cl_coll_id (cell ?db (snd e)) = ?i) (db_collections db') = None"
      using none old by (auto simp: collection_by_id_def find_None_iff cell_def len nth_append)
    then have found': "collection_by_id ?db ?i = Some (name, ?r)"
      using ci cell' by (simp add: collection_by_id_def update_fresh [OF fresh] find_append)
    from replay_declared [OF p(2) es found'] have "replay_entries V es ?db = Inr (set_cell ?r (declare_all (co_payload_indexes opts) c') ?db)"
      by (simp only: cell')
    then have "replay_entries V (e # es) db' = Inr (set_cell ?r (declare_all (co_payload_indexes opts) c') ?db)"
      using a by (simp add: replay_entries_def)
    moreover have "twins db1 (set_cell ?r (declare_all (co_payload_indexes opts) c') ?db)"
      using tw created_twin [OF c o(1,3), folded c'_def]
      by (auto simp: twins_def 2(4) len cell_set_cell less_Suc_eq) (simp_all add: cell_def len nth_append)
    ultimately show ?thesis using s' by blast
  qed
qed

subsection \<open>Runs of a logging database\<close>

text \<open>
  The operations of a persistent database and of its collections, without an embedding provider. An operation whose body the
  package cannot carry is not a step, nor is a creation that fails after it was logged (its entry stays in the log) or that
  declares one key twice; these exclusions are needed, see the properties of the replay below.
\<close>

inductive logged_run ::
  "'q quantizers \<Rightarrow> ('e, wal_entry list) env \<Rightarrow> ('q, 'e) database \<times> wal_entry list \<Rightarrow> ('q, 'e) database \<times> wal_entry list \<Rightarrow> bool"
  for Q V start where
  run_start: "logged_run Q V start start"
| run_create: "logged_run Q V start (db, s) \<Longrightarrow> db_next_coll_id db + 1 \<noteq> 0
    \<Longrightarrow> co_embedding_provider opts = None \<Longrightarrow> options_fit opts \<Longrightarrow> distinct (map fst (co_payload_indexes opts))
    \<Longrightarrow> mp_carries (wm_create (ev_wal V)) \<lparr>wc_name = name, wc_aliases = [], wc_config = to_stored opts (ev_now V)\<rparr>
    \<Longrightarrow> \<forall>k\<in>set (co_payload_indexes opts). mp_carries (wm_pidx (ev_wal V)) \<lparr>wp_key = fst k, wp_kind = pidx_kind_byte (snd k)\<rparr>
    \<Longrightarrow> create_collection V name opts db s = (res, db1, s1) \<Longrightarrow> \<forall>e. res = Inl e \<longrightarrow> s1 = s
    \<Longrightarrow> logged_run Q V start (db1, s1)"
| run_alias: "logged_run Q V start (db, s) \<Longrightarrow> mp_carries (wm_alias (ev_wal V)) \<lparr>wa_create = True, wa_alias = alias\<rparr>
    \<Longrightarrow> create_alias V alias target db s = (u, db1, s1) \<Longrightarrow> logged_run Q V start (db1, s1)"
| run_unalias: "logged_run Q V start (db, s) \<Longrightarrow> mp_carries (wm_alias (ev_wal V)) \<lparr>wa_create = False, wa_alias = alias\<rparr>
    \<Longrightarrow> delete_alias V alias db s = (u, db1, s1) \<Longrightarrow> logged_run Q V start (db1, s1)"
| run_delete: "logged_run Q V start (db, s) \<Longrightarrow> delete_collection V name db s = (u, db1, s1) \<Longrightarrow> logged_run Q V start (db1, s1)"
| run_rename: "logged_run Q V start (db, s) \<Longrightarrow> mp_carries (wm_rename (ev_wal V)) new
    \<Longrightarrow> rename_collection V old new db s = (u, db1, s1) \<Longrightarrow> logged_run Q V start (db1, s1)"
| run_upsert: "logged_run Q V start (db, s) \<Longrightarrow> r < length (db_cells db) \<Longrightarrow> mp_carries (wm_points (ev_wal V)) ps
    \<Longrightarrow> length ps \<le> room (cl_data (cell db r))
    \<Longrightarrow> user_upsert_step (ev_json_len V) (wm_points (ev_wal V)) (ev_log V) ps (cell db r) s = (u, c, s1)
    \<Longrightarrow> logged_run Q V start (set_cell r c db, s1)"
| run_remove: "logged_run Q V start (db, s) \<Longrightarrow> r < length (db_cells db) \<Longrightarrow> mp_carries (wm_ids (ev_wal V)) keys
    \<Longrightarrow> delete_batch_step (wm_ids (ev_wal V)) (ev_log V) keys (cell db r) s = (n, c, s1)
    \<Longrightarrow> logged_run Q V start (set_cell r c db, s1)"
| run_declare: "logged_run Q V start (db, s) \<Longrightarrow> r < length (db_cells db)
    \<Longrightarrow> mp_carries (wm_pidx (ev_wal V)) \<lparr>wp_key = key, wp_kind = pidx_kind_byte kind\<rparr>
    \<Longrightarrow> create_payload_index_step (wm_pidx (ev_wal V)) (ev_log V) key kind (cell db r) s = (u, c, s1)
    \<Longrightarrow> logged_run Q V start (set_cell r c db, s1)"
| run_reindex: "logged_run Q V start (db, s) \<Longrightarrow> r < length (db_cells db) \<Longrightarrow> reindex Q (cell db r) = (u, c)
    \<Longrightarrow> logged_run Q V start (set_cell r c db, s)"

definition replayed :: "('e, wal_entry list) env \<Rightarrow> ('q, 'e) database \<Rightarrow> ('q, 'e) database \<times> wal_entry list \<Rightarrow> bool" where
  "replayed V db0 x \<longleftrightarrow> reg_inv (fst x) \<and> db_persistent (fst x) \<and> (\<exists>db2. replay_entries V (snd x) db0 = Inr db2 \<and> twins (fst x) db2)"

lemma replay_entries_append: "replay_entries V (es @ es') db = tryR (replay_entries V es db) (replay_entries V es')"
  by (simp add: replay_entries_def foldR_append replay_entries_def [abs_def])

text \<open>One step: what it appends to the log carries the rebuilt database along.\<close>

lemma replayed_step:
  assumes "logs_all V" "replayed V db0 (db, s)" "reg_inv db1" "db_persistent db1"
    and "\<And>db2. stepping V db db2 \<Longrightarrow> \<exists>es db3. s1 = s @ es \<and> replay_entries V es db2 = Inr db3 \<and> twins db1 db3"
  shows "replayed V db0 (db1, s1)"
proof -
  obtain db2 where db2: "replay_entries V s db0 = Inr db2" "stepping V db db2"
    using assms(1,2) by (auto simp: replayed_def stepping_def)
  obtain es db3 where "s1 = s @ es" "replay_entries V es db2 = Inr db3" "twins db1 db3" using assms(5) [OF db2(2)] by blast
  then show ?thesis using assms(3,4) db2(1) by (auto simp: replayed_def replay_entries_append)
qed

lemma run_persistent: "logged_run Q V start x \<Longrightarrow> db_persistent (fst start) \<Longrightarrow> db_persistent (fst x)"
proof (induction rule: logged_run.induct)
  case (run_create db s opts name res db1 s1)
  then show ?case using create_cases [of V name opts False db s res db1 s1] by (auto simp: create_collection_def)
next
  case (run_alias db s al target u db1 s1)
  then show ?case
    by (auto simp: create_alias_def on_cell_fields split: sum.splits prod.splits)
next
  case (run_unalias db s al u db1 s1)
  then show ?case by (auto simp: delete_alias_def Let_def on_cell_fields split: sum.splits prod.splits option.splits)
next
  case (run_delete db s name u db1 s1)
  then show ?case by (auto simp: delete_collection_def on_cell_fields split: sum.splits prod.splits option.splits)
next
  case (run_rename db s new old u db1 s1)
  then show ?case by (auto simp: rename_collection_def on_cell_fields split: sum.splits prod.splits)
qed simp_all

lemma run_replayed:
  assumes log: "logs_all V" and x: "logged_run Q V start x" and start: "replayed V db0 start"
  shows "replayed V db0 x"
  using x
proof (induction rule: logged_run.induct)
  case run_start
  show ?case by (rule start)
next
  case (run_create db s opts name res db1 s1)
  then have h: "reg_inv db" "db_persistent db" by (simp_all add: replayed_def)
  have "create_collection_impl V name opts False db s = (res, db1, s1)" using run_create by (simp add: create_collection_def)
  with h have "reg_inv db1" "db_persistent db1"
    using create_collection_inv [of db] run_create(2) create_cases [of V name opts False db s res db1 s1] by auto
  then show ?case
    using run_create h by (intro replayed_step [OF log run_create(10)] create_step [where opts = opts and name = name and res = res]) auto
next
  case (run_alias db s al target u db1 s1)
  then have h: "reg_inv db" "db_persistent db" by (simp_all add: replayed_def)
  have p: "db_persistent db1" using run_persistent [OF logged_run.run_alias [OF run_alias(1-3)]] start by (simp add: replayed_def)
  show ?case
    using create_alias_inv [OF h(1) run_alias(3)] p h run_alias
    by (intro replayed_step [OF log run_alias(4)] create_alias_step) auto
next
  case (run_unalias db s al u db1 s1)
  then have h: "reg_inv db" "db_persistent db" by (simp_all add: replayed_def)
  have p: "db_persistent db1" using run_persistent [OF logged_run.run_unalias [OF run_unalias(1-3)]] start by (simp add: replayed_def)
  show ?case
    using delete_alias_inv [OF h(1) run_unalias(3)] p h run_unalias
    by (intro replayed_step [OF log run_unalias(4)] delete_alias_step) auto
next
  case (run_delete db s name u db1 s1)
  then have h: "reg_inv db" "db_persistent db" by (simp_all add: replayed_def)
  have p: "db_persistent db1" using run_persistent [OF logged_run.run_delete [OF run_delete(1-2)]] start by (simp add: replayed_def)
  show ?case
    using delete_collection_inv [OF h(1) run_delete(2)] p h run_delete
    by (intro replayed_step [OF log run_delete(3)] delete_collection_step) auto
next
  case (run_rename db s new old u db1 s1)
  then have h: "reg_inv db" "db_persistent db" by (simp_all add: replayed_def)
  have p: "db_persistent db1" using run_persistent [OF logged_run.run_rename [OF run_rename(1-3)]] start by (simp add: replayed_def)
  show ?case
    using rename_collection_inv [OF h(1) run_rename(3)] p h run_rename
    by (intro replayed_step [OF log run_rename(4)] rename_collection_step) auto
next
  case (run_upsert db s r ps u c s1)
  then have h: "reg_inv db" "db_persistent db" by (simp_all add: replayed_def)
  note u = run_upsert(5) [unfolded user_upsert_step_def]
  have "reg_inv (set_cell r c db)"
    using upsert_handle [OF u] upsert_inner_inv [OF _ run_upsert(4) u] cells_inv [OF h(1) run_upsert(2)]
    by (intro reg_inv_set_cell [OF h(1)]) (auto simp: same_handle_def)
  then show ?case
    using h run_upsert by (intro replayed_step [OF log run_upsert(6)] upsert_step [where res = u]) auto
next
  case (run_remove db s r keys n c s1)
  then have h: "reg_inv db" "db_persistent db" by (simp_all add: replayed_def)
  have "reg_inv (set_cell r c db)"
    using delete_handle [OF run_remove(4)] delete_inv [OF _ run_remove(4)] cells_inv [OF h(1) run_remove(2)]
    by (intro reg_inv_set_cell [OF h(1)]) (auto simp: same_handle_def)
  then show ?case
    using h run_remove by (intro replayed_step [OF log run_remove(5)] delete_step [where res = n]) auto
next
  case (run_declare db s r key kind u c s1)
  then have h: "reg_inv db" "db_persistent db" by (simp_all add: replayed_def)
  have "reg_inv (set_cell r c db)"
    using declare_handle [OF run_declare(4)] declare_inv [OF _ run_declare(4)] cells_inv [OF h(1) run_declare(2)]
    by (intro reg_inv_set_cell [OF h(1)]) (auto simp: same_handle_def)
  then show ?case
    using h run_declare by (intro replayed_step [OF log run_declare(5)] declare_step [where res = u]) auto
next
  case (run_reindex db s r u c)
  then have h: "reg_inv db" "db_persistent db" by (simp_all add: replayed_def)
  have "reg_inv (set_cell r c db)"
    using reindex_handle [OF run_reindex(3)] reindex_inv [OF _ run_reindex(3)] cells_inv [OF h(1) run_reindex(2)]
    by (intro reg_inv_set_cell [OF h(1)]) (auto simp: same_handle_def)
  moreover have "\<exists>es db3. s = s @ es \<and> replay_entries V es db2 = Inr db3 \<and> twins (set_cell r c db) db3"
    if "stepping V db db2" for db2
    using reindex_step [OF that run_reindex(2,3)] by (intro exI [of _ "[]"]) (simp add: replay_entries_def)
  ultimately show ?case using h by (intro replayed_step [OF log run_reindex(4)]) auto
qed

subsection \<open>A table as a codec\<close>

definition table_codec :: "'a list \<Rightarrow> 'a msgpack" where
  "table_codec xs = \<lparr>mp_enc = (\<lambda>x. map_option (\<lambda>i. [word_of_nat i]) (find (\<lambda>i. xs ! i = x) [0..<length xs])),
     mp_dec = (\<lambda>b. case b of [w] \<Rightarrow> if unat w < length xs then Some (xs ! unat w) else None | _ \<Rightarrow> None)\<rparr>"

lemma table_carries: "x \<in> set xs \<Longrightarrow> length xs \<le> 128 \<Longrightarrow> mp_carries (table_codec xs) x"
proof -
  assume x: "x \<in> set xs" "length xs \<le> 128"
  then obtain i where i: "find (\<lambda>i. xs ! i = x) [0..<length xs] = Some i" "i < length xs" "xs ! i = x"
    by (cases "find (\<lambda>i. xs ! i = x) [0..<length xs]") (auto simp: find_None_iff find_Some_iff in_set_conv_nth)
  then have u: "unat (word_of_nat i :: u8) = i" using x(2) by (simp add: unat_of_nat take_bit_nat_eq_self)
  then have "(word_of_nat i :: u8) < 0x80" using i(2) x(2) by (simp add: word_less_nat_alt)
  then show ?thesis
    using i u by (auto simp: mp_carries_def table_codec_def MAX_MSGPACK_DEPTH_def intro!: exI [of _ "MpAtom (word_of_nat i)"])
qed

definition log_env :: "(unit, wal_entry list) env" where
  "log_env = \<lparr>ev_json_len = (\<lambda>_. 0),
     ev_wal = \<lparr>wm_points = table_codec [[demo_point]], wm_ids = table_codec [],
       wm_create = table_codec [\<lparr>wc_name = ''c'', wc_aliases = [], wc_config = to_stored (options_new 2 DotProduct) 0\<rparr>],
       wm_rename = table_codec [''t'', ''c'', ''d''], wm_alias = table_codec [], wm_pidx = table_codec []\<rparr>,
     ev_emb = unit_embedder,
     ev_log = (\<lambda>i op b s. (Inr (), s @ [\<lparr>we_seq = word_of_nat (length s), we_coll_id = i, we_op = op, we_body = b\<rparr>])),
     ev_ann = linear_ann, ev_build = (\<lambda>p _. Inl (UnsupportedProvider p available_providers)), ev_now = 0\<rparr>"

lemma log_env_logs: "logs_all log_env"
  by (simp add: logs_all_def log_env_def)

lemma points_of_rows:
  "rows (cl_data c') = rows (cl_data c) \<Longrightarrow> co_dimension (cl_config c') = co_dimension (cl_config c) \<Longrightarrow>
    live_points c' = live_points c \<and> coll_contents c' = coll_contents c \<and> coll_declared_indexes c' = coll_declared_indexes c"
proof -
  assume r: "rows (cl_data c') = rows (cl_data c)" and d: "co_dimension (cl_config c') = co_dimension (cl_config c)"
  have "copy_vector (cl_data c') s k = copy_vector (cl_data c) s k" for s k
    using r by (simp add: rows_eq copy_vector_def overlay_vector_def base_vector_def base_count_def Let_def)
  then have "point_at c' = point_at c" using r d by (simp add: fun_eq_iff point_at_def rows_eq)
  then show ?thesis
    using rows_live_slots [OF r] rows_contents [OF r] d by (simp add: live_points_def coll_contents_def coll_declared_indexes_def)
qed

subsection \<open>Properties\<close>

text \<open>
  C21. Replaying the log of a run without a checkpoint rebuilds the collections: after any sequence of creating, aliasing,
  renaming and deleting collections, writing and deleting points, declaring indexes and reindexing, from an empty database, the
  replay at the next open succeeds and gives the same names, and under each name the same collection: the same points in the
  same order, the same declared indexes, the same aliases and id. The runs are those of collections without a provider, in which
  every append to the log succeeds, every logged body is decoded to what was encoded, a creation that fails has logged nothing
  and the indexes of a new collection have distinct keys. What the aliases resolve to after the replay is not claimed.
\<close>

theorem log_replay_recovers:
  fixes V :: "('e, wal_entry list) env" and db :: "('q, 'e) database"
  assumes "logs_all V" and "logged_run Q V (memory\<lparr>db_persistent := True\<rparr>, []) (db, log)"
  shows "\<exists>db2 :: ('q, 'e) database. replay_entries V log (memory\<lparr>db_persistent := True\<rparr>) = Inr db2
    \<and> list_collections db2 = list_collections db
    \<and> (\<forall>n r. map_of (db_collections db) n = Some r \<longrightarrow> map_of (db_collections db2) n = Some r
        \<and> live_points (cell db2 r) = live_points (cell db r) \<and> coll_contents (cell db2 r) = coll_contents (cell db r)
        \<and> coll_declared_indexes (cell db2 r) = coll_declared_indexes (cell db r)
        \<and> cl_aliases (cell db2 r) = cl_aliases (cell db r) \<and> cl_coll_id (cell db2 r) = cl_coll_id (cell db r))"
proof -
  let ?m = "memory\<lparr>db_persistent := True\<rparr> :: ('q, 'e) database"
  have "replayed V ?m (?m, [])"
    using memory_inv(2) [of True] by (auto simp: replayed_def replay_entries_def twins_def memory_def)
  from run_replayed [OF assms this] obtain db2 where
    i: "reg_inv db" and db2: "replay_entries V log ?m = Inr db2" "twins db db2" by (auto simp: replayed_def)
  have c: "db_collections db2 = db_collections db" using db2(2) by (simp add: twins_def)
  have "live_points (cell db2 r) = live_points (cell db r) \<and> coll_contents (cell db2 r) = coll_contents (cell db r)
      \<and> coll_declared_indexes (cell db2 r) = coll_declared_indexes (cell db r)
      \<and> cl_aliases (cell db2 r) = cl_aliases (cell db r) \<and> cl_coll_id (cell db2 r) = cl_coll_id (cell db r)"
    if "map_of (db_collections db) n = Some r" for n r
  proof -
    have "twin (cell db r) (cell db2 r)" using twins_cell [OF db2(2)] registered [OF i] that by blast
    then show ?thesis using points_of_rows [of "cell db2 r" "cell db r"] by (simp add: twin_def same_handle_def)
  qed
  then show ?thesis using db2(1) c by (intro exI [of _ db2]) (simp add: list_collections_def)
qed

definition logged_db :: "(unit, unit) database" where
  "logged_db = memory\<lparr>db_persistent := True, db_next_coll_id := 2, db_cells := [demo_coll\<lparr>cl_persistent := True\<rparr>],
     db_collections := [(''c'', 0)]\<rparr>"

lemma logged_db_created:
  "create_collection log_env ''c'' (options_new 2 DotProduct) ((memory :: (unit, unit) database)\<lparr>db_persistent := True\<rparr>) []
     = (Inr 0, logged_db, [\<lparr>we_seq = 0, we_coll_id = 1, we_op = CreateColl, we_body = [0]\<rparr>])"
proof -
  let ?m = "(memory :: (unit, unit) database)\<lparr>db_persistent := True\<rparr>"
  have n: "validate_collection_name ''c'' = Inr ()" by code_simp
  have e: "resolve_embedder log_env False (options_new 2 DotProduct) ?m = Inr (EmbNone, [])"
    by (simp add: resolve_embedder_def options_new_def memory_def)
  have m: "db_collections memory = []" "db_cells memory = []" "db_next_coll_id memory = 1"
    by (simp_all add: memory_def)
  have a: "append_all log_env i (create_entries log_env ''c'' (options_new 2 DotProduct)) (?m\<lparr>db_next_coll_id := k\<rparr>) []
      = (Inr (), [\<lparr>we_seq = 0, we_coll_id = i, we_op = CreateColl, we_body = [0]\<rparr>])" for i k
  proof -
    have "wal_encode (wm_create (ev_wal log_env)) \<lparr>wc_name = ''c'', wc_aliases = [], wc_config = to_stored (options_new 2 DotProduct) 0\<rparr> = Inr [0]"
      by (simp add: log_env_def wal_encode_def ok_or_def table_codec_def)
    moreover have "co_payload_indexes (options_new 2 DotProduct) = []" "ev_now log_env = 0"
      "ev_log log_env i op b s = (Inr (), s @ [\<lparr>we_seq = word_of_nat (length s), we_coll_id = i, we_op = op, we_body = b\<rparr>])" for i op b s
      by (simp_all add: options_new_def log_env_def)
    ultimately show ?thesis by (simp add: create_entries_def db_append_def)
  qed
  have w: "with_embedder ''c'' (options_new 2 DotProduct) 1 True 0 EmbNone = Inr (demo_coll\<lparr>cl_persistent := True\<rparr>)"
    by (simp add: with_embedder_def index_for_def options_new_def demo_coll_def)
  have d: "co_dimension (options_new 2 DotProduct) = 2" by (simp add: options_new_def)
  show ?thesis
    by (simp add: create_collection_def create_collection_impl_def n e m a d w MAX_DIMENSION_def) (simp add: logged_db_def memory_def)
qed

lemma logged_db_run: "logged_run no_quantizers log_env ((memory :: (unit, unit) database)\<lparr>db_persistent := True\<rparr>, [])
    (logged_db, [\<lparr>we_seq = 0, we_coll_id = 1, we_op = CreateColl, we_body = [0]\<rparr>])"
proof (rule run_create [OF run_start _ _ _ _ _ _ logged_db_created])
  have "ev_now log_env = 0"
    "wm_create (ev_wal log_env) = table_codec [\<lparr>wc_name = ''c'', wc_aliases = [], wc_config = to_stored (options_new 2 DotProduct) 0\<rparr>]"
    by (simp_all add: log_env_def)
  then show "mp_carries (wm_create (ev_wal log_env)) \<lparr>wc_name = ''c'', wc_aliases = [], wc_config = to_stored (options_new 2 DotProduct) (ev_now log_env)\<rparr>"
    by (simp add: table_carries)
qed (simp_all add: memory_def options_new_def options_fit_def hnsw_default_def)

theorem log_replay_recovers_witness:
  "\<exists>db2. replay_entries log_env [\<lparr>we_seq = 0, we_coll_id = 1, we_op = CreateColl, we_body = [0]\<rparr>]
       ((memory :: (unit, unit) database)\<lparr>db_persistent := True\<rparr>) = Inr db2
    \<and> list_collections db2 = [''c''] \<and> live_points (cell db2 0) = [] \<and> cl_coll_id (cell db2 0) = 1"
proof -
  have "map_of (db_collections logged_db) ''c'' = Some 0" "list_collections logged_db = [''c'']"
    "live_points (cell logged_db 0) = []" "cl_coll_id (cell logged_db 0) = 1"
    by (simp_all add: logged_db_def list_collections_def live_points_def cell_def demo_coll_def live_slots_def data_empty_def)
  then show ?thesis using log_replay_recovers [OF log_env_logs logged_db_run] by fastforce
qed

definition rename_entry :: "u32 \<Rightarrow> bytes \<Rightarrow> wal_entry" where
  "rename_entry i b = \<lparr>we_seq = 0, we_coll_id = i, we_op = Rename, we_body = b\<rparr>"

text \<open>
  Replay is not idempotent. Two collections \<open>a\<close> and \<open>b\<close>; \<open>a\<close> is renamed to \<open>t\<close> and on to \<open>c\<close>, then \<open>b\<close> is renamed to
  \<open>t\<close>: the log replays to the names \<open>c\<close> and \<open>t\<close>. Replayed a second time, on the state it produced, it overwrites the
  collection named \<open>t\<close> and loses it. This is the state after a crash between the header swap of a checkpoint or a vacuum and
  the truncation of the log, which the code takes to be harmless.
\<close>

theorem replay_not_idempotent:
  assumes "mp_carries (wm_rename (ev_wal V)) ''t''" "mp_carries (wm_rename (ev_wal V)) ''c''"
    and "wal_encode (wm_rename (ev_wal V)) ''t'' = Inr bt" "wal_encode (wm_rename (ev_wal V)) ''c'' = Inr bc"
    and "db_collections db = [(''a'', 0), (''b'', 1)]" "db_cells db = [x, y]" "cl_coll_id x = 1" "cl_coll_id y = 2"
  shows "\<exists>d1 d2. replay_entries V [rename_entry 1 bt, rename_entry 1 bc, rename_entry 2 bt] db = Inr d1
    \<and> list_collections d1 = [''c'', ''t'']
    \<and> replay_entries V [rename_entry 1 bt, rename_entry 1 bc, rename_entry 2 bt] d1 = Inr d2
    \<and> list_collections d2 = [''c'']"
  using wal_decode_encode [OF assms(1,3)] wal_decode_encode [OF assms(2,4)] assms(5-)
  by (simp add: replay_entries_def rename_entry_def apply_wal_entry_def Let_def collection_by_id_def cell_def
      on_cell_def set_cell_def list_collections_def)

definition two_colls :: "(unit, unit) database" where
  "two_colls = memory\<lparr>db_cells := [demo_coll\<lparr>cl_name := ''a'', cl_aliases := [''x'']\<rparr>, demo_coll\<lparr>cl_name := ''b'', cl_coll_id := 2\<rparr>],
     db_collections := [(''a'', 0), (''b'', 1)], db_aliases := [(''x'', ''a'')], db_next_coll_id := 3\<rparr>"

lemma rename_codec: "mp_carries (wm_rename (ev_wal log_env)) ''t''" "mp_carries (wm_rename (ev_wal log_env)) ''c''"
  "wal_encode (wm_rename (ev_wal log_env)) ''t'' = Inr [0]" "wal_encode (wm_rename (ev_wal log_env)) ''c'' = Inr [1]"
  by (simp_all add: log_env_def table_carries) (simp_all add: wal_encode_def ok_or_def table_codec_def)

theorem replay_not_idempotent_witness:
  "\<exists>d1 d2. replay_entries log_env [rename_entry 1 [0], rename_entry 1 [1], rename_entry 2 [0]] two_colls = Inr d1
    \<and> list_collections d1 = [''c'', ''t'']
    \<and> replay_entries log_env [rename_entry 1 [0], rename_entry 1 [1], rename_entry 2 [0]] d1 = Inr d2
    \<and> list_collections d2 = [''c'']"
  by (rule replay_not_idempotent [OF rename_codec, where x = "demo_coll\<lparr>cl_name := ''a'', cl_aliases := [''x'']\<rparr>"
        and y = "demo_coll\<lparr>cl_name := ''b'', cl_coll_id := 2\<rparr>"])
    (simp_all add: two_colls_def demo_coll_def)

text \<open>
  A logged rename loses the aliases. The rename itself moves every alias of the collection to the new name, so an alias
  still finds it; the replay of the same rename does not, and the alias is left pointing to a name that is gone, until the
  next checkpoint has written the names again.
\<close>

theorem rename_replay_drops_alias:
  assumes i: "reg_inv db" and n: "map_of (db_collections db) old = Some r"
    and x: "map_of (db_aliases db) x = Some old" "map_of (db_collections db) x = None" "x \<noteq> new"
    and o: "rename_collection V old new db s = (Inr (), live, s')"
    and p: "mp_carries (wm_rename (ev_wal V)) new" "wal_encode (wm_rename (ev_wal V)) new = Inr b"
  shows "lookup_collection x live = Inr r \<and>
    (\<exists>rebuilt. apply_wal_entry V (rename_entry (cl_coll_id (cell db r)) b) db = Inr rebuilt
       \<and> lookup_collection x rebuilt = Inl (CollectionNotFound x))"
proof -
  have r: "r < length (db_cells db)" "\<not> cl_deleted (cell db r)" "cl_name (cell db r) = old" using registered [OF i] n by auto
  have live: "map_of (db_collections db) new = None" "live = on_cell r (\<lambda>c. c\<lparr>cl_name := new\<rparr>)
      (db\<lparr>db_collections := AList.update new r (AList.delete old (db_collections db)),
          db_aliases := fold (\<lambda>a. AList.update a new) (cl_aliases (cell db r)) (db_aliases db)\<rparr>)"
    using o n by (auto simp: rename_collection_def tryR_eq_Inr ok_or_def split: sum.splits prod.splits option.splits if_split_asm)
  have a: "x \<in> set (cl_aliases (cell db r))" using alias_holds [OF i n] x(1) by simp
  have "old \<noteq> new" "x \<noteq> old" using live(1) n x(2) by auto
  let ?rebuilt = "on_cell r (\<lambda>c. c\<lparr>cl_name := new\<rparr>) (db\<lparr>db_collections := AList.update new r (AList.delete old (db_collections db))\<rparr>)"
  have "apply_wal_entry V (rename_entry (cl_coll_id (cell db r)) b) db = Inr ?rebuilt"
    using wal_decode_encode [OF p] find_registered [OF i r(1,2)] r(3)
    by (simp add: apply_wal_entry_def rename_entry_def Let_def)
  moreover have "lookup_collection x ?rebuilt = Inl (CollectionNotFound x)"
    using x \<open>old \<noteq> new\<close> \<open>x \<noteq> old\<close> by (simp add: lookup_collection_def on_cell_fields)
  moreover have "lookup_collection x live = Inr r"
    using x a \<open>old \<noteq> new\<close> by (auto simp: live(2) lookup_collection_def on_cell_fields map_of_fold_update)
  ultimately show ?thesis by blast
qed

lemma two_colls_inv: "reg_inv two_colls"
proof -
  have c: "cell two_colls 0 = demo_coll\<lparr>cl_name := ''a'', cl_aliases := [''x'']\<rparr>"
    "cell two_colls (Suc 0) = demo_coll\<lparr>cl_name := ''b'', cl_coll_id := 2\<rparr>"
    by (simp_all add: cell_def two_colls_def)
  have f: "length (db_cells two_colls) = 2" "db_collections two_colls = [(''a'', 0), (''b'', 1)]" "db_aliases two_colls = [(''x'', ''a'')]"
    by (simp_all add: two_colls_def)
  have d: "cl_deleted demo_coll = False" "cl_aliases demo_coll = []" by (simp_all add: demo_coll_def)
  have "coll_inv (cell two_colls r)" if "r < 2" for r
    using that demo_inv(1) by (cases r) (auto simp: c less_Suc_eq coll_inv_def)
  moreover have "map_of (db_collections two_colls) n = Some r \<longleftrightarrow>
      r < length (db_cells two_colls) \<and> cl_name (cell two_colls r) = n \<and> \<not> cl_deleted (cell two_colls r)" for n r
    using c d by (cases "r = 0"; cases "r = Suc 0") (auto simp: f)
  then have "names_ok two_colls" by (simp add: names_ok_def f)
  moreover have "aliases_ok two_colls" by (auto simp: aliases_ok_def f c d less_2_cases_iff)
  moreover have "coll_ids_ok two_colls" by (simp add: coll_ids_ok_def two_colls_def demo_coll_def)
  ultimately show ?thesis by (simp add: reg_inv_def f)
qed

theorem rename_replay_drops_alias_witness:
  "\<exists>live rebuilt. rename_collection log_env ''a'' ''t'' two_colls [] = (Inr (), live, [])
    \<and> lookup_collection ''x'' live = Inr 0
    \<and> apply_wal_entry log_env (rename_entry 1 [0]) two_colls = Inr rebuilt
    \<and> lookup_collection ''x'' rebuilt = Inl (CollectionNotFound ''x'')"
proof -
  have n: "validate_collection_name ''t'' = Inr ()" by code_simp
  obtain live where l: "rename_collection log_env ''a'' ''t'' two_colls [] = (Inr (), live, [])"
    by (simp add: rename_collection_def n ok_or_def two_colls_def memory_def db_append_def)
  have f: "map_of (db_collections two_colls) ''a'' = Some 0" "map_of (db_aliases two_colls) ''x'' = Some ''a''"
    "map_of (db_collections two_colls) ''x'' = None" "cl_coll_id (cell two_colls 0) = 1"
    by (simp_all add: two_colls_def cell_def demo_coll_def)
  show ?thesis using rename_replay_drops_alias [OF two_colls_inv f(1-3) _ l rename_codec(1,3)] l f(4) by auto
qed

end
