(* ===== verification/Persistence.thy ===== *)
theory Persistence
  imports Seal Pager
begin

section \<open>The persistence layer (\<open>persist/mod.rs\<close>)\<close>

text \<open>
  One journal per open file: the pager, the write-ahead log and the generation. The disk is a map from paths to files; the
  log is the file at \<open>wal_path\<close>. The record \<open>disk_env\<close> collects the packages: compressors, checksum, MessagePack forms,
  bitmaps, hash, the fresh identifier and the clock; \<open>de_locked exclusive path\<close> says that another process holds a lock on the
  path that excludes the one asked for. A step that fails half way returns the disk it leaves.
\<close>

record disk_env =
  de_compress :: compressors
  de_crc :: "bytes \<Rightarrow> u32"
  de_toc :: "toc msgpack"
  de_json :: "json msgpack"
  de_config :: "stored_config msgpack"
  de_roaring :: roaring
  de_hash :: "bytes \<Rightarrow> u64"
  de_locked :: "bool \<Rightarrow> string \<Rightarrow> bool"
  de_uuid :: bytes
  de_now :: u64

definition MMAP_AUTO_THRESHOLD :: u64 where "MMAP_AUTO_THRESHOLD = 64 * 1024 * 1024"

record journal =
  jn_pager :: pager
  jn_wal :: wal
  jn_generation :: u64

record persistence =
  ps_journal :: journal
  ps_uuid :: bytes
  ps_durability :: durability
  ps_wal_size_limit :: u64
  ps_auto_vacuum_threshold :: f32
  ps_read_only :: bool
  ps_crashed :: bool
  ps_checkpoint_wired :: bool

record loaded_state =
  lo_collections :: "(string \<times> u32 \<times> string list \<times> loaded_collection) list"
  lo_replay_entries :: "wal_entry list"
  lo_discarded_tail :: bool

record open_config =
  oc_durability :: durability
  oc_wal_size_limit :: u64
  oc_auto_vacuum_threshold :: f32
  oc_read_only :: bool
  oc_read_only_ignore_wal :: bool
  oc_mmap :: "bool option"
  oc_memory_budget :: u64

definition wal_path :: "string \<Rightarrow> string" where
  "wal_path db = db @ ''-wal''"

definition vacuum_temp_path :: "string \<Rightarrow> string" where
  "vacuum_temp_path db = db @ ''-vac''"

text \<open>The file a path holds; a missing file reads as empty.\<close>

definition file_at :: "fsys \<Rightarrow> string \<Rightarrow> bytes" where
  "file_at fs path = (case fs path of None \<Rightarrow> [] | Some f \<Rightarrow> f)"

subsection \<open>Opening\<close>

definition open_pager :: "disk_env \<Rightarrow> string \<Rightarrow> bool \<Rightarrow> fsys \<Rightarrow> fsys \<times> (pager \<times> toc) res" where
  "open_pager D path exclusive fs =
     (if fs path \<noteq> None then (fs, pager_open (de_crc D) (de_toc D) (de_locked D exclusive) fs path)
      else
        case pager_create (de_compress D) (de_crc D) (de_toc D) (de_locked D True) path (de_uuid D) (de_now D) fs of
          (fs1, r) \<Rightarrow>
            (fs1, tryR r (\<lambda>p. Inr (p, \<lparr>toc_generation = 0, toc_collections = [], toc_free_tail_offset = 0\<rparr>))))"

definition is_vectors_ref :: "seg_ref \<Rightarrow> bool" where
  "is_vectors_ref r \<longleftrightarrow> rf_type r = seg_to_byte SegVectors"

definition slot_count :: "vectors_region list \<Rightarrow> nat" where
  "slot_count regions = fold max (map (\<lambda>g. unat (vr_first_slot g + vr_count g)) regions) 0"

definition mapped :: "open_config \<Rightarrow> seg_ref list \<Rightarrow> bool" where
  "mapped cfg vec_refs \<longleftrightarrow> vec_refs \<noteq> [] \<and>
     (case oc_mmap cfg of Some b \<Rightarrow> b | None \<Rightarrow> sum_list (map rf_len vec_refs) > MMAP_AUTO_THRESHOLD)"

text \<open>The mapped tier of one collection; \<open>None\<close> when it has an embedding provider and is materialized all the same.\<close>

definition open_mapped ::
  "disk_env \<Rightarrow> open_config \<Rightarrow> bytes \<Rightarrow> coll_entry \<Rightarrow> seg_ref list \<Rightarrow> segment list \<Rightarrow> loaded_collection option res" where
  "open_mapped D cfg f entry vec_refs segments =
     tryR (mapR (map_vectors_region (de_crc D) f) vec_refs) (\<lambda>regions.
     tryR (load_based (de_json D) (de_config D) (de_roaring D) segments (slot_count regions))
       (\<lambda>(options, ids, payloads, sparses).
       if co_embedding_provider options \<noteq> None then Inr None
       else Inr (Some \<lparr>ld_options = options, ld_points = [],
              ld_base = Some \<lparr>lb_regions = regions, lb_slot_count = slot_count regions, lb_ids = ids, lb_payloads = payloads,
                lb_sparses = sparses, lb_seg_refs = ce_live_segments entry, lb_vector_count = ce_vector_count entry,
                lb_tombstone_count = ce_tombstone_count entry,
                lb_indexed = (sum_list (map rf_len vec_refs) \<le> oc_memory_budget cfg)\<rparr>,
              ld_vocab = None, ld_committed = None\<rparr>)))"

definition open_entry ::
  "disk_env \<Rightarrow> open_config \<Rightarrow> pager \<times> bytes \<Rightarrow> coll_entry \<Rightarrow> (string \<times> u32 \<times> string list \<times> loaded_collection) res" where
  "open_entry D cfg pf entry =
     (let read = pager_read_segment (de_compress D) (de_crc D) pf;
          vec_refs = filter is_vectors_ref (ce_live_segments entry);
          named = (\<lambda>ld. (ce_name entry, ce_coll_id entry, ce_aliases entry, ld))
      in tryR (mapR read (filter (\<lambda>r. \<not> is_vectors_ref r) (ce_live_segments entry))) (\<lambda>segments.
         tryR (if mapped cfg vec_refs then open_mapped D cfg (snd pf) entry vec_refs segments else Inr None) (\<lambda>based.
           case based of
             Some ld \<Rightarrow> Inr (named ld)
           | None \<Rightarrow>
               tryR (mapR read vec_refs) (\<lambda>vectors.
               tryR (load (de_json D) (de_config D) (de_roaring D) (segments @ vectors)) (\<lambda>ld.
                 Inr (named (ld\<lparr>ld_committed :=
                   Some (ce_live_segments entry, ce_vector_count entry, ce_tombstone_count entry)\<rparr>)))))))"

definition persistence_open ::
  "disk_env \<Rightarrow> string \<Rightarrow> open_config \<Rightarrow> fsys \<Rightarrow> fsys \<times> (persistence \<times> loaded_state) res" where
  "persistence_open D path cfg fs =
     (case open_pager D path (\<not> oc_read_only cfg) fs of
        (fs1, Inl e) \<Rightarrow> (fs1, Inl e)
      | (fs1, Inr (pager, toc)) \<Rightarrow>
          (case mapR (open_entry D cfg (pager, file_at fs1 path)) (toc_collections toc) of
             Inl e \<Rightarrow> (fs1, Inl e)
           | Inr collections \<Rightarrow>
               let (wal, lf) = wal_open (pg_uuid pager) (file_at fs1 (wal_path path));
                   fs2 = fs1(wal_path path := Some lf);
                   opened = (\<lambda>wal r.
                     (\<lparr>ps_journal = \<lparr>jn_pager = pager, jn_wal = wal, jn_generation = toc_generation toc\<rparr>,
                       ps_uuid = pg_uuid pager, ps_durability = oc_durability cfg, ps_wal_size_limit = oc_wal_size_limit cfg,
                       ps_auto_vacuum_threshold = oc_auto_vacuum_threshold cfg, ps_read_only = oc_read_only cfg,
                       ps_crashed = False, ps_checkpoint_wired = False\<rparr>,
                      \<lparr>lo_collections = collections, lo_replay_entries = rp_entries r,
                       lo_discarded_tail = rp_discarded_tail r\<rparr>))
               in if oc_read_only cfg
                  then if \<not> wal_is_empty lf \<and> \<not> oc_read_only_ignore_wal cfg then (fs2, Inl WalPending)
                       else (fs2, Inr (opened wal \<lparr>rp_entries = [], rp_discarded_tail = False\<rparr>))
                  else let (wal, r) = wal_replay (de_crc D) (wal, lf) in (fs2, Inr (opened wal r))))"

definition mark_crashed :: "persistence \<Rightarrow> persistence" where
  "mark_crashed P = P\<lparr>ps_crashed := True\<rparr>"

definition set_checkpoint :: "persistence \<Rightarrow> persistence" where
  "set_checkpoint P = P\<lparr>ps_checkpoint_wired := True\<rparr>"

subsection \<open>Writing\<close>

text \<open>The state the write path works on.\<close>

type_synonym durable = "persistence \<times> fsys"

definition db_path :: "persistence \<Rightarrow> string" where
  "db_path P = pg_path (jn_pager (ps_journal P))"

definition wal_file :: "durable \<Rightarrow> wal \<times> bytes" where
  "wal_file = (\<lambda>(P, fs). (jn_wal (ps_journal P), file_at fs (wal_path (db_path P))))"

definition set_wal_file :: "wal \<times> bytes \<Rightarrow> durable \<Rightarrow> durable" where
  "set_wal_file = (\<lambda>(w, f) (P, fs).
     (P\<lparr>ps_journal := (ps_journal P)\<lparr>jn_wal := w\<rparr>\<rparr>, fs(wal_path (db_path P) := Some f)))"

definition ps_append :: "disk_env \<Rightarrow> durable wal_log" where
  "ps_append D coll_id op body s =
     (if ps_read_only (fst s) then (Inl ReadOnly, s)
      else case wal_append (de_crc D) coll_id op body (ps_durability (fst s)) (wal_file s) of
             (lf, r) \<Rightarrow> (tryR r (\<lambda>_. Inr ()), set_wal_file lf s))"

definition wal_over :: "durable \<Rightarrow> bool" where
  "wal_over s \<longleftrightarrow> unat (ps_wal_size_limit (fst s)) \<le> wal_size (snd (wal_file s))"

text \<open>\<open>after_write\<close> drives the checkpoint it was wired with.\<close>

definition after_write :: "('d \<times> durable \<Rightarrow> unit res \<times> 'd \<times> durable) \<Rightarrow> 'd \<times> durable \<Rightarrow> unit res \<times> 'd \<times> durable" where
  "after_write checkpoint s =
     (if wal_over (snd s) \<and> ps_checkpoint_wired (fst (snd s)) then checkpoint s else (Inr (), s))"

definition bump :: "persistence \<Rightarrow> persistence" where
  "bump P = P\<lparr>ps_journal := (ps_journal P)\<lparr>jn_generation := jn_generation (ps_journal P) + 1\<rparr>\<rparr>"

definition set_pager :: "pager \<Rightarrow> persistence \<Rightarrow> persistence" where
  "set_pager p P = P\<lparr>ps_journal := (ps_journal P)\<lparr>jn_pager := p\<rparr>\<rparr>"

definition commit :: "disk_env \<Rightarrow> checkpoint_coll list \<Rightarrow> durable \<Rightarrow> toc option res \<times> durable" where
  "commit D colls s =
     (let (P, fs) = s
      in if ps_read_only P then (Inr None, s)
         else if colls \<noteq> [] \<and> (\<forall>c\<in>set colls. cc_reused c \<noteq> None) \<and> wal_is_empty (snd (wal_file s)) then (Inr None, s)
         else
           let P1 = bump P; path = db_path P
           in case pager_checkpoint (de_compress D) (de_crc D) (de_toc D) (jn_generation (ps_journal P1)) colls Codec_Lz4
                     (de_now D) (jn_pager (ps_journal P1), file_at fs path) of
                ((p, f), r) \<Rightarrow>
                  let s1 = (set_pager p P1, fs(path := Some f))
                  in (case r of
                        Inl e \<Rightarrow> (Inl e, s1)
                      | Inr toc \<Rightarrow> (Inr (Some toc), set_wal_file (wal_truncate (wal_file s1)) s1)))"

definition write_snapshot :: "disk_env \<Rightarrow> string \<Rightarrow> checkpoint_coll list \<Rightarrow> fsys \<Rightarrow> fsys \<times> unit res" where
  "write_snapshot D path colls fs =
     create_compacted (de_compress D) (de_crc D) (de_toc D) (de_locked D True) path (de_uuid D) 1 colls Codec_Lz4 (de_now D) fs"

definition ps_vacuum :: "disk_env \<Rightarrow> checkpoint_coll list \<Rightarrow> durable \<Rightarrow> unit res \<times> durable" where
  "ps_vacuum D colls s =
     (let (P, fs) = s
      in if ps_read_only P then (Inr (), s)
         else
           let uuid = pg_uuid (jn_pager (ps_journal P)); temp = vacuum_temp_path (db_path P); P1 = bump P
           in case create_compacted (de_compress D) (de_crc D) (de_toc D) (de_locked D True) temp uuid
                     (jn_generation (ps_journal P1)) colls Codec_Lz4 (de_now D) (fs(temp := None)) of
                (fs1, Inl e) \<Rightarrow> (Inl e, P1, fs1)
              | (fs1, Inr _) \<Rightarrow>
                  (case replace_with (de_crc D) (de_toc D) (de_locked D True) temp (jn_pager (ps_journal P1)) fs1 of
                     ((p, fs2), Inl e) \<Rightarrow> (Inl e, set_pager p P1, fs2)
                   | ((p, fs2), Inr _) \<Rightarrow>
                       let s2 = (set_pager p P1, fs2)
                       in (Inr (), set_wal_file (wal_truncate (wal_file s2)) s2)))"

end
