(* ===== verification/Durable.thy ===== *)
theory Durable
  imports Persistence Registry
begin

section \<open>Durable databases and images (\<open>database.rs\<close>)\<close>

text \<open>
  The operations that tie the registry to the file: sealing every live collection, checkpoint, vacuum, snapshot, opening and
  closing, and the image of a whole database in memory. The state of a file-backed database is the registry and the durable
  state of \<open>Persistence\<close>; the environment \<open>V\<close> logs into the latter. The steps of a checkpoint run without other writers in
  between, so what the code would lose in such a race is not modelled.
\<close>

subsection \<open>Sealing the live collections\<close>

definition live_cells :: "('q, 'e) database \<Rightarrow> nat list" where
  "live_cells db = filter (\<lambda>r. \<not> cl_deleted (cell db r)) (map snd (db_collections db))"

definition seal_collection ::
  "disk_env \<Rightarrow> 'e embedder_ops \<Rightarrow> bool \<Rightarrow> 'e list \<Rightarrow> 'q collection \<Rightarrow> checkpoint_coll res" where
  "seal_collection D ops allow_reuse E c =
     (case (if allow_reuse then clean_reuse c else None) of
        Some (refs, vector_count, tombstone_count) \<Rightarrow>
          Inr \<lparr>cc_coll_id = cl_coll_id c, cc_name = cl_name c, cc_aliases = cl_aliases c, cc_vector_count = vector_count,
               cc_tombstone_count = tombstone_count, cc_segments = [], cc_reused = Some refs\<rparr>
      | None \<Rightarrow>
          tryR (export_vocab_state ops c E) (\<lambda>vocab.
            seal (de_json D) (de_config D) (de_roaring D) (de_hash D) (cl_coll_id c) (cl_name c) (cl_aliases c) (cl_config c)
              (coll_declared_indexes c) vocab (live_points c) (de_now D)))"

definition sealed_live_collections ::
  "disk_env \<Rightarrow> 'e embedder_ops \<Rightarrow> bool \<Rightarrow> ('q, 'e) database \<Rightarrow> checkpoint_coll list res" where
  "sealed_live_collections D ops allow_reuse db =
     mapR (\<lambda>r. seal_collection D ops allow_reuse (db_embedders db) (cell db r)) (live_cells db)"

subsection \<open>Checkpoint and vacuum\<close>

definition mark_entry :: "coll_entry \<Rightarrow> ('q, 'e) database \<Rightarrow> ('q, 'e) database" where
  "mark_entry entry db =
     (case collection_by_id db (ce_coll_id entry) of
        None \<Rightarrow> db
      | Some (n, r) \<Rightarrow>
          on_cell r (mark_sealed (ce_live_segments entry) (ce_vector_count entry) (ce_tombstone_count entry)) db)"

definition checkpoint_inner ::
  "disk_env \<Rightarrow> 'e embedder_ops \<Rightarrow> ('q, 'e) database \<times> durable \<Rightarrow> unit res \<times> ('q, 'e) database \<times> durable" where
  "checkpoint_inner D ops = (\<lambda>(db, s).
     if \<not> db_persistent db then (Inr (), db, s)
     else case sealed_live_collections D ops True db of
            Inl e \<Rightarrow> (Inl e, db, s)
          | Inr colls \<Rightarrow>
              (case commit D colls s of
                 (Inl e, s1) \<Rightarrow> (Inl e, db, s1)
               | (Inr None, s1) \<Rightarrow> (Inr (), db, s1)
               | (Inr (Some toc), s1) \<Rightarrow> (Inr (), fold mark_entry (toc_collections toc) db, s1)))"

definition should_auto_vacuum :: "('q, 'e) database \<times> durable \<Rightarrow> bool" where
  "should_auto_vacuum = (\<lambda>(db, s).
     let threshold = ps_auto_vacuum_threshold (fst s)
     in db_persistent db \<and> \<not> f32_le threshold 0 \<and>
        (\<exists>r\<in>set (live_cells db). f32_le threshold (tombstone_ratio (cell db r))))"

fun compact_all :: "'q quantizers \<Rightarrow> nat list \<Rightarrow> ('q, 'e) database \<Rightarrow> unit res \<times> ('q, 'e) database" where
  "compact_all Q [] db = (Inr (), db)"
| "compact_all Q (r # rs) db =
     (case compact Q (cell db r) of
        (Inl e, c) \<Rightarrow> (Inl e, set_cell r c db)
      | (Inr _, c) \<Rightarrow> compact_all Q rs (set_cell r c db))"

definition vacuum_inner ::
  "disk_env \<Rightarrow> 'e embedder_ops \<Rightarrow> 'q quantizers \<Rightarrow> ('q, 'e) database \<times> durable \<Rightarrow> unit res \<times> ('q, 'e) database \<times> durable" where
  "vacuum_inner D ops Q = (\<lambda>(db, s).
     if \<not> db_persistent db then (Inr (), db, s)
     else case compact_all Q (live_cells db) db of
            (Inl e, db1) \<Rightarrow> (Inl e, db1, s)
          | (Inr _, db1) \<Rightarrow>
              (case sealed_live_collections D ops False db1 of
                 Inl e \<Rightarrow> (Inl e, db1, s)
               | Inr colls \<Rightarrow> (case ps_vacuum D colls s of (r, s1) \<Rightarrow> (r, db1, s1))))"

definition checkpoint_and_maybe_vacuum ::
  "disk_env \<Rightarrow> 'e embedder_ops \<Rightarrow> 'q quantizers \<Rightarrow> ('q, 'e) database \<times> durable \<Rightarrow> unit res \<times> ('q, 'e) database \<times> durable" where
  "checkpoint_and_maybe_vacuum D ops Q x =
     (case checkpoint_inner D ops x of
        (Inl e, y) \<Rightarrow> (Inl e, y)
      | (Inr _, y) \<Rightarrow> if should_auto_vacuum y then vacuum_inner D ops Q y else (Inr (), y))"

definition db_checkpoint where "db_checkpoint = checkpoint_and_maybe_vacuum"

definition db_vacuum where "db_vacuum = vacuum_inner"

text \<open>What a write on a handle runs when it has been applied.\<close>

definition db_after_write ::
  "disk_env \<Rightarrow> 'e embedder_ops \<Rightarrow> 'q quantizers \<Rightarrow> ('q, 'e) database \<times> durable \<Rightarrow> unit res \<times> ('q, 'e) database \<times> durable" where
  "db_after_write D ops Q x = (if db_persistent (fst x) then after_write (checkpoint_and_maybe_vacuum D ops Q) x else (Inr (), x))"

definition snapshot ::
  "disk_env \<Rightarrow> 'e embedder_ops \<Rightarrow> string \<Rightarrow> ('q, 'e) database \<times> durable \<Rightarrow> unit res \<times> ('q, 'e) database \<times> durable" where
  "snapshot D ops path x =
     (case checkpoint_inner D ops x of
        (Inl e, y) \<Rightarrow> (Inl e, y)
      | (Inr _, db, P, fs) \<Rightarrow>
          (case sealed_live_collections D ops False db of
             Inl e \<Rightarrow> (Inl e, db, P, fs)
           | Inr colls \<Rightarrow> (case write_snapshot D path colls fs of (fs1, r) \<Rightarrow> (r, db, P, fs1))))"

text \<open>The last handle checkpoints; a failure is ignored and leaves the log to recover from.\<close>

definition db_drop :: "disk_env \<Rightarrow> 'e embedder_ops \<Rightarrow> ('q, 'e) database \<times> durable \<Rightarrow> durable" where
  "db_drop D ops x =
     (if db_persistent (fst x) \<and> \<not> ps_crashed (fst (snd x)) then snd (snd (checkpoint_inner D ops x)) else snd x)"

definition simulate_crash :: "durable \<Rightarrow> durable" where
  "simulate_crash = (\<lambda>(P, fs). (mark_crashed P, fs))"

subsection \<open>Opening\<close>

definition open_config_of :: "open_options \<Rightarrow> open_config" where
  "open_config_of opts =
     \<lparr>oc_durability = oo_durability opts, oc_wal_size_limit = oo_wal_size_limit opts,
      oc_auto_vacuum_threshold = oo_auto_vacuum_threshold opts, oc_read_only = oo_read_only opts,
      oc_read_only_ignore_wal = oo_read_only_ignore_wal opts, oc_mmap = oo_mmap opts, oc_memory_budget = oo_memory_budget opts\<rparr>"

definition install_all ::
  "('e, 's) env \<Rightarrow> (string \<times> u32 \<times> string list \<times> loaded_collection) list \<Rightarrow> ('q, 'e) database \<Rightarrow> ('q, 'e) database res" where
  "install_all V colls db = foldR (\<lambda>db (n, i, as, ld). install_collection V n i as ld db) db colls"

definition next_id :: "loaded_state \<Rightarrow> u32" where
  "next_id st = fold max (map (\<lambda>(n, i, as, ld). i) (lo_collections st) @ map we_coll_id (lo_replay_entries st)) 0 + 1"

definition open_with ::
  "disk_env \<Rightarrow> ('e, durable) env \<Rightarrow> string \<Rightarrow> open_options \<Rightarrow> fsys \<Rightarrow> fsys \<times> (('q, 'e) database \<times> persistence) res" where
  "open_with D V path options fs =
     (case persistence_open D path (open_config_of options) fs of
        (fs1, Inl e) \<Rightarrow> (fs1, Inl e)
      | (fs1, Inr (P, st)) \<Rightarrow>
          (fs1, tryR (install_all V (lo_collections st) (memory\<lparr>db_persistent := True\<rparr>)) (\<lambda>db.
                tryR (replay_entries V (lo_replay_entries st) db) (\<lambda>db.
                  Inr (db\<lparr>db_next_coll_id := next_id st\<rparr>, set_checkpoint P)))))"

definition db_open ::
  "disk_env \<Rightarrow> ('e, durable) env \<Rightarrow> string \<Rightarrow> fsys \<Rightarrow> fsys \<times> (('q, 'e) database \<times> persistence) res" where
  "db_open D V path = open_with D V path open_options_new"

subsection \<open>The image of a database\<close>

definition image_collection :: "disk_env \<Rightarrow> 'e embedder_ops \<Rightarrow> 'e list \<Rightarrow> 'q collection \<Rightarrow> checkpoint_coll res" where
  "image_collection D ops E c =
     tryR (export_vocab_state ops c E) (\<lambda>vocab.
       seal (de_json D) (de_config D) (de_roaring D) (de_hash D) (cl_coll_id c) (cl_name c) (cl_aliases c) (cl_config c)
         (co_payload_indexes (cl_config c)) vocab (live_points c) (de_now D))"

definition serialize :: "disk_env \<Rightarrow> 'e embedder_ops \<Rightarrow> ('q, 'e) database \<Rightarrow> bytes res" where
  "serialize D ops db =
     tryR (mapR (\<lambda>r. image_collection D ops (db_embedders db) (cell db r)) (live_cells db)) (\<lambda>colls.
       write_image (de_compress D) (de_crc D) (de_toc D) (de_uuid D) (de_now D) (de_now D) 1 colls Codec_Lz4)"

fun create_aliases ::
  "('e, 's) env \<Rightarrow> string list \<Rightarrow> string \<Rightarrow> ('q, 'e) database \<Rightarrow> 's \<Rightarrow> unit res \<times> ('q, 'e) database \<times> 's" where
  "create_aliases V [] name db s = (Inr (), db, s)"
| "create_aliases V (a # as) name db s =
     (case create_alias V a name db s of
        (Inl e, db1, s1) \<Rightarrow> (Inl e, db1, s1)
      | (Inr _, db1, s1) \<Rightarrow> create_aliases V as name db1 s1)"

definition image_points :: "('e, 's) env \<Rightarrow> loaded_collection \<Rightarrow> nat \<Rightarrow> ('q, 'e) database \<Rightarrow> ('q, 'e) database res" where
  "image_points V ld r db =
     tryR (case ld_vocab ld of
             None \<Rightarrow> Inr (cell db r, db_embedders db)
           | Some state \<Rightarrow> replay_import_vocab (ev_emb V) state (cell db r) (db_embedders db)) (\<lambda>(c, E).
     tryR (if ld_points ld = [] then Inr c else install_points (ev_json_len V) (ld_points ld) c) (\<lambda>c.
       Inr ((set_cell r c db)\<lparr>db_embedders := E\<rparr>)))"

definition install_image ::
  "disk_env \<Rightarrow> ('e, 's) env \<Rightarrow> image_coll \<Rightarrow> ('q, 'e) database \<times> 's \<Rightarrow> (('q, 'e) database \<times> 's) res" where
  "install_image D V ic = (\<lambda>(db, s).
     tryR (load (de_json D) (de_config D) (de_roaring D) (ic_segments ic)) (\<lambda>ld.
       case create_collection V (ce_name (ic_entry ic)) (ld_options ld) db s of
         (Inl e, _) \<Rightarrow> Inl e
       | (Inr r, db, s) \<Rightarrow>
           (case create_aliases V (ce_aliases (ic_entry ic)) (ce_name (ic_entry ic)) db s of
              (Inl e, _) \<Rightarrow> Inl e
            | (Inr _, db, s) \<Rightarrow> tryR (image_points V ld r db) (\<lambda>db. Inr (db, s)))))"

definition deserialize ::
  "disk_env \<Rightarrow> ('e, 's) env \<Rightarrow> bytes \<Rightarrow> 's \<Rightarrow> (('q, 'e) database \<times> 's) res" where
  "deserialize D V b s =
     tryR (read_image (de_compress D) (de_crc D) (de_toc D) b) (\<lambda>ics.
       foldR (\<lambda>x ic. install_image D V ic x) (memory, s) ics)"

end
