(* ===== verification/Reopen.thy ===== *)
theory Reopen
  imports Durable Recovery Mapped_Base
begin

section \<open>What a reopened file holds\<close>

text \<open>
  Sealing, committing, opening, loading and installing composed: a file that was checkpointed opens to the same collections.
\<close>

subsection \<open>The order of segments does not matter\<close>

text \<open>Segments of different types fill different parts of the load state, so only the order within a type counts.\<close>

lemma load_segment_swap:
  assumes "sg_type a \<noteq> sg_type b" "foldR (load_segment M C R) st [a, b] = Inr st'"
  shows "foldR (load_segment M C R) st [b, a] = Inr st'"
  using assms by (cases "sg_type a"; cases "sg_type b") (auto simp: load_segment_def tryR_eq_Inr)

lemma load_insort:
  fixes k :: "segment \<Rightarrow> 'k::linorder"
  assumes k: "\<And>a b. sg_type a = sg_type b \<Longrightarrow> k a = k b"
  shows "foldR (load_segment M C R) st (a # xs) = Inr st' \<Longrightarrow> foldR (load_segment M C R) st (insort_key k a xs) = Inr st'"
proof (induction xs arbitrary: st)
  case (Cons x xs)
  show ?case
  proof (cases "k a \<le> k x")
    case True
    then show ?thesis using Cons.prems by simp
  next
    case False
    then have t: "sg_type a \<noteq> sg_type x" using k [of a x] by auto
    obtain st1 where s1: "foldR (load_segment M C R) st [a, x] = Inr st1" "foldR (load_segment M C R) st1 xs = Inr st'"
      using Cons.prems by (auto simp: tryR_eq_Inr)
    obtain st2 where s2: "load_segment M C R st x = Inr st2" "load_segment M C R st2 a = Inr st1"
      using load_segment_swap [OF t s1(1)] by (auto simp: tryR_eq_Inr)
    have "foldR (load_segment M C R) st2 (a # xs) = Inr st'" using s2(2) s1(2) by simp
    from Cons.IH [OF this] show ?thesis using False s2(1) by simp
  qed
qed simp

lemma load_sort:
  fixes k :: "segment \<Rightarrow> 'k::linorder"
  assumes k: "\<And>a b. sg_type a = sg_type b \<Longrightarrow> k a = k b"
  shows "foldR (load_segment M C R) st xs = Inr st' \<Longrightarrow> foldR (load_segment M C R) st (sort_key k xs) = Inr st'"
proof (induction xs arbitrary: st)
  case (Cons a xs)
  obtain st1 where s1: "load_segment M C R st a = Inr st1" "foldR (load_segment M C R) st1 xs = Inr st'"
    using Cons.prems by (auto simp: tryR_eq_Inr)
  have "foldR (load_segment M C R) st (a # sort_key k xs) = Inr st'" using s1 Cons.IH [OF s1(2)] by simp
  then show ?case using load_insort [OF k] by simp
qed simp

lemma load_sorted:
  fixes k :: "segment \<Rightarrow> 'k::linorder"
  assumes "\<And>a b. sg_type a = sg_type b \<Longrightarrow> k a = k b" and "load M C R segs = Inr ld"
  shows "load M C R (sort_key k segs) = Inr ld"
  using load_sort [where k = k and M = M and C = C and R = R and st = load_state_empty and xs = segs, OF assms(1)] assms(2) by (auto simp: load_def tryR_eq_Inr)

lemma sort_partition: "sort_key P xs = filter (\<lambda>x. \<not> P x) xs @ filter P xs" for P :: "'a \<Rightarrow> bool"
proof (induction xs)
  case (Cons x xs)
  have "insort_key P x (filter (\<lambda>x. \<not> P x) ys @ filter P zs) =
      (if P x then filter (\<lambda>x. \<not> P x) ys @ x # filter P zs else x # filter (\<lambda>x. \<not> P x) ys @ filter P zs)" for ys zs
  proof (induction ys)
    case Nil
    then show ?case by (cases "filter P zs") (auto dest: filter_eq_ConsD)
  qed auto
  then show ?case by (simp add: Cons)
qed simp

subsection \<open>One collection\<close>

lemma read_refs:
  assumes "list_all2 (seg_at X crc codec f) refs segs" "\<forall>s\<in>set segs. seg_ok X codec s" "pg_open p" "length f < 2 ^ 64"
  shows "mapR (pager_read_segment X crc (p, f)) refs = Inr segs"
  unfolding mapR_Inr_iff
  by (rule list.rel_mono_strong [OF assms(1)]) (use assms(2-4) in \<open>auto intro: pager_read_segment_at\<close>)

lemma seg_at_vectors: "seg_at X crc codec f r s \<Longrightarrow> is_vectors_ref r \<longleftrightarrow> sg_type s = SegVectors"
  by (cases "sg_type s") (auto simp: seg_at_def is_vectors_ref_def)

lemma list_all2_filter: "list_all2 Q xs ys \<Longrightarrow> (\<And>x y. Q x y \<Longrightarrow> P x = P' y) \<Longrightarrow> list_all2 Q (filter P xs) (filter P' ys)"
  by (induction rule: list_all2_induct) auto

lemma open_entry_sealed:
  assumes at: "coll_at (de_compress D) (de_crc D) codec f e cc" and ok: "\<forall>s\<in>set (cc_segments cc). seg_ok (de_compress D) codec s"
    and p: "pg_open p" and len: "length f < 2 ^ 64"
    and ld: "load (de_json D) (de_config D) (de_roaring D) (cc_segments cc) = Inr ld"
    and m: "oc_mmap cfg = Some False"
  shows "open_entry D cfg (p, f) e = Inr (cc_name cc, cc_coll_id cc, cc_aliases cc,
      ld\<lparr>ld_committed := Some (ce_live_segments e, cc_vector_count cc, cc_tombstone_count cc)\<rparr>)"
proof -
  let ?segs = "sort_key sg_type (cc_segments cc)"
  let ?V = "\<lambda>s. sg_type s = SegVectors"
  note l = coll_at_segments [OF at]
  have ok': "\<forall>s\<in>set ?segs. seg_ok (de_compress D) codec s" using ok by simp
  have e: "ce_name e = cc_name cc" "ce_coll_id e = cc_coll_id cc" "ce_aliases e = cc_aliases cc"
    "ce_vector_count e = cc_vector_count cc" "ce_tombstone_count e = cc_tombstone_count cc"
    using at by (auto simp: coll_at_def checkpoint_entry_def sort_replay_order_def)
  have r: "mapR (pager_read_segment (de_compress D) (de_crc D) (p, f)) (filter is_vectors_ref (ce_live_segments e)) = Inr (filter ?V ?segs)"
    "mapR (pager_read_segment (de_compress D) (de_crc D) (p, f)) (filter (\<lambda>r. \<not> is_vectors_ref r) (ce_live_segments e))
       = Inr (filter (\<lambda>s. \<not> ?V s) ?segs)"
    using l ok' p len seg_at_vectors by (auto intro!: read_refs list_all2_filter)
  have "load (de_json D) (de_config D) (de_roaring D) (sort_key ?V ?segs) = Inr ld"
    by (intro load_sorted ld) simp_all
  then have "load (de_json D) (de_config D) (de_roaring D) (filter (\<lambda>s. \<not> ?V s) ?segs @ filter ?V ?segs) = Inr ld"
    by (simp only: sort_partition)
  then show ?thesis
    using r m e by (simp add: open_entry_def Let_def mapped_def)
qed

subsection \<open>A committed file\<close>

lemma wal_path_other [simp]: "wal_path p \<noteq> p" "p \<noteq> wal_path p"
  by (auto simp: wal_path_def)

lemma file_at_upd [simp]: "file_at (fs(p := Some f)) q = (if q = p then f else file_at fs q)"
  by (simp add: file_at_def)

text \<open>The persistence and its files agree: the pager reads the committed chain, the log holds the pending entries.\<close>

definition durable_on :: "disk_env \<Rightarrow> durable \<Rightarrow> header \<Rightarrow> toc \<Rightarrow> wal_entry list \<Rightarrow> bool" where
  "durable_on D s h t es \<longleftrightarrow>
     pager_on (de_crc D) (de_toc D) (jn_pager (ps_journal (fst s))) (file_at (snd s) (db_path (fst s))) h t
     \<and> wal_holds (de_crc D) (wal_file s) es \<and> wl_uuid_prefix (jn_wal (ps_journal (fst s))) = take 8 (file_uuid h)"

lemma checkpoint_length:
  assumes c: "checkpoint_ops X crc M p g colls codec md = (ops, Inr (toc, tail))"
    and tl: "HEADER_SIZE \<le> pg_tail p" "tail < 2 ^ 64" and t: "mp_carries M toc" and u: "length (pg_uuid p) = 16"
  shows "length (run_ops ops f) = max tail (length f)"
proof -
  from checkpoint_file [OF c tl t, of f] obtain ops1 data tb hdr where
    ops: "ops = ops1 @ [SyncAll, WriteHeader (header_encode crc hdr), SyncAll]"
    and h: "hdr = commit_header crc (pg_uuid p) (pg_created_epoch_s p) md (word_of_nat (pg_tail p + length data)) tb"
    and tail: "tail = pg_tail p + length data + length tb"
    and run: "run_ops ops1 f = (take (pg_tail p) (fpad (pg_tail p) f) @ data) @ tb @ drop tail f" by metis
  have "length (header_encode crc hdr) = HEADER_SIZE" using u by (simp add: h commit_header_def length_header_encode HEADER_SIZE_def)
  moreover have l: "length (run_ops ops1 f) = max tail (length f)" using tail by (simp add: run fpad_def)
  moreover have "HEADER_SIZE \<le> length (run_ops ops1 f)" using l tl(1) tail by simp
  ultimately show ?thesis by (simp add: ops run_ops_def fwrite_header put_def)
qed

lemma commit_Some:
  assumes c: "commit D colls (P, fs) = (Inr (Some toc), s')"
  shows "\<exists>ops tail. checkpoint_ops (de_compress D) (de_crc D) (de_toc D) (jn_pager (ps_journal P)) (jn_generation (ps_journal P) + 1) colls
        Codec_Lz4 (de_now D) = (ops, Inr (toc, tail))
    \<and> s' = (let s1 = (set_pager ((jn_pager (ps_journal P))\<lparr>pg_tail := tail\<rparr>) (bump P),
                       fs(db_path P := Some (run_ops ops (file_at fs (db_path P)))))
            in set_wal_file (wal_truncate (wal_file s1)) s1)"
proof -
  have b: "jn_pager (ps_journal (bump P)) = jn_pager (ps_journal P)" "jn_generation (ps_journal (bump P)) = jn_generation (ps_journal P) + 1"
    by (simp_all add: bump_def)
  obtain ops r where k: "checkpoint_ops (de_compress D) (de_crc D) (de_toc D) (jn_pager (ps_journal P)) (jn_generation (ps_journal P) + 1)
      colls Codec_Lz4 (de_now D) = (ops, r)" by force
  show ?thesis
  proof (cases r)
    case (Inl e)
    then show ?thesis using c k by (simp add: commit_def pager_checkpoint_def b Let_def split: if_split_asm)
  next
    case (Inr q)
    obtain t tail where q: "q = (t, tail)" by (cases q)
    show ?thesis
      using c k Inr q by (simp add: commit_def pager_checkpoint_def b Let_def split: if_split_asm)
  qed
qed

lemma commit_committed:
  assumes on: "durable_on D (P, fs) h t es" and c: "commit D colls (P, fs) = (Inr (Some toc), P', fs')"
    and tl: "pg_tail (jn_pager (ps_journal P')) < 2 ^ 64" and toc: "mp_carries (de_toc D) toc"
  shows "\<exists>h'. db_path P' = db_path P \<and> durable_on D (P', fs') h' toc [] \<and> file_uuid h' = file_uuid h
    \<and> list_all2 (coll_committed (de_compress D) (de_crc D) Codec_Lz4 (file_at fs' (db_path P))) (toc_collections toc) colls
    \<and> fs' (db_path P) = Some (file_at fs' (db_path P)) \<and> fs' (wal_path (db_path P)) = Some (file_at fs' (wal_path (db_path P)))
    \<and> length (file_at fs' (db_path P)) = max (pg_tail (jn_pager (ps_journal P'))) (length (file_at fs (db_path P)))"
proof -
  let ?p = "jn_pager (ps_journal P)" and ?f = "file_at fs (db_path P)"
  note on' = on [unfolded durable_on_def, simplified]
  obtain ops tail where k: "checkpoint_ops (de_compress D) (de_crc D) (de_toc D) ?p (jn_generation (ps_journal P) + 1) colls Codec_Lz4
        (de_now D) = (ops, Inr (toc, tail))"
    and s': "(P', fs') = set_wal_file (wal_truncate (wal_file (set_pager (?p\<lparr>pg_tail := tail\<rparr>) (bump P), fs(db_path P := Some (run_ops ops ?f)))))
        (set_pager (?p\<lparr>pg_tail := tail\<rparr>) (bump P), fs(db_path P := Some (run_ops ops ?f)))"
    using commit_Some [OF c] by (auto simp: Let_def)
  have P': "P' = fst (set_wal_file (wal_truncate (wal_file (set_pager (?p\<lparr>pg_tail := tail\<rparr>) (bump P), fs(db_path P := Some (run_ops ops ?f)))))
        (set_pager (?p\<lparr>pg_tail := tail\<rparr>) (bump P), fs(db_path P := Some (run_ops ops ?f))))"
    and fs': "fs' = snd (set_wal_file (wal_truncate (wal_file (set_pager (?p\<lparr>pg_tail := tail\<rparr>) (bump P), fs(db_path P := Some (run_ops ops ?f)))))
        (set_pager (?p\<lparr>pg_tail := tail\<rparr>) (bump P), fs(db_path P := Some (run_ops ops ?f))))"
    by (simp_all add: s' [symmetric])
  have path: "db_path (set_pager (?p\<lparr>pg_tail := tail\<rparr>) (bump P)) = db_path P"
    by (simp add: db_path_def set_pager_def bump_def)
  have w: "wal_file (set_pager (?p\<lparr>pg_tail := tail\<rparr>) (bump P), fs(db_path P := Some x)) = wal_file (P, fs)" for x
    by (simp add: wal_file_def path) (simp add: set_pager_def bump_def)
  obtain w1 lf where wt: "wal_truncate (wal_file (P, fs)) = (w1, lf)" by (cases "wal_truncate (wal_file (P, fs))")
  have P'': "P' = (set_pager (?p\<lparr>pg_tail := tail\<rparr>) (bump P))\<lparr>ps_journal := (ps_journal (set_pager (?p\<lparr>pg_tail := tail\<rparr>) (bump P)))\<lparr>jn_wal := w1\<rparr>\<rparr>"
    and fs'': "fs' = fs(db_path P := Some (run_ops ops ?f), wal_path (db_path P) := Some lf)"
    unfolding P' fs' w wt by (simp_all add: set_wal_file_def path)
  have f: "jn_pager (ps_journal P') = ?p\<lparr>pg_tail := tail\<rparr>" "jn_wal (ps_journal P') = w1" "db_path P' = db_path P"
    by (simp_all add: P'' set_pager_def bump_def db_path_def)
  note pt = pager_on_tail [OF on' [THEN conjunct1]]
  obtain h' where h': "read_committed (de_crc D) (de_toc D) (run_ops ops ?f) = Inr (h', toc, tail)" "file_uuid h' = pg_uuid ?p"
    "created_epoch_s h' = pg_created_epoch_s ?p" "HEADER_SIZE \<le> unat (toc_offset h')"
    "list_all2 (coll_committed (de_compress D) (de_crc D) Codec_Lz4 (run_ops ops ?f)) (toc_collections toc) colls"
    using checkpoint_commits [OF k _ _ toc, of ?f] pt tl f(1) by auto
  have "length (run_ops ops ?f) = max tail (length ?f)"
    using checkpoint_length [OF k _ _ toc] pt tl f(1) by auto
  then have l: "length (file_at fs' (db_path P)) = max (pg_tail (jn_pager (ps_journal P'))) (length ?f)" by (simp add: fs'' f)
  have "wal_holds (de_crc D) (w1, lf) []" using wal_truncate_holds [of "de_crc D" "wal_file (P, fs)"] on' wt by auto
  moreover have "wl_uuid_prefix w1 = wl_uuid_prefix (jn_wal (ps_journal P))"
    using wt by (auto simp: wal_truncate_def wal_file_def)
  moreover have "pg_open ?p" "file_uuid h = pg_uuid ?p" using on' by (auto simp: pager_on_def)
  ultimately have "durable_on D (P', fs') h' toc []"
    using h' on' by (simp add: durable_on_def pager_on_def f wal_file_def fs'')
  then show ?thesis using h' l \<open>file_uuid h = pg_uuid ?p\<close> f(3) by (intro exI [of _ h']) (simp add: fs'')
qed

text \<open>Opening a file nothing is pending for.\<close>

lemma open_committed:
  assumes on: "durable_on D (P, fs) h t []" and e: "fs (db_path P) = Some f" "fs (wal_path (db_path P)) = Some lf"
    and l: "\<not> de_locked D (\<not> oc_read_only cfg) (db_path P)"
    and c: "mapR (open_entry D cfg (jn_pager (ps_journal P), f)) (toc_collections t) = Inr colls"
  shows "\<exists>P2. persistence_open D (db_path P) cfg fs
      = (fs, Inr (P2, \<lparr>lo_collections = colls, lo_replay_entries = [], lo_discarded_tail = False\<rparr>))
    \<and> durable_on D (P2, fs) h t [] \<and> db_path P2 = db_path P"
proof -
  let ?p = "jn_pager (ps_journal P)"
  have at: "file_at fs (db_path P) = f" "file_at fs (wal_path (db_path P)) = lf" using e by (simp_all add: file_at_def)
  note on' = on [unfolded durable_on_def, simplified, unfolded at(1)]
  have p: "read_committed (de_crc D) (de_toc D) f = Inr (h, t, pg_tail ?p)" "pg_open ?p" "pg_uuid ?p = file_uuid h"
    "pg_created_epoch_s ?p = created_epoch_s h" using on' by (auto simp: pager_on_def)
  have "?p = \<lparr>pg_open = True, pg_uuid = file_uuid h, pg_created_epoch_s = created_epoch_s h, pg_tail = pg_tail ?p, pg_path = db_path P\<rparr>"
    using p by (simp add: db_path_def)
  then have o: "open_pager D (db_path P) (\<not> oc_read_only cfg) fs = (fs, Inr (?p, t))"
    using e l p(1) by (simp add: open_pager_def pager_open_def ok_or_def lock_file_def)
  have log: "encoded_log (de_crc D) (take 8 (file_uuid h)) [] lf"
    using on' [THEN conjunct2] at(2) by (auto simp: wal_holds_def wal_file_def)
  then have lf: "length lf = 16" by (auto simp: encoded_log_def length_wal_header)
  have wo: "wal_open (file_uuid h) lf = (\<lparr>wl_uuid_prefix = take 8 (file_uuid h), wl_next_seq = 1\<rparr>, lf)"
    using lf by (simp add: wal_open_def WAL_HEADER_SIZE_def Let_def)
  have sc: "wal_scan (de_crc D) lf (take 8 (file_uuid h)) = \<lparr>rp_entries = [], rp_discarded_tail = False\<rparr>"
    using wal_scan_clean [OF log] .
  have same: "fs(wal_path (db_path P) := Some lf) = fs" using e(2) by auto
  have em: "wal_is_empty lf" using lf by (simp add: wal_is_empty_def wal_size_def WAL_HEADER_SIZE_def)
  define P2 where "P2 = \<lparr>ps_journal = \<lparr>jn_pager = ?p, jn_wal = \<lparr>wl_uuid_prefix = take 8 (file_uuid h), wl_next_seq = 1\<rparr>,
        jn_generation = toc_generation t\<rparr>, ps_uuid = pg_uuid ?p, ps_durability = oc_durability cfg, ps_wal_size_limit = oc_wal_size_limit cfg,
        ps_auto_vacuum_threshold = oc_auto_vacuum_threshold cfg, ps_read_only = oc_read_only cfg, ps_crashed = False,
        ps_checkpoint_wired = False\<rparr>"
  have d: "db_path P2 = db_path P" by (simp add: P2_def db_path_def)
  have "persistence_open D (db_path P) cfg fs
      = (fs, Inr (P2, \<lparr>lo_collections = colls, lo_replay_entries = [], lo_discarded_tail = False\<rparr>))"
    using p(3) by (simp add: persistence_open_def o at c wo sc same em wal_replay_def P2_def)
  moreover have "durable_on D (P2, fs) h t []"
    using on' log by (simp add: durable_on_def d at wal_file_def wal_holds_def) (simp add: P2_def)
  ultimately show ?thesis using d by blast
qed

subsection \<open>The database at a checkpoint and after the next open\<close>

text \<open>What a reader of the database can see of a collection, and of the database.\<close>

definition coll_view :: "'q collection \<Rightarrow> u32 \<times> string list \<times> (string \<Rightarrow> stored option)" where
  "coll_view c = (cl_coll_id c, cl_aliases c, coll_contents c)"

definition db_rows :: "('q, 'e) database \<Rightarrow> (string \<times> u32 \<times> string list \<times> (string \<Rightarrow> stored option)) list" where
  "db_rows db = map (\<lambda>(n, r). (n, coll_view (cell db r))) (db_collections db)"

definition db_view :: "('q, 'e) database \<Rightarrow> string \<Rightarrow> (u32 \<times> string list \<times> (string \<Rightarrow> stored option)) option" where
  "db_view db = map_of (db_rows db)"

text \<open>
  What the file keeps of a stored point: an empty sparse lane comes back as none, and the load feeds the point through the write
  path, where a cosine collection normalizes its vector once more.
\<close>

definition tidied :: "stored \<Rightarrow> stored" where
  "tidied x = (fst x, tidy_sparse (fst (snd x)), snd (snd x))"

definition saved_contents :: "collection_options \<Rightarrow> stored \<Rightarrow> stored" where
  "saved_contents opts x = stored_again opts (tidied x)"

definition saved_view :: "'q collection \<Rightarrow> u32 \<times> string list \<times> (string \<Rightarrow> stored option)" where
  "saved_view c = (cl_coll_id c, cl_aliases c, \<lambda>key. map_option (saved_contents (cl_config c)) (coll_contents c key))"

definition db_saved :: "('q, 'e) database \<Rightarrow> string \<Rightarrow> (u32 \<times> string list \<times> (string \<Rightarrow> stored option)) option" where
  "db_saved db = map_of (map (\<lambda>(n, r). (n, saved_view (cell db r))) (db_collections db))"

lemma saved_contents_same:
  "co_metric opts \<noteq> Cosine \<Longrightarrow> tidy_sparse (fst (snd x)) = fst (snd x) \<Longrightarrow> saved_contents opts x = x"
  by (simp add: saved_contents_def stored_again_plain tidied_def)

text \<open>Where nothing is normalized and no lane is empty, what is saved is what is there.\<close>

lemma db_saved_same:
  assumes "\<forall>(n, r)\<in>set (db_collections db). co_metric (cl_config (cell db r)) \<noteq> Cosine
      \<and> (\<forall>key x. coll_contents (cell db r) key = Some x \<longrightarrow> tidy_sparse (fst (snd x)) = fst (snd x))"
  shows "db_saved db = db_view db"
proof -
  have "saved_view (cell db r) = coll_view (cell db r)" if "(n, r) \<in> set (db_collections db)" for n r
  proof -
    have "map_option (saved_contents (cl_config (cell db r))) (coll_contents (cell db r) key) = coll_contents (cell db r) key" for key
      using assms that saved_contents_same by (cases "coll_contents (cell db r) key") fastforce+
    then show ?thesis by (simp add: saved_view_def coll_view_def)
  qed
  then have "map (\<lambda>(n, r). (n, saved_view (cell db r))) (db_collections db) = db_rows db"
    by (auto simp: db_rows_def)
  then show ?thesis by (simp add: db_saved_def db_view_def)
qed

text \<open>
  A collection without a provider, with changes to seal, whose points the write path accepts when they are read back, and which
  the packages carry.
\<close>

definition storable :: "disk_env \<Rightarrow> (json \<Rightarrow> nat) \<Rightarrow> 'q collection \<Rightarrow> bool" where
  "storable D jl c \<longleftrightarrow> cl_embedder c = EmbNone \<and> co_embedding_provider (cl_config c) = None \<and> clean_reuse c = None \<and> coll_inv c
     \<and> sealable (cl_config c) (live_points c)
     \<and> carried (de_json D) (de_config D) (de_roaring D) (cl_config c) (de_now D) (live_points c)
     \<and> (\<forall>d\<in>set (coll_declared_indexes c). str_ok (fst d))
     \<and> (\<forall>p\<in>set (live_points c). \<exists>q. prepare_inner jl (cl_config c) True (saved_point p) = Inr q)"

lemma sealed_loads:
  assumes "storable D jl c" "seal_collection D ops True E c = Inr cc"
  shows "cc_reused cc = None \<and> cc_name cc = cl_name c \<and> cc_coll_id cc = cl_coll_id c \<and> cc_aliases cc = cl_aliases c
    \<and> load (de_json D) (de_config D) (de_roaring D) (cc_segments cc)
      = Inr \<lparr>ld_options = saved_options (cl_config c) (coll_declared_indexes c), ld_points = map saved_point (live_points c), ld_base = None,
             ld_vocab = None, ld_committed = None\<rparr>"
proof -
  have s: "seal (de_json D) (de_config D) (de_roaring D) (de_hash D) (cl_coll_id c) (cl_name c) (cl_aliases c) (cl_config c)
      (coll_declared_indexes c) None (live_points c) (de_now D) = Inr cc"
    using assms by (auto simp: seal_collection_def storable_def export_vocab_state_def tryR_eq_Inr)
  have "load (de_json D) (de_config D) (de_roaring D) (cc_segments cc)
      = Inr \<lparr>ld_options = saved_options (cl_config c) (coll_declared_indexes c), ld_points = map saved_point (live_points c), ld_base = None,
             ld_vocab = None, ld_committed = None\<rparr>"
    using load_of_seal [OF _ _ _ s] assms(1) by (simp add: storable_def saved_vocab_def)
  then show ?thesis using s by (auto simp: seal_def tryR_eq_Inr)
qed

lemma point_listing: "map (\<lambda>p. (pt_id p, point_contents p)) (live_points c) = listing (co_dimension (cl_config c)) (cl_data c)"
  by (simp add: live_points_def listing_def point_at_def point_contents_def slot_contents_def)

text \<open>Installing what was loaded for a storable collection adds one collection with the same contents.\<close>

lemma installs:
  fixes db :: "('q, 'e) database" and c :: "'q collection"
  assumes s: "storable D jl c" and jl: "ev_json_len V = jl"
  shows "\<exists>c' :: 'q collection. install_collection V n i as \<lparr>ld_options = saved_options (cl_config c) declared, ld_points = map saved_point (live_points c),
        ld_base = None, ld_vocab = None, ld_committed = cm\<rparr> db
     = Inr (db\<lparr>db_cells := db_cells db @ [c'], db_aliases := fold (\<lambda>a. AList.update a n) as (db_aliases db),
              db_collections := AList.update n (length (db_cells db)) (db_collections db)\<rparr>)
    \<and> coll_view c' = (i, as, snd (snd (saved_view c)))"
proof -
  let ?o = "saved_options (cl_config c) declared" and ?ps = "map saved_point (live_points c)"
  let ?n = "length ?ps"
  have o: "co_metric ?o = co_metric (cl_config c)" "co_dimension ?o = co_dimension (cl_config c)" "co_hnsw ?o = co_hnsw (cl_config c)"
    "co_embedding_provider ?o = None"
    using s by (simp_all add: saved_options_def storable_def)
  have "config_ok (cl_config c)" using s by (simp add: storable_def coll_inv_def)
  then have "\<exists>ix. index_for ?o (max ?n INITIAL_INDEX_CAPACITY) = Inr ix"
    using hnsw_new_Inr [of "co_metric ?o" "co_dimension ?o" "ho_m (co_hnsw ?o)" "ho_ef_construction (co_hnsw ?o)" "max ?n INITIAL_INDEX_CAPACITY"]
    by (auto simp: index_for_def o config_ok_def)
  then obtain c0 :: "'q collection" where c0: "with_embedder n ?o i True ?n EmbNone = Inr c0"
    by (auto simp: with_embedder_def)
  let ?c1 = "c0\<lparr>cl_aliases := as\<rparr>"
  note f = with_embedder_facts [OF c0]
  have pi: "prepare_inner jl ?o True = prepare_inner jl (cl_config c) True"
    by (simp add: fun_eq_iff prepare_inner_def check_sparse_def prepare_vector_def o)
  have each: "\<exists>q. prepare_inner jl ?o True p = Inr q" if "p \<in> set ?ps" for p
    using s that unfolding pi storable_def by auto
  have "mapR (prepare_inner jl ?o True) ?ps = Inr (map (\<lambda>p. SOME q. prepare_inner jl ?o True p = Inr q) ?ps)"
    using each by (rule mapR_all_Inr [OF someI_ex])
  then obtain c2 where c2: "install_points jl ?ps ?c1 = Inr c2"
    using f unfolding install_points_def by auto
  have id: "cl_coll_id c2 = i" "cl_aliases c2 = as" using c2 f by (auto simp: install_points_def tryR_eq_Inr)
  have inv: "coll_inv ?c1" "coll_contents ?c1 = Map.empty" "cl_config ?c1 = ?o" "room (cl_data ?c1) = 2 ^ 64"
    using f by (auto simp: coll_inv_def coll_contents_def)
  have ids: "map pt_id ?ps = map pt_id (live_points c)" by (simp add: saved_point_def)
  have len: "length ?ps \<le> room (cl_data ?c1)" using s inv(4) by (simp add: storable_def sealable_def)
  have d: "distinct (map pt_id ?ps)" unfolding ids using s by (simp add: storable_def sealable_def)
  have tidy: "(\<lambda>p. (pt_id p, point_contents p)) \<circ> saved_point = (\<lambda>p. (pt_id p, tidied (point_contents p)))"
    by (simp add: fun_eq_iff saved_point_def point_contents_def tidied_def)
  have "map_of (listing (co_dimension (cl_config c)) (cl_data c)) = coll_contents c"
    using s listing_view by (auto simp: storable_def coll_inv_def data_inv_def coll_contents_def)
  then have "map_of (map (\<lambda>p. (pt_id p, point_contents p)) ?ps) = (\<lambda>key. map_option tidied (coll_contents c key))"
    unfolding list.map_comp tidy map_of_again point_listing by simp
  moreover have "stored_again ?o = stored_again (cl_config c)" by (simp add: fun_eq_iff stored_again_def o)
  moreover have "coll_contents c2 = (\<lambda>key. map_option (stored_again ?o) (map_of (map (\<lambda>p. (pt_id p, point_contents p)) ?ps) key))"
    using install_points_contents [OF inv(1,2) len d c2] unfolding inv(3) by blast
  ultimately have v: "coll_contents c2 = snd (snd (saved_view c))"
    by (simp add: saved_view_def option.map_comp comp_def saved_contents_def [abs_def])
  let ?c3 = "case cm of None \<Rightarrow> c2 | Some (refs, n, t) \<Rightarrow> mark_sealed refs n t c2"
  have "coll_contents (mark_sealed a b e c2) = coll_contents c2" for a b e
    using same_store_contents [of "cl_data (mark_sealed a b e c2)" "cl_data c2" "co_dimension (cl_config c2)"]
    by (simp add: coll_contents_def mark_sealed_def same_store_def)
  then have "coll_view ?c3 = coll_view c2"
    by (auto simp: coll_view_def mark_sealed_def split: option.split)
  then show ?thesis
    using c0 c2 id v jl o(4)
    by (intro exI [of _ ?c3]) (simp add: install_collection_def lenient_slot_def resolve_embedder_def import_loaded_vocab_def
        install_loaded_def coll_view_def)
qed

definition loads_as :: "'q collection \<Rightarrow> string \<times> u32 \<times> string list \<times> loaded_collection \<Rightarrow> bool" where
  "loads_as c x \<longleftrightarrow> (\<exists>cm. x = (cl_name c, cl_coll_id c, cl_aliases c,
     \<lparr>ld_options = saved_options (cl_config c) (coll_declared_indexes c), ld_points = map saved_point (live_points c), ld_base = None,
      ld_vocab = None, ld_committed = cm\<rparr>))"

lemma install_all_rows:
  fixes db :: "('q, 'e) database" and cs :: "'q collection list"
  assumes "list_all2 loads_as cs xs" and "\<forall>c\<in>set cs. storable D jl c" and jl: "ev_json_len V = jl"
    and "distinct (map cl_name cs)" and "\<forall>c\<in>set cs. cl_name c \<notin> fst ` set (db_collections db)"
    and "\<forall>(n, r)\<in>set (db_collections db). r < length (db_cells db)"
  shows "\<exists>db' :: ('q, 'e) database. install_all V xs db = Inr db' \<and> db_rows db' = db_rows db @ map (\<lambda>c. (cl_name c, saved_view c)) cs"
  using assms
proof (induction cs xs arbitrary: db rule: list_all2_induct)
  case Nil
  then show ?case by (simp add: install_all_def)
next
  case (Cons c cs x xs)
  obtain cm where x: "x = (cl_name c, cl_coll_id c, cl_aliases c, \<lparr>ld_options = saved_options (cl_config c) (coll_declared_indexes c),
      ld_points = map saved_point (live_points c), ld_base = None, ld_vocab = None, ld_committed = cm\<rparr>)"
    using Cons.hyps(1) by (auto simp: loads_as_def)
  obtain c' :: "'q collection" where c':
    "install_collection V (cl_name c) (cl_coll_id c) (cl_aliases c) (snd (snd (snd x))) db
     = Inr (db\<lparr>db_cells := db_cells db @ [c'], db_aliases := fold (\<lambda>a. AList.update a (cl_name c)) (cl_aliases c) (db_aliases db),
              db_collections := AList.update (cl_name c) (length (db_cells db)) (db_collections db)\<rparr>)"
    "coll_view c' = saved_view c"
    using installs [OF _ jl, of D c "cl_name c" "cl_coll_id c" "cl_aliases c" "coll_declared_indexes c" cm db] Cons.prems(1)
    by (auto simp: saved_view_def x)
  let ?db = "db\<lparr>db_cells := db_cells db @ [c'], db_aliases := fold (\<lambda>a. AList.update a (cl_name c)) (cl_aliases c) (db_aliases db),
              db_collections := AList.update (cl_name c) (length (db_cells db)) (db_collections db)\<rparr>"
  have u: "AList.update (cl_name c) (length (db_cells db)) (db_collections db) = db_collections db @ [(cl_name c, length (db_cells db))]"
    using Cons.prems(4) by (simp add: update_fresh)
  have r: "db_rows ?db = db_rows db @ [(cl_name c, saved_view c)]"
    using Cons.prems(5) c'(2) by (auto simp: db_rows_def u cell_def nth_append)
  have n: "cl_name c \<notin> cl_name ` set cs" using Cons.prems(3) by simp
  have "\<exists>db'. install_all V xs ?db = Inr db' \<and> db_rows db' = db_rows ?db @ map (\<lambda>c. (cl_name c, saved_view c)) cs"
  proof (intro Cons.IH)
    show "\<forall>c\<in>set cs. storable D jl c" "ev_json_len V = jl" "distinct (map cl_name cs)" using Cons.prems by simp_all
    show "\<forall>c\<in>set cs. cl_name c \<notin> fst ` set (db_collections ?db)"
    proof
      fix a assume a: "a \<in> set cs"
      have "cl_name a \<noteq> cl_name c" using n a by (metis imageI)
      moreover have "cl_name a \<notin> fst ` set (db_collections db)" using Cons.prems(4) a by (metis list.set_intros(2))
      ultimately show "cl_name a \<notin> fst ` set (db_collections ?db)" by (simp add: u)
    qed
    show "\<forall>(n, r)\<in>set (db_collections ?db). r < length (db_cells ?db)" using Cons.prems(5) by (auto simp: u)
  qed
  then show ?case using c'(1) r by (auto simp: install_all_def x)
qed

subsection \<open>Properties\<close>

lemma live_cells_all: "reg_inv db \<Longrightarrow> live_cells db = map snd (db_collections db)"
  using registered_mem [of db] by (auto simp: live_cells_def filter_id_conv)

lemma map_cells: "map (\<lambda>r. h (cell db r)) (map snd (db_collections db)) = map h (map (\<lambda>(n, r). cell db r) (db_collections db))"
  by (simp add: case_prod_beta)

text \<open>
  C24. A checkpoint and the next open. The collections are without a provider, each has changed since it was last sealed (none
  is carried forward), their points are accepted again when they are read back, and the packages carry what is sealed; the open
  materializes (the mapping is switched off). Then, when a checkpoint seals the live collections and commits them, opening the
  file finds exactly these collections, each under its name with its id, its aliases and its points, and has nothing to replay;
  the opened log is empty and belongs to the file. The points are those of before, but for an empty sparse lane, which is gone,
  and the vectors of a cosine collection, which the load normalizes once more.
\<close>

theorem checkpoint_reopens:
  fixes db :: "('q, 'e) database" and V :: "('e, durable) env"
  assumes inv: "reg_inv db" and st: "\<forall>r\<in>set (live_cells db). storable D (ev_json_len V) (cell db r)"
    and on: "durable_on D (P, fs) h t es"
    and se: "sealed_live_collections D ops True db = Inr colls" and ok: "\<forall>cc\<in>set colls. \<forall>s\<in>set (cc_segments cc). seg_ok (de_compress D) Codec_Lz4 s"
    and co: "commit D colls (P, fs) = (Inr (Some toc), P1, fs1)" and toc: "mp_carries (de_toc D) toc"
    and fl: "length (file_at fs (db_path P)) < 2 ^ 64" and tl: "pg_tail (jn_pager (ps_journal P1)) < 2 ^ 64"
    and opts: "oo_mmap options = Some False" "\<not> de_locked D (\<not> oo_read_only options) (db_path P)"
  shows "\<exists>P2 (db2 :: ('q, 'e) database). open_with D V (db_path P) options fs1 = (fs1, Inr (db2, P2)) \<and> db_view db2 = db_saved db
    \<and> wal_is_empty (snd (wal_file (P2, fs1))) \<and> db_path P2 = db_path P"
proof -
  let ?cs = "map (\<lambda>(n, r). cell db r) (db_collections db)" and ?f = "file_at fs1 (db_path P)" and ?cfg = "open_config_of options"
  have cells: "live_cells db = map snd (db_collections db)" using inv by (rule live_cells_all)
  have storable: "\<forall>c\<in>set ?cs. storable D (ev_json_len V) c" using st by (auto simp: cells)
  have sealed: "list_all2 (\<lambda>c cc. seal_collection D ops True (db_embedders db) c = Inr cc) ?cs colls"
    using mapR_InrD [OF se [unfolded sealed_live_collections_def]] by (simp add: cells list_all2_map1 case_prod_beta)
  obtain h' where h': "db_path P1 = db_path P" "durable_on D (P1, fs1) h' toc []"
    "list_all2 (coll_committed (de_compress D) (de_crc D) Codec_Lz4 ?f) (toc_collections toc) colls"
    "fs1 (db_path P) = Some ?f" "fs1 (wal_path (db_path P)) = Some (file_at fs1 (wal_path (db_path P)))"
    "length ?f = max (pg_tail (jn_pager (ps_journal P1))) (length (file_at fs (db_path P)))"
    using commit_committed [OF on co tl toc] by blast
  have len: "length ?f < 2 ^ 64" using h'(6) fl tl by simp
  let ?p = "jn_pager (ps_journal P1)"
  have open_: "pg_open ?p" using h'(2) by (simp add: durable_on_def pager_on_def)
  have m: "oc_mmap ?cfg = Some False" "oc_read_only ?cfg = oo_read_only options" using opts by (simp_all add: open_config_of_def)
  have one: "\<exists>x. open_entry D ?cfg (?p, ?f) e = Inr x \<and> loads_as c x"
    if "coll_committed (de_compress D) (de_crc D) Codec_Lz4 ?f e cc" "seal_collection D ops True (db_embedders db) c = Inr cc"
      "c \<in> set ?cs" "cc \<in> set colls" for c cc e
  proof -
    note l = sealed_loads [OF storable [rule_format, OF that(3)] that(2)]
    have at: "coll_at (de_compress D) (de_crc D) Codec_Lz4 ?f e cc" using that(1) l by (simp add: coll_committed_def)
    show ?thesis
      using open_entry_sealed [OF at _ open_ len conjunct2 [OF conjunct2 [OF conjunct2 [OF conjunct2 [OF l]]]] m(1)] ok that(4) l
      by (simp add: loads_as_def)
  qed
  obtain xs where xs: "mapR (open_entry D ?cfg (?p, ?f)) (toc_collections toc) = Inr xs" "list_all2 loads_as ?cs xs"
  proof -
    have "\<exists>xs. mapR (open_entry D ?cfg (?p, ?f)) es = Inr xs \<and> list_all2 loads_as cs xs"
      if "list_all2 (coll_committed (de_compress D) (de_crc D) Codec_Lz4 ?f) es ccs"
        "list_all2 (\<lambda>c cc. seal_collection D ops True (db_embedders db) c = Inr cc) cs ccs" "set cs \<subseteq> set ?cs" "set ccs \<subseteq> set colls"
      for es cs ccs
      using that
    proof (induction es ccs arbitrary: cs rule: list_all2_induct)
      case (Cons e es cc ccs)
      obtain c cs' where cs: "cs = c # cs'" "seal_collection D ops True (db_embedders db) c = Inr cc"
        "list_all2 (\<lambda>c cc. seal_collection D ops True (db_embedders db) c = Inr cc) cs' ccs"
        using Cons.prems(1) by (auto simp: list_all2_Cons2)
      obtain x where x: "open_entry D ?cfg (?p, ?f) e = Inr x" "loads_as c x"
        using one [OF Cons.hyps(1) cs(2)] Cons.prems(2,3) cs(1) by auto
      obtain ys where "mapR (open_entry D ?cfg (?p, ?f)) es = Inr ys" "list_all2 loads_as cs' ys"
        using Cons.IH [OF cs(3)] Cons.prems(2,3) cs(1) by auto
      then show ?case using x cs(1) by auto
    qed simp
    from this [OF h'(3) sealed] show ?thesis using that by blast
  qed
  let ?m = "memory\<lparr>db_persistent := True\<rparr> :: ('q, 'e) database"
  have names: "map cl_name ?cs = map fst (db_collections db)" using registered_mem [OF inv] by auto
  have "distinct (map cl_name ?cs)" using names inv by (simp add: reg_inv_def names_ok_def del: map_map)
  moreover have "db_collections ?m = []" by (simp add: memory_def)
  ultimately obtain db2 where db2: "install_all V xs ?m = Inr db2" "db_rows db2 = db_rows ?m @ map (\<lambda>c. (cl_name c, saved_view c)) ?cs"
    using install_all_rows [OF xs(2) storable refl, of ?m] by auto
  have rows: "db_rows db2 = map (\<lambda>(n, r). (n, saved_view (cell db r))) (db_collections db)"
    using db2(2) registered_mem [OF inv] by (auto simp: db_rows_def memory_def)
  obtain P2 where P2: "persistence_open D (db_path P1) ?cfg fs1
      = (fs1, Inr (P2, \<lparr>lo_collections = xs, lo_replay_entries = [], lo_discarded_tail = False\<rparr>))"
    "durable_on D (P2, fs1) h' toc []" "db_path P2 = db_path P1"
    using open_committed [OF h'(2), of ?f _ ?cfg xs] h' xs(1) opts(2) m by auto
  have "wal_is_empty (snd (wal_file (P2, fs1)))"
    using P2(2) by (auto simp: durable_on_def wal_holds_def encoded_log_def wal_is_empty_def wal_size_def WAL_HEADER_SIZE_def length_wal_header)
  then have "open_with D V (db_path P) options fs1
      = (fs1, Inr (db2\<lparr>db_next_coll_id := next_id \<lparr>lo_collections = xs, lo_replay_entries = [], lo_discarded_tail = False\<rparr>\<rparr>, set_checkpoint P2))
    \<and> db_view (db2\<lparr>db_next_coll_id := n\<rparr>) = db_saved db \<and> wal_is_empty (snd (wal_file (set_checkpoint P2, fs1)))
    \<and> db_path (set_checkpoint P2) = db_path P" for n
    using P2(1,3) db2(1) rows h'(1)
    by (simp add: open_with_def replay_entries_def db_view_def db_saved_def db_rows_def cell_def set_checkpoint_def wal_file_def db_path_def)
  then show ?thesis by blast
qed

text \<open>A file with one empty commit, and a database of one collection holding one point.\<close>

definition one_coll :: "unit collection" where
  "one_coll = demo_full\<lparr>cl_persistent := True\<rparr>"

definition one_db :: "(unit, unit) database" where
  "one_db = logged_db\<lparr>db_cells := [one_coll]\<rparr>"

definition one_env :: "toc msgpack \<Rightarrow> disk_env" where
  "one_env M = \<lparr>de_compress = id_compressors, de_crc = sum_crc, de_toc = M, de_json = no_msgpack,
     de_config = one_doc (to_stored (options_new 2 DotProduct) 0), de_roaring = id_roaring, de_hash = (\<lambda>_. 7),
     de_locked = (\<lambda>_ _. False), de_uuid = replicate 16 1, de_now = 0\<rparr>"

lemma one_coll_views: "live_points one_coll = [demo_point]" "clean_reuse one_coll = None" "coll_declared_indexes one_coll = []"
  by (simp_all add: one_coll_def live_points_def clean_reuse_def demo_full_def demo_coll_def apply_prepared_def apply_upsert_def append_point_def
      data_empty_def Let_def demo_prepared_def demo_point_def options_new_def live_slots_def live_slot_def point_at_def
      copy_vector_def overlay_vector_def base_count_def coll_declared_indexes_def indexes_new_def declared_indexes_def slice_of_def indexes_insert_def numeral_2_eq_2)

lemma one_coll_fields: "cl_embedder one_coll = EmbNone" "cl_config one_coll = options_new 2 DotProduct" "cl_name one_coll = ''c''"
   "cl_coll_id one_coll = 1" "cl_aliases one_coll = []" "\<not> cl_deleted one_coll"
  by (simp_all add: one_coll_def demo_full_def demo_coll_def)

lemma one_coll_storable: "storable (one_env M) (\<lambda>_. 0) one_coll"
proof -
  have "str_ok ''a''" by code_simp
  then have "sealable (options_new 2 DotProduct) [demo_point]"
    by (simp add: sealable_def demo_point_def options_fit_def options_new_def hnsw_default_def lane_ok_def)
  moreover have "coll_inv one_coll" using demo_full_inv by (simp add: one_coll_def coll_inv_def)
  moreover have "saved_point demo_point = demo_point" by (simp add: saved_point_def demo_point_def tidy_sparse_def)
  moreover have "carried no_msgpack (one_doc (to_stored (options_new 2 DotProduct) 0)) id_roaring (options_new 2 DotProduct) 0 [demo_point]"
    by (simp add: carried_def demo_point_def id_roaring_carries)
  moreover have "\<exists>q. prepare_inner (\<lambda>_. 0) (options_new 2 DotProduct) True demo_point = Inr q"
    using demo_prepare [of True] by (auto simp: tryR_eq_Inr)
  ultimately show ?thesis by (simp add: storable_def one_coll_views one_coll_fields one_env_def options_new_def)
qed

lemma one_coll_sealed:
  obtains cc where "\<forall>M. seal_collection (one_env M) unit_embedder True [] one_coll = Inr cc" "cc_reused cc = None"
    "\<forall>s\<in>set (cc_segments cc). length (sg_body s) \<le> 64" "length (cc_segments cc) = 3"
proof -
  let ?C = "one_doc (to_stored (options_new 2 DotProduct) 0)"
  have p: "payload_entries [demo_point] = []" "sparse_to_postings [demo_point] = []"
    by (simp_all add: payload_entries_def demo_point_def map_filter_simps sparse_to_postings_def slot_terms_def)
  have "pow2_above (Suc 0) (Suc 0) = 1" by (subst pow2_above.simps) simp
  then have b: "bucket_count (Suc 0) = 8" by (simp add: bucket_count_def)
  have l: "length (bytes_of ''a'') = 1" by code_simp
  have r: "replicate 8 [] = [[], [], [], [], [], [], [], ([] :: (string \<times> u64) list)]" by (simp add: numeral_eq_Suc)
  have "bucket_of (\<lambda>_. 7) (iddir_new 8) ''a'' = 7" by (simp add: bucket_of_def iddir_new_def)
  then have i: "length (iddir_encode (seal_iddir (\<lambda>_. 7) [demo_point])) = 47"
    using l r by (simp add: seal_iddir_def b demo_point_def iddir_insert_def iddir_new_def iddir_encode_def iddir_entry_bytes_def Let_def)
  obtain cc where cc: "seal no_msgpack ?C id_roaring (\<lambda>_. 7) 1 ''c'' [] (options_new 2 DotProduct) [] None [demo_point] 0 = Inr cc"
    "cc_reused cc = None" "\<forall>s\<in>set (cc_segments cc). length (sg_body s) \<le> 64" "length (cc_segments cc) = 3"
    using i by (simp add: seal_def p stored_config_encode_def seal_vectors_def options_new_def seg_of_def vectors_encode_def one_doc_def)
      (simp add: demo_point_def)
  show thesis
    using that [of cc] cc by (simp add: seal_collection_def one_coll_views one_coll_fields one_env_def export_vocab_state_def)
qed

lemma small_segments:
  "\<forall>s\<in>set segs. length (sg_body s) \<le> 64 \<Longrightarrow>
     \<exists>ops refs cur'. pager_segments id_compressors crc codec segs cur = (ops, Inr (refs, cur')) \<and> cur' \<le> cur + 96 * length segs"
proof (induction segs arbitrary: cur)
  case (Cons s segs)
  have "compress id_compressors (codec_for (sg_type s) codec (length (sg_body s))) (sg_body s) = Inr (sg_body s)"
    using Cons.prems by (auto simp: codec_for_def COMPRESS_THRESHOLD_def)
  then obtain bs where b: "segment_encode id_compressors crc s (codec_for (sg_type s) codec (length (sg_body s))) = Inr bs"
    "length bs = 32 + length (sg_body s)" by (simp add: segment_encode_def)
  obtain ops refs cur' where "pager_segments id_compressors crc codec segs (cur + length bs) = (ops, Inr (refs, cur'))"
    "cur' \<le> cur + length bs + 96 * length segs" using Cons by force
  then show ?case using b Cons.prems by auto
qed simp

lemma one_commit:
  obtains cc toc ops tail where "\<forall>M. seal_collection (one_env M) unit_embedder True [] one_coll = Inr cc" "cc_reused cc = None"
    "\<forall>s\<in>set (cc_segments cc). length (sg_body s) \<le> 64"
    "checkpoint_ops id_compressors sum_crc (two_docs (empty_toc 4096) toc) (pager_at 4097) 1 [cc] Codec_Lz4 0 = (ops, Inr (toc, tail))"
    "tail \<le> 5000" "toc \<noteq> empty_toc 4096"
proof -
  obtain cc where cc: "\<forall>M. seal_collection (one_env M) unit_embedder True [] one_coll = Inr cc" "cc_reused cc = None"
    "\<forall>s\<in>set (cc_segments cc). length (sg_body s) \<le> 64" "length (cc_segments cc) = 3" using one_coll_sealed by blast
  obtain ops refs cur where s: "pager_segments id_compressors sum_crc Codec_Lz4 (cc_segments cc) 4097 = (ops, Inr (refs, cur))"
    "cur \<le> 4097 + 96 * 3" using small_segments [OF cc(3), of sum_crc Codec_Lz4 4097] cc(4) by auto
  let ?toc = "\<lparr>toc_generation = 1, toc_collections = [checkpoint_entry cc refs], toc_free_tail_offset = word_of_nat cur\<rparr>"
  have "empty_toc 4096 \<noteq> ?toc" by (simp add: empty_toc_def)
  then obtain ops' tail where "checkpoint_ops id_compressors sum_crc (two_docs (empty_toc 4096) ?toc) (pager_at 4097) 1 [cc] Codec_Lz4 0
      = (ops', Inr (?toc, tail))" "tail \<le> cur + 1"
    using s(1) cc(2) by (auto simp: checkpoint_ops_def pager_at_def toc_encode_def Let_def two_docs_enc)
  then show thesis using that cc(1-3) s(2) by (auto simp: empty_toc_def)
qed

lemma first_on:
  "\<exists>f h. pager_on sum_crc (two_docs (empty_toc 4096) toc) (pager_at 4097) f h (empty_toc 4096) \<and> length f = 4097"
proof -
  let ?M = "two_docs (empty_toc 4096) toc"
  obtain ops where c: "checkpoint_ops id_compressors sum_crc ?M (pager_at 4096) 0 [] Codec_None 0 = (ops, Inr (empty_toc 4096, 4097))"
    by (auto simp: checkpoint_ops_def empty_toc_def toc_encode_def Let_def pager_at_def two_docs_enc)
  have "\<exists>h. read_committed sum_crc ?M (run_ops ops []) = Inr (h, empty_toc 4096, 4097)
     \<and> file_uuid h = pg_uuid (pager_at 4096) \<and> created_epoch_s h = pg_created_epoch_s (pager_at 4096)
     \<and> HEADER_SIZE \<le> unat (toc_offset h)
     \<and> list_all2 (coll_committed id_compressors sum_crc Codec_None (run_ops ops [])) (toc_collections (empty_toc 4096)) []"
    by (rule checkpoint_commits [OF c]) (simp_all add: pager_at_def HEADER_SIZE_def)
  moreover have "length (run_ops ops []) = 4097"
    using checkpoint_length [OF c] by (simp add: pager_at_def HEADER_SIZE_def)
  moreover have "pg_open (pager_at 4097)" "pg_tail (pager_at 4097) = 4097" "pg_uuid (pager_at 4097) = pg_uuid (pager_at 4096)"
    "pg_created_epoch_s (pager_at 4097) = pg_created_epoch_s (pager_at 4096)" by (simp_all add: pager_at_def)
  ultimately show ?thesis unfolding pager_on_def by metis
qed
definition one_file :: "toc msgpack \<Rightarrow> ('e, durable) env" where
  "one_file M = \<lparr>ev_json_len = (\<lambda>_. 0),
     ev_wal = \<lparr>wm_points = no_msgpack, wm_ids = no_msgpack, wm_create = no_msgpack, wm_rename = no_msgpack, wm_alias = no_msgpack,
       wm_pidx = no_msgpack\<rparr>,
     ev_emb = undefined, ev_log = (\<lambda>i op b. ps_append (one_env M) i op b), ev_ann = linear_ann,
     ev_build = (\<lambda>p _. Inl (UnsupportedProvider p available_providers)), ev_now = 0\<rparr>"

definition one_ps :: persistence where
  "one_ps = \<lparr>ps_journal = \<lparr>jn_pager = pager_at 4097, jn_wal = \<lparr>wl_uuid_prefix = replicate 8 1, wl_next_seq = 1\<rparr>, jn_generation = 0\<rparr>,
     ps_uuid = replicate 16 1, ps_durability = Full, ps_wal_size_limit = 0, ps_auto_vacuum_threshold = 0, ps_read_only = False,
     ps_crashed = False, ps_checkpoint_wired = True\<rparr>"

lemma one_db_inv: "reg_inv one_db"
proof -
  have c: "cell one_db 0 = one_coll" "length (db_cells one_db) = 1" "db_collections one_db = [(''c'', 0)]" "db_aliases one_db = []"
    by (simp_all add: cell_def one_db_def logged_db_def memory_def)
  have "coll_inv one_coll" using one_coll_storable by (simp add: storable_def)
  moreover have "coll_ids_ok one_db" by (simp add: coll_ids_ok_def one_db_def logged_db_def one_coll_fields)
  moreover have "map_of (db_collections one_db) n = Some r \<longleftrightarrow>
      r < length (db_cells one_db) \<and> cl_name (cell one_db r) = n \<and> \<not> cl_deleted (cell one_db r)" for n r
    using c one_coll_fields by (cases "r = 0") auto
  then have "names_ok one_db" by (simp add: names_ok_def c)
  moreover have "aliases_ok one_db" using c one_coll_fields by (auto simp: aliases_ok_def)
  ultimately show ?thesis using c by (simp add: reg_inv_def)
qed

lemma commit_run:
  assumes "\<not> ps_read_only P" "cc_reused cc = None"
    and k: "checkpoint_ops (de_compress D) (de_crc D) (de_toc D) (jn_pager (ps_journal P)) (jn_generation (ps_journal P) + 1) [cc]
        Codec_Lz4 (de_now D) = (ops, Inr (toc, tail))"
  shows "\<exists>P1 fs1. commit D [cc] (P, fs) = (Inr (Some toc), P1, fs1) \<and> pg_tail (jn_pager (ps_journal P1)) = tail"
proof -
  have b: "jn_pager (ps_journal (bump P)) = jn_pager (ps_journal P)" "jn_generation (ps_journal (bump P)) = jn_generation (ps_journal P) + 1"
    by (simp_all add: bump_def)
  show ?thesis
    using assms(1,2) k by (simp add: commit_def pager_checkpoint_def b set_wal_file_def set_pager_def Let_def case_prod_beta)
qed

lemma one_checkpoint:
  obtains M cc toc fs h P1 fs1 where "durable_on (one_env M) (one_ps, fs) h (empty_toc 4096) []"
    "sealed_live_collections (one_env M) unit_embedder True one_db = Inr [cc]"
    "\<forall>cc\<in>set [cc]. \<forall>s\<in>set (cc_segments cc). seg_ok (de_compress (one_env M)) Codec_Lz4 s"
    "commit (one_env M) [cc] (one_ps, fs) = (Inr (Some toc), P1, fs1)" "mp_carries (de_toc (one_env M)) toc"
    "length (file_at fs (db_path one_ps)) < 2 ^ 64" "pg_tail (jn_pager (ps_journal P1)) < 2 ^ 64"
    "\<forall>r\<in>set (live_cells one_db). storable (one_env M) (\<lambda>_. 0) (cell one_db r)"
proof -
  obtain cc toc ops tail where w: "\<forall>M. seal_collection (one_env M) unit_embedder True [] one_coll = Inr cc"
    "\<forall>s\<in>set (cc_segments cc). length (sg_body s) \<le> 64"
    "checkpoint_ops id_compressors sum_crc (two_docs (empty_toc 4096) toc) (pager_at 4097) 1 [cc] Codec_Lz4 0 = (ops, Inr (toc, tail))"
    "tail \<le> 5000" "toc \<noteq> empty_toc 4096" and r: "cc_reused cc = None" by (rule one_commit) metis
  let ?M = "two_docs (empty_toc 4096) toc"
  obtain f h where on: "pager_on sum_crc ?M (pager_at 4097) f h (empty_toc 4096)" "length f = 4097" using first_on by blast
  let ?fs = "[''db'' \<mapsto> f, ''db-wal'' \<mapsto> wal_header (replicate 8 1)]"
  have p: "db_path one_ps = ''db''" "file_at ?fs ''db'' = f" "wal_file (one_ps, ?fs) = (\<lparr>wl_uuid_prefix = replicate 8 1, wl_next_seq = 1\<rparr>, wal_header (replicate 8 1))"
    by (simp_all add: db_path_def one_ps_def pager_at_def file_at_def wal_file_def wal_path_def)
  have u: "file_uuid h = replicate 16 1" using on(1) by (simp add: pager_on_def pager_at_def)
  have d: "durable_on (one_env ?M) (one_ps, ?fs) h (empty_toc 4096) []"
    using on(1) u by (simp add: durable_on_def p wal_holds_def encoded_log_def) (simp add: one_ps_def one_env_def)
  have l: "live_cells one_db = [0]" "cell one_db 0 = one_coll" "db_embedders one_db = []"
    by (simp_all add: live_cells_def one_db_def logged_db_def cell_def one_coll_fields memory_def)
  have se: "sealed_live_collections (one_env ?M) unit_embedder True one_db = Inr [cc]"
    using w(1) by (simp add: sealed_live_collections_def l)
  obtain P1 fs1 where c: "commit (one_env ?M) [cc] (one_ps, ?fs) = (Inr (Some toc), P1, fs1)" "pg_tail (jn_pager (ps_journal P1)) = tail"
    using commit_run [of one_ps cc "one_env ?M"] w(3) r by (simp add: one_ps_def one_env_def) metis
  have "seg_ok (de_compress (one_env ?M)) Codec_Lz4 s" if "s \<in> set (cc_segments cc)" for s
    using w(2) that by (auto simp: seg_ok_def one_env_def)
  moreover have "mp_carries (de_toc (one_env ?M)) toc" using w(5) by (simp add: one_env_def)
  ultimately show thesis
    using that [OF d se _ c(1)] c(2) w(4) p on(2) one_coll_storable [of ?M] by (simp add: l)
qed

theorem checkpoint_reopens_witness:
  "\<exists>M colls toc s s1 P2 (db2 :: (unit, unit) database).
     commit (one_env M) colls s = (Inr (Some toc), s1)
     \<and> open_with (one_env M) (one_file M) ''db'' (open_options_new\<lparr>oo_mmap := Some False\<rparr>) (snd s1) = (snd s1, Inr (db2, P2))
     \<and> db_view db2 ''c'' = Some (1, [], [''a'' \<mapsto> ([0x3F800000, 0], None, None)])"
proof -
  obtain M cc toc fs h P1 fs1 where w: "durable_on (one_env M) (one_ps, fs) h (empty_toc 4096) []"
    "sealed_live_collections (one_env M) unit_embedder True one_db = Inr [cc]"
    "\<forall>cc\<in>set [cc]. \<forall>s\<in>set (cc_segments cc). seg_ok (de_compress (one_env M)) Codec_Lz4 s"
    "commit (one_env M) [cc] (one_ps, fs) = (Inr (Some toc), P1, fs1)" "mp_carries (de_toc (one_env M)) toc"
    "length (file_at fs (db_path one_ps)) < 2 ^ 64" "pg_tail (jn_pager (ps_journal P1)) < 2 ^ 64"
    and st: "\<forall>r\<in>set (live_cells one_db). storable (one_env M) (\<lambda>_. 0) (cell one_db r)" by (rule one_checkpoint)
  have v: "db_saved one_db ''c'' = Some (1, [], [''a'' \<mapsto> ([0x3F800000, 0], None, None)])"
  proof -
    have "coll_inv one_coll" using one_coll_storable by (simp add: storable_def)
    then have "coll_contents one_coll = map_of (map (\<lambda>p. (pt_id p, point_contents p)) (live_points one_coll))"
      by (simp add: point_listing coll_contents_def coll_inv_def data_inv_def listing_view)
    moreover have "saved_contents (options_new 2 DotProduct) (point_contents demo_point) = point_contents demo_point"
      by (rule saved_contents_same) (simp_all add: options_new_def point_contents_def demo_point_def tidy_sparse_def)
    ultimately show ?thesis
      by (simp add: db_saved_def saved_view_def fun_eq_iff one_coll_views one_db_def logged_db_def cell_def one_coll_fields demo_point_def point_contents_def)
  qed
  have st': "\<forall>r\<in>set (live_cells one_db). storable (one_env M) (ev_json_len (one_file M :: (unit, durable) env)) (cell one_db r)"
    using st by (simp add: one_file_def)
  have "db_path one_ps = ''db''" by (simp add: db_path_def one_ps_def pager_at_def)
  then show ?thesis
    using checkpoint_reopens [OF one_db_inv st' w, where options = "open_options_new\<lparr>oo_mmap := Some False\<rparr>"] w(4) v
    by (fastforce simp: one_env_def)
qed

lemma prepared_dirty: "ps \<noteq> [] \<Longrightarrow> cd_dirty (apply_prepared dim ps d)"
proof (induction ps rule: rev_induct)
  case (snoc p ps)
  then show ?case by (simp add: apply_prepared_def apply_upsert_def append_point_def Let_def)
qed simp

text \<open>
  C25. The mapped tier carries stale segments forward: after a write to a collection that was opened mapped, one checkpoint
  seals it, but every later checkpoint that finds it clean records the segments of the base it was opened with, whatever
  references the sealing left; the write is then in neither the committed chain nor the truncated log.
\<close>

theorem mapped_write_lost:
  fixes c :: "'a collection"
  assumes "cd_base (cl_data c) = Some b" and "points \<noteq> []" and "user_upsert_step jl M L points c s = (Inr (), c1, s1)"
  shows "clean_reuse c1 = None \<and> clean_reuse (mark_sealed refs n m c1) = Some (bt_seg_refs b, bt_vector_count b, bt_tombstone_count b)
    \<and> seal_collection D ops True E (mark_sealed refs n m c1) = Inr \<lparr>cc_coll_id = cl_coll_id c, cc_name = cl_name c,
        cc_aliases = cl_aliases c, cc_vector_count = bt_vector_count b, cc_tombstone_count = bt_tombstone_count b, cc_segments = [],
        cc_reused = Some (bt_seg_refs b)\<rparr>"
proof -
  obtain ps where ps: "mapR (prepare_inner jl (cl_config c) False) points = Inr ps"
    "c1 = c\<lparr>cl_data := apply_prepared (co_dimension (cl_config c)) ps (cl_data c)\<rparr>"
    using assms(3) by (auto simp: user_upsert_step_def upsert_batch_step_def tryR_eq_Inr split: sum.splits prod.splits)
  have "ps \<noteq> []" using mapR_Inr_length [OF ps(1)] assms(2) by auto
  then have "cd_dirty (apply_prepared dim ps d)" for dim and d :: "'a collection_data" by (rule prepared_dirty)
  then show ?thesis
    using assms(1) by (simp add: ps(2) clean_reuse_def seal_collection_def mark_sealed_def apply_prepared_base)
qed

definition mapped_coll :: "unit collection" where
  "mapped_coll = demo_coll\<lparr>cl_data := (cl_data demo_coll)\<lparr>cd_base := Some \<lparr>bt_regions = [], bt_count = 0, bt_seg_refs = [],
     bt_vector_count = 0, bt_tombstone_count = 0, bt_indexed = False\<rparr>\<rparr>\<rparr>"

theorem mapped_write_lost_witness:
  "\<exists>c1. user_upsert_step (\<lambda>_. 0) no_msgpack (\<lambda>_ _ _ s. (Inr (), s)) [demo_point] mapped_coll () = (Inr (), c1, ())
    \<and> cc_reused (case seal_collection (one_env no_msgpack) unit_embedder True [] (mark_sealed [\<lparr>rf_type = 1, rf_offset = 4096, rf_len = 32\<rparr>] 1 0 c1) of Inr cc \<Rightarrow> cc) = Some []"
proof -
  have b: "cd_base (cl_data mapped_coll) = Some \<lparr>bt_regions = [], bt_count = 0, bt_seg_refs = [],
     bt_vector_count = 0, bt_tombstone_count = 0, bt_indexed = False\<rparr>" by (simp add: mapped_coll_def)
  have "cl_config mapped_coll = options_new 2 DotProduct" "cl_deleted mapped_coll = False" "cl_persistent mapped_coll = False"
    by (simp_all add: mapped_coll_def demo_coll_def)
  then obtain c1 where u: "user_upsert_step (\<lambda>_. 0) no_msgpack (\<lambda>_ _ _ s. (Inr (), s)) [demo_point] mapped_coll () = (Inr (), c1, ())"
    using demo_prepare [of False]
    by (simp add: user_upsert_step_def upsert_batch_step_def encode_wal_def coll_log_def guard_def del: mapR.simps)
  show ?thesis
    using u mapped_write_lost [OF b _ u, where ops = unit_embedder and E = "[]" and D = "one_env no_msgpack"
        and refs = "[\<lparr>rf_type = 1, rf_offset = 4096, rf_len = 32\<rparr>]" and n = 1 and m = 0] by simp
qed

end
