(* ===== verification/Rendering.thy ===== *)
theory Rendering
  imports Errors
begin

section \<open>Text the program shows\<close>

text \<open>
  \<open>Display\<close> of the error type (\<open>error.rs\<close>), which \<open>verify\<close> puts into its findings, and the pieces of \<open>format!\<close> that
  several components share: lower-case hexadecimal, \<open>join\<close>, \<open>{:?}\<close> of a list of strings.
\<close>

definition hex_digit :: "nat \<Rightarrow> char" where
  "hex_digit n = char_of (if n < 10 then 48 + n else 87 + n)"

definition hex_of :: "bytes \<Rightarrow> string" where
  "hex_of bs = concat (map (\<lambda>b. [hex_digit (unat b div 16), hex_digit (unat b mod 16)]) bs)"

lemma length_hex_of [simp]: "length (hex_of bs) = 2 * length bs"
  by (induction bs) (simp_all add: hex_of_def)

text \<open>\<open>", ".join\<close>\<close>

fun join :: "string \<Rightarrow> string list \<Rightarrow> string" where
  "join sep [] = []"
| "join sep [s] = s"
| "join sep (s # t # r) = s @ sep @ join sep (t # r)"

definition debug_strings :: "string list \<Rightarrow> string" where
  "debug_strings ss = ''['' @ join '', '' (map quoted ss) @ '']''"

text \<open>The text of an \<open>io::Error\<close> is the operating system's; it is left out, as in the error type itself.\<close>

fun display :: "vec_lite_error \<Rightarrow> string" where
  "display (CollectionNotFound name) = ''collection not found: '' @ name"
| "display (VectorNotFound key) = ''vector not found: '' @ key"
| "display (AlreadyExists name) = ''collection already exists: '' @ name"
| "display (DimensionMismatch expected got) =
     ''dimension mismatch: expected '' @ show_nat expected @ '', got '' @ show_nat got"
| "display Locked = ''database is locked by another process''"
| "display WalPending =
     ''write-ahead log has pending entries; open read-write to recover or set read_only_ignore_wal''"
| "display ReadOnly = ''read-only database''"
| "display Closed = ''database is closed''"
| "display (Corrupt what) = ''file is corrupt: '' @ what"
| "display (UnsupportedFormatVersion found supported) =
     ''format version '' @ show_nat (unat found) @ '' newer than supported '' @ show_nat (unat supported)"
| "display (UnsupportedProvider requested available) =
     ''unknown embedding provider: '' @ requested @ ''; available: '' @ debug_strings available"
| "display (InvalidArgument what) = ''invalid argument: '' @ what"
| "display Io = []"

end
