(* ===== verification/Inspection.thy ===== *)
theory Inspection
  imports Reopen Rendering
begin

section \<open>Read-only diagnosis (\<open>interop/verify.rs\<close>, \<open>interop/inspect.rs\<close>)\<close>

text \<open>
  Two readers of a file that never write. \<open>verify_file\<close> walks header, TOC, segments and the log and reports what is damaged
  as findings, not as an error; \<open>inspect_file\<close> describes a sound file and fails on the first damage. Both decode the file on
  their own, beside the pager; the theorems relate them to \<open>persistence_open\<close>. \<open>usize\<close> has 64 bits.
\<close>

fun segment_type_name :: "segment_type \<Rightarrow> string" where
  "segment_type_name SegConfig = ''config''"
| "segment_type_name SegVectors = ''vectors''"
| "segment_type_name SegTombstone = ''tombstone''"
| "segment_type_name SegPayload = ''payload''"
| "segment_type_name SegPidx = ''pidx''"
| "segment_type_name SegSparse = ''sparse''"
| "segment_type_name SegHnsw = ''hnsw''"
| "segment_type_name SegVocab = ''vocab''"
| "segment_type_name SegIddir = ''iddir''"

definition unknown_byte :: "u8 \<Rightarrow> string" where
  "unknown_byte b = ''unknown('' @ show_nat (unat b) @ '')''"

definition seg_type_name :: "u8 \<Rightarrow> string" where
  "seg_type_name b = (case seg_from_byte b of Inr t \<Rightarrow> segment_type_name t | Inl _ \<Rightarrow> unknown_byte b)"

text \<open>\<open>start.checked_add(len)\<close> kept when it stays inside the file.\<close>

definition range_end :: "bytes \<Rightarrow> u64 \<Rightarrow> u64 \<Rightarrow> nat option" where
  "range_end f start len =
     (let e = unat start + unat len in if e < 2 ^ 64 \<and> e \<le> length f then Some e else None)"

subsection \<open>\<open>verify_file\<close>\<close>

record finding =
  fd_offset :: u64
  fd_segment_type :: "string option"
  fd_collection :: "string option"
  fd_detail :: string

datatype wal_status = WalAbsent | WalScanned nat bool

record verify_report =
  vr_findings :: "finding list"
  vr_collections :: nat
  vr_segments_checked :: nat
  vr_wal :: wal_status

definition chain_finding :: "u64 \<Rightarrow> string \<Rightarrow> finding" where
  "chain_finding at detail = \<lparr>fd_offset = at, fd_segment_type = None, fd_collection = None, fd_detail = detail\<rparr>"

definition verify_header :: "(bytes \<Rightarrow> u32) \<Rightarrow> bytes \<Rightarrow> finding list \<times> header option" where
  "verify_header crc f =
     (case header_decode crc f of
        Inr h \<Rightarrow> ([], Some h)
      | Inl e \<Rightarrow> ([chain_finding 0 (display e)], None))"

definition verify_toc :: "(bytes \<Rightarrow> u32) \<Rightarrow> toc msgpack \<Rightarrow> bytes \<Rightarrow> header \<Rightarrow> finding list \<times> toc option" where
  "verify_toc crc M f h =
     (let bad = (\<lambda>detail. ([chain_finding (toc_offset h) detail], None))
      in case range_end f (toc_offset h) (toc_len h) of
           None \<Rightarrow> bad ''toc: truncated (past end of file)''
         | Some e \<Rightarrow>
             let body = slice_of f (unat (toc_offset h)) e
             in if crc body \<noteq> toc_crc32 h then bad ''toc: crc mismatch''
                else (case toc_decode M body of
                        Inr toc \<Rightarrow> ([], Some toc)
                      | Inl err \<Rightarrow> bad (display err)))"

text \<open>The loop over the live segments of a collection: findings, the intact segments, and whether anything was damaged.\<close>

fun verify_segments ::
  "compressors \<Rightarrow> (bytes \<Rightarrow> u32) \<Rightarrow> bytes \<Rightarrow> string \<Rightarrow> seg_ref list \<Rightarrow> finding list \<times> segment list \<times> bool" where
  "verify_segments X crc f name [] = ([], [], False)"
| "verify_segments X crc f name (r # rs) =
     (let (later, segs, damaged) = verify_segments X crc f name rs;
          report = (\<lambda>detail. \<lparr>fd_offset = rf_offset r, fd_segment_type = Some (seg_type_name (rf_type r)),
                               fd_collection = Some name, fd_detail = detail\<rparr>)
      in case range_end f (rf_offset r) (rf_len r) of
           None \<Rightarrow> (report (seg_loc (rf_offset r) @ '': past end of file'') # later, segs, True)
         | Some e \<Rightarrow>
             (case segment_read X crc (take e f) (unat (rf_offset r)) (rf_offset r) of
                Inl err \<Rightarrow> (report (display err) # later, segs, True)
              | Inr (seg, n) \<Rightarrow>
                  let long = n \<noteq> unat (rf_len r); other = seg_to_byte (sg_type seg) \<noteq> rf_type r
                  in ((if long then [report (seg_loc (rf_offset r) @ '': on-disk length '' @ show_nat n
                                       @ '' does not match TOC length '' @ show_nat (unat (rf_len r)))] else [])
                      @ (if other then [report (seg_loc (rf_offset r) @ '': type '' @ seg_type_name (seg_to_byte (sg_type seg))
                                         @ '' does not match TOC type '' @ seg_type_name (rf_type r))] else [])
                      @ later,
                      seg # segs, long \<or> other \<or> damaged)))"

definition verify_entry :: "disk_env \<Rightarrow> bytes \<Rightarrow> coll_entry \<Rightarrow> finding list" where
  "verify_entry D f entry =
     (case verify_segments (de_compress D) (de_crc D) f (ce_name entry) (ce_live_segments entry) of
        (findings, segments, damaged) \<Rightarrow>
          if damaged then findings
          else (case load (de_json D) (de_config D) (de_roaring D) segments of
                  Inr _ \<Rightarrow> findings
                | Inl e \<Rightarrow>
                    findings @
                    [\<lparr>fd_offset = (case ce_live_segments entry of [] \<Rightarrow> word_of_nat HEADER_SIZE | s # _ \<Rightarrow> rf_offset s),
                      fd_segment_type = None, fd_collection = Some (ce_name entry),
                      fd_detail = ''collection state does not reconstruct: '' @ display e\<rparr>]))"

text \<open>The log is scanned against the uuid in the file's bytes, whether or not the header decodes.\<close>

definition scan_wal :: "(bytes \<Rightarrow> u32) \<Rightarrow> fsys \<Rightarrow> string \<Rightarrow> bytes \<Rightarrow> wal_status" where
  "scan_wal crc fs path main =
     (case fs (wal_path path) of
        None \<Rightarrow> WalAbsent
      | Some log \<Rightarrow>
          let prefix = (if 64 \<le> length main then slice_of main 48 56 else replicate 8 0);
              r = wal_scan crc log prefix
          in WalScanned (length (rp_entries r)) (rp_discarded_tail r))"

definition verify_bytes :: "disk_env \<Rightarrow> bytes \<Rightarrow> wal_status \<Rightarrow> verify_report" where
  "verify_bytes D f wal =
     (let (hs, header) = verify_header (de_crc D) f;
          (ts, toc) = (case header of None \<Rightarrow> ([], None) | Some h \<Rightarrow> verify_toc (de_crc D) (de_toc D) f h);
          entries = (case toc of None \<Rightarrow> [] | Some toc \<Rightarrow> toc_collections toc)
      in \<lparr>vr_findings = hs @ ts @ concat (map (verify_entry D f) entries),
          vr_collections = length entries,
          vr_segments_checked = sum_list (map (\<lambda>e. length (ce_live_segments e)) entries),
          vr_wal = wal\<rparr>)"

definition verify_file :: "disk_env \<Rightarrow> fsys \<Rightarrow> string \<Rightarrow> verify_report res" where
  "verify_file D fs path =
     tryR (ok_or (fs path) Io) (\<lambda>f.
     tryR (lock_file (de_locked D False) path) (\<lambda>_. Inr (verify_bytes D f (scan_wal (de_crc D) fs path f))))"

subsection \<open>\<open>inspect_file\<close>\<close>

record segment_info =
  sf_segment_type :: string
  sf_offset :: u64
  sf_len :: u64

record collection_info =
  cf_name :: string
  cf_aliases :: "string list"
  cf_vector_count :: u64
  cf_tombstone_count :: u64
  cf_dimension :: u32
  cf_metric :: string
  cf_quantization :: string
  cf_embedding_provider :: "string option"
  cf_hnsw :: "u32 \<times> u32 \<times> u32"
  cf_segments :: "segment_info list"

record inspect_report =
  nr_format_version :: u32
  nr_min_reader_version :: u32
  nr_clean_close :: bool
  nr_file_uuid :: string
  nr_created_epoch_s :: u64
  nr_modified_epoch_s :: u64
  nr_generation :: u64
  nr_file_size :: nat
  nr_wal_size :: nat
  nr_collections :: "collection_info list"

definition metric_name :: "u8 \<Rightarrow> string" where
  "metric_name b = (if b = 0 then ''cosine'' else if b = 1 then ''euclidean'' else if b = 2 then ''dot_product'' else unknown_byte b)"

definition quantization_name :: "u8 \<Rightarrow> u8 \<Rightarrow> string" where
  "quantization_name b bits =
     (if b = 0 then ''none'' else if b = 1 then ''sq-'' @ show_nat (unat bits) else if b = 2 then ''binary'' else unknown_byte b)"

definition inspect_config :: "disk_env \<Rightarrow> bytes \<Rightarrow> seg_ref \<Rightarrow> stored_config res" where
  "inspect_config D f r =
     tryR (ok_or (range_end f (rf_offset r) (rf_len r)) (Corrupt (seg_loc (rf_offset r) @ '': past end of file''))) (\<lambda>e.
     tryR (segment_read (de_compress D) (de_crc D) (take e f) (unat (rf_offset r)) (rf_offset r)) (\<lambda>(segment, _).
       stored_config_decode (de_config D) (sg_body segment)))"

fun inspect_segments ::
  "disk_env \<Rightarrow> bytes \<Rightarrow> seg_ref list \<Rightarrow> stored_config option \<Rightarrow> (segment_info list \<times> stored_config option) res" where
  "inspect_segments D f [] config = Inr ([], config)"
| "inspect_segments D f (r # rs) config =
     tryR (seg_from_byte (rf_type r)) (\<lambda>t.
     tryR (if t = SegConfig then tryR (inspect_config D f r) (\<lambda>c. Inr (Some c)) else Inr config) (\<lambda>config.
     tryR (inspect_segments D f rs config) (\<lambda>(infos, config).
       Inr (\<lparr>sf_segment_type = segment_type_name t, sf_offset = rf_offset r, sf_len = rf_len r\<rparr> # infos, config))))"

definition inspect_entry :: "disk_env \<Rightarrow> bytes \<Rightarrow> coll_entry \<Rightarrow> collection_info res" where
  "inspect_entry D f entry =
     tryR (inspect_segments D f (ce_live_segments entry) None) (\<lambda>(segments, config).
     tryR (ok_or config (Corrupt (''collection '' @ quoted (ce_name entry) @ '': no CONFIG segment''))) (\<lambda>c.
       Inr \<lparr>cf_name = ce_name entry, cf_aliases = ce_aliases entry, cf_vector_count = ce_vector_count entry,
            cf_tombstone_count = ce_tombstone_count entry, cf_dimension = sc_dimension c, cf_metric = metric_name (sc_metric c),
            cf_quantization = quantization_name (sc_quantization c) (sc_quant_bits c),
            cf_embedding_provider = sc_embedding_provider c, cf_hnsw = (sc_m c, sc_ef_construction c, sc_ef_search c),
            cf_segments = segments\<rparr>))"

definition inspect_file :: "disk_env \<Rightarrow> fsys \<Rightarrow> string \<Rightarrow> inspect_report res" where
  "inspect_file D fs path =
     tryR (ok_or (fs path) Io) (\<lambda>f.
     tryR (lock_file (de_locked D False) path) (\<lambda>_.
     tryR (header_decode (de_crc D) f) (\<lambda>h.
     tryR (ok_or (range_end f (toc_offset h) (toc_len h)) (Corrupt ''toc: truncated'')) (\<lambda>e.
     let body = slice_of f (unat (toc_offset h)) e
     in if de_crc D body \<noteq> toc_crc32 h then Inl (Corrupt ''toc: crc mismatch'')
        else
          tryR (toc_decode (de_toc D) body) (\<lambda>toc.
          tryR (mapR (inspect_entry D f) (toc_collections toc)) (\<lambda>collections.
            Inr \<lparr>nr_format_version = format_version h, nr_min_reader_version = min_reader_version h,
                 nr_clean_close = clean_close h, nr_file_uuid = hex_of (file_uuid h), nr_created_epoch_s = created_epoch_s h,
                 nr_modified_epoch_s = modified_epoch_s h, nr_generation = toc_generation toc, nr_file_size = length f,
                 nr_wal_size = length (file_at fs (wal_path path)), nr_collections = collections\<rparr>))))))"


subsection \<open>The three readers decode the same segment\<close>

lemma slice_of_drop: "slice_of (drop s b) i j = slice_of b (s + i) (s + j)"
  by (simp add: slice_of_def add.commute)

lemma segment_read_drop:
  assumes "s \<le> length b"
  shows "segment_read X crc b s off = segment_read X crc (drop s b) 0 off"
proof (cases "s + 32 \<le> length b")
  case True
  then have f: "le_u16 b (Suc (Suc s)) c = le_u16 (drop s b) (Suc (Suc 0)) c" "le_u32 b (s + 4) c = le_u32 (drop s b) 4 c"
    "le_u64 b (s + 8) c = le_u64 (drop s b) 8 c" "le_u64 b (s + 16) c = le_u64 (drop s b) 16 c"
    "le_u32 b (s + 24) c = le_u32 (drop s b) 24 c" for c
    by (simp_all add: le_u16_def le_u32_def le_u64_def need_def slice_of_drop add.assoc eval_nat_numeral)
  have l: "length b < s + (32 + n) \<longleftrightarrow> length b - s < 32 + n" for n using True by linarith
  have n: "\<not> length b - s < 32" using True by linarith
  show ?thesis
    using True by (simp add: segment_read_def SEGMENT_HEADER_SIZE_def f slice_of_drop Let_def l n add.assoc cong: if_cong)
next
  case False
  then have "length b - s < 32" using assms by linarith
  then show ?thesis using False by (simp add: segment_read_def SEGMENT_HEADER_SIZE_def)
qed

lemma segment_read_slice:
  "s \<le> e \<Longrightarrow> e \<le> length f \<Longrightarrow> segment_read X crc (take e f) s off = segment_read X crc (slice_of f s e) 0 off"
  by (subst segment_read_drop) (simp_all add: slice_of_def drop_take)

lemma range_end_small: "length f < 2 ^ 64 \<Longrightarrow>
    range_end f a n = (if unat a + unat n \<le> length f then Some (unat a + unat n) else None)"
  by (simp add: range_end_def Let_def)

text \<open>A reference is sound when the bytes it names are one segment, of the length and the type it says.\<close>

definition sound_ref :: "disk_env \<Rightarrow> bytes \<Rightarrow> seg_ref \<Rightarrow> segment \<Rightarrow> bool" where
  "sound_ref D f r seg \<longleftrightarrow> unat (rf_offset r) + unat (rf_len r) \<le> length f
     \<and> segment_read (de_compress D) (de_crc D) (slice_of f (unat (rf_offset r)) (unat (rf_offset r) + unat (rf_len r))) 0
         (rf_offset r) = Inr (seg, unat (rf_len r))
     \<and> seg_to_byte (sg_type seg) = rf_type r"

lemma sound_ref_read:
  "sound_ref D f r seg \<Longrightarrow> pg_open p \<Longrightarrow> pager_read_segment (de_compress D) (de_crc D) (p, f) r = Inr seg"
  by (simp add: sound_ref_def pager_read_segment_def)

lemma sound_ref_unique: "sound_ref D f r seg \<Longrightarrow> sound_ref D f r seg' \<Longrightarrow> seg = seg'"
  by (simp add: sound_ref_def)

definition ref_sound :: "disk_env \<Rightarrow> bytes \<Rightarrow> seg_ref \<Rightarrow> bool" where
  "ref_sound D f r \<longleftrightarrow> (\<exists>seg. sound_ref D f r seg)"

lemma verify_segments_spec:
  assumes "length f < 2 ^ 64" and "verify_segments (de_compress D) (de_crc D) f name refs = (findings, segs, damaged)"
  shows "damaged = (findings \<noteq> []) \<and> damaged = (\<exists>r\<in>set refs. \<not> ref_sound D f r)
    \<and> (\<forall>r\<in>set refs. \<not> ref_sound D f r \<longrightarrow> (\<exists>x\<in>set findings. fd_offset x = rf_offset r
          \<and> fd_segment_type x = Some (seg_type_name (rf_type r)) \<and> fd_collection x = Some name))
    \<and> (\<not> damaged \<longrightarrow> list_all2 (sound_ref D f) refs segs)"
  using assms(2)
proof (induction refs arbitrary: findings segs damaged)
  case Nil
  then show ?case by simp
next
  case (Cons r refs)
  obtain fs ss d where v: "verify_segments (de_compress D) (de_crc D) f name refs = (fs, ss, d)" by (metis prod_cases3)
  note IH = Cons.IH [OF v]
  have s: "ref_sound D f r \<longleftrightarrow> unat (rf_offset r) + unat (rf_len r) \<le> length f
      \<and> (\<exists>seg. segment_read (de_compress D) (de_crc D) (take (unat (rf_offset r) + unat (rf_len r)) f) (unat (rf_offset r))
         (rf_offset r) = Inr (seg, unat (rf_len r)) \<and> seg_to_byte (sg_type seg) = rf_type r)"
    by (auto simp: ref_sound_def sound_ref_def segment_read_slice)
  have s': "sound_ref D f r seg" if "unat (rf_offset r) + unat (rf_len r) \<le> length f"
      "segment_read (de_compress D) (de_crc D) (take (unat (rf_offset r) + unat (rf_len r)) f) (unat (rf_offset r))
         (rf_offset r) = Inr (seg, unat (rf_len r))" "seg_to_byte (sg_type seg) = rf_type r" for seg
    using that by (simp add: sound_ref_def segment_read_slice)
  show ?case
  proof (cases "unat (rf_offset r) + unat (rf_len r) \<le> length f")
    case False
    then show ?thesis using Cons.prems IH by (auto simp: v s range_end_small [OF assms(1)])
  next
    case True
    show ?thesis
    proof (cases "segment_read (de_compress D) (de_crc D) (take (unat (rf_offset r) + unat (rf_len r)) f) (unat (rf_offset r)) (rf_offset r)")
      case (Inl e)
      then show ?thesis using True Cons.prems IH by (auto simp: v s range_end_small [OF assms(1)])
    next
      case (Inr sn)
      obtain seg n where sn: "sn = (seg, n)" by (cases sn)
      show ?thesis
        using True Inr Cons.prems IH s' [OF True, of seg]
        by (auto simp: v s sn range_end_small [OF assms(1)] Let_def split: if_splits)
    qed
  qed
qed

subsection \<open>One collection: the load order of the open\<close>

lemma load_move:
  assumes "\<forall>x\<in>set xs. sg_type x \<noteq> sg_type a"
  shows "foldR (load_segment M C R) st (a # xs @ ys) = Inr t \<longleftrightarrow> foldR (load_segment M C R) st (xs @ a # ys) = Inr t"
  using assms
proof (induction xs arbitrary: st)
  case (Cons x xs)
  have "foldR (load_segment M C R) st (a # x # xs @ ys) = Inr t \<longleftrightarrow> foldR (load_segment M C R) st (x # a # xs @ ys) = Inr t"
  proof -
    have "foldR (load_segment M C R) st [a, x] = Inr u \<longleftrightarrow> foldR (load_segment M C R) st [x, a] = Inr u" for u
      using load_segment_swap [of a x M C R st u] load_segment_swap [of x a M C R st u] Cons.prems by auto
    then have "tryR (foldR (load_segment M C R) st [a, x]) (\<lambda>s. foldR (load_segment M C R) s (xs @ ys)) = Inr t \<longleftrightarrow>
        tryR (foldR (load_segment M C R) st [x, a]) (\<lambda>s. foldR (load_segment M C R) s (xs @ ys)) = Inr t"
      by (simp only: tryR_eq_Inr)
    then show ?thesis by (simp only: foldR_append [symmetric] append.simps)
  qed
  also have "\<dots> \<longleftrightarrow> foldR (load_segment M C R) st (x # xs @ a # ys) = Inr t"
    using Cons by (simp add: tryR_eq_Inr)
  finally show ?case by simp
qed simp

lemma load_partition:
  assumes "\<And>a b. P a \<Longrightarrow> \<not> P b \<Longrightarrow> sg_type a \<noteq> sg_type b"
  shows "foldR (load_segment M C R) st (filter (\<lambda>x. \<not> P x) xs @ filter P xs) = Inr t \<longleftrightarrow> foldR (load_segment M C R) st xs = Inr t"
proof (induction xs arbitrary: st)
  case (Cons x xs)
  have "foldR (load_segment M C R) st (filter (\<lambda>x. \<not> P x) (x # xs) @ filter P (x # xs)) = Inr t \<longleftrightarrow>
      foldR (load_segment M C R) st (x # filter (\<lambda>x. \<not> P x) xs @ filter P xs) = Inr t"
  proof (cases "P x")
    case True
    then have "\<forall>y\<in>set (filter (\<lambda>x. \<not> P x) xs). sg_type y \<noteq> sg_type x" using assms [of x] by fastforce
    from load_move [OF this, of M C R st "filter P xs" t] True show ?thesis by simp
  qed simp
  then show ?case using Cons by (simp add: tryR_eq_Inr)
qed simp

lemma load_reordered:
  "load M C R (filter (\<lambda>s. sg_type s \<noteq> SegVectors) segs @ filter (\<lambda>s. sg_type s = SegVectors) segs) = Inr ld
     \<longleftrightarrow> load M C R segs = Inr ld"
  unfolding load_def tryR_eq_Inr [where r = "foldR _ _ _"]
  by (subst load_partition [where P = "\<lambda>s. sg_type s = SegVectors", simplified]) auto

lemma vectors_ref: "sound_ref D f r seg \<Longrightarrow> is_vectors_ref r \<longleftrightarrow> sg_type seg = SegVectors"
  by (cases "sg_type seg") (auto simp: sound_ref_def is_vectors_ref_def)

lemma sound_refs_read:
  assumes "list_all2 (sound_ref D f) refs segs" and "pg_open p"
  shows "mapR (pager_read_segment (de_compress D) (de_crc D) (p, f)) (filter (\<lambda>r. \<not> is_vectors_ref r) refs)
       = Inr (filter (\<lambda>s. sg_type s \<noteq> SegVectors) segs)
    \<and> mapR (pager_read_segment (de_compress D) (de_crc D) (p, f)) (filter is_vectors_ref refs)
       = Inr (filter (\<lambda>s. sg_type s = SegVectors) segs)"
  using assms(1)
proof (induction refs segs rule: list_all2_induct)
  case (Cons r rs s ss)
  then show ?case using sound_ref_read [OF Cons.hyps(1) assms(2)] by (simp add: vectors_ref [OF Cons.hyps(1)])
qed simp

definition opened_entry :: "coll_entry \<Rightarrow> loaded_collection \<Rightarrow> string \<times> u32 \<times> string list \<times> loaded_collection" where
  "opened_entry e ld = (ce_name e, ce_coll_id e, ce_aliases e,
     ld\<lparr>ld_committed := Some (ce_live_segments e, ce_vector_count e, ce_tombstone_count e)\<rparr>)"

lemma open_entry_sound:
  assumes "list_all2 (sound_ref D f) (ce_live_segments e) segs" and "pg_open p" and "oc_mmap cfg = Some False"
  shows "open_entry D cfg (p, f) e = Inr x \<longleftrightarrow>
    (\<exists>ld. load (de_json D) (de_config D) (de_roaring D) segs = Inr ld \<and> x = opened_entry e ld)"
  using sound_refs_read [OF assms(1,2)] assms(3)
    load_reordered [of "de_json D" "de_config D" "de_roaring D" segs]
  by (auto simp: open_entry_def Let_def mapped_def opened_entry_def tryR_eq_Inr)

lemma verify_entry_clean:
  assumes "length f < 2 ^ 64" and "pg_open p" and "oc_mmap cfg = Some False"
  shows "verify_entry D f e = [] \<longleftrightarrow>
    (\<forall>r\<in>set (ce_live_segments e). ref_sound D f r) \<and> (\<exists>x. open_entry D cfg (p, f) e = Inr x)"
proof -
  obtain fs segs d where v: "verify_segments (de_compress D) (de_crc D) f (ce_name e) (ce_live_segments e) = (fs, segs, d)"
    by (metis prod_cases3)
  note s = verify_segments_spec [OF assms(1) v]
  show ?thesis
  proof (cases d)
    case True
    then show ?thesis using s by (auto simp: verify_entry_def v)
  next
    case False
    then have l: "list_all2 (sound_ref D f) (ce_live_segments e) segs" using s by simp
    have "(\<exists>x. open_entry D cfg (p, f) e = Inr x) \<longleftrightarrow> (\<exists>ld. load (de_json D) (de_config D) (de_roaring D) segs = Inr ld)"
      by (simp only: open_entry_sound [OF l assms(2,3)]) blast
    then show ?thesis using False s by (auto simp: verify_entry_def v split: sum.splits)
  qed
qed

lemma verify_chain:
  assumes "length f < 2 ^ 64"
  shows "(\<exists>h. header_decode crc f = Inr h \<and> verify_toc crc M f h = ([], Some toc))
    \<longleftrightarrow> (\<exists>h tail. read_committed crc M f = Inr (h, toc, tail))"
proof (cases "length f < HEADER_SIZE")
  case True
  then show ?thesis by (simp add: read_committed_def header_decode_def)
next
  case False
  have "verify_toc crc M f h = ([], Some toc) \<longleftrightarrow> \<not> length f < unat (toc_offset h) + unat (toc_len h)
      \<and> crc (slice_of f (unat (toc_offset h)) (unat (toc_offset h) + unat (toc_len h))) = toc_crc32 h
      \<and> toc_decode M (slice_of f (unat (toc_offset h)) (unat (toc_offset h) + unat (toc_len h))) = Inr toc" for h
    using assms by (simp add: verify_toc_def range_end_small Let_def not_less split: sum.splits)
  then show ?thesis using False
    by (simp add: read_committed_def header_decode_take tryR_eq_Inr Let_def) (auto simp: tryR_eq_Inr)
qed

lemma verify_toc_shape:
  "(\<exists>toc. verify_toc crc M f h = ([], Some toc)) \<or> (\<exists>x. verify_toc crc M f h = ([x], None))"
  by (auto simp: verify_toc_def Let_def split: option.splits sum.splits if_splits)

lemma verify_bytes_clean:
  assumes "length f < 2 ^ 64"
  shows "vr_findings (verify_bytes D f w) = [] \<longleftrightarrow>
    (\<exists>h toc tail. read_committed (de_crc D) (de_toc D) f = Inr (h, toc, tail)
      \<and> (\<forall>e\<in>set (toc_collections toc). verify_entry D f e = []))"
proof (cases "header_decode (de_crc D) f")
  case (Inl e)
  then show ?thesis using verify_chain [OF assms, of "de_crc D" "de_toc D"] by (auto simp: verify_bytes_def verify_header_def)
next
  case (Inr h)
  have c: "(\<exists>h' tail. read_committed (de_crc D) (de_toc D) f = Inr (h', t, tail)) \<longleftrightarrow> verify_toc (de_crc D) (de_toc D) f h = ([], Some t)" for t
    using verify_chain [OF assms, of "de_crc D" "de_toc D" t] Inr by simp
  have v: "vr_findings (verify_bytes D f w) = [] \<longleftrightarrow> (\<exists>t. verify_toc (de_crc D) (de_toc D) f h = ([], Some t)
      \<and> (\<forall>e\<in>set (toc_collections t). verify_entry D f e = []))"
    using verify_toc_shape [of "de_crc D" "de_toc D" f h] Inr by (auto simp: verify_bytes_def verify_header_def Let_def)
  show ?thesis unfolding v c [symmetric] by blast
qed

subsection \<open>What inspection reports\<close>

lemma inspect_segments_sound:
  assumes "length f < 2 ^ 64" and "list_all2 (sound_ref D f) refs segs"
    and "foldR (load_segment (de_json D) (de_config D) (de_roaring D)) st segs = Inr st'" and "ls_stored st = config"
  shows "\<exists>infos. inspect_segments D f refs config = Inr (infos, ls_stored st') \<and> length infos = length refs"
  using assms(2-)
proof (induction refs segs arbitrary: st config rule: list_all2_induct)
  case Nil
  then show ?case by simp
next
  case (Cons r refs seg segs)
  obtain st1 where st1: "load_segment (de_json D) (de_config D) (de_roaring D) st seg = Inr st1"
    "foldR (load_segment (de_json D) (de_config D) (de_roaring D)) st1 segs = Inr st'"
    using Cons.prems(1) by (auto simp: tryR_eq_Inr)
  have t: "seg_from_byte (rf_type r) = Inr (sg_type seg)"
    using Cons.hyps(1) by (simp add: sound_ref_def seg_tag.from_to flip: seg_tag.from_to)
  have rd: "range_end f (rf_offset r) (rf_len r) = Some (unat (rf_offset r) + unat (rf_len r))"
    "segment_read (de_compress D) (de_crc D) (take (unat (rf_offset r) + unat (rf_len r)) f) (unat (rf_offset r)) (rf_offset r)
       = Inr (seg, unat (rf_len r))"
    using Cons.hyps(1) by (simp_all add: sound_ref_def range_end_small [OF assms(1)] segment_read_slice)
  have "(if sg_type seg = SegConfig then tryR (inspect_config D f r) (\<lambda>c. Inr (Some c)) else Inr config) = Inr (ls_stored st1)"
    using st1(1) Cons.prems(2)
    by (cases "sg_type seg") (auto simp: inspect_config_def rd load_segment_def tryR_eq_Inr)
  then show ?case using Cons.IH [OF st1(2) refl] by (auto simp: t)
qed

lemma from_stored_fields:
  assumes "from_stored c = Inr opts"
  shows "co_dimension opts = unat (sc_dimension c) \<and> co_embedding_provider opts = sc_embedding_provider c"
proof -
  obtain m q k where "opts = \<lparr>co_dimension = unat (sc_dimension c), co_metric = m,
      co_hnsw = \<lparr>ho_m = unat (sc_m c), ho_ef_construction = unat (sc_ef_construction c), ho_ef_search = unat (sc_ef_search c)\<rparr>,
      co_quantization = q, co_compression = k, co_embedding_provider = sc_embedding_provider c, co_payload_indexes = []\<rparr>"
    using assms unfolding from_stored_def tryR_eq_Inr by blast
  then show ?thesis by simp
qed

lemma inspect_entry_sound:
  assumes "length f < 2 ^ 64" and "list_all2 (sound_ref D f) (ce_live_segments e) segs"
    and "load (de_json D) (de_config D) (de_roaring D) segs = Inr ld"
  shows "\<exists>ci. inspect_entry D f e = Inr ci \<and> cf_name ci = ce_name e \<and> cf_aliases ci = ce_aliases e
    \<and> unat (cf_dimension ci) = co_dimension (ld_options ld) \<and> cf_embedding_provider ci = co_embedding_provider (ld_options ld)
    \<and> length (cf_segments ci) = length (ce_live_segments e)"
proof -
  obtain st c where st: "foldR (load_segment (de_json D) (de_config D) (de_roaring D)) load_state_empty segs = Inr st"
    "ls_stored st = Some c" "loaded_options st c = Inr (ld_options ld)"
    using assms(3) by (auto simp: load_def tryR_eq_Inr Let_def)
  obtain opts where "from_stored c = Inr opts" "ld_options ld = opts\<lparr>co_payload_indexes := ls_declared st\<rparr>"
    using st(3) by (auto simp: loaded_options_def tryR_eq_Inr)
  then have d: "co_dimension (ld_options ld) = unat (sc_dimension c)" "co_embedding_provider (ld_options ld) = sc_embedding_provider c"
    using from_stored_fields by auto
  have "ls_stored load_state_empty = None" by (simp add: load_state_empty_def)
  from inspect_segments_sound [OF assms(1,2) st(1) this] show ?thesis
    using st(2) d by (auto simp: inspect_entry_def)
qed

lemma open_readable:
  assumes "fs path = Some f" "\<not> de_locked D True path" "\<not> oc_read_only cfg"
  shows "(\<exists>P lo. snd (persistence_open D path cfg fs) = Inr (P, lo)) \<longleftrightarrow>
    (\<exists>h toc tail. read_committed (de_crc D) (de_toc D) f = Inr (h, toc, tail)
      \<and> (\<forall>e\<in>set (toc_collections toc). \<exists>x. open_entry D cfg
           (\<lparr>pg_open = True, pg_uuid = file_uuid h, pg_created_epoch_s = created_epoch_s h, pg_tail = tail, pg_path = path\<rparr>, f) e = Inr x))"
proof (cases "read_committed (de_crc D) (de_toc D) f")
  case (Inl e)
  then show ?thesis using assms by (simp add: persistence_open_def open_pager_def pager_open_def lock_file_def)
next
  case (Inr x)
  obtain h toc tail where x: "x = (h, toc, tail)" by (cases x)
  let ?p = "\<lparr>pg_open = True, pg_uuid = file_uuid h, pg_created_epoch_s = created_epoch_s h, pg_tail = tail, pg_path = path\<rparr>"
  have "(\<forall>e\<in>set (toc_collections toc). \<exists>x. open_entry D cfg (?p, f) e = Inr x)
      \<longleftrightarrow> (\<exists>xs. mapR (open_entry D cfg (?p, f)) (toc_collections toc) = Inr xs)"
    using mapR_Inl_iff [of "open_entry D cfg (?p, f)" "toc_collections toc"] by (metis sum.exhaust sum.simps(4))
  then show ?thesis
    using assms Inr x
    by (cases "mapR (open_entry D cfg (?p, f)) (toc_collections toc)")
      (simp_all add: persistence_open_def open_pager_def pager_open_def lock_file_def file_at_def Let_def case_prod_beta)
qed

lemma verified_entries:
  assumes "length f < 2 ^ 64" and "read_committed (de_crc D) (de_toc D) f = Inr (h, toc, tail)" and "e \<in> set (toc_collections toc)"
  shows "set (verify_entry D f e) \<subseteq> set (vr_findings (verify_bytes D f w))"
proof -
  obtain h' where h: "header_decode (de_crc D) f = Inr h'" "verify_toc (de_crc D) (de_toc D) f h' = ([], Some toc)"
    using verify_chain [OF assms(1), of "de_crc D" "de_toc D" toc] assms(2) by blast
  then show ?thesis using assms(3) by (auto simp: verify_bytes_def verify_header_def Let_def)
qed

subsection \<open>A committed file\<close>

lemma seg_at_sound:
  assumes "seg_at (de_compress D) (de_crc D) codec f r s" and "seg_ok (de_compress D) codec s" and "length f < 2 ^ 64"
  shows "sound_ref D f r s"
proof -
  from assms(1) obtain bs where e: "segment_encode (de_compress D) (de_crc D) s (codec_for (sg_type s) codec (length (sg_body s))) = Inr bs"
    and r: "unat (rf_len r) = length bs" "unat (rf_offset r) + length bs \<le> length f"
      "slice_of f (unat (rf_offset r)) (unat (rf_offset r) + length bs) = bs" "rf_type r = seg_to_byte (sg_type s)"
    by (auto simp: seg_at_def)
  have "segment_read (de_compress D) (de_crc D) bs 0 (rf_offset r) = Inr (s, length bs)"
    using assms(2,3) r(2) by (intro segment_read_encode [OF e, where rest = "[]"]) (simp_all add: seg_ok_def)
  then show ?thesis using r by (simp add: sound_ref_def)
qed

lemma committed_entry:
  assumes at: "coll_at (de_compress D) (de_crc D) codec f e cc" and ok: "\<forall>s\<in>set (cc_segments cc). seg_ok (de_compress D) codec s"
    and len: "length f < 2 ^ 64" and ld: "load (de_json D) (de_config D) (de_roaring D) (cc_segments cc) = Inr ld"
  shows "verify_entry D f e = [] \<and> (\<exists>ci. inspect_entry D f e = Inr ci \<and> cf_name ci = cc_name cc \<and> cf_aliases ci = cc_aliases cc
    \<and> unat (cf_dimension ci) = co_dimension (ld_options ld))"
proof -
  let ?segs = "sort_key sg_type (cc_segments cc)"
  have s: "list_all2 (sound_ref D f) (ce_live_segments e) ?segs"
    by (rule list.rel_mono_strong [OF coll_at_segments [OF at]]) (use ok len in \<open>auto intro: seg_at_sound\<close>)
  have l: "load (de_json D) (de_config D) (de_roaring D) ?segs = Inr ld" by (intro load_sorted ld) simp_all
  have e: "ce_name e = cc_name cc" "ce_aliases e = cc_aliases cc"
    using at by (auto simp: coll_at_def checkpoint_entry_def sort_replay_order_def)
  let ?p = "\<lparr>pg_open = True, pg_uuid = [], pg_created_epoch_s = 0, pg_tail = 0, pg_path = []\<rparr>"
  let ?c = "open_config_of (open_options_new\<lparr>oo_mmap := Some False\<rparr>)"
  have p: "pg_open ?p" "oc_mmap ?c = Some False" by (simp_all add: open_config_of_def)
  have all: "\<forall>r\<in>set (ce_live_segments e). ref_sound D f r"
    using s by (auto simp: ref_sound_def list_all2_conv_all_nth in_set_conv_nth) metis
  have "\<exists>x. open_entry D ?c (?p, f) e = Inr x" using open_entry_sound [OF s p] l by blast
  then have "verify_entry D f e = []" using all by (simp only: verify_entry_clean [OF len p])
  then show ?thesis using inspect_entry_sound [OF len s l] e by auto
qed

end
