(* ===== verification/Inspection_Props.thy ===== *)
theory Inspection_Props
  imports Inspection
begin

section \<open>What a diagnosis is worth\<close>

text \<open>
  \<open>verify\<close> and \<open>inspect\<close> decode a file with code of their own. Here they are compared with the reader that matters, the open
  of a database, and composed with the checkpoint that writes the file.
\<close>

definition refs_sound :: "disk_env \<Rightarrow> bytes \<Rightarrow> toc \<Rightarrow> bool" where
  "refs_sound D f toc \<longleftrightarrow> (\<forall>e\<in>set (toc_collections toc). \<forall>r\<in>set (ce_live_segments e). ref_sound D f r)"

definition committed_toc :: "disk_env \<Rightarrow> bytes \<Rightarrow> toc \<Rightarrow> bool" where
  "committed_toc D f toc \<longleftrightarrow> (\<exists>h tail. read_committed (de_crc D) (de_toc D) f = Inr (h, toc, tail))"

lemma verify_file_bytes:
  "fs path = Some f \<Longrightarrow> \<not> de_locked D False path \<Longrightarrow>
     verify_file D fs path = Inr (verify_bytes D f (scan_wal (de_crc D) fs path f))"
  by (simp add: verify_file_def lock_file_def)

text \<open>
  C37. The verdict of \<open>verify\<close> on the file layer: on a file that no other process has locked and that fits a 64-bit length,
  \<open>verify_file\<close> always reports, and it reports no finding exactly when the persistence layer of a writer with the mapping switched
  off opens the file, that is, reads its committed chain and loads every collection, and every segment has the type and the length
  the TOC gives it. Installing the loaded collections and replaying the log are the database's part of an open and no part of
  the verdict: they can still fail on a file with a clean report.
\<close>

theorem verify_decides_open:
  assumes "fs path = Some f" and "length f < 2 ^ 64" and "\<not> de_locked D False path" "\<not> de_locked D True path"
    and "oc_mmap cfg = Some False" and "\<not> oc_read_only cfg"
  shows "\<exists>report. verify_file D fs path = Inr report
    \<and> (vr_findings report = [] \<longleftrightarrow>
        (\<exists>P lo. snd (persistence_open D path cfg fs) = Inr (P, lo)) \<and> (\<exists>toc. committed_toc D f toc \<and> refs_sound D f toc))"
proof -
  let ?p = "\<lambda>h tail. \<lparr>pg_open = True, pg_uuid = file_uuid h, pg_created_epoch_s = created_epoch_s h, pg_tail = tail, pg_path = path\<rparr>"
  have e: "verify_entry D f e = [] \<longleftrightarrow> (\<forall>r\<in>set (ce_live_segments e). ref_sound D f r)
      \<and> (\<exists>x. open_entry D cfg (?p h tail, f) e = Inr x)" for e h tail
    by (rule verify_entry_clean) (use assms(2,5) in simp_all)
  have "vr_findings (verify_bytes D f (scan_wal (de_crc D) fs path f)) = [] \<longleftrightarrow>
      (\<exists>P lo. snd (persistence_open D path cfg fs) = Inr (P, lo)) \<and> (\<exists>toc. committed_toc D f toc \<and> refs_sound D f toc)"
  proof (cases "read_committed (de_crc D) (de_toc D) f")
    case (Inl err)
    then show ?thesis by (simp add: verify_bytes_clean [OF assms(2)] committed_toc_def)
  next
    case (Inr x)
    obtain h toc tail where x: "x = (h, toc, tail)" by (cases x)
    have "vr_findings (verify_bytes D f (scan_wal (de_crc D) fs path f)) = [] \<longleftrightarrow>
        (\<forall>e\<in>set (toc_collections toc). verify_entry D f e = [])"
      using Inr by (simp add: verify_bytes_clean [OF assms(2)] x)
    also have "\<dots> \<longleftrightarrow> refs_sound D f toc \<and> (\<forall>e\<in>set (toc_collections toc). \<exists>x. open_entry D cfg (?p h tail, f) e = Inr x)"
      unfolding e [of _ h tail] refs_sound_def by blast
    also have "\<dots> \<longleftrightarrow> (\<exists>P lo. snd (persistence_open D path cfg fs) = Inr (P, lo)) \<and> (\<exists>toc. committed_toc D f toc \<and> refs_sound D f toc)"
      using Inr by (auto simp: open_readable [where D = D and fs = fs and path = path and cfg = cfg, OF assms(1,4,6)] x committed_toc_def)
    finally show ?thesis .
  qed
  then show ?thesis using verify_file_bytes [where fs = fs and path = path and D = D, OF assms(1,3)] by simp
qed

text \<open>
  C38. Damage is reported where it is: when the committed TOC lists a segment whose bytes are not one intact segment of the
  recorded type and length, \<open>verify_file\<close> has a finding with exactly that segment's offset, its type name and the name of
  its collection, whatever else is damaged.
\<close>

theorem verify_names_damage:
  assumes "fs path = Some f" and "length f < 2 ^ 64" and "\<not> de_locked D False path"
    and "committed_toc D f toc" and "e \<in> set (toc_collections toc)" and "r \<in> set (ce_live_segments e)" and "\<not> ref_sound D f r"
  shows "\<exists>report x. verify_file D fs path = Inr report \<and> x \<in> set (vr_findings report) \<and> fd_offset x = rf_offset r
    \<and> fd_segment_type x = Some (seg_type_name (rf_type r)) \<and> fd_collection x = Some (ce_name e)"
proof -
  obtain fs' segs d where v: "verify_segments (de_compress D) (de_crc D) f (ce_name e) (ce_live_segments e) = (fs', segs, d)"
    by (metis prod_cases3)
  note s = verify_segments_spec [OF assms(2) v]
  have "d" using s assms(6,7) by blast
  then have "verify_entry D f e = fs'" by (simp add: verify_entry_def v)
  moreover obtain x where "x \<in> set fs'" "fd_offset x = rf_offset r" "fd_segment_type x = Some (seg_type_name (rf_type r))"
    "fd_collection x = Some (ce_name e)" using s assms(6,7) by blast
  moreover obtain h tail where "read_committed (de_crc D) (de_toc D) f = Inr (h, toc, tail)"
    using assms(4) by (auto simp: committed_toc_def)
  ultimately show ?thesis
    using verified_entries [OF assms(2) _ assms(5), of D h tail "scan_wal (de_crc D) fs path f"] verify_file_bytes [of fs path f D] assms(1,3)
    by blast
qed

subsection \<open>After a checkpoint\<close>

lemma committed_uuid:
  assumes "read_committed crc M f = Inr (h, toc, tail)"
  shows "64 \<le> length f \<and> slice_of f 48 56 = take 8 (file_uuid h)"
proof -
  have l: "HEADER_SIZE \<le> length f" and "header_decode crc (take HEADER_SIZE f) = Inr h"
    using assms by (auto simp: read_committed_def tryR_eq_Inr Let_def split: if_splits)
  then have "header_decode crc f = Inr h" by (simp add: header_decode_take)
  then have "file_uuid h = slice_of f 48 64" by (auto simp: header_decode_def tryR_eq_Inr split: if_splits)
  then show ?thesis using l by (simp add: HEADER_SIZE_def slice_of_def min_def)
qed

lemma scan_wal_empty:
  assumes on: "durable_on D (P, fs) h t []" and "fs (wal_path (db_path P)) = Some (file_at fs (wal_path (db_path P)))"
  shows "scan_wal (de_crc D) fs (db_path P) (file_at fs (db_path P)) = WalScanned 0 False"
proof -
  have "read_committed (de_crc D) (de_toc D) (file_at fs (db_path P)) = Inr (h, t, pg_tail (jn_pager (ps_journal P)))"
    using on by (simp add: durable_on_def pager_on_def)
  note u = committed_uuid [OF this]
  have "encoded_log (de_crc D) (take 8 (file_uuid h)) [] (file_at fs (wal_path (db_path P)))"
    using on by (auto simp: durable_on_def wal_holds_def wal_file_def)
  from wal_scan_clean [OF this] show ?thesis using assms(2) u by (simp add: scan_wal_def Let_def)
qed

lemma inspect_committed:
  assumes "fs path = Some f" "\<not> de_locked D False path" "length f < 2 ^ 64"
    and rc: "read_committed (de_crc D) (de_toc D) f = Inr (h, toc, tail)"
    and es: "mapR (inspect_entry D f) (toc_collections toc) = Inr cis"
  shows "\<exists>info. inspect_file D fs path = Inr info \<and> nr_collections info = cis \<and> nr_generation info = toc_generation toc"
proof -
  have l: "HEADER_SIZE \<le> length f" and h: "header_decode (de_crc D) (take HEADER_SIZE f) = Inr h"
    and r: "unat (toc_offset h) + unat (toc_len h) \<le> length f"
      "de_crc D (slice_of f (unat (toc_offset h)) (unat (toc_offset h) + unat (toc_len h))) = toc_crc32 h"
      "toc_decode (de_toc D) (slice_of f (unat (toc_offset h)) (unat (toc_offset h) + unat (toc_len h))) = Inr toc"
    using rc by (auto simp: read_committed_def tryR_eq_Inr Let_def not_less split: if_splits)
  then show ?thesis
    using assms(1,2) es h by (simp add: inspect_file_def lock_file_def header_decode_take range_end_small [OF assms(3)] Let_def)
qed

definition summary :: "collection_info \<Rightarrow> string \<times> string list \<times> nat" where
  "summary ci = (cf_name ci, cf_aliases ci, unat (cf_dimension ci))"

text \<open>The entries a commit wrote for storable collections, each diagnosed.\<close>

definition sealed_summary :: "'q collection \<Rightarrow> string \<times> string list \<times> nat" where
  "sealed_summary c = (cl_name c, cl_aliases c, co_dimension (cl_config c))"

lemma committed_entries:
  assumes "list_all2 (coll_committed (de_compress D) (de_crc D) Codec_Lz4 f) es ccs"
    and "list_all2 (\<lambda>c cc. seal_collection D ops True E c = Inr cc) cs ccs"
    and "\<forall>c\<in>set cs. storable D jl c" and "\<forall>cc\<in>set ccs. \<forall>s\<in>set (cc_segments cc). seg_ok (de_compress D) Codec_Lz4 s"
    and len: "length f < 2 ^ 64"
  shows "(\<forall>e\<in>set es. verify_entry D f e = []) \<and> (\<exists>cis. mapR (inspect_entry D f) es = Inr cis \<and> map summary cis = map sealed_summary cs)"
  using assms(1-4)
proof (induction es ccs arbitrary: cs rule: list_all2_induct)
  case (Cons e es cc ccs)
  obtain c cs' where cs: "cs = c # cs'" "seal_collection D ops True E c = Inr cc"
    "list_all2 (\<lambda>c cc. seal_collection D ops True E c = Inr cc) cs' ccs"
    using Cons.prems(1) by (auto simp: list_all2_Cons2)
  have st: "storable D jl c" using Cons.prems(2) cs(1) by simp
  note l = sealed_loads [OF st cs(2)]
  have at: "coll_at (de_compress D) (de_crc D) Codec_Lz4 f e cc" using Cons.hyps(1) l by (simp add: coll_committed_def)
  note c = committed_entry [OF at _ len conjunct2 [OF conjunct2 [OF conjunct2 [OF conjunct2 [OF l]]]]]
  have "verify_entry D f e = [] \<and> (\<exists>ci. inspect_entry D f e = Inr ci \<and> summary ci = sealed_summary c)"
    using c Cons.prems(3) l by (auto simp: summary_def sealed_summary_def saved_options_def)
  then show ?case using Cons.IH [OF cs(3)] Cons.prems(2,3) cs(1) by auto
qed simp

lemma checkpoint_diagnosed:
  fixes db :: "('q, 'e) database"
  assumes inv: "reg_inv db" and st: "\<forall>r\<in>set (live_cells db). storable D jl (cell db r)"
    and on: "durable_on D (P, fs) h t es"
    and se: "sealed_live_collections D ops True db = Inr colls" and ok: "\<forall>cc\<in>set colls. \<forall>s\<in>set (cc_segments cc). seg_ok (de_compress D) Codec_Lz4 s"
    and co: "commit D colls (P, fs) = (Inr (Some toc), P1, fs1)" and toc: "mp_carries (de_toc D) toc"
    and fl: "length (file_at fs (db_path P)) < 2 ^ 64" and tl: "pg_tail (jn_pager (ps_journal P1)) < 2 ^ 64"
    and lock: "\<not> de_locked D False (db_path P)"
  shows "\<exists>report info. verify_file D fs1 (db_path P) = Inr report \<and> vr_findings report = [] \<and> vr_wal report = WalScanned 0 False
    \<and> inspect_file D fs1 (db_path P) = Inr info \<and> nr_generation info = toc_generation toc
    \<and> map summary (nr_collections info)
      = map (\<lambda>(n, r). (n, cl_aliases (cell db r), co_dimension (cl_config (cell db r)))) (db_collections db)"
proof -
  let ?cs = "map (\<lambda>(n, r). cell db r) (db_collections db)" and ?f = "file_at fs1 (db_path P)"
  have cells: "live_cells db = map snd (db_collections db)" using inv by (rule live_cells_all)
  have storable: "\<forall>c\<in>set ?cs. storable D jl c" using st by (auto simp: cells)
  have sealed: "list_all2 (\<lambda>c cc. seal_collection D ops True (db_embedders db) c = Inr cc) ?cs colls"
    using mapR_InrD [OF se [unfolded sealed_live_collections_def]] by (simp add: cells list_all2_map1 case_prod_beta)
  obtain h' where h': "db_path P1 = db_path P" "durable_on D (P1, fs1) h' toc []"
    "list_all2 (coll_committed (de_compress D) (de_crc D) Codec_Lz4 ?f) (toc_collections toc) colls"
    "fs1 (db_path P) = Some ?f" "fs1 (wal_path (db_path P)) = Some (file_at fs1 (wal_path (db_path P)))"
    "length ?f = max (pg_tail (jn_pager (ps_journal P1))) (length (file_at fs (db_path P)))"
    using commit_committed [OF on co tl toc] by blast
  have len: "length ?f < 2 ^ 64" using h'(6) fl tl by simp
  have rc: "read_committed (de_crc D) (de_toc D) ?f = Inr (h', toc, pg_tail (jn_pager (ps_journal P1)))"
    using h'(1,2) by (simp add: durable_on_def pager_on_def)
  obtain cis where c: "\<forall>e\<in>set (toc_collections toc). verify_entry D ?f e = []"
    "mapR (inspect_entry D ?f) (toc_collections toc) = Inr cis" "map summary cis = map sealed_summary ?cs"
    using committed_entries [OF h'(3) sealed storable ok len] by blast
  have names: "map cl_name ?cs = map fst (db_collections db)" using registered_mem [OF inv] by auto
  have "map sealed_summary ?cs
      = map (\<lambda>(n, r). (n, cl_aliases (cell db r), co_dimension (cl_config (cell db r)))) (db_collections db)"
    using names by (auto simp: map_eq_conv sealed_summary_def)
  moreover have "vr_findings (verify_bytes D ?f w) = []" for w using c(1) rc by (simp add: verify_bytes_clean [OF len])
  moreover have "vr_wal (verify_bytes D ?f w) = w" for w by (simp add: verify_bytes_def Let_def case_prod_beta)
  ultimately show ?thesis
    using verify_file_bytes [of fs1 "db_path P" ?f D, OF h'(4) lock] inspect_committed [of fs1 "db_path P" ?f D, OF h'(4) lock len rc c(2)]
      scan_wal_empty [of D P1 fs1 h' toc] h' c(3) by auto
qed

text \<open>
  C39. What a checkpoint writes is diagnosed as sound. Under the conditions of the reopen after a checkpoint (collections without a
  provider, none carried forward, points that are accepted again, packages that carry what is sealed), when a checkpoint seals the
  live collections of a database and commits them, \<open>verify_file\<close> has no finding and sees an empty log, and \<open>inspect_file\<close> lists exactly the registered collections, each
  with its name, its aliases and its dimension, under the generation that was committed.
\<close>

theorem checkpoint_verifies_clean:
  fixes db :: "('q, 'e) database"
  assumes "reg_inv db" and "\<forall>r\<in>set (live_cells db). storable D jl (cell db r)"
    and "durable_on D (P, fs) h t es"
    and "sealed_live_collections D ops True db = Inr colls" and "\<forall>cc\<in>set colls. \<forall>s\<in>set (cc_segments cc). seg_ok (de_compress D) Codec_Lz4 s"
    and "commit D colls (P, fs) = (Inr (Some toc), P1, fs1)" and "mp_carries (de_toc D) toc"
    and "length (file_at fs (db_path P)) < 2 ^ 64" and "pg_tail (jn_pager (ps_journal P1)) < 2 ^ 64"
    and "\<not> de_locked D False (db_path P)"
  shows "\<exists>report info. verify_file D fs1 (db_path P) = Inr report \<and> vr_findings report = [] \<and> vr_wal report = WalScanned 0 False
    \<and> inspect_file D fs1 (db_path P) = Inr info \<and> nr_generation info = toc_generation toc
    \<and> map summary (nr_collections info)
      = map (\<lambda>(n, r). (n, cl_aliases (cell db r), co_dimension (cl_config (cell db r)))) (db_collections db)"
  using assms by (rule checkpoint_diagnosed)

lemma one_unlocked: "\<not> de_locked (one_env M) b p"
  by (simp add: one_env_def)

theorem checkpoint_verifies_clean_witness:
  "\<exists>M colls toc s s1 report info.
     commit (one_env M) colls s = (Inr (Some toc), s1)
     \<and> verify_file (one_env M) (snd s1) (db_path one_ps) = Inr report \<and> vr_findings report = []
     \<and> inspect_file (one_env M) (snd s1) (db_path one_ps) = Inr info \<and> map summary (nr_collections info) = [(''c'', [], 2)]"
proof -
  obtain M cc toc fs h P1 fs1 where w: "durable_on (one_env M) (one_ps, fs) h (empty_toc 4096) []"
    "sealed_live_collections (one_env M) unit_embedder True one_db = Inr [cc]"
    "\<forall>cc\<in>set [cc]. \<forall>s\<in>set (cc_segments cc). seg_ok (de_compress (one_env M)) Codec_Lz4 s"
    "commit (one_env M) [cc] (one_ps, fs) = (Inr (Some toc), P1, fs1)" "mp_carries (de_toc (one_env M)) toc"
    "length (file_at fs (db_path one_ps)) < 2 ^ 64" "pg_tail (jn_pager (ps_journal P1)) < 2 ^ 64"
    and st: "\<forall>r\<in>set (live_cells one_db). storable (one_env M) (\<lambda>_. 0) (cell one_db r)" by (rule one_checkpoint)
  have "map (\<lambda>(n, r). (n, cl_aliases (cell one_db r), co_dimension (cl_config (cell one_db r)))) (db_collections one_db) = [(''c'', [], 2)]"
    by (simp add: one_db_def logged_db_def cell_def one_coll_fields options_new_def)
  then show ?thesis
    using checkpoint_verifies_clean [OF one_db_inv st w one_unlocked] w(4) by fastforce
qed

theorem verify_decides_open_witness:
  "\<exists>M fs report P lo. verify_file (one_env M) fs (db_path one_ps) = Inr report \<and> vr_findings report = []
     \<and> snd (persistence_open (one_env M) (db_path one_ps) (open_config_of (open_options_new\<lparr>oo_mmap := Some False\<rparr>)) fs) = Inr (P, lo)"
proof -
  obtain M cc toc fs h P1 fs1 where w: "durable_on (one_env M) (one_ps, fs) h (empty_toc 4096) []"
    "sealed_live_collections (one_env M) unit_embedder True one_db = Inr [cc]"
    "\<forall>cc\<in>set [cc]. \<forall>s\<in>set (cc_segments cc). seg_ok (de_compress (one_env M)) Codec_Lz4 s"
    "commit (one_env M) [cc] (one_ps, fs) = (Inr (Some toc), P1, fs1)" "mp_carries (de_toc (one_env M)) toc"
    "length (file_at fs (db_path one_ps)) < 2 ^ 64" "pg_tail (jn_pager (ps_journal P1)) < 2 ^ 64"
    and st: "\<forall>r\<in>set (live_cells one_db). storable (one_env M) (\<lambda>_. 0) (cell one_db r)" by (rule one_checkpoint)
  obtain report where r: "verify_file (one_env M) fs1 (db_path one_ps) = Inr report" "vr_findings report = []"
    using checkpoint_diagnosed [OF one_db_inv st w one_unlocked] by blast
  obtain f where f: "fs1 (db_path one_ps) = Some f" "length f < 2 ^ 64"
    using commit_committed [OF w(1,4,7,5)] w(6,7) by auto
  have "oc_mmap (open_config_of (open_options_new\<lparr>oo_mmap := Some False\<rparr>)) = Some False"
    "\<not> oc_read_only (open_config_of (open_options_new\<lparr>oo_mmap := Some False\<rparr>))"
    by (simp_all add: open_config_of_def open_options_new_def open_options_default_def)
  from verify_decides_open [where D = "one_env M" and fs = fs1 and path = "db_path one_ps", OF f one_unlocked one_unlocked this]
  obtain P lo where "snd (persistence_open (one_env M) (db_path one_ps) (open_config_of (open_options_new\<lparr>oo_mmap := Some False\<rparr>)) fs1) = Inr (P, lo)"
    using r by auto
  then show ?thesis using r by blast
qed

text \<open>A committed TOC whose one collection names a VECTORS segment behind the end of the file.\<close>

definition lost_coll :: checkpoint_coll where
  "lost_coll = \<lparr>cc_coll_id = 1, cc_name = ''c'', cc_aliases = [], cc_vector_count = 1, cc_tombstone_count = 0, cc_segments = [],
     cc_reused = Some [\<lparr>rf_type = 2, rf_offset = 8192, rf_len = 64\<rparr>]\<rparr>"

definition lost_toc :: toc where
  "lost_toc = \<lparr>toc_generation = 0, toc_collections = [checkpoint_entry lost_coll [\<lparr>rf_type = 2, rf_offset = 8192, rf_len = 64\<rparr>]],
     toc_free_tail_offset = 4096\<rparr>"

lemma lost_file:
  obtains f where "committed_toc (one_env (two_docs lost_toc lost_toc)) f lost_toc" "length f = 4097"
proof -
  let ?M = "two_docs lost_toc lost_toc"
  obtain ops where c: "checkpoint_ops id_compressors sum_crc ?M (pager_at 4096) 0 [lost_coll] Codec_None 0 = (ops, Inr (lost_toc, 4097))"
    by (auto simp: checkpoint_ops_def lost_toc_def lost_coll_def toc_encode_def Let_def pager_at_def two_docs_enc)
  have "\<exists>h. read_committed sum_crc ?M (run_ops ops []) = Inr (h, lost_toc, 4097)
     \<and> file_uuid h = pg_uuid (pager_at 4096) \<and> created_epoch_s h = pg_created_epoch_s (pager_at 4096)
     \<and> HEADER_SIZE \<le> unat (toc_offset h)
     \<and> list_all2 (coll_committed id_compressors sum_crc Codec_None (run_ops ops [])) (toc_collections lost_toc) [lost_coll]"
    by (rule checkpoint_commits [OF c]) (simp_all add: pager_at_def HEADER_SIZE_def)
  moreover have "length (run_ops ops []) = 4097"
    using checkpoint_length [OF c] by (simp add: pager_at_def HEADER_SIZE_def)
  ultimately show thesis using that by (auto simp: committed_toc_def one_env_def)
qed

theorem verify_names_damage_witness:
  "\<exists>D fs report x. verify_file D fs ''db'' = Inr report \<and> x \<in> set (vr_findings report) \<and> fd_offset x = 8192
    \<and> fd_segment_type x = Some ''vectors'' \<and> fd_collection x = Some ''c''"
proof -
  let ?D = "one_env (two_docs lost_toc lost_toc)" and ?r = "\<lparr>rf_type = 2, rf_offset = 8192, rf_len = 64\<rparr> :: seg_ref"
  obtain f where f: "committed_toc ?D f lost_toc" "length f = 4097" by (rule lost_file)
  have "\<not> ref_sound ?D f ?r" using f(2) by (simp add: ref_sound_def sound_ref_def)
  moreover have "checkpoint_entry lost_coll [?r] \<in> set (toc_collections lost_toc)" "?r \<in> set (ce_live_segments (checkpoint_entry lost_coll [?r]))"
    "ce_name (checkpoint_entry lost_coll [?r]) = ''c''"
    by (simp_all add: lost_toc_def checkpoint_entry_def sort_replay_order_def lost_coll_def)
  moreover have "seg_type_name 2 = ''vectors''" by (simp add: seg_type_name_def seg_from_byte_def)
  ultimately show ?thesis
    using verify_names_damage [of "[''db'' \<mapsto> f]" "''db''" f ?D, OF _ _ one_unlocked f(1)] f(2) by fastforce
qed

end
