(* ===== verification/Queries.thy ===== *)
theory Queries
  imports Text_Ops
begin

section \<open>Query builders (\<open>query.rs\<close>, \<open>hybrid.rs\<close>)\<close>

text \<open>
  A builder is plain data. Its setters replace one field; \<open>run\<close> is the only method that reaches the collection, through
  \<open>execute_query\<close> or \<open>execute_hybrid\<close>. The collection a builder borrows is the argument of \<open>run\<close>.
\<close>

definition DEFAULT_LIMIT :: nat where "DEFAULT_LIMIT = 10"
definition DEFAULT_ALPHA :: f32 where "DEFAULT_ALPHA = 0x3F000000"
definition DEFAULT_RRF_K :: f32 where "DEFAULT_RRF_K = 0x42700000"

record query_builder =
  qb_vector :: "f32 list"
  qb_limit :: nat
  qb_ef_search :: "nat option"
  qb_with_payload :: bool
  qb_with_vector :: bool
  qb_filter :: "filter option"

definition query_builder_new :: "f32 list \<Rightarrow> query_builder" where
  "query_builder_new vector = \<lparr>qb_vector = vector, qb_limit = DEFAULT_LIMIT, qb_ef_search = None, qb_with_payload = True,
     qb_with_vector = False, qb_filter = None\<rparr>"

definition query_limit :: "nat \<Rightarrow> query_builder \<Rightarrow> query_builder" where
  "query_limit n q = q\<lparr>qb_limit := n\<rparr>"

definition query_ef_search :: "nat \<Rightarrow> query_builder \<Rightarrow> query_builder" where
  "query_ef_search n q = q\<lparr>qb_ef_search := Some n\<rparr>"

definition query_with_payload :: "bool \<Rightarrow> query_builder \<Rightarrow> query_builder" where
  "query_with_payload b q = q\<lparr>qb_with_payload := b\<rparr>"

definition query_with_vector :: "bool \<Rightarrow> query_builder \<Rightarrow> query_builder" where
  "query_with_vector b q = q\<lparr>qb_with_vector := b\<rparr>"

definition query_filter :: "filter \<Rightarrow> query_builder \<Rightarrow> query_builder" where
  "query_filter f q = q\<lparr>qb_filter := Some f\<rparr>"

definition query_run ::
  "('e, 's) env \<Rightarrow> query_builder \<Rightarrow> 'q collection \<Rightarrow> 'e list \<Rightarrow> 's \<Rightarrow> hit list res \<times> 'q collection \<times> 'e list \<times> 's" where
  "query_run V q = execute_query V (qb_vector q) (qb_limit q) (qb_ef_search q) (qb_with_payload q) (qb_with_vector q) (qb_filter q)"

subsection \<open>Hybrid queries\<close>

record hybrid_query =
  hq_dense :: "f32 list option"
  hq_sparse :: "sparse_vector option"
  hq_text :: "string option"
  hq_alpha :: f32
  hq_rrf_k :: f32
  hq_limit :: nat
  hq_with_payload :: bool
  hq_with_vector :: bool
  hq_filter :: "filter option"

definition hybrid_query_new :: hybrid_query where
  "hybrid_query_new = \<lparr>hq_dense = None, hq_sparse = None, hq_text = None, hq_alpha = DEFAULT_ALPHA, hq_rrf_k = DEFAULT_RRF_K,
     hq_limit = DEFAULT_LIMIT, hq_with_payload = True, hq_with_vector = False, hq_filter = None\<rparr>"

definition hybrid_text :: "string \<Rightarrow> hybrid_query \<Rightarrow> hybrid_query" where
  "hybrid_text t q = q\<lparr>hq_text := Some t\<rparr>"

definition hybrid_dense :: "f32 list \<Rightarrow> hybrid_query \<Rightarrow> hybrid_query" where
  "hybrid_dense v q = q\<lparr>hq_dense := Some v\<rparr>"

definition hybrid_sparse :: "sparse_vector \<Rightarrow> hybrid_query \<Rightarrow> hybrid_query" where
  "hybrid_sparse s q = q\<lparr>hq_sparse := Some s\<rparr>"

definition hybrid_alpha :: "f32 \<Rightarrow> hybrid_query \<Rightarrow> hybrid_query" where
  "hybrid_alpha a q = q\<lparr>hq_alpha := a\<rparr>"

definition hybrid_rrf_k :: "f32 \<Rightarrow> hybrid_query \<Rightarrow> hybrid_query" where
  "hybrid_rrf_k k q = q\<lparr>hq_rrf_k := k\<rparr>"

definition hybrid_limit :: "nat \<Rightarrow> hybrid_query \<Rightarrow> hybrid_query" where
  "hybrid_limit n q = q\<lparr>hq_limit := n\<rparr>"

definition hybrid_with_payload :: "bool \<Rightarrow> hybrid_query \<Rightarrow> hybrid_query" where
  "hybrid_with_payload b q = q\<lparr>hq_with_payload := b\<rparr>"

definition hybrid_with_vector :: "bool \<Rightarrow> hybrid_query \<Rightarrow> hybrid_query" where
  "hybrid_with_vector b q = q\<lparr>hq_with_vector := b\<rparr>"

definition hybrid_filter :: "filter \<Rightarrow> hybrid_query \<Rightarrow> hybrid_query" where
  "hybrid_filter f q = q\<lparr>hq_filter := Some f\<rparr>"

text \<open>A text supplies both lanes and overrides the explicit ones; when no term of it is known, nothing matches.\<close>

definition hybrid_run ::
  "('e, 's) env \<Rightarrow> hybrid_query \<Rightarrow> 'q collection \<Rightarrow> 'e list \<Rightarrow> 's \<Rightarrow> hit list res \<times> 'q collection \<times> 'e list \<times> 's" where
  "hybrid_run V q c E s =
     (case hq_text q of
        Some query \<Rightarrow>
          (case embed_for_hybrid V query c E s of
             (Inl e, c1, E1, s1) \<Rightarrow> (Inl e, c1, E1, s1)
           | (Inr (dense, sparse), c1, E1, s1) \<Rightarrow>
               if 0 < hq_limit q \<and> (\<forall>x\<in>set dense. f32_eq x 0) \<and> sparse = None then (Inr [], c1, E1, s1)
               else execute_hybrid V (Some dense) sparse (f32_clamp 0 f32_one (hq_alpha q)) (hq_rrf_k q) (hq_limit q)
                      (hq_with_payload q) (hq_with_vector q) (hq_filter q) c1 E1 s1)
      | None \<Rightarrow>
          execute_hybrid V (hq_dense q) (hq_sparse q) (f32_clamp 0 f32_one (hq_alpha q)) (hq_rrf_k q) (hq_limit q)
            (hq_with_payload q) (hq_with_vector q) (hq_filter q) c E s)"

subsection \<open>The builders and the one-call forms\<close>

lemma query_run_search: "query_run V (query_limit n (query_builder_new v)) c E s = search V v n c E s"
  by (simp add: query_run_def query_limit_def query_builder_new_def search_def)

text \<open>A second setter of the same field wins; setters of different fields do not disturb each other.\<close>

lemma query_setters:
  "query_limit n (query_limit m q) = query_limit n q" "query_limit n (query_filter f q) = query_filter f (query_limit n q)"
  "query_limit n (query_ef_search e q) = query_ef_search e (query_limit n q)"
  "query_with_payload b (query_with_vector b' q) = query_with_vector b' (query_with_payload b q)"
  by (simp_all add: query_limit_def query_filter_def query_ef_search_def query_with_payload_def query_with_vector_def)

text \<open>A hybrid query without a lane is refused, whatever else was set, and without touching the collection.\<close>

lemma hybrid_no_lane:
  assumes "hq_dense q = None" "hq_sparse q = None" "hq_text q = None" "0 < hq_limit q" "guard c = Inr ()"
  shows "hybrid_run V q c E s = (Inl (InvalidArgument ''a hybrid query needs at least one lane (dense or sparse)''), c, E, s)"
  using assms by (simp add: hybrid_run_def execute_hybrid_def run_hybrid_def)

text \<open>The lanes set by hand do not matter once there is a text.\<close>

lemma hybrid_text_overrides:
  "hybrid_run V (hybrid_text t (hybrid_dense v (hybrid_sparse sv q))) c E s = hybrid_run V (hybrid_text t q) c E s"
proof -
  let ?a = "hybrid_text t (hybrid_dense v (hybrid_sparse sv q))" and ?b = "hybrid_text t q"
  have "hq_text ?a = Some t" "hq_text ?b = Some t" "hq_limit ?a = hq_limit ?b" "hq_alpha ?a = hq_alpha ?b" "hq_rrf_k ?a = hq_rrf_k ?b"
    "hq_with_payload ?a = hq_with_payload ?b" "hq_with_vector ?a = hq_with_vector ?b" "hq_filter ?a = hq_filter ?b"
    by (simp_all add: hybrid_text_def hybrid_dense_def hybrid_sparse_def)
  then show ?thesis by (simp only: hybrid_run_def option.case)
qed

text \<open>A zero limit is refused on every path.\<close>

lemma hybrid_zero_limit:
  assumes "hybrid_run V (hybrid_limit 0 q) c E s = (r, c', E', s')"
  shows "\<exists>e. r = Inl e"
proof (cases "hq_text q")
  case None
  then show ?thesis using assms
    by (auto simp: hybrid_run_def hybrid_limit_def execute_hybrid_def tryR_def split: sum.splits prod.splits)
next
  case (Some t)
  obtain r1 c1 E1 s1 where "embed_for_hybrid V t c E s = (r1, c1, E1, s1)" by (metis prod_cases4)
  then show ?thesis using assms Some
    by (cases r1) (auto simp: hybrid_run_def hybrid_limit_def execute_hybrid_def tryR_def split: sum.splits prod.splits)
qed

text \<open>The two text entry points agree when no term of the query is known: no hit, no error, for every metric and limit.\<close>

lemma zero_no_sparse: "sparse_from_dense v = None \<longleftrightarrow> (\<forall>x\<in>set v. f32_eq x 0)"
proof -
  have "set v = snd ` set (enumerate 0 v)" by (simp flip: set_map)
  then show ?thesis by (simp add: sparse_from_dense_def Let_def filter_empty_conv case_prod_beta)
qed

lemma unknown_text_agrees:
  assumes e: "embed_for_hybrid V t c E s = (Inr (v, sp), c1, E1, s1)" and z: "\<forall>x\<in>set v. f32_eq x 0" and n: "0 < n" "hq_limit q = n"
  shows "hybrid_run V (hybrid_text t q) c E s = (Inr [], c1, E1, s1) \<and> search_text V t n c E s = (Inr [], c1, E1, s1)"
proof -
  obtain r where r: "tryR (guard c) (\<lambda>_. text_embedder c) = Inr r" "refit_if_dirty_step V c E s = (Inr (), c1, E1, s1)"
    "em_embed (ev_emb V) (E1 ! r) t = Inr v" "sp = sparse_from_dense v"
    using e by (auto simp: embed_for_hybrid_def tryR_eq_Inr split: sum.splits prod.splits)
  have "sp = None" using z by (simp add: r(4) zero_no_sparse)
  then show ?thesis using e z n r(1-3) by (simp add: hybrid_run_def hybrid_text_def search_text_def)
qed

end
