(* ===== verification/Quantize.thy ===== *)
theory Quantize
  imports Simd
begin

unbundle bit_operations_syntax

section \<open>Quantization (\<open>quantization/\<close>)\<close>

text \<open>
  The vector encodings: scalar codes of 8, 4, 2 or 1 bit and binary codes. Codes narrower than a byte are packed from the low
  bits up. Parameters are the values the code derives them from; the order of equal floats in a minimum or a sort is that of
  the stable order on bit patterns. The product encoding is the theory \<open>Product\<close>.
\<close>

datatype quantization_type = Type_Scalar u8 | Type_Product | Type_Binary | Type_None

definition quantization_type_text :: "quantization_type \<Rightarrow> string" where
  "quantization_type_text t =
     (case t of
        Type_Scalar bits \<Rightarrow> ''Scalar-'' @ show_nat (unat bits) @ ''bit''
      | Type_Product \<Rightarrow> ''Product''
      | Type_Binary \<Rightarrow> ''Binary''
      | Type_None \<Rightarrow> ''None'')"

datatype quantization_error =
    InvalidParameters string
  | QualityThresholdNotMet f32 f32
  | MemoryAllocationFailed string
  | SerializationFailed string
  | DeserializationFailed string
  | MethodNotSupported string
  | CodeDimensionMismatch nat nat
  | Internal string

text \<open>The text of an error; \<open>fmt\<close> prints a float with three decimals.\<close>

definition quantization_error_text :: "(f32 \<Rightarrow> string) \<Rightarrow> quantization_error \<Rightarrow> string" where
  "quantization_error_text fmt e =
     (case e of
        InvalidParameters m \<Rightarrow> ''Invalid quantization parameters: '' @ m
      | QualityThresholdNotMet actual threshold \<Rightarrow> ''Quality threshold not met: '' @ fmt actual @ '' < '' @ fmt threshold
      | MemoryAllocationFailed m \<Rightarrow> ''Memory allocation failed: '' @ m
      | SerializationFailed m \<Rightarrow> ''Serialization failed: '' @ m
      | DeserializationFailed m \<Rightarrow> ''Deserialization failed: '' @ m
      | MethodNotSupported m \<Rightarrow> ''Quantization method not supported: '' @ m
      | CodeDimensionMismatch expected actual \<Rightarrow>
          ''Vector dimension mismatch: expected '' @ show_nat expected @ '', got '' @ show_nat actual
      | Internal m \<Rightarrow> ''Internal quantization error: '' @ m)"

type_synonym 'a qres = "quantization_error + 'a"

datatype quantization_params =
    Params_Scalar u8 f32 f32 f32
  | Params_Product nat nat nat "f32 list list list"
  | Params_Binary f32

record quantized_vectors =
  qv_data :: bytes
  qv_dimension :: nat
  qv_count :: nat
  qv_parameters :: quantization_params

text \<open>\<open>slice::chunks\<close>: consecutive pieces of \<open>n\<close> items, the last one shorter.\<close>

function chunks :: "nat \<Rightarrow> 'a list \<Rightarrow> 'a list list" where
  "chunks n xs = (if xs = [] \<or> n = 0 then [] else take n xs # chunks n (drop n xs))"
  by pat_completeness auto
termination by (relation "measure (\<lambda>(n, xs). length xs)") auto

declare chunks.simps [simp del]

text \<open>\<open>f32::min\<close> and \<open>f32::max\<close>: a NaN gives way to the other side.\<close>

definition f32_min :: "f32 \<Rightarrow> f32 \<Rightarrow> f32" where
  "f32_min a b = (if f32_is_nan a then b else if f32_is_nan b then a else if f32_lt b a then b else a)"

definition f32_max :: "f32 \<Rightarrow> f32 \<Rightarrow> f32" where
  "f32_max a b = (if f32_is_nan a then b else if f32_is_nan b then a else if f32_lt a b then b else a)"

definition f32_infinity :: f32 where "f32_infinity = 0x7F800000"
definition f32_neg_infinity :: f32 where "f32_neg_infinity = 0xFF800000"

subsection \<open>Scalar codes (\<open>scalar.rs\<close>)\<close>

record scalar_quantization =
  sq_bits :: u8
  sq_min_value :: f32
  sq_max_value :: f32
  sq_scale :: f32
  sq_offset :: f32
  sq_quantized_levels :: nat

definition sq_new :: "u8 \<Rightarrow> scalar_quantization qres" where
  "sq_new bits =
     (if bits \<notin> {1, 2, 4, 8}
      then Inl (InvalidParameters (''Invalid bit depth: '' @ show_nat (unat bits) @ ''. Must be 1, 2, 4, or 8''))
      else Inr \<lparr>sq_bits = bits, sq_min_value = 0, sq_max_value = 0, sq_scale = f32_one, sq_offset = 0,
                sq_quantized_levels = 2 ^ unat bits\<rparr>)"

definition sq_fit :: "f32 list list \<Rightarrow> scalar_quantization \<Rightarrow> scalar_quantization qres" where
  "sq_fit vectors q =
     (if vectors = [] then Inl (InvalidParameters ''Cannot fit quantization to empty dataset'')
      else
        let min_val = foldl f32_min f32_infinity (concat vectors);
            max_val = foldl f32_max f32_neg_infinity (concat vectors)
        in Inr (q\<lparr>sq_min_value := min_val, sq_max_value := max_val,
                  sq_scale := f32_div (f32_sub max_val min_val) (f32_of_int (int (sq_quantized_levels q - 1))),
                  sq_offset := min_val\<rparr>))"

text \<open>The level of one value of a packed code, and the value a level stands for.\<close>

definition level_of :: "scalar_quantization \<Rightarrow> f32 \<Rightarrow> u8" where
  "level_of q value =
     f32_round_to_u8 (f32_clamp 0 (f32_of_int (int (sq_quantized_levels q - 1)))
       (f32_div (f32_sub value (sq_offset q)) (sq_scale q)))"

definition value_of :: "scalar_quantization \<Rightarrow> u8 \<Rightarrow> f32" where
  "value_of q level = f32_add (sq_offset q) (f32_mul (f32_of_int (uint level)) (sq_scale q))"

definition quantize_8bit :: "scalar_quantization \<Rightarrow> f32 list \<Rightarrow> bytes" where
  "quantize_8bit q vector = quantize_f32_to_u8 vector (sq_scale q) (sq_offset q) (sq_quantized_levels q)"

definition dequantize_8bit :: "scalar_quantization \<Rightarrow> bytes \<Rightarrow> f32 list" where
  "dequantize_8bit q quantized = dequantize_u8_to_f32 quantized (sq_scale q) (sq_offset q)"

definition quantize_4bit :: "scalar_quantization \<Rightarrow> f32 list \<Rightarrow> bytes" where
  "quantize_4bit q vector =
     map (\<lambda>chunk. foldl (\<lambda>packed (i, value).
            if i = 0 then packed OR level_of q value else packed OR push_bit 4 (level_of q value)) 0 (enumerate 0 chunk))
       (chunks 2 vector)"

definition dequantize_4bit :: "scalar_quantization \<Rightarrow> bytes \<Rightarrow> f32 list" where
  "dequantize_4bit q quantized =
     concat (map (\<lambda>packed. [value_of q (packed AND 0x0F), value_of q (drop_bit 4 (packed AND 0xF0))]) quantized)"

definition quantize_2bit :: "scalar_quantization \<Rightarrow> f32 list \<Rightarrow> bytes" where
  "quantize_2bit q vector =
     map (\<lambda>chunk. foldl (\<lambda>packed (i, value). packed OR push_bit (i * 2) (level_of q value)) 0 (enumerate 0 chunk))
       (chunks 4 vector)"

definition dequantize_2bit :: "scalar_quantization \<Rightarrow> bytes \<Rightarrow> f32 list" where
  "dequantize_2bit q quantized =
     concat (map (\<lambda>packed. map (\<lambda>i. value_of q (drop_bit (i * 2) packed AND 0x03)) [0..<4]) quantized)"

definition bit_threshold :: "scalar_quantization \<Rightarrow> f32" where
  "bit_threshold q = f32_div (f32_add (sq_min_value q) (sq_max_value q)) (f32_of_int 2)"

definition quantize_1bit :: "scalar_quantization \<Rightarrow> f32 list \<Rightarrow> bytes" where
  "quantize_1bit q vector =
     map (\<lambda>chunk. foldl (\<lambda>packed (i, value). if f32_le (bit_threshold q) value then packed OR push_bit i 1 else packed) 0
            (enumerate 0 chunk))
       (chunks 8 vector)"

definition dequantize_1bit :: "scalar_quantization \<Rightarrow> bytes \<Rightarrow> f32 list" where
  "dequantize_1bit q quantized =
     concat (map (\<lambda>packed. map (\<lambda>i. if drop_bit i packed AND 1 = 1 then sq_max_value q else sq_min_value q) [0..<8]) quantized)"

definition unsupported_depth :: "scalar_quantization \<Rightarrow> quantization_error" where
  "unsupported_depth q = InvalidParameters (''Unsupported bit depth: '' @ show_nat (unat (sq_bits q)))"

definition sq_quantize_vector :: "scalar_quantization \<Rightarrow> f32 list \<Rightarrow> bytes qres" where
  "sq_quantize_vector q vector =
     (if sq_bits q = 8 then Inr (quantize_8bit q vector)
      else if sq_bits q = 4 then Inr (quantize_4bit q vector)
      else if sq_bits q = 2 then Inr (quantize_2bit q vector)
      else if sq_bits q = 1 then Inr (quantize_1bit q vector)
      else Inl (unsupported_depth q))"

definition sq_dequantize_vector :: "scalar_quantization \<Rightarrow> bytes \<Rightarrow> f32 list qres" where
  "sq_dequantize_vector q quantized =
     (if sq_bits q = 8 then Inr (dequantize_8bit q quantized)
      else if sq_bits q = 4 then Inr (dequantize_4bit q quantized)
      else if sq_bits q = 2 then Inr (dequantize_2bit q quantized)
      else if sq_bits q = 1 then Inr (dequantize_1bit q quantized)
      else Inl (unsupported_depth q))"

definition calculate_quantization_error :: "scalar_quantization \<Rightarrow> f32 list \<Rightarrow> bytes \<Rightarrow> f32 qres" where
  "calculate_quantization_error q original quantized =
     tryR (sq_dequantize_vector q quantized) (\<lambda>dequantized.
       if length original \<noteq> length dequantized then Inl (CodeDimensionMismatch (length original) (length dequantized))
       else Inr (f32_div (f32_sum (map2 (\<lambda>o' d. let x = f32_sub o' d in f32_mul x x) original dequantized))
                   (f32_of_int (int (length original)))))"

definition theoretical_compression_ratio :: "scalar_quantization \<Rightarrow> f32" where
  "theoretical_compression_ratio q = f32_div (f32_of_int 32) (f32_of_int (uint (sq_bits q)))"

definition sq_serialize_params :: "scalar_quantization \<Rightarrow> quantization_params" where
  "sq_serialize_params q = Params_Scalar (sq_bits q) (sq_min_value q) (sq_max_value q) (sq_scale q)"

definition sq_deserialize_params :: "quantization_params \<Rightarrow> scalar_quantization \<Rightarrow> scalar_quantization qres" where
  "sq_deserialize_params params q =
     (case params of
        Params_Scalar bits min_value max_value scale \<Rightarrow>
          Inr (q\<lparr>sq_bits := bits, sq_min_value := min_value, sq_max_value := max_value, sq_scale := scale,
                 sq_offset := min_value, sq_quantized_levels := 2 ^ unat bits\<rparr>)
      | _ \<Rightarrow> Inl (InvalidParameters ''Parameter type mismatch for ScalarQuantization''))"

definition sq_quantize :: "scalar_quantization \<Rightarrow> f32 list list \<Rightarrow> quantized_vectors qres" where
  "sq_quantize q vectors =
     (if vectors = [] then Inl (InvalidParameters ''Cannot quantize empty vector set'')
      else
        let dimension = length (hd vectors)
        in tryR (mapR (\<lambda>v. if length v \<noteq> dimension then Inl (CodeDimensionMismatch dimension (length v))
                          else sq_quantize_vector q v) vectors) (\<lambda>codes.
             Inr \<lparr>qv_data = concat codes, qv_dimension = dimension, qv_count = length vectors,
                  qv_parameters = sq_serialize_params q\<rparr>))"

definition bytes_per_vector :: "scalar_quantization \<Rightarrow> nat \<Rightarrow> nat qres" where
  "bytes_per_vector q dimension =
     (if sq_bits q = 8 then Inr dimension
      else if sq_bits q = 4 then Inr ((dimension + 1) div 2)
      else if sq_bits q = 2 then Inr ((dimension + 3) div 4)
      else if sq_bits q = 1 then Inr ((dimension + 7) div 8)
      else Inl (unsupported_depth q))"

definition sq_dequantize :: "scalar_quantization \<Rightarrow> quantized_vectors \<Rightarrow> f32 list list qres" where
  "sq_dequantize q quantized =
     tryR (bytes_per_vector q (qv_dimension quantized)) (\<lambda>bpv.
       mapR (\<lambda>i.
         let start = i * bpv; end' = start + bpv
         in if length (qv_data quantized) < end' then Inl (InvalidParameters ''Quantized data length mismatch'')
            else tryR (sq_dequantize_vector q (slice_of (qv_data quantized) start end')) (\<lambda>v.
                   Inr (take (qv_dimension quantized) v))) [0..<qv_count quantized])"

definition sq_memory_usage :: "scalar_quantization \<Rightarrow> nat \<Rightarrow> nat \<Rightarrow> nat" where
  "sq_memory_usage q vector_count dimension =
     (if sq_bits q = 8 then vector_count * dimension
      else if sq_bits q = 4 then vector_count * (dimension + 1) div 2
      else if sq_bits q = 2 then vector_count * (dimension + 3) div 4
      else if sq_bits q = 1 then vector_count * (dimension + 7) div 8
      else 0)"

definition sq_quality_loss :: "scalar_quantization \<Rightarrow> f32" where
  "sq_quality_loss q =
     (let signal_range = f32_sub (sq_max_value q) (sq_min_value q)
      in if f32_eq signal_range 0 then 0 else f32_div (sq_scale q) signal_range)"

definition sq_method_type :: "scalar_quantization \<Rightarrow> quantization_type" where
  "sq_method_type q = Type_Scalar (sq_bits q)"

definition sq_validate_parameters :: "scalar_quantization \<Rightarrow> unit qres" where
  "sq_validate_parameters q =
     (if sq_bits q \<notin> {1, 2, 4, 8} then Inl (InvalidParameters (''Invalid bit depth: '' @ show_nat (unat (sq_bits q))))
      else if f32_le (sq_max_value q) (sq_min_value q) then Inl (InvalidParameters ''min_value must be less than max_value'')
      else if f32_le (sq_scale q) 0 then Inl (InvalidParameters ''scale must be positive'')
      else Inr ())"

text \<open>Cosine similarity as both searches compute it.\<close>

definition code_cosine :: "f32 list \<Rightarrow> f32 list \<Rightarrow> f32 qres" where
  "code_cosine a b =
     (if length a \<noteq> length b then Inl (CodeDimensionMismatch (length a) (length b))
      else
        let dot = f32_sum (map2 f32_mul a b); na = f32_sqrt (f32_sum (map (\<lambda>x. f32_mul x x) a));
            nb = f32_sqrt (f32_sum (map (\<lambda>x. f32_mul x x) b))
        in if f32_eq na 0 \<or> f32_eq nb 0 then Inr 0 else Inr (f32_div dot (f32_mul na nb)))"

definition sq_similarity :: "scalar_quantization \<Rightarrow> f32 list \<Rightarrow> bytes \<Rightarrow> f32 qres" where
  "sq_similarity q query quantized_vector = tryR (sq_dequantize_vector q quantized_vector) (code_cosine query)"

definition sq_quantized_similarity :: "scalar_quantization \<Rightarrow> bytes \<Rightarrow> bytes \<Rightarrow> f32 qres" where
  "sq_quantized_similarity q a b =
     tryR (sq_dequantize_vector q a) (\<lambda>da. tryR (sq_dequantize_vector q b) (\<lambda>db. code_cosine da db))"

definition sq_batch_similarity :: "scalar_quantization \<Rightarrow> f32 list \<Rightarrow> bytes list \<Rightarrow> f32 list qres" where
  "sq_batch_similarity q query quantized_vectors = mapR (sq_similarity q query) quantized_vectors"

subsection \<open>Binary codes (\<open>binary.rs\<close>)\<close>

record binary_quantization =
  bq_threshold :: f32
  bq_trained :: bool

definition bq_new :: binary_quantization where
  "bq_new = \<lparr>bq_threshold = 0, bq_trained = False\<rparr>"

definition bq_train :: "f32 list list \<Rightarrow> binary_quantization \<Rightarrow> binary_quantization qres" where
  "bq_train vectors q =
     (if vectors = [] then Inl (InvalidParameters ''Cannot train binary quantization on empty dataset'')
      else
        let all_values = sort_key f32_num_key (concat vectors)
        in Inr (q\<lparr>bq_threshold := (if all_values = [] then 0 else all_values ! (length all_values div 2)), bq_trained := True\<rparr>))"

definition bq_quantize_vector :: "binary_quantization \<Rightarrow> f32 list \<Rightarrow> bytes qres" where
  "bq_quantize_vector q vector =
     (if \<not> bq_trained q then Inl (InvalidParameters ''Binary quantizer not trained. Call train() first.'')
      else Inr (foldl (\<lambda>bytes (i, val).
             if f32_lt (bq_threshold q) val then bytes[i div 8 := bytes ! (i div 8) OR push_bit (i mod 8) 1] else bytes)
             (replicate ((length vector + 7) div 8) 0) (enumerate 0 vector)))"

definition bq_dequantize_vector :: "bytes \<Rightarrow> nat \<Rightarrow> f32 list" where
  "bq_dequantize_vector codes dimension =
     map (\<lambda>i. if i div 8 < length codes
              then (if codes ! (i div 8) AND push_bit (i mod 8) 1 \<noteq> 0 then f32_one else f32_minus_one)
              else 0) [0..<dimension]"

definition bq_quantize :: "binary_quantization \<Rightarrow> f32 list list \<Rightarrow> quantized_vectors qres" where
  "bq_quantize q vectors =
     (if vectors = [] then Inl (InvalidParameters ''Cannot quantize empty vector set'')
      else if \<not> bq_trained q then Inl (InvalidParameters ''Binary quantizer not trained'')
      else
        let dimension = length (hd vectors)
        in tryR (mapR (\<lambda>v. if length v \<noteq> dimension then Inl (CodeDimensionMismatch dimension (length v)) else Inr ()) vectors) (\<lambda>_.
           tryR (mapR (bq_quantize_vector q) vectors) (\<lambda>codes.
             Inr \<lparr>qv_data = concat codes, qv_dimension = dimension, qv_count = length vectors,
                  qv_parameters = Params_Binary (bq_threshold q)\<rparr>)))"

definition bq_dequantize :: "quantized_vectors \<Rightarrow> f32 list list qres" where
  "bq_dequantize quantized =
     (let bpv = (qv_dimension quantized + 7) div 8; expected_size = bpv * qv_count quantized
      in if length (qv_data quantized) < expected_size
         then Inl (InvalidParameters (''Invalid quantized data size: expected at least '' @ show_nat expected_size @ '', got ''
                     @ show_nat (length (qv_data quantized))))
         else Inr (map (\<lambda>i. bq_dequantize_vector (slice_of (qv_data quantized) (i * bpv) (i * bpv + bpv)) (qv_dimension quantized))
                    [0..<qv_count quantized]))"

definition bq_memory_usage :: "nat \<Rightarrow> nat \<Rightarrow> nat" where
  "bq_memory_usage vector_count dimension = (dimension + 7) div 8 * vector_count + 4"

definition bq_quality_loss :: f32 where
  "bq_quality_loss = 0x3ECCCCCD"

definition bq_validate_parameters :: "binary_quantization \<Rightarrow> unit qres" where
  "bq_validate_parameters q =
     (if bq_trained q then Inr () else Inl (InvalidParameters ''Binary quantizer must be trained before use''))"

definition bq_serialize_params :: "binary_quantization \<Rightarrow> quantization_params" where
  "bq_serialize_params q = Params_Binary (bq_threshold q)"

definition bq_deserialize_params :: "quantization_params \<Rightarrow> binary_quantization \<Rightarrow> binary_quantization qres" where
  "bq_deserialize_params params q =
     (case params of
        Params_Binary threshold \<Rightarrow> Inr (q\<lparr>bq_threshold := threshold, bq_trained := True\<rparr>)
      | _ \<Rightarrow> Inl (InvalidParameters ''Invalid parameters for binary quantization''))"

definition count_ones :: "u8 \<Rightarrow> nat" where
  "count_ones w = length (filter (bit w) [0..<8])"

text \<open>The zip stops at the shorter code.\<close>

definition hamming :: "bytes \<Rightarrow> bytes \<Rightarrow> nat" where
  "hamming a b = sum_list (map2 (\<lambda>x y. count_ones (x XOR y)) a b)"

definition bq_similarity :: "binary_quantization \<Rightarrow> f32 list \<Rightarrow> bytes \<Rightarrow> f32 qres" where
  "bq_similarity q query quantized_vector =
     tryR (bq_quantize_vector q query) (\<lambda>quantized_query.
       Inr (f32_sub f32_one (f32_div (f32_of_int (int (hamming quantized_query quantized_vector)))
              (f32_of_int (int (length query))))))"

definition bq_quantized_similarity :: "bytes \<Rightarrow> bytes \<Rightarrow> f32" where
  "bq_quantized_similarity a b =
     (let estimated_dim = min (length a) (length b) * 8
      in f32_sub f32_one (f32_div (f32_of_int (int (hamming a b))) (f32_of_int (int estimated_dim))))"

definition bq_batch_similarity :: "binary_quantization \<Rightarrow> f32 list \<Rightarrow> bytes list \<Rightarrow> f32 list qres" where
  "bq_batch_similarity q query quantized_vectors =
     tryR (bq_quantize_vector q query) (\<lambda>quantized_query. Inr (map (bq_quantized_similarity quantized_query) quantized_vectors))"

lemma top_levels: "f32_of_int 15 = 0x41700000" "f32_of_int 3 = 0x40400000"
  by code_simp+

end
