(* ===== verification/Quantize_Props.thy ===== *)
theory Quantize_Props
  imports Quantize Float_Facts
begin

unbundle bit_operations_syntax

section \<open>What the codes keep\<close>

text \<open>
  Packing loses nothing: the levels of a packed code read back as they were written, because a level stays below the depth of
  the code. Decoding a set of codes therefore gives the component-wise reference.
\<close>

subsection \<open>Levels stay below the depth\<close>

lemma round_div: "0 \<le> m \<Longrightarrow> 0 \<le> l \<Longrightarrow> e < 0 \<Longrightarrow> m \<le> l * pow2 (- e) \<Longrightarrow> round_half_away m e \<le> l"
proof -
  assume a: "0 \<le> m" "0 \<le> l" "e < 0" "m \<le> l * pow2 (- e)"
  have p: "pow2 (- e) = 2 * pow2 (- e - 1)" using pow2_add [of 1 "- e - 1"] a(3) by (simp add: pow2_def)
  have "m + pow2 (- e - 1) < l * pow2 (- e) + pow2 (- e)" using a(4) p pow2_pos [of "- e - 1"] by linarith
  then have "m + pow2 (- e - 1) < (l + 1) * pow2 (- e)" by (simp add: distrib_right)
  moreover have "(m + pow2 (- e - 1)) div pow2 (- e) * pow2 (- e) \<le> m + pow2 (- e - 1)"
    using pow2_pos [of "- e"] pos_mod_sign [of "pow2 (- e)" "m + pow2 (- e - 1)"]
      div_mult_mod_eq [of "m + pow2 (- e - 1)" "pow2 (- e)"] by linarith
  ultimately have "(m + pow2 (- e - 1)) div pow2 (- e) * pow2 (- e) < (l + 1) * pow2 (- e)" by linarith
  then have "(m + pow2 (- e - 1)) div pow2 (- e) < l + 1" using pow2_pos [of "- e"] by (auto simp only: mult_less_cancel_right)
  then show ?thesis using a(3) by simp
qed


lemma round_div_small:
  assumes "0 \<le> m" "0 \<le> l" "e < 0" "m \<le> l * pow2 (- e)" shows "uint (word_of_int (min 255 (round_half_away m e)) :: u8) \<le> l"
proof -
  have r: "round_half_away m e \<le> l" "0 \<le> round_half_away m e"
    using round_div [OF assms] assms(1,3) by (simp_all add: pow2_def pos_imp_zdiv_nonneg_iff)
  then have "0 \<le> min 255 (round_half_away m e)" "min 255 (round_half_away m e) < 256" by auto
  then have "uint (word_of_int (min 255 (round_half_away m e)) :: u8) = min 255 (round_half_away m e)"
    by (simp add: uint_word_of_int)
  then show ?thesis using r by simp
qed

text \<open>A value between zero and the level \<open>l\<close>, whose bits are \<open>k\<close>, rounds to at most \<open>l\<close>.\<close>

lemma clamped_level:
  assumes k: "uint k = x * 2 ^ 23 + r" "0 \<le> r" "r < 2 ^ 23" "127 \<le> x" "x \<le> 130"
    and l: "r + 2 ^ 23 = l * 2 ^ nat (150 - x)" "0 < l"
  shows "uint (f32_round_to_u8 (f32_clamp 0 k v)) \<le> l"
proof -
  let ?y = "f32_clamp 0 k v"
  have kn: "\<not> f32_is_nan k" "f32_num_key k = uint k" "uint k < 2 ^ 31" "0 \<le> uint k"
    using k by (auto simp: f32_is_nan_def f32_num_key_def key_of_def)
  have zn: "\<not> f32_is_nan 0" "f32_num_key 0 = 0" by (simp_all add: f32_is_nan_def f32_num_key_def key_of_def)
  show ?thesis
  proof (cases "f32_is_nan v")
    case True
    then have "?y = v" by (simp add: f32_clamp_def f32_lt_def)
    moreover have "f32_val v = NaN" using True by (simp add: f32_is_nan_def f32_val_def f_decode_def pow2_def Let_def)
    ultimately show ?thesis using l(2) by (simp add: f32_round_to_u8_def)
  next
    case False
    have y: "\<not> f32_is_nan ?y" "0 \<le> f32_num_key ?y" "f32_num_key ?y \<le> uint k"
      using False kn zn by (auto simp: f32_clamp_def f32_lt_def Let_def)
    show ?thesis
    proof (cases "uint ?y < 2 ^ 31")
      case False
      then have "uint ?y = 2 ^ 31" using y(2) by (auto simp: f32_num_key_def key_of_def split: if_splits)
      then have "f32_val ?y = Fin True 0 (- 149)" by (simp add: f32_val_def f_decode_def pow2_def Let_def f_emin_def f_bias_def)
      then show ?thesis using l(2) by (simp add: f32_round_to_u8_def)
    next
      case True
      then have le: "uint ?y \<le> uint k" using y(3) by (simp add: f32_num_key_def key_of_def)
      define ex where "ex = uint ?y div 2 ^ 23"
      define fr where "fr = uint ?y mod 2 ^ 23"
      have u: "uint ?y = ex * 2 ^ 23 + fr" "0 \<le> fr" "fr < 2 ^ 23" "0 \<le> ex"
        unfolding ex_def fr_def by (metis div_mult_mod_eq, simp, simp, simp add: pos_imp_zdiv_nonneg_iff)
      have ex: "ex \<le> x" using le u(1,2) k(1,3) by simp
      have dec: "f32_val ?y = (if ex = 0 then Fin False fr (- 149) else Fin False (fr + 2 ^ 23) (ex - 150))"
      proof -
        have "ex mod 256 = ex" using ex k(5) u(4) by simp
        moreover have "uint ?y div 8388608 = ex" by (simp add: ex_def)
        ultimately have n: "uint ?y div 8388608 mod 256 = ex" by simp
        have "uint ?y div 2147483648 = 0" using True by simp
        then show ?thesis
          using ex k(5) by (simp add: f32_val_def f_decode_def pow2_def Let_def f_emin_def f_bias_def n fr_def)
      qed
      show ?thesis
      proof (cases "ex = 0")
        case True
        have "uint (word_of_int (min 255 (round_half_away fr (- 149))) :: u8) \<le> l"
          using u(2,3) l(2) by (intro round_div_small) (simp_all add: pow2_def)
        then show ?thesis using dec True by (simp add: f32_round_to_u8_def del: round_half_away.simps)
      next
        case False
        have "fr + 2 ^ 23 \<le> l * pow2 (- (ex - 150))"
        proof (cases "ex = x")
          case True
          then have "fr \<le> r" using le u(1) k(1) by simp
          then show ?thesis using l(1) True by (simp add: pow2_def)
        next
          case False
          then have "nat (150 - ex) = nat (150 - x) + nat (x - ex)" "1 \<le> nat (x - ex)" using ex k(5) u(4) by auto
          then have "2 * 2 ^ nat (150 - x) \<le> (2 :: int) ^ nat (150 - ex)"
            using power_increasing [of "Suc (nat (150 - x))" "nat (150 - ex)" "2 :: int"] by simp
          then have "l * (2 * 2 ^ nat (150 - x)) \<le> l * 2 ^ nat (150 - ex)" using l(2) by (intro mult_left_mono) simp_all
          then show ?thesis using l(1) u(3) k(2) by (simp add: pow2_def)
        qed
        then have "uint (word_of_int (min 255 (round_half_away (fr + 2 ^ 23) (ex - 150))) :: u8) \<le> l"
          using u(2) l(2) ex k(5) by (intro round_div_small) simp_all
        then show ?thesis using dec False by (simp add: f32_round_to_u8_def del: round_half_away.simps)
      qed
    qed
  qed
qed


lemma level_below:
  "sq_quantized_levels q = 16 \<Longrightarrow> unat (level_of q v) < 16" "sq_quantized_levels q = 4 \<Longrightarrow> unat (level_of q v) < 4"
proof -
  have u: "uint w \<le> int k \<Longrightarrow> unat w < Suc k" for w :: u8 and k
    by (simp add: nat_le_iff less_Suc_eq_le flip: nat_uint_eq)
  have "uint (f32_round_to_u8 (f32_clamp 0 0x41700000 z)) \<le> 15" "uint (f32_round_to_u8 (f32_clamp 0 0x40400000 z)) \<le> 3" for z
  proof -
    have a: "uint (0x41700000 :: f32) = 130 * 2 ^ 23 + 7340032" by (simp only: uint_numeral) simp
    have b: "uint (0x40400000 :: f32) = 128 * 2 ^ 23 + 4194304" by (simp only: uint_numeral) simp
    show "uint (f32_round_to_u8 (f32_clamp 0 0x41700000 z)) \<le> 15" by (rule clamped_level [OF a]) simp_all
    show "uint (f32_round_to_u8 (f32_clamp 0 0x40400000 z)) \<le> 3" by (rule clamped_level [OF b]) simp_all
  qed
  then have "unat (f32_round_to_u8 (f32_clamp 0 0x41700000 z)) < 16" "unat (f32_round_to_u8 (f32_clamp 0 0x40400000 z)) < 4" for z
    using u [of "f32_round_to_u8 (f32_clamp 0 0x41700000 z)" 15] u [of "f32_round_to_u8 (f32_clamp 0 0x40400000 z)" 3]
    by simp_all
  then show "sq_quantized_levels q = 16 \<Longrightarrow> unat (level_of q v) < 16" "sq_quantized_levels q = 4 \<Longrightarrow> unat (level_of q v) < 4"
    by (simp_all add: level_of_def top_levels)
qed


subsection \<open>Packing\<close>

definition pack :: "nat \<Rightarrow> ('a \<Rightarrow> u8) \<Rightarrow> 'a list \<Rightarrow> u8" where
  "pack w f xs = foldl (\<lambda>p (i, x). p OR push_bit (i * w) (f x)) 0 (enumerate 0 xs)"

lemma pack_snoc: "pack w f (xs @ [x]) = pack w f xs OR push_bit (length xs * w) (f x)"
  by (simp add: pack_def enumerate_append_eq)

lemma ex_snoc: "(\<exists>i<length (xs @ [x]). P i ((xs @ [x]) ! i)) \<longleftrightarrow> (\<exists>i<length xs. P i (xs ! i)) \<or> P (length xs) x"
proof
  assume "\<exists>i<length (xs @ [x]). P i ((xs @ [x]) ! i)"
  then obtain i where i: "i < length xs \<or> i = length xs" "P i ((xs @ [x]) ! i)" by (auto simp: less_Suc_eq)
  then show "(\<exists>i<length xs. P i (xs ! i)) \<or> P (length xs) x" by (metis nth_append nth_append_length)
next
  assume "(\<exists>i<length xs. P i (xs ! i)) \<or> P (length xs) x"
  then show "\<exists>i<length (xs @ [x]). P i ((xs @ [x]) ! i)"
    by (metis length_append_singleton less_Suc_eq nth_append nth_append_length)
qed

lemma bit_pack: "bit (pack w f xs) b \<longleftrightarrow> b < 8 \<and> (\<exists>i<length xs. i * w \<le> b \<and> bit (f (xs ! i)) (b - i * w))"
proof (induction xs rule: rev_induct)
  case Nil
  then show ?case by (simp add: pack_def)
next
  case (snoc x xs)
  have e: "(\<exists>i<length (xs @ [x]). i * w \<le> b \<and> bit (f ((xs @ [x]) ! i)) (b - i * w)) \<longleftrightarrow>
      (\<exists>i<length xs. i * w \<le> b \<and> bit (f (xs ! i)) (b - i * w)) \<or> length xs * w \<le> b \<and> bit (f x) (b - length xs * w)"
    by (rule ex_snoc [of xs x "\<lambda>i y. i * w \<le> b \<and> bit (f y) (b - i * w)"])
  have "possible_bit TYPE(8 word) b \<longleftrightarrow> b < 8" by (simp add: possible_bit_word)
  then show ?case unfolding pack_snoc bit_or_iff bit_push_bit_iff snoc e by argo
qed

lemma unpack:
  assumes f: "\<And>x. unat (f x) < 2 ^ w" and j: "j < length xs" "length xs * w \<le> 8"
  shows "drop_bit (j * w) (pack w f xs) AND mask w = f (xs ! j)"
proof (rule bit_word_eqI)
  fix n assume "n < LENGTH(8)"
  have small: "k < w" if "bit (f x) k" for x k
  proof (rule ccontr)
    assume "\<not> k < w"
    then have "2 ^ w \<le> (2 :: nat) ^ k" by (simp add: power_increasing)
    moreover have "2 ^ k \<le> unat (f x)"
    proof (rule ccontr)
      assume "\<not> 2 ^ k \<le> unat (f x)"
      then have "\<not> bit (unat (f x)) k" by (simp add: bit_iff_odd)
      then show False using that bit_imp_le_length [OF that] by (simp add: bit_unsigned_iff)
    qed
    ultimately show False using f [of x] by linarith
  qed
  have u: "i = j" if "i * w \<le> n + j * w" "bit (f (xs ! i)) (n + j * w - i * w)" "n < w" for i
  proof (rule ccontr)
    assume "i \<noteq> j"
    then consider "i < j" | "j < i" by linarith
    then show False
    proof cases
      case 1
      then have "i * w + w \<le> j * w" using mult_le_mono1 [of "Suc i" j w] by simp
      then have "w \<le> n + j * w - i * w" by simp
      then show False using small [OF that(2)] by simp
    next
      case 2
      then have "j * w + w \<le> i * w" using mult_le_mono1 [of "Suc j" i w] by simp
      then show False using that(1,3) by simp
    qed
  qed
  have "n + j * w < 8" if "n < w" using mult_le_mono1 [of "Suc j" "length xs" w] j that by simp
  then show "bit (drop_bit (j * w) (pack w f xs) AND mask w) n \<longleftrightarrow> bit (f (xs ! j)) n"
  proof -
    have "bit (drop_bit (j * w) (pack w f xs) AND mask w) n \<longleftrightarrow> n < w \<and> bit (pack w f xs) (n + j * w)"
      using \<open>n < LENGTH(8)\<close> by (auto simp: bit_and_iff bit_drop_bit_eq bit_mask_iff add.commute)
    also have "\<dots> \<longleftrightarrow> n < w \<and> bit (f (xs ! j)) n"
      unfolding bit_pack using u j(1) \<open>n < w \<Longrightarrow> n + j * w < 8\<close> by (metis add_diff_cancel_right' le_add2)
    finally show ?thesis using small by blast
  qed
qed


lemma chunks_decoded:
  assumes k: "0 < k" and h: "\<And>c. c \<noteq> [] \<Longrightarrow> length c \<le> k \<Longrightarrow> take (length c) (h c) = map g c \<and> length (h c) = k"
  shows "take (length v) (concat (map h (chunks k v))) = map g v \<and> length (chunks k v) = (length v + k - 1) div k"
proof (induction v rule: measure_induct_rule [of length])
  case (less v)
  show ?case
  proof (cases "v = []")
    case True
    then show ?thesis using k by (simp add: chunks.simps)
  next
    case False
    then have c: "chunks k v = take k v # chunks k (drop k v)" using k by (simp add: chunks.simps)
    have hd: "take (length (take k v)) (h (take k v)) = map g (take k v)" "length (h (take k v)) = k"
      using h [of "take k v"] False k by auto
    have IH: "take (length v - k) (concat (map h (chunks k (drop k v)))) = map g (drop k v)"
      "length (chunks k (drop k v)) = (length v - k + k - 1) div k"
      using less.IH [of "drop k v"] False k by auto
    show ?thesis
    proof (cases "length v \<le> k")
      case True
      then have "chunks k (drop k v) = []" by (simp add: chunks.simps)
      moreover have "(length v + k - 1) div k = 1"
        using True False k by (cases v) (auto intro!: div_nat_eqI)
      ultimately show ?thesis using True c hd by simp
    next
      case long: False
      then have "take (length v) (h (take k v) @ r) = h (take k v) @ take (length v - k) r" for r using hd(2) by simp
      moreover have "h (take k v) = map g (take k v)" using hd long by simp
      moreover have "(length v + k - 1) div k = Suc ((length v - k + k - 1) div k)"
      proof -
        have "(length v + k - 1) div k = ((length v - 1) + k) div k" using False by (cases v) simp_all
        moreover have "length v - k + k - 1 = length v - 1" using long by simp
        ultimately show ?thesis using k by (simp only: div_add_self2)
      qed
      ultimately show ?thesis using c IH by (simp flip: map_append)
    qed
  qed
qed

lemma chunks_short: "c \<in> set (chunks k v) \<Longrightarrow> length c \<le> k"
proof (induction k v rule: chunks.induct)
  case (1 k v)
  then show ?case by (cases "v = [] \<or> k = 0") (auto simp: chunks.simps [of k v])
qed

text \<open>What decoding makes of a value: the reference the codes are measured against.\<close>

definition code_of :: "scalar_quantization \<Rightarrow> f32 \<Rightarrow> u8" where
  "code_of q v = (if f32_eq (sq_scale q) 0 then 0
     else f32_round_to_u8 (f32_clamp 0 (f32_of_int (int (sq_quantized_levels q - 1)))
            (f32_mul (f32_sub v (sq_offset q)) (f32_div f32_one (sq_scale q)))))"

definition restored :: "scalar_quantization \<Rightarrow> f32 \<Rightarrow> f32" where
  "restored q v =
     (if sq_bits q = 8 then value_of q (code_of q v)
      else if sq_bits q = 1 then (if f32_le (bit_threshold q) v then sq_max_value q else sq_min_value q)
      else value_of q (level_of q v))"

lemma decoded_8bit: "dequantize_8bit q (quantize_8bit q v) = map (\<lambda>x. value_of q (code_of q x)) v" "length (quantize_8bit q v) = length v"
  by (simp_all add: dequantize_8bit_def quantize_8bit_def quantize_f32_to_u8_def dequantize_u8_to_f32_def code_of_def value_of_def Let_def comp_def)

lemma packed:
  "quantize_4bit q v = map (pack 4 (level_of q)) (chunks 2 v)" "quantize_2bit q v = map (pack 2 (level_of q)) (chunks 4 v)"
  "quantize_1bit q v = map (pack 1 (\<lambda>x. if f32_le (bit_threshold q) x then 1 else 0)) (chunks 8 v)"
proof -
  have "foldl (\<lambda>packed (i, value). if i = 0 then packed OR level_of q value else packed OR push_bit 4 (level_of q value)) 0 (enumerate 0 c)
      = pack 4 (level_of q) c" if "length c \<le> 2" for c
    using that by (cases c; cases "tl c") (auto simp: pack_def)
  then show "quantize_4bit q v = map (pack 4 (level_of q)) (chunks 2 v)"
    using chunks_short [of _ 2 v] by (simp add: quantize_4bit_def)
  have "(\<lambda>packed (i, value). if f32_le (bit_threshold q) value then packed OR push_bit i 1 else packed)
      = (\<lambda>packed (i, value). packed OR push_bit (i * 1) (if f32_le (bit_threshold q) value then 1 else (0 :: u8)))"
    by (auto simp: fun_eq_iff)
  then show "quantize_1bit q v = map (pack 1 (\<lambda>x. if f32_le (bit_threshold q) x then 1 else 0)) (chunks 8 v)"
    by (simp add: quantize_1bit_def pack_def [abs_def])
qed (simp add: quantize_2bit_def pack_def)

lemma unpacked:
  assumes f: "\<And>x. unat (f x) < 2 ^ w" and c: "length c \<le> k" "k * w \<le> 8"
  shows "take (length c) (map (\<lambda>i. g (drop_bit (i * w) (pack w f c) AND mask w)) [0..<k]) = map (\<lambda>x. g (f x)) c"
proof (rule nth_equalityI)
  fix i assume "i < length (take (length c) (map (\<lambda>i. g (drop_bit (i * w) (pack w f c) AND mask w)) [0..<k]))"
  then have i: "i < length c" by simp
  have "length c * w \<le> 8" using c mult_le_mono1 [of "length c" k w] by linarith
  then show "take (length c) (map (\<lambda>i. g (drop_bit (i * w) (pack w f c) AND mask w)) [0..<k]) ! i = map (\<lambda>x. g (f x)) c ! i"
    using unpack [OF f i] i c(1) by simp
qed (use c in simp)

lemma masks: "(0x0F :: u8) = mask 4" "(0x03 :: u8) = mask 2" "(1 :: u8) = mask 1"
  by (simp_all add: mask_eq_exp_minus_1)

lemma high_bits: "drop_bit 4 (p AND 0xF0) = drop_bit 4 p AND mask 4" for p :: u8
proof -
  have m: "(0xF0 :: u8) = push_bit 4 (mask 4)" by (simp add: mask_eq_exp_minus_1)
  show ?thesis
    unfolding m by (rule bit_word_eqI) (auto simp: bit_and_iff bit_drop_bit_eq bit_push_bit_iff bit_mask_iff)
qed

subsection \<open>One vector\<close>

text \<open>The levels fit the depth: what \<open>sq_new\<close> sets up and \<open>sq_fit\<close> keeps.\<close>

definition sq_ok :: "scalar_quantization \<Rightarrow> bool" where
  "sq_ok q \<longleftrightarrow> sq_bits q \<in> {1, 2, 4, 8} \<and> sq_quantized_levels q = 2 ^ unat (sq_bits q)"

lemma concat_packed: "concat (map dec (map enc cs)) = concat (map (\<lambda>c. dec (enc c)) cs)"
  by (simp add: comp_def)

lemma decoded_vector:
  assumes ok: "sq_ok q" and c: "sq_quantize_vector q v = Inr code"
  shows "\<exists>d. sq_dequantize_vector q code = Inr d \<and> take (length v) d = map (restored q) v \<and> bytes_per_vector q (length v) = Inr (length code)"
proof -
  have b: "sq_bits q = 8 \<or> sq_bits q = 4 \<or> sq_bits q = 2 \<or> sq_bits q = 1" using ok by (auto simp: sq_ok_def)
  have r: "(4 :: u8) \<noteq> 8" "(2 :: u8) \<noteq> 8" "(2 :: u8) \<noteq> 4" "(1 :: u8) \<noteq> 8" "(1 :: u8) \<noteq> 4" "(1 :: u8) \<noteq> 2" by simp_all
  have l4: "unat (level_of q x) < 2 ^ 4" if "sq_bits q = 4" for x using level_below(1) [of q x] ok that by (simp add: sq_ok_def)
  have l2: "unat (level_of q x) < 2 ^ 2" if "sq_bits q = 2" for x using level_below(2) [of q x] ok that by (simp add: sq_ok_def)
  from b show ?thesis
  proof (elim disjE)
    assume q: "sq_bits q = 8"
    then show ?thesis
      using c decoded_8bit [of q v] by (auto simp: sq_quantize_vector_def sq_dequantize_vector_def bytes_per_vector_def restored_def)
  next
    assume q: "sq_bits q = 4"
    let ?h = "\<lambda>c. map (\<lambda>i. value_of q (drop_bit (i * 4) (pack 4 (level_of q) c) AND mask 4)) [0..<2]"
    have e: "dequantize_4bit q (quantize_4bit q v) = concat (map ?h (chunks 2 v))"
    proof -
      have two: "map f [0..<2] = [f 0, f 1]" for f :: "nat \<Rightarrow> f32" by (simp add: numeral_2_eq_2)
      show ?thesis unfolding dequantize_4bit_def packed concat_packed high_bits masks(1) two by simp
    qed
    have "take (length v) (concat (map ?h (chunks 2 v))) = map (\<lambda>x. value_of q (level_of q x)) v \<and> length (chunks 2 v) = (length v + 2 - 1) div 2"
      by (intro chunks_decoded conjI unpacked l4 [OF q]) simp_all
    then show ?thesis
      using c q r e by (auto simp: sq_quantize_vector_def sq_dequantize_vector_def bytes_per_vector_def restored_def packed)
  next
    assume q: "sq_bits q = 2"
    let ?h = "\<lambda>c. map (\<lambda>i. value_of q (drop_bit (i * 2) (pack 2 (level_of q) c) AND mask 2)) [0..<4]"
    have e: "dequantize_2bit q (quantize_2bit q v) = concat (map ?h (chunks 4 v))"
      by (simp only: dequantize_2bit_def packed concat_packed masks)
    have "take (length v) (concat (map ?h (chunks 4 v))) = map (\<lambda>x. value_of q (level_of q x)) v \<and> length (chunks 4 v) = (length v + 4 - 1) div 4"
      by (intro chunks_decoded conjI unpacked l2 [OF q]) simp_all
    then show ?thesis
      using c q r e by (auto simp: sq_quantize_vector_def sq_dequantize_vector_def bytes_per_vector_def restored_def packed)
  next
    assume q: "sq_bits q = 1"
    let ?f = "\<lambda>x. if f32_le (bit_threshold q) x then 1 else (0 :: u8)" and ?g = "\<lambda>w :: u8. if w = 1 then sq_max_value q else sq_min_value q"
    let ?h = "\<lambda>c. map (\<lambda>i. ?g (drop_bit (i * 1) (pack 1 ?f c) AND mask 1)) [0..<8]"
    have e: "dequantize_1bit q (quantize_1bit q v) = concat (map ?h (chunks 8 v))"
      by (simp only: dequantize_1bit_def packed concat_packed masks(3) [symmetric] mult_1_right)
    have "take (length v) (concat (map ?h (chunks 8 v))) = map (\<lambda>x. ?g (?f x)) v \<and> length (chunks 8 v) = (length v + 8 - 1) div 8"
      by (intro chunks_decoded conjI unpacked) simp_all
    moreover have "(\<lambda>x. ?g (?f x)) = restored q" using q r by (simp add: fun_eq_iff restored_def)
    ultimately show ?thesis
      using c q r e by (auto simp: sq_quantize_vector_def sq_dequantize_vector_def bytes_per_vector_def packed)
  qed
qed

lemma decoded_length: "sq_dequantize_vector q code = Inr d \<Longrightarrow> length d = length code * (8 div unat (sq_bits q))"
proof -
  have c: "length (concat (map f xs)) = length xs * n" if "\<And>x. length (f x) = n" for f :: "u8 \<Rightarrow> f32 list" and xs n
    using that by (induction xs) simp_all
  assume "sq_dequantize_vector q code = Inr d"
  then consider "sq_bits q = 8" "d = dequantize_8bit q code" | "sq_bits q = 4" "d = dequantize_4bit q code"
    | "sq_bits q = 2" "d = dequantize_2bit q code" | "sq_bits q = 1" "d = dequantize_1bit q code"
    by (auto simp: sq_dequantize_vector_def split: if_split_asm)
  then show ?thesis
  proof cases
    case 1
    then show ?thesis by (simp add: dequantize_8bit_def dequantize_u8_to_f32_def)
  next
    case 2
    moreover have "length (dequantize_4bit q code) = length code * 2" unfolding dequantize_4bit_def by (rule c) simp
    ultimately show ?thesis by simp
  next
    case 3
    moreover have "length (dequantize_2bit q code) = length code * 4" unfolding dequantize_2bit_def by (rule c) simp
    ultimately show ?thesis by simp
  next
    case 4
    moreover have "length (dequantize_1bit q code) = length code * 8" unfolding dequantize_1bit_def by (rule c) simp
    ultimately show ?thesis by simp
  qed
qed

subsection \<open>A set of vectors\<close>

lemma fitted:
  assumes "sq_new bits = Inr q0" "sq_fit data q0 = Inr q"
  shows "sq_ok q \<and> sq_bits q = bits \<and> sq_offset q = sq_min_value q"
  using assms by (auto simp: sq_new_def sq_fit_def sq_ok_def Let_def split: if_split_asm)

lemma params_restored: "sq_ok q \<Longrightarrow> sq_offset q = sq_min_value q \<Longrightarrow> sq_deserialize_params (sq_serialize_params q) q' = Inr q"
  by (cases q; cases q') (simp add: sq_deserialize_params_def sq_serialize_params_def sq_ok_def)

lemma codes_decoded:
  assumes ok: "sq_ok q" and qv: "sq_quantize q vs = Inr qv"
  shows "sq_dequantize q qv = Inr (map (map (restored q)) vs) \<and> qv_count qv = length vs
    \<and> (\<exists>n. bytes_per_vector q (qv_dimension qv) = Inr n \<and> length (qv_data qv) = n * length vs)"
proof -
  let ?dim = "length (hd vs)"
  obtain codes where codes: "mapR (\<lambda>v. if length v \<noteq> ?dim then Inl (CodeDimensionMismatch ?dim (length v)) else sq_quantize_vector q v) vs = Inr codes"
    and r: "qv = \<lparr>qv_data = concat codes, qv_dimension = ?dim, qv_count = length vs, qv_parameters = sq_serialize_params q\<rparr>"
    and ne: "vs \<noteq> []"
    using qv by (auto simp: sq_quantize_def Let_def tryR_eq_Inr split: if_split_asm)
  note l = mapR_Inr_length [OF codes]
  have each: "length (vs ! i) = ?dim \<and> sq_quantize_vector q (vs ! i) = Inr (codes ! i)" if "i < length vs" for i
    using mapR_InrD [OF codes] that by (auto simp: list_all2_conv_all_nth split: if_split_asm)
  have dec: "\<exists>d. sq_dequantize_vector q (codes ! i) = Inr d \<and> take ?dim d = map (restored q) (vs ! i)
      \<and> bytes_per_vector q ?dim = Inr (length (codes ! i))" if "i < length vs" for i
    using decoded_vector [OF ok, of "vs ! i" "codes ! i"] each [OF that] by auto
  obtain n where n: "bytes_per_vector q ?dim = Inr n" using dec [of 0] ne by auto
  have "length (codes ! i) = n" if "i < length vs" for i using dec [OF that] n by auto
  then have same: "\<forall>b\<in>set codes. length b = n" using l by (auto simp: in_set_conv_nth)
  have len: "length (concat codes) = n * length vs" using length_concat_same [OF same] l by simp
  have "mapR (\<lambda>i. let start = i * n; end' = start + n
         in if length (qv_data qv) < end' then Inl (InvalidParameters ''Quantized data length mismatch'')
            else tryR (sq_dequantize_vector q (slice_of (qv_data qv) start end')) (\<lambda>v. Inr (take (qv_dimension qv) v)))
      [0..<length vs] = Inr (map (\<lambda>i. map (restored q) (vs ! i)) [0..<length vs])"
  proof (rule mapR_all_Inr)
    fix i assume "i \<in> set [0..<length vs]"
    then have i: "i < length vs" by simp
    have "i * n + n \<le> n * length vs" using i mult_le_mono1 [of "Suc i" "length vs" n] by (simp add: mult.commute)
    moreover have "slice_of (concat codes) (i * n) (i * n + n) = codes ! i"
      using slice_concat [OF same, of i] i l by (simp add: add.commute)
    ultimately show "(let start = i * n; end' = start + n
         in if length (qv_data qv) < end' then Inl (InvalidParameters ''Quantized data length mismatch'')
            else tryR (sq_dequantize_vector q (slice_of (qv_data qv) start end')) (\<lambda>v. Inr (take (qv_dimension qv) v)))
        = Inr (map (restored q) (vs ! i))"
      using dec [OF i] len by (auto simp: r Let_def)
  qed
  moreover have "map (\<lambda>i. map (restored q) (vs ! i)) [0..<length vs] = map (map (restored q)) vs"
    by (rule nth_equalityI) simp_all
  moreover have "qv_data qv = concat codes" "qv_dimension qv = ?dim" "qv_count qv = length vs" by (simp_all add: r)
  ultimately show ?thesis using n len by (simp add: sq_dequantize_def)
qed

lemma quantize_total:
  assumes "sq_ok q" "vs \<noteq> []" "\<forall>v\<in>set vs. length v = dim"
  shows "\<exists>qv. sq_quantize q vs = Inr qv \<and> qv_dimension qv = dim"
proof -
  have e: "\<exists>c. sq_quantize_vector q v = Inr c" for v using assms(1) by (auto simp: sq_quantize_vector_def sq_ok_def)
  have h: "length (hd vs) = dim" using assms(2,3) by simp
  have "mapR (\<lambda>v. if length v \<noteq> dim then Inl (CodeDimensionMismatch dim (length v)) else sq_quantize_vector q v) vs
      = Inr (map (\<lambda>v. SOME c. sq_quantize_vector q v = Inr c) vs)"
    using assms(3) someI_ex [OF e] by (intro mapR_all_Inr) simp
  then show ?thesis using assms(2) h by (simp add: sq_quantize_def Let_def)
qed

subsection \<open>Binary codes\<close>

definition sign_of :: "binary_quantization \<Rightarrow> f32 \<Rightarrow> f32" where
  "sign_of q x = (if f32_lt (bq_threshold q) x then f32_one else f32_minus_one)"

definition set_bit_if :: "(f32 \<Rightarrow> bool) \<Rightarrow> bytes \<Rightarrow> nat \<times> f32 \<Rightarrow> bytes" where
  "set_bit_if P = (\<lambda>bytes (i, val). if P val then bytes[i div 8 := bytes ! (i div 8) OR push_bit (i mod 8) 1] else bytes)"

lemma set_bits:
  assumes "s + length xs \<le> 8 * length bs" and "i < 8 * length bs"
  shows "length (foldl (set_bit_if P) bs (enumerate s xs)) = length bs
    \<and> (bit (foldl (set_bit_if P) bs (enumerate s xs) ! (i div 8)) (i mod 8)
      \<longleftrightarrow> bit (bs ! (i div 8)) (i mod 8) \<or> s \<le> i \<and> i < s + length xs \<and> P (xs ! (i - s)))"
  using assms
proof (induction xs arbitrary: s bs)
  case (Cons x xs)
  let ?b = "set_bit_if P bs (s, x)"
  have l: "length ?b = length bs" by (simp add: set_bit_if_def)
  have s: "s div 8 < length bs" using Cons.prems(1) by simp
  have b: "bit (?b ! (i div 8)) (i mod 8) \<longleftrightarrow> bit (bs ! (i div 8)) (i mod 8) \<or> i = s \<and> P x"
  proof (cases "i div 8 = s div 8")
    case True
    have "i mod 8 = s mod 8 \<longleftrightarrow> i = s" using True by (metis div_mult_mod_eq)
    moreover have "bit (push_bit (s mod 8) (1 :: u8)) (i mod 8) \<longleftrightarrow> i mod 8 = s mod 8" by (auto simp: bit_exp_iff)
    ultimately show ?thesis using True s by (auto simp: bit_or_iff set_bit_if_def)
  qed (auto simp: set_bit_if_def)
  have e: "(s \<le> i \<and> i < s + length (x # xs) \<and> P ((x # xs) ! (i - s))) \<longleftrightarrow>
      i = s \<and> P x \<or> Suc s \<le> i \<and> i < Suc s + length xs \<and> P (xs ! (i - Suc s))"
  proof (cases "i \<le> s")
    case True
    then show ?thesis by (cases "i = s") auto
  next
    case False
    then obtain j where "i = Suc s + j" using le_Suc_ex [of "Suc s" i] by auto
    then show ?thesis by simp
  qed
  have "Suc s + length xs \<le> 8 * length ?b" "i < 8 * length ?b" using Cons.prems l by simp_all
  from Cons.IH [OF this] show ?case unfolding enumerate_simps foldl.simps e l b by blast
qed auto

lemma binary_decoded:
  assumes c: "bq_quantize_vector q v = Inr code"
  shows "length code = (length v + 7) div 8 \<and> bq_dequantize_vector code (length v) = map (sign_of q) v"
proof -
  let ?z = "replicate ((length v + 7) div 8) (0 :: u8)"
  have code: "code = foldl (set_bit_if (f32_lt (bq_threshold q))) ?z (enumerate 0 v)"
    using c by (simp add: bq_quantize_vector_def set_bit_if_def split: if_split_asm)
  have z: "length v \<le> 8 * length ?z" by simp
  have bits: "length code = length ?z \<and> (bit (code ! (i div 8)) (i mod 8) \<longleftrightarrow> f32_lt (bq_threshold q) (v ! i))" if "i < length v" for i
    using set_bits [of 0 v ?z i "f32_lt (bq_threshold q)"] that z by (simp add: code [symmetric])
  have len: "length code = (length v + 7) div 8"
  proof (cases v)
    case (Cons x xs)
    then show ?thesis using bits [of 0] by simp
  qed (simp add: code)
  have t: "code ! (i div 8) AND push_bit (i mod 8) 1 \<noteq> 0 \<longleftrightarrow> bit (code ! (i div 8)) (i mod 8)" for i
    by (simp add: bit_iff_and_push_bit_not_eq_0)
  have "bq_dequantize_vector code (length v) = map (sign_of q) v"
  proof (rule nth_equalityI)
    fix i assume "i < length (bq_dequantize_vector code (length v))"
    then have i: "i < length v" by (simp add: bq_dequantize_vector_def)
    then have "i div 8 < length code" using len by simp
    then show "bq_dequantize_vector code (length v) ! i = map (sign_of q) v ! i"
      using i bits [OF i] by (simp add: bq_dequantize_vector_def sign_of_def t del: push_bit_of_1)
  qed (simp add: bq_dequantize_vector_def)
  then show ?thesis using len by simp
qed

lemma binary_codes_decoded:
  assumes "bq_quantize q vs = Inr qv"
  shows "bq_dequantize qv = Inr (map (map (sign_of q)) vs) \<and> qv_parameters qv = bq_serialize_params q"
proof -
  let ?dim = "length (hd vs)" and ?n = "(length (hd vs) + 7) div 8"
  obtain us codes where us: "mapR (\<lambda>v. if length v \<noteq> ?dim then Inl (CodeDimensionMismatch ?dim (length v)) else Inr ()) vs = Inr us"
    and codes: "mapR (bq_quantize_vector q) vs = Inr codes"
    and r: "qv = \<lparr>qv_data = concat codes, qv_dimension = ?dim, qv_count = length vs, qv_parameters = Params_Binary (bq_threshold q)\<rparr>"
    using assms by (auto simp: bq_quantize_def Let_def tryR_eq_Inr split: if_split_asm)
  note l = mapR_Inr_length [OF codes]
  have d: "length (vs ! i) = ?dim" if "i < length vs" for i
    using mapR_InrD [OF us] that by (auto simp: list_all2_conv_all_nth split: if_split_asm)
  have each: "length (codes ! i) = ?n \<and> bq_dequantize_vector (codes ! i) ?dim = map (sign_of q) (vs ! i)" if "i < length vs" for i
    using binary_decoded [of q "vs ! i" "codes ! i"] mapR_InrD [OF codes] d [OF that] that by (auto simp: list_all2_conv_all_nth)
  then have same: "\<forall>b\<in>set codes. length b = ?n" using l by (auto simp: in_set_conv_nth)
  have len: "length (concat codes) = ?n * length vs" using length_concat_same [OF same] l by simp
  have "slice_of (concat codes) (i * ?n) (i * ?n + ?n) = codes ! i" if "i < length vs" for i
    using slice_concat [OF same, of i] that l by (simp add: add.commute)
  then have "map (\<lambda>i. bq_dequantize_vector (slice_of (concat codes) (i * ?n) (i * ?n + ?n)) ?dim) [0..<length vs] = map (map (sign_of q)) vs"
    using each by (intro nth_equalityI) simp_all
  then show ?thesis using len by (simp add: bq_dequantize_def r Let_def bq_serialize_params_def)
qed

lemma bq_quantize_total:
  assumes "bq_trained q" "vs \<noteq> []" "\<forall>v\<in>set vs. length v = dim"
  shows "\<exists>qv. bq_quantize q vs = Inr qv \<and> qv_dimension qv = dim \<and> qv_count qv = length vs"
proof -
  have h: "length (hd vs) = dim" using assms by simp
  have "mapR (\<lambda>v. if length v \<noteq> dim then Inl (CodeDimensionMismatch dim (length v)) else Inr ()) vs = Inr (map (\<lambda>_. ()) vs)"
    using assms(3) by (intro mapR_all_Inr) simp
  moreover have "\<exists>codes. mapR (bq_quantize_vector q) vs = Inr codes"
  proof -
    have "\<exists>c. bq_quantize_vector q v = Inr c" for v using assms(1) by (simp add: bq_quantize_vector_def)
    then have "bq_quantize_vector q v = Inr (SOME c. bq_quantize_vector q v = Inr c)" for v by (rule someI_ex)
    then show ?thesis by (intro exI) (rule mapR_all_Inr)
  qed
  ultimately show ?thesis using assms h by (auto simp: bq_quantize_def Let_def)
qed

lemma binary_total:
  assumes "vs \<noteq> []" "\<forall>v\<in>set vs. length v = dim"
  shows "\<exists>q qv. bq_train vs bq_new = Inr q \<and> bq_quantize q vs = Inr qv \<and> qv_dimension qv = dim"
proof -
  obtain q where "bq_train vs bq_new = Inr q" "bq_trained q" using assms(1) by (auto simp: bq_train_def Let_def)
  then show ?thesis using bq_quantize_total [OF _ assms] by blast
qed

subsection \<open>Properties\<close>

text \<open>
  Scalar codes: a fitted quantizer of any depth encodes a set of vectors so that another quantizer, given only the stored
  parameters, decodes every component to its reference value, the one its own level stands for. Packing several levels into a
  byte, also at the end of a vector that does not fill its last byte, loses nothing.
\<close>

theorem scalar_codes_exact:
  assumes "sq_new bits = Inr q0" and "sq_fit data q0 = Inr q" and "sq_quantize q vs = Inr qv"
  shows "\<exists>r. sq_deserialize_params (qv_parameters qv) q' = Inr r \<and> sq_dequantize r qv = Inr (map (map (restored q)) vs)
    \<and> qv_count qv = length vs"
proof -
  note f = fitted [OF assms(1,2)]
  have "qv_parameters qv = sq_serialize_params q" using assms(3) by (auto simp: sq_quantize_def Let_def tryR_eq_Inr split: if_split_asm)
  then show ?thesis using params_restored f codes_decoded [OF _ assms(3)] by simp
qed

theorem scalar_codes_exact_witness:
  "\<exists>q0 q qv r. sq_new 4 = Inr q0 \<and> sq_fit [[0, f32_one, 0]] q0 = Inr q \<and> sq_quantize q [[0, f32_one, 0]] = Inr qv
    \<and> length (qv_data qv) = 2 \<and> sq_dequantize r qv = Inr [map (restored q) [0, f32_one, 0]]"
proof -
  obtain q0 where q0: "sq_new 4 = Inr q0" by (simp add: sq_new_def)
  obtain q where q: "sq_fit [[0, f32_one, 0]] q0 = Inr q" by (simp add: sq_fit_def Let_def)
  have ok: "sq_ok q" "sq_bits q = 4" using fitted [OF q0 q] by simp_all
  obtain qv where qv: "sq_quantize q [[0, f32_one, 0]] = Inr qv" "qv_dimension qv = 3"
    using quantize_total [OF ok(1), of "[[0, f32_one, 0]]" 3] by auto
  have "length (qv_data qv) = 2"
    using codes_decoded [OF ok(1) qv(1)] qv(2) ok(2) by (auto simp: bytes_per_vector_def)
  then show ?thesis using scalar_codes_exact [OF q0 q qv(1), of q0] q0 q qv(1) by auto
qed

text \<open>
  A packed code cannot be compared: when the dimension does not fill its last byte, decoding one code yields the padding as
  further components, and the similarity to a query of the right dimension, like the quantization error, is refused as a
  dimension mismatch.
\<close>

theorem packed_similarity_refused:
  assumes "sq_ok q" and "sq_quantize_vector q v = Inr code" and "length query = length v"
    and "length v mod (8 div unat (sq_bits q)) \<noteq> 0"
  shows "sq_similarity q query code = Inl (CodeDimensionMismatch (length v) (length code * (8 div unat (sq_bits q))))
    \<and> calculate_quantization_error q query code = Inl (CodeDimensionMismatch (length v) (length code * (8 div unat (sq_bits q))))"
proof -
  obtain d where d: "sq_dequantize_vector q code = Inr d" using decoded_vector [OF assms(1,2)] by blast
  note l = decoded_length [OF d]
  have "length d \<noteq> length v" using assms(4) l by (metis mod_mult_self2_is_0)
  then show ?thesis using d l assms(3) by (auto simp: sq_similarity_def calculate_quantization_error_def code_cosine_def)
qed

definition half_byte :: scalar_quantization where
  "half_byte = \<lparr>sq_bits = 4, sq_min_value = 0, sq_max_value = f32_one, sq_scale = f32_one, sq_offset = 0, sq_quantized_levels = 16\<rparr>"

theorem packed_similarity_refused_witness:
  "\<exists>code. sq_quantize_vector half_byte [f32_one] = Inr code \<and> sq_similarity half_byte [f32_one] code = Inl (CodeDimensionMismatch 1 2)"
proof -
  have ok: "sq_ok half_byte" "sq_bits half_byte = 4" by (simp_all add: sq_ok_def half_byte_def)
  obtain code where c: "sq_quantize_vector half_byte [f32_one] = Inr code" using ok by (simp add: sq_quantize_vector_def)
  obtain d where "bytes_per_vector half_byte 1 = Inr (length code)" using decoded_vector [OF ok(1) c] by auto
  then have "length code = 1" using ok by (simp add: bytes_per_vector_def)
  then show ?thesis using packed_similarity_refused [OF ok(1) c, of "[f32_one]"] c ok by simp
qed

text \<open>
  The batch score of binary codes is not the score: for a vector that differs from a code in its only dimension, the
  similarity is zero, but the batch operation, which divides by the padded number of bits, answers seven eighths.
\<close>

theorem binary_batch_score_inflated:
  "\<exists>q code. bq_trained q \<and> bq_quantize_vector q [f32_minus_one] = Inr code
    \<and> bq_similarity q [f32_one] code = Inr 0 \<and> bq_batch_similarity q [f32_one] [code] = Inr [0x3F600000]"
proof -
  let ?q = "\<lparr>bq_threshold = 0, bq_trained = True\<rparr>"
  have "bq_quantize_vector ?q [f32_minus_one] = Inr [0]" by code_simp
  moreover have "bq_similarity ?q [f32_one] [0] = Inr 0" "bq_batch_similarity ?q [f32_one] [[0]] = Inr [0x3F600000]" by code_simp+
  ultimately show ?thesis by (intro exI [of _ ?q] exI [of _ "[0]"]) simp
qed

end
