(* ===== verification/Quantizers.thy ===== *)
theory Quantizers
  imports Quantize_Props Maintenance
begin

section \<open>The codes of a collection (\<open>collection.rs\<close>, \<open>recompute_quantization\<close>)\<close>

text \<open>
  The quantizers a collection uses, as the parameter \<open>quantizers\<close> of the collection's model: fit, encode and keep the
  parameters. An error of the quantizer becomes an invalid argument with its text; \<open>fmt\<close> prints a float in it.
\<close>

definition as_invalid :: "(f32 \<Rightarrow> string) \<Rightarrow> 'a qres \<Rightarrow> 'a res" where
  "as_invalid fmt r = (case r of Inl e \<Rightarrow> Inl (InvalidArgument (quantization_error_text fmt e)) | Inr x \<Rightarrow> Inr x)"

definition scalar_codes :: "u8 \<Rightarrow> f32 list list \<Rightarrow> (bytes \<times> quantization_params) qres" where
  "scalar_codes bits vectors =
     tryR (sq_new bits) (\<lambda>q0.
     tryR (sq_fit vectors q0) (\<lambda>q.
     tryR (sq_quantize q vectors) (\<lambda>quantized. Inr (qv_data quantized, sq_serialize_params q))))"

definition binary_codes :: "f32 list list \<Rightarrow> (bytes \<times> quantization_params) qres" where
  "binary_codes vectors =
     tryR (bq_train vectors bq_new) (\<lambda>q.
     tryR (bq_quantize q vectors) (\<lambda>quantized. Inr (qv_data quantized, bq_serialize_params q)))"

definition vector_quantizers :: "(f32 \<Rightarrow> string) \<Rightarrow> quantization_params quantizers" where
  "vector_quantizers fmt = \<lparr>qz_scalar = (\<lambda>bits vs. as_invalid fmt (scalar_codes bits vs)), qz_binary = (\<lambda>vs. as_invalid fmt (binary_codes vs))\<rparr>"

subsection \<open>What is fitted\<close>

text \<open>
  The range of a scalar quantizer is that of the components it was fitted to, its step that range over the number of steps; the
  threshold of a binary one is the upper median of the components.
\<close>

definition range_fitted :: "f32 list \<Rightarrow> u8 \<Rightarrow> scalar_quantization \<Rightarrow> bool" where
  "range_fitted xs bits q \<longleftrightarrow> sq_bits q = bits \<and> sq_min_value q \<in> set xs \<and> sq_max_value q \<in> set xs
     \<and> (\<forall>x\<in>set xs. f32_le (sq_min_value q) x \<and> f32_le x (sq_max_value q))
     \<and> sq_offset q = sq_min_value q \<and> sq_quantized_levels q = 2 ^ unat bits
     \<and> sq_scale q = f32_div (f32_sub (sq_max_value q) (sq_min_value q)) (f32_of_int (2 ^ unat bits - 1))"

definition median_fitted :: "f32 list \<Rightarrow> binary_quantization \<Rightarrow> bool" where
  "median_fitted xs q \<longleftrightarrow> bq_threshold q \<in> set xs
     \<and> length (List.filter (\<lambda>x. f32_lt x (bq_threshold q)) xs) \<le> length xs div 2
     \<and> length (List.filter (\<lambda>x. f32_lt (bq_threshold q) x) xs) < length xs - length xs div 2"

lemma finite_facts:
  "f32_is_finite x \<Longrightarrow> \<not> f32_is_nan x" "\<not> f32_is_nan f32_infinity" "\<not> f32_is_nan f32_neg_infinity"
  "f32_is_finite x \<Longrightarrow> f32_lt x f32_infinity" "f32_is_finite x \<Longrightarrow> f32_lt f32_neg_infinity x"
proof -
  show n: "f32_is_finite x \<Longrightarrow> \<not> f32_is_nan x" "\<not> f32_is_nan f32_infinity" "\<not> f32_is_nan f32_neg_infinity"
    by (simp_all add: f32_is_finite_def f32_is_nan_def f32_infinity_def f32_neg_infinity_def)
  have k: "f32_num_key f32_infinity = 2139095040" "f32_num_key f32_neg_infinity = - 2139095040"
    by (simp_all add: f32_num_key_def key_of_def f32_infinity_def f32_neg_infinity_def)
  have u: "- 2139095040 < f32_num_key x \<and> f32_num_key x < 2139095040" if "f32_is_finite x" for x
  proof -
    have b: "0 \<le> uint x" "uint x < 2 ^ 32" using uint_range_size [of x] by (simp_all add: word_size)
    define e where "e = uint x div 2 ^ 23"
    have m: "e mod 256 \<noteq> 255" using that by (simp add: e_def f32_is_finite_def)
    have e: "uint x < (e + 1) * 2 ^ 23" "e * 2 ^ 23 \<le> uint x"
      using div_mult_mod_eq [of "uint x" "2 ^ 23"] pos_mod_bound [of "2 ^ 23" "uint x"] pos_mod_sign [of "2 ^ 23" "uint x"]
      by (simp_all add: e_def)
    have "0 \<le> e" unfolding e_def by (simp add: pos_imp_zdiv_nonneg_iff)
    moreover have "e < 512" using e b by simp
    moreover have "e \<noteq> 255" "e \<noteq> 511" using m by auto
    ultimately have "e \<le> 254 \<or> 256 \<le> e \<and> e \<le> 510" by linarith
    then show ?thesis using e b by (auto simp: f32_num_key_def key_of_def) (use uint_ge_0 [of x] in linarith)+
  qed
  show "f32_is_finite x \<Longrightarrow> f32_lt x f32_infinity" "f32_is_finite x \<Longrightarrow> f32_lt f32_neg_infinity x"
    using u [of x] n by (simp_all add: f32_lt_def k)
qed

lemma f32_orders: "f32_le a b \<Longrightarrow> f32_le b c \<Longrightarrow> f32_le a c" "f32_lt a b \<Longrightarrow> f32_le a b"
  by (auto simp: f32_le_def f32_lt_def)

lemma running_min:
  assumes "\<forall>x\<in>set xs. \<not> f32_is_nan x" and "\<not> f32_is_nan a"
  shows "foldl f32_min a xs \<in> insert a (set xs) \<and> f32_le (foldl f32_min a xs) a \<and> (\<forall>x\<in>set xs. f32_le (foldl f32_min a xs) x)"
  using assms
proof (induction xs arbitrary: a)
  case (Cons y ys)
  let ?m = "f32_min a y"
  have m: "?m = a \<or> ?m = y" "\<not> f32_is_nan ?m" "f32_le ?m a" "f32_le ?m y"
    using Cons.prems by (auto simp: f32_min_def f32_lt_def f32_le_def)
  note ih = Cons.IH [of ?m]
  show ?case using ih m Cons.prems f32_orders(1) [of "foldl f32_min ?m ys" ?m] by auto
qed (simp add: f32_le_def)

lemma running_max:
  assumes "\<forall>x\<in>set xs. \<not> f32_is_nan x" and "\<not> f32_is_nan a"
  shows "foldl f32_max a xs \<in> insert a (set xs) \<and> f32_le a (foldl f32_max a xs) \<and> (\<forall>x\<in>set xs. f32_le x (foldl f32_max a xs))"
  using assms
proof (induction xs arbitrary: a)
  case (Cons y ys)
  let ?m = "f32_max a y"
  have m: "?m = a \<or> ?m = y" "\<not> f32_is_nan ?m" "f32_le a ?m" "f32_le y ?m"
    using Cons.prems by (auto simp: f32_max_def f32_lt_def f32_le_def)
  note ih = Cons.IH [of ?m]
  show ?case using ih m Cons.prems f32_orders(1) [of _ ?m "foldl f32_max ?m ys"] by auto
qed (simp add: f32_le_def)

lemma scalar_fitted:
  assumes "\<forall>x\<in>set (concat live). f32_is_finite x" and "concat live \<noteq> []"
    and "sq_new bits = Inr q0" and "sq_fit live q0 = Inr q"
  shows "range_fitted (concat live) bits q"
proof -
  let ?xs = "concat live" let ?lo = "foldl f32_min f32_infinity ?xs" and ?hi = "foldl f32_max f32_neg_infinity ?xs"
  have n: "\<forall>x\<in>set ?xs. \<not> f32_is_nan x" using assms(1) finite_facts(1) by blast
  note lo = running_min [OF n finite_facts(2)] and hi = running_max [OF n finite_facts(3)]
  obtain x where x: "x \<in> set ?xs" using assms(2) by (meson last_in_set)
  have "?lo \<noteq> f32_infinity"
  proof
    assume "?lo = f32_infinity"
    then have "f32_le f32_infinity x" using lo x by metis
    then show False using finite_facts(4) [of x] x assms(1) by (auto simp: f32_le_def f32_lt_def)
  qed
  moreover have "?hi \<noteq> f32_neg_infinity"
  proof
    assume "?hi = f32_neg_infinity"
    then have "f32_le x f32_neg_infinity" using hi x by metis
    then show False using finite_facts(5) [of x] x assms(1) by (auto simp: f32_le_def f32_lt_def)
  qed
  ultimately have b: "?lo \<in> set ?xs" "?hi \<in> set ?xs" "\<forall>x\<in>set ?xs. f32_le ?lo x \<and> f32_le x ?hi" using lo hi by blast+
  have p: "int (2 ^ unat bits - 1) = 2 ^ unat bits - 1" by (simp add: of_nat_diff)
  have q: "sq_bits q = bits" "sq_min_value q = ?lo" "sq_max_value q = ?hi" "sq_offset q = ?lo" "sq_quantized_levels q = 2 ^ unat bits"
    "sq_scale q = f32_div (f32_sub ?hi ?lo) (f32_of_int (int (2 ^ unat bits - 1)))"
    using assms(3,4) by (auto simp: sq_new_def sq_fit_def Let_def split: if_split_asm)
  show ?thesis unfolding range_fitted_def q p using b by blast
qed

lemma below_position: "sorted (map k ys) \<Longrightarrow> j < length ys \<Longrightarrow> length (List.filter (\<lambda>x. k x < k (ys ! j)) ys) \<le> (j :: nat)"
proof -
  assume s: "sorted (map k ys)" "j < length ys"
  have "{i. i < length ys \<and> k (ys ! i) < k (ys ! j)} \<subseteq> {..<j}"
  proof clarify
    fix i assume "i < length ys" "k (ys ! i) < k (ys ! j)"
    then show "i < j" using sorted_nth_mono [OF s(1), of j i] by (cases "i < j") auto
  qed
  then show ?thesis using card_mono [of "{..<j}" "{i. i < length ys \<and> k (ys ! i) < k (ys ! j)}"] by (simp add: length_filter_conv_card)
qed

lemma above_position: "sorted (map k ys) \<Longrightarrow> j < length ys \<Longrightarrow> length (List.filter (\<lambda>x. k (ys ! j) < k x) ys) < length ys - j"
proof -
  assume s: "sorted (map k ys)" "j < length ys"
  have "{i. i < length ys \<and> k (ys ! j) < k (ys ! i)} \<subseteq> {j<..<length ys}"
  proof clarify
    fix i assume "i < length ys" "k (ys ! j) < k (ys ! i)"
    then show "i \<in> {j<..<length ys}" using sorted_nth_mono [OF s(1), of i j] s(2) by (cases "j < i") auto
  qed
  then have "card {i. i < length ys \<and> k (ys ! j) < k (ys ! i)} \<le> length ys - Suc j"
    using card_mono [of "{j<..<length ys}" "{i. i < length ys \<and> k (ys ! j) < k (ys ! i)}"] by simp
  then show ?thesis using s(2) by (simp add: length_filter_conv_card)
qed

lemma binary_fitted:
  assumes "\<forall>x\<in>set (concat live). f32_is_finite x" and "concat live \<noteq> []" and "bq_train live bq_new = Inr q"
  shows "median_fitted (concat live) q \<and> bq_trained q"
proof -
  let ?xs = "concat live" let ?ys = "sort_key f32_num_key ?xs"
  have ne: "?ys \<noteq> []" "live \<noteq> []" using assms(2) by (metis length_0_conv length_sort, auto)
  have q: "bq_threshold q = ?ys ! (length ?xs div 2)" "bq_trained q"
    using ne assms(3) by (auto simp: bq_train_def Let_def split: if_split_asm)
  have j: "length ?xs div 2 < length ?ys" using assms(2) by (simp add: Suc_le_eq div_less_dividend)
  have t: "bq_threshold q \<in> set ?xs" unfolding q using nth_mem [OF j] by simp
  have lt: "f32_lt a b \<longleftrightarrow> f32_num_key a < f32_num_key b" if "a \<in> set ?xs" "b \<in> set ?xs" for a b
    using that assms(1) finite_facts(1) by (auto simp: f32_lt_def)
  have count: "length (List.filter P ?xs) = length (List.filter P ?ys)" for P
    by (metis mset_filter mset_sort size_mset)
  have "length (List.filter (\<lambda>x. f32_lt x (bq_threshold q)) ?xs) = length (List.filter (\<lambda>x. f32_num_key x < f32_num_key (bq_threshold q)) ?ys)"
    unfolding count [symmetric] using lt t by (intro arg_cong [where f = length] filter_cong) auto
  moreover have "length (List.filter (\<lambda>x. f32_lt (bq_threshold q) x) ?xs) = length (List.filter (\<lambda>x. f32_num_key (bq_threshold q) < f32_num_key x) ?ys)"
    unfolding count [symmetric] using lt t by (intro arg_cong [where f = length] filter_cong) auto
  ultimately show ?thesis
    using below_position [OF sorted_sort_key j] above_position [OF sorted_sort_key j] t q by (simp add: median_fitted_def)
qed

subsection \<open>Decoding\<close>

text \<open>
  C35. Recomputing the codes of a collection of finite vectors never fails, and what it stores decodes. For scalar codes the quantizer
  is fitted to the range of the stored components, and the quantizer that any other is turned into by the kept parameters decodes the
  kept codes to the reference value of every component of every live vector, in slot order. Binary codes give the signs around the
  median of the components, which is the kept parameter. Without quantization no codes are kept.
\<close>

theorem stored_codes_decode:
  assumes "live \<noteq> []" and "0 < dim" and "\<forall>v\<in>set live. length v = dim \<and> (\<forall>x\<in>set v. f32_is_finite x)"
    and "\<forall>bits. co_quantization opts = Quant_Scalar bits \<longrightarrow> bits \<in> {1, 2, 4, 8}"
  shows "\<exists>d'. recompute_quantization (vector_quantizers fmt) opts live d = (Inr (), d') \<and>
    (case co_quantization opts of
       Quant_None \<Rightarrow> cd_codes d' = [] \<and> cd_quant_params d' = None
     | Quant_Scalar bits \<Rightarrow> (\<exists>params q. cd_quant_params d' = Some params \<and> range_fitted (concat live) bits q
         \<and> (\<forall>fresh. \<exists>kept. sq_deserialize_params params fresh = Inr kept
             \<and> sq_dequantize kept \<lparr>qv_data = cd_codes d', qv_dimension = dim, qv_count = length live, qv_parameters = params\<rparr>
               = Inr (map (map (restored q)) live)))
     | Quant_Binary \<Rightarrow> (\<exists>params q. cd_quant_params d' = Some params \<and> median_fitted (concat live) q
         \<and> (\<forall>fresh. bq_deserialize_params params fresh = Inr q)
         \<and> bq_dequantize \<lparr>qv_data = cd_codes d', qv_dimension = dim, qv_count = length live, qv_parameters = params\<rparr>
           = Inr (map (map (sign_of q)) live)))"
proof (cases "co_quantization opts")
  case Quant_None
  then show ?thesis using assms(1) by (simp add: recompute_quantization_def set_codes_def)
next
  case (Quant_Scalar bits)
  have fin: "\<forall>x\<in>set (concat live). f32_is_finite x" "concat live \<noteq> []" "\<forall>v\<in>set live. length v = dim"
    using assms(1-3) by (cases live; force)+
  obtain q0 where q0: "sq_new bits = Inr q0" using assms(4) Quant_Scalar by (simp add: sq_new_def)
  obtain q where q: "sq_fit live q0 = Inr q" using assms(1) by (simp add: sq_fit_def Let_def)
  note f = fitted [OF q0 q] and r = scalar_fitted [OF fin(1,2) q0 q]
  obtain qv where qv: "sq_quantize q live = Inr qv" "qv_dimension qv = dim" using quantize_total assms(1) fin(3) f by blast
  have c: "sq_dequantize q qv = Inr (map (map (restored q)) live)" "qv_count qv = length live" using codes_decoded [OF _ qv(1)] f by auto
  have e: "qv = \<lparr>qv_data = qv_data qv, qv_dimension = dim, qv_count = length live, qv_parameters = sq_serialize_params q\<rparr>"
    using qv c(2) by (auto simp: sq_quantize_def Let_def tryR_eq_Inr split: if_split_asm)
  have kept: "sq_deserialize_params (sq_serialize_params q) fresh = Inr q
      \<and> sq_dequantize q \<lparr>qv_data = qv_data qv, qv_dimension = dim, qv_count = length live, qv_parameters = sq_serialize_params q\<rparr>
        = Inr (map (map (restored q)) live)" for fresh
    using params_restored f c(1) e by metis
  have d: "recompute_quantization (vector_quantizers fmt) opts live d = (Inr (), set_codes (qv_data qv) (Some (sq_serialize_params q)) d)"
    using assms(1) Quant_Scalar q0 q qv(1)
    by (simp add: recompute_quantization_def vector_quantizers_def scalar_codes_def as_invalid_def)
  show ?thesis unfolding d Quant_Scalar using kept r by (auto simp: set_codes_def)
next
  case Quant_Binary
  have fin: "\<forall>x\<in>set (concat live). f32_is_finite x" "concat live \<noteq> []" "\<forall>v\<in>set live. length v = dim"
    using assms(1-3) by (cases live; force)+
  obtain q qv where qv: "bq_train live bq_new = Inr q" "bq_quantize q live = Inr qv" "qv_dimension qv = dim"
    using binary_total assms(1) fin(3) by blast
  note m = binary_fitted [OF fin(1,2) qv(1)]
  have c: "bq_dequantize qv = Inr (map (map (sign_of q)) live)" using binary_codes_decoded [OF qv(2)] by blast
  have "qv = \<lparr>qv_data = qv_data qv, qv_dimension = dim, qv_count = length live, qv_parameters = bq_serialize_params q\<rparr>"
    using qv by (auto simp: bq_quantize_def bq_serialize_params_def Let_def tryR_eq_Inr split: if_split_asm)
  then have k: "bq_dequantize \<lparr>qv_data = qv_data qv, qv_dimension = dim, qv_count = length live, qv_parameters = bq_serialize_params q\<rparr>
      = Inr (map (map (sign_of q)) live)" using c by metis
  have p: "bq_deserialize_params (bq_serialize_params q) fresh = Inr q" for fresh
    using m by (cases q; cases fresh) (simp add: bq_deserialize_params_def bq_serialize_params_def)
  have d: "recompute_quantization (vector_quantizers fmt) opts live d = (Inr (), set_codes (qv_data qv) (Some (bq_serialize_params q)) d)"
    using assms(1) Quant_Binary qv
    by (simp add: recompute_quantization_def vector_quantizers_def binary_codes_def as_invalid_def)
  show ?thesis unfolding d Quant_Binary using k p m by (auto simp: set_codes_def)
qed

theorem stored_codes_decode_witness:
  "\<exists>d' params q. recompute_quantization (vector_quantizers (\<lambda>_. [])) ((options_new 2 DotProduct)\<lparr>co_quantization := Quant_Scalar 4\<rparr>)
      [[f32_one, 0]] (data_empty None []) = (Inr (), d')
    \<and> cd_quant_params d' = Some params \<and> range_fitted [f32_one, 0] 4 q
    \<and> (\<forall>fresh. \<exists>kept. sq_deserialize_params params fresh = Inr kept \<and> sq_dequantize kept
        \<lparr>qv_data = cd_codes d', qv_dimension = 2, qv_count = 1, qv_parameters = params\<rparr> = Inr [[restored q f32_one, restored q 0]])"
proof -
  have "f32_is_finite f32_one" "f32_is_finite 0" by code_simp+
  then show ?thesis
    using stored_codes_decode [of "[[f32_one, 0]]" 2 "(options_new 2 DotProduct)\<lparr>co_quantization := Quant_Scalar 4\<rparr>" "\<lambda>_. []" "data_empty None []"]
    by auto
qed

end
