(* ===== verification/Product.thy ===== *)
theory Product
  imports Quantize_Props
begin

section \<open>Product quantization (\<open>quantization/product.rs\<close>)\<close>

text \<open>
  A vector is cut into \<open>subvectors\<close> pieces; each piece is replaced by the number of the nearest centroid of its codebook,
  which k-means trained. The random generator is modelled bit by bit; its seeds, drawn from the process's hash keys, are the
  parameter \<open>seeds\<close> (one per call of \<open>Rng::new\<close>). An index or a slice out of range stops the program: \<open>Panic\<close>, beside the
  errors it returns. Training ends after at most 100 rounds, as the source bounds it.
\<close>

datatype stop = Panic | Fail quantization_error

definition at_index :: "'a list \<Rightarrow> nat \<Rightarrow> stop + 'a" where
  "at_index xs i = (if i < length xs then Inr (xs ! i) else Inl Panic)"

definition slice_at :: "'a list \<Rightarrow> nat \<Rightarrow> nat \<Rightarrow> stop + 'a list" where
  "slice_at xs i j = (if i \<le> j \<and> j \<le> length xs then Inr (slice_of xs i j) else Inl Panic)"

definition invalid :: "string \<Rightarrow> stop" where
  "invalid what = Fail (InvalidParameters what)"

subsection \<open>The generator\<close>

definition rng_new :: "u64 \<Rightarrow> u64" where
  "rng_new seed = (if seed = 0 then 0x9E3779B97F4A7C15 else seed)"

definition next_u64 :: "u64 \<Rightarrow> u64 \<times> u64" where
  "next_u64 s =
     (let x = s XOR drop_bit 12 s;
          x = x XOR push_bit 25 x;
          x = x XOR drop_bit 27 x
      in (x * 0x2545F4914F6CDD1D, x))"

definition rng_usize :: "nat \<Rightarrow> u64 \<Rightarrow> nat \<times> u64" where
  "rng_usize n s = (if n = 0 then (0, s) else case next_u64 s of (x, s') \<Rightarrow> (unat x mod n, s'))"

definition rng_f32 :: "u64 \<Rightarrow> f32 \<times> u64" where
  "rng_f32 s = (case next_u64 s of (x, s') \<Rightarrow> (f32_div (f32_of_int (uint (drop_bit 40 x))) (f32_of_int (2 ^ 24)), s'))"

subsection \<open>The quantizer\<close>

record pq_config =
  pc_subvectors :: nat
  pc_centroids_per_subvector :: nat
  pc_training_samples :: nat
  pc_adaptive_assignment :: bool

definition pq_config_default :: pq_config where
  "pq_config_default = \<lparr>pc_subvectors = 8, pc_centroids_per_subvector = 256, pc_training_samples = 10000, pc_adaptive_assignment = True\<rparr>"

record product_quantization =
  pq_config :: pq_config
  pq_codebooks :: "f32 list list list"
  pq_subvector_size :: nat
  pq_dimension :: nat
  pq_trained :: bool

definition pq_new :: "pq_config \<Rightarrow> nat \<Rightarrow> stop + product_quantization" where
  "pq_new config dimension =
     (if pc_subvectors config = 0 then Inl Panic
      else
        let sz = dimension div pc_subvectors config
        in Inr \<lparr>pq_config = config,
                pq_codebooks = replicate (pc_subvectors config) (replicate (pc_centroids_per_subvector config) (replicate sz 0)),
                pq_subvector_size = sz, pq_dimension = dimension, pq_trained = False\<rparr>)"

definition pq_distance :: "f32 list \<Rightarrow> f32 list \<Rightarrow> f32" where
  "pq_distance a b = f32_sqrt (f32_sum (map2 (\<lambda>x y. let d = f32_sub x y in f32_mul d d) a b))"

text \<open>The first centroid whose distance is strictly below all before it; \<open>0\<close> when no distance is below infinity.\<close>

fun nearest_from :: "nat \<Rightarrow> nat \<Rightarrow> f32 \<Rightarrow> f32 list \<Rightarrow> f32 list list \<Rightarrow> nat" where
  "nearest_from j best best_distance v [] = best"
| "nearest_from j best best_distance v (c # cs) =
     (let distance = pq_distance v c
      in if f32_lt distance best_distance then nearest_from (j + 1) j distance v cs
         else nearest_from (j + 1) best best_distance v cs)"

definition nearest :: "f32 list \<Rightarrow> f32 list list \<Rightarrow> nat" where
  "nearest v cs = nearest_from 0 0 f32_infinity v cs"

subsection \<open>Training\<close>

fun choose_from :: "nat \<Rightarrow> f32 \<Rightarrow> f32 \<Rightarrow> f32 list \<Rightarrow> nat" where
  "choose_from i cumulative threshold [] = 0"
| "choose_from i cumulative threshold (d # ds) =
     (let cumulative = f32_add cumulative d
      in if f32_le threshold cumulative then i else choose_from (i + 1) cumulative threshold ds)"

fun more_centroids :: "nat \<Rightarrow> f32 list list \<Rightarrow> f32 list list \<Rightarrow> u64 \<Rightarrow> f32 list list" where
  "more_centroids 0 subvectors centroids s = centroids"
| "more_centroids (Suc n) subvectors centroids s =
     (let distances = map (\<lambda>v. foldl f32_min f32_infinity (map (pq_distance v) centroids)) subvectors;
          total_distance = foldl f32_add 0 distances;
          (u, s') = rng_f32 s;
          chosen = choose_from 0 0 (f32_mul u total_distance) distances
      in more_centroids n subvectors (centroids @ [subvectors ! chosen]) s')"

definition initialize_centroids :: "u64 \<Rightarrow> f32 list list \<Rightarrow> nat \<Rightarrow> f32 list list" where
  "initialize_centroids seed subvectors k =
     (if subvectors = [] \<or> k = 0 then []
      else
        let (first, s) = rng_usize (length subvectors) (rng_new seed)
        in more_centroids (k - 1) subvectors [subvectors ! first] s)"

definition update_centroid :: "f32 list \<Rightarrow> nat \<times> f32 list \<Rightarrow> f32 list" where
  "update_centroid centroid = (\<lambda>(count, sum).
     if 0 < count then map (\<lambda>s. f32_div s (f32_of_int (int count))) (take (length centroid) sum) @ drop (length sum) centroid
     else centroid)"

definition add_member :: "f32 list \<times> nat \<Rightarrow> nat list \<times> f32 list list \<Rightarrow> nat list \<times> f32 list list" where
  "add_member = (\<lambda>(v, a) (counts, sums). (counts[a := counts ! a + 1], sums[a := add_assign (sums ! a) v]))"

definition update_centroids :: "nat \<Rightarrow> f32 list list \<Rightarrow> nat list \<Rightarrow> f32 list list \<Rightarrow> stop + f32 list list" where
  "update_centroids sz subvectors assignments centroids =
     (if \<exists>a\<in>set (map snd (zip subvectors assignments)). length centroids \<le> a then Inl Panic
      else
        let k = length centroids;
            (counts, sums) = fold add_member (zip subvectors assignments) (replicate k 0, replicate k (replicate sz 0))
        in Inr (map2 update_centroid centroids (zip counts sums)))"

text \<open>The loop: \<open>n\<close> is what is left of the 100 rounds.\<close>

fun kmeans :: "nat \<Rightarrow> nat \<Rightarrow> f32 list list \<Rightarrow> nat list \<Rightarrow> f32 list list \<Rightarrow> stop + f32 list list" where
  "kmeans 0 sz subvectors assignments centroids = Inr centroids"
| "kmeans (Suc n) sz subvectors assignments centroids =
     (let assignments' = map (\<lambda>v. nearest v centroids) subvectors
      in tryR (update_centroids sz subvectors assignments' centroids) (\<lambda>centroids'.
           if assignments' = assignments then Inr centroids'
           else kmeans n sz subvectors assignments' centroids'))"

definition train_subvector :: "u64 \<Rightarrow> nat \<Rightarrow> nat \<Rightarrow> f32 list list \<Rightarrow> stop + f32 list list" where
  "train_subvector seed sz k subvectors =
     kmeans 100 sz subvectors (replicate (length subvectors) 0) (initialize_centroids seed subvectors k)"

definition piece :: "product_quantization \<Rightarrow> nat \<Rightarrow> f32 list \<Rightarrow> stop + f32 list" where
  "piece q i v = (let start = i * pq_subvector_size q in slice_at v start (min (start + pq_subvector_size q) (pq_dimension q)))"

definition pq_train :: "(nat \<Rightarrow> u64) \<Rightarrow> f32 list list \<Rightarrow> product_quantization \<Rightarrow> stop + product_quantization" where
  "pq_train seeds training_vectors q =
     (if training_vectors = [] then Inl (invalid ''No training vectors provided'')
      else if length (hd training_vectors) \<noteq> pq_dimension q
      then Inl (Fail (CodeDimensionMismatch (pq_dimension q) (length (hd training_vectors))))
      else
        let sample = take (pc_training_samples (pq_config q)) training_vectors
        in tryR (mapR (\<lambda>i. tryR (mapR (piece q i) sample)
                   (\<lambda>subvectors.
                   tryR (train_subvector (seeds i) (pq_subvector_size q) (pc_centroids_per_subvector (pq_config q)) subvectors) (\<lambda>book.
                   tryR (at_index (pq_codebooks q) i) (\<lambda>_. Inr book))))
                 [0..<pc_subvectors (pq_config q)]) (\<lambda>books.
           Inr (q\<lparr>pq_codebooks := books @ drop (length books) (pq_codebooks q), pq_trained := True\<rparr>)))"

subsection \<open>Encoding and decoding\<close>

definition pq_encode :: "product_quantization \<Rightarrow> f32 list \<Rightarrow> stop + bytes" where
  "pq_encode q vector =
     (if length vector \<noteq> pq_dimension q then Inl (Fail (CodeDimensionMismatch (pq_dimension q) (length vector)))
      else if \<not> pq_trained q then Inl (invalid ''Quantizer not trained'')
      else mapR (\<lambda>i. tryR (piece q i vector) (\<lambda>v. tryR (at_index (pq_codebooks q) i) (\<lambda>book.
             Inr (word_of_nat (nearest v book))))) [0..<pc_subvectors (pq_config q)])"

definition pq_reconstruct :: "product_quantization \<Rightarrow> bytes \<Rightarrow> stop + f32 list" where
  "pq_reconstruct q codes =
     (if length codes \<noteq> pc_subvectors (pq_config q)
      then Inl (invalid (''Expected '' @ show_nat (pc_subvectors (pq_config q)) @ '' codes, got '' @ show_nat (length codes)))
      else
        tryR (mapR (\<lambda>(i, code).
                if pc_centroids_per_subvector (pq_config q) \<le> unat code
                then Inl (invalid (''Invalid code '' @ show_nat (unat code) @ '' for subvector '' @ show_nat i))
                else tryR (at_index (pq_codebooks q) i) (\<lambda>book. at_index book (unat code))) (enumerate 0 codes)) (\<lambda>parts.
          let v = concat parts in Inr (v @ replicate (pq_dimension q - length v) 0)))"

definition pq_error :: "product_quantization \<Rightarrow> f32 list \<Rightarrow> bytes \<Rightarrow> stop + f32" where
  "pq_error q original quantized = tryR (pq_reconstruct q quantized) (\<lambda>v. Inr (pq_distance original v))"

definition pq_compression_ratio :: "product_quantization \<Rightarrow> f32" where
  "pq_compression_ratio q = f32_div (f32_of_int (int (pq_dimension q * 32))) (f32_of_int (int (pc_subvectors (pq_config q) * 8)))"

definition pq_memory_per_vector :: "product_quantization \<Rightarrow> nat" where
  "pq_memory_per_vector q = pc_subvectors (pq_config q)"

subsection \<open>The trait\<close>

definition pq_serialize_params :: "product_quantization \<Rightarrow> quantization_params" where
  "pq_serialize_params q = Params_Product (pc_subvectors (pq_config q)) (pq_subvector_size q)
     (pc_centroids_per_subvector (pq_config q)) (pq_codebooks q)"

definition pq_quantize :: "product_quantization \<Rightarrow> f32 list list \<Rightarrow> stop + quantized_vectors" where
  "pq_quantize q vectors =
     (if vectors = [] then Inl (invalid ''Cannot quantize empty vector set'')
      else if \<not> pq_trained q then Inl (invalid ''Product quantizer not trained'')
      else tryR (mapR (pq_encode q) vectors) (\<lambda>codes.
        Inr \<lparr>qv_data = concat codes, qv_dimension = pq_dimension q, qv_count = length vectors,
             qv_parameters = pq_serialize_params q\<rparr>))"

definition pq_dequantize :: "product_quantization \<Rightarrow> quantized_vectors \<Rightarrow> stop + f32 list list" where
  "pq_dequantize q quantized =
     (let n = pc_subvectors (pq_config q); expected = n * qv_count quantized
      in if length (qv_data quantized) < expected
         then Inl (invalid (''Invalid quantized data size: expected at least '' @ show_nat expected @ '', got ''
                     @ show_nat (length (qv_data quantized))))
         else mapR (\<lambda>i. pq_reconstruct q (slice_of (qv_data quantized) (i * n) (i * n + n))) [0..<qv_count quantized])"

definition pq_memory_usage :: "product_quantization \<Rightarrow> nat \<Rightarrow> nat" where
  "pq_memory_usage q vector_count = vector_count * pq_memory_per_vector q"

definition pq_quality_loss :: f32 where "pq_quality_loss = 0x3DA3D70A"

definition pq_validate_parameters :: "product_quantization \<Rightarrow> unit qres" where
  "pq_validate_parameters q =
     (if pc_subvectors (pq_config q) = 0 then Inl (InvalidParameters ''subvectors must be > 0'')
      else if pc_centroids_per_subvector (pq_config q) = 0 \<or> 256 < pc_centroids_per_subvector (pq_config q)
      then Inl (InvalidParameters ''centroids_per_subvector must be in 1..=256 (codes are single bytes)'')
      else Inr ())"

text \<open>The text of the mismatch ends with the \<open>Debug\<close> form of a \<open>Discriminant\<close>, which the compiler chooses; it is left out.\<close>

definition pq_deserialize_params :: "quantization_params \<Rightarrow> product_quantization \<Rightarrow> product_quantization qres" where
  "pq_deserialize_params params q =
     (case params of
        Params_Product subvector_count subvector_size codebook_size codebooks \<Rightarrow>
          Inr (q\<lparr>pq_config := (pq_config q)\<lparr>pc_subvectors := subvector_count, pc_centroids_per_subvector := codebook_size\<rparr>,
                 pq_subvector_size := subvector_size, pq_dimension := subvector_size * subvector_count,
                 pq_codebooks := codebooks, pq_trained := True\<rparr>)
      | _ \<Rightarrow> Inl (InvalidParameters ''Expected Product parameters, got ''))"

end
