(* ===== verification/Quantization_Method.thy ===== *)
theory Quantization_Method
  imports Quantize_Props
begin

section \<open>The trait of the encodings (\<open>quantization/traits.rs\<close>)\<close>

text \<open>
  \<open>QuantizationMethod\<close> as a contract: a ready quantizer of a dimension takes every non-empty batch of vectors of that
  dimension, counts them, and decodes what it wrote into an approximation of each, of the same length and in the same order.
  The error type is the implementation's.
\<close>

locale quantization_method =
  fixes quantize :: "'q \<Rightarrow> f32 list list \<Rightarrow> 'e + quantized_vectors"
    and dequantize :: "'q \<Rightarrow> quantized_vectors \<Rightarrow> 'e + f32 list list"
    and ready :: "nat \<Rightarrow> 'q \<Rightarrow> bool"
    and approx :: "'q \<Rightarrow> f32 list \<Rightarrow> f32 list"
  assumes accepts: "ready dim q \<Longrightarrow> vs \<noteq> [] \<Longrightarrow> \<forall>v\<in>set vs. length v = dim \<Longrightarrow>
      \<exists>qv. quantize q vs = Inr qv \<and> qv_count qv = length vs \<and> dequantize q qv = Inr (map (approx q) vs)"
    and keeps_dimension: "ready dim q \<Longrightarrow> length v = dim \<Longrightarrow> length (approx q v) = dim"
begin

text \<open>What was decoded can be encoded again, and as often as wanted the batch keeps its shape.\<close>

lemma requantize:
  assumes "ready dim q" "vs \<noteq> []" "\<forall>v\<in>set vs. length v = dim"
  shows "\<exists>qv ws qv'. quantize q vs = Inr qv \<and> dequantize q qv = Inr ws \<and> quantize q ws = Inr qv' \<and> length ws = length vs
    \<and> dequantize q qv' = Inr (map (\<lambda>v. approx q (approx q v)) vs)"
proof -
  obtain qv where "quantize q vs = Inr qv" "dequantize q qv = Inr (map (approx q) vs)" using accepts [OF assms] by blast
  moreover have "\<forall>w\<in>set (map (approx q) vs). length w = dim" using assms keeps_dimension by auto
  then obtain qv' where "quantize q (map (approx q) vs) = Inr qv'" "dequantize q qv' = Inr (map (approx q) (map (approx q) vs))"
    using accepts [OF assms(1), of "map (approx q) vs"] assms(2) by auto
  ultimately show ?thesis by (auto simp: comp_def)
qed

text \<open>A vector is decoded to the same approximation whatever else is in its batch.\<close>

lemma batch_independent:
  assumes "ready dim q" "\<forall>v\<in>set (vs @ w # us). length v = dim"
  shows "\<exists>qv ds qv'. quantize q (vs @ w # us) = Inr qv \<and> dequantize q qv = Inr ds
    \<and> quantize q [w] = Inr qv' \<and> dequantize q qv' = Inr [ds ! length vs]"
proof -
  obtain qv where "quantize q (vs @ w # us) = Inr qv" "dequantize q qv = Inr (map (approx q) (vs @ w # us))"
    using accepts [OF assms(1), of "vs @ w # us"] assms(2) by auto
  moreover obtain qv' where "quantize q [w] = Inr qv'" "dequantize q qv' = Inr (map (approx q) [w])"
    using accepts [OF assms(1), of "[w]"] assms(2) by auto
  ultimately show ?thesis by (auto simp: nth_append)
qed

end

definition sq_ready :: "nat \<Rightarrow> scalar_quantization \<Rightarrow> bool" where
  "sq_ready dim q \<longleftrightarrow> sq_ok q"

definition bq_ready :: "nat \<Rightarrow> binary_quantization \<Rightarrow> bool" where
  "bq_ready dim q \<longleftrightarrow> bq_trained q"

interpretation scalar_method: quantization_method sq_quantize sq_dequantize sq_ready "\<lambda>q. map (restored q)"
proof
  fix dim q and vs :: "f32 list list"
  assume a: "sq_ready dim q" "vs \<noteq> []" "\<forall>v\<in>set vs. length v = dim"
  then obtain qv where "sq_quantize q vs = Inr qv" using quantize_total [of q vs dim] by (auto simp: sq_ready_def)
  then show "\<exists>qv. sq_quantize q vs = Inr qv \<and> qv_count qv = length vs \<and> sq_dequantize q qv = Inr (map (map (restored q)) vs)"
    using codes_decoded a(1) by (auto simp: sq_ready_def)
qed simp

interpretation binary_method: quantization_method bq_quantize "\<lambda>q. bq_dequantize" bq_ready "\<lambda>q. map (sign_of q)"
proof
  fix dim q and vs :: "f32 list list"
  assume a: "bq_ready dim q" "vs \<noteq> []" "\<forall>v\<in>set vs. length v = dim"
  then obtain qv where "bq_quantize q vs = Inr qv" "qv_count qv = length vs" using bq_quantize_total [of q vs dim] by (auto simp: bq_ready_def)
  then show "\<exists>qv. bq_quantize q vs = Inr qv \<and> qv_count qv = length vs \<and> bq_dequantize qv = Inr (map (map (sign_of q)) vs)"
    using binary_codes_decoded by auto
qed simp

end
