(* ===== verification/Product_Props.thy ===== *)
theory Product_Props
  imports Product Quantization_Method
begin

section \<open>What product codes keep\<close>

text \<open>
  Training ends and never stops the program on vectors of the quantizer's dimension; a trained quantizer encodes and decodes
  every such vector, piece by piece, to a nearest centroid. Components behind the last full piece are lost.
\<close>

subsection \<open>The nearest centroid\<close>

lemma f32_lt_trans: "f32_lt a b \<Longrightarrow> f32_lt b c \<Longrightarrow> f32_lt a c"
  by (auto simp: f32_lt_def)

lemma f32_lt_asym: "f32_lt a b \<Longrightarrow> \<not> f32_lt b a"
  by (auto simp: f32_lt_def)

lemma below_infinity:
  assumes "f32_lt a b"
  shows "f32_lt a f32_infinity"
proof -
  have inf: "\<not> f32_is_nan f32_infinity" "f32_num_key f32_infinity = 255 * 2 ^ 23"
    by (simp_all add: f32_is_nan_def f32_infinity_def f32_num_key_def key_of_def)
  have "f32_num_key b \<le> 255 * 2 ^ 23"
  proof (cases "uint b < 2 ^ 31")
    case True
    have "uint b \<le> 255 * 2 ^ 23"
    proof (rule ccontr)
      assume n: "\<not> uint b \<le> 255 * 2 ^ 23"
      have q: "uint b div 2 ^ 23 = 255" using n True by (intro int_div_pos_eq [of _ _ _ "uint b - 255 * 2 ^ 23"]) simp_all
      have "uint b mod 2 ^ 23 \<noteq> 0"
      proof
        assume "uint b mod 2 ^ 23 = 0"
        then have "uint b = 255 * 2 ^ 23" using q div_mult_mod_eq [of "uint b" "2 ^ 23"] by simp
        then show False using n by simp
      qed
      then show False using q assms by (simp add: f32_lt_def f32_is_nan_def)
    qed
    then show ?thesis using True by (simp add: f32_num_key_def key_of_def)
  next
    case False
    then show ?thesis by (simp add: f32_num_key_def key_of_def)
  qed
  then show ?thesis using assms by (simp add: f32_lt_def inf)
qed

lemma nearest_from_spec:
  "(nearest_from j best bd v cs = best \<and> (\<forall>c\<in>set cs. \<not> f32_lt (pq_distance v c) bd))
   \<or> (\<exists>i<length cs. nearest_from j best bd v cs = j + i \<and> f32_lt (pq_distance v (cs ! i)) bd
        \<and> (\<forall>c\<in>set cs. \<not> f32_lt (pq_distance v c) (pq_distance v (cs ! i))))"
proof (induction cs arbitrary: j best bd)
  case (Cons c cs)
  let ?d = "pq_distance v c"
  show ?case
  proof (cases "f32_lt ?d bd")
    case True
    from Cons.IH [of "j + 1" j ?d] consider
        "nearest_from (j + 1) j ?d v cs = j" "\<forall>c'\<in>set cs. \<not> f32_lt (pq_distance v c') ?d"
      | i where "i < length cs" "nearest_from (j + 1) j ?d v cs = j + 1 + i" "f32_lt (pq_distance v (cs ! i)) ?d"
          "\<forall>c'\<in>set cs. \<not> f32_lt (pq_distance v c') (pq_distance v (cs ! i))" by blast
    then show ?thesis
    proof cases
      case 1
      have "nearest_from j best bd v (c # cs) = j" using True 1(1) by simp
      then show ?thesis using True 1(2) f32_lt_asym by (intro disjI2 exI [of _ 0]) (auto simp del: nearest_from.simps)
    next
      case 2
      have "nearest_from j best bd v (c # cs) = j + Suc i" using True 2(2) by simp
      then show ?thesis using 2 f32_lt_asym [OF 2(3)] f32_lt_trans [OF 2(3) True] by (intro disjI2 exI [of _ "Suc i"]) simp
    qed
  next
    case False
    from Cons.IH [of "j + 1" best bd] consider
        "nearest_from (j + 1) best bd v cs = best" "\<forall>c'\<in>set cs. \<not> f32_lt (pq_distance v c') bd"
      | i where "i < length cs" "nearest_from (j + 1) best bd v cs = j + 1 + i" "f32_lt (pq_distance v (cs ! i)) bd"
          "\<forall>c'\<in>set cs. \<not> f32_lt (pq_distance v c') (pq_distance v (cs ! i))" by blast
    then show ?thesis
    proof cases
      case 1
      then show ?thesis using False by auto
    next
      case 2
      have "nearest_from j best bd v (c # cs) = j + Suc i" using False 2(2) by simp
      moreover have "\<not> f32_lt ?d (pq_distance v (cs ! i))" using False f32_lt_trans 2(3) by blast
      ultimately show ?thesis using 2 by (intro disjI2 exI [of _ "Suc i"]) simp
    qed
  qed
qed simp

lemma nearest_less: "cs \<noteq> [] \<Longrightarrow> nearest v cs < length cs"
  using nearest_from_spec [of 0 0 f32_infinity v cs] by (auto simp: nearest_def)

lemma nearest_minimal: "c \<in> set cs \<Longrightarrow> \<not> f32_lt (pq_distance v c) (pq_distance v (cs ! nearest v cs))"
  using nearest_from_spec [of 0 0 f32_infinity v cs] below_infinity by (auto simp: nearest_def)

subsection \<open>Training\<close>

lemma choose_from_less: "ds \<noteq> [] \<Longrightarrow> choose_from i acc t ds < i + length ds"
proof (induction ds arbitrary: i acc)
  case (Cons d ds)
  then show ?case using Cons.IH [of "i + 1" "f32_add acc d"] by (cases "ds = []") (auto simp: Let_def)
qed simp

lemma more_centroids_facts:
  "subs \<noteq> [] \<Longrightarrow> set cs \<subseteq> set subs \<Longrightarrow>
     length (more_centroids n subs cs s) = length cs + n \<and> set (more_centroids n subs cs s) \<subseteq> set subs"
proof (induction n arbitrary: cs s)
  case (Suc n)
  let ?ds = "map (\<lambda>v. foldl f32_min f32_infinity (map (pq_distance v) cs)) subs"
  have "choose_from 0 0 t ?ds < length subs" for t using choose_from_less [of ?ds 0 0 t] Suc.prems(1) by simp
  then show ?case using Suc.prems Suc.IH by (auto simp: Let_def split: prod.split)
qed simp

lemma initial_facts:
  assumes "subs \<noteq> []" "0 < k"
  shows "length (initialize_centroids seed subs k) = k \<and> set (initialize_centroids seed subs k) \<subseteq> set subs"
proof -
  obtain x s where x: "rng_usize (length subs) (rng_new seed) = (x, s)" by (cases "rng_usize (length subs) (rng_new seed)")
  then have "x < length subs" using assms(1) by (auto simp: rng_usize_def split: prod.splits)
  then show ?thesis using more_centroids_facts [OF assms(1), of "[subs ! x]" "k - 1" s] assms
    by (simp add: initialize_centroids_def x)
qed

lemma update_fold:
  assumes "\<forall>(v, a)\<in>set ps. a < length counts" "length sums = length counts" "\<forall>s\<in>set sums. length s = sz"
  shows "case fold add_member ps (counts, sums) of (counts', sums') \<Rightarrow> length counts' = length counts \<and> length sums' = length counts \<and> (\<forall>s\<in>set sums'. length s = sz)"
  using assms
proof (induction ps arbitrary: counts sums)
  case (Cons p ps)
  obtain v a where p: "p = (v, a)" by (cases p)
  have a: "a < length sums" using Cons.prems(1,2) p by auto
  have "length (add_assign (sums ! a) v) = sz" using Cons.prems(3) a by (simp add: add_assign_def)
  then have "\<forall>s\<in>set (sums[a := add_assign (sums ! a) v]). length s = sz"
    using Cons.prems(3) by (auto dest!: set_update_subset_insert [THEN subsetD])
  then show ?case using Cons.IH [of "counts[a := counts ! a + 1]" "sums[a := add_assign (sums ! a) v]"] Cons.prems p by (auto simp: add_member_def)
qed simp

lemma update_centroids_facts:
  assumes "cs \<noteq> []" "\<forall>c\<in>set cs. length c = sz"
  shows "\<exists>cs'. update_centroids sz subs (map (\<lambda>v. nearest v cs) subs) cs = Inr cs' \<and> length cs' = length cs \<and> (\<forall>c\<in>set cs'. length c = sz)"
proof -
  let ?as = "map (\<lambda>v. nearest v cs) subs" and ?k = "length cs"
  have z: "zip subs ?as = map (\<lambda>v. (v, nearest v cs)) subs" by (induction subs) simp_all
  have in_range: "\<forall>(v, a)\<in>set (zip subs ?as). a < ?k" using nearest_less [OF assms(1)] by (simp add: z)
  obtain counts sums where f: "fold add_member (zip subs ?as) (replicate ?k 0, replicate ?k (replicate sz 0)) = (counts, sums)" by (rule prod.exhaust)
  have s: "length counts = ?k" "length sums = ?k" "\<forall>s\<in>set sums. length s = sz"
    using update_fold [of "zip subs ?as" "replicate ?k 0" "replicate ?k (replicate sz 0)" sz] in_range by (simp_all add: f)
  have u: "length (update_centroid c (n, s)) = sz" if "length c = sz" "length s = sz" for c n s
    using that by (simp add: update_centroid_def)
  have "\<forall>c\<in>set (map2 update_centroid cs (zip counts sums)). length c = sz"
  proof
    fix c assume "c \<in> set (map2 update_centroid cs (zip counts sums))"
    then obtain i where i: "i < ?k" "c = update_centroid (cs ! i) (counts ! i, sums ! i)"
      using s(1,2) by (auto simp: in_set_conv_nth)
    then show "length c = sz" using u assms(2) s(2,3) by simp
  qed
  moreover have "\<not> (\<exists>a\<in>set (map snd (zip subs ?as)). length cs \<le> a)"
    using nearest_less [OF assms(1)] by (auto simp: z not_le)
  ultimately show ?thesis using s by (simp add: update_centroids_def f)
qed

lemma kmeans_facts:
  assumes "cs \<noteq> []" "\<forall>c\<in>set cs. length c = sz"
  shows "\<exists>cs'. kmeans n sz subs as cs = Inr cs' \<and> length cs' = length cs \<and> (\<forall>c\<in>set cs'. length c = sz)"
  using assms
proof (induction n arbitrary: as cs)
  case (Suc n)
  obtain cs1 where u: "update_centroids sz subs (map (\<lambda>v. nearest v cs) subs) cs = Inr cs1" "length cs1 = length cs"
    "\<forall>c\<in>set cs1. length c = sz" using update_centroids_facts [OF Suc.prems] by blast
  have "cs1 \<noteq> []" using u(2) Suc.prems(1) by auto
  then show ?case using Suc.IH [of cs1 "map (\<lambda>v. nearest v cs) subs"] u by (auto simp: Let_def)
qed simp

lemma train_subvector_facts:
  assumes "subs \<noteq> []" "\<forall>v\<in>set subs. length v = sz" "0 < k"
  shows "\<exists>book. train_subvector seed sz k subs = Inr book \<and> length book = k \<and> (\<forall>c\<in>set book. length c = sz)"
proof -
  note i = initial_facts [OF assms(1,3), of seed]
  have "initialize_centroids seed subs k \<noteq> []" using i assms(3) by auto
  moreover have "\<forall>c\<in>set (initialize_centroids seed subs k). length c = sz" using i assms(2) by auto
  ultimately show ?thesis using kmeans_facts [of "initialize_centroids seed subs k" sz 100 subs "replicate (length subs) 0"] i
    by (simp add: train_subvector_def)
qed

subsection \<open>Well-formed quantizers\<close>

definition pq_shaped :: "nat \<Rightarrow> product_quantization \<Rightarrow> bool" where
  "pq_shaped dim q \<longleftrightarrow> pq_dimension q = dim \<and> 0 < pc_subvectors (pq_config q)
     \<and> pq_subvector_size q * pc_subvectors (pq_config q) \<le> dim \<and> length (pq_codebooks q) = pc_subvectors (pq_config q)
     \<and> 0 < pc_centroids_per_subvector (pq_config q) \<and> pc_centroids_per_subvector (pq_config q) \<le> 256"

definition pq_ready :: "nat \<Rightarrow> product_quantization \<Rightarrow> bool" where
  "pq_ready dim q \<longleftrightarrow> pq_shaped dim q \<and> pq_trained q
     \<and> (\<forall>book\<in>set (pq_codebooks q). length book = pc_centroids_per_subvector (pq_config q)
          \<and> (\<forall>c\<in>set book. length c = pq_subvector_size q))"

definition cut_piece :: "product_quantization \<Rightarrow> nat \<Rightarrow> f32 list \<Rightarrow> f32 list" where
  "cut_piece q i v = slice_of v (i * pq_subvector_size q) (i * pq_subvector_size q + pq_subvector_size q)"

text \<open>The reference value of a vector: each piece its nearest centroid, and zeros behind the last piece.\<close>

definition centroid_of :: "product_quantization \<Rightarrow> f32 list \<Rightarrow> nat \<Rightarrow> f32 list" where
  "centroid_of q v i = pq_codebooks q ! i ! nearest (cut_piece q i v) (pq_codebooks q ! i)"

definition pq_approx :: "product_quantization \<Rightarrow> f32 list \<Rightarrow> f32 list" where
  "pq_approx q v = concat (map (centroid_of q v) [0..<pc_subvectors (pq_config q)])
     @ replicate (pq_dimension q - pq_subvector_size q * pc_subvectors (pq_config q)) 0"

lemma piece_cut:
  assumes "pq_shaped dim q" "i < pc_subvectors (pq_config q)" "length v = dim"
  shows "piece q i v = Inr (cut_piece q i v)" "length (cut_piece q i v) = pq_subvector_size q"
proof -
  let ?s = "pq_subvector_size q" and ?m = "pc_subvectors (pq_config q)"
  have "(i + 1) * ?s \<le> ?m * ?s" using assms(2) by (intro mult_le_mono1) simp
  then have "i * ?s + ?s \<le> dim" using assms(1) by (simp add: pq_shaped_def mult.commute)
  then show "piece q i v = Inr (cut_piece q i v)" "length (cut_piece q i v) = ?s"
    using assms by (simp_all add: piece_def slice_at_def cut_piece_def pq_shaped_def Let_def min_absorb1)
qed

lemma mapR_total: "(\<And>x. x \<in> set xs \<Longrightarrow> \<exists>y. f x = Inr y \<and> P x y) \<Longrightarrow> \<exists>ys. mapR f xs = Inr ys \<and> list_all2 P xs ys"
proof (induction xs)
  case (Cons x xs)
  obtain y where y: "f x = Inr y" "P x y" using Cons.prems by auto
  obtain ys where "mapR f xs = Inr ys" "list_all2 P xs ys" using Cons by auto
  then show ?case using y by auto
qed simp

lemma trained:
  assumes q0: "pq_shaped dim q0" and n: "vs \<noteq> []" "0 < pc_training_samples (pq_config q0)" and d: "\<forall>v\<in>set vs. length v = dim"
  shows "\<exists>q. pq_train seeds vs q0 = Inr q \<and> pq_ready dim q \<and> pq_config q = pq_config q0"
proof -
  let ?m = "pc_subvectors (pq_config q0)" and ?k = "pc_centroids_per_subvector (pq_config q0)" and ?s = "pq_subvector_size q0"
  let ?sample = "take (pc_training_samples (pq_config q0)) vs"
  have s: "?sample \<noteq> []" "\<forall>v\<in>set ?sample. length v = dim" using n d by (auto dest: in_set_takeD)
  let ?f = "\<lambda>i. tryR (mapR (piece q0 i) ?sample) (\<lambda>subvectors. tryR (train_subvector (seeds i) ?s ?k subvectors)
        (\<lambda>book. tryR (at_index (pq_codebooks q0) i) (\<lambda>_. Inr book)))"
  have one: "\<exists>book. ?f i = Inr book \<and> length book = ?k \<and> (\<forall>c\<in>set book. length c = ?s)"
    if "i < ?m" for i
  proof -
    have "mapR (piece q0 i) ?sample = Inr (map (cut_piece q0 i) ?sample)"
      using piece_cut(1) [OF q0 that] s(2) by (intro mapR_all_Inr) simp
    moreover have "\<exists>book. train_subvector (seeds i) ?s ?k (map (cut_piece q0 i) ?sample) = Inr book \<and> length book = ?k \<and> (\<forall>c\<in>set book. length c = ?s)"
      using s piece_cut(2) [OF q0 that] q0 by (intro train_subvector_facts) (auto simp: pq_shaped_def)
    moreover have "i < length (pq_codebooks q0)" using q0 that by (simp add: pq_shaped_def)
    ultimately show ?thesis by (auto simp: at_index_def)
  qed
  obtain books where b: "mapR ?f [0..<?m] = Inr books"
      "list_all2 (\<lambda>i book. length book = ?k \<and> (\<forall>c\<in>set book. length c = ?s)) [0..<?m] books"
    using mapR_total [of "[0..<?m]" ?f "\<lambda>i book. length book = ?k \<and> (\<forall>c\<in>set book. length c = ?s)"] one by auto
  have l: "length books = ?m" "\<forall>book\<in>set books. length book = ?k \<and> (\<forall>c\<in>set book. length c = ?s)"
  proof -
    have n: "length books = ?m" "\<forall>i<?m. length (books ! i) = ?k \<and> (\<forall>c\<in>set (books ! i). length c = ?s)"
      using b(2) by (auto simp: list_all2_conv_all_nth)
    then show "length books = ?m" "\<forall>book\<in>set books. length book = ?k \<and> (\<forall>c\<in>set book. length c = ?s)" by (metis in_set_conv_nth)+
  qed
  have "length (hd vs) = dim" using n d by simp
  then show ?thesis using b(1) l q0 n by (auto simp: pq_train_def pq_ready_def pq_shaped_def Let_def)
qed

lemma encoded:
  assumes q: "pq_ready dim q" and v: "length v = dim"
  shows "pq_encode q v = Inr (map (\<lambda>i. word_of_nat (nearest (cut_piece q i v) (pq_codebooks q ! i))) [0..<pc_subvectors (pq_config q)])"
  using assms piece_cut(1) [of dim q _ v]
  by (auto simp: pq_encode_def pq_ready_def pq_shaped_def at_index_def intro!: mapR_all_Inr)

lemma centroid_facts:
  assumes q: "pq_ready dim q" and i: "i < pc_subvectors (pq_config q)"
  shows "nearest (cut_piece q i v) (pq_codebooks q ! i) < pc_centroids_per_subvector (pq_config q) \<and> length (centroid_of q v i) = pq_subvector_size q
    \<and> length (pq_codebooks q ! i) = pc_centroids_per_subvector (pq_config q)"
proof -
  have b: "pq_codebooks q ! i \<in> set (pq_codebooks q)" using assms by (simp add: pq_ready_def pq_shaped_def)
  then have l: "length (pq_codebooks q ! i) = pc_centroids_per_subvector (pq_config q)" using q by (simp add: pq_ready_def)
  then have "pq_codebooks q ! i \<noteq> []" using q by (auto simp: pq_ready_def pq_shaped_def)
  from nearest_less [OF this, of "cut_piece q i v"] have n: "nearest (cut_piece q i v) (pq_codebooks q ! i) < length (pq_codebooks q ! i)" .
  then have "centroid_of q v i \<in> set (pq_codebooks q ! i)" by (simp add: centroid_of_def)
  then show ?thesis using q b l n by (simp add: pq_ready_def)
qed

lemma length_centroids:
  assumes "pq_ready dim q"
  shows "length (concat (map (centroid_of q v) [0..<pc_subvectors (pq_config q)])) = pq_subvector_size q * pc_subvectors (pq_config q)"
  using length_concat_same [of "map (centroid_of q v) [0..<pc_subvectors (pq_config q)]" "pq_subvector_size q"] centroid_facts [OF assms]
  by simp

lemma reconstructed:
  assumes q: "pq_ready dim q" and v: "length v = dim"
  shows "pq_reconstruct q (map (\<lambda>i. word_of_nat (nearest (cut_piece q i v) (pq_codebooks q ! i))) [0..<pc_subvectors (pq_config q)]) = Inr (pq_approx q v)"
proof -
  let ?m = "pc_subvectors (pq_config q)" and ?c = "\<lambda>i. word_of_nat (nearest (cut_piece q i v) (pq_codebooks q ! i)) :: u8"
  have u: "unat (?c i) = nearest (cut_piece q i v) (pq_codebooks q ! i)" if "i < ?m" for i
    using centroid_facts [OF q that, of v] q by (simp add: unat_of_nat take_bit_eq_mod pq_ready_def pq_shaped_def)
  have "enumerate 0 (map ?c [0..<?m]) = map (\<lambda>i. (i, ?c i)) [0..<?m]"
    by (simp add: enumerate_eq_zip zip_map2 zip_same_conv_map)
  moreover have "mapR (\<lambda>(i, code). if pc_centroids_per_subvector (pq_config q) \<le> unat code
                then Inl (invalid (''Invalid code '' @ show_nat (unat code) @ '' for subvector '' @ show_nat i))
                else tryR (at_index (pq_codebooks q) i) (\<lambda>book. at_index book (unat code))) (map (\<lambda>i. (i, ?c i)) [0..<?m])
     = Inr (map (centroid_of q v) [0..<?m])"
  proof -
    have "\<not> pc_centroids_per_subvector (pq_config q) \<le> unat (?c i) \<and> at_index (pq_codebooks q) i = Inr (pq_codebooks q ! i)
        \<and> at_index (pq_codebooks q ! i) (unat (?c i)) = Inr (centroid_of q v i)" if "i < ?m" for i
      using u [OF that] centroid_facts [OF q that, of v] q that by (simp add: at_index_def centroid_of_def pq_ready_def pq_shaped_def)
    then show ?thesis by (simp add: mapR_Inr_iff list_all2_conv_all_nth)
  qed
  ultimately show ?thesis using q by (simp add: pq_reconstruct_def length_centroids [OF q] pq_approx_def Let_def del: length_concat)
qed

text \<open>A batch is the codes of its vectors, one after the other.\<close>

lemma batch_decoded:
  assumes q: "pq_ready dim q" and ws: "ws \<noteq> []" "\<forall>w\<in>set ws. length w = dim"
  shows "\<exists>qv. pq_quantize q ws = Inr qv \<and> qv_count qv = length ws \<and> length (qv_data qv) = pc_subvectors (pq_config q) * length ws
    \<and> pq_dequantize q qv = Inr (map (pq_approx q) ws)"
proof -
  let ?m = "pc_subvectors (pq_config q)"
  let ?e = "\<lambda>w. map (\<lambda>i. word_of_nat (nearest (cut_piece q i w) (pq_codebooks q ! i))) [0..<?m] :: bytes"
  let ?qv = "\<lparr>qv_data = concat (map ?e ws), qv_dimension = pq_dimension q, qv_count = length ws, qv_parameters = pq_serialize_params q\<rparr>"
  have "mapR (pq_encode q) ws = Inr (map ?e ws)" using encoded [OF q] ws(2) by (intro mapR_all_Inr) simp
  then have quantized: "pq_quantize q ws = Inr ?qv" using q ws(1) by (simp add: pq_quantize_def pq_ready_def)
  have b: "\<forall>b\<in>set (map ?e ws). length b = ?m" by simp
  have l: "length (concat (map ?e ws)) = ?m * length ws" using length_concat_same [OF b] by simp
  have "slice_of (concat (map ?e ws)) (i * ?m) (i * ?m + ?m) = ?e (ws ! i)" if "i < length ws" for i
    using slice_concat [OF b, of i] that by (simp add: add.commute)
  then have "mapR (\<lambda>i. pq_reconstruct q (slice_of (concat (map ?e ws)) (i * ?m) (i * ?m + ?m))) [0..<length ws]
      = Inr (map (\<lambda>i. pq_approx q (ws ! i)) [0..<length ws])"
    using reconstructed [OF q] ws(2) by (intro mapR_all_Inr) simp
  moreover have "map (\<lambda>i. pq_approx q (ws ! i)) [0..<length ws] = map (pq_approx q) ws" by (rule nth_equalityI) simp_all
  ultimately have "pq_dequantize q ?qv = Inr (map (pq_approx q) ws)" using l by (simp add: pq_dequantize_def Let_def del: length_concat)
  then show ?thesis using quantized l by (intro exI [of _ ?qv]) simp
qed

lemma length_approx: "pq_ready dim q \<Longrightarrow> length (pq_approx q v) = dim"
  using length_centroids [of dim q v] by (simp add: pq_approx_def pq_ready_def pq_shaped_def del: length_concat)

interpretation product_method: quantization_method pq_quantize pq_dequantize pq_ready pq_approx
proof
  fix dim q and vs :: "f32 list list"
  assume "pq_ready dim q" "vs \<noteq> []" "\<forall>v\<in>set vs. length v = dim"
  then show "\<exists>qv. pq_quantize q vs = Inr qv \<and> qv_count qv = length vs \<and> pq_dequantize q qv = Inr (map (pq_approx q) vs)"
    using batch_decoded by blast
qed (rule length_approx)

text \<open>Only the full pieces count: components behind them change no code.\<close>

lemma tail_ignored:
  assumes q: "pq_ready dim q" and "length (a @ b) = dim" "length b' = length b" "length a = pq_subvector_size q * pc_subvectors (pq_config q)"
  shows "pq_encode q (a @ b) = pq_encode q (a @ b')"
proof -
  have "cut_piece q i (a @ b) = cut_piece q i (a @ b')" if "i < pc_subvectors (pq_config q)" for i
  proof -
    have "(i + 1) * pq_subvector_size q \<le> pc_subvectors (pq_config q) * pq_subvector_size q" using that by (intro mult_le_mono1) simp
    then have "i * pq_subvector_size q + pq_subvector_size q \<le> length a" using assms(4) by (simp add: mult.commute)
    then show ?thesis by (simp add: cut_piece_def slice_of_append_left)
  qed
  then show ?thesis using encoded [OF q] assms(2,3) by simp
qed

text \<open>The stored parameters are enough to decode where the pieces fill the vector; otherwise the dimension itself is lost.\<close>

lemma parameters_restored:
  assumes q: "pq_ready dim q" and "pq_deserialize_params (pq_serialize_params q) q' = Inr r"
  shows "pq_ready (pq_subvector_size q * pc_subvectors (pq_config q)) r"
    and "pq_subvector_size q * pc_subvectors (pq_config q) = dim \<Longrightarrow> pq_approx r = pq_approx q"
proof -
  have r: "pq_codebooks r = pq_codebooks q" "pq_subvector_size r = pq_subvector_size q" "pq_trained r"
    "pc_subvectors (pq_config r) = pc_subvectors (pq_config q)" "pq_dimension r = pq_subvector_size q * pc_subvectors (pq_config q)"
    "pc_centroids_per_subvector (pq_config r) = pc_centroids_per_subvector (pq_config q)"
    using assms(2) by (auto simp: pq_deserialize_params_def pq_serialize_params_def)
  then show "pq_ready (pq_subvector_size q * pc_subvectors (pq_config q)) r" using q by (auto simp: pq_ready_def pq_shaped_def)
  have centroids: "centroid_of r = centroid_of q" by (simp add: fun_eq_iff centroid_of_def cut_piece_def r)
  show "pq_approx r = pq_approx q" if "pq_subvector_size q * pc_subvectors (pq_config q) = dim"
  proof
    fix v
    have c: "centroid_of r v = centroid_of q v" using centroids by simp
    show "pq_approx r v = pq_approx q v" unfolding pq_approx_def r c using q that by (simp add: pq_ready_def pq_shaped_def)
  qed
qed

lemma pq_new_shaped:
  assumes "pq_new cf dim = Inr q0" "0 < pc_centroids_per_subvector cf" "pc_centroids_per_subvector cf \<le> 256"
  shows "pq_shaped dim q0 \<and> pq_config q0 = cf"
proof -
  have "0 < pc_subvectors cf" "q0 = \<lparr>pq_config = cf,
      pq_codebooks = replicate (pc_subvectors cf) (replicate (pc_centroids_per_subvector cf) (replicate (dim div pc_subvectors cf) 0)),
      pq_subvector_size = dim div pc_subvectors cf, pq_dimension = dim, pq_trained = False\<rparr>"
    using assms(1) by (auto simp: pq_new_def Let_def split: if_splits)
  then show ?thesis using assms(2,3) by (simp add: pq_shaped_def)
qed



end
