(* ===== verification/Embedders.thy ===== *)
theory Embedders
  imports Points Quantize Msgpack "HOL-Library.AList" "HOL-Library.Product_Lexorder"
begin

section \<open>The text-embedding providers (\<open>embedding/\<close>)\<close>

text \<open>
  The four built-in providers. A \<open>HashMap\<close> is an association list with distinct keys; where the code iterates over one, the
  model goes through it in the order of the list. What depends on the Unicode tables of the standard library is the
  argument \<open>T\<close>, the natural logarithm, whose precision the standard library leaves open, the argument \<open>ln\<close>; the JSON package
  is a codec. A panic is \<open>None\<close>.
\<close>

record text_tables =
  tx_lower :: "string \<Rightarrow> string"
  tx_alnum :: "bytes \<Rightarrow> bool"

subsection \<open>Text\<close>

function utf8_chars :: "bytes \<Rightarrow> bytes list" where
  "utf8_chars [] = []"
| "utf8_chars (x # xs) = (x # takeWhile utf8_cont xs) # utf8_chars (dropWhile utf8_cont xs)"
  by pat_completeness auto
termination
  by (relation "measure length") (auto simp: less_Suc_eq_le length_dropWhile_le)

definition is_space :: "bytes \<Rightarrow> bool" where
  "is_space c \<longleftrightarrow> c \<in> set white_space"

function split_whitespace :: "bytes list \<Rightarrow> bytes list list" where
  "split_whitespace [] = []"
| "split_whitespace (c # cs) =
     (if is_space c then split_whitespace cs
      else (c # takeWhile (\<lambda>x. \<not> is_space x) cs) # split_whitespace (dropWhile (\<lambda>x. \<not> is_space x) cs))"
  by pat_completeness auto
termination
  by (relation "measure length") (auto simp: less_Suc_eq_le length_dropWhile_le)

definition trim_matches :: "(bytes \<Rightarrow> bool) \<Rightarrow> bytes list \<Rightarrow> bytes list" where
  "trim_matches P cs = rev (dropWhile P (rev (dropWhile P cs)))"

definition lower_chars :: "text_tables \<Rightarrow> string \<Rightarrow> bytes list" where
  "lower_chars T text = utf8_chars (bytes_of (tx_lower T text))"

definition chars_string :: "bytes list \<Rightarrow> string" where
  "chars_string cs = string_of (concat cs)"

definition bm25_tokenize :: "text_tables \<Rightarrow> string \<Rightarrow> string list" where
  "bm25_tokenize T text =
     List.filter (\<lambda>s. s \<noteq> [])
       (map (\<lambda>s. chars_string (trim_matches (\<lambda>c. \<not> tx_alnum T c) s)) (split_whitespace (lower_chars T text)))"

definition bow_tokenize :: "text_tables \<Rightarrow> string \<Rightarrow> string list" where
  "bow_tokenize T text =
     List.filter (\<lambda>s. s \<noteq> [])
       (map (\<lambda>s. chars_string (trim_matches (\<lambda>c. \<not> tx_alnum T c) s))
         (List.filter (\<lambda>s. 2 < length (concat s)) (split_whitespace (lower_chars T text))))"

definition tfidf_tokenize :: "text_tables \<Rightarrow> string \<Rightarrow> string list" where
  "tfidf_tokenize T text =
     List.filter (\<lambda>s. s \<noteq> [])
       (map (\<lambda>s. chars_string (trim_matches (\<lambda>c. \<not> tx_alnum T c) s))
         (List.filter (\<lambda>s. 2 < length (concat s)) (split_whitespace (lower_chars T text))))"

definition extract_ngrams :: "text_tables \<Rightarrow> nat \<Rightarrow> string \<Rightarrow> string list" where
  "extract_ngrams T n text =
     (let chars = lower_chars T text
      in if length chars < n then [chars_string chars]
         else map (\<lambda>i. chars_string (take n (drop i chars))) [0..<Suc (length chars - n)])"

subsection \<open>Tables\<close>

type_synonym table = "(string \<times> nat) list"

text \<open>\<open>*map.entry(w).or_insert(0) += 1\<close> for each word.\<close>

definition tally :: "table \<Rightarrow> string list \<Rightarrow> table" where
  "tally m ws = foldl (\<lambda>m w. AList.map_default w 1 Suc m) m ws"

text \<open>\<open>sort_by(|a, b| b.1.cmp(&a.1).then_with(|| a.0.cmp(&b.0)))\<close>: by count, descending, then by term.\<close>

definition by_frequency :: "table \<Rightarrow> table" where
  "by_frequency m = sort_key (\<lambda>(w, n). (- int n, w)) m"

text \<open>\<open>for (i, (word, _)) in ...take(dimension).enumerate() { vocabulary.insert(word, i) }\<close>\<close>

definition insert_ranked :: "nat \<Rightarrow> (string \<times> 'a) list \<Rightarrow> table \<Rightarrow> table" where
  "insert_ranked dim ranked voc = foldl (\<lambda>v (i, (w, _)). AList.update w i v) voc (enumerate 0 (take dim ranked))"

text \<open>The distinct terms of a document, sorted.\<close>

definition unique_terms :: "string list \<Rightarrow> string list" where
  "unique_terms tokens = sort (remdups tokens)"

text \<open>Unseen terms go to the next free index while there is room.\<close>

definition append_term :: "nat \<Rightarrow> table \<Rightarrow> string \<Rightarrow> table" where
  "append_term dim voc w =
     (if map_of voc w = None \<and> length voc < dim then AList.update w (length voc) voc else voc)"

text \<open>\<open>embedding[idx] += 1.0\<close> for each known term; an index outside the vector panics.\<close>

fun count_terms :: "table \<Rightarrow> string list \<Rightarrow> f32 list \<Rightarrow> f32 list option" where
  "count_terms voc [] emb = Some emb"
| "count_terms voc (w # ws) emb =
     (case map_of voc w of
        None \<Rightarrow> count_terms voc ws emb
      | Some i \<Rightarrow> if i < length emb then count_terms voc ws (emb[i := f32_add (emb ! i) f32_one]) else None)"

definition l2_normalized :: "f32 list \<Rightarrow> f32 list" where
  "l2_normalized v = (let norm = l2_norm v in if f32_lt 0 norm then map (\<lambda>x. f32_div x norm) v else v)"

definition f32_half :: f32 where "f32_half = 0x3F000000"

definition export_state :: "'a msgpack \<Rightarrow> string \<Rightarrow> 'a \<Rightarrow> bytes res" where
  "export_state C label p = ok_or (mp_enc C p) (Corrupt label)"

definition import_state :: "'a msgpack \<Rightarrow> string \<Rightarrow> bytes \<Rightarrow> 'a res" where
  "import_state C label state = ok_or (mp_dec C state) (Corrupt label)"

subsection \<open>Bag of words (\<open>bow.rs\<close>)\<close>

record bag_of_words =
  bw_dimension :: nat
  bw_vocabulary :: table

definition bow_new :: "nat \<Rightarrow> bag_of_words" where
  "bow_new dim = \<lparr>bw_dimension = dim, bw_vocabulary = []\<rparr>"

definition bow_build_vocabulary :: "text_tables \<Rightarrow> string list \<Rightarrow> bag_of_words \<Rightarrow> bag_of_words" where
  "bow_build_vocabulary T texts p =
     (let word_counts = foldl tally [] (map (bow_tokenize T) texts)
      in p\<lparr>bw_vocabulary := insert_ranked (bw_dimension p) (by_frequency word_counts) []\<rparr>)"

definition bow_embed :: "text_tables \<Rightarrow> bag_of_words \<Rightarrow> string \<Rightarrow> f32 list option" where
  "bow_embed T p text =
     map_option l2_normalized (count_terms (bw_vocabulary p) (bow_tokenize T text) (replicate (bw_dimension p) 0))"

definition bow_add_document :: "text_tables \<Rightarrow> bag_of_words \<Rightarrow> string \<Rightarrow> bag_of_words" where
  "bow_add_document T p text =
     p\<lparr>bw_vocabulary := foldl (append_term (bw_dimension p)) (bw_vocabulary p) (unique_terms (bow_tokenize T text))\<rparr>"

definition bow_fit :: "text_tables \<Rightarrow> bag_of_words \<Rightarrow> string list \<Rightarrow> bag_of_words res" where
  "bow_fit T p corpus = Inr (bow_build_vocabulary T corpus p)"

definition bow_export :: "bag_of_words msgpack \<Rightarrow> bag_of_words \<Rightarrow> bytes res" where
  "bow_export C p = export_state C ''bow: export: '' p"

definition bow_import :: "bag_of_words msgpack \<Rightarrow> bag_of_words \<Rightarrow> bytes \<Rightarrow> bag_of_words res" where
  "bow_import C p state = import_state C ''bow: import: '' state"

subsection \<open>Character n-grams (\<open>char_ngram.rs\<close>)\<close>

record char_ngram =
  cn_dimension :: nat
  cn_n :: nat
  cn_ngram_map :: table

definition DEFAULT_N :: nat where "DEFAULT_N = 3"

definition ngram_new :: "nat \<Rightarrow> nat \<Rightarrow> char_ngram" where
  "ngram_new dim n = \<lparr>cn_dimension = dim, cn_n = max n 1, cn_ngram_map = []\<rparr>"

definition ngram_build_vocabulary :: "text_tables \<Rightarrow> string list \<Rightarrow> char_ngram \<Rightarrow> char_ngram" where
  "ngram_build_vocabulary T texts p =
     (let counts = foldl tally [] (map (extract_ngrams T (cn_n p)) texts)
      in p\<lparr>cn_ngram_map := insert_ranked (cn_dimension p) (by_frequency counts) []\<rparr>)"

definition ngram_embed :: "text_tables \<Rightarrow> char_ngram \<Rightarrow> string \<Rightarrow> f32 list option" where
  "ngram_embed T p text =
     map_option l2_normalized (count_terms (cn_ngram_map p) (extract_ngrams T (cn_n p) text) (replicate (cn_dimension p) 0))"

definition ngram_add_document :: "text_tables \<Rightarrow> char_ngram \<Rightarrow> string \<Rightarrow> char_ngram" where
  "ngram_add_document T p text =
     p\<lparr>cn_ngram_map := foldl (append_term (cn_dimension p)) (cn_ngram_map p) (unique_terms (extract_ngrams T (cn_n p) text))\<rparr>"

definition ngram_fit :: "text_tables \<Rightarrow> char_ngram \<Rightarrow> string list \<Rightarrow> char_ngram res" where
  "ngram_fit T p corpus = Inr (ngram_build_vocabulary T corpus p)"

definition ngram_export :: "char_ngram msgpack \<Rightarrow> char_ngram \<Rightarrow> bytes res" where
  "ngram_export C p = export_state C ''char_ngram: export: '' p"

definition ngram_import :: "char_ngram msgpack \<Rightarrow> char_ngram \<Rightarrow> bytes \<Rightarrow> char_ngram res" where
  "ngram_import C p state = import_state C ''char_ngram: import: '' state"

subsection \<open>BM25 (\<open>bm25.rs\<close>)\<close>

record bm25 =
  bm_dimension :: nat
  bm_vocabulary :: table
  bm_doc_freq :: table
  bm_doc_lengths :: "nat list"
  bm_avg_doc_length :: f32
  bm_total_docs :: nat
  bm_k1 :: f32
  bm_b :: f32

definition bm25_new :: "nat \<Rightarrow> bm25" where
  "bm25_new dim = \<lparr>bm_dimension = dim, bm_vocabulary = [], bm_doc_freq = [], bm_doc_lengths = [], bm_avg_doc_length = 0,
     bm_total_docs = 0, bm_k1 = 0x3FC00000, bm_b = 0x3F400000\<rparr>"

definition bm25_vocabulary_size :: "bm25 \<Rightarrow> nat" where
  "bm25_vocabulary_size p = length (bm_vocabulary p)"

definition average_length :: "nat list \<Rightarrow> nat \<Rightarrow> f32" where
  "average_length lengths docs = f32_div (f32_of_int (int (sum_list lengths))) (f32_of_int (int docs))"

definition bm25_build_vocabulary :: "text_tables \<Rightarrow> string list \<Rightarrow> bm25 \<Rightarrow> bm25" where
  "bm25_build_vocabulary T texts p =
     (let tokens = map (bm25_tokenize T) texts;
          lengths = bm_doc_lengths p @ map length tokens;
          word_counts = foldl tally [] tokens;
          doc_frequencies = foldl tally [] (map remdups tokens);
          ranked = by_frequency word_counts
      in p\<lparr>bm_doc_lengths := lengths,
           bm_total_docs := length texts,
           bm_avg_doc_length := (if texts = [] then 0 else average_length lengths (length texts)),
           bm_vocabulary := insert_ranked (bm_dimension p) ranked (bm_vocabulary p),
           bm_doc_freq := foldl (\<lambda>df (w, _). AList.update w (case map_of doc_frequencies w of None \<Rightarrow> 0 | Some n \<Rightarrow> n) df)
             (bm_doc_freq p) (take (bm_dimension p) ranked)\<rparr>)"

definition bm25_add_term :: "bm25 \<Rightarrow> string \<Rightarrow> bm25" where
  "bm25_add_term p term =
     (if map_of (bm_vocabulary p) term \<noteq> None then p\<lparr>bm_doc_freq := AList.map_default term 1 Suc (bm_doc_freq p)\<rparr>
      else if length (bm_vocabulary p) < bm_dimension p
        then p\<lparr>bm_vocabulary := AList.update term (length (bm_vocabulary p)) (bm_vocabulary p),
               bm_doc_freq := AList.update term 1 (bm_doc_freq p)\<rparr>
      else p)"

definition bm25_add_document :: "text_tables \<Rightarrow> bm25 \<Rightarrow> string \<Rightarrow> bm25" where
  "bm25_add_document T p text =
     (let tokens = bm25_tokenize T text;
          lengths = bm_doc_lengths p @ [length tokens];
          docs = bm_total_docs p + 1
      in foldl bm25_add_term
           (p\<lparr>bm_doc_lengths := lengths, bm_total_docs := docs, bm_avg_doc_length := average_length lengths docs\<rparr>)
           (unique_terms tokens))"

definition bm25_score :: "(f32 \<Rightarrow> f32) \<Rightarrow> bm25 \<Rightarrow> nat \<Rightarrow> nat \<Rightarrow> nat \<Rightarrow> f32" where
  "bm25_score ln p term_freq doc_length doc_freq =
     (if doc_freq = 0 \<or> f32_eq (bm_avg_doc_length p) 0 then 0
      else
        let N = f32_of_int (int (bm_total_docs p)); df = f32_of_int (int doc_freq); tf = f32_of_int (int term_freq);
            idf = ln (f32_add (f32_div (f32_add (f32_sub N df) f32_half) (f32_add df f32_half)) f32_one);
            weight = f32_add (f32_sub f32_one (bm_b p))
              (f32_div (f32_mul (bm_b p) (f32_of_int (int doc_length))) (bm_avg_doc_length p));
            score = f32_div (f32_mul tf (f32_add (bm_k1 p) f32_one)) (f32_add tf (f32_mul (bm_k1 p) weight))
        in f32_mul idf score)"

definition bm25_embed :: "text_tables \<Rightarrow> (f32 \<Rightarrow> f32) \<Rightarrow> bm25 \<Rightarrow> string \<Rightarrow> f32 list" where
  "bm25_embed T ln p text =
     (let tokens = bm25_tokenize T text;
          term_freq = tally [] tokens
      in l2_normalized (foldl (\<lambda>emb (term, i).
           if bm_dimension p \<le> i then emb
           else case map_of term_freq term of
               None \<Rightarrow> emb
             | Some tf \<Rightarrow>
                 if 0 < tf
                 then emb[i := bm25_score ln p tf (length tokens)
                        (case map_of (bm_doc_freq p) term of None \<Rightarrow> 0 | Some df \<Rightarrow> df)]
                 else emb)
           (replicate (bm_dimension p) 0) (bm_vocabulary p)))"

definition bm25_fit :: "text_tables \<Rightarrow> bm25 \<Rightarrow> string list \<Rightarrow> bm25 res" where
  "bm25_fit T p corpus =
     Inr (bm25_build_vocabulary T corpus
       (p\<lparr>bm_vocabulary := [], bm_doc_freq := [], bm_doc_lengths := [], bm_avg_doc_length := 0, bm_total_docs := 0\<rparr>))"

definition bm25_export :: "bm25 msgpack \<Rightarrow> bm25 \<Rightarrow> bytes res" where
  "bm25_export C p = export_state C ''bm25: export_state: '' p"

definition bm25_import :: "bm25 msgpack \<Rightarrow> bm25 \<Rightarrow> bytes \<Rightarrow> bm25 res" where
  "bm25_import C p state = import_state C ''bm25: import_state: '' state"

subsection \<open>TF-IDF (\<open>tfidf.rs\<close>)\<close>

record tfidf =
  tf_dimension :: nat
  tf_vocabulary :: table
  tf_idf_weights :: "f32 list"
  tf_doc_frequencies :: table
  tf_total_docs :: nat

definition tfidf_new :: "nat \<Rightarrow> tfidf" where
  "tfidf_new dim = \<lparr>tf_dimension = dim, tf_vocabulary = [], tf_idf_weights = [], tf_doc_frequencies = [], tf_total_docs = 0\<rparr>"

text \<open>\<open>(n / df as f32).ln().max(0.0)\<close>\<close>

definition idf_weight :: "(f32 \<Rightarrow> f32) \<Rightarrow> nat \<Rightarrow> nat \<Rightarrow> f32" where
  "idf_weight ln n df = f32_max (ln (f32_div (f32_of_int (int n)) (f32_of_int (int df)))) 0"

definition tfidf_add_term :: "tfidf \<Rightarrow> string \<Rightarrow> tfidf" where
  "tfidf_add_term p word =
     (let q = p\<lparr>tf_doc_frequencies := AList.map_default word 1 Suc (tf_doc_frequencies p)\<rparr>
      in if map_of (tf_vocabulary q) word = None \<and> length (tf_vocabulary q) < tf_dimension q
         then q\<lparr>tf_vocabulary := AList.update word (length (tf_vocabulary q)) (tf_vocabulary q),
                tf_idf_weights := tf_idf_weights q @ [0]\<rparr>
         else q)"

definition tfidf_refresh :: "(f32 \<Rightarrow> f32) \<Rightarrow> tfidf \<Rightarrow> tfidf" where
  "tfidf_refresh ln p =
     p\<lparr>tf_idf_weights := foldl (\<lambda>ws (word, i).
          case map_of (tf_doc_frequencies p) word of
            None \<Rightarrow> ws
          | Some df \<Rightarrow> if i < length ws then ws[i := idf_weight ln (tf_total_docs p) df] else ws)
        (tf_idf_weights p) (tf_vocabulary p)\<rparr>"

definition tfidf_add_document :: "text_tables \<Rightarrow> (f32 \<Rightarrow> f32) \<Rightarrow> tfidf \<Rightarrow> string \<Rightarrow> tfidf" where
  "tfidf_add_document T ln p text =
     tfidf_refresh ln (foldl tfidf_add_term (p\<lparr>tf_total_docs := tf_total_docs p + 1\<rparr>) (unique_terms (tfidf_tokenize T text)))"

text \<open>The scores compare by \<open>partial_cmp\<close>; none is a NaN, since \<open>max(0.0)\<close> gives none and a count is positive and finite.\<close>

definition tfidf_build_vocabulary :: "text_tables \<Rightarrow> (f32 \<Rightarrow> f32) \<Rightarrow> string list \<Rightarrow> tfidf \<Rightarrow> tfidf" where
  "tfidf_build_vocabulary T ln texts p =
     (let tokens = map (tfidf_tokenize T) texts;
          word_counts = foldl tally [] tokens;
          doc_frequencies = foldl tally [] (map remdups tokens);
          total = length texts;
          scored = map (\<lambda>(word, df).
            (word, f32_mul (f32_of_int (int (case map_of word_counts word of None \<Rightarrow> 0 | Some n \<Rightarrow> n)))
                     (if 0 < df then idf_weight ln total df else 0))) doc_frequencies;
          ranked = take (tf_dimension p) (sort_key (\<lambda>(w, x). (- f32_num_key x, w)) scored)
      in p\<lparr>tf_vocabulary := insert_ranked (tf_dimension p) ranked [],
           tf_idf_weights := map (\<lambda>(w, _). idf_weight ln total (case map_of doc_frequencies w of None \<Rightarrow> 1 | Some n \<Rightarrow> n)) ranked,
           tf_doc_frequencies := doc_frequencies,
           tf_total_docs := total\<rparr>)"

definition compute_tf :: "text_tables \<Rightarrow> string \<Rightarrow> (string \<times> f32) list" where
  "compute_tf T text =
     (let words = tfidf_tokenize T text
      in map (\<lambda>(w, c). (w, f32_div (f32_of_int (int c)) (f32_of_int (int (length words))))) (tally [] words))"

definition tfidf_embed :: "text_tables \<Rightarrow> tfidf \<Rightarrow> string \<Rightarrow> f32 list" where
  "tfidf_embed T p text =
     l2_normalized (foldl (\<lambda>emb (word, tf).
         case map_of (tf_vocabulary p) word of
           None \<Rightarrow> emb
         | Some i \<Rightarrow>
             if i < tf_dimension p
             then emb[i := f32_mul tf (if i < length (tf_idf_weights p) then tf_idf_weights p ! i else f32_one)]
             else emb)
       (replicate (tf_dimension p) 0) (compute_tf T text))"

definition tfidf_fit :: "text_tables \<Rightarrow> (f32 \<Rightarrow> f32) \<Rightarrow> tfidf \<Rightarrow> string list \<Rightarrow> tfidf res" where
  "tfidf_fit T ln p corpus = Inr (tfidf_build_vocabulary T ln corpus p)"

definition tfidf_export :: "tfidf msgpack \<Rightarrow> tfidf \<Rightarrow> bytes res" where
  "tfidf_export C p = export_state C ''tfidf: export: '' p"

definition tfidf_import :: "tfidf msgpack \<Rightarrow> tfidf \<Rightarrow> bytes \<Rightarrow> tfidf res" where
  "tfidf_import C p state = import_state C ''tfidf: import: '' state"

end
