(* ===== verification/Vocabularies.thy ===== *)
theory Vocabularies
  imports Embedders
begin

section \<open>Facts on vocabularies and frequency tables\<close>

text \<open>
  What the four providers share. \<open>voc_ok\<close> is the invariant of a vocabulary: distinct terms, numbered in the order in which
  they were added, at most as many as the vector has components. A table built by \<open>tally\<close> holds the counts, and
  ranking keeps the most frequent terms.
\<close>

subsection \<open>Vocabularies\<close>

definition voc_ok :: "nat \<Rightarrow> table \<Rightarrow> bool" where
  "voc_ok dim voc \<longleftrightarrow> distinct (map fst voc) \<and> map snd voc = [0..<length voc] \<and> length voc \<le> dim"

lemma table_update_fresh: "map_of al k = None \<Longrightarrow> AList.update k v al = al @ [(k, v)]"
  by (induction al) (auto split: if_splits)

lemma voc_ok_Nil [simp]: "voc_ok dim []"
  by (simp add: voc_ok_def)

lemma voc_ok_index: "voc_ok dim voc \<Longrightarrow> map_of voc w = Some i \<Longrightarrow> i < length voc \<and> i < dim"
proof -
  assume v: "voc_ok dim voc" and "map_of voc w = Some i"
  then have "i \<in> set (map snd voc)" by (force dest: map_of_SomeD)
  moreover have "map snd voc = [0..<length voc]" "length voc \<le> dim" using v by (simp_all add: voc_ok_def)
  ultimately have "i \<in> set [0..<length voc]" by (simp only:)
  then show "i < length voc \<and> i < dim" using \<open>length voc \<le> dim\<close> by simp
qed

lemma voc_ok_injective: "voc_ok dim voc \<Longrightarrow> map_of voc w = Some i \<Longrightarrow> map_of voc v = Some i \<Longrightarrow> w = v"
proof -
  assume v: "voc_ok dim voc" and "map_of voc w = Some i" "map_of voc v = Some i"
  then have "(w, i) \<in> set voc" "(v, i) \<in> set voc" by (auto dest: map_of_SomeD)
  moreover have "distinct (map snd voc)" using v by (simp add: voc_ok_def)
  ultimately show "w = v" by (metis distinct_map inj_on_contraD prod.inject snd_conv)
qed

lemma append_term_cases:
  obtains (keep) "append_term dim voc w = voc"
  | (add) "append_term dim voc w = voc @ [(w, length voc)]" "map_of voc w = None" "length voc < dim"
  by (cases "map_of voc w = None \<and> length voc < dim") (auto simp: append_term_def table_update_fresh)

lemma append_term_ok: "voc_ok dim voc \<Longrightarrow> voc_ok dim (append_term dim voc w)"
  by (cases rule: append_term_cases [of dim voc w]) (auto simp: voc_ok_def map_of_eq_None_iff)

lemma append_term_extends: "map_of voc \<subseteq>\<^sub>m map_of (append_term dim voc w)"
  by (cases rule: append_term_cases [of dim voc w]) (auto simp: map_le_def map_add_def dom_def split: option.splits)

lemma append_terms_terms: "fst ` set (foldl (append_term dim) voc ws) \<subseteq> fst ` set voc \<union> set ws"
proof (induction ws arbitrary: voc)
  case (Cons w ws)
  have "fst ` set (append_term dim voc w) \<subseteq> insert w (fst ` set voc)"
    by (cases rule: append_term_cases [of dim voc w]) auto
  then have "fst ` set (append_term dim voc w) \<union> set ws \<subseteq> fst ` set voc \<union> set (w # ws)" by auto
  then show ?case using subset_trans [OF Cons.IH [of "append_term dim voc w"]] by simp
qed simp

lemma append_terms_ok: "voc_ok dim voc \<Longrightarrow> voc_ok dim (foldl (append_term dim) voc ws)"
  by (induction ws arbitrary: voc) (auto intro: append_term_ok)

lemma append_terms_extends: "map_of voc \<subseteq>\<^sub>m map_of (foldl (append_term dim) voc ws)"
proof (induction ws arbitrary: voc)
  case (Cons w ws)
  show ?case using map_le_trans [OF append_term_extends [of voc dim w] Cons.IH] by simp
qed (simp add: map_le_def)

text \<open>A term is left out only when there is no room.\<close>

lemma append_terms_known:
  "w \<in> set ws \<Longrightarrow> length (foldl (append_term dim) voc ws) < dim \<Longrightarrow> map_of (foldl (append_term dim) voc ws) w \<noteq> None"
proof (induction ws arbitrary: voc)
  case (Cons x ws)
  have len: "length voc \<le> length (append_term dim voc x)" for voc :: table and x
    by (cases rule: append_term_cases [of dim voc x]) auto
  have "length voc \<le> length (foldl (append_term dim) voc ws)" for voc
  proof (induction ws arbitrary: voc)
    case (Cons w ws)
    then show ?case using len order_trans by fastforce
  qed simp
  note grow = this
  have "length voc \<le> length (foldl (append_term dim) voc (x # ws))" using order_trans [OF len grow] by simp
  then have "length voc < dim" using Cons.prems(2) by simp
  then have x: "map_of (append_term dim voc x) x \<noteq> None" by (simp add: append_term_def table_update_fresh map_add_def)
  show ?case
  proof (cases "w = x")
    case True
    then show ?thesis using x append_terms_extends [of "append_term dim voc x" dim ws] by (fastforce simp: map_le_def dom_def)
  next
    case False
    then show ?thesis using Cons by simp
  qed
qed simp

lemma insert_enumerated:
  "distinct (map fst xs) \<Longrightarrow> fst ` set xs \<inter> fst ` set voc = {} \<Longrightarrow>
     foldl (\<lambda>v (i, (w, _)). AList.update w i v) voc (enumerate k xs) = voc @ zip (map fst xs) [k..<k + length xs]"
proof (induction xs arbitrary: voc k)
  case (Cons x xs)
  obtain w a where x: "x = (w, a)" by (cases x)
  have "map_of voc w = None" using Cons.prems(2) x by (auto simp: map_of_eq_None_iff)
  then have "AList.update w k voc = voc @ [(w, k)]" by (rule table_update_fresh)
  moreover have "fst ` set xs \<inter> fst ` set (voc @ [(w, k)]) = {}" using Cons.prems x by auto
  moreover have "[k..<k + length (x # xs)] = k # [Suc k..<Suc k + length xs]"
    by (subst upt_conv_Cons) simp_all
  ultimately show ?case using Cons.IH [of "voc @ [(w, k)]" "Suc k"] Cons.prems(1) x by (simp del: upt_Suc)
qed simp

lemma insert_ranked_zip:
  "distinct (map fst xs) \<Longrightarrow> insert_ranked dim xs [] = zip (map fst (take dim xs)) [0..<min dim (length xs)]"
  using insert_enumerated [of "take dim xs" "[]" 0]
  by (simp add: insert_ranked_def take_map [symmetric] distinct_take min.commute)

lemma insert_ranked_ok: "distinct (map fst xs) \<Longrightarrow> voc_ok dim (insert_ranked dim xs [])"
  by (simp add: insert_ranked_zip voc_ok_def take_map [symmetric] distinct_take min.commute)

lemma insert_ranked_terms: "distinct (map fst xs) \<Longrightarrow> fst ` set (insert_ranked dim xs []) = fst ` set (take dim xs)"
proof -
  assume d: "distinct (map fst xs)"
  have "map fst (insert_ranked dim xs []) = map fst (take dim xs)"
    unfolding insert_ranked_zip [OF d] by (rule map_fst_zip) (simp add: min.commute)
  then have "set (map fst (insert_ranked dim xs [])) = set (map fst (take dim xs))" by (simp only:)
  then show ?thesis by (simp only: set_map)
qed

subsection \<open>Counting\<close>

lemma map_of_tally: "map_of (tally m ws) w
    = (if w \<in> set ws then Some (count_list ws w + (case map_of m w of None \<Rightarrow> 0 | Some n \<Rightarrow> n)) else map_of m w)"
proof (induction ws arbitrary: m)
  case (Cons x ws)
  have "tally m (x # ws) = tally (AList.map_default x 1 Suc m) ws" by (simp add: tally_def)
  then show ?case
    using Cons [of "AList.map_default x 1 Suc m"] count_notin [of w ws]
    by (auto simp: AList.map_of_map_default split: option.splits)
qed (simp add: tally_def)

lemma distinct_tally: "distinct (map fst m) \<Longrightarrow> distinct (map fst (tally m ws))"
  by (induction ws arbitrary: m) (auto simp: tally_def AList.distinct_map_default)

lemma distinct_tallies: "distinct (map fst m) \<Longrightarrow> distinct (map fst (foldl tally m wss))"
  by (induction wss arbitrary: m) (auto intro: distinct_tally)

lemma map_of_tallies: "map_of (foldl tally m wss) w
    = (if w \<in> set (concat wss) then Some (count_list (concat wss) w + (case map_of m w of None \<Rightarrow> 0 | Some n \<Rightarrow> n)) else map_of m w)"
proof (induction wss arbitrary: m)
  case (Cons ws wss)
  show ?case
    using Cons [of "tally m ws"] count_notin [of w ws] count_notin [of w "concat wss"]
    by (auto simp: map_of_tally count_list_append split: option.splits)
qed simp

text \<open>The counts of a corpus: occurrences of a term, and documents that have it.\<close>

lemma corpus_counts: "map_of (foldl tally [] wss) w = (if w \<in> set (concat wss) then Some (count_list (concat wss) w) else None)"
  by (simp add: map_of_tallies)

definition doc_count :: "string list list \<Rightarrow> string \<Rightarrow> nat" where
  "doc_count wss w = length (List.filter (\<lambda>ws. w \<in> set ws) wss)"

lemma count_remdups: "count_list (remdups ws) w = (if w \<in> set ws then 1 else 0)"
  by (induction ws) auto

lemma count_documents: "count_list (concat (map remdups wss)) w = doc_count wss w"
  by (induction wss) (auto simp: doc_count_def count_list_append count_remdups)

lemma doc_count_bounds: "doc_count wss w \<le> length wss" "0 < doc_count wss w \<longleftrightarrow> w \<in> set (concat wss)"
  by (auto simp: doc_count_def filter_empty_conv)

lemma document_counts:
  "map_of (foldl tally [] (map remdups wss)) w = (if w \<in> set (concat wss) then Some (doc_count wss w) else None)"
  using corpus_counts [of "map remdups wss" w] by (simp add: count_documents)

subsection \<open>Ranking\<close>

lemma distinct_map_sort: "distinct (map f (sort_key k xs)) = distinct (map f xs)"
  by (simp add: distinct_map)

lemma by_frequency_distinct: "distinct (map fst m) \<Longrightarrow> distinct (map fst (by_frequency m))"
  by (simp add: by_frequency_def distinct_map_sort)

lemma by_frequency_set [simp]: "set (by_frequency m) = set m" "length (by_frequency m) = length m"
  by (simp_all add: by_frequency_def)

text \<open>Whatever is cut off is not more frequent than what is kept.\<close>

lemma by_frequency_cut:
  assumes "(w, a) \<in> set (take n (by_frequency m))" and "(v, b) \<in> set (drop n (by_frequency m))"
  shows "b < a \<or> (b = a \<and> w \<le> v)"
proof -
  let ?k = "\<lambda>(w, n). (- int n, w)"
  have "sorted (map ?k (by_frequency m))" by (simp add: by_frequency_def)
  then have "sorted_wrt (\<lambda>x y. ?k x \<le> ?k y) (take n (by_frequency m) @ drop n (by_frequency m))" by (simp add: sorted_map)
  then have "?k (w, a) \<le> ?k (v, b)" using assms unfolding sorted_wrt_append by blast
  then show ?thesis by (auto simp: less_eq_prod_def)
qed

subsection \<open>Embedding\<close>

lemma count_terms_total:
  "(\<And>w i. map_of voc w = Some i \<Longrightarrow> i < length emb) \<Longrightarrow> \<exists>v. count_terms voc ws emb = Some v \<and> length v = length emb"
  by (induction voc ws emb rule: count_terms.induct) (auto split: option.splits)

lemma length_l2_normalized [simp]: "length (l2_normalized v) = length v"
  by (simp add: l2_normalized_def Let_def)

lemma length_foldl: "(\<And>v x. length (f v x) = length v) \<Longrightarrow> length (foldl f v xs) = length v"
  by (induction xs arbitrary: v) auto

lemma foldl_unchanged: "(\<And>x. x \<in> set xs \<Longrightarrow> f v x = v) \<Longrightarrow> foldl f v xs = v"
  by (induction xs) auto

lemma count_terms_unknown: "(\<And>w. w \<in> set ws \<Longrightarrow> map_of voc w = None) \<Longrightarrow> count_terms voc ws emb = Some emb"
  by (induction ws) auto

text \<open>The norm of a zero vector is zero, so it is not divided.\<close>

lemma zero_squares: "foldl f32_add f32_neg_zero (replicate n 0) \<in> {f32_neg_zero, 0}"
proof -
  have "f32_add f32_neg_zero 0 = 0" "f32_add 0 0 = 0" by code_simp+
  then have "foldl f32_add 0 (replicate n 0) = 0" for n by (induction n) simp_all
  then show ?thesis using \<open>f32_add f32_neg_zero 0 = 0\<close> by (cases n) simp_all
qed

lemma l2_normalized_zero [simp]: "l2_normalized (replicate n 0) = replicate n 0"
proof -
  have sq: "f32_mul 0 0 = 0" by code_simp
  have "\<not> f32_lt 0 (f32_sqrt f32_neg_zero)" "\<not> f32_lt 0 (f32_sqrt 0)" by code_simp+
  then show ?thesis
    using zero_squares [of n] by (auto simp: l2_normalized_def l2_norm_def f32_sum_def map_replicate sq)
qed

end
