(* ===== verification/Providers.thy ===== *)
theory Providers
  imports Vocabularies Text_Ops
begin

section \<open>The built-in providers behind their trait (\<open>embedding/mod.rs\<close>)\<close>

text \<open>
  A boxed \<open>dyn Embedder\<close> of the default build is one of four states; each method dispatches on it. \<open>provider_inv\<close> is the
  invariant of a provider, kept by learning and fitting: then embedding neither fails nor panics and gives a vector of the
  configured dimension. \<open>sized_embedder\<close> is what the text operations of a collection need of a provider.
\<close>

datatype provider = PBm25 bm25 | PTfIdf tfidf | PBow bag_of_words | PCharNgram char_ngram

record provider_env =
  pe_text :: text_tables
  pe_ln :: "f32 \<Rightarrow> f32"
  pe_bm25 :: "bm25 msgpack"
  pe_tfidf :: "tfidf msgpack"
  pe_bow :: "bag_of_words msgpack"
  pe_ngram :: "char_ngram msgpack"

definition build_provider :: "string \<Rightarrow> nat \<Rightarrow> provider res" where
  "build_provider name dim =
     (if name = ''bm25'' then Inr (PBm25 (bm25_new dim))
      else if name = ''tfidf'' then Inr (PTfIdf (tfidf_new dim))
      else if name = ''bow'' then Inr (PBow (bow_new dim))
      else if name = ''char_ngram'' then Inr (PCharNgram (ngram_new dim DEFAULT_N))
      else Inl (UnsupportedProvider name available_providers))"

fun provider_dimension :: "provider \<Rightarrow> nat" where
  "provider_dimension (PBm25 p) = bm_dimension p"
| "provider_dimension (PTfIdf p) = tf_dimension p"
| "provider_dimension (PBow p) = bw_dimension p"
| "provider_dimension (PCharNgram p) = cn_dimension p"

fun provider_embed :: "provider_env \<Rightarrow> provider \<Rightarrow> string \<Rightarrow> f32 list option" where
  "provider_embed P (PBm25 p) text = Some (bm25_embed (pe_text P) (pe_ln P) p text)"
| "provider_embed P (PTfIdf p) text = Some (tfidf_embed (pe_text P) p text)"
| "provider_embed P (PBow p) text = bow_embed (pe_text P) p text"
| "provider_embed P (PCharNgram p) text = ngram_embed (pe_text P) p text"

fun provider_add_document :: "provider_env \<Rightarrow> provider \<Rightarrow> string \<Rightarrow> provider" where
  "provider_add_document P (PBm25 p) text = PBm25 (bm25_add_document (pe_text P) p text)"
| "provider_add_document P (PTfIdf p) text = PTfIdf (tfidf_add_document (pe_text P) (pe_ln P) p text)"
| "provider_add_document P (PBow p) text = PBow (bow_add_document (pe_text P) p text)"
| "provider_add_document P (PCharNgram p) text = PCharNgram (ngram_add_document (pe_text P) p text)"

fun provider_fit :: "provider_env \<Rightarrow> provider \<Rightarrow> string list \<Rightarrow> provider res" where
  "provider_fit P (PBm25 p) corpus = tryR (bm25_fit (pe_text P) p corpus) (\<lambda>q. Inr (PBm25 q))"
| "provider_fit P (PTfIdf p) corpus = tryR (tfidf_fit (pe_text P) (pe_ln P) p corpus) (\<lambda>q. Inr (PTfIdf q))"
| "provider_fit P (PBow p) corpus = tryR (bow_fit (pe_text P) p corpus) (\<lambda>q. Inr (PBow q))"
| "provider_fit P (PCharNgram p) corpus = tryR (ngram_fit (pe_text P) p corpus) (\<lambda>q. Inr (PCharNgram q))"

fun provider_export :: "provider_env \<Rightarrow> provider \<Rightarrow> bytes res" where
  "provider_export P (PBm25 p) = bm25_export (pe_bm25 P) p"
| "provider_export P (PTfIdf p) = tfidf_export (pe_tfidf P) p"
| "provider_export P (PBow p) = bow_export (pe_bow P) p"
| "provider_export P (PCharNgram p) = ngram_export (pe_ngram P) p"

fun provider_import :: "provider_env \<Rightarrow> provider \<Rightarrow> bytes \<Rightarrow> provider res" where
  "provider_import P (PBm25 p) state = tryR (bm25_import (pe_bm25 P) p state) (\<lambda>q. Inr (PBm25 q))"
| "provider_import P (PTfIdf p) state = tryR (tfidf_import (pe_tfidf P) p state) (\<lambda>q. Inr (PTfIdf q))"
| "provider_import P (PBow p) state = tryR (bow_import (pe_bow P) p state) (\<lambda>q. Inr (PBow q))"
| "provider_import P (PCharNgram p) state = tryR (ngram_import (pe_ngram P) p state) (\<lambda>q. Inr (PCharNgram q))"

text \<open>
  The trait's methods. A panic leaves an operation the way an error does and is given a value of its own, \<open>panicked\<close>, which no
  method returns; under the invariant below it never comes up.
\<close>

definition panicked :: vec_lite_error where
  "panicked = InvalidArgument ''panic: index out of bounds''"

definition provider_ops :: "provider_env \<Rightarrow> provider embedder_ops" where
  "provider_ops P =
     \<lparr>em_embed = (\<lambda>p text. ok_or (provider_embed P p text) panicked),
      em_add_document = provider_add_document P, em_fit = provider_fit P,
      em_export = provider_export P, em_import = provider_import P\<rparr>"

fun embed_batch :: "provider_env \<Rightarrow> provider \<Rightarrow> string list \<Rightarrow> f32 list list option" where
  "embed_batch P p [] = Some []"
| "embed_batch P p (t # ts) =
     (case provider_embed P p t of
        None \<Rightarrow> None
      | Some v \<Rightarrow> map_option (\<lambda>vs. v # vs) (embed_batch P p ts))"

subsection \<open>The invariant\<close>

fun provider_vocabulary :: "provider \<Rightarrow> table" where
  "provider_vocabulary (PBm25 p) = bm_vocabulary p"
| "provider_vocabulary (PTfIdf p) = tf_vocabulary p"
| "provider_vocabulary (PBow p) = bw_vocabulary p"
| "provider_vocabulary (PCharNgram p) = cn_ngram_map p"

text \<open>The terms a provider finds in a text.\<close>

fun provider_tokens :: "provider_env \<Rightarrow> provider \<Rightarrow> string \<Rightarrow> string list" where
  "provider_tokens P (PBm25 p) text = bm25_tokenize (pe_text P) text"
| "provider_tokens P (PTfIdf p) text = tfidf_tokenize (pe_text P) text"
| "provider_tokens P (PBow p) text = bow_tokenize (pe_text P) text"
| "provider_tokens P (PCharNgram p) text = extract_ngrams (pe_text P) (cn_n p) text"

text \<open>A table of document counts: every count is positive and at most the number of documents.\<close>

definition counts_ok :: "nat \<Rightarrow> table \<Rightarrow> bool" where
  "counts_ok n df \<longleftrightarrow> (\<forall>w k. map_of df w = Some k \<longrightarrow> 1 \<le> k \<and> k \<le> n)"

definition bm25_tables_ok :: "bm25 \<Rightarrow> bool" where
  "bm25_tables_ok p \<longleftrightarrow> length (bm_doc_lengths p) = bm_total_docs p \<and> counts_ok (bm_total_docs p) (bm_doc_freq p)
     \<and> dom (map_of (bm_doc_freq p)) = dom (map_of (bm_vocabulary p))"

definition tfidf_tables_ok :: "tfidf \<Rightarrow> bool" where
  "tfidf_tables_ok p \<longleftrightarrow> length (tf_idf_weights p) = length (tf_vocabulary p)
     \<and> counts_ok (tf_total_docs p) (tf_doc_frequencies p)
     \<and> dom (map_of (tf_vocabulary p)) \<subseteq> dom (map_of (tf_doc_frequencies p))"

fun tables_ok :: "provider \<Rightarrow> bool" where
  "tables_ok (PBm25 p) \<longleftrightarrow> bm25_tables_ok p"
| "tables_ok (PTfIdf p) \<longleftrightarrow> tfidf_tables_ok p"
| "tables_ok (PBow p) \<longleftrightarrow> True"
| "tables_ok (PCharNgram p) \<longleftrightarrow> 1 \<le> cn_n p"

definition provider_inv :: "provider \<Rightarrow> bool" where
  "provider_inv p \<longleftrightarrow> voc_ok (provider_dimension p) (provider_vocabulary p) \<and> tables_ok p"

lemma built_inv: "build_provider name dim = Inr p \<Longrightarrow> provider_inv p \<and> provider_dimension p = dim"
  by (auto simp: build_provider_def provider_inv_def bm25_new_def tfidf_new_def bow_new_def ngram_new_def
      bm25_tables_ok_def tfidf_tables_ok_def counts_ok_def split: if_splits)

subsection \<open>Learning one document\<close>

lemma bm25_add_term_vocabulary:
  "bm_vocabulary (bm25_add_term p w) = append_term (bm_dimension p) (bm_vocabulary p) w"
  "bm_dimension (bm25_add_term p w) = bm_dimension p"
  "bm_total_docs (bm25_add_term p w) = bm_total_docs p" "bm_doc_lengths (bm25_add_term p w) = bm_doc_lengths p"
  by (auto simp: bm25_add_term_def append_term_def)

lemma bm25_add_terms_vocabulary:
  "bm_vocabulary (foldl bm25_add_term p ws) = foldl (append_term (bm_dimension p)) (bm_vocabulary p) ws
    \<and> bm_dimension (foldl bm25_add_term p ws) = bm_dimension p
    \<and> bm_total_docs (foldl bm25_add_term p ws) = bm_total_docs p
    \<and> bm_doc_lengths (foldl bm25_add_term p ws) = bm_doc_lengths p"
  by (induction ws arbitrary: p) (simp_all add: bm25_add_term_vocabulary)

text \<open>Each term of the document is counted once, so a count that was below the number of documents stays within it.\<close>

lemma bm25_add_terms_counts:
  assumes "distinct ws" and "counts_ok n (bm_doc_freq p)" and "1 \<le> n"
    and "\<And>w k. w \<in> set ws \<Longrightarrow> map_of (bm_doc_freq p) w = Some k \<Longrightarrow> k < n"
    and "dom (map_of (bm_doc_freq p)) = dom (map_of (bm_vocabulary p))"
  shows "counts_ok n (bm_doc_freq (foldl bm25_add_term p ws))
    \<and> dom (map_of (bm_doc_freq (foldl bm25_add_term p ws))) = dom (map_of (bm_vocabulary (foldl bm25_add_term p ws)))"
  using assms
proof (induction ws arbitrary: p)
  case (Cons x ws)
  let ?q = "bm25_add_term p x"
  have m: "map_of (bm_doc_freq ?q) =
      (if map_of (bm_vocabulary p) x \<noteq> None then (map_of (bm_doc_freq p))(x \<mapsto> (case map_of (bm_doc_freq p) x of None \<Rightarrow> 1 | Some k \<Rightarrow> Suc k))
       else if length (bm_vocabulary p) < bm_dimension p then (map_of (bm_doc_freq p))(x \<mapsto> 1) else map_of (bm_doc_freq p))"
    by (auto simp: bm25_add_term_def AList.map_of_map_default map_of_update split: option.splits)
  have c: "counts_ok n (bm_doc_freq ?q)"
    using Cons.prems(2,3) Cons.prems(4) [of x] by (auto simp: counts_ok_def m Suc_le_eq split: option.splits)
  have d: "dom (map_of (bm_doc_freq ?q)) = dom (map_of (bm_vocabulary ?q))"
    using Cons.prems(5) by (auto simp: m bm25_add_term_vocabulary append_term_def map_of_update)
  have s: "k < n" if "w \<in> set ws" "map_of (bm_doc_freq ?q) w = Some k" for w k
    using that Cons.prems(1) Cons.prems(4) [of w] by (auto simp: m split: if_splits)
  show ?case using Cons.IH [of ?q] Cons.prems(1,3) c d s by simp
qed simp

lemma unique_terms_facts [simp]: "distinct (unique_terms ws)" "set (unique_terms ws) = set ws"
  by (simp_all add: unique_terms_def)

lemma counts_ok_mono: "counts_ok n df \<Longrightarrow> n \<le> m \<Longrightarrow> counts_ok m df"
  by (force simp: counts_ok_def)

lemma bm25_add_inv: "bm25_tables_ok p \<Longrightarrow> bm25_tables_ok (bm25_add_document T p text)"
proof -
  assume p: "bm25_tables_ok p"
  let ?ws = "unique_terms (bm25_tokenize T text)" and ?n = "bm_total_docs p + 1"
    and ?lens = "bm_doc_lengths p @ [length (bm25_tokenize T text)]"
  let ?q = "p\<lparr>bm_doc_lengths := ?lens, bm_total_docs := ?n, bm_avg_doc_length := average_length ?lens ?n\<rparr>"
  have "counts_ok ?n (bm_doc_freq ?q)" using p counts_ok_mono [of "bm_total_docs p" _ ?n] by (simp add: bm25_tables_ok_def)
  moreover have "k < ?n" if "map_of (bm_doc_freq ?q) w = Some k" for w k
    using p that by (auto simp: bm25_tables_ok_def counts_ok_def less_Suc_eq_le)
  moreover have "dom (map_of (bm_doc_freq ?q)) = dom (map_of (bm_vocabulary ?q))" using p by (simp add: bm25_tables_ok_def)
  ultimately show ?thesis
    using bm25_add_terms_counts [of ?ws ?n ?q] bm25_add_terms_vocabulary [of ?q ?ws] p
    by (simp add: bm25_add_document_def Let_def bm25_tables_ok_def)
qed

lemma tfidf_add_term_parts:
  "tf_vocabulary (tfidf_add_term p w) = append_term (tf_dimension p) (tf_vocabulary p) w"
  "tf_dimension (tfidf_add_term p w) = tf_dimension p" "tf_total_docs (tfidf_add_term p w) = tf_total_docs p"
  "tf_doc_frequencies (tfidf_add_term p w) = AList.map_default w 1 Suc (tf_doc_frequencies p)"
  "length (tf_idf_weights p) = length (tf_vocabulary p) \<Longrightarrow>
     length (tf_idf_weights (tfidf_add_term p w)) = length (tf_vocabulary (tfidf_add_term p w))"
  by (auto simp: tfidf_add_term_def Let_def append_term_def table_update_fresh)

lemma tfidf_add_terms_parts:
  "tf_vocabulary (foldl tfidf_add_term p ws) = foldl (append_term (tf_dimension p)) (tf_vocabulary p) ws
    \<and> tf_dimension (foldl tfidf_add_term p ws) = tf_dimension p
    \<and> tf_total_docs (foldl tfidf_add_term p ws) = tf_total_docs p
    \<and> tf_doc_frequencies (foldl tfidf_add_term p ws) = tally (tf_doc_frequencies p) ws
    \<and> (length (tf_idf_weights p) = length (tf_vocabulary p) \<longrightarrow>
        length (tf_idf_weights (foldl tfidf_add_term p ws)) = length (tf_vocabulary (foldl tfidf_add_term p ws)))"
proof (induction ws arbitrary: p)
  case (Cons w ws)
  show ?case using Cons.IH [of "tfidf_add_term p w"] tfidf_add_term_parts [of p w] by (simp add: tally_def)
qed (simp add: tally_def)

lemma tfidf_refresh_parts:
  "tf_vocabulary (tfidf_refresh ln p) = tf_vocabulary p" "tf_dimension (tfidf_refresh ln p) = tf_dimension p"
  "tf_total_docs (tfidf_refresh ln p) = tf_total_docs p" "tf_doc_frequencies (tfidf_refresh ln p) = tf_doc_frequencies p"
  "length (tf_idf_weights (tfidf_refresh ln p)) = length (tf_idf_weights p)"
  unfolding tfidf_refresh_def by (simp_all, rule length_foldl) (auto split: option.splits)

lemma tally_once:
  "distinct ws \<Longrightarrow> map_of (tally m ws) w
     = (if w \<in> set ws then Some (case map_of m w of None \<Rightarrow> 1 | Some k \<Rightarrow> Suc k) else map_of m w)"
  using count_remdups [of ws w] by (auto simp: map_of_tally distinct_remdups_id split: option.splits)

lemma tfidf_add_inv: "tfidf_tables_ok p \<Longrightarrow> tfidf_tables_ok (tfidf_add_document T ln p text)"
proof -
  assume p: "tfidf_tables_ok p"
  let ?ws = "unique_terms (tfidf_tokenize T text)" and ?q = "p\<lparr>tf_total_docs := tf_total_docs p + 1\<rparr>"
  note parts = tfidf_add_terms_parts [of ?q ?ws]
  have len: "length (tf_idf_weights ?q) = length (tf_vocabulary ?q)" using p by (simp add: tfidf_tables_ok_def)
  have c: "counts_ok (tf_total_docs p + 1) (tally (tf_doc_frequencies p) ?ws)"
    using p unfolding counts_ok_def tfidf_tables_ok_def by (auto simp: tally_once split: if_splits option.splits) fastforce+
  have dom: "w \<in> dom (map_of (tally (tf_doc_frequencies p) ?ws))"
    if w: "map_of (foldl (append_term (tf_dimension p)) (tf_vocabulary p) ?ws) w = Some i" for w i
  proof -
    have "w \<in> fst ` set (foldl (append_term (tf_dimension p)) (tf_vocabulary p) ?ws)" using map_of_SomeD [OF w] by force
    then have "w \<in> fst ` set (tf_vocabulary p) \<union> set ?ws" using append_terms_terms by blast
    then have "w \<in> set ?ws \<or> w \<in> dom (map_of (tf_doc_frequencies p))"
      using p by (auto simp: tfidf_tables_ok_def dom_map_of_conv_image_fst)
    then show ?thesis by (auto simp: tally_once)
  qed
  show ?thesis
    using parts len c dom
    by (auto simp: tfidf_add_document_def tfidf_tables_ok_def tfidf_refresh_parts)
qed

lemma added_vocabulary:
  "provider_vocabulary (provider_add_document P p text)
     = foldl (append_term (provider_dimension p)) (provider_vocabulary p) (unique_terms (provider_tokens P p text))"
  by (cases p) (simp_all add: bm25_add_document_def Let_def bm25_add_terms_vocabulary tfidf_add_document_def
      tfidf_refresh_parts tfidf_add_terms_parts bow_add_document_def ngram_add_document_def)

lemma added_dimension [simp]: "provider_dimension (provider_add_document P p text) = provider_dimension p"
  by (cases p) (simp_all add: bm25_add_document_def bm25_add_terms_vocabulary Let_def tfidf_add_document_def
      tfidf_refresh_parts tfidf_add_terms_parts bow_add_document_def ngram_add_document_def)

lemma added_inv: "provider_inv p \<Longrightarrow> provider_inv (provider_add_document P p text)"
proof -
  assume p: "provider_inv p"
  have "tables_ok (provider_add_document P p text)"
    using p by (cases p) (auto simp: provider_inv_def bm25_add_inv tfidf_add_inv ngram_add_document_def)
  then show ?thesis using p append_terms_ok by (simp add: provider_inv_def added_vocabulary)
qed

end
