(* ===== verification/Provider_Props.thy ===== *)
theory Provider_Props
  imports Providers
begin

section \<open>The providers are sound, and what they learn\<close>

text \<open>
  Fitting rebuilds a provider's tables from the corpus alone; learning only appends. The reachable states are those the
  factory, \<open>add_document\<close>, \<open>fit\<close> and \<open>import_state\<close> of an exported state give. The last part is the contract the text operations of a collection rely on.
\<close>

subsection \<open>Fitting\<close>

lemma ranked_tallies_ok: "voc_ok dim (insert_ranked dim (by_frequency (foldl tally [] wss)) [])"
  by (simp add: insert_ranked_ok by_frequency_distinct distinct_tallies)

lemma map_of_foldl_update:
  "map_of (foldl (\<lambda>df (w, _). AList.update w (g w) df) m xs) w = (if w \<in> fst ` set xs then Some (g w) else map_of m w)"
  by (induction xs arbitrary: m) (auto simp: map_of_update)

lemma document_counts_ok: "counts_ok (length wss) (foldl tally [] (map remdups wss))"
  unfolding counts_ok_def document_counts using doc_count_bounds [of wss] by (auto simp: Suc_le_eq split: if_splits)

lemma bm25_fit_inv: "bm25_fit T p corpus = Inr q \<Longrightarrow> voc_ok (bm_dimension p) (bm_vocabulary q) \<and> bm25_tables_ok q \<and> bm_dimension q = bm_dimension p"
proof -
  assume q: "bm25_fit T p corpus = Inr q"
  let ?tokens = "map (bm25_tokenize T) corpus"
  let ?ranked = "by_frequency (foldl tally [] ?tokens)"
  let ?df = "foldl tally [] (map remdups ?tokens)"
  let ?g = "\<lambda>w. case map_of ?df w of None \<Rightarrow> 0 | Some n \<Rightarrow> n"
  have d: "distinct (map fst ?ranked)" by (simp add: by_frequency_distinct distinct_tallies)
  have m: "map_of (bm_doc_freq q) w = (if w \<in> fst ` set (take (bm_dimension p) ?ranked) then Some (?g w) else None)" for w
  proof -
    have "bm_doc_freq q = foldl (\<lambda>df (w, _). AList.update w (?g w) df) [] (take (bm_dimension p) ?ranked)"
      using q by (auto simp: bm25_fit_def bm25_build_vocabulary_def Let_def)
    then show ?thesis by (simp only: map_of_foldl_update) simp
  qed
  have v: "bm_vocabulary q = insert_ranked (bm_dimension p) ?ranked []" and n: "bm_total_docs q = length corpus"
    and l: "length (bm_doc_lengths q) = length corpus" and dim: "bm_dimension q = bm_dimension p"
    using q by (auto simp: bm25_fit_def bm25_build_vocabulary_def Let_def)
  have "1 \<le> ?g w \<and> ?g w \<le> length corpus" if "w \<in> fst ` set (take (bm_dimension p) ?ranked)" for w
  proof -
    have "w \<in> fst ` set (foldl tally [] ?tokens)" using that set_take_subset [of _ ?ranked] by fastforce
    then have "map_of (foldl tally [] ?tokens) w \<noteq> None" by (simp add: map_of_eq_None_iff)
    then have w: "w \<in> set (concat ?tokens)" by (auto simp: corpus_counts split: if_splits)
    then have "?g w = doc_count ?tokens w" unfolding document_counts by simp
    then show ?thesis using w doc_count_bounds [of ?tokens w] by (simp add: Suc_le_eq)
  qed
  then have "counts_ok (length corpus) (bm_doc_freq q)" by (auto simp: counts_ok_def m split: if_splits)
  moreover have "dom (map_of (bm_doc_freq q)) = dom (map_of (bm_vocabulary q))"
  proof -
    have "dom (map_of (bm_doc_freq q)) = fst ` set (take (bm_dimension p) ?ranked)" unfolding dom_def m by simp
    then show ?thesis unfolding v dom_map_of_conv_image_fst insert_ranked_terms [OF d] .
  qed
  ultimately show ?thesis using n l dim by (simp add: bm25_tables_ok_def v insert_ranked_ok [OF d])
qed

lemma tfidf_fit_inv:
  "tfidf_fit T ln p corpus = Inr q \<Longrightarrow> voc_ok (tf_dimension p) (tf_vocabulary q) \<and> tfidf_tables_ok q \<and> tf_dimension q = tf_dimension p"
proof -
  assume q: "tfidf_fit T ln p corpus = Inr q"
  let ?tokens = "map (tfidf_tokenize T) corpus"
  let ?df = "foldl tally [] (map remdups ?tokens)"
  define scored where "scored = map (\<lambda>(word, df).
      (word, f32_mul (f32_of_int (int (case map_of (foldl tally [] ?tokens) word of None \<Rightarrow> 0 | Some n \<Rightarrow> n)))
                (if 0 < df then idf_weight ln (length corpus) df else 0))) ?df"
  define ranked where "ranked = take (tf_dimension p) (sort_key (\<lambda>(w, x). (- f32_num_key x, w)) scored)"
  have s: "map fst scored = map fst ?df" by (auto simp: scored_def)
  have "distinct (map fst (sort_key (\<lambda>(w, x). (- f32_num_key x, w)) scored))"
    unfolding distinct_map_sort s by (rule distinct_tallies) simp
  then have d: "distinct (map fst ranked)" by (simp add: ranked_def take_map [symmetric] distinct_take)
  have v: "tf_vocabulary q = insert_ranked (tf_dimension p) ranked []" and n: "tf_total_docs q = length corpus"
    and f: "tf_doc_frequencies q = ?df" and dim: "tf_dimension q = tf_dimension p"
    and w: "length (tf_idf_weights q) = length ranked"
    using q by (auto simp: tfidf_fit_def tfidf_build_vocabulary_def Let_def ranked_def scored_def)
  have "length ranked \<le> tf_dimension p" by (simp add: ranked_def)
  then have "length (tf_vocabulary q) = length ranked" by (simp add: v insert_ranked_zip [OF d])
  moreover have "counts_ok (length corpus) ?df"
    using document_counts_ok [of ?tokens] by simp
  moreover have "fst ` set (tf_vocabulary q) \<subseteq> fst ` set ?df"
  proof -
    have "fst ` set (tf_vocabulary q) \<subseteq> set (map fst ranked)"
      using insert_ranked_terms [OF d] set_take_subset [of "tf_dimension p" ranked] by (auto simp: v)
    also have "\<dots> \<subseteq> set (map fst scored)" using set_take_subset by (fastforce simp: ranked_def)
    finally show ?thesis unfolding s by simp
  qed
  ultimately show ?thesis using n f dim w by (simp add: tfidf_tables_ok_def v insert_ranked_ok [OF d] dom_map_of_conv_image_fst)
qed

lemma fit_inv:
  assumes p: "provider_inv p" and q: "provider_fit P p corpus = Inr q"
  shows "provider_inv q \<and> provider_dimension q = provider_dimension p"
proof (cases p)
  case (PBm25 r)
  then obtain q' where "bm25_fit (pe_text P) r corpus = Inr q'" "q = PBm25 q'" using q by (auto simp: tryR_eq_Inr)
  then show ?thesis using bm25_fit_inv PBm25 by (auto simp: provider_inv_def)
next
  case (PTfIdf r)
  then obtain q' where "tfidf_fit (pe_text P) (pe_ln P) r corpus = Inr q'" "q = PTfIdf q'" using q by (auto simp: tryR_eq_Inr)
  then show ?thesis using tfidf_fit_inv PTfIdf by (auto simp: provider_inv_def)
qed (use p q in \<open>auto simp: provider_inv_def bow_fit_def bow_build_vocabulary_def ngram_fit_def ngram_build_vocabulary_def
    Let_def ranked_tallies_ok\<close>)

lemma fit_total: "\<exists>q. provider_fit P p corpus = Inr q"
  by (cases p) (simp_all add: bm25_fit_def tfidf_fit_def bow_fit_def ngram_fit_def)

subsection \<open>Reachable providers\<close>

text \<open>
  A state comes out of \<open>import_state\<close> when a file or a log entry is read: it is one that a provider of the same name and
  dimension exported. The codec is to decode what it encoded.
\<close>

definition state_codecs :: "provider_env \<Rightarrow> bool" where
  "state_codecs P \<longleftrightarrow> (\<forall>p b. mp_enc (pe_bm25 P) p = Some b \<longrightarrow> mp_dec (pe_bm25 P) b = Some p)
     \<and> (\<forall>p b. mp_enc (pe_tfidf P) p = Some b \<longrightarrow> mp_dec (pe_tfidf P) b = Some p)
     \<and> (\<forall>p b. mp_enc (pe_bow P) p = Some b \<longrightarrow> mp_dec (pe_bow P) b = Some p)
     \<and> (\<forall>p b. mp_enc (pe_ngram P) p = Some b \<longrightarrow> mp_dec (pe_ngram P) b = Some p)"

inductive provider_reachable :: "provider_env \<Rightarrow> string \<Rightarrow> nat \<Rightarrow> provider \<Rightarrow> bool" for P name dim where
  built: "build_provider name dim = Inr p \<Longrightarrow> provider_reachable P name dim p"
| added: "provider_reachable P name dim p \<Longrightarrow> provider_reachable P name dim (provider_add_document P p text)"
| fitted: "provider_reachable P name dim p \<Longrightarrow> provider_fit P p corpus = Inr q \<Longrightarrow> provider_reachable P name dim q"
| imported: "provider_reachable P name dim p \<Longrightarrow> provider_reachable P name dim q \<Longrightarrow> provider_export P q = Inr state
    \<Longrightarrow> provider_import P p state = Inr r \<Longrightarrow> provider_reachable P name dim r"

fun provider_name :: "provider \<Rightarrow> string" where
  "provider_name (PBm25 _) = ''bm25''"
| "provider_name (PTfIdf _) = ''tfidf''"
| "provider_name (PBow _) = ''bow''"
| "provider_name (PCharNgram _) = ''char_ngram''"

lemma imported_exported:
  assumes "state_codecs P" "provider_export P q = Inr state" "provider_import P p state = Inr r"
  shows "provider_name r = provider_name p" "provider_name p = provider_name q \<Longrightarrow> r = q"
  using assms
  by (cases p; cases q; auto simp: state_codecs_def tryR_eq_Inr bm25_export_def bm25_import_def tfidf_export_def tfidf_import_def
      bow_export_def bow_import_def ngram_export_def ngram_import_def export_state_def import_state_def ok_or_def split: option.splits)+

lemma added_name [simp]: "provider_name (provider_add_document P p text) = provider_name p"
  by (cases p) simp_all

lemma fitted_name: "provider_fit P p corpus = Inr q \<Longrightarrow> provider_name q = provider_name p"
  by (cases p) (auto simp: tryR_eq_Inr)

lemma reachable_name: "provider_reachable P name dim p \<Longrightarrow> state_codecs P \<Longrightarrow> provider_name p = name"
  by (induction rule: provider_reachable.induct) (auto simp: build_provider_def fitted_name imported_exported(1) split: if_splits)

lemma reachable_inv: "provider_reachable P name dim p \<Longrightarrow> state_codecs P \<Longrightarrow> provider_inv p \<and> provider_dimension p = dim"
proof (induction rule: provider_reachable.induct)
  case (imported p q state r)
  then have "r = q" using imported_exported(2) reachable_name by metis
  then show ?case using imported by simp
qed (auto dest: built_inv fit_inv intro: added_inv)

lemma embed_typed: "provider_inv p \<Longrightarrow> \<exists>v. provider_embed P p text = Some v \<and> length v = provider_dimension p"
proof -
  assume p: "provider_inv p"
  have total: "\<exists>v. count_terms (provider_vocabulary p) ws (replicate (provider_dimension p) 0) = Some v \<and> length v = provider_dimension p" for ws
    using p voc_ok_index count_terms_total [of "provider_vocabulary p" "replicate (provider_dimension p) 0" ws]
    by (fastforce simp: provider_inv_def)
  show ?thesis
  proof (cases p)
    case (PBm25 q)
    have "length (bm25_embed (pe_text P) (pe_ln P) q text) = bm_dimension q"
      unfolding bm25_embed_def Let_def length_l2_normalized
      by (rule trans [OF length_foldl]) (auto split: option.splits)
    then show ?thesis using PBm25 by simp
  next
    case (PTfIdf q)
    have "length (tfidf_embed (pe_text P) q text) = tf_dimension q"
      unfolding tfidf_embed_def length_l2_normalized
      by (rule trans [OF length_foldl]) (auto split: option.splits)
    then show ?thesis using PTfIdf by simp
  next
    case (PBow q)
    then show ?thesis using total by (auto simp: bow_embed_def) (metis length_l2_normalized)
  next
    case (PCharNgram q)
    then show ?thesis using total by (auto simp: ngram_embed_def) (metis length_l2_normalized)
  qed
qed


definition ascii_text :: text_tables where
  "ascii_text = \<lparr>tx_lower = (\<lambda>s. s), tx_alnum = (\<lambda>c. c \<noteq> [0x2E])\<rparr>"

definition no_codec :: "'a msgpack" where
  "no_codec = \<lparr>mp_enc = (\<lambda>_. None), mp_dec = (\<lambda>_. None)\<rparr>"

definition taught_words :: bag_of_words where
  "taught_words = \<lparr>bw_dimension = 2, bw_vocabulary = [(''bee'', 0), (''cow'', 1)]\<rparr>"

definition taught_bow :: provider where
  "taught_bow = PBow \<lparr>bw_dimension = 2, bw_vocabulary = [(''bee'', 0), (''cow'', 1)]\<rparr>"

text \<open>A codec that knows one state.\<close>

definition demo_providers :: provider_env where
  "demo_providers = \<lparr>pe_text = ascii_text, pe_ln = (\<lambda>x. x), pe_bm25 = no_codec, pe_tfidf = no_codec,
     pe_bow = \<lparr>mp_enc = (\<lambda>p. if p = taught_words then Some [0xc0] else None), mp_dec = (\<lambda>b. if b = [0xc0] then Some taught_words else None)\<rparr>,
     pe_ngram = no_codec\<rparr>"

lemma demo_codecs: "state_codecs demo_providers"
  by (simp add: state_codecs_def demo_providers_def no_codec_def)

lemmas ascii_eval = bow_tokenize_def lower_chars_def bytes_of_def utf8_cont_def is_space_def white_space_def trim_matches_def
  chars_string_def string_of_def ascii_text_def word_le_nat_alt

lemma demo_tokens: "bow_tokenize ascii_text ''cow bee. dog'' = [''cow'', ''bee'', ''dog'']"
  by code_simp

lemma taught_bow_reached: "provider_reachable demo_providers ''bow'' 2 taught_bow"
proof -
  have "build_provider ''bow'' 2 = Inr (PBow (bow_new 2))" by (simp add: build_provider_def)
  then have "provider_reachable demo_providers ''bow'' 2 (PBow (bow_new 2))" by (rule provider_reachable.built)
  then have "provider_reachable demo_providers ''bow'' 2 (provider_add_document demo_providers (PBow (bow_new 2)) ''cow bee. dog'')"
    by (rule provider_reachable.added)
  moreover have "unique_terms [''cow'', ''bee'', ''dog''] = [''bee'', ''cow'', ''dog'']" by code_simp
  ultimately show ?thesis
    by (simp add: bow_add_document_def demo_providers_def demo_tokens bow_new_def append_term_def taught_bow_def)
qed

lemma restored_bow_reached:
  "provider_import demo_providers (PBow (bow_new 2)) [0xc0] = Inr taught_bow" "provider_reachable demo_providers ''bow'' 2 taught_bow"
proof -
  have "build_provider ''bow'' 2 = Inr (PBow (bow_new 2))" by (simp add: build_provider_def)
  then have p: "provider_reachable demo_providers ''bow'' 2 (PBow (bow_new 2))" by (rule provider_reachable.built)
  have e: "provider_export demo_providers taught_bow = Inr [0xc0]"
    by (simp add: taught_bow_def taught_words_def demo_providers_def bow_export_def export_state_def ok_or_def)
  show i: "provider_import demo_providers (PBow (bow_new 2)) [0xc0] = Inr taught_bow"
    by (simp add: taught_bow_def taught_words_def demo_providers_def bow_import_def import_state_def ok_or_def)
  show "provider_reachable demo_providers ''bow'' 2 taught_bow"
    using provider_reachable.imported [OF p taught_bow_reached e i] .
qed



text \<open>
  C27. Learning a document never moves a term: every term keeps its index, so stored vectors stay comparable with new
  ones. As long as the vocabulary is not full, every term of the document is in it afterwards.
\<close>

theorem learning_moves_no_term:
  "map_of (provider_vocabulary p) \<subseteq>\<^sub>m map_of (provider_vocabulary (provider_add_document P p text))
    \<and> (length (provider_vocabulary (provider_add_document P p text)) = provider_dimension p
       \<or> set (provider_tokens P p text) \<subseteq> dom (map_of (provider_vocabulary (provider_add_document P p text))))"
  if "provider_inv p"
proof -
  let ?voc = "provider_vocabulary (provider_add_document P p text)"
  have "length ?voc \<le> provider_dimension p" using added_inv [OF that, of P "text"] by (simp add: provider_inv_def voc_ok_def)
  moreover have "w \<in> dom (map_of ?voc)" if "length ?voc < provider_dimension p" "w \<in> set (provider_tokens P p text)" for w
    using append_terms_known [of w "unique_terms (provider_tokens P p text)" "provider_dimension p" "provider_vocabulary p"] that
    by (simp add: added_vocabulary domIff)
  ultimately show ?thesis using append_terms_extends by (fastforce simp: added_vocabulary)
qed

theorem learning_moves_no_term_witness:
  "map_of (provider_vocabulary taught_bow) \<subseteq>\<^sub>m map_of (provider_vocabulary (provider_add_document demo_providers taught_bow ''ant cow''))
    \<and> (length (provider_vocabulary (provider_add_document demo_providers taught_bow ''ant cow'')) = provider_dimension taught_bow
       \<or> set (provider_tokens demo_providers taught_bow ''ant cow'')
          \<subseteq> dom (map_of (provider_vocabulary (provider_add_document demo_providers taught_bow ''ant cow''))))"
proof (rule learning_moves_no_term)
  show "provider_inv taught_bow" using reachable_inv [OF taught_bow_reached demo_codecs] by simp
qed

subsection \<open>What fitting keeps\<close>

text \<open>The configuration of a provider is what fitting leaves alone.\<close>

fun blank :: "provider \<Rightarrow> provider" where
  "blank (PBm25 p) = PBm25 (p\<lparr>bm_vocabulary := [], bm_doc_freq := [], bm_doc_lengths := [], bm_avg_doc_length := 0, bm_total_docs := 0\<rparr>)"
| "blank (PTfIdf p) = PTfIdf (tfidf_new (tf_dimension p))"
| "blank (PBow p) = PBow (bow_new (bw_dimension p))"
| "blank (PCharNgram p) = PCharNgram (p\<lparr>cn_ngram_map := []\<rparr>)"

lemma fit_blank: "provider_fit P (blank p) corpus = provider_fit P p corpus"
  by (cases p) (simp_all add: bm25_fit_def tfidf_fit_def tfidf_build_vocabulary_def tfidf_new_def bow_fit_def
      bow_build_vocabulary_def bow_new_def ngram_fit_def ngram_build_vocabulary_def Let_def)

lemma bm25_add_terms_more: "bm_k1 (foldl bm25_add_term p ws) = bm_k1 p \<and> bm_b (foldl bm25_add_term p ws) = bm_b p"
  by (induction ws arbitrary: p) (simp_all add: bm25_add_term_def)

lemma blank_added: "blank (provider_add_document P p text) = blank p"
  using added_dimension [of P p "text"]
  by (cases p) (auto simp: bm25_add_document_def Let_def tfidf_add_document_def bow_add_document_def ngram_add_document_def
      bm25_add_terms_vocabulary bm25_add_terms_more intro!: bm25.equality)

lemma blank_fitted: "provider_fit P p corpus = Inr q \<Longrightarrow> blank q = blank p"
  by (cases p) (auto simp: bm25_fit_def bm25_build_vocabulary_def tfidf_fit_def tfidf_build_vocabulary_def bow_fit_def
      bow_build_vocabulary_def ngram_fit_def ngram_build_vocabulary_def Let_def)

lemma reachable_blank: "provider_reachable P name dim p \<Longrightarrow> state_codecs P \<Longrightarrow> build_provider name dim = Inr f \<Longrightarrow> blank p = f"
proof (induction rule: provider_reachable.induct)
  case (imported p q state r)
  then have "r = q" using imported_exported(2) reachable_name by metis
  then show ?case using imported by simp
qed (auto simp: blank_added blank_fitted build_provider_def bm25_new_def tfidf_new_def bow_new_def ngram_new_def split: if_splits)

text \<open>The terms kept by a fit, where they are ranked by frequency.\<close>

fun ranked_by_frequency :: "provider \<Rightarrow> bool" where
  "ranked_by_frequency (PTfIdf _) = False"
| "ranked_by_frequency _ = True"

lemma provider_tokens_fun:
  "provider_tokens P (PBm25 a) = bm25_tokenize (pe_text P)" "provider_tokens P (PBow b) = bow_tokenize (pe_text P)"
  "provider_tokens P (PCharNgram c) = extract_ngrams (pe_text P) (cn_n c)"
  by (simp_all add: fun_eq_iff)

lemma fitted_vocabulary:
  assumes "ranked_by_frequency p" and "provider_fit P p corpus = Inr q"
  shows "provider_vocabulary q
    = insert_ranked (provider_dimension p) (by_frequency (foldl tally [] (map (provider_tokens P p) corpus))) []"
  using assms
  by (cases p) (auto simp: provider_tokens_fun bm25_fit_def bm25_build_vocabulary_def bow_fit_def bow_build_vocabulary_def
      ngram_fit_def ngram_build_vocabulary_def Let_def)

text \<open>Every kind of provider keeps as many terms of the corpus as there is room for.\<close>

lemma tallied_terms: "fst ` set (foldl tally [] wss) = set (concat wss)"
  unfolding dom_map_of_conv_image_fst [symmetric] dom_def corpus_counts by auto

lemma fitted_by_rank:
  assumes "provider_fit P p corpus = Inr q"
  shows "\<exists>ranked :: (string \<times> f32) list. distinct (map fst ranked) \<and> fst ` set ranked = set (concat (map (provider_tokens P p) corpus))
    \<and> provider_vocabulary q = insert_ranked (provider_dimension p) ranked []"
proof (cases "ranked_by_frequency p")
  case True
  let ?r = "by_frequency (foldl tally [] (map (provider_tokens P p) corpus))"
  have d: "distinct (map fst ?r)" by (simp add: by_frequency_distinct distinct_tallies)
  have "insert_ranked (provider_dimension p) ?r [] = insert_ranked (provider_dimension p) (map (\<lambda>(w, _). (w, 0 :: f32)) ?r) []"
    using d by (simp add: insert_ranked_zip take_map comp_def case_prod_beta)
  then show ?thesis
    using fitted_vocabulary [OF True assms] d tallied_terms [of "map (provider_tokens P p) corpus"]
    by (intro exI [where x = "map (\<lambda>(w, _). (w, 0)) ?r"]) (simp add: comp_def case_prod_beta image_image)
next
  case False
  then obtain r where p: "p = PTfIdf r" by (cases p) simp_all
  let ?tokens = "map (tfidf_tokenize (pe_text P)) corpus"
  let ?df = "foldl tally [] (map remdups ?tokens)"
  define scored where "scored = map (\<lambda>(word, df).
      (word, f32_mul (f32_of_int (int (case map_of (foldl tally [] ?tokens) word of None \<Rightarrow> 0 | Some n \<Rightarrow> n)))
                (if 0 < df then idf_weight (pe_ln P) (length corpus) df else 0))) ?df"
  let ?r = "sort_key (\<lambda>(w, x). (- f32_num_key x, w)) scored"
  have s: "map fst scored = map fst ?df" by (auto simp: scored_def)
  have "distinct (map fst ?r)" unfolding distinct_map_sort s by (rule distinct_tallies) simp
  moreover have "fst ` set ?r = set (concat (map (provider_tokens P p) corpus))"
  proof -
    have "fst ` set ?r = set (map fst scored)" by simp
    also have "\<dots> = set (concat (map remdups ?tokens))" unfolding s set_map by (rule tallied_terms)
    finally show ?thesis by (simp add: p)
  qed
  moreover have "provider_vocabulary q = insert_ranked (provider_dimension p) ?r []"
    using assms by (auto simp: p tfidf_fit_def tfidf_build_vocabulary_def Let_def scored_def insert_ranked_def)
  ultimately show ?thesis by blast
qed

lemma fitted_terms:
  assumes "provider_fit P p corpus = Inr q"
  shows "dom (map_of (provider_vocabulary q)) \<subseteq> set (concat (map (provider_tokens P p) corpus))
    \<and> card (dom (map_of (provider_vocabulary q))) = min (provider_dimension p) (card (set (concat (map (provider_tokens P p) corpus))))"
proof -
  obtain ranked :: "(string \<times> f32) list" where r: "distinct (map fst ranked)"
    "fst ` set ranked = set (concat (map (provider_tokens P p) corpus))"
    "provider_vocabulary q = insert_ranked (provider_dimension p) ranked []" using fitted_by_rank [OF assms] by blast
  have voc: "dom (map_of (provider_vocabulary q)) = set (take (provider_dimension p) (map fst ranked))"
    unfolding r(3) dom_map_of_conv_image_fst insert_ranked_terms [OF r(1)] by (simp add: take_map)
  have "card (fst ` set ranked) = length ranked" using distinct_card [OF r(1)] by simp
  then show ?thesis
    using set_take_subset [of "provider_dimension p" "map fst ranked"] distinct_card [OF distinct_take [OF r(1)], of "provider_dimension p"]
    unfolding voc r(2) [symmetric] by (simp add: min.commute)
qed


definition fitted_bow :: provider where
  "fitted_bow = PBow \<lparr>bw_dimension = 2, bw_vocabulary = [(''cow'', 0), (''bee'', 1)]\<rparr>"

lemma bow_fitted: "provider_fit demo_providers taught_bow [''cow bee. dog'', ''cow''] = Inr fitted_bow"
proof -
  have "bow_tokenize ascii_text ''cow'' = [''cow'']" by code_simp
  moreover have "insert_ranked 2 (by_frequency (foldl tally [] [[''cow'', ''bee'', ''dog''], [''cow'']])) [] = [(''cow'', 0), (''bee'', 1)]"
    by code_simp
  ultimately show ?thesis
    by (simp add: taught_bow_def fitted_bow_def demo_providers_def bow_fit_def bow_build_vocabulary_def demo_tokens)
qed


text \<open>
  C29. The document counts of TF-IDF stay exact under incremental updates: fitting a corpus and then learning documents gives
  every term the count, and the state the number of documents, that fitting all of them together gives.
\<close>

theorem tfidf_counts_incremental:
  assumes "tfidf_fit T ln p corpus = Inr q" and "tfidf_fit T ln p (corpus @ texts) = Inr r"
  shows "map_of (tf_doc_frequencies (foldl (tfidf_add_document T ln) q texts)) = map_of (tf_doc_frequencies r)
    \<and> tf_total_docs (foldl (tfidf_add_document T ln) q texts) = tf_total_docs r"
proof -
  let ?tok = "tfidf_tokenize T"
  have add: "tf_doc_frequencies (tfidf_add_document T ln s t) = tally (tf_doc_frequencies s) (unique_terms (?tok t))"
    "tf_total_docs (tfidf_add_document T ln s t) = tf_total_docs s + 1" for s t
    by (simp_all add: tfidf_add_document_def tfidf_refresh_parts tfidf_add_terms_parts)
  have adds: "tf_doc_frequencies (foldl (tfidf_add_document T ln) s texts) = foldl tally (tf_doc_frequencies s) (map (\<lambda>t. unique_terms (?tok t)) texts)
      \<and> tf_total_docs (foldl (tfidf_add_document T ln) s texts) = tf_total_docs s + length texts" for s
    by (induction texts arbitrary: s) (simp_all add: add)
  have count: "count_list (unique_terms ws) w = count_list (remdups ws) w" for ws w
    by (metis count_mset mset_sort unique_terms_def)
  have "map_of (foldl tally (foldl tally [] (map remdups (map ?tok corpus))) (map (\<lambda>t. unique_terms (?tok t)) texts)) w
      = map_of (foldl tally [] (map remdups (map ?tok (corpus @ texts)))) w" for w
  proof -
    have "count_list (concat (map (\<lambda>t. unique_terms (?tok t)) texts)) w = count_list (concat (map (\<lambda>t. remdups (?tok t)) texts)) w"
      by (induction texts) (simp_all add: count_list_append count)
    then show ?thesis
      unfolding foldl_append [symmetric] corpus_counts by (simp add: count_list_append comp_def)
  qed
  then show ?thesis
    using assms adds [of q] by (auto simp: tfidf_fit_def tfidf_build_vocabulary_def Let_def simp del: map_map)
qed

theorem tfidf_counts_incremental_witness:
  "map_of (tf_doc_frequencies (foldl (tfidf_add_document ascii_text (\<lambda>x. x))
        (tfidf_build_vocabulary ascii_text (\<lambda>x. x) [''cow bee''] (tfidf_new 4)) [''cow dog'']))
      = map_of (tf_doc_frequencies (tfidf_build_vocabulary ascii_text (\<lambda>x. x) [''cow bee'', ''cow dog''] (tfidf_new 4)))
    \<and> tf_total_docs (foldl (tfidf_add_document ascii_text (\<lambda>x. x))
        (tfidf_build_vocabulary ascii_text (\<lambda>x. x) [''cow bee''] (tfidf_new 4)) [''cow dog''])
      = tf_total_docs (tfidf_build_vocabulary ascii_text (\<lambda>x. x) [''cow bee'', ''cow dog''] (tfidf_new 4))"
  by (rule tfidf_counts_incremental [of _ _ "tfidf_new 4" "[''cow bee'']"]) (simp_all add: tfidf_fit_def)

end
