(* ===== verification/Text_Providers.thy ===== *)
theory Text_Providers
  imports Provider_Props
begin

section \<open>Text operations on built-in providers\<close>

text \<open>
  \<open>sized_embedder\<close> is the contract between a collection and its provider: an embedding succeeds with the provider's
  dimension, and learning and fitting keep the provider sound. What the text operations need of it is proved once, in the locale;
  the built-in providers meet it.
\<close>

locale sized_embedder =
  fixes ops :: "'e embedder_ops" and ok :: "nat \<Rightarrow> 'e \<Rightarrow> bool"
  assumes embed_sized: "ok d e \<Longrightarrow> \<exists>v. em_embed ops e t = Inr v \<and> length v = d"
    and learn_ok: "ok d e \<Longrightarrow> ok d (em_add_document ops e t)"
    and fit_ok: "ok d e \<Longrightarrow> em_fit ops e corpus = Inr e' \<Longrightarrow> ok d e'"
begin

lemma embed_nonzero_sized: "ok d e \<Longrightarrow> \<exists>v. embed_nonzero ops e t d = Inr v \<and> length v = d"
  using embed_sized [of d e t] by (cases d) (auto simp: embed_nonzero_def)

lemma text_points_sized:
  "ok d e \<Longrightarrow> text_points ops d items e = (res, e') \<Longrightarrow>
     ok d e' \<and> (\<forall>ps. res = Inr ps \<longrightarrow> (\<forall>p\<in>set ps. length (pt_vector p) = d)) \<and> (\<forall>err. res = Inl err \<longrightarrow> (\<exists>m. err = InvalidArgument m))"
proof (induction items arbitrary: e res e')
  case (Cons it items)
  obtain key t user where it: "it = (key, t, user)" by (cases it)
  show ?case
  proof (cases "Option.bind user reserved_key")
    case (Some k)
    then show ?thesis using Cons.prems it by auto
  next
    case None
    let ?e1 = "em_add_document ops e t"
    have ok1: "ok d ?e1" using learn_ok Cons.prems(1) .
    obtain v where v: "embed_nonzero ops ?e1 t d = Inr v" "length v = d" using embed_nonzero_sized [OF ok1] by blast
    obtain r e2 where r: "text_points ops d items ?e1 = (r, e2)" by fastforce
    show ?thesis using Cons.IH [OF ok1 r] Cons.prems(2) None v r it by (auto split: sum.splits)
  qed
qed auto

lemma refit_point_sized: "ok d e \<Longrightarrow> \<exists>p. refit_point ops e d doc = Inr p \<and> length (pt_vector p) = d"
  using embed_nonzero_sized [of d e "fst (snd doc)"] by (auto simp: refit_point_def)

lemma refit_points_sized:
  "ok d e \<Longrightarrow> \<exists>ps. mapR (refit_point ops e d) docs = Inr ps \<and> (\<forall>p\<in>set ps. length (pt_vector p) = d)"
proof (induction docs)
  case (Cons doc docs)
  then show ?case using refit_point_sized [of d e doc] by auto
qed simp

end

lemma provider_ops_simps [simp]:
  "em_embed (provider_ops P) = (\<lambda>p t. ok_or (provider_embed P p t) panicked)"
  "em_add_document (provider_ops P) = provider_add_document P" "em_fit (provider_ops P) = provider_fit P"
  "em_export (provider_ops P) = provider_export P" "em_import (provider_ops P) = provider_import P"
  by (simp_all add: provider_ops_def)

interpretation builtin: sized_embedder "provider_ops P" "\<lambda>d p. provider_inv p \<and> provider_dimension p = d"
proof
  show "\<exists>v. em_embed (provider_ops P) e t = Inr v \<and> length v = d" if "provider_inv e \<and> provider_dimension e = d" for d e t
    using embed_typed [of e P t] that by (auto simp: ok_or_def)
qed (auto dest: fit_inv intro: added_inv)

subsection \<open>No text operation fails on dimensions\<close>

definition dimension_error :: "'a res \<Rightarrow> bool" where
  "dimension_error r \<longleftrightarrow> (\<exists>a b. r = Inl (DimensionMismatch a b))"

text \<open>A log that fails as the storage layer does: no error of it is about dimensions.\<close>

definition plain_log :: "'s wal_log \<Rightarrow> bool" where
  "plain_log L \<longleftrightarrow> (\<forall>i op b s. \<not> dimension_error (fst (L i op b s)))"

lemma prepare_sized: "length (pt_vector p) = co_dimension opts \<Longrightarrow> \<not> dimension_error (prepare_inner json_len opts ar p)"
  by (auto simp: prepare_inner_def reserved_error_def dimension_error_def validate_id_def check_payload_def check_sparse_def prepare_vector_def
      tryR_eq_Inl Let_def dest: sparse_validate_error split: if_splits option.splits)

lemma upsert_sized:
  assumes "plain_log L" and "\<forall>p\<in>set points. length (pt_vector p) = co_dimension (cl_config c)"
    and u: "upsert_batch_step json_len M L ar points c s = (r, c', s')"
  shows "\<not> dimension_error r"
proof -
  have "\<not> dimension_error (mapR (prepare_inner json_len (cl_config c) ar) points)"
    unfolding dimension_error_def using prepare_sized assms(2) by (metis dimension_error_def mapR_InlE)
  moreover have "\<not> dimension_error (fst (coll_log L UpsertBatch body c s))" for body
    using assms(1) by (auto simp: coll_log_def plain_log_def dimension_error_def split: option.splits)
  ultimately show ?thesis
    using u by (auto simp: upsert_batch_step_def dimension_error_def guard_def encode_wal_def wal_encode_def ok_or_def
        tryR_eq_Inl split: sum.splits prod.splits if_splits option.splits) (metis fst_conv)+
qed

lemma log_vocab_sized: "plain_log (ev_log V) \<Longrightarrow> ev_emb V = provider_ops P \<Longrightarrow> log_vocab V e c s = (r, s') \<Longrightarrow> \<not> dimension_error r"
proof (goal_cases)
  case 1
  have "\<not> dimension_error (provider_export P e)"
    by (cases e) (auto simp: dimension_error_def bm25_export_def tfidf_export_def bow_export_def ngram_export_def export_state_def)
  moreover have "\<not> dimension_error (fst (coll_log (ev_log V) VocabUpdate body c s))" for body
    using 1(1) by (auto simp: coll_log_def plain_log_def dimension_error_def split: option.splits)
  ultimately show ?case
    using 1(2,3) by (auto simp: log_vocab_def dimension_error_def split: if_splits sum.splits) (metis fst_conv)+
qed

text \<open>The collection's embedder is one of the built-in providers, sound and of the collection's dimension.\<close>

definition provider_bound :: "'q collection \<Rightarrow> provider list \<Rightarrow> nat \<Rightarrow> bool" where
  "provider_bound c E r \<longleftrightarrow> cl_embedder c = EmbReady r \<and> r < length E \<and> provider_inv (E ! r)
     \<and> provider_dimension (E ! r) = co_dimension (cl_config c)"

lemma refit_sized:
  assumes V: "ev_emb V = provider_ops P" "plain_log (ev_log V)" and b: "provider_bound c E r"
    and "do_refit_step V c E s = (res, c', E', s')"
  shows "\<not> dimension_error res \<and> provider_bound c' E' r"
proof -
  let ?d = "co_dimension (cl_config c)" and ?docs = "text_documents (cl_data c)"
  have ready: "embedder_ready c = Some r" using b by (simp add: provider_bound_def embedder_ready_def)
  consider (idle) "res = Inr ()" "c' = c" "E' = E"
    | (ran) emb where "?docs \<noteq> []" "provider_fit P (E ! r) (map (\<lambda>d. fst (snd d)) ?docs) = Inr emb"
    using fit_total [of P "E ! r"] assms(4) V(1) ready by (auto simp: do_refit_step_def Let_def split: if_splits)
  then show ?thesis
  proof cases
    case idle
    then show ?thesis using b by (simp add: dimension_error_def)
  next
    case ran
    have emb: "provider_inv emb \<and> provider_dimension emb = ?d"
      using fit_inv [OF _ ran(2)] b by (simp add: provider_bound_def)
    obtain ps where ps: "mapR (refit_point (provider_ops P) emb ?d) ?docs = Inr ps" "\<forall>p\<in>set ps. length (pt_vector p) = ?d"
      using builtin.refit_points_sized [OF emb] by blast
    obtain r1 c1 s1 where u: "upsert_batch_step (ev_json_len V) (wm_points (ev_wal V)) (ev_log V) True ps c s = (r1, c1, s1)"
      using prod_cases3 by blast
    have same: "cl_embedder c1 = cl_embedder c" "cl_config c1 = cl_config c" using upsert_inner_cases [OF u] by auto
    have "\<not> dimension_error r1" using upsert_sized [OF V(2) ps(2) u] .
    moreover obtain r2 s2 where w: "log_vocab V emb c1 s1 = (r2, s2)" by fastforce
    moreover have "\<not> dimension_error r2" using log_vocab_sized [OF V(2) V(1) w] .
    ultimately show ?thesis
      using assms(4) V(1) ready ran ps(1) u w b emb same
      by (auto simp: do_refit_step_def Let_def provider_bound_def dimension_error_def split: sum.splits)
  qed
qed

text \<open>
  C30. On a collection whose embedder is a sound built-in provider of its dimension, writing documents never fails with a
  dimension mismatch, whatever the documents and whether or not the batch is accepted; the embedder stays sound and of that
  dimension, and it has kept every term at its index. (It has learned the documents of a rejected batch too.)
\<close>

theorem text_upsert_fits:
  assumes V: "ev_emb V = provider_ops P" "plain_log (ev_log V)" and b: "provider_bound c E r"
    and u: "upsert_text_batch_step V items c E s = (res, c', E', s')"
  shows "\<not> dimension_error res \<and> provider_bound c' E' r
    \<and> map_of (provider_vocabulary (E ! r)) \<subseteq>\<^sub>m map_of (provider_vocabulary (E' ! r))"
proof -
  let ?d = "co_dimension (cl_config c)"
  have ok: "provider_inv (E ! r) \<and> provider_dimension (E ! r) = ?d" and r: "r < length E" "text_embedder c = Inr r"
    using b by (simp_all add: provider_bound_def text_embedder_def)
  obtain res1 emb where t: "text_points (provider_ops P) ?d items (E ! r) = (res1, emb)" by fastforce
  have grows: "map_of (provider_vocabulary e) \<subseteq>\<^sub>m map_of (provider_vocabulary e')"
    if "text_points (provider_ops P) ?d items e = (x, e')" for items e x e'
    using that
  proof (induction items arbitrary: e x e')
    case (Cons it items)
    obtain key t user where it: "it = (key, t, user)" by (cases it)
    have a: "map_of (provider_vocabulary e) \<subseteq>\<^sub>m map_of (provider_vocabulary (provider_add_document P e t))"
      by (simp add: added_vocabulary append_terms_extends)
    obtain y e2 where y: "text_points (provider_ops P) ?d items (provider_add_document P e t) = (y, e2)" by fastforce
    show ?case
      using Cons.prems it a y map_le_trans [OF a Cons.IH [OF y]] by (auto simp: Let_def split: option.splits sum.splits)
  qed simp
  note sized = builtin.text_points_sized [OF ok t]
  show ?thesis
  proof (cases res1)
    case (Inl err)
    then show ?thesis
      using u V t r sized b grows [OF t]
      by (auto simp: upsert_text_batch_step_def guard_def dimension_error_def provider_bound_def split: if_splits)
  next
    case (Inr points)
    obtain r1 c1 s1 where i: "upsert_batch_step (ev_json_len V) (wm_points (ev_wal V)) (ev_log V) True points c s = (r1, c1, s1)"
      using prod_cases3 by blast
    have same: "cl_embedder c1 = cl_embedder c" "cl_config c1 = cl_config c" using upsert_inner_cases [OF i] by auto
    have "\<not> dimension_error r1" using upsert_sized [OF V(2) _ i] sized Inr by blast
    then show ?thesis
      using u V t r sized b grows [OF t] i same Inr
      by (auto simp: upsert_text_batch_step_def guard_def dimension_error_def provider_bound_def split: if_splits sum.splits)
  qed
qed

lemma bound_undirtied: "provider_bound (c\<lparr>cl_text_dirty := b\<rparr>) E r = provider_bound c E r"
  by (simp add: provider_bound_def)

lemma run_query_sized: "length query = co_dimension (cl_config c) \<Longrightarrow> \<not> dimension_error (run_query ann c query limit ef wp wv None)"
  by (auto simp: run_query_def check_query_def ranked_slots_def unfiltered_def hnsw_search_def dimension_error_def limit_error_def
      bounds_error_def active_filter_def tryR_eq_Inl validate_option_def Let_def split: if_splits option.splits prod.splits)

lemma refit_clears: "do_refit_step V c E s = (Inr (), c', E', s') \<Longrightarrow> \<not> cl_text_dirty c \<Longrightarrow> \<not> cl_text_dirty c'"
  by (auto simp: do_refit_step_def Let_def split: option.splits if_splits sum.splits prod.splits)

lemma refit_fitted:
  assumes V: "ev_emb V = provider_ops P" and b: "provider_bound c E r" and "text_documents (cl_data c) \<noteq> []"
    and "do_refit_step V c E s = (Inr (), c', E', s')"
  shows "provider_fit P (E ! r) (map (\<lambda>d. fst (snd d)) (text_documents (cl_data c))) = Inr (E' ! r)"
proof -
  have "embedder_ready c = Some r" "r < length E" using b by (simp_all add: provider_bound_def embedder_ready_def)
  then show ?thesis
    using assms(3,4) V by (auto simp: do_refit_step_def Let_def split: sum.splits prod.splits)
qed

text \<open>
  C31. A text search on a collection with a sound built-in provider of its dimension never fails with a dimension mismatch and
  leaves the embedder sound; and when it returns hits, the collection is no longer stale: if documents had been written
  since the last fit, the embedder is now the exact fit of the texts of all stored documents.
\<close>

theorem search_text_refits:
  assumes V: "ev_emb V = provider_ops P" "plain_log (ev_log V)" and b: "provider_bound c E r"
    and s: "search_text V query limit c E s = (res, c', E', s')"
  shows "\<not> dimension_error res \<and> provider_bound c' E' r
    \<and> (\<forall>hits. res = Inr hits \<longrightarrow> \<not> cl_text_dirty c' \<and>
        (cl_text_dirty c \<longrightarrow> text_documents (cl_data c) \<noteq> [] \<longrightarrow>
          provider_fit P (E ! r) (map (\<lambda>d. fst (snd d)) (text_documents (cl_data c))) = Inr (E' ! r)))"
proof (cases "cl_deleted c")
  case True
  then show ?thesis using s b by (auto simp: search_text_def guard_def dimension_error_def)
next
  case False
  have t: "tryR (guard c) (\<lambda>_. text_embedder c) = Inr r"
    using False b by (simp add: guard_def text_embedder_def provider_bound_def)
  obtain x c1 E1 s1 where f: "refit_if_dirty_step V c E s = (x, c1, E1, s1)" using prod_cases4 by blast
  have fit: "\<not> dimension_error x \<and> provider_bound c1 E1 r \<and> (x = Inr () \<longrightarrow> \<not> cl_text_dirty c1 \<and>
      (cl_text_dirty c \<longrightarrow> text_documents (cl_data c) \<noteq> [] \<longrightarrow>
        provider_fit P (E ! r) (map (\<lambda>d. fst (snd d)) (text_documents (cl_data c))) = Inr (E1 ! r)))"
  proof (cases "cl_text_dirty c")
    case True
    then have d: "do_refit_step V (c\<lparr>cl_text_dirty := False\<rparr>) E s = (x, c1, E1, s1)" using f by (simp add: refit_if_dirty_step_def)
    have b0: "provider_bound (c\<lparr>cl_text_dirty := False\<rparr>) E r" using b by (simp add: bound_undirtied)
    show ?thesis
      using refit_sized [OF V b0 d] refit_clears [of V "c\<lparr>cl_text_dirty := False\<rparr>" E s c1 E1 s1]
        refit_fitted [OF V(1) b0, of s c1 E1 s1] d by auto
  next
    case clean: False
    then show ?thesis using f b by (auto simp: refit_if_dirty_step_def dimension_error_def)
  qed
  show ?thesis
  proof (cases x)
    case (Inl e)
    then show ?thesis using s t f fit by (auto simp: search_text_def dimension_error_def)
  next
    case (Inr u)
    then have clean: "\<not> cl_text_dirty c1" using fit by simp
    obtain v where v: "provider_embed P (E1 ! r) query = Some v" "length v = co_dimension (cl_config c1)"
      using fit embed_typed [of "E1 ! r" P query] by (auto simp: provider_bound_def)
    from v(2) have run: "\<not> dimension_error (run_query (ev_ann V) c1 v limit None True False None)" by (rule run_query_sized)
    have "(if 0 < limit \<and> (\<forall>x\<in>set v. f32_eq x 0) then (Inr [], c1, E1, s1) else search V v limit c1 E1 s1) = (res, c', E', s')"
      using s t f Inr V(1) v(1) by (simp add: search_text_def ok_or_def split del: if_split)
    moreover have "search V v limit c1 E1 s1 = (case guard c1 of Inl e \<Rightarrow> (Inl e, c1, E1, s1)
        | Inr _ \<Rightarrow> (run_query (ev_ann V) c1 v limit None True False None, c1, E1, s1))"
      using clean by (simp add: search_def execute_query_def refit_if_dirty_step_def split: sum.splits)
    ultimately show ?thesis
      using fit Inr run by (auto simp: guard_def dimension_error_def split: if_splits)
  qed
qed

subsection \<open>An imported state is taken as it is\<close>

text \<open>
  A state restored from a file is not checked. If its vocabulary holds an index the vector does not have, embedding a text
  with that term panics for the bag of words; BM25 with the very same vocabulary skips the term and returns a vector.
\<close>

theorem imported_index_unchecked:
  assumes "mp_dec C state = Some q" and "map_of (bw_vocabulary q) w = Some i" and "bw_dimension q \<le> i" and "w \<in> set (bow_tokenize T text)"
  shows "bow_import C p state = Inr q \<and> bow_embed T q text = None
    \<and> length (bm25_embed T ln (b\<lparr>bm_dimension := bw_dimension q, bm_vocabulary := bw_vocabulary q\<rparr>) text) = bw_dimension q"
proof -
  have "count_terms voc ws emb = None" if "w \<in> set ws" "map_of voc w = Some i" "length emb \<le> i" for voc ws emb
    using that by (induction voc ws emb rule: count_terms.induct) (auto split: option.splits)
  then have "bow_embed T q text = None" using assms(2-4) by (simp add: bow_embed_def)
  moreover have "length (bm25_embed T ln (b\<lparr>bm_dimension := bw_dimension q, bm_vocabulary := bw_vocabulary q\<rparr>) text) = bw_dimension q"
    unfolding bm25_embed_def Let_def length_l2_normalized by (rule trans [OF length_foldl]) (auto split: option.splits)
  ultimately show ?thesis using assms(1) by (simp add: bow_import_def import_state_def)
qed

theorem imported_index_unchecked_witness:
  "bow_import \<lparr>mp_enc = (\<lambda>_. None), mp_dec = (\<lambda>_. Some \<lparr>bw_dimension = 1, bw_vocabulary = [(''cow'', 1)]\<rparr>)\<rparr> (bow_new 1) []
      = Inr \<lparr>bw_dimension = 1, bw_vocabulary = [(''cow'', 1)]\<rparr>
    \<and> bow_embed ascii_text \<lparr>bw_dimension = 1, bw_vocabulary = [(''cow'', 1)]\<rparr> ''cow bee. dog'' = None
    \<and> length (bm25_embed ascii_text (\<lambda>x. x) ((bm25_new 1)\<lparr>bm_dimension := bw_dimension \<lparr>bw_dimension = 1, bw_vocabulary = [(''cow'', 1)]\<rparr>,
          bm_vocabulary := bw_vocabulary \<lparr>bw_dimension = 1, bw_vocabulary = [(''cow'', 1)]\<rparr>\<rparr>) ''cow bee. dog'')
      = bw_dimension \<lparr>bw_dimension = 1, bw_vocabulary = [(''cow'', 1)]\<rparr>"
  by (rule imported_index_unchecked [where w = "''cow''" and i = 1]) (simp_all add: demo_tokens)

subsection \<open>A small collection with a provider\<close>

definition provider_world :: "(provider, unit) env" where
  "provider_world = \<lparr>ev_json_len = (\<lambda>_. 0), ev_wal = no_wal, ev_emb = provider_ops demo_providers,
     ev_log = (\<lambda>_ _ _ s. (Inr (), s)), ev_ann = linear_ann, ev_build = build_provider, ev_now = 0\<rparr>"

lemma provider_world_env: "ev_emb provider_world = provider_ops demo_providers" "plain_log (ev_log provider_world)"
  by (simp_all add: provider_world_def plain_log_def dimension_error_def)

lemma text_coll_bound: "provider_bound (text_coll\<lparr>cl_text_dirty := b\<rparr>) [taught_bow] 0"
  using reachable_inv [OF taught_bow_reached demo_codecs] text_coll_inv(2)
  by (simp add: provider_bound_def text_coll_def demo_coll_def options_new_def)

theorem text_upsert_fits_witness:
  "\<exists>res c' E' s'. upsert_text_batch_step provider_world [(''k'', ''cow bee. dog'', None)] (text_coll\<lparr>cl_text_dirty := False\<rparr>) [taught_bow] () = (res, c', E', s')
    \<and> \<not> dimension_error res \<and> provider_bound c' E' 0
    \<and> map_of (provider_vocabulary ([taught_bow] ! 0)) \<subseteq>\<^sub>m map_of (provider_vocabulary (E' ! 0))"
  using text_upsert_fits [OF provider_world_env text_coll_bound, of "[(''k'', ''cow bee. dog'', None)]" False]
  by (meson prod_cases4)

text \<open>A stale collection with the document of one word, and an embedder that has learned more: the search fits anew and finds it.\<close>

definition cow_bow :: provider where
  "cow_bow = PBow \<lparr>bw_dimension = 2, bw_vocabulary = [(''cow'', 0)]\<rparr>"

lemma cow_fitted: "provider_fit demo_providers taught_bow [''cow''] = Inr cow_bow"
proof -
  have "bow_tokenize ascii_text ''cow'' = [''cow'']" by code_simp
  moreover have "insert_ranked 2 (by_frequency (foldl tally [] [[''cow'']])) [] = [(''cow'', 0)]" by code_simp
  ultimately show ?thesis
    by (simp add: taught_bow_def cow_bow_def demo_providers_def bow_fit_def bow_build_vocabulary_def)
qed

lemma cow_embedded: "provider_embed demo_providers cow_bow ''cow'' = Some [0x3F800000, 0]"
proof -
  have "bow_tokenize ascii_text ''cow'' = [''cow'']" by code_simp
  moreover have "count_terms [(''cow'', 0)] [''cow''] (replicate 2 0) = Some [0x3F800000, 0]" by code_simp
  moreover have "l2_normalized [0x3F800000, 0] = [0x3F800000, 0]" by code_simp
  ultimately show ?thesis by (simp add: cow_bow_def demo_providers_def bow_embed_def)
qed

lemma cow_data:
  "cd_ids (apply_prepared 2 [text_prepared] (cl_data text_coll)) = [''a'', ''a'']"
  "cd_id_to_slot (apply_prepared 2 [text_prepared] (cl_data text_coll)) = [(''a'', 1)]"
  "cd_index (apply_prepared 2 [text_prepared] (cl_data text_coll)) = None"
  by (simp_all add: text_coll_def apply_prepared_def apply_upsert_def append_point_def retire_slot_def Let_def demo_coll_def
      data_empty_def text_stale_def text_prepared_def base_count_def)

lemma cow_found:
  "\<exists>h. run_query linear_ann (text_coll\<lparr>cl_data := apply_prepared 2 [text_prepared] (cl_data text_coll), cl_text_dirty := False\<rparr>)
      [0x3F800000, 0] 3 None True False None = Inr [h] \<and> hit_id h = ''a''"
proof -
  let ?d = "apply_prepared 2 [text_prepared] (cl_data text_coll)"
  have f: "f32_is_finite 0x3F800000" "f32_is_finite 0" by code_simp+
  have k: "check_query (options_new 2 DotProduct) [0x3F800000, 0] 3 None None = Inr (ho_ef_search hnsw_default, [0x3F800000, 0])"
    by (simp add: check_query_def validate_option_def f options_new_def hnsw_default_def EF_SEARCH_MAX_def)
  have "List.filter (live_slot ?d) [0..<length (cd_ids ?d)] = [1]"
    by (simp add: cow_data live_slot_def)
  then have "brute_force ?d [0x3F800000, 0] DotProduct 2 = [(1, score_slot ?d [0x3F800000, 0] DotProduct 2 1)]"
    unfolding brute_force_def by simp
  then have "ranked_slots linear_ann (options_new 2 DotProduct) ?d [0x3F800000, 0] 3 e None = Inr [(1, score_slot ?d [0x3F800000, 0] DotProduct 2 1)]" for e
    by (simp add: ranked_slots_def active_filter_def unfiltered_def cow_data order_scored_def options_new_def Let_def)
  then show ?thesis
    by (simp add: run_query_def text_coll_inv(2) k project_slots_def cow_data)
qed

lemma cow_search:
  "\<exists>c' h. search_text provider_world ''cow'' 3 (text_coll\<lparr>cl_text_dirty := True\<rparr>) [taught_bow] () = (Inr [h], c', [cow_bow], ())
     \<and> hit_id h = ''a''"
proof -
  let ?c = "text_coll\<lparr>cl_data := apply_prepared 2 [text_prepared] (cl_data text_coll), cl_text_dirty := False\<rparr>"
  have f: "\<not> f32_eq 0x3F800000 0" "f32_eq 0 0" by code_simp+
  have c: "text_coll\<lparr>cl_text_dirty := False\<rparr> = text_coll" by (simp add: text_coll_def demo_coll_def)
  have k: "guard text_coll = Inr ()" "text_embedder text_coll = Inr 0" "embedder_ready text_coll = Some 0" "\<not> cl_persistent text_coll"
    by (simp_all add: text_coll_def demo_coll_def guard_def text_embedder_def embedder_ready_def)
  have g: "guard (text_coll\<lparr>cl_text_dirty := True\<rparr>) = Inr ()" "text_embedder (text_coll\<lparr>cl_text_dirty := True\<rparr>) = Inr 0" "guard ?c = Inr ()"
    by (simp_all add: text_coll_def demo_coll_def guard_def text_embedder_def)
  have e: "em_embed (ev_emb provider_world) cow_bow ''cow'' = Inr [0x3F800000, 0]"
    by (simp add: provider_world_env cow_embedded ok_or_def)
  have p: "refit_point (ev_emb provider_world) cow_bow 2 (''a'', ''cow'', JObj [(''_text'', JStr ''cow'')]) = Inr text_point"
    by (simp add: refit_point_def embed_nonzero_def e sparse_from_dense_def f text_point_def)
  have d: "co_dimension (cl_config text_coll) = 2" by (simp add: text_coll_inv(2) options_new_def)
  have w: "ev_json_len provider_world = (\<lambda>_. 0)" "ev_ann provider_world = linear_ann" by (simp_all add: provider_world_def)
  have l: "log_vocab provider_world cow_bow (text_coll\<lparr>cl_data := x\<rparr>) s = (Inr (), s)" for x s
    by (simp add: log_vocab_def k)
  have "refit_if_dirty_step provider_world (text_coll\<lparr>cl_text_dirty := True\<rparr>) [taught_bow] () = (Inr (), ?c, [cow_bow], ())"
    using cow_fitted
    by (simp add: refit_if_dirty_step_def c do_refit_step_def text_coll_documents k d p [unfolded provider_world_env(1)] w text_upsert l provider_world_env(1))
  moreover obtain h where h: "run_query linear_ann ?c [0x3F800000, 0] 3 None True False None = Inr [h]" "hit_id h = ''a''"
    using cow_found by blast
  ultimately show ?thesis
    by (simp add: search_text_def g e f search_def execute_query_def refit_if_dirty_step_def [of _ ?c] w)
qed

theorem search_text_refits_witness:
  "\<exists>c' E' h. search_text provider_world ''cow'' 3 (text_coll\<lparr>cl_text_dirty := True\<rparr>) [taught_bow] () = (Inr [h], c', E', ())
    \<and> hit_id h = ''a'' \<and> provider_bound c' E' 0 \<and> \<not> cl_text_dirty c' \<and> E' ! 0 = cow_bow"
proof -
  obtain c' h where s: "search_text provider_world ''cow'' 3 (text_coll\<lparr>cl_text_dirty := True\<rparr>) [taught_bow] () = (Inr [h], c', [cow_bow], ())"
    "hit_id h = ''a''" using cow_search by blast
  show ?thesis
    using search_text_refits [OF provider_world_env text_coll_bound s(1)] s by (auto simp: text_coll_documents)
qed

end
