(* ===== verification/Svd.thy ===== *)
theory Svd
  imports Text_Providers
begin

section \<open>The projected provider (\<open>embedding/svd.rs\<close>, feature \<open>svd\<close>)\<close>

text \<open>
  TF-IDF of a fixed width, projected to the dimension of the collection by a matrix of pseudo-random rows that are made
  orthogonal one after the other. The matrix is seeded by the hash of the corpus; the standard library leaves the algorithm
  of that hash open, so it is the parameter \<open>hash\<close>. An index that a fit computes stays below \<open>2 ^ 64\<close>, where the source's
  \<open>i * 1000 + j\<close> is the word sum.
\<close>

record svd =
  sv_dimension :: nat
  sv_tfidf :: tfidf
  sv_transformation :: "f32 list list option"

definition BASE_VOCABULARY :: nat where "BASE_VOCABULARY = 512"

definition svd_new :: "nat \<Rightarrow> svd" where
  "svd_new dimension = \<lparr>sv_dimension = dimension, sv_tfidf = tfidf_new BASE_VOCABULARY, sv_transformation = None\<rparr>"

definition pseudo_random :: "u64 \<Rightarrow> nat \<Rightarrow> nat \<Rightarrow> f32" where
  "pseudo_random base_seed i j =
     (let seed = base_seed + (word_of_nat i * 1000 + word_of_nat j)
      in f32_sub (f32_div (f32_of_int (uint ((seed * 1103515245) mod 65536))) (f32_of_int 32768)) f32_one)"

definition orthogonalize :: "f32 list \<Rightarrow> f32 list \<Rightarrow> f32 list" where
  "orthogonalize v prev =
     (let dot = f32_sum (map2 f32_mul v prev); norm_sq = f32_sum (map (\<lambda>x. f32_mul x x) prev)
      in if f32_lt 0 norm_sq
         then let projection = f32_div dot norm_sq in map2 (\<lambda>a p. f32_sub a (f32_mul projection p)) v prev @ drop (length prev) v
         else v)"

definition unit_row :: "f32 list \<Rightarrow> f32 list" where
  "unit_row v =
     (let norm = f32_sqrt (f32_sum (map (\<lambda>x. f32_mul x x) v)) in if f32_lt 0 norm then map (\<lambda>x. f32_div x norm) v else v)"

definition svd_row :: "u64 \<Rightarrow> nat \<Rightarrow> nat \<Rightarrow> f32 list list \<Rightarrow> f32 list" where
  "svd_row base_seed vocab_size i matrix = unit_row (foldl orthogonalize (map (pseudo_random base_seed i) [0..<vocab_size]) matrix)"

definition svd_matrix :: "u64 \<Rightarrow> nat \<Rightarrow> nat \<Rightarrow> f32 list list" where
  "svd_matrix base_seed vocab_size n = foldl (\<lambda>matrix i. matrix @ [svd_row base_seed vocab_size i matrix]) [] [0..<n]"

definition svd_fit :: "text_tables \<Rightarrow> (f32 \<Rightarrow> f32) \<Rightarrow> (string list \<Rightarrow> u64) \<Rightarrow> svd \<Rightarrow> string list \<Rightarrow> svd res" where
  "svd_fit T ln hash p texts =
     tryR (tfidf_fit T ln (sv_tfidf p) texts) (\<lambda>t.
       Inr (p\<lparr>sv_tfidf := t, sv_transformation := Some (svd_matrix (hash texts) (tf_dimension t) (sv_dimension p))\<rparr>))"

definition svd_embed :: "text_tables \<Rightarrow> svd \<Rightarrow> string \<Rightarrow> f32 list" where
  "svd_embed T p text =
     (case sv_transformation p of
        None \<Rightarrow> replicate (sv_dimension p) 0
      | Some matrix \<Rightarrow>
          let base = tfidf_embed T (sv_tfidf p) text; used = take (sv_dimension p) matrix
          in map (\<lambda>row. foldl (\<lambda>o' (b, m). f32_add o' (f32_mul b m)) 0 (zip base row)) used
             @ replicate (sv_dimension p - length used) 0)"

definition svd_export :: "svd msgpack \<Rightarrow> svd \<Rightarrow> bytes res" where
  "svd_export C p = export_state C ''svd: export_state: '' p"

definition svd_import :: "svd msgpack \<Rightarrow> svd \<Rightarrow> bytes \<Rightarrow> svd res" where
  "svd_import C p state = import_state C ''svd: import_state: '' state"

text \<open>\<open>add_document\<close> is the trait's default, which does nothing.\<close>

definition svd_ops :: "text_tables \<Rightarrow> (f32 \<Rightarrow> f32) \<Rightarrow> (string list \<Rightarrow> u64) \<Rightarrow> svd msgpack \<Rightarrow> svd embedder_ops" where
  "svd_ops T ln hash C = \<lparr>em_embed = (\<lambda>p text. Inr (svd_embed T p text)), em_add_document = (\<lambda>p _. p),
     em_fit = svd_fit T ln hash, em_export = svd_export C, em_import = svd_import C\<rparr>"

subsection \<open>The projection\<close>

lemma length_orthogonalize: "length (orthogonalize v prev) = length v"
  by (simp add: orthogonalize_def Let_def min_def)

lemma length_folded: "length (foldl orthogonalize v matrix) = length v"
  by (induction matrix arbitrary: v) (simp_all add: length_orthogonalize)

lemma length_row: "length (svd_row seed n i matrix) = n"
  by (simp add: svd_row_def unit_row_def Let_def length_folded)

lemma svd_matrix_shape: "length (svd_matrix seed n k) = k \<and> (\<forall>row\<in>set (svd_matrix seed n k). length row = n)"
  by (induction k) (auto simp: svd_matrix_def length_row)

text \<open>A longer matrix of the same corpus begins with the shorter one: a dimension keeps its meaning.\<close>

lemma svd_matrix_prefix: "k \<le> m \<Longrightarrow> take k (svd_matrix seed n m) = svd_matrix seed n k"
proof (induction m)
  case (Suc m)
  have s: "svd_matrix seed n (Suc m) = svd_matrix seed n m @ [svd_row seed n m (svd_matrix seed n m)]"
    by (simp add: svd_matrix_def)
  show ?case
  proof (cases "k = Suc m")
    case True
    then show ?thesis using svd_matrix_shape [of seed n "Suc m"] by simp
  next
    case False
    then show ?thesis using Suc svd_matrix_shape [of seed n m] by (simp add: s)
  qed
qed (simp add: svd_matrix_def)

lemma length_svd_embed: "length (svd_embed T p text) = sv_dimension p"
  by (simp add: svd_embed_def Let_def split: option.splits)

lemma svd_fit_total: "\<exists>q. svd_fit T ln hash p texts = Inr q \<and> sv_dimension q = sv_dimension p"
  by (simp add: svd_fit_def tfidf_fit_def)

text \<open>Fitting forgets: it depends on the corpus and the two widths alone.\<close>

lemma svd_fit_forgets:
  assumes "sv_dimension p = sv_dimension q" "tf_dimension (sv_tfidf p) = tf_dimension (sv_tfidf q)"
  shows "svd_fit T ln hash p texts = svd_fit T ln hash q texts"
  using assms by (cases p; cases q) (simp add: svd_fit_def tfidf_fit_def tfidf_build_vocabulary_def Let_def)

lemma svd_unfitted: "svd_embed T (svd_new d) text = replicate d 0"
  by (simp add: svd_embed_def svd_new_def)

text \<open>So the text operations of a collection never fail on dimensions with this provider either.\<close>

interpretation projected: sized_embedder "svd_ops T ln hash C" "\<lambda>d p. sv_dimension p = d"
proof
  show "\<exists>v. em_embed (svd_ops T ln hash C) e t = Inr v \<and> length v = d" if "sv_dimension e = d" for d e t
    using that by (simp add: svd_ops_def length_svd_embed)
  show "sv_dimension e' = d" if "sv_dimension e = d" "em_fit (svd_ops T ln hash C) e corpus = Inr e'" for d e corpus e'
    using that by (auto simp: svd_ops_def svd_fit_def tryR_eq_Inr)
qed (simp add: svd_ops_def)

end
