(* ===== verification/Vecdb_Model.thy ===== *)
theory Vecdb_Model
  imports Options Msgpack Floats Rendering
begin

section \<open>The server's documents (\<open>interop/model.rs\<close>, \<open>interop/config.rs\<close>)\<close>

text \<open>
  Exchange with the server goes through an archive of JSON documents. The documents are records here; reading and writing
  them, the archive and the digest belong to packages, which \<open>vecdb_packages\<close> collects. An aspect of the server that the code
  only detects is a JSON value. The configuration of a collection is projected to the server's shape and back; what is
  dropped on the way back is reported as a warning.
\<close>

subsection \<open>Documents\<close>

datatype vecdb_metric = VCosine | VEuclidean | VDotProduct
datatype vecdb_quantization = VNone | VPQ nat nat | VSQ nat | VBinary
datatype vecdb_compression_algorithm = ANone | ALz4

record vecdb_hnsw =
  vh_m :: nat
  vh_ef_construction :: nat
  vh_ef_search :: nat
  vh_seed :: "nat option"

record vecdb_compression =
  vp_enabled :: bool
  vp_threshold_bytes :: nat
  vp_algorithm :: vecdb_compression_algorithm

record vecdb_encryption =
  ve_required :: bool
  ve_allow_mixed :: bool

definition default_embedding_provider :: string where "default_embedding_provider = ''bm25''"
definition default_allow_mixed :: bool where "default_allow_mixed = True"

record vecdb_config =
  vc_dimension :: nat
  vc_metric :: vecdb_metric
  vc_hnsw_config :: vecdb_hnsw
  vc_quantization :: vecdb_quantization
  vc_compression :: vecdb_compression
  vc_embedding_provider :: string
  vc_normalization :: "json option"
  vc_storage_type :: "json option"
  vc_sharding :: "json option"
  vc_graph :: "json option"
  vc_encryption :: "vecdb_encryption option"

record vecdb_vector =
  vv_id :: string
  vv_data :: "f32 list"
  vv_payload_json :: "bytes option"
  vv_normalized :: bool

record vecdb_collection =
  vl_name :: string
  vl_config :: "vecdb_config option"
  vl_vectors :: "vecdb_vector list"
  vl_hnsw_dump_basename :: "string option"

record vecdb_store =
  vs_version :: nat
  vs_collections :: "vecdb_collection list"

record vecdb_file_entry =
  vf_path :: string
  vf_size :: nat
  vf_compressed_size :: nat
  vf_checksum :: string
  vf_file_type :: string

record vecdb_collection_index =
  vi_name :: string
  vi_files :: "vecdb_file_entry list"
  vi_vector_count :: nat
  vi_dimension :: nat
  vi_metadata :: "(string \<times> bytes) list"

record vecdb_index =
  vx_version :: string
  vx_created_at :: string
  vx_updated_at :: string
  vx_collections :: "vecdb_collection_index list"
  vx_total_size :: nat
  vx_compressed_size :: nat
  vx_compression_ratio :: f64

record vecdb_metadata =
  vm_name :: string
  vm_config :: vecdb_config
  vm_created_at :: "string option"
  vm_modified_at :: "string option"
  vm_vector_count :: nat

record vecdb_packages =
  vk_store :: "vecdb_store msgpack"
  vk_metadata :: "vecdb_metadata msgpack"
  vk_index :: "vecdb_index msgpack"
  vk_json :: "json msgpack"
  vk_json_pretty :: "json \<Rightarrow> bytes option"
  vk_config :: "json \<Rightarrow> vecdb_config option"
  vk_strings :: "string list msgpack"
  vk_pairs :: "(string \<times> string) list msgpack"
  vk_zip :: "(string \<times> bytes) list msgpack"
  vk_gunzip :: "bytes \<Rightarrow> bytes option"
  vk_sha256 :: "bytes \<Rightarrow> bytes"

subsection \<open>Names and formats\<close>

definition vector_store_entry :: "string \<Rightarrow> string" where
  "vector_store_entry collection = collection @ ''_vector_store.bin''"

definition metadata_entry :: "string \<Rightarrow> string" where
  "metadata_entry collection = collection @ ''_metadata.json''"

definition tokenizer_entry :: "string \<Rightarrow> string" where
  "tokenizer_entry collection = collection @ ''_tokenizer.json''"

definition VECDB_FILE :: string where "VECDB_FILE = ''vectorizer.vecdb''"
definition VECIDX_FILE :: string where "VECIDX_FILE = ''vectorizer.vecidx''"
definition VECIDX_VERSION :: string where "VECIDX_VERSION = ''1.0''"
definition STORE_VERSION :: nat where "STORE_VERSION = 1"

text \<open>\<open>{n:0w}\<close>: at least \<open>w\<close> digits.\<close>

definition padded :: "nat \<Rightarrow> nat \<Rightarrow> string" where
  "padded w n = (let s = show_nat n in replicate (w - length s) CHR 0x30 @ s)"

text \<open>The civil date of a day count, on \<open>i64\<close>; nothing overflows for a time in seconds that fits \<open>u64\<close>.\<close>

definition civil_date :: "int \<Rightarrow> int \<times> int \<times> int" where
  "civil_date days =
     (let z = days + 719468;
          era = z div 146097;
          doe = z mod 146097;
          yoe = (doe - doe div 1460 + doe div 36524 - doe div 146096) div 365;
          y = yoe + era * 400;
          doy = doe - (365 * yoe + yoe div 4 - yoe div 100);
          mp = (5 * doy + 2) div 153;
          d = doy - (153 * mp + 2) div 5 + 1;
          m = (if mp < 10 then mp + 3 else mp - 9);
          y' = (if m \<le> 2 then y + 1 else y)
      in (y', m, d))"

definition rfc3339_utc :: "nat \<Rightarrow> string" where
  "rfc3339_utc epoch_s =
     (let secs = epoch_s mod 86400; (y, m, d) = civil_date (int (epoch_s div 86400))
      in padded 4 (nat y) @ ''-'' @ padded 2 (nat m) @ ''-'' @ padded 2 (nat d) @ ''T'' @ padded 2 (secs div 3600) @ '':''
           @ padded 2 (secs div 60 mod 60) @ '':'' @ padded 2 (secs mod 60) @ ''Z'')"

definition sha256_hex :: "vecdb_packages \<Rightarrow> bytes \<Rightarrow> string" where
  "sha256_hex K data = hex_of (vk_sha256 K data)"

lemma show_nat_digits:
  "n < 10 \<Longrightarrow> show_nat n = [char_of (48 + n)]"
  "10 \<le> n \<Longrightarrow> show_nat n = show_nat (n div 10) @ [char_of (48 + n mod 10)]"
  by (simp_all add: show_nat.simps)

lemma known_days:
  "civil_date 0 = (1970, 1, 1)" "civil_date 11016 = (2000, 2, 29)" "civil_date 20651 = (2026, 7, 17)"
  "civil_date 20088 = (2024, 12, 31)"
  by code_simp+

lemma known_instants:
  "rfc3339_utc 0 = ''1970-01-01T00:00:00Z''" "rfc3339_utc 951782400 = ''2000-02-29T00:00:00Z''"
  "rfc3339_utc 1784291696 = ''2026-07-17T12:34:56Z''" "rfc3339_utc 1735689599 = ''2024-12-31T23:59:59Z''"
  by (simp_all add: rfc3339_utc_def known_days padded_def show_nat_digits) code_simp+

text \<open>No entry of an archive is that of another collection or of another kind.\<close>

lemma entry_inject [simp]:
  "vector_store_entry a = vector_store_entry b \<longleftrightarrow> a = b" "metadata_entry a = metadata_entry b \<longleftrightarrow> a = b"
  "tokenizer_entry a = tokenizer_entry b \<longleftrightarrow> a = b"
  by (simp_all add: vector_store_entry_def metadata_entry_def tokenizer_entry_def)

lemma last_suffix: "s @ [c] = t @ [d] \<Longrightarrow> c = d"
  by simp

lemma rev_suffix: "a @ s = b @ t \<Longrightarrow> take (min (length s) (length t)) (rev s) = take (min (length s) (length t)) (rev t)"
proof -
  assume "a @ s = b @ t"
  then have "rev s @ rev a = rev t @ rev b" by (metis rev_append)
  then have "take (min (length s) (length t)) (rev s @ rev a) = take (min (length s) (length t)) (rev t @ rev b)" by simp
  then show ?thesis by simp
qed

lemma entry_kinds [simp]:
  "vector_store_entry a \<noteq> metadata_entry b" "vector_store_entry a \<noteq> tokenizer_entry b" "metadata_entry a \<noteq> tokenizer_entry b"
  "metadata_entry b \<noteq> vector_store_entry a" "tokenizer_entry b \<noteq> vector_store_entry a" "tokenizer_entry b \<noteq> metadata_entry a"
  using rev_suffix [of a "''_vector_store.bin''" b "''_metadata.json''"] rev_suffix [of a "''_vector_store.bin''" b "''_tokenizer.json''"]
    rev_suffix [of a "''_metadata.json''" b "''_tokenizer.json''"] rev_suffix [of b "''_tokenizer.json''" a "''_metadata.json''"]
  by (auto simp: vector_store_entry_def metadata_entry_def tokenizer_entry_def)

subsection \<open>Configurations\<close>

definition em_dash :: string where "em_dash = [CHR 0xE2, CHR 0x80, CHR 0x94]"

definition to_vecdb_metric :: "metric \<Rightarrow> vecdb_metric" where
  "to_vecdb_metric m = (case m of Cosine \<Rightarrow> VCosine | Euclidean \<Rightarrow> VEuclidean | DotProduct \<Rightarrow> VDotProduct)"

definition from_vecdb_metric :: "vecdb_metric \<Rightarrow> metric" where
  "from_vecdb_metric m = (case m of VCosine \<Rightarrow> Cosine | VEuclidean \<Rightarrow> Euclidean | VDotProduct \<Rightarrow> DotProduct)"

definition to_vecdb_config :: "string \<Rightarrow> collection_options \<Rightarrow> vecdb_config \<times> string list" where
  "to_vecdb_config name opts =
     (let quantization =
            (case co_quantization opts of Quant_None \<Rightarrow> VNone | Quant_Scalar bits \<Rightarrow> VSQ (unat bits) | Quant_Binary \<Rightarrow> VBinary);
          (compression, warnings) =
            (case co_compression opts of
               Compression_None \<Rightarrow> (\<lparr>vp_enabled = False, vp_threshold_bytes = 1024, vp_algorithm = ANone\<rparr>, [])
             | Compression_Lz4 threshold \<Rightarrow> (\<lparr>vp_enabled = True, vp_threshold_bytes = unat threshold, vp_algorithm = ALz4\<rparr>, [])
             | Compression_Zstd threshold \<Rightarrow>
                 (\<lparr>vp_enabled = True, vp_threshold_bytes = unat threshold, vp_algorithm = ALz4\<rparr>,
                  [''collection '' @ quoted name @ '': zstd payload compression has no server equivalent; exported as lz4 (payload bytes are unaffected)'']))
      in (\<lparr>vc_dimension = co_dimension opts,
           vc_metric = to_vecdb_metric (co_metric opts),
           vc_hnsw_config = \<lparr>vh_m = ho_m (co_hnsw opts), vh_ef_construction = ho_ef_construction (co_hnsw opts),
                             vh_ef_search = ho_ef_search (co_hnsw opts), vh_seed = None\<rparr>,
           vc_quantization = quantization, vc_compression = compression,
           vc_embedding_provider = (case co_embedding_provider opts of None \<Rightarrow> ''bm25'' | Some p \<Rightarrow> p),
           vc_normalization = None, vc_storage_type = Some (JStr ''Memory''), vc_sharding = None, vc_graph = None,
           vc_encryption = None\<rparr>, warnings))"

datatype provider_plan = Byo | AutoEmbed string

definition json_get :: "string \<Rightarrow> json \<Rightarrow> json option" where
  "json_get key v = (case v of JObj es \<Rightarrow> map_of es key | _ \<Rightarrow> None)"

definition json_u64 :: "json \<Rightarrow> nat option" where
  "json_u64 v = (case v of JNum (PosInt n) \<Rightarrow> Some (unat n) | _ \<Rightarrow> None)"

definition json_bool :: "json \<Rightarrow> bool option" where
  "json_bool v = (case v of JBool b \<Rightarrow> Some b | _ \<Rightarrow> None)"

definition json_str :: "json \<Rightarrow> string option" where
  "json_str v = (case v of JStr s \<Rightarrow> Some s | _ \<Rightarrow> None)"

text \<open>The warnings for the aspects of the server a collection cannot carry, in the order of the code.\<close>

definition aspect_warnings :: "string \<Rightarrow> vecdb_config \<Rightarrow> string list" where
  "aspect_warnings name config =
     (let label = ''collection '' @ quoted name @ '': '' in
      (case vc_encryption config of
         None \<Rightarrow> []
       | Some _ \<Rightarrow> [label @ ''server encryption policy (optional, mixed allowed) dropped; any individually encrypted payloads remain undecryptable''])
      @ (case vc_sharding config of
           None \<Rightarrow> []
         | Some sharding \<Rightarrow>
             let shards = (case Option.bind (json_get ''shard_count'' sharding) json_u64 of
                   None \<Rightarrow> [] | Some n \<Rightarrow> '' ('' @ show_nat n @ '' shards)'')
             in [label @ ''sharded server collection'' @ shards @ '' merged into one (IOP-022)''])
      @ (case vc_graph config of
           None \<Rightarrow> []
         | Some graph \<Rightarrow>
             if (case Option.bind (json_get ''enabled'' graph) json_bool of None \<Rightarrow> True | Some b \<Rightarrow> b)
             then [label @ ''server graph relationships dropped '' @ em_dash @ '' VecLite has no graph support yet (IOP-022)''] else [])
      @ (if vc_normalization config \<noteq> None
         then [label @ ''server text-normalization policy dropped (stored payloads are kept verbatim)''] else [])
      @ (if vh_seed (vc_hnsw_config config) \<noteq> None
         then [label @ ''HNSW level seed dropped '' @ em_dash @ '' VecLite does not pin graph seeds''] else []))"

definition import_quantization :: "string \<Rightarrow> vecdb_quantization \<Rightarrow> quantization \<times> string list" where
  "import_quantization name q =
     (let label = ''collection '' @ quoted name @ '': '' in
      case q of
        VNone \<Rightarrow> (Quant_None, [])
      | VSQ bits \<Rightarrow>
          if bits \<in> {1, 2, 4, 8} then (Quant_Scalar (word_of_nat bits), [])
          else (Quant_None, [label @ ''SQ-'' @ show_nat bits
                 @ '' quantization is not supported by VecLite (1/2/4/8-bit); imported without quantization '' @ em_dash @ '' vectors are exact f32 either way''])
      | VBinary \<Rightarrow> (Quant_Binary, [])
      | VPQ _ _ \<Rightarrow> (Quant_None, [label
                 @ ''product quantization is not supported by VecLite; imported without quantization '' @ em_dash @ '' vectors are exact f32 either way'']))"

definition import_compression :: "vecdb_compression \<Rightarrow> compression" where
  "import_compression c =
     (if vp_enabled c
      then (case vp_algorithm c of
              ALz4 \<Rightarrow> Compression_Lz4 (word_of_nat (min (vp_threshold_bytes c) (2 ^ 32 - 1)))
            | ANone \<Rightarrow> Compression_None)
      else Compression_None)"

definition from_vecdb_config :: "string \<Rightarrow> vecdb_config \<Rightarrow> provider_plan \<Rightarrow> (collection_options \<times> string list) res" where
  "from_vecdb_config name config plan =
     (if (case vc_encryption config of None \<Rightarrow> False | Some e \<Rightarrow> ve_required e)
      then Inl (InvalidArgument (''collection '' @ quoted name
        @ '' enforces payload encryption; VecLite cannot decrypt server-encrypted payloads '' @ em_dash @ '' export it unencrypted server-side first (IOP-022)''))
      else
        let (quantization, warnings) = import_quantization name (vc_quantization config)
        in Inr (\<lparr>co_dimension = vc_dimension config,
             co_metric = from_vecdb_metric (vc_metric config),
             co_hnsw = \<lparr>ho_m = vh_m (vc_hnsw_config config), ho_ef_construction = vh_ef_construction (vc_hnsw_config config),
                        ho_ef_search = vh_ef_search (vc_hnsw_config config)\<rparr>,
             co_quantization = quantization, co_compression = import_compression (vc_compression config),
             co_embedding_provider = (case plan of Byo \<Rightarrow> None | AutoEmbed provider \<Rightarrow> Some provider),
             co_payload_indexes = []\<rparr>, aspect_warnings name config @ warnings))"

lemma metric_projection [simp]:
  "from_vecdb_metric (to_vecdb_metric m) = m" "to_vecdb_metric (from_vecdb_metric v) = v"
  by (cases m; simp add: from_vecdb_metric_def to_vecdb_metric_def) (cases v; simp add: from_vecdb_metric_def to_vecdb_metric_def)

text \<open>
  C33. What an import of a configuration without a warning keeps, whatever the plan for its embeddings: projecting the result
  back gives the same dimension, metric, graph parameters (there was no seed) and quantization; there was no encryption policy,
  no sharding and no normalization. The compression comes back exactly when it was lz4, enabled, with a threshold of 32 bits, or
  was already what a disabled one is exported as; every other setting is changed without a warning.
\<close>

theorem silent_import_lossless:
  assumes "from_vecdb_config name config plan = Inr (opts, [])"
  shows "vc_dimension (fst (to_vecdb_config name opts)) = vc_dimension config
    \<and> vc_metric (fst (to_vecdb_config name opts)) = vc_metric config
    \<and> vc_hnsw_config (fst (to_vecdb_config name opts)) = vc_hnsw_config config
    \<and> vc_quantization (fst (to_vecdb_config name opts)) = vc_quantization config
    \<and> (vc_compression (fst (to_vecdb_config name opts)) = vc_compression config \<longleftrightarrow>
        vp_enabled (vc_compression config) \<and> vp_algorithm (vc_compression config) = ALz4 \<and> vp_threshold_bytes (vc_compression config) < 2 ^ 32
        \<or> vc_compression config = \<lparr>vp_enabled = False, vp_threshold_bytes = 1024, vp_algorithm = ANone\<rparr>)
    \<and> vc_embedding_provider (fst (to_vecdb_config name opts)) = (case plan of Byo \<Rightarrow> ''bm25'' | AutoEmbed p \<Rightarrow> p)
    \<and> vc_encryption config = None \<and> vc_sharding config = None \<and> vc_normalization config = None"
proof -
  have ref: "\<not> (case vc_encryption config of None \<Rightarrow> False | Some e \<Rightarrow> ve_required e)"
    and w: "aspect_warnings name config = []" "snd (import_quantization name (vc_quantization config)) = []"
    using assms by (auto simp: from_vecdb_config_def Let_def split: if_splits prod.splits)
  have q: "(case fst (import_quantization name (vc_quantization config)) of
      Quant_None \<Rightarrow> VNone | Quant_Scalar bits \<Rightarrow> VSQ (unat bits) | Quant_Binary \<Rightarrow> VBinary) = vc_quantization config"
    using w(2) by (auto simp: import_quantization_def Let_def unat_of_nat split: vecdb_quantization.splits if_splits)
  have seed: "vh_seed (vc_hnsw_config config) = None"
    and none: "vc_encryption config = None" "vc_sharding config = None" "vc_normalization config = None"
    using w(1) by (auto simp: aspect_warnings_def Let_def split: option.splits if_splits)
  have opts: "opts = \<lparr>co_dimension = vc_dimension config, co_metric = from_vecdb_metric (vc_metric config),
      co_hnsw = \<lparr>ho_m = vh_m (vc_hnsw_config config), ho_ef_construction = vh_ef_construction (vc_hnsw_config config),
        ho_ef_search = vh_ef_search (vc_hnsw_config config)\<rparr>,
      co_quantization = fst (import_quantization name (vc_quantization config)),
      co_compression = import_compression (vc_compression config),
      co_embedding_provider = (case plan of Byo \<Rightarrow> None | AutoEmbed p \<Rightarrow> Some p), co_payload_indexes = []\<rparr>"
    using assms ref by (auto simp: from_vecdb_config_def Let_def split: prod.splits)
  have "vc_compression (fst (to_vecdb_config name opts)) = (if vp_enabled (vc_compression config) \<and> vp_algorithm (vc_compression config) = ALz4
      then \<lparr>vp_enabled = True, vp_threshold_bytes = min (vp_threshold_bytes (vc_compression config)) (2 ^ 32 - 1), vp_algorithm = ALz4\<rparr>
      else \<lparr>vp_enabled = False, vp_threshold_bytes = 1024, vp_algorithm = ANone\<rparr>)"
    by (simp add: opts to_vecdb_config_def Let_def import_compression_def unat_u32 split: vecdb_compression_algorithm.split)
  then have "vc_compression (fst (to_vecdb_config name opts)) = vc_compression config \<longleftrightarrow>
      vp_enabled (vc_compression config) \<and> vp_algorithm (vc_compression config) = ALz4 \<and> vp_threshold_bytes (vc_compression config) < 2 ^ 32
      \<or> vc_compression config = \<lparr>vp_enabled = False, vp_threshold_bytes = 1024, vp_algorithm = ANone\<rparr>"
    by (cases "vc_compression config") auto
  moreover have "vc_hnsw_config (fst (to_vecdb_config name opts)) = vc_hnsw_config config"
    using seed by (simp add: opts to_vecdb_config_def Let_def split: prod.splits)
  moreover have "vc_quantization (fst (to_vecdb_config name opts)) = vc_quantization config"
    using q by (simp add: opts to_vecdb_config_def Let_def split: prod.splits)
  moreover have "vc_dimension (fst (to_vecdb_config name opts)) = vc_dimension config"
    "vc_metric (fst (to_vecdb_config name opts)) = vc_metric config"
    "vc_embedding_provider (fst (to_vecdb_config name opts)) = (case plan of Byo \<Rightarrow> ''bm25'' | AutoEmbed p \<Rightarrow> p)"
    by (simp_all add: opts to_vecdb_config_def Let_def split: prod.splits provider_plan.splits)
  ultimately show ?thesis using none by blast
qed

definition server_config :: vecdb_config where
  "server_config = \<lparr>vc_dimension = 384, vc_metric = VCosine,
     vc_hnsw_config = \<lparr>vh_m = 16, vh_ef_construction = 200, vh_ef_search = 100, vh_seed = None\<rparr>,
     vc_quantization = VSQ 8, vc_compression = \<lparr>vp_enabled = True, vp_threshold_bytes = 1024, vp_algorithm = ALz4\<rparr>,
     vc_embedding_provider = ''bm25'', vc_normalization = None, vc_storage_type = None, vc_sharding = None, vc_graph = None,
     vc_encryption = None\<rparr>"


theorem silent_import_lossless_witness:
  "\<exists>opts. from_vecdb_config ''docs'' server_config (AutoEmbed ''bm25'') = Inr (opts, [])
    \<and> vc_dimension (fst (to_vecdb_config ''docs'' opts)) = 384
    \<and> vc_compression (fst (to_vecdb_config ''docs'' opts)) = vc_compression server_config"
proof -
  have "\<exists>opts. from_vecdb_config ''docs'' server_config (AutoEmbed ''bm25'') = Inr (opts, [])"
    by (simp add: from_vecdb_config_def server_config_def import_quantization_def aspect_warnings_def Let_def)
  then obtain opts where o: "from_vecdb_config ''docs'' server_config (AutoEmbed ''bm25'') = Inr (opts, [])" by blast
  then show ?thesis using silent_import_lossless [OF o] by (auto simp: server_config_def)
qed

text \<open>The other direction: what is exported comes back, up to the compression the server does not have.\<close>

definition exportable :: "collection_options \<Rightarrow> bool" where
  "exportable opts \<longleftrightarrow>
     (case co_quantization opts of Quant_Scalar bits \<Rightarrow> bits \<in> {1, 2, 4, 8} | _ \<Rightarrow> True)"

definition plan_of :: "collection_options \<Rightarrow> provider_plan" where
  "plan_of opts = (case co_embedding_provider opts of None \<Rightarrow> Byo | Some p \<Rightarrow> AutoEmbed p)"

definition server_compression :: "compression \<Rightarrow> compression" where
  "server_compression c = (case c of Compression_Zstd t \<Rightarrow> Compression_Lz4 t | other \<Rightarrow> other)"

lemma exported_config_imports:
  assumes "exportable opts"
  shows "from_vecdb_config name (fst (to_vecdb_config name opts)) (plan_of opts)
    = Inr (opts\<lparr>co_compression := server_compression (co_compression opts), co_payload_indexes := []\<rparr>, [])"
proof -
  have t: "unat t \<le> 2 ^ 32 - 1" for t :: u32
    using unsigned_less [of t, where 'a = nat] by simp
  have min: "word_of_nat (min (unat t) 4294967295) = t" for t :: u32
    using t [of t] by (simp add: min_absorb1)
  have c: "import_compression (vc_compression (fst (to_vecdb_config name opts))) = server_compression (co_compression opts)"
    by (cases "co_compression opts") (simp_all add: to_vecdb_config_def Let_def import_compression_def server_compression_def min)
  have q: "import_quantization name (vc_quantization (fst (to_vecdb_config name opts))) = (co_quantization opts, [])"
    using assms by (cases "co_quantization opts")
      (auto simp: to_vecdb_config_def Let_def import_quantization_def exportable_def split: prod.splits)
  have a: "aspect_warnings name (fst (to_vecdb_config name opts)) = []" "vc_encryption (fst (to_vecdb_config name opts)) = None"
    by (simp_all add: to_vecdb_config_def Let_def aspect_warnings_def split: prod.splits)
  have f: "vc_dimension (fst (to_vecdb_config name opts)) = co_dimension opts"
    "vc_metric (fst (to_vecdb_config name opts)) = to_vecdb_metric (co_metric opts)"
    "vc_hnsw_config (fst (to_vecdb_config name opts))
      = \<lparr>vh_m = ho_m (co_hnsw opts), vh_ef_construction = ho_ef_construction (co_hnsw opts), vh_ef_search = ho_ef_search (co_hnsw opts), vh_seed = None\<rparr>"
    by (simp_all add: to_vecdb_config_def Let_def split: prod.splits)
  show ?thesis
    unfolding from_vecdb_config_def Let_def q a f c
    by (auto simp: plan_of_def split: option.splits)
qed

end
