(* ===== verification/Vecdb_Vocab.thy ===== *)
theory Vecdb_Vocab
  imports Vecdb_Model Text_Ops
begin

section \<open>Vocabularies as server tokenizers (\<open>interop/vocab.rs\<close>)\<close>

text \<open>
  The state of a provider and the server's tokenizer document are both JSON objects. Export keeps the fields the server
  writes and adds its type tag; import strips the tag and supplies what the server does not store.
\<close>

definition tokenizer_type_for :: "string \<Rightarrow> string option" where
  "tokenizer_type_for provider =
     (if provider = ''bm25'' then Some ''bm25''
      else if provider = ''tfidf'' then Some ''tfidf''
      else if provider = ''bow'' then Some ''bagofwords''
      else if provider = ''char_ngram'' then Some ''charngram''
      else None)"

definition tokenizer_corrupt :: "string \<Rightarrow> string \<Rightarrow> vec_lite_error" where
  "tokenizer_corrupt provider what = Corrupt (''vecdb tokenizer ('' @ provider @ ''): '' @ what)"

definition state_object :: "vecdb_packages \<Rightarrow> string \<Rightarrow> bytes \<Rightarrow> (string \<times> json) list res" where
  "state_object K provider state =
     (case mp_dec (vk_json K) state of
        Some (JObj es) \<Rightarrow> Inr es
      | Some _ \<Rightarrow> Inl (tokenizer_corrupt provider ''state is not a JSON object'')
      | None \<Rightarrow> Inl (tokenizer_corrupt provider ''unreadable state: ''))"

fun take_fields :: "string \<Rightarrow> (string \<times> json) list \<Rightarrow> string list \<Rightarrow> (string \<times> json) list \<Rightarrow> (string \<times> json) list res" where
  "take_fields provider source [] out = Inr out"
| "take_fields provider source (field # names) out =
     (case map_of source field of
        None \<Rightarrow> Inl (tokenizer_corrupt provider (''missing field '' @ quoted field))
      | Some value \<Rightarrow>
          take_fields provider (List.filter (\<lambda>e. fst e \<noteq> field) source) names (obj_insert field value out))"

definition tokenizer_fields :: "string \<Rightarrow> string list" where
  "tokenizer_fields provider =
     (if provider = ''bm25'' then [''dimension'', ''vocabulary'', ''doc_freq'', ''doc_lengths'', ''avg_doc_length'', ''total_docs'']
      else if provider = ''tfidf'' then [''dimension'', ''vocabulary'', ''idf_weights'']
      else if provider = ''bow'' then [''dimension'', ''vocabulary'']
      else [''dimension'', ''n'', ''ngram_map''])"

definition to_server_tokenizer :: "vecdb_packages \<Rightarrow> string \<Rightarrow> bytes \<Rightarrow> bytes option res" where
  "to_server_tokenizer K provider state =
     (case tokenizer_type_for provider of
        None \<Rightarrow> Inr None
      | Some kind \<Rightarrow>
          tryR (state_object K provider state) (\<lambda>source.
          tryR (take_fields provider source (tokenizer_fields provider) [(''type'', JStr kind)]) (\<lambda>out.
            case vk_json_pretty K (JObj out) of
              None \<Rightarrow> Inl (tokenizer_corrupt provider ''serialize: '')
            | Some b \<Rightarrow> Inr (Some b))))"

text \<open>\<open>state.entry(key).or_insert(value)\<close>\<close>

definition or_insert :: "string \<Rightarrow> json \<Rightarrow> (string \<times> json) list \<Rightarrow> (string \<times> json) list" where
  "or_insert key value es = (if map_of es key = None then obj_insert key value es else es)"

text \<open>\<open>1.5\<close>, \<open>0.75\<close> and \<open>0.0\<close> as JSON numbers.\<close>

definition bm25_defaults :: "(string \<times> json) list" where
  "bm25_defaults = [(''k1'', JNum (Flt 0x3FF8000000000000)), (''b'', JNum (Flt 0x3FE8000000000000)), (''doc_freq'', JObj []),
     (''doc_lengths'', JArr []), (''avg_doc_length'', JNum (Flt 0)), (''total_docs'', JNum (PosInt 0))]"

definition restored_state :: "string \<Rightarrow> (string \<times> json) list \<Rightarrow> (string \<times> json) list" where
  "restored_state provider doc =
     (let state = List.filter (\<lambda>e. fst e \<noteq> ''type'') doc
      in if provider = ''bm25'' then foldl (\<lambda>es (key, value). or_insert key value es) state bm25_defaults else state)"

definition from_server_tokenizer :: "vecdb_packages \<Rightarrow> string \<Rightarrow> json \<Rightarrow> bytes option res" where
  "from_server_tokenizer K provider tokenizer =
     (case tokenizer_type_for provider of
        None \<Rightarrow> Inr None
      | Some kind \<Rightarrow>
          (case tokenizer of
             JObj doc \<Rightarrow>
               if Option.bind (map_of doc ''type'') json_str \<noteq> Some kind then Inr None
               else (case mp_enc (vk_json K) (JObj (restored_state provider doc)) of
                       None \<Rightarrow> Inl (tokenizer_corrupt provider ''serialize: '')
                     | Some b \<Rightarrow> Inr (Some b))
           | _ \<Rightarrow> Inl (tokenizer_corrupt provider ''tokenizer is not a JSON object'')))"

subsection \<open>What a round trip keeps\<close>

lemma map_of_filter_key: "map_of (List.filter (\<lambda>e. fst e \<noteq> k) es) = (map_of es)(k := None)"
  by (induction es) (auto simp: fun_eq_iff)

lemma take_fields_map:
  "take_fields provider source names out = Inr r \<Longrightarrow> distinct names \<Longrightarrow>
     map_of r = (\<lambda>k. if k \<in> set names then map_of source k else map_of out k)"
proof (induction names arbitrary: source out)
  case (Cons f names)
  obtain v where v: "map_of source f = Some v"
    and t: "take_fields provider (List.filter (\<lambda>e. fst e \<noteq> f) source) names (obj_insert f v out) = Inr r"
    using Cons.prems(1) by (auto split: option.splits)
  show ?case using Cons.IH [OF t] Cons.prems(2) v by (auto simp: map_of_filter_key obj_insert_lookup fun_eq_iff)
qed simp

lemma take_fields_total:
  "distinct names \<Longrightarrow> set names \<subseteq> dom (map_of source) \<Longrightarrow> \<exists>r. take_fields provider source names out = Inr r"
proof (induction names arbitrary: source out)
  case (Cons f names)
  then obtain v where v: "map_of source f = Some v" by auto
  have "set names \<subseteq> dom (map_of (List.filter (\<lambda>e. fst e \<noteq> f) source))"
    using Cons.prems by (auto simp: map_of_filter_key)
  then show ?case using Cons.IH Cons.prems v by simp
qed simp

lemma map_of_defaults:
  "map_of (foldl (\<lambda>es (key, value). or_insert key value es) es ds) = map_of ds ++ map_of es" if "distinct (map fst ds)"
  using that
proof (induction ds arbitrary: es)
  case (Cons d ds)
  obtain k v where d: "d = (k, v)" by (cases d)
  have "map_of (or_insert k v es) = [k \<mapsto> v] ++ map_of es"
    by (auto simp: or_insert_def obj_insert_lookup fun_eq_iff map_add_def split: option.splits)
  then show ?case
    using Cons d by (auto simp: fun_eq_iff map_add_def map_of_eq_None_iff split: option.splits)
qed (simp add: map_add_def fun_eq_iff)

lemma fields_distinct [simp]: "distinct (tokenizer_fields provider)" "''type'' \<notin> set (tokenizer_fields provider)"
  by (simp_all add: tokenizer_fields_def)

lemma tokenizer_written:
  assumes "tokenizer_type_for provider = Some k" and "mp_dec (vk_json K) state = Some (JObj es)"
    and "set (tokenizer_fields provider) \<subseteq> dom (map_of es)"
  shows "\<exists>out. to_server_tokenizer K provider state
        = (case vk_json_pretty K (JObj out) of None \<Rightarrow> Inl (tokenizer_corrupt provider ''serialize: '') | Some b \<Rightarrow> Inr (Some b))
    \<and> map_of out = (\<lambda>f. if f \<in> set (tokenizer_fields provider) then map_of es f else [''type'' \<mapsto> JStr k] f)"
proof -
  obtain out where out: "take_fields provider es (tokenizer_fields provider) [(''type'', JStr k)] = Inr out"
    using take_fields_total [OF fields_distinct(1) assms(3)] by blast
  have "map_of out = (\<lambda>f. if f \<in> set (tokenizer_fields provider) then map_of es f else [''type'' \<mapsto> JStr k] f)"
    using take_fields_map [OF out] by (auto simp: fun_eq_iff)
  then show ?thesis using assms(1,2) out by (intro exI [of _ out]) (simp add: to_server_tokenizer_def state_object_def)
qed

text \<open>
  A provider's state that is exported as a server tokenizer and imported again keeps every field the server has. For
  BM25 the two scoring constants come back with their fixed values; for the other providers exactly the server's fields
  come back. The hypotheses on the JSON package say that what it writes it reads back.
\<close>

theorem tokenizer_round_trip:
  assumes state: "mp_dec (vk_json K) state = Some (JObj es)" and names: "set (tokenizer_fields provider) \<subseteq> dom (map_of es)"
    and pretty: "\<And>v b. vk_json_pretty K v = Some b \<Longrightarrow> mp_dec (vk_json K) b = Some v"
    and plain: "\<And>v b. mp_enc (vk_json K) v = Some b \<Longrightarrow> mp_dec (vk_json K) b = Some v"
    and out: "to_server_tokenizer K provider state = Inr (Some tok)" and doc: "mp_dec (vk_json K) tok = Some doc"
  shows "\<exists>es'. from_server_tokenizer K provider doc
        = (case mp_enc (vk_json K) (JObj es') of None \<Rightarrow> Inl (tokenizer_corrupt provider ''serialize: '') | Some b \<Rightarrow> Inr (Some b))
    \<and> (\<forall>back. from_server_tokenizer K provider doc = Inr (Some back) \<longrightarrow> mp_dec (vk_json K) back = Some (JObj es'))
    \<and> map_of es' = (if provider = ''bm25'' then map_of bm25_defaults else Map.empty) ++ map_of es |` set (tokenizer_fields provider)"
proof -
  obtain k where k: "tokenizer_type_for provider = Some k" using out by (auto simp: to_server_tokenizer_def split: option.splits)
  obtain o' where o': "to_server_tokenizer K provider state
        = (case vk_json_pretty K (JObj o') of None \<Rightarrow> Inl (tokenizer_corrupt provider ''serialize: '') | Some b \<Rightarrow> Inr (Some b))"
    and m: "map_of o' = (\<lambda>f. if f \<in> set (tokenizer_fields provider) then map_of es f else [''type'' \<mapsto> JStr k] f)"
    using tokenizer_written [OF k state names] by blast
  have "vk_json_pretty K (JObj o') = Some tok" using o' out by (simp split: option.splits)
  then have d: "doc = JObj o'" using pretty doc by fastforce
  have "map_of (List.filter (\<lambda>e. fst e \<noteq> ''type'') o') = map_of es |` set (tokenizer_fields provider)"
    by (auto simp: map_of_filter_key m fun_eq_iff restrict_map_def)
  then have "map_of (restored_state provider o')
      = (if provider = ''bm25'' then map_of bm25_defaults else Map.empty) ++ map_of es |` set (tokenizer_fields provider)"
    using map_of_defaults [of bm25_defaults "List.filter (\<lambda>e. fst e \<noteq> ''type'') o'"]
    by (simp add: restored_state_def Let_def bm25_defaults_def)
  moreover have "from_server_tokenizer K provider doc = (case mp_enc (vk_json K) (JObj (restored_state provider o')) of
      None \<Rightarrow> Inl (tokenizer_corrupt provider ''serialize: '') | Some b \<Rightarrow> Inr (Some b))"
    using k by (simp add: from_server_tokenizer_def d m json_str_def)
  ultimately show ?thesis
    using plain by (intro exI [of _ "restored_state provider o'"]) (auto split: option.splits)
qed

definition bow_doc :: "(string \<times> json) list" where
  "bow_doc = [(''dimension'', JNum (PosInt 4)), (''vocabulary'', JObj [(''cow'', JNum (PosInt 0))])]"

definition tagged_doc :: "(string \<times> json) list" where
  "tagged_doc = [(''dimension'', JNum (PosInt 4)), (''type'', JStr ''bagofwords''), (''vocabulary'', JObj [(''cow'', JNum (PosInt 0))])]"

text \<open>Packages that know the two documents only.\<close>

definition two_documents :: vecdb_packages where
  "two_documents = \<lparr>vk_store = \<lparr>mp_enc = (\<lambda>_. None), mp_dec = (\<lambda>_. None)\<rparr>, vk_metadata = \<lparr>mp_enc = (\<lambda>_. None), mp_dec = (\<lambda>_. None)\<rparr>,
     vk_index = \<lparr>mp_enc = (\<lambda>_. None), mp_dec = (\<lambda>_. None)\<rparr>,
     vk_json = \<lparr>mp_enc = (\<lambda>v. if v = JObj bow_doc then Some [1] else None),
                mp_dec = (\<lambda>b. if b = [1] then Some (JObj bow_doc) else if b = [2] then Some (JObj tagged_doc) else None)\<rparr>,
     vk_json_pretty = (\<lambda>v. if v = JObj tagged_doc then Some [2] else None), vk_config = (\<lambda>_. None),
     vk_strings = \<lparr>mp_enc = (\<lambda>_. None), mp_dec = (\<lambda>_. None)\<rparr>, vk_pairs = \<lparr>mp_enc = (\<lambda>_. None), mp_dec = (\<lambda>_. None)\<rparr>,
     vk_zip = \<lparr>mp_enc = (\<lambda>_. None), mp_dec = (\<lambda>_. None)\<rparr>, vk_gunzip = (\<lambda>_. None), vk_sha256 = (\<lambda>_. [])\<rparr>"

theorem tokenizer_round_trip_witness:
  "to_server_tokenizer two_documents ''bow'' [1] = Inr (Some [2])
    \<and> (\<exists>es'. from_server_tokenizer two_documents ''bow'' (JObj tagged_doc)
          = (case mp_enc (vk_json two_documents) (JObj es') of None \<Rightarrow> Inl (tokenizer_corrupt ''bow'' ''serialize: '') | Some b \<Rightarrow> Inr (Some b))
        \<and> map_of es' = map_of bow_doc |` {''dimension'', ''vocabulary''})"
proof -
  have v: "obj_insert ''vocabulary'' x (obj_insert ''dimension'' y [(''type'', z)]) = [(''dimension'', y), (''type'', z), (''vocabulary'', x)]" for x y z
    by code_simp
  have w: "to_server_tokenizer two_documents ''bow'' [1] = Inr (Some [2])"
    by (simp add: to_server_tokenizer_def tokenizer_type_for_def state_object_def two_documents_def bow_doc_def tagged_doc_def
        tokenizer_fields_def v)
  have f: "tokenizer_fields ''bow'' = [''dimension'', ''vocabulary'']" by (simp add: tokenizer_fields_def)
  have "\<exists>es'. from_server_tokenizer two_documents ''bow'' (JObj tagged_doc)
          = (case mp_enc (vk_json two_documents) (JObj es') of None \<Rightarrow> Inl (tokenizer_corrupt ''bow'' ''serialize: '') | Some b \<Rightarrow> Inr (Some b))
        \<and> (\<forall>back. from_server_tokenizer two_documents ''bow'' (JObj tagged_doc) = Inr (Some back) \<longrightarrow> mp_dec (vk_json two_documents) back = Some (JObj es'))
        \<and> map_of es' = (if ''bow'' = ''bm25'' then map_of bm25_defaults else Map.empty) ++ map_of bow_doc |` set (tokenizer_fields ''bow'')"
  proof (rule tokenizer_round_trip [OF _ _ _ _ w])
    show "mp_dec (vk_json two_documents) [1] = Some (JObj bow_doc)" "mp_dec (vk_json two_documents) [2] = Some (JObj tagged_doc)"
      by (simp_all add: two_documents_def)
    show "set (tokenizer_fields ''bow'') \<subseteq> dom (map_of bow_doc)" by (auto simp: f bow_doc_def)
  qed (auto simp: two_documents_def split: if_splits)
  then show ?thesis using w unfolding f by auto
qed

end
