(* ===== verification/Vecdb_Export.thy ===== *)
theory Vecdb_Export
  imports Vecdb_Vocab Registry
begin

section \<open>Export to a server data directory (\<open>interop/export.rs\<close>)\<close>

text \<open>
  An export settles each collection, projects it to entries of the archive and an entry of the index, and writes the two files.
  The archive writer is one function of its entries. The directory holds the published files only: the temporary ones
  the code renames are not modelled, nor are failures of the file system.
\<close>

record exported =
  xp_name :: string
  xp_entries :: "(string \<times> string \<times> bytes) list"
  xp_vector_count :: nat
  xp_dimension :: nat
  xp_metadata :: "(string \<times> bytes) list"
  xp_warnings :: "string list"

record export_report =
  er_collections :: "(string \<times> nat \<times> nat) list"
  er_warnings :: "string list"
  er_total_bytes :: nat

subsection \<open>Points\<close>

definition content_warning :: "string \<Rightarrow> string \<Rightarrow> string" where
  "content_warning collection key =
     ''collection '' @ quoted collection @ '', id '' @ quoted key @ '': payload already has a '' @ quoted ''content''
       @ '' key; kept '' @ quoted ''_text'' @ '' as-is instead of the server stored-text convention''"

definition project_payload :: "string \<Rightarrow> string \<Rightarrow> json option \<Rightarrow> bool \<Rightarrow> json option \<times> string list" where
  "project_payload collection key payload embeds =
     (case payload of
        Some (JObj es) \<Rightarrow>
          (case (if embeds then map_of es ''_text'' else None) of
             None \<Rightarrow> (payload, [])
           | Some text \<Rightarrow>
               let rest = List.filter (\<lambda>e. fst e \<noteq> ''_text'') es
               in if map_of rest ''content'' = None then (Some (JObj (obj_insert ''content'' text rest)), [])
                  else (Some (JObj (obj_insert ''_text'' text rest)), [content_warning collection key]))
      | _ \<Rightarrow> (payload, []))"

text \<open>\<open>1e-6\<close> as a single-precision number is \<open>0x358637BD\<close>.\<close>

definition is_normalized :: "f32 list \<Rightarrow> bool" where
  "is_normalized vector = f32_le (f32_abs (f32_sub (f32_sqrt (f32_sum (map (\<lambda>x. f32_mul x x) vector))) f32_one)) 0x358637BD"

fun export_vectors :: "vecdb_packages \<Rightarrow> string \<Rightarrow> bool \<Rightarrow> point list \<Rightarrow> (vecdb_vector list \<times> string list) res" where
  "export_vectors K name embeds [] = Inr ([], [])"
| "export_vectors K name embeds (p # ps) =
     (let (payload, warnings) = project_payload name (pt_id p) (pt_payload p) embeds
      in tryR (case payload of
                 None \<Rightarrow> Inr None
               | Some v \<Rightarrow> tryR (ok_or (mp_enc (vk_json K) v)
                    (InvalidArgument (''collection '' @ quoted name @ '', id '' @ quoted (pt_id p) @ '': payload not serializable: '')))
                   (\<lambda>b. Inr (Some b))) (\<lambda>payload_json.
         tryR (export_vectors K name embeds ps) (\<lambda>(vs, ws).
           Inr (\<lparr>vv_id = pt_id p, vv_data = pt_vector p, vv_payload_json = payload_json,
                 vv_normalized = is_normalized (pt_vector p)\<rparr> # vs, warnings @ ws))))"

subsection \<open>One collection\<close>

definition index_kind_name :: "payload_index_kind \<Rightarrow> string" where
  "index_kind_name kind = (case kind of Keyword \<Rightarrow> ''keyword'' | IntegerKind \<Rightarrow> ''integer'' | FloatKind \<Rightarrow> ''float'')"

definition byo_warning :: "string \<Rightarrow> string" where
  "byo_warning name = ''collection '' @ quoted name
     @ '': BYO-vector collection exported with the server default embedding_provider '' @ quoted ''bm25''
     @ '' (the server has no provider-less collections); the .vecidx records the BYO origin for reverse imports''"

definition or_empty :: "bytes option \<Rightarrow> bytes" where
  "or_empty b = (case b of None \<Rightarrow> [] | Some x \<Rightarrow> x)"

definition aspect_metadata :: "vecdb_packages \<Rightarrow> string list \<Rightarrow> collection_options \<Rightarrow> (string \<times> bytes) list" where
  "aspect_metadata K aliases opts =
     (if aliases = [] then [] else [(''veclite.aliases'', or_empty (mp_enc (vk_strings K) aliases))])
     @ (if co_embedding_provider opts = None then [(''veclite.auto_embed'', bytes_of ''false'')] else [])
     @ (if co_payload_indexes opts = [] then []
        else [(''veclite.payload_indexes'',
               or_empty (mp_enc (vk_pairs K) (map (\<lambda>(key, kind). (key, index_kind_name kind)) (co_payload_indexes opts))))])"

definition vocabulary_entry ::
  "vecdb_packages \<Rightarrow> 'e embedder_ops \<Rightarrow> string \<Rightarrow> 'q collection \<Rightarrow> 'e list \<Rightarrow> ((string \<times> string \<times> bytes) list \<times> string list) res" where
  "vocabulary_entry K ops name c E =
     (case co_embedding_provider (cl_config c) of
        None \<Rightarrow> Inr ([], [])
      | Some provider \<Rightarrow>
          tryR (export_vocab_state ops c E) (\<lambda>vocab.
            case vocab of
              None \<Rightarrow> Inr ([], [])
            | Some state \<Rightarrow>
                tryR (to_server_tokenizer K provider state) (\<lambda>tok.
                  case tok of
                    Some b \<Rightarrow> Inr ([(tokenizer_entry name, ''tokenizer'', b)], [])
                  | None \<Rightarrow> Inr ([], [''collection '' @ quoted name @ '': provider '' @ quoted provider
                      @ '' has no server tokenizer form; the server re-fits its vocabulary from stored text'']))))"

definition export_settled ::
  "vecdb_packages \<Rightarrow> 'e embedder_ops \<Rightarrow> string \<Rightarrow> string list \<Rightarrow> string \<Rightarrow> 'q collection \<Rightarrow> 'e list \<Rightarrow> exported res" where
  "export_settled K ops timestamp aliases name c E =
     (let opts = cl_config c;
          embeds = (co_embedding_provider opts \<noteq> None);
          (config, config_warnings) = to_vecdb_config name opts;
          live = live_points c
      in tryR (export_vectors K name embeds live) (\<lambda>(vectors, payload_warnings).
         tryR (ok_or (mp_enc (vk_store K) \<lparr>vs_version = STORE_VERSION,
                 vs_collections = [\<lparr>vl_name = name, vl_config = Some config, vl_vectors = vectors, vl_hnsw_dump_basename = None\<rparr>]\<rparr>)
                 (InvalidArgument (''serialize '' @ quoted name @ '': ''))) (\<lambda>store_json.
         tryR (ok_or (mp_enc (vk_metadata K) \<lparr>vm_name = name, vm_config = config, vm_created_at = Some timestamp,
                 vm_modified_at = Some timestamp, vm_vector_count = length live\<rparr>)
                 (InvalidArgument (''serialize '' @ quoted name @ '' metadata: ''))) (\<lambda>metadata_json.
         tryR (vocabulary_entry K ops name c E) (\<lambda>(tokenizer, vocab_warnings).
           Inr \<lparr>xp_name = name,
                xp_entries = [(vector_store_entry name, ''vectors'', store_json), (metadata_entry name, ''metadata'', metadata_json)] @ tokenizer,
                xp_vector_count = length live, xp_dimension = co_dimension opts,
                xp_metadata = aspect_metadata K aliases opts,
                xp_warnings = (if embeds then [] else [byo_warning name]) @ config_warnings @ payload_warnings @ vocab_warnings\<rparr>)))))"

text \<open>Pending refits are settled first, so the archive carries the vectors a search would score.\<close>

definition settle :: "('e, 's) env \<Rightarrow> nat \<Rightarrow> ('q, 'e) database \<Rightarrow> 's \<Rightarrow> unit res \<times> ('q, 'e) database \<times> 's" where
  "settle V r db s =
     (if co_embedding_provider (cl_config (cell db r)) = None then (Inr (), db, s)
      else case refit_if_dirty_step V (cell db r) (db_embedders db) s of
             (res, c, E, s1) \<Rightarrow> (res, (set_cell r c db)\<lparr>db_embedders := E\<rparr>, s1))"

definition export_collection ::
  "vecdb_packages \<Rightarrow> ('e, 's) env \<Rightarrow> string \<Rightarrow> (string \<times> string) list \<Rightarrow> string \<Rightarrow> ('q, 'e) database \<Rightarrow> 's
    \<Rightarrow> exported res \<times> ('q, 'e) database \<times> 's" where
  "export_collection K V timestamp alias_map name db s =
     (case lookup_collection name db of
        Inl e \<Rightarrow> (Inl e, db, s)
      | Inr r \<Rightarrow>
          (case settle V r db s of
             (Inl e, db1, s1) \<Rightarrow> (Inl e, db1, s1)
           | (Inr _, db1, s1) \<Rightarrow>
               (export_settled K (ev_emb V) timestamp (map fst (List.filter (\<lambda>a. snd a = name) alias_map)) name
                  (cell db1 r) (db_embedders db1), db1, s1)))"

fun export_all ::
  "vecdb_packages \<Rightarrow> ('e, 's) env \<Rightarrow> string \<Rightarrow> (string \<times> string) list \<Rightarrow> string list \<Rightarrow> ('q, 'e) database \<Rightarrow> 's
    \<Rightarrow> exported list res \<times> ('q, 'e) database \<times> 's" where
  "export_all K V timestamp alias_map [] db s = (Inr [], db, s)"
| "export_all K V timestamp alias_map (name # ns) db s =
     (case export_collection K V timestamp alias_map name db s of
        (Inl e, db1, s1) \<Rightarrow> (Inl e, db1, s1)
      | (Inr x, db1, s1) \<Rightarrow>
          (case export_all K V timestamp alias_map ns db1 s1 of
             (Inl e, db2, s2) \<Rightarrow> (Inl e, db2, s2)
           | (Inr xs, db2, s2) \<Rightarrow> (Inr (x # xs), db2, s2)))"

subsection \<open>The two files\<close>

definition index_entry :: "vecdb_packages \<Rightarrow> string \<times> string \<times> bytes \<Rightarrow> vecdb_file_entry" where
  "index_entry K = (\<lambda>(path, file_type, content).
     \<lparr>vf_path = path, vf_size = length content, vf_compressed_size = length content, vf_checksum = sha256_hex K content,
      vf_file_type = file_type\<rparr>)"

definition index_collection :: "vecdb_packages \<Rightarrow> exported \<Rightarrow> vecdb_collection_index" where
  "index_collection K x =
     \<lparr>vi_name = xp_name x, vi_files = map (index_entry K) (xp_entries x), vi_vector_count = xp_vector_count x,
      vi_dimension = xp_dimension x, vi_metadata = xp_metadata x\<rparr>"

definition exported_bytes :: "exported \<Rightarrow> nat" where
  "exported_bytes x = sum_list (map (\<lambda>(_, _, content). length content) (xp_entries x))"

definition archive_index :: "vecdb_packages \<Rightarrow> string \<Rightarrow> exported list \<Rightarrow> vecdb_index" where
  "archive_index K timestamp xs =
     (let collections = map (index_collection K) xs;
          total_bytes = sum_list (map exported_bytes xs);
          compressed_size = sum_list (map vf_compressed_size (concat (map vi_files collections)))
      in \<lparr>vx_version = VECIDX_VERSION, vx_created_at = timestamp, vx_updated_at = timestamp, vx_collections = collections,
          vx_total_size = total_bytes, vx_compressed_size = compressed_size,
          vx_compression_ratio =
            (if 0 < total_bytes then f64_div (f64_of_int (int compressed_size)) (f64_of_int (int total_bytes)) else 0)\<rparr>)"

definition write_archive :: "vecdb_packages \<Rightarrow> string \<Rightarrow> exported list \<Rightarrow> (string \<times> bytes) list res" where
  "write_archive K timestamp xs =
     tryR (ok_or (mp_enc (vk_zip K) (map (\<lambda>(path, _, content). (path, content)) (concat (map xp_entries xs)))) Io) (\<lambda>archive.
     tryR (ok_or (mp_enc (vk_index K) (archive_index K timestamp xs)) (InvalidArgument ''serialize .vecidx: '')) (\<lambda>index_json.
       Inr [(VECDB_FILE, archive), (VECIDX_FILE, index_json)]))"

text \<open>\<open>if !names.contains(&resolved) { names.push(resolved) }\<close>\<close>

definition export_names :: "string list option \<Rightarrow> ('q, 'e) database \<Rightarrow> string list res" where
  "export_names only db =
     (case only of
        None \<Rightarrow> Inr (list_collections db)
      | Some given \<Rightarrow>
          tryR (mapR (\<lambda>name. tryR (lookup_collection name db) (\<lambda>r. Inr (cl_name (cell db r)))) given) (\<lambda>names.
            Inr (foldl (\<lambda>ns n. if n \<in> set ns then ns else ns @ [n]) [] names)))"

definition export_vecdb ::
  "vecdb_packages \<Rightarrow> ('e, 's) env \<Rightarrow> nat \<Rightarrow> string list option \<Rightarrow> ('q, 'e) database \<Rightarrow> 's
    \<Rightarrow> (export_report \<times> (string \<times> bytes) list) res \<times> ('q, 'e) database \<times> 's" where
  "export_vecdb K V epoch only db s =
     (case export_names only db of
        Inl e \<Rightarrow> (Inl e, db, s)
      | Inr names \<Rightarrow>
          let timestamp = rfc3339_utc epoch
          in case export_all K V timestamp (list_aliases db) names db s of
               (Inl e, db1, s1) \<Rightarrow> (Inl e, db1, s1)
             | (Inr xs, db1, s1) \<Rightarrow>
                 (tryR (write_archive K timestamp xs) (\<lambda>files.
                    Inr (\<lparr>er_collections = map (\<lambda>x. (xp_name x, xp_vector_count x, exported_bytes x)) xs,
                          er_warnings = concat (map xp_warnings xs), er_total_bytes = sum_list (map exported_bytes xs)\<rparr>, files)), db1, s1))"

subsection \<open>What is written\<close>

lemma foldl_dedupe: "distinct ns \<Longrightarrow> distinct (foldl (\<lambda>ns n. if n \<in> set ns then ns else ns @ [n]) ns names)"
  by (induction names arbitrary: ns) auto

definition exported_point :: "vecdb_packages \<Rightarrow> string \<Rightarrow> bool \<Rightarrow> point \<Rightarrow> vecdb_vector \<Rightarrow> bool" where
  "exported_point K name embeds p v \<longleftrightarrow>
     vv_id v = pt_id p \<and> vv_data v = pt_vector p
     \<and> (case fst (project_payload name (pt_id p) (pt_payload p) embeds) of
          None \<Rightarrow> vv_payload_json v = None
        | Some x \<Rightarrow> (\<exists>b. mp_enc (vk_json K) x = Some b \<and> vv_payload_json v = Some b))"

lemma export_vectors_points: "export_vectors K name embeds ps = Inr (vs, ws) \<Longrightarrow> list_all2 (exported_point K name embeds) ps vs"
proof (induction ps arbitrary: vs ws)
  case (Cons p ps)
  obtain x w where pr: "project_payload name (pt_id p) (pt_payload p) embeds = (x, w)" by fastforce
  obtain v vs' ws' where "vs = v # vs'" "export_vectors K name embeds ps = Inr (vs', ws')" "exported_point K name embeds p v"
    using Cons.prems by (auto simp: tryR_eq_Inr Let_def pr exported_point_def split: option.splits)
  then show ?case using Cons.IH by simp
qed simp

text \<open>The files in the archive are those of the index, with the right sizes, and no path occurs twice.\<close>

lemma settled_entries:
  assumes "export_settled K ops timestamp aliases name c E = Inr x"
  shows "xp_name x = name \<and> (\<exists>store meta tok. xp_entries x = [(vector_store_entry name, ''vectors'', store), (metadata_entry name, ''metadata'', meta)] @ tok
      \<and> (tok = [] \<or> (\<exists>b. tok = [(tokenizer_entry name, ''tokenizer'', b)])))"
  using assms
  by (auto simp: export_settled_def vocabulary_entry_def Let_def tryR_eq_Inr split: prod.splits option.splits)

end
