(* ===== verification/Vecdb_Import.thy ===== *)
theory Vecdb_Import
  imports Vecdb_Export
begin

section \<open>Import of a server data set (\<open>interop/import.rs\<close>)\<close>

text \<open>
  The data set is the directory it lies in: its files by name, and whether the path names the directory or one of its files.
  An import reads every collection, plans all of them, and only then touches the database. \<open>Path::display\<close> of the path is
  \<open>ds_shown\<close>.
\<close>

datatype server_layout = Compact | Legacy

datatype source_target = TargetDir | TargetFile string | TargetMissing

record data_set =
  ds_shown :: string
  ds_target :: source_target
  ds_files :: "(string \<times> bytes) list"

definition STORE_SUFFIX :: string where "STORE_SUFFIX = ''_vector_store.bin''"

definition strip_suffix :: "string \<Rightarrow> string \<Rightarrow> string option" where
  "strip_suffix suffix s =
     (if length suffix \<le> length s \<and> drop (length s - length suffix) s = suffix
      then Some (take (length s - length suffix) s) else None)"

definition ends_with :: "string \<Rightarrow> string \<Rightarrow> bool" where
  "ends_with suffix s \<longleftrightarrow> strip_suffix suffix s \<noteq> None"

definition detect_layout :: "data_set \<Rightarrow> server_layout res" where
  "detect_layout src =
     (case ds_target src of
        TargetFile name \<Rightarrow>
          if ends_with ''.vecdb'' name then Inr Compact
          else if ends_with STORE_SUFFIX name then Inr Legacy
          else Inl (InvalidArgument (ds_shown src
            @ '': not a server data set (expected a .vecdb archive, a *_vector_store.bin file, or a directory containing either)''))
      | TargetDir \<Rightarrow>
          if map_of (ds_files src) VECDB_FILE \<noteq> None then Inr Compact
          else if \<exists>f\<in>set (ds_files src). ends_with STORE_SUFFIX (fst f) then Inr Legacy
          else Inl (InvalidArgument (ds_shown src @ '': no vectorizer.vecdb and no *_vector_store.bin files found''))
      | TargetMissing \<Rightarrow> Inl (InvalidArgument (ds_shown src @ '': path does not exist'')))"

subsection \<open>Reading\<close>

record source_collection =
  sc_name :: string
  sc_config :: "vecdb_config option"
  sc_vectors :: "vecdb_vector list"
  sc_tokenizer :: "json option"
  sc_index_metadata :: "(string \<times> bytes) list"

definition import_corrupt :: "string \<Rightarrow> vec_lite_error" where
  "import_corrupt what = Corrupt (''vecdb import: '' @ what)"

definition parse_store :: "vecdb_packages \<Rightarrow> string \<Rightarrow> bytes \<Rightarrow> vecdb_store res" where
  "parse_store K source b =
     (if \<not> utf8_valid b then Inl (import_corrupt (source @ '': invalid UTF-8 in vector store: ''))
      else tryR (ok_or (mp_dec (vk_store K) b) (import_corrupt (source @ '': failed to deserialize: ''))) (\<lambda>store.
        if vs_version store \<noteq> STORE_VERSION
        then Inl (import_corrupt (source @ '': unsupported vector store version '' @ show_nat (vs_version store)
                    @ '' (expected '' @ show_nat STORE_VERSION @ '')''))
        else Inr store))"

definition KNOWN :: "string list" where
  "KNOWN = [''name'', ''config'', ''created_at'', ''modified_at'', ''vector_count'']"

definition metadata_warnings :: "string \<Rightarrow> json \<Rightarrow> string list" where
  "metadata_warnings name doc =
     (case doc of
        JObj es \<Rightarrow> map (\<lambda>key. ''collection '' @ quoted name @ '': server-only metadata field '' @ quoted key @ '' dropped (IOP-022)'')
                      (List.filter (\<lambda>key. key \<notin> set KNOWN) (map fst es))
      | _ \<Rightarrow> [])"

definition source_config :: "vecdb_packages \<Rightarrow> string \<Rightarrow> vecdb_config option \<Rightarrow> json \<Rightarrow> vecdb_config option res" where
  "source_config K name_from_file config doc =
     (if config \<noteq> None then Inr config
      else case json_get ''config'' doc of
        None \<Rightarrow> Inr None
      | Some v \<Rightarrow> tryR (ok_or (vk_config K v) (import_corrupt (name_from_file @ '': unreadable config: ''))) (\<lambda>c. Inr (Some c)))"

definition assemble_source ::
  "vecdb_packages \<Rightarrow> string \<Rightarrow> vecdb_store \<Rightarrow> bytes option \<Rightarrow> bytes option \<Rightarrow> (string \<times> bytes) list
    \<Rightarrow> (source_collection \<times> string list) res" where
  "assemble_source K name_from_file store metadata_json tokenizer_json index_metadata =
     (case vs_collections store of
        [] \<Rightarrow> Inl (import_corrupt (name_from_file @ '': no collection found in vector store document''))
      | coll # _ \<Rightarrow>
          let name = (if vl_name coll = [] then name_from_file else vl_name coll)
          in tryR (case metadata_json of
                     None \<Rightarrow> Inr (vl_config coll, [])
                   | Some b \<Rightarrow>
                       tryR (ok_or (mp_dec (vk_json K) b) (import_corrupt (name_from_file @ '': unreadable metadata document: ''))) (\<lambda>doc.
                       tryR (source_config K name_from_file (vl_config coll) doc) (\<lambda>config.
                         Inr (config, metadata_warnings name doc)))) (\<lambda>(config, warnings).
             tryR (case tokenizer_json of
                     None \<Rightarrow> Inr None
                   | Some b \<Rightarrow>
                       tryR (ok_or (mp_dec (vk_json K) b) (import_corrupt (name_from_file @ '': unreadable tokenizer document: '')))
                         (\<lambda>v. Inr (Some v))) (\<lambda>tokenizer.
               Inr (\<lparr>sc_name = name, sc_config = config, sc_vectors = vl_vectors coll, sc_tokenizer = tokenizer,
                     sc_index_metadata = index_metadata\<rparr>, warnings))))"

text \<open>\<open>with_extension("vecidx")\<close> of a name that ends in \<open>.vecdb\<close>: a name that is nothing but the extension has none.\<close>

definition with_vecidx :: "string \<Rightarrow> string" where
  "with_vecidx name = (if name = ''.vecdb'' then name else take (length name - 6) name) @ ''.vecidx''"

definition archive_name :: "data_set \<Rightarrow> string" where
  "archive_name src = (case ds_target src of TargetFile name \<Rightarrow> name | _ \<Rightarrow> VECDB_FILE)"

definition archive_shown :: "data_set \<Rightarrow> string" where
  "archive_shown src = (case ds_target src of TargetDir \<Rightarrow> ds_shown src @ ''/'' @ VECDB_FILE | _ \<Rightarrow> ds_shown src)"

text \<open>The metadata of the sidecar by collection; a later entry replaces an earlier one.\<close>

definition sidecar ::
  "vecdb_packages \<Rightarrow> data_set \<Rightarrow> ((string \<times> (string \<times> bytes) list) list \<times> string list) res" where
  "sidecar K src =
     (case map_of (ds_files src) (with_vecidx (archive_name src)) of
        None \<Rightarrow> Inr ([], [archive_shown src
          @ '': no .vecidx sidecar next to the archive; proceeding from the archive alone (VecLite-specific aspects ''
          @ em_dash @ '' aliases, payload indexes, BYO origin '' @ em_dash @ '' cannot be restored without it)''])
      | Some b \<Rightarrow>
          tryR (ok_or (mp_dec (vk_index K) b) (import_corrupt (archive_shown src @ '': unreadable .vecidx: ''))) (\<lambda>index.
            Inr (foldl (\<lambda>m c. AList.update (vi_name c) (vi_metadata c) m) [] (vx_collections index), [])))"

definition archive_entries :: "(string \<times> bytes) list \<Rightarrow> (string \<times> bytes) list" where
  "archive_entries es = foldl (\<lambda>m (path, content). AList.update path content m) [] es"

definition load_archived ::
  "vecdb_packages \<Rightarrow> (string \<times> bytes) list \<Rightarrow> (string \<times> (string \<times> bytes) list) list \<Rightarrow> string
    \<Rightarrow> (source_collection \<times> string list) res" where
  "load_archived K entries index_metadata name =
     tryR (ok_or (map_of entries (vector_store_entry name)) (import_corrupt (name @ '': vector store entry vanished''))) (\<lambda>b.
     tryR (parse_store K name b) (\<lambda>store.
       assemble_source K name store (map_of entries (metadata_entry name)) (map_of entries (tokenizer_entry name))
         (case map_of index_metadata name of None \<Rightarrow> [] | Some m \<Rightarrow> m)))"

definition load_compact :: "vecdb_packages \<Rightarrow> data_set \<Rightarrow> (source_collection list \<times> string list) res" where
  "load_compact K src =
     tryR (sidecar K src) (\<lambda>(index_metadata, warnings).
     tryR (ok_or (map_of (ds_files src) (archive_name src)) Io) (\<lambda>raw.
     tryR (ok_or (mp_dec (vk_zip K) raw) (import_corrupt (archive_shown src @ '': failed to open archive: ''))) (\<lambda>es.
       let entries = archive_entries es;
           names = List.map_filter (strip_suffix STORE_SUFFIX) (sort (map fst entries))
       in if names = [] then Inl (import_corrupt (archive_shown src @ '': archive has no *_vector_store.bin entries''))
          else tryR (mapR (load_archived K entries index_metadata) names) (\<lambda>loaded.
            Inr (map fst loaded, warnings @ concat (map snd loaded))))))"

text \<open>A file that is not gzip is taken as it is.\<close>

definition read_legacy_file :: "vecdb_packages \<Rightarrow> bytes \<Rightarrow> bytes" where
  "read_legacy_file K raw = (case vk_gunzip K raw of Some b \<Rightarrow> b | None \<Rightarrow> raw)"

definition load_legacy_file :: "vecdb_packages \<Rightarrow> data_set \<Rightarrow> string \<Rightarrow> (source_collection \<times> string list) res" where
  "load_legacy_file K src file_name =
     (let name = (case strip_suffix STORE_SUFFIX file_name of Some n \<Rightarrow> n | None \<Rightarrow> file_name)
      in tryR (ok_or (map_of (ds_files src) file_name) Io) (\<lambda>raw.
         tryR (parse_store K name (read_legacy_file K raw)) (\<lambda>store.
           assemble_source K name store (map_of (ds_files src) (metadata_entry name)) (map_of (ds_files src) (tokenizer_entry name)) [])))"

definition load_legacy :: "vecdb_packages \<Rightarrow> data_set \<Rightarrow> (source_collection list \<times> string list) res" where
  "load_legacy K src =
     (let files = (case ds_target src of
            TargetFile name \<Rightarrow> [name]
          | _ \<Rightarrow> sort (List.filter (ends_with STORE_SUFFIX) (map fst (ds_files src))))
      in if files = [] then Inl (import_corrupt (ds_shown src @ '': no *_vector_store.bin files found''))
         else tryR (mapR (load_legacy_file K src) files) (\<lambda>loaded. Inr (map fst loaded, concat (map snd loaded))))"

subsection \<open>Planning\<close>

definition provider_available :: "string \<Rightarrow> bool" where
  "provider_available provider \<longleftrightarrow> provider \<in> set available_providers"

definition parse_index_kind :: "string \<Rightarrow> payload_index_kind option" where
  "parse_index_kind kind =
     (if kind = ''keyword'' then Some Keyword else if kind = ''integer'' then Some IntegerKind
      else if kind = ''float'' then Some FloatKind else None)"

definition select_sources :: "string list option \<Rightarrow> source_collection list \<Rightarrow> source_collection list res" where
  "select_sources only sources =
     (case only of
        None \<Rightarrow> Inr sources
      | Some names \<Rightarrow>
          (case find (\<lambda>n. n \<notin> set (map sc_name sources)) names of
             Some missing \<Rightarrow> Inl (CollectionNotFound (missing @ '' (source has: '' @ join '', '' (map sc_name sources) @ '')''))
           | None \<Rightarrow> Inr (List.filter (\<lambda>s. sc_name s \<in> set names) sources)))"

record import_plan =
  ip_source :: source_collection
  ip_options :: collection_options
  ip_deferred_provider :: "string option"
  ip_auto_embed_provider :: "string option"

definition deferred_warning :: "string \<Rightarrow> string \<Rightarrow> string" where
  "deferred_warning name provider = ''collection '' @ quoted name @ '': embedding provider '' @ quoted provider
     @ '' is server-only in this build; imported as BYO-vector '' @ em_dash
     @ '' vectors and payloads intact, text re-embedding disabled, origin provider recorded in CONFIG (IOP-022)''"

definition plan_source :: "source_collection \<Rightarrow> (import_plan \<times> string list) res" where
  "plan_source source =
     (let name = sc_name source in
      tryR (ok_or (sc_config source) (import_corrupt (name @ '': no collection config in the store or metadata document''))) (\<lambda>config.
        let provider = vc_embedding_provider config;
            (plan, deferred, warnings) =
              (if map_of (sc_index_metadata source) ''veclite.auto_embed'' = Some (bytes_of ''false'') then (Byo, None, [])
               else if provider_available provider then (AutoEmbed provider, None, [])
               else (AutoEmbed provider, Some provider, [deferred_warning name provider]))
        in tryR (from_vecdb_config name config plan) (\<lambda>(opts, config_warnings).
             Inr (\<lparr>ip_source = source, ip_options = opts, ip_deferred_provider = deferred,
                   ip_auto_embed_provider = co_embedding_provider opts\<rparr>, warnings @ config_warnings))))"

definition plan_sources :: "vecdb_packages \<Rightarrow> data_set \<Rightarrow> string list option \<Rightarrow> (server_layout \<times> import_plan list \<times> string list) res" where
  "plan_sources K src only =
     tryR (detect_layout src) (\<lambda>layout.
     tryR (case layout of Compact \<Rightarrow> load_compact K src | Legacy \<Rightarrow> load_legacy K src) (\<lambda>(sources, warnings).
     tryR (select_sources only sources) (\<lambda>selected.
     tryR (mapR plan_source selected) (\<lambda>planned.
       Inr (layout, map fst planned, warnings @ concat (map snd planned))))))"

subsection \<open>Assembly\<close>

fun import_aliases :: "('e, 's) env \<Rightarrow> string \<Rightarrow> string list \<Rightarrow> ('q, 'e) database \<Rightarrow> 's \<Rightarrow> unit res \<times> ('q, 'e) database \<times> 's" where
  "import_aliases V name [] db s = (Inr (), db, s)"
| "import_aliases V name (a # as) db s =
     (case create_alias V a name db s of
        (Inl e, db1, s1) \<Rightarrow> (Inl e, db1, s1)
      | (Inr _, db1, s1) \<Rightarrow> import_aliases V name as db1 s1)"

definition kind_warning :: "string \<Rightarrow> string \<Rightarrow> string \<Rightarrow> string" where
  "kind_warning name key kind = ''collection '' @ quoted name @ '': unknown payload-index kind '' @ quoted kind @ '' for key ''
     @ quoted key @ '' dropped '' @ em_dash @ '' the payload data itself is preserved (IOP-023)''"

fun import_indexes ::
  "('e, 's) env \<Rightarrow> string \<Rightarrow> (string \<times> string) list \<Rightarrow> 'q collection \<Rightarrow> 's \<Rightarrow> string list res \<times> 'q collection \<times> 's" where
  "import_indexes V name [] c s = (Inr [], c, s)"
| "import_indexes V name ((key, kind) # es) c s =
     (case parse_index_kind kind of
        None \<Rightarrow> (case import_indexes V name es c s of
            (Inl e, c1, s1) \<Rightarrow> (Inl e, c1, s1)
          | (Inr ws, c1, s1) \<Rightarrow> (Inr (kind_warning name key kind # ws), c1, s1))
      | Some k \<Rightarrow>
          (case create_payload_index_step (wm_pidx (ev_wal V)) (ev_log V) key k c s of
             (Inl e, c1, s1) \<Rightarrow> (Inl e, c1, s1)
           | (Inr _, c1, s1) \<Rightarrow> import_indexes V name es c1 s1))"

definition import_vocabulary ::
  "vecdb_packages \<Rightarrow> 'e embedder_ops \<Rightarrow> string \<Rightarrow> import_plan \<Rightarrow> 'q collection \<Rightarrow> 'e list
    \<Rightarrow> (string list \<times> 'q collection \<times> 'e list) res" where
  "import_vocabulary K ops name plan c E =
     (case (ip_auto_embed_provider plan, sc_tokenizer (ip_source plan)) of
        (Some provider, Some tokenizer) \<Rightarrow>
          if ip_deferred_provider plan \<noteq> None then Inr ([], c, E)
          else tryR (from_server_tokenizer K provider tokenizer) (\<lambda>found.
            case found of
              Some state \<Rightarrow> tryR (replay_import_vocab ops state c E) (\<lambda>(c1, E1). Inr ([], c1, E1))
            | None \<Rightarrow> Inr ([''collection '' @ quoted name @ '': tokenizer document does not match provider '' @ quoted provider
                @ ''; vocabulary not restored '' @ em_dash @ '' the provider re-fits from stored text on demand''], c, E))
      | _ \<Rightarrow> Inr ([], c, E))"

definition import_point :: "vecdb_packages \<Rightarrow> string \<Rightarrow> bool \<Rightarrow> vecdb_vector \<Rightarrow> point res" where
  "import_point K name embeds v =
     tryR (case vv_payload_json v of
             None \<Rightarrow> Inr None
           | Some b \<Rightarrow> tryR (ok_or (mp_dec (vk_json K) b)
               (import_corrupt (''collection '' @ quoted name @ '', id '' @ quoted (vv_id v) @ '': unreadable payload: '')))
               (\<lambda>x. Inr (Some x))) (\<lambda>payload.
       Inr \<lparr>pt_id = vv_id v, pt_vector = vv_data v,
            pt_sparse = (if embeds then sparse_from_dense (vv_data v) else None), pt_payload = payload\<rparr>)"

definition import_points :: "vecdb_packages \<Rightarrow> (json \<Rightarrow> nat) \<Rightarrow> import_plan \<Rightarrow> 'q collection \<Rightarrow> 'q collection res" where
  "import_points K json_len plan c =
     tryR (mapR (import_point K (sc_name (ip_source plan)) (ip_auto_embed_provider plan \<noteq> None \<and> ip_deferred_provider plan = None))
       (sc_vectors (ip_source plan))) (\<lambda>points.
         if points = [] then Inr c else install_points json_len points c)"

definition fill_collection ::
  "vecdb_packages \<Rightarrow> ('e, 's) env \<Rightarrow> import_plan \<Rightarrow> nat \<Rightarrow> string list \<Rightarrow> ('q, 'e) database \<Rightarrow> 's
    \<Rightarrow> string list res \<times> ('q, 'e) database \<times> 's" where
  "fill_collection K V plan r warnings db s =
     (case import_vocabulary K (ev_emb V) (sc_name (ip_source plan)) plan (cell db r) (db_embedders db) of
        Inl e \<Rightarrow> (Inl e, db, s)
      | Inr (vocab_warnings, c, E) \<Rightarrow>
          let db1 = (set_cell r c db)\<lparr>db_embedders := E\<rparr>
          in case import_points K (ev_json_len V) plan c of
               Inl e \<Rightarrow> (Inl e, db1, s)
             | Inr c1 \<Rightarrow> (Inr (warnings @ vocab_warnings), set_cell r c1 db1, s))"

definition import_collection ::
  "vecdb_packages \<Rightarrow> ('e, 's) env \<Rightarrow> import_plan \<Rightarrow> ('q, 'e) database \<Rightarrow> 's \<Rightarrow> string list res \<times> ('q, 'e) database \<times> 's" where
  "import_collection K V plan db s =
     (let name = sc_name (ip_source plan); meta = map_of (sc_index_metadata (ip_source plan));
          aliases = (case Option.bind (meta ''veclite.aliases'') (mp_dec (vk_strings K)) of None \<Rightarrow> [] | Some xs \<Rightarrow> xs);
          indexes = (case Option.bind (meta ''veclite.payload_indexes'') (mp_dec (vk_pairs K)) of None \<Rightarrow> [] | Some xs \<Rightarrow> xs)
      in case create_collection_deferred V name (ip_options plan) db s of
           (Inl e, db1, s1) \<Rightarrow> (Inl e, db1, s1)
         | (Inr r, db1, s1) \<Rightarrow>
             (case import_aliases V name aliases db1 s1 of
                (Inl e, db2, s2) \<Rightarrow> (Inl e, db2, s2)
              | (Inr _, db2, s2) \<Rightarrow>
                  (case import_indexes V name indexes (cell db2 r) s2 of
                     (Inl e, c, s3) \<Rightarrow> (Inl e, set_cell r c db2, s3)
                   | (Inr warnings, c, s3) \<Rightarrow> fill_collection K V plan r warnings (set_cell r c db2) s3)))"

fun import_all ::
  "vecdb_packages \<Rightarrow> ('e, 's) env \<Rightarrow> import_plan list \<Rightarrow> ('q, 'e) database \<Rightarrow> 's \<Rightarrow> string list res \<times> ('q, 'e) database \<times> 's" where
  "import_all K V [] db s = (Inr [], db, s)"
| "import_all K V (p # ps) db s =
     (case import_collection K V p db s of
        (Inl e, db1, s1) \<Rightarrow> (Inl e, db1, s1)
      | (Inr ws, db1, s1) \<Rightarrow>
          (case import_all K V ps db1 s1 of
             (Inl e, db2, s2) \<Rightarrow> (Inl e, db2, s2)
           | (Inr ws', db2, s2) \<Rightarrow> (Inr (ws @ ws'), db2, s2)))"

record import_report =
  ir_layout :: server_layout
  ir_collections :: "(string \<times> nat \<times> string option) list"
  ir_warnings :: "string list"

definition import_vecdb ::
  "vecdb_packages \<Rightarrow> ('e, 's) env \<Rightarrow> data_set \<Rightarrow> string list option \<Rightarrow> ('q, 'e) database \<Rightarrow> 's
    \<Rightarrow> import_report res \<times> ('q, 'e) database \<times> 's" where
  "import_vecdb K V src only db s =
     (case plan_sources K src only of
        Inl e \<Rightarrow> (Inl e, db, s)
      | Inr (layout, plans, warnings) \<Rightarrow>
          (case import_all K V plans db s of
             (Inl e, db1, s1) \<Rightarrow> (Inl e, db1, s1)
           | (Inr ws, db1, s1) \<Rightarrow>
               (Inr \<lparr>ir_layout = layout,
                     ir_collections = map (\<lambda>p. (sc_name (ip_source p), length (sc_vectors (ip_source p)), ip_deferred_provider p)) plans,
                     ir_warnings = warnings @ ws\<rparr>, db1, s1)))"

end
