(* ===== verification/Vecdb_Props.thy ===== *)
theory Vecdb_Props
  imports Vecdb_Import Vocabularies
begin

section \<open>Properties of the exchange with the server\<close>

text \<open>
  The archive an export writes is read back as the collections it was made of; an import that is refused leaves the database
  as it was; and what an import does with stored text.
\<close>

subsection \<open>Paths of an archive\<close>

lemma strip_suffix_iff: "strip_suffix suf s = Some t \<longleftrightarrow> s = t @ suf"
proof
  assume "strip_suffix suf s = Some t"
  then have "drop (length s - length suf) s = suf" "t = take (length s - length suf) s"
    by (auto simp: strip_suffix_def split: if_splits)
  then show "s = t @ suf" by (metis append_take_drop_id)
qed (simp add: strip_suffix_def)

lemma strip_store [simp]:
  "strip_suffix STORE_SUFFIX (vector_store_entry n) = Some n"
  "strip_suffix STORE_SUFFIX (metadata_entry n) = None" "strip_suffix STORE_SUFFIX (tokenizer_entry n) = None"
proof -
  have st: "t @ STORE_SUFFIX = vector_store_entry t" for t by (simp add: STORE_SUFFIX_def vector_store_entry_def)
  show "strip_suffix STORE_SUFFIX (vector_store_entry n) = Some n" by (simp add: strip_suffix_iff st)
  show "strip_suffix STORE_SUFFIX (metadata_entry n) = None" "strip_suffix STORE_SUFFIX (tokenizer_entry n) = None"
    by (rule ccontr; auto simp: strip_suffix_iff st)+
qed

lemma strip_suffix_inject: "strip_suffix suf s = Some t \<Longrightarrow> strip_suffix suf s' = Some t \<Longrightarrow> s = s'"
  by (simp add: strip_suffix_iff)

lemma set_map_filter_iff: "y \<in> set (List.map_filter f xs) \<longleftrightarrow> (\<exists>x\<in>set xs. f x = Some y)"
  by (induction xs) (auto simp: map_filter_simps split: option.splits)

lemma map_filter_strip_distinct: "distinct xs \<Longrightarrow> distinct (List.map_filter (strip_suffix suf) xs)"
proof (induction xs)
  case (Cons x xs)
  have IH: "distinct (List.map_filter (strip_suffix suf) xs)" and x: "x \<notin> set xs" using Cons by simp_all
  show ?case
  proof (cases "strip_suffix suf x")
    case None
    then show ?thesis using IH by (simp only: map_filter_simps option.case)
  next
    case (Some t)
    then have "t \<notin> set (List.map_filter (strip_suffix suf) xs)"
      using x strip_suffix_inject [OF Some] unfolding set_map_filter_iff by blast
    then show ?thesis using IH Some by (simp only: map_filter_simps option.case distinct.simps not_False_eq_True simp_thms)
  qed
qed (simp only: map_filter_simps distinct.simps)

lemma foldl_update_distinct: "distinct (map fst es) \<Longrightarrow> foldl (\<lambda>m (k, v). AList.update k v m) [] es = es"
proof -
  have "distinct (map fst es) \<Longrightarrow> fst ` set es \<inter> fst ` set m = {} \<Longrightarrow> foldl (\<lambda>m (k, v). AList.update k v m) m es = m @ es" for m
  proof (induction es arbitrary: m)
    case (Cons e es)
    obtain k v where e: "e = (k, v)" by (cases e)
    have "map_of m k = None" using Cons.prems e by (auto simp: map_of_eq_None_iff)
    then have "AList.update k v m = m @ [(k, v)]" by (rule table_update_fresh)
    moreover have "fst ` set es \<inter> fst ` set (m @ [(k, v)]) = {}" using Cons.prems e by auto
    ultimately show ?case using Cons e by simp
  qed simp
  then show "distinct (map fst es) \<Longrightarrow> foldl (\<lambda>m (k, v). AList.update k v m) [] es = es" by simp
qed

lemma archive_entries_distinct: "distinct (map fst es) \<Longrightarrow> archive_entries es = es"
  by (simp add: archive_entries_def foldl_update_distinct)

definition paths_of :: "exported list \<Rightarrow> (string \<times> bytes) list" where
  "paths_of xs = map (\<lambda>(path, _, content). (path, content)) (concat (map xp_entries xs))"

text \<open>The shape of the entries of a collection.\<close>

definition entry_shape :: "exported \<Rightarrow> bool" where
  "entry_shape x \<longleftrightarrow> (\<exists>store meta tok. xp_entries x
       = [(vector_store_entry (xp_name x), ''vectors'', store), (metadata_entry (xp_name x), ''metadata'', meta)] @ tok
     \<and> (tok = [] \<or> (\<exists>b. tok = [(tokenizer_entry (xp_name x), ''tokenizer'', b)])))"

lemma paths_shape:
  "entry_shape x \<Longrightarrow> set (map fst (paths_of [x])) \<subseteq> {vector_store_entry (xp_name x), metadata_entry (xp_name x), tokenizer_entry (xp_name x)}
     \<and> distinct (map fst (paths_of [x])) \<and> vector_store_entry (xp_name x) \<in> set (map fst (paths_of [x]))"
  by (auto simp: entry_shape_def paths_of_def)

lemma paths_of_Cons: "paths_of (x # xs) = paths_of [x] @ paths_of xs"
  by (simp add: paths_of_def)

lemma paths_within:
  "\<forall>x\<in>set xs. entry_shape x \<Longrightarrow> p \<in> set (map fst (paths_of xs)) \<Longrightarrow>
     \<exists>x\<in>set xs. p \<in> {vector_store_entry (xp_name x), metadata_entry (xp_name x), tokenizer_entry (xp_name x)}"
proof (induction xs)
  case (Cons x xs)
  then have "p \<in> set (map fst (paths_of [x])) \<or> p \<in> set (map fst (paths_of xs))" by (subst (asm) paths_of_Cons) auto
  then show ?case using Cons paths_shape [of x] by auto
qed (simp add: paths_of_def)

lemma paths_distinct:
  "\<forall>x\<in>set xs. entry_shape x \<Longrightarrow> distinct (map xp_name xs) \<Longrightarrow> distinct (map fst (paths_of xs))"
proof (induction xs)
  case (Cons x xs)
  have "set (map fst (paths_of [x])) \<inter> set (map fst (paths_of xs)) = {}"
  proof (rule ccontr)
    assume "\<not> ?thesis"
    then obtain p where p: "p \<in> set (map fst (paths_of [x]))" "p \<in> set (map fst (paths_of xs))" by blast
    obtain y where "y \<in> set xs" "p \<in> {vector_store_entry (xp_name y), metadata_entry (xp_name y), tokenizer_entry (xp_name y)}"
      using paths_within [OF _ p(2)] Cons.prems(1) by auto
    moreover have "p \<in> {vector_store_entry (xp_name x), metadata_entry (xp_name x), tokenizer_entry (xp_name x)}"
      using paths_shape [of x] p(1) Cons.prems(1) by auto
    ultimately have "xp_name x = xp_name y" by auto
    then show False using \<open>y \<in> set xs\<close> Cons.prems(2) by auto
  qed
  moreover have "distinct (map fst (paths_of xs))" using Cons by simp
  moreover have "distinct (map fst (paths_of [x]))" using paths_shape [of x] Cons.prems(1) by simp
  ultimately show ?case unfolding paths_of_Cons [of x xs] map_append distinct_append by blast
qed (simp add: paths_of_def)

lemma paths_lookup:
  assumes "\<forall>x\<in>set xs. entry_shape x" and "distinct (map xp_name xs)" and "x \<in> set xs"
  shows "(path, ty, content) \<in> set (xp_entries x) \<Longrightarrow> map_of (paths_of xs) path = Some content"
    and "tokenizer_entry (xp_name x) \<notin> fst ` set (xp_entries x) \<Longrightarrow> map_of (paths_of xs) (tokenizer_entry (xp_name x)) = None"
proof -
  have d: "distinct (map fst (paths_of xs))" using paths_distinct assms by blast
  {
    assume "(path, ty, content) \<in> set (xp_entries x)"
    then have "(path, content) \<in> set (paths_of xs)" using assms(3) by (force simp: paths_of_def)
    then show "map_of (paths_of xs) path = Some content" by (rule map_of_is_SomeI [OF d])
  }
  assume n: "tokenizer_entry (xp_name x) \<notin> fst ` set (xp_entries x)"
  have "tokenizer_entry (xp_name x) \<notin> fst ` set (paths_of xs)"
  proof
    assume "tokenizer_entry (xp_name x) \<in> fst ` set (paths_of xs)"
    then obtain y e where y: "y \<in> set xs" "e \<in> set (xp_entries y)" "fst e = tokenizer_entry (xp_name x)"
      by (force simp: paths_of_def)
    then have "xp_name y = xp_name x" using assms(1) by (fastforce simp: entry_shape_def)
    then have "y = x" using assms(2,3) y(1) by (metis inj_onD distinct_map)
    then show False using n y by (metis imageI)
  qed
  then show "map_of (paths_of xs) (tokenizer_entry (xp_name x)) = None" by (simp add: map_of_eq_None_iff)
qed

lemma archive_names:
  assumes "\<forall>x\<in>set xs. entry_shape x" and "distinct (map xp_name xs)"
  shows "distinct (List.map_filter (strip_suffix STORE_SUFFIX) (sort (map fst (paths_of xs))))"
    and "set (List.map_filter (strip_suffix STORE_SUFFIX) (sort (map fst (paths_of xs)))) = xp_name ` set xs"
proof -
  show "distinct (List.map_filter (strip_suffix STORE_SUFFIX) (sort (map fst (paths_of xs))))"
    by (rule map_filter_strip_distinct) (simp add: paths_distinct [OF assms])
  have "n \<in> xp_name ` set xs" if "strip_suffix STORE_SUFFIX p = Some n" "p \<in> set (map fst (paths_of xs))" for p n
    using paths_within [OF assms(1) that(2)] that(1) by auto
  moreover have "\<exists>p\<in>set (map fst (paths_of xs)). strip_suffix STORE_SUFFIX p = Some (xp_name x)" if "x \<in> set xs" for x
  proof -
    have "entry_shape x" using assms(1) that by blast
    then obtain st where st: "(vector_store_entry (xp_name x), ''vectors'', st) \<in> set (xp_entries x)"
      by (auto simp: entry_shape_def)
    then have "(vector_store_entry (xp_name x), st) \<in> set (paths_of xs)" using that by (force simp: paths_of_def)
    then show ?thesis using strip_store(1) by (metis image_eqI fst_conv image_set)
  qed
  ultimately show "set (List.map_filter (strip_suffix STORE_SUFFIX) (sort (map fst (paths_of xs)))) = xp_name ` set xs"
    unfolding set_eq_iff set_map_filter_iff set_sort by blast
qed

subsection \<open>The archive is read back\<close>

text \<open>
  What is relied on of the packages, for the documents of this export alone: the store document, the index and the archive are read
  as what was written, the metadata document as an object without unknown keys, a tokenizer document as some JSON value. The
  payloads are in the store document as the bytes they were written to, so nothing is relied on for the values in them.
\<close>

definition store_document :: "string \<Rightarrow> collection_options \<Rightarrow> vecdb_vector list \<Rightarrow> vecdb_store" where
  "store_document name opts vectors = \<lparr>vs_version = STORE_VERSION,
     vs_collections = [\<lparr>vl_name = name, vl_config = Some (fst (to_vecdb_config name opts)), vl_vectors = vectors, vl_hnsw_dump_basename = None\<rparr>]\<rparr>"

definition metadata_document :: "string \<Rightarrow> string \<Rightarrow> 'q collection \<Rightarrow> vecdb_metadata" where
  "metadata_document ts name c = \<lparr>vm_name = name, vm_config = fst (to_vecdb_config name (cl_config c)), vm_created_at = Some ts,
     vm_modified_at = Some ts, vm_vector_count = length (live_points c)\<rparr>"

definition item_reads_back :: "vecdb_packages \<Rightarrow> 'e embedder_ops \<Rightarrow> string \<Rightarrow> string \<Rightarrow> 'q collection \<Rightarrow> 'e list \<Rightarrow> bool" where
  "item_reads_back K ops ts name c E \<longleftrightarrow>
     (\<forall>vectors ws b. export_vectors K name (co_embedding_provider (cl_config c) \<noteq> None) (live_points c) = Inr (vectors, ws)
        \<longrightarrow> mp_enc (vk_store K) (store_document name (cl_config c) vectors) = Some b
        \<longrightarrow> mp_dec (vk_store K) b = Some (store_document name (cl_config c) vectors) \<and> utf8_valid b)
     \<and> (\<forall>b. mp_enc (vk_metadata K) (metadata_document ts name c) = Some b
        \<longrightarrow> (\<exists>es. mp_dec (vk_json K) b = Some (JObj es) \<and> set (map fst es) \<subseteq> set KNOWN))
     \<and> (\<forall>path label b r ws. vocabulary_entry K ops name c E = Inr ((path, label, b) # r, ws) \<longrightarrow> (\<exists>v. mp_dec (vk_json K) b = Some v))"

definition archive_reads_back :: "vecdb_packages \<Rightarrow> string \<Rightarrow> exported list \<Rightarrow> bool" where
  "archive_reads_back K ts xs \<longleftrightarrow>
     (\<forall>b. mp_enc (vk_index K) (archive_index K ts xs) = Some b \<longrightarrow> mp_dec (vk_index K) b = Some (archive_index K ts xs))
     \<and> (\<forall>b. mp_enc (vk_zip K) (paths_of xs) = Some b \<longrightarrow> mp_dec (vk_zip K) b = Some (paths_of xs))"

text \<open>A source is what a collection was exported as.\<close>

definition imported_as ::
  "vecdb_packages \<Rightarrow> 'e embedder_ops \<Rightarrow> string list \<Rightarrow> string \<Rightarrow> 'q collection \<Rightarrow> 'e list \<Rightarrow> source_collection \<Rightarrow> bool" where
  "imported_as K ops aliases name c E src \<longleftrightarrow>
     sc_name src = name \<and> sc_config src = Some (fst (to_vecdb_config name (cl_config c)))
     \<and> list_all2 (exported_point K name (co_embedding_provider (cl_config c) \<noteq> None)) (live_points c) (sc_vectors src)
     \<and> sc_index_metadata src = aspect_metadata K aliases (cl_config c)
     \<and> sc_tokenizer src = (case vocabulary_entry K ops name c E of Inr ((_, _, b) # _, _) \<Rightarrow> mp_dec (vk_json K) b | _ \<Rightarrow> None)"

lemma tokenizer_decodes:
  assumes "item_reads_back K ops ts name c E" and "vocabulary_entry K ops name c E = Inr (tok, ws)"
  shows "tok = [] \<or> (\<exists>b v. tok = [(tokenizer_entry name, ''tokenizer'', b)] \<and> mp_dec (vk_json K) b = Some v)"
proof (cases tok)
  case (Cons e r)
  then obtain b where "tok = [(tokenizer_entry name, ''tokenizer'', b)]"
    using assms(2) by (auto simp: vocabulary_entry_def tryR_eq_Inr split: option.splits)
  then show ?thesis using assms unfolding item_reads_back_def by blast
qed simp

lemma settled_shape: "export_settled K ops ts aliases name c E = Inr x \<Longrightarrow> entry_shape x \<and> xp_name x = name"
  using settled_entries [of K ops ts aliases name c E x] by (auto simp: entry_shape_def)

lemma load_settled:
  assumes laws: "item_reads_back K ops ts name c E" and x: "export_settled K ops ts aliases name c E = Inr x"
    and xs: "\<forall>x\<in>set xs. entry_shape x" "distinct (map xp_name xs)" "x \<in> set xs"
    and meta: "map_of index_metadata name = Some (xp_metadata x)"
  shows "\<exists>src. load_archived K (paths_of xs) index_metadata name = Inr (src, []) \<and> imported_as K ops aliases name c E src"
proof -
  obtain config cw where config: "to_vecdb_config name (cl_config c) = (config, cw)" by fastforce
  let ?embeds = "co_embedding_provider (cl_config c) \<noteq> None"
  obtain vectors pw store_json metadata_json tok vw where
    v: "export_vectors K name ?embeds (live_points c) = Inr (vectors, pw)"
    and store: "mp_enc (vk_store K) \<lparr>vs_version = STORE_VERSION,
        vs_collections = [\<lparr>vl_name = name, vl_config = Some config, vl_vectors = vectors, vl_hnsw_dump_basename = None\<rparr>]\<rparr> = Some store_json"
    and md: "mp_enc (vk_metadata K) \<lparr>vm_name = name, vm_config = config, vm_created_at = Some ts, vm_modified_at = Some ts,
        vm_vector_count = length (live_points c)\<rparr> = Some metadata_json"
    and tok: "vocabulary_entry K ops name c E = Inr (tok, vw)"
    and entries: "xp_entries x = [(vector_store_entry name, ''vectors'', store_json), (metadata_entry name, ''metadata'', metadata_json)] @ tok"
    and m: "xp_metadata x = aspect_metadata K aliases (cl_config c)"
    using x by (auto simp: export_settled_def config Let_def tryR_eq_Inr split: prod.splits)
  have name: "xp_name x = name" using settled_shape [OF x] by simp
  note look = paths_lookup [OF xs]
  have l1: "map_of (paths_of xs) (vector_store_entry name) = Some store_json" by (rule look(1)) (auto simp: entries)
  have l2: "map_of (paths_of xs) (metadata_entry name) = Some metadata_json" by (rule look(1)) (auto simp: entries)
  have st: "mp_dec (vk_store K) store_json = Some \<lparr>vs_version = STORE_VERSION,
        vs_collections = [\<lparr>vl_name = name, vl_config = Some config, vl_vectors = vectors, vl_hnsw_dump_basename = None\<rparr>]\<rparr>"
    "utf8_valid store_json" using laws v store config unfolding item_reads_back_def store_document_def by simp_all
  obtain es where es: "mp_dec (vk_json K) metadata_json = Some (JObj es)" "set (map fst es) \<subseteq> set KNOWN"
    using laws md config unfolding item_reads_back_def metadata_document_def by auto
  have "List.filter (\<lambda>key. key \<notin> set KNOWN) (map fst es) = []" using es(2) by (auto simp: filter_empty_conv)
  then have w: "metadata_warnings n (JObj es) = []" for n by (simp add: metadata_warnings_def)
  define t where "t = (case tok of [] \<Rightarrow> None | (_, _, b) # _ \<Rightarrow> mp_dec (vk_json K) b)"
  have tk: "tryR (case map_of (paths_of xs) (tokenizer_entry name) of None \<Rightarrow> Inr None
      | Some b \<Rightarrow> tryR (ok_or (mp_dec (vk_json K) b) (import_corrupt (name @ '': unreadable tokenizer document: ''))) (\<lambda>v. Inr (Some v))) f = f t" for f :: "json option \<Rightarrow> (source_collection \<times> string list) res"
    using tokenizer_decodes [OF laws tok]
  proof (elim disjE exE conjE)
    assume n: "tok = []"
    then have "map_of (paths_of xs) (tokenizer_entry name) = None" using look(2) by (auto simp: entries name)
    then show ?thesis by (simp add: n t_def)
  next
    fix b v assume b: "tok = [(tokenizer_entry name, ''tokenizer'', b)]" "mp_dec (vk_json K) b = Some v"
    then have "map_of (paths_of xs) (tokenizer_entry name) = Some b" by (intro look(1)) (auto simp: entries)
    then show ?thesis by (simp add: b t_def)
  qed
  let ?src = "\<lparr>sc_name = name, sc_config = Some config, sc_vectors = vectors, sc_tokenizer = t, sc_index_metadata = xp_metadata x\<rparr>"
  have "load_archived K (paths_of xs) index_metadata name = Inr (?src, [])"
    by (simp add: load_archived_def l1 l2 parse_store_def st assemble_source_def es(1) source_config_def w tk meta)
  moreover have "imported_as K ops aliases name c E ?src"
    using export_vectors_points [OF v] by (simp add: imported_as_def config m tok t_def split: list.splits)
  ultimately show ?thesis by blast
qed

text \<open>
  C32. The two files an export writes are read back, without a warning, as what was exported: one source per collection, with
  its name, its server configuration, every live point in order with its id, its exact vector and the bytes of its projected
  payload, its aliases and index declarations, and its tokenizer. (The sparse lanes of the points are not exported, and nothing
  says so.) The packages are to read what they wrote for this export.
\<close>

theorem archive_round_trip:
  assumes laws: "\<forall>(aliases, name, c, E)\<in>set items. item_reads_back K ops ts name c E" "archive_reads_back K ts xs"
    and items: "items \<noteq> []" "distinct (map (\<lambda>(aliases, name, c, E). name) items)"
    and xs: "mapR (\<lambda>(aliases, name, c, E). export_settled K ops ts aliases name c E) items = Inr xs"
    and files: "write_archive K ts xs = Inr files"
  shows "\<exists>sources. load_compact K \<lparr>ds_shown = shown, ds_target = TargetDir, ds_files = files\<rparr> = Inr (sources, [])
    \<and> distinct (map sc_name sources) \<and> length sources = length items
    \<and> (\<forall>(aliases, name, c, E)\<in>set items. \<exists>src\<in>set sources. imported_as K ops aliases name c E src)"
proof -
  have all2: "list_all2 (\<lambda>(aliases, name, c, E) x. export_settled K ops ts aliases name c E = Inr x) items xs"
    using mapR_InrD [OF xs] by (rule list.rel_mono_strong) auto
  then have names: "map xp_name xs = map (\<lambda>(aliases, name, c, E). name) items"
    by (induction rule: list_all2_induct) (auto dest: settled_shape)
  have shape: "\<forall>x\<in>set xs. entry_shape x"
    using all2 by (induction rule: list_all2_induct) (auto dest: settled_shape)
  have d: "distinct (map xp_name xs)" unfolding names using items(2) .
  obtain archive index_json where a: "mp_enc (vk_zip K) (paths_of xs) = Some archive"
    and i: "mp_enc (vk_index K) (archive_index K ts xs) = Some index_json"
    and f: "files = [(VECDB_FILE, archive), (VECIDX_FILE, index_json)]"
    using files by (auto simp: write_archive_def tryR_eq_Inr paths_of_def)
  let ?src = "\<lparr>ds_shown = shown, ds_target = TargetDir, ds_files = files\<rparr>"
  define im where "im = foldl (\<lambda>m c. AList.update (vi_name c) (vi_metadata c) m) [] (vx_collections (archive_index K ts xs))"
  have vi: "with_vecidx VECDB_FILE = VECIDX_FILE" "VECIDX_FILE \<noteq> VECDB_FILE"
    by (simp_all add: with_vecidx_def VECDB_FILE_def VECIDX_FILE_def)
  have side: "sidecar K ?src = Inr (im, [])"
    using laws(2) i vi by (simp add: sidecar_def archive_name_def f im_def archive_reads_back_def)
  have "im = map (\<lambda>x. (xp_name x, xp_metadata x)) xs"
    using foldl_update_distinct [of "map (\<lambda>x. (xp_name x, xp_metadata x)) xs"] d
    by (simp add: im_def archive_index_def Let_def foldl_map index_collection_def comp_def)
  then have meta: "map_of im (xp_name x) = Some (xp_metadata x)" if "x \<in> set xs" for x
    using that d by (intro map_of_is_SomeI) (auto simp: comp_def)
  let ?names = "List.map_filter (strip_suffix STORE_SUFFIX) (sort (map fst (paths_of xs)))"
  note names' = archive_names [OF shape d]
  have load: "\<exists>src. load_archived K (paths_of xs) im name = Inr (src, []) \<and> imported_as K ops aliases name c E src"
    if it: "(aliases, name, c, E) \<in> set items" for aliases name c E
  proof -
    obtain x where x: "x \<in> set xs" "export_settled K ops ts aliases name c E = Inr x"
      using all2 it by (fastforce simp: list_all2_conv_all_nth in_set_conv_nth)
    have law: "item_reads_back K ops ts name c E" using laws(1) it by fast
    have "xp_name x = name" using settled_shape [OF x(2)] by simp
    then show ?thesis using load_settled [OF law x(2) shape d x(1)] meta [OF x(1)] by simp
  qed
  have item: "\<exists>aliases c E. (aliases, n, c, E) \<in> set items" if "n \<in> set ?names" for n
  proof -
    have "n \<in> set (map (\<lambda>(aliases, name, c, E). name) items)" using that names'(2) unfolding names [symmetric] by simp
    then show ?thesis by auto
  qed
  define g where "g n = (SOME src. load_archived K (paths_of xs) im n = Inr (src, []))" for n
  have g: "load_archived K (paths_of xs) im n = Inr (g n, [])" if n: "n \<in> set ?names" for n
  proof -
    obtain aliases c E where "(aliases, n, c, E) \<in> set items" using item [OF n] by blast
    then have "\<exists>src. load_archived K (paths_of xs) im n = Inr (src, [])" using load by blast
    then show ?thesis unfolding g_def by (rule someI_ex)
  qed
  have run: "mapR (load_archived K (paths_of xs) im) ?names = Inr (map (\<lambda>n. (g n, [])) ?names)"
    by (rule mapR_all_Inr) (rule g)
  have ne: "?names \<noteq> []" using names'(2) names items(1) by (metis image_is_empty list.set(1) list.simps(8) map_is_Nil_conv set_empty)
  have "mp_dec (vk_zip K) archive = Some (paths_of xs)" using laws(2) a by (simp add: archive_reads_back_def)
  moreover have "archive_entries (paths_of xs) = paths_of xs" using archive_entries_distinct paths_distinct [OF shape d] by blast
  ultimately have loaded: "load_compact K ?src = Inr (map g ?names, [])"
    using ne run unfolding load_compact_def side
    by (simp add: archive_name_def f Let_def comp_def)
  have src: "sc_name (g n) = n \<and> (\<forall>aliases c E. (aliases, n, c, E) \<in> set items \<longrightarrow> imported_as K ops aliases n c E (g n))"
    if n: "n \<in> set ?names" for n
    using item [OF n] load g [OF n] by (fastforce simp: imported_as_def)
  let ?ns = "map (\<lambda>(aliases, name, c, E). name) items"
  have same: "set ?names = set ?ns" unfolding names'(2) names [symmetric] by simp
  have len: "length ?names = length items"
    using distinct_card [OF names'(1)] distinct_card [OF items(2)] unfolding same by simp
  have there: "name \<in> set ?names" if "(aliases, name, c, E) \<in> set items" for aliases name c E
    unfolding same set_map using that by (rule rev_image_eqI) simp
  have "\<exists>src\<in>set (map g ?names). imported_as K ops aliases n c E src" if it: "(aliases, n, c, E) \<in> set items" for aliases n c E
  proof
    show "imported_as K ops aliases n c E (g n)" using src [OF there [OF it]] it by blast
    show "g n \<in> set (map g ?names)" using there [OF it] by (simp only: set_map) (rule imageI)
  qed
  then have all: "\<forall>(aliases, n, c, E)\<in>set items. \<exists>src\<in>set (map g ?names). imported_as K ops aliases n c E src" by blast
  have "map sc_name (map g ?names) = map (\<lambda>n. n) ?names" unfolding map_map by (rule map_cong [OF refl]) (simp only: comp_def src)
  then have "distinct (map sc_name (map g ?names))" using names'(1) by simp
  moreover have "length (map g ?names) = length items" using len by simp
  ultimately show ?thesis using loaded all by blast
qed

subsection \<open>A refused import\<close>

text \<open>
  If any of the selected collections enforces encryption, the import fails and has not touched the database or its log:
  every collection is planned before the first one is created.
\<close>

theorem encrypted_import_refused:
  assumes "detect_layout src = Inr layout"
    and "(case layout of Compact \<Rightarrow> load_compact K src | Legacy \<Rightarrow> load_legacy K src) = Inr (sources, warnings)"
    and "x \<in> set sources" and "only = None \<or> sc_name x \<in> set (the only)"
    and "sc_config x = Some config" and "vc_encryption config = Some e" and "ve_required e"
  shows "\<exists>err. import_vecdb K V src only db s = (Inl err, db, s)"
proof -
  have bad: "\<exists>err. plan_source x = Inl err"
    using assms(5-7) by (auto simp: plan_source_def from_vecdb_config_def Let_def split: prod.splits if_splits)
  have "\<exists>err. plan_sources K src only = Inl err"
  proof (cases "select_sources only sources")
    case (Inl err)
    then show ?thesis using assms(1,2) by (simp add: plan_sources_def)
  next
    case (Inr selected)
    then have "x \<in> set selected" using assms(3,4) by (auto simp: select_sources_def split: option.splits)
    then obtain err where "mapR plan_source selected = Inl err" using bad mapR_Inl_iff [of plan_source selected] by blast
    then show ?thesis using assms(1,2) Inr by (simp add: plan_sources_def)
  qed
  then show ?thesis by (auto simp: import_vecdb_def)
qed

subsection \<open>Documents\<close>

text \<open>
  C34. A document that goes to the server and back keeps its id, its vector and every payload key but one. Without a key
  \<open>content\<close> of its own its text, stored under \<open>_text\<close>, is under that key of the server afterwards, and no refit will see it: to the
  collection it is a point without text. With one the payload is as it was and the text stays where it is. The JSON package is to
  read back the payload it wrote.
\<close>

theorem document_round_trip:
  assumes "pt_payload p = Some (JObj es)" and "map_of es ''_text'' = Some (JStr t)"
    and "\<And>v b. fst (project_payload name (pt_id p) (pt_payload p) True) = Some v \<Longrightarrow> mp_enc (vk_json K) v = Some b
      \<Longrightarrow> mp_dec (vk_json K) b = Some v"
    and "exported_point K name True p v" and "import_point K name' embeds v = Inr q"
  shows "pt_id q = pt_id p \<and> pt_vector q = pt_vector p
    \<and> (\<exists>es'. pt_payload q = Some (JObj es')
        \<and> map_of es' = (if map_of es ''content'' = None then (map_of es)(''_text'' := None, ''content'' \<mapsto> JStr t) else map_of es))
    \<and> stored_text (pt_payload q) = (if map_of es ''content'' = None then None else Some t)"
proof -
  let ?rest = "List.filter (\<lambda>e. fst e \<noteq> ''_text'') es"
  let ?es = "if map_of es ''content'' = None then obj_insert ''content'' (JStr t) ?rest else obj_insert ''_text'' (JStr t) ?rest"
  have m: "map_of ?es = (if map_of es ''content'' = None then (map_of es)(''_text'' := None, ''content'' \<mapsto> JStr t) else map_of es)"
    using assms(2) by (simp add: obj_insert_lookup map_of_filter_key fun_upd_idem)
  have pay: "fst (project_payload name (pt_id p) (pt_payload p) True) = Some (JObj ?es)"
    using assms(1,2) by (simp add: project_payload_def Let_def map_of_filter_key)
  then obtain b where b: "mp_enc (vk_json K) (JObj ?es) = Some b" "vv_payload_json v = Some b"
    and v: "vv_id v = pt_id p" "vv_data v = pt_vector p"
    using assms(4) by (auto simp: exported_point_def)
  have "mp_dec (vk_json K) b = Some (JObj ?es)" using assms(3) [OF pay b(1)] .
  then have q: "pt_payload q = Some (JObj ?es)" "pt_id q = pt_id p" "pt_vector q = pt_vector p"
    using assms(5) b(2) v by (auto simp: import_point_def)
  have "stored_text (pt_payload q) = Option.bind (map_of ?es ''_text'') as_str"
    unfolding q(1) stored_text_def payload_lookup_def by simp
  also have "\<dots> = (if map_of es ''content'' = None then None else Some t)" unfolding m using assms(2) by simp
  finally show ?thesis using q m by blast
qed

subsection \<open>Small instances\<close>

definition deaf :: "'a msgpack" where
  "deaf = \<lparr>mp_enc = (\<lambda>_. None), mp_dec = (\<lambda>_. None)\<rparr>"

text \<open>A codec of one document.\<close>

definition only_doc :: "bytes \<Rightarrow> 'a \<Rightarrow> 'a msgpack" where
  "only_doc b x = \<lparr>mp_enc = (\<lambda>v. if v = x then Some b else None), mp_dec = (\<lambda>c. if c = b then Some x else None)\<rparr>"

lemma only_doc_simps [simp]:
  "mp_enc (only_doc b x) v = Some c \<longleftrightarrow> v = x \<and> c = b" "mp_dec (only_doc b x) c = Some v \<longleftrightarrow> c = b \<and> v = x"
  "mp_enc (only_doc b x) x = Some b" "mp_dec (only_doc b x) b = Some x"
  by (auto simp: only_doc_def)

definition deaf_packages :: vecdb_packages where
  "deaf_packages = \<lparr>vk_store = deaf, vk_metadata = deaf, vk_index = deaf, vk_json = deaf, vk_json_pretty = (\<lambda>_. None),
     vk_config = (\<lambda>_. None), vk_strings = deaf, vk_pairs = deaf, vk_zip = deaf, vk_gunzip = (\<lambda>_. None), vk_sha256 = (\<lambda>_. [])\<rparr>"

definition sent_doc :: json where
  "sent_doc = JObj [(''content'', JStr ''cow''), (''k'', JNull)]"

theorem document_round_trip_witness:
  "\<exists>q. import_point (deaf_packages\<lparr>vk_json := only_doc [1] sent_doc\<rparr>) ''c'' True
        \<lparr>vv_id = ''a'', vv_data = [0], vv_payload_json = Some [1], vv_normalized = False\<rparr> = Inr q
    \<and> pt_id q = ''a'' \<and> stored_text (pt_payload q) = None"
proof -
  let ?K = "deaf_packages\<lparr>vk_json := only_doc [1] sent_doc\<rparr>"
  let ?p = "\<lparr>pt_id = ''a'', pt_vector = [0], pt_sparse = None, pt_payload = Some (JObj [(''_text'', JStr ''cow''), (''k'', JNull)])\<rparr>"
  let ?v = "\<lparr>vv_id = ''a'', vv_data = [0], vv_payload_json = Some [1], vv_normalized = False\<rparr>"
  have o: "obj_insert ''content'' x [(''k'', y)] = [(''content'', x), (''k'', y)]" for x y by code_simp
  have e: "exported_point ?K ''c'' True ?p ?v" by (simp add: exported_point_def project_payload_def o sent_doc_def)
  obtain q where q: "import_point ?K ''c'' True ?v = Inr q" by (simp add: import_point_def)
  have "pt_id q = pt_id ?p \<and> pt_vector q = pt_vector ?p
    \<and> (\<exists>es'. pt_payload q = Some (JObj es')
        \<and> map_of es' = (map_of [(''_text'', JStr ''cow''), (''k'', JNull)])(''_text'' := None, ''content'' \<mapsto> JStr ''cow''))
    \<and> stored_text (pt_payload q) = None"
    using document_round_trip [OF _ _ _ e q, of "[(''_text'', JStr ''cow''), (''k'', JNull)]" "''cow''"]
    by (simp add: project_payload_def o sent_doc_def)
  then show ?thesis using q by auto
qed

definition encrypted_store :: vecdb_store where
  "encrypted_store = \<lparr>vs_version = 1, vs_collections = [\<lparr>vl_name = ''c'',
     vl_config = Some (server_config\<lparr>vc_encryption := Some \<lparr>ve_required = True, ve_allow_mixed = False\<rparr>\<rparr>),
     vl_vectors = [], vl_hnsw_dump_basename = None\<rparr>]\<rparr>"

theorem encrypted_import_refused_witness:
  "\<exists>err. import_vecdb (deaf_packages\<lparr>vk_store := only_doc [] encrypted_store\<rparr>) text_env
      \<lparr>ds_shown = ''d'', ds_target = TargetFile ''c_vector_store.bin'', ds_files = [(''c_vector_store.bin'', [])]\<rparr> None
      (memory :: (unit, unit) database) () = (Inl err, memory, ())"
proof -
  let ?K = "deaf_packages\<lparr>vk_store := only_doc [] encrypted_store\<rparr>"
    and ?src = "\<lparr>ds_shown = ''d'', ds_target = TargetFile ''c_vector_store.bin'', ds_files = [(''c_vector_store.bin'', [])]\<rparr>"
    and ?config = "server_config\<lparr>vc_encryption := Some \<lparr>ve_required = True, ve_allow_mixed = False\<rparr>\<rparr>"
  let ?x = "\<lparr>sc_name = ''c'', sc_config = Some ?config, sc_vectors = [], sc_tokenizer = None, sc_index_metadata = []\<rparr>"
  have name: "strip_suffix STORE_SUFFIX ''c_vector_store.bin'' = Some ''c''" by (simp add: strip_suffix_iff STORE_SUFFIX_def)
  have "detect_layout ?src = Inr Legacy" by (simp add: detect_layout_def ends_with_def name) (simp add: strip_suffix_def)
  moreover have "load_legacy ?K ?src = Inr ([?x], [])"
    by (simp add: load_legacy_def load_legacy_file_def name parse_store_def read_legacy_file_def deaf_packages_def
        assemble_source_def encrypted_store_def STORE_VERSION_def metadata_entry_def tokenizer_entry_def)
  ultimately show ?thesis
    using encrypted_import_refused [where layout = Legacy and x = ?x and config = ?config and sources = "[?x]" and warnings = "[]"
        and e = "\<lparr>ve_required = True, ve_allow_mixed = False\<rparr>" and only = None and K = ?K and src = ?src
        and V = text_env and db = "memory :: (unit, unit) database" and s = "()"]
    by simp
qed

definition sent_store :: vecdb_store where
  "sent_store = \<lparr>vs_version = STORE_VERSION, vs_collections = [\<lparr>vl_name = ''c'',
     vl_config = Some (fst (to_vecdb_config ''c'' (cl_config demo_full))),
     vl_vectors = [\<lparr>vv_id = ''a'', vv_data = [0x3F800000, 0], vv_payload_json = None, vv_normalized = is_normalized [0x3F800000, 0]\<rparr>],
     vl_hnsw_dump_basename = None\<rparr>]\<rparr>"

definition sent_collection :: exported where
  "sent_collection = \<lparr>xp_name = ''c'', xp_entries = [(vector_store_entry ''c'', ''vectors'', [1]), (metadata_entry ''c'', ''metadata'', [2])],
     xp_vector_count = 1, xp_dimension = 2, xp_metadata = [(''veclite.auto_embed'', bytes_of ''false'')],
     xp_warnings = [byo_warning ''c'']\<rparr>"

definition sent_packages :: vecdb_packages where
  "sent_packages = deaf_packages\<lparr>vk_store := only_doc [1] sent_store, vk_metadata := \<lparr>mp_enc = (\<lambda>_. Some [2]), mp_dec = (\<lambda>_. None)\<rparr>,
     vk_json := only_doc [2] (JObj []), vk_index := only_doc [3] (archive_index deaf_packages ''now'' [sent_collection]),
     vk_zip := only_doc [4] [(vector_store_entry ''c'', [1]), (metadata_entry ''c'', [2])]\<rparr>"

lemma demo_live: "live_points demo_full = [demo_point]"
  by (simp add: live_points_def live_slots_def demo_full_def apply_prepared_def apply_upsert_def append_point_def Let_def
      demo_coll_def data_empty_def demo_prepared_def live_slot_def base_count_def point_at_def demo_point_def
      copy_vector_def overlay_vector_def slice_of_def options_new_def)

theorem archive_round_trip_witness:
  "\<exists>sources. load_compact sent_packages \<lparr>ds_shown = ''d'', ds_target = TargetDir, ds_files = [(VECDB_FILE, [4]), (VECIDX_FILE, [3])]\<rparr>
      = Inr (sources, [])
    \<and> distinct (map sc_name sources) \<and> length sources = 1
    \<and> (\<exists>src\<in>set sources. imported_as sent_packages unit_embedder [] ''c'' demo_full [] src)"
proof -
  have x: "export_settled sent_packages unit_embedder ''now'' [] ''c'' demo_full [] = Inr sent_collection"
  proof -
    have opts: "cl_config demo_full = options_new 2 DotProduct" by (simp add: demo_full_def demo_coll_def)
    have "co_embedding_provider (options_new 2 DotProduct) = None" "co_payload_indexes (options_new 2 DotProduct) = []"
      "co_dimension (options_new 2 DotProduct) = 2" by (simp_all add: options_new_def)
    moreover obtain config where "to_vecdb_config ''c'' (options_new 2 DotProduct) = (config, [])"
      by (simp add: to_vecdb_config_def options_new_def compression_default_def Let_def)
    moreover have "mp_enc (vk_store sent_packages) sent_store = Some [1]" "\<And>v. mp_enc (vk_metadata sent_packages) v = Some [2]"
      by (simp_all add: sent_packages_def)
    ultimately show ?thesis
      by (simp add: export_settled_def opts demo_live vocabulary_entry_def demo_point_def project_payload_def sent_store_def
          sent_collection_def aspect_metadata_def Let_def)
  qed
  have w: "write_archive sent_packages ''now'' [sent_collection] = Inr [(VECDB_FILE, [4]), (VECIDX_FILE, [3])]"
  proof -
    have "archive_index sent_packages ''now'' [sent_collection] = archive_index deaf_packages ''now'' [sent_collection]"
      by (simp add: archive_index_def index_collection_def index_entry_def sha256_hex_def sent_packages_def deaf_packages_def Let_def)
    moreover have "map (\<lambda>(path, _, content). (path, content)) (xp_entries sent_collection)
        = [(vector_store_entry ''c'', [1]), (metadata_entry ''c'', [2])]" by (simp add: sent_collection_def)
    ultimately show ?thesis by (simp add: write_archive_def) (simp add: sent_packages_def)
  qed
  have laws: "item_reads_back sent_packages unit_embedder ''now'' ''c'' demo_full []" "archive_reads_back sent_packages ''now'' [sent_collection]"
  proof -
    have "co_embedding_provider (cl_config demo_full) = None" by (simp add: demo_full_def demo_coll_def options_new_def)
    then have "vocabulary_entry sent_packages unit_embedder ''c'' demo_full [] = Inr ([], [])" by (simp add: vocabulary_entry_def)
    then show "item_reads_back sent_packages unit_embedder ''now'' ''c'' demo_full []"
      by (simp add: item_reads_back_def) (simp add: sent_packages_def)
    have "archive_index sent_packages ''now'' [sent_collection] = archive_index deaf_packages ''now'' [sent_collection]"
      by (simp add: archive_index_def index_collection_def index_entry_def sha256_hex_def sent_packages_def deaf_packages_def Let_def)
    then show "archive_reads_back sent_packages ''now'' [sent_collection]"
      by (simp add: archive_reads_back_def) (simp add: sent_packages_def)
  qed
  show ?thesis
    using archive_round_trip [OF _ laws(2) _ _ _ w, of "[([], ''c'', demo_full, [])]" unit_embedder "''d''"] x laws(1) by simp
qed

end
