(* ===== verification/Sessions.thy ===== *)
theory Sessions
  imports Reopen Queries
begin

section \<open>Handles on an open database\<close>

text \<open>
  What a caller of the library runs: the operations of a handle (\<open>collection.rs\<close>) on a cell of an open database, with the
  checkpoint that a write drives when the log has grown past its limit. The state is the registry together with the durable
  state, as in \<open>Durable\<close>; a handle is the position of its cell. A collection alone knows its log but not the checkpoint, which
  seals every collection of the database, so the write paths are composed here.
\<close>

type_synonym ('q, 'e) session = "('q, 'e) database \<times> durable"

definition with_cell ::
  "nat \<Rightarrow> ('q collection \<Rightarrow> durable \<Rightarrow> 'a res \<times> 'q collection \<times> durable) \<Rightarrow> ('q, 'e) session \<Rightarrow> 'a res \<times> ('q, 'e) session" where
  "with_cell r f = (\<lambda>(db, s). case f (cell db r) s of (res, c, s1) \<Rightarrow> (res, set_cell r c db, s1))"

text \<open>Log and apply, then \<open>after_write\<close>; a failing checkpoint is reported although the write has been applied.\<close>

definition handle_write ::
  "disk_env \<Rightarrow> 'e embedder_ops \<Rightarrow> 'q quantizers \<Rightarrow> nat \<Rightarrow> ('q collection \<Rightarrow> durable \<Rightarrow> 'a res \<times> 'q collection \<times> durable)
    \<Rightarrow> ('q, 'e) session \<Rightarrow> 'a res \<times> ('q, 'e) session" where
  "handle_write D ops Q r f x =
     (case with_cell r f x of
        (Inl e, y) \<Rightarrow> (Inl e, y)
      | (Inr v, y) \<Rightarrow> (case db_after_write D ops Q y of (Inl e, z) \<Rightarrow> (Inl e, z) | (Inr _, z) \<Rightarrow> (Inr v, z)))"

definition handle_upsert_batch ::
  "disk_env \<Rightarrow> ('e, durable) env \<Rightarrow> 'q quantizers \<Rightarrow> point list \<Rightarrow> nat \<Rightarrow> ('q, 'e) session \<Rightarrow> unit res \<times> ('q, 'e) session" where
  "handle_upsert_batch D V Q points r =
     handle_write D (ev_emb V) Q r (user_upsert_step (ev_json_len V) (wm_points (ev_wal V)) (ev_log V) points)"

definition handle_upsert ::
  "disk_env \<Rightarrow> ('e, durable) env \<Rightarrow> 'q quantizers \<Rightarrow> point \<Rightarrow> nat \<Rightarrow> ('q, 'e) session \<Rightarrow> unit res \<times> ('q, 'e) session" where
  "handle_upsert D V Q p = handle_upsert_batch D V Q [p]"

definition handle_delete_batch ::
  "disk_env \<Rightarrow> ('e, durable) env \<Rightarrow> 'q quantizers \<Rightarrow> string list \<Rightarrow> nat \<Rightarrow> ('q, 'e) session \<Rightarrow> nat res \<times> ('q, 'e) session" where
  "handle_delete_batch D V Q keys r =
     handle_write D (ev_emb V) Q r (delete_batch_step (wm_ids (ev_wal V)) (ev_log V) keys)"

definition handle_delete ::
  "disk_env \<Rightarrow> ('e, durable) env \<Rightarrow> 'q quantizers \<Rightarrow> string \<Rightarrow> nat \<Rightarrow> ('q, 'e) session \<Rightarrow> bool res \<times> ('q, 'e) session" where
  "handle_delete D V Q key r x =
     (case handle_delete_batch D V Q [key] r x of (res, y) \<Rightarrow> (tryR res (\<lambda>n. Inr (n = 1)), y))"

text \<open>A repeated declaration returns before the write path.\<close>

definition handle_create_payload_index ::
  "disk_env \<Rightarrow> ('e, durable) env \<Rightarrow> 'q quantizers \<Rightarrow> string \<Rightarrow> payload_index_kind \<Rightarrow> nat \<Rightarrow> ('q, 'e) session
    \<Rightarrow> unit res \<times> ('q, 'e) session" where
  "handle_create_payload_index D V Q key kind r x =
     (let f = create_payload_index_step (wm_pidx (ev_wal V)) (ev_log V) key kind
      in if kind_of (cd_payload_indexes (cl_data (cell (fst x) r))) key \<noteq> None then with_cell r f x
         else handle_write D (ev_emb V) Q r f x)"

definition handle_reindex :: "'q quantizers \<Rightarrow> nat \<Rightarrow> ('q, 'e) session \<Rightarrow> unit res \<times> ('q, 'e) session" where
  "handle_reindex Q r = with_cell r (\<lambda>c s. case reindex Q c of (res, c1) \<Rightarrow> (res, c1, s))"

subsection \<open>Documents\<close>

definition set_embedder :: "nat \<Rightarrow> 'e \<Rightarrow> ('q, 'e) database \<Rightarrow> ('q, 'e) database" where
  "set_embedder r e db = db\<lparr>db_embedders := (db_embedders db)[r := e]\<rparr>"

definition handle_write_points ::
  "disk_env \<Rightarrow> ('e, durable) env \<Rightarrow> 'q quantizers \<Rightarrow> point list \<Rightarrow> nat \<Rightarrow> ('q, 'e) session \<Rightarrow> unit res \<times> ('q, 'e) session" where
  "handle_write_points D V Q points r =
     handle_write D (ev_emb V) Q r (upsert_batch_step (ev_json_len V) (wm_points (ev_wal V)) (ev_log V) True points)"

definition handle_upsert_text_batch ::
  "disk_env \<Rightarrow> ('e, durable) env \<Rightarrow> 'q quantizers \<Rightarrow> (string \<times> string \<times> json option) list \<Rightarrow> nat \<Rightarrow> ('q, 'e) session
    \<Rightarrow> unit res \<times> ('q, 'e) session" where
  "handle_upsert_text_batch D V Q items r = (\<lambda>(db, s).
     case tryR (guard (cell db r)) (\<lambda>_. text_embedder (cell db r)) of
       Inl e \<Rightarrow> (Inl e, db, s)
     | Inr n \<Rightarrow>
         (case text_points (ev_emb V) (co_dimension (cl_config (cell db r))) items (db_embedders db ! n) of
            (Inl e, emb) \<Rightarrow> (Inl e, set_embedder n emb db, s)
          | (Inr points, emb) \<Rightarrow>
              (case handle_write_points D V Q points r (set_embedder n emb db, s) of
                 (Inl e, y) \<Rightarrow> (Inl e, y)
               | (Inr _, db1, s1) \<Rightarrow> (Inr (), on_cell r mark_text_dirty db1, s1))))"

definition handle_upsert_text ::
  "disk_env \<Rightarrow> ('e, durable) env \<Rightarrow> 'q quantizers \<Rightarrow> string \<Rightarrow> string \<Rightarrow> json option \<Rightarrow> nat \<Rightarrow> ('q, 'e) session
    \<Rightarrow> unit res \<times> ('q, 'e) session" where
  "handle_upsert_text D V Q key text payload = handle_upsert_text_batch D V Q [(key, text, payload)]"

definition handle_upsert_text_with ::
  "disk_env \<Rightarrow> ('e, durable) env \<Rightarrow> 'q quantizers \<Rightarrow> string \<Rightarrow> string \<Rightarrow> json \<Rightarrow> nat \<Rightarrow> ('q, 'e) session
    \<Rightarrow> unit res \<times> ('q, 'e) session" where
  "handle_upsert_text_with D V Q key text payload = handle_upsert_text_batch D V Q [(key, text, Some payload)]"

text \<open>The refitted points go through the same write path, so a checkpoint may run before the vocabulary is logged.\<close>

definition handle_do_refit ::
  "disk_env \<Rightarrow> ('e, durable) env \<Rightarrow> 'q quantizers \<Rightarrow> nat \<Rightarrow> ('q, 'e) session \<Rightarrow> unit res \<times> ('q, 'e) session" where
  "handle_do_refit D V Q r = (\<lambda>(db, s).
     let c = cell db r; docs = text_documents (cl_data c)
     in case embedder_ready c of
          None \<Rightarrow> (Inr (), db, s)
        | Some n \<Rightarrow>
            if docs = [] then (Inr (), db, s)
            else case em_fit (ev_emb V) (db_embedders db ! n) (map (\<lambda>d. fst (snd d)) docs) of
              Inl e \<Rightarrow> (Inl e, db, s)
            | Inr emb \<Rightarrow>
                (case mapR (refit_point (ev_emb V) emb (co_dimension (cl_config c))) docs of
                   Inl e \<Rightarrow> (Inl e, set_embedder n emb db, s)
                 | Inr points \<Rightarrow>
                     (case handle_write_points D V Q points r (set_embedder n emb db, s) of
                        (Inl e, y) \<Rightarrow> (Inl e, y)
                      | (Inr _, db1, s1) \<Rightarrow>
                          (case log_vocab V (db_embedders db1 ! n) (cell db1 r) s1 of
                             (Inl e, s2) \<Rightarrow> (Inl e, db1, s2)
                           | (Inr _, s2) \<Rightarrow> (Inr (), on_cell r (\<lambda>c. c\<lparr>cl_text_dirty := False\<rparr>) db1, s2)))))"

definition handle_refit_if_dirty ::
  "disk_env \<Rightarrow> ('e, durable) env \<Rightarrow> 'q quantizers \<Rightarrow> nat \<Rightarrow> ('q, 'e) session \<Rightarrow> unit res \<times> ('q, 'e) session" where
  "handle_refit_if_dirty D V Q r = (\<lambda>(db, s).
     if cl_text_dirty (cell db r)
     then handle_do_refit D V Q r (on_cell r (\<lambda>c. c\<lparr>cl_text_dirty := False\<rparr>) db, s)
     else (Inr (), db, s))"

definition handle_refit ::
  "disk_env \<Rightarrow> ('e, durable) env \<Rightarrow> 'q quantizers \<Rightarrow> nat \<Rightarrow> ('q, 'e) session \<Rightarrow> unit res \<times> ('q, 'e) session" where
  "handle_refit D V Q r x =
     (case tryR (guard (cell (fst x) r)) (\<lambda>_. text_embedder (cell (fst x) r)) of
        Inl e \<Rightarrow> (Inl e, x)
      | Inr _ \<Rightarrow> handle_do_refit D V Q r x)"

subsection \<open>Searches\<close>

definition refreshed ::
  "disk_env \<Rightarrow> ('e, durable) env \<Rightarrow> 'q quantizers \<Rightarrow> nat \<Rightarrow> (('q, 'e) database \<Rightarrow> 'a res) \<Rightarrow> ('q, 'e) session
    \<Rightarrow> 'a res \<times> ('q, 'e) session" where
  "refreshed D V Q r g x =
     (case handle_refit_if_dirty D V Q r x of (Inl e, y) \<Rightarrow> (Inl e, y) | (Inr _, y) \<Rightarrow> (g (fst y), y))"

definition handle_query ::
  "disk_env \<Rightarrow> ('e, durable) env \<Rightarrow> 'q quantizers \<Rightarrow> query_builder \<Rightarrow> nat \<Rightarrow> ('q, 'e) session \<Rightarrow> hit list res \<times> ('q, 'e) session" where
  "handle_query D V Q q r x =
     (case guard (cell (fst x) r) of
        Inl e \<Rightarrow> (Inl e, x)
      | Inr _ \<Rightarrow>
          refreshed D V Q r (\<lambda>db. run_query (ev_ann V) (cell db r) (qb_vector q) (qb_limit q) (qb_ef_search q) (qb_with_payload q)
            (qb_with_vector q) (qb_filter q)) x)"

definition handle_search ::
  "disk_env \<Rightarrow> ('e, durable) env \<Rightarrow> 'q quantizers \<Rightarrow> f32 list \<Rightarrow> nat \<Rightarrow> nat \<Rightarrow> ('q, 'e) session \<Rightarrow> hit list res \<times> ('q, 'e) session" where
  "handle_search D V Q vector limit = handle_query D V Q (query_limit limit (query_builder_new vector))"

fun handle_search_batch ::
  "disk_env \<Rightarrow> ('e, durable) env \<Rightarrow> 'q quantizers \<Rightarrow> f32 list list \<Rightarrow> nat \<Rightarrow> nat \<Rightarrow> ('q, 'e) session
    \<Rightarrow> hit list res list \<times> ('q, 'e) session" where
  "handle_search_batch D V Q [] limit r x = ([], x)"
| "handle_search_batch D V Q (q # qs) limit r x =
     (case handle_search D V Q q limit r x of
        (res, y) \<Rightarrow> (case handle_search_batch D V Q qs limit r y of (rs, z) \<Rightarrow> (res # rs, z)))"

definition handle_search_text ::
  "disk_env \<Rightarrow> ('e, durable) env \<Rightarrow> 'q quantizers \<Rightarrow> string \<Rightarrow> nat \<Rightarrow> nat \<Rightarrow> ('q, 'e) session \<Rightarrow> hit list res \<times> ('q, 'e) session" where
  "handle_search_text D V Q query limit r x =
     (case tryR (guard (cell (fst x) r)) (\<lambda>_. text_embedder (cell (fst x) r)) of
        Inl e \<Rightarrow> (Inl e, x)
      | Inr n \<Rightarrow>
          (case refreshed D V Q r (\<lambda>db. em_embed (ev_emb V) (db_embedders db ! n) query) x of
             (Inl e, y) \<Rightarrow> (Inl e, y)
           | (Inr v, y) \<Rightarrow>
               if 0 < limit \<and> (\<forall>x\<in>set v. f32_eq x 0) then (Inr [], y) else handle_search D V Q v limit r y))"

definition handle_hybrid_lanes ::
  "disk_env \<Rightarrow> ('e, durable) env \<Rightarrow> 'q quantizers \<Rightarrow> f32 list option \<Rightarrow> sparse_vector option \<Rightarrow> hybrid_query \<Rightarrow> nat \<Rightarrow> ('q, 'e) session
    \<Rightarrow> hit list res \<times> ('q, 'e) session" where
  "handle_hybrid_lanes D V Q dense sparse q r x =
     (let run = (\<lambda>db. run_hybrid (ev_ann V) (cell db r) dense sparse (f32_clamp 0 f32_one (hq_alpha q)) (hq_rrf_k q) (hq_limit q)
             (hq_with_payload q) (hq_with_vector q) (hq_filter q))
      in case tryR (guard (cell (fst x) r)) (\<lambda>_. if hq_limit q = 0 then Inl limit_error
                else case sparse of None \<Rightarrow> Inr () | Some sv \<Rightarrow> sparse_validate sv) of
           Inl e \<Rightarrow> (Inl e, x)
         | Inr _ \<Rightarrow> if dense = None then (run (fst x), x) else refreshed D V Q r run x)"

definition handle_hybrid ::
  "disk_env \<Rightarrow> ('e, durable) env \<Rightarrow> 'q quantizers \<Rightarrow> hybrid_query \<Rightarrow> nat \<Rightarrow> ('q, 'e) session \<Rightarrow> hit list res \<times> ('q, 'e) session" where
  "handle_hybrid D V Q q r x =
     (case hq_text q of
        None \<Rightarrow> handle_hybrid_lanes D V Q (hq_dense q) (hq_sparse q) q r x
      | Some query \<Rightarrow>
          (case tryR (guard (cell (fst x) r)) (\<lambda>_. text_embedder (cell (fst x) r)) of
             Inl e \<Rightarrow> (Inl e, x)
           | Inr n \<Rightarrow>
               (case refreshed D V Q r (\<lambda>db. em_embed (ev_emb V) (db_embedders db ! n) query) x of
                  (Inl e, y) \<Rightarrow> (Inl e, y)
                | (Inr dense, y) \<Rightarrow>
                    if 0 < hq_limit q \<and> (\<forall>x\<in>set dense. f32_eq x 0) \<and> sparse_from_dense dense = None then (Inr [], y)
                    else handle_hybrid_lanes D V Q (Some dense) (sparse_from_dense dense) q r y)))"


subsection \<open>Maintenance is invisible\<close>

text \<open>
  Checkpoint and vacuum may seal, compact and renumber, but every collection keeps its handle, its settings and its contents.
\<close>

definition maintained :: "('q, 'e) database \<Rightarrow> ('q, 'e) database \<Rightarrow> bool" where
  "maintained db db' \<longleftrightarrow> db' = db\<lparr>db_cells := db_cells db'\<rparr> \<and> length (db_cells db') = length (db_cells db) \<and>
     (\<forall>r < length (db_cells db). cell db' r = (cell db r)\<lparr>cl_data := cl_data (cell db' r)\<rparr>
        \<and> coll_contents (cell db' r) = coll_contents (cell db r) \<and> (coll_inv (cell db r) \<longrightarrow> coll_inv (cell db' r)))"

lemma maintained_refl [simp]: "maintained db db"
  by (simp add: maintained_def)

lemma maintained_fields:
  assumes "maintained db db'"
  shows "db_collections db' = db_collections db" "db_aliases db' = db_aliases db" "db_persistent db' = db_persistent db"
    "db_next_coll_id db' = db_next_coll_id db" "db_embedders db' = db_embedders db" "db_registered db' = db_registered db"
    "length (db_cells db') = length (db_cells db)"
proof -
  obtain x where "db' = db\<lparr>db_cells := x\<rparr>" using assms by (auto simp: maintained_def)
  then show "db_collections db' = db_collections db" "db_aliases db' = db_aliases db" "db_persistent db' = db_persistent db"
    "db_next_coll_id db' = db_next_coll_id db" "db_embedders db' = db_embedders db" "db_registered db' = db_registered db"
    by simp_all
  show "length (db_cells db') = length (db_cells db)" using assms by (simp add: maintained_def)
qed

lemma maintained_cell:
  assumes "maintained db db'" and r: "r < length (db_cells db)"
  shows "same_handle (cell db r) (cell db' r)" "cl_config (cell db' r) = cl_config (cell db r)"
    "cl_text_dirty (cell db' r) = cl_text_dirty (cell db r)" "cl_embedder (cell db' r) = cl_embedder (cell db r)"
    "coll_contents (cell db' r) = coll_contents (cell db r)" "coll_inv (cell db r) \<Longrightarrow> coll_inv (cell db' r)"
proof -
  obtain d where c: "cell db' r = (cell db r)\<lparr>cl_data := d\<rparr>" using assms by (auto simp: maintained_def)
  then show "same_handle (cell db r) (cell db' r)" "cl_config (cell db' r) = cl_config (cell db r)"
    "cl_text_dirty (cell db' r) = cl_text_dirty (cell db r)" "cl_embedder (cell db' r) = cl_embedder (cell db r)"
    by (simp_all add: same_handle_def)
  show "coll_contents (cell db' r) = coll_contents (cell db r)" "coll_inv (cell db r) \<Longrightarrow> coll_inv (cell db' r)"
    using assms by (simp_all add: maintained_def)
qed

lemma maintained_trans:
  assumes a: "maintained db1 db2" and b: "maintained db2 db3"
  shows "maintained db1 db3"
proof -
  have "\<exists>x. db2 = db1\<lparr>db_cells := x\<rparr>" "\<exists>y. db3 = db2\<lparr>db_cells := y\<rparr>" using a b unfolding maintained_def by blast+
  then obtain x y where "db2 = db1\<lparr>db_cells := x\<rparr>" "db3 = db2\<lparr>db_cells := y\<rparr>" by blast
  then have d: "db3 = db1\<lparr>db_cells := db_cells db3\<rparr>" by simp
  have "cell db3 r = (cell db1 r)\<lparr>cl_data := cl_data (cell db3 r)\<rparr>" if r: "r < length (db_cells db1)" for r
  proof -
    have "cell db2 r = (cell db1 r)\<lparr>cl_data := cl_data (cell db2 r)\<rparr>" "cell db3 r = (cell db2 r)\<lparr>cl_data := cl_data (cell db3 r)\<rparr>"
      using a b r by (simp_all add: maintained_def)
    then have "cell db3 r = (cell db1 r)\<lparr>cl_data := cl_data (cell db2 r), cl_data := cl_data (cell db3 r)\<rparr>" by argo
    then show ?thesis by simp
  qed
  then show ?thesis using a b d by (auto simp: maintained_def)
qed

lemma maintained_set_cell:
  assumes "c = (cell db r)\<lparr>cl_data := cl_data c\<rparr>" "coll_contents c = coll_contents (cell db r)" "coll_inv (cell db r) \<Longrightarrow> coll_inv c"
  shows "maintained db (set_cell r c db)"
  using assms by (auto simp: maintained_def cell_set_cell)

lemma mark_sealed_contents: "coll_contents (mark_sealed refs n m c) = coll_contents c"
proof -
  have "same_store (cl_data (mark_sealed refs n m c)) (cl_data c)" by (simp add: mark_sealed_def same_store_def)
  then show ?thesis unfolding coll_contents_def by (simp add: same_store_contents)
qed

lemma mark_entry_maintained: "maintained db (mark_entry entry db)"
proof (cases "collection_by_id db (ce_coll_id entry)")
  case (Some e)
  have "mark_sealed refs n m c = c\<lparr>cl_data := cl_data (mark_sealed refs n m c)\<rparr>" for refs n m and c :: "'a collection"
    by (simp add: mark_sealed_def)
  then have "maintained db (set_cell r (mark_sealed refs n m (cell db r)) db)" for r refs n m
    by (rule maintained_set_cell) (simp_all add: mark_sealed_contents)
  then show ?thesis using Some by (cases e) (simp add: mark_entry_def on_cell_def)
qed (simp add: mark_entry_def)

lemma mark_entries_maintained: "maintained db (fold mark_entry es db)"
  by (induction es arbitrary: db) (auto intro: maintained_trans mark_entry_maintained)

lemma checkpoint_inner_maintained: "checkpoint_inner D ops (db, s) = (res, db', s') \<Longrightarrow> maintained db db'"
  by (auto simp: checkpoint_inner_def mark_entries_maintained split: if_splits sum.splits prod.splits option.splits)

lemma compact_data: "compact Q c = (res, c') \<Longrightarrow> c' = c\<lparr>cl_data := cl_data c'\<rparr>"
  by (auto simp: compact_def Let_def split: sum.splits prod.splits if_splits)

lemma compact_all_maintained:
  "compact_all Q rs db = (res, db') \<Longrightarrow> \<forall>r\<in>set rs. r < length (db_cells db) \<longrightarrow> coll_inv (cell db r) \<Longrightarrow> maintained db db'"
proof (induction Q rs db rule: compact_all.induct)
  case (2 Q r rs db)
  obtain res1 c where c: "compact Q (cell db r) = (res1, c)" by (cases "compact Q (cell db r)")
  have m: "maintained db (set_cell r c db)"
  proof (cases "r < length (db_cells db)")
    case True
    then have "coll_inv (cell db r)" using 2(3) by simp
    from compact_inv [OF this c] compact_data [OF c] show ?thesis by (intro maintained_set_cell) simp_all
  qed (simp add: set_cell_def list_update_beyond)
  show ?case
  proof (cases res1)
    case (Inr v)
    have inv: "\<forall>i\<in>set rs. i < length (db_cells (set_cell r c db)) \<longrightarrow> coll_inv (cell (set_cell r c db) i)"
      using 2(3) maintained_cell(6) [OF m] by simp
    have rest: "compact_all Q rs (set_cell r c db) = (res, db')" using 2(2) c Inr by simp
    from maintained_trans [OF m 2(1) [OF c [symmetric] Inr rest inv]] show ?thesis .
  qed (use 2(2) c m in simp)
qed simp


lemma maintained_reg_inv:
  assumes m: "maintained db db'" and i: "reg_inv db"
  shows "reg_inv db'"
proof -
  note f = maintained_fields [OF m]
  have c: "cl_name (cell db' r) = cl_name (cell db r) \<and> cl_deleted (cell db' r) = cl_deleted (cell db r)
      \<and> cl_aliases (cell db' r) = cl_aliases (cell db r) \<and> cl_coll_id (cell db' r) = cl_coll_id (cell db r)" if "r < length (db_cells db)" for r
    using maintained_cell(1) [OF m that] by (simp add: same_handle_def)
  have ids: "map cl_coll_id (db_cells db') = map cl_coll_id (db_cells db)"
    by (rule nth_equalityI) (use f c in \<open>simp_all add: cell_def\<close>)
  then have "cl_coll_id ` set (db_cells db') = cl_coll_id ` set (db_cells db)" by (metis list.set_map)
  moreover have "\<forall>k\<in>cl_coll_id ` set (db_cells db). k < db_next_coll_id db" using i by (simp add: reg_inv_def coll_ids_ok_def)
  ultimately have "\<forall>k\<in>cl_coll_id ` set (db_cells db'). k < db_next_coll_id db" by simp
  then have "coll_ids_ok db'" using i f(4) ids by (simp add: reg_inv_def coll_ids_ok_def)
  moreover have "names_ok db'" "aliases_ok db'"
    using i c unfolding reg_inv_def names_ok_def aliases_ok_def f by auto
  moreover have "\<forall>r. r < length (db_cells db') \<and> \<not> cl_deleted (cell db' r) \<longrightarrow> coll_inv (cell db' r)"
    using i c f(7) maintained_cell(6) [OF m] by (auto simp: reg_inv_def)
  ultimately show ?thesis by (simp add: reg_inv_def)
qed

lemma vacuum_inner_maintained:
  assumes "reg_inv db" "vacuum_inner D ops Q (db, s) = (res, db', s')"
  shows "maintained db db'"
proof -
  have "\<forall>r\<in>set (live_cells db). r < length (db_cells db) \<longrightarrow> coll_inv (cell db r)"
    using assms(1) by (simp add: live_cells_def reg_inv_def)
  then have m: "compact_all Q (live_cells db) db = (r1, db1) \<Longrightarrow> maintained db db1" for r1 db1
    using compact_all_maintained by blast
  show ?thesis using assms(2) m by (auto simp: vacuum_inner_def split: if_splits sum.splits prod.splits)
qed

lemma checkpoint_and_maybe_vacuum_maintained:
  assumes i: "reg_inv db" and c: "checkpoint_and_maybe_vacuum D ops Q (db, s) = (res, db', s')"
  shows "maintained db db'"
proof -
  obtain r1 db1 s1 where k: "checkpoint_inner D ops (db, s) = (r1, db1, s1)" by (cases "checkpoint_inner D ops (db, s)")
  then have m: "maintained db db1" by (rule checkpoint_inner_maintained)
  then have "vacuum_inner D ops Q (db1, s1) = (res, db', s') \<Longrightarrow> maintained db db'"
    using vacuum_inner_maintained maintained_reg_inv [OF m i] maintained_trans by blast
  then show ?thesis using c k m by (auto simp: checkpoint_and_maybe_vacuum_def split: sum.splits if_splits)
qed

lemma db_after_write_maintained:
  "reg_inv db \<Longrightarrow> db_after_write D ops Q (db, s) = (res, db', s') \<Longrightarrow> maintained db db'"
  using checkpoint_and_maybe_vacuum_maintained [of db D ops Q s res db' s']
  by (auto simp: db_after_write_def after_write_def split: if_splits)

subsection \<open>Without a file\<close>

text \<open>On a database in memory nothing follows a write, and the operations of this theory are those of the collection.\<close>

definition lifted :: "nat \<Rightarrow> ('q, 'e) database \<Rightarrow> 'a res \<times> 'q collection \<times> 'e list \<times> durable \<Rightarrow> 'a res \<times> ('q, 'e) session" where
  "lifted r db = (\<lambda>(res, c, E, s). (res, (set_cell r c db)\<lparr>db_embedders := E\<rparr>, s))"

lemma lifted_Pair [simp]: "lifted r db (res, c, E, s) = (res, (set_cell r c db)\<lparr>db_embedders := E\<rparr>, s)"
  by (simp add: lifted_def)

lemma memory_write:
  "\<not> db_persistent db \<Longrightarrow> handle_write D ops Q r f (db, s) = with_cell r f (db, s)"
  by (auto simp: handle_write_def with_cell_def db_after_write_def split: sum.splits prod.splits)

lemma embedders_set_cell [simp]:
  "(set_cell r c db)\<lparr>db_embedders := E\<rparr> = set_cell r c (db\<lparr>db_embedders := E\<rparr>)" "set_cell r c (set_cell r c' db) = set_cell r c db"
  by (simp_all add: set_cell_def)

lemma set_cell_same [simp]: "set_cell r (cell db r) db = db"
  by (cases "r < length (db_cells db)") (simp_all add: set_cell_def cell_def)

lemma set_cell_same_embedders [simp]: "set_cell r (cell db r) (db\<lparr>db_embedders := E\<rparr>) = db\<lparr>db_embedders := E\<rparr>"
  using set_cell_same [of r "db\<lparr>db_embedders := E\<rparr>"] by simp

lemma memory_upsert_text_batch:
  assumes "\<not> db_persistent db" "r < length (db_cells db)"
  shows "handle_upsert_text_batch D V Q items r (db, s)
    = lifted r db (upsert_text_batch_step V items (cell db r) (db_embedders db) s)"
  using assms
  by (auto simp: handle_upsert_text_batch_def upsert_text_batch_step_def handle_write_points_def memory_write set_embedder_def with_cell_def
      cell_set_cell on_cell_def mark_text_dirty_def split: sum.splits prod.splits)

lemma memory_do_refit:
  assumes "\<not> db_persistent db" "r < length (db_cells db)" "\<forall>n. embedder_ready (cell db r) = Some n \<longrightarrow> n < length (db_embedders db)"
  shows "handle_do_refit D V Q r (db, s) = lifted r db (do_refit_step V (cell db r) (db_embedders db) s)"
  using assms
  by (auto simp: handle_do_refit_def do_refit_step_def handle_write_points_def memory_write set_embedder_def with_cell_def Let_def
      cell_set_cell on_cell_def split: sum.splits prod.splits option.splits)

definition embedder_there :: "('q, 'e) database \<Rightarrow> nat \<Rightarrow> bool" where
  "embedder_there db r \<longleftrightarrow> r < length (db_cells db) \<and> (\<forall>n. embedder_ready (cell db r) = Some n \<longrightarrow> n < length (db_embedders db))"

lemma memory_refit_if_dirty:
  assumes "\<not> db_persistent db" "embedder_there db r"
  shows "handle_refit_if_dirty D V Q r (db, s) = lifted r db (refit_if_dirty_step V (cell db r) (db_embedders db) s)"
proof -
  let ?db = "set_cell r ((cell db r)\<lparr>cl_text_dirty := False\<rparr>) db"
  have "embedder_ready (cell ?db r) = embedder_ready (cell db r)" using assms by (simp add: cell_set_cell embedder_there_def embedder_ready_def)
  then have "handle_do_refit D V Q r (?db, s) = lifted r ?db (do_refit_step V (cell ?db r) (db_embedders db) s)"
    using memory_do_refit [of ?db r D V Q s] assms by (simp add: embedder_there_def)
  then show ?thesis
    using assms by (auto simp: handle_refit_if_dirty_def refit_if_dirty_step_def on_cell_def lifted_def cell_set_cell embedder_there_def split: prod.splits)
qed

lemma memory_query:
  assumes "\<not> db_persistent db" "embedder_there db r"
  shows "handle_query D V Q q r (db, s) = lifted r db (query_run V q (cell db r) (db_embedders db) s)"
  using assms(2) memory_refit_if_dirty [OF assms, of D V Q s]
  by (auto simp: handle_query_def query_run_def execute_query_def refreshed_def cell_set_cell embedder_there_def split: sum.splits prod.splits)

subsection \<open>A write and what follows it\<close>

lemma handle_write_cases:
  assumes "handle_write D ops Q r f (db, s) = (res, db', s')" and f: "f (cell db r) s = (r1, c, s1)"
  shows "case r1 of Inl e \<Rightarrow> res = Inl e \<and> db' = set_cell r c db \<and> s' = s1
    | Inr v \<Rightarrow> (\<exists>r2. db_after_write D ops Q (set_cell r c db, s1) = (r2, db', s') \<and> res = tryR r2 (\<lambda>_. Inr v))"
  using assms by (auto simp: handle_write_def with_cell_def split: sum.splits prod.splits)

text \<open>What the log and the registry look like once a batch has been applied, before what follows it.\<close>

definition batch_applied ::
  "('e, durable) env \<Rightarrow> point list \<Rightarrow> nat \<Rightarrow> ('q, 'e) session \<Rightarrow> ('q, 'e) session \<Rightarrow> bool" where
  "batch_applied V points r x y \<longleftrightarrow>
     (let c = cell (fst x) r; c1 = cell (fst y) r
      in (\<exists>ps. mapR (prepare_inner (ev_json_len V) (cl_config c) False) points = Inr ps
          \<and> coll_contents c1 = coll_contents c ++ map_of (rev (map (\<lambda>p. (pp_id p, prepared_contents p)) ps)))
       \<and> fst y = set_cell r c1 (fst x) \<and> same_handle c c1
       \<and> (if cl_persistent c
          then \<exists>b. wal_encode (wm_points (ev_wal V)) points = Inr b \<and> ev_log V (cl_coll_id c) UpsertBatch b (snd x) = (Inr (), snd y)
          else snd y = snd x))"

lemma upsert_steps:
  assumes i: "reg_inv db" and r: "r < length (db_cells db)" and fits: "length points \<le> room (cl_data (cell db r))"
    and h: "handle_upsert_batch D V Q points r (db, s) = (res, db', s')"
  shows "(\<exists>e. res = Inl e \<and> db' = db \<and> (s' = s \<or> (\<exists>b. ev_log V (cl_coll_id (cell db r)) UpsertBatch b s = (Inl e, s'))))
    \<or> (\<exists>db1 s1. batch_applied V points r (db, s) (db1, s1) \<and> reg_inv db1 \<and> db_after_write D (ev_emb V) Q (db1, s1) = (res, db', s'))"
proof -
  obtain r1 c s1 where u: "user_upsert_step (ev_json_len V) (wm_points (ev_wal V)) (ev_log V) points (cell db r) s = (r1, c, s1)"
    by (cases "user_upsert_step (ev_json_len V) (wm_points (ev_wal V)) (ev_log V) points (cell db r) s")
  note w = handle_write_cases [where f = "user_upsert_step (ev_json_len V) (wm_points (ev_wal V)) (ev_log V) points",
      OF h [unfolded handle_upsert_batch_def] u]
  note uc = upsert_inner_cases [OF u [unfolded user_upsert_step_def]]
  show ?thesis
  proof (cases r1)
    case (Inl e)
    then show ?thesis using w uc by auto
  next
    case (Inr v)
    then have u': "user_upsert_step (ev_json_len V) (wm_points (ev_wal V)) (ev_log V) points (cell db r) s = (Inr (), c, s1)"
      using u by simp
    then have g: "\<not> cl_deleted (cell db r)"
      by (auto simp: user_upsert_step_def upsert_batch_step_def guard_def split: if_splits sum.splits)
    obtain ps where ps: "mapR (prepare_inner (ev_json_len V) (cl_config (cell db r)) False) points = Inr ps"
      "coll_contents c = coll_contents (cell db r) ++ map_of (rev (map (\<lambda>p. (pp_id p, prepared_contents p)) ps))" "coll_inv c"
      using upsert_refines [OF cells_inv [OF i r g] fits u'] by blast
    have sh: "same_handle (cell db r) c" using uc by (auto simp: same_handle_def)
    have "if cl_persistent (cell db r)
        then \<exists>b. wal_encode (wm_points (ev_wal V)) points = Inr b \<and> ev_log V (cl_coll_id (cell db r)) UpsertBatch b s = (Inr (), s1)
        else s1 = s"
      using uc Inr by (auto simp: encode_wal_def coll_log_def tryR_eq_Inr split: if_splits)
    then have "batch_applied V points r (db, s) (set_cell r c db, s1)"
      using ps sh r by (simp add: batch_applied_def Let_def cell_set_cell)
    moreover have "reg_inv (set_cell r c db)" using reg_inv_set_cell [OF i _ sh] ps(3) by blast
    moreover have "db_after_write D (ev_emb V) Q (set_cell r c db, s1) = (res, db', s')"
    proof -
      obtain r2 where r2: "db_after_write D (ev_emb V) Q (set_cell r c db, s1) = (r2, db', s')" "res = tryR r2 (\<lambda>_. Inr ())"
        using w Inr by auto
      then show ?thesis by (cases r2) auto
    qed
    ultimately show ?thesis by blast
  qed
qed

lemma applied_and_maintained:
  assumes b: "batch_applied V points r (db, s) (db1, s1)" and i: "reg_inv db1" and r: "r < length (db_cells db)"
    and a: "db_after_write D ops Q (db1, s1) = (res, db', s')"
  shows "\<exists>ps. mapR (prepare_inner (ev_json_len V) (cl_config (cell db r)) False) points = Inr ps
    \<and> coll_contents (cell db' r) = coll_contents (cell db r) ++ map_of (rev (map (\<lambda>p. (pp_id p, prepared_contents p)) ps))
    \<and> (\<forall>q < length (db_cells db). q \<noteq> r \<longrightarrow> coll_contents (cell db' q) = coll_contents (cell db q))
    \<and> db_collections db' = db_collections db \<and> db_aliases db' = db_aliases db \<and> reg_inv db'"
proof -
  note m = db_after_write_maintained [OF i a]
  have d: "db1 = set_cell r (cell db1 r) db" using b by (simp add: batch_applied_def Let_def)
  have "coll_contents (cell db' q) = coll_contents (cell db1 q)" if "q < length (db_cells db)" for q
    using maintained_cell(5) [OF m] that d by (metis length_list_update set_cell_fields(1))
  moreover have "cell db1 q = cell db q" if "q \<noteq> r" for q
    using arg_cong [OF d, of "\<lambda>x. cell x q"] that by (simp add: cell_set_cell)
  moreover have "db_collections db1 = db_collections db" "db_aliases db1 = db_aliases db"
    by (subst d, simp)+
  ultimately show ?thesis
    using b r maintained_fields(1,2) [OF m] maintained_reg_inv [OF m i] by (auto simp: batch_applied_def Let_def)
qed

text \<open>
  C12. An acknowledged batch on a handle of an open database is one log entry and one update of the map from ids to points:
  every point is stored as prepared, later points of the batch replace earlier ones of the same id, no other collection, name
  or alias changes, and all of it outlives the checkpoint and the vacuum that the write may have driven.
\<close>

theorem upsert_acknowledged:
  assumes "reg_inv db" and "r < length (db_cells db)" and "length points \<le> room (cl_data (cell db r))"
    and "handle_upsert_batch D V Q points r (db, s) = (Inr (), db', s')"
  shows "\<exists>ps. mapR (prepare_inner (ev_json_len V) (cl_config (cell db r)) False) points = Inr ps
    \<and> coll_contents (cell db' r) = coll_contents (cell db r) ++ map_of (rev (map (\<lambda>p. (pp_id p, prepared_contents p)) ps))
    \<and> (\<forall>q < length (db_cells db). q \<noteq> r \<longrightarrow> coll_contents (cell db' q) = coll_contents (cell db q))
    \<and> db_collections db' = db_collections db \<and> db_aliases db' = db_aliases db \<and> reg_inv db'
    \<and> (\<exists>db1 s1. db_after_write D (ev_emb V) Q (db1, s1) = (Inr (), db', s')
        \<and> (if cl_persistent (cell db r)
           then \<exists>b. wal_encode (wm_points (ev_wal V)) points = Inr b \<and> ev_log V (cl_coll_id (cell db r)) UpsertBatch b s = (Inr (), s1)
           else s1 = s))"
proof -
  obtain db1 s1 where b: "batch_applied V points r (db, s) (db1, s1)" "reg_inv db1" "db_after_write D (ev_emb V) Q (db1, s1) = (Inr (), db', s')"
    using upsert_steps [OF assms] by auto
  have "if cl_persistent (cell db r)
      then \<exists>b. wal_encode (wm_points (ev_wal V)) points = Inr b \<and> ev_log V (cl_coll_id (cell db r)) UpsertBatch b s = (Inr (), s1)
      else s1 = s"
    using b(1) unfolding batch_applied_def Let_def fst_conv snd_conv by blast
  with applied_and_maintained [OF b(1,2) assms(2) b(3)] b(3) show ?thesis by blast
qed


text \<open>The same of a batch delete: what was removed stays removed, and the count is of the points that were live.\<close>

lemma delete_acknowledged:
  assumes i: "reg_inv db" and r: "r < length (db_cells db)"
    and h: "handle_delete_batch D V Q keys r (db, s) = (Inr n, db', s')"
  shows "coll_contents (cell db' r) = coll_contents (cell db r) |` (- set keys)
    \<and> n = card (set keys \<inter> dom (coll_contents (cell db r))) \<and> reg_inv db'"
proof -
  let ?f = "delete_batch_step (wm_ids (ev_wal V)) (ev_log V) keys"
  obtain r1 c s1 where u: "?f (cell db r) s = (r1, c, s1)" by (cases "?f (cell db r) s")
  obtain r2 v where a: "db_after_write D (ev_emb V) Q (set_cell r c db, s1) = (r2, db', s')" and v: "r1 = Inr v" "Inr n = tryR r2 (\<lambda>_. Inr v)"
    using handle_write_cases [where f = ?f, OF h [unfolded handle_delete_batch_def] u] by (cases r1) auto
  have r1: "r1 = Inr n" using v by (cases r2) simp_all
  have g: "\<not> cl_deleted (cell db r)"
    using u r1 by (auto simp: delete_batch_step_def guard_def split: if_splits sum.splits)
  note ci = cells_inv [OF i r g]
  have c: "coll_contents c = coll_contents (cell db r) |` (- set keys) \<and> n = card (set keys \<inter> dom (coll_contents (cell db r))) \<and> coll_inv c"
    using delete_cases [OF u] delete_inv [OF ci u] ci r1 by (auto simp: coll_contents_def coll_inv_def tombstone_all_facts)
  have "same_handle (cell db r) c" using delete_cases [OF u] by (auto simp: same_handle_def)
  then have i1: "reg_inv (set_cell r c db)" using reg_inv_set_cell [OF i, of c r] c by blast
  note m = db_after_write_maintained [OF i1 a]
  show ?thesis using maintained_cell(5) [OF m, of r] maintained_reg_inv [OF m i1] c r by (simp add: cell_set_cell)
qed

subsection \<open>Refitting\<close>

lemma embedders_cell [simp]: "cell (set_embedder n e db) r = cell db r" "db_cells (set_embedder n e db) = db_cells db"
  "db_embedders (set_embedder n e db) = (db_embedders db)[n := e]"
  by (simp_all add: set_embedder_def)

lemma reg_inv_embedder: "reg_inv db \<Longrightarrow> reg_inv (set_embedder n e db)"
  by (simp add: set_embedder_def)

lemma reembedded_idle:
  assumes "coll_inv c" "text_documents (cl_data c) = []"
  shows "reembedded ops e c c"
proof -
  have "stored_text (snd (snd x)) = None" if x: "coll_contents c key = Some x" for key x
  proof (rule ccontr)
    assume "stored_text (snd (snd x)) \<noteq> None"
    then obtain t payload where p: "snd (snd x) = Some payload" "stored_text (Some payload) = Some t"
      by (cases "snd (snd x)") (auto simp: stored_text_def payload_lookup_def)
    have ids: "ids_ok (cl_data c)" using assms(1) by (simp add: coll_inv_def data_inv_def)
    have "(key, t, payload) \<in> set (text_documents (cl_data c))"
      unfolding documents_contents [OF ids] using x p by blast
    then show False using assms(2) by simp
  qed
  then show ?thesis by (auto simp: reembedded_def reembed_def split: option.splits)
qed

lemma reembedded_cong: "coll_contents c2 = coll_contents c1 \<Longrightarrow> reembedded ops e c c2 = reembedded ops e c c1"
  by (simp only: reembedded_def)

lemma write_points_reembeds:
  assumes i: "reg_inv db" and r: "r < length (db_cells db)"
    and fits: "length (text_documents (cl_data (cell db r))) \<le> room (cl_data (cell db r))"
    and p: "mapR (refit_point ops e (co_dimension (cl_config (cell db r)))) (text_documents (cl_data (cell db r))) = Inr points"
    and h: "handle_write_points D V Q points r (db, s) = (Inr (), db', s')"
  shows "reembedded ops e (cell db r) (cell db' r) \<and> (\<forall>q < length (db_cells db). q \<noteq> r \<longrightarrow> coll_contents (cell db' q) = coll_contents (cell db q))
    \<and> reg_inv db' \<and> db_embedders db' = db_embedders db \<and> length (db_cells db') = length (db_cells db)"
proof -
  let ?f = "upsert_batch_step (ev_json_len V) (wm_points (ev_wal V)) (ev_log V) True points"
  obtain r1 c s1 where u: "?f (cell db r) s = (r1, c, s1)" by (cases "?f (cell db r) s")
  obtain r2 where r1: "r1 = Inr ()" and a: "db_after_write D (ev_emb V) Q (set_cell r c db, s1) = (r2, db', s')"
    using handle_write_cases [where f = ?f, OF h [unfolded handle_write_points_def] u] by (cases r1) auto
  have g: "\<not> cl_deleted (cell db r)"
    using u r1 by (auto simp: upsert_batch_step_def guard_def split: if_splits sum.splits)
  note w = refit_points_stored [OF cells_inv [OF i r g] fits p u [unfolded r1]]
  have "same_handle (cell db r) c" using upsert_inner_cases [OF u] by (auto simp: same_handle_def)
  then have i1: "reg_inv (set_cell r c db)" using reg_inv_set_cell [OF i] w by blast
  note m = db_after_write_maintained [OF i1 a]
  have k: "coll_contents (cell db' q) = coll_contents (cell (set_cell r c db) q)" if "q < length (db_cells db)" for q
    using maintained_cell(5) [OF m] that by simp
  have q: "coll_contents (cell db' r) = coll_contents c" using k [OF r] r by (simp add: cell_set_cell)
  have "reembedded ops e (cell db r) (cell db' r)" using conjunct1 [OF w] unfolding reembedded_cong [OF q] .
  moreover have "\<forall>q < length (db_cells db). q \<noteq> r \<longrightarrow> coll_contents (cell db' q) = coll_contents (cell db q)"
    using k by (simp add: cell_set_cell)
  ultimately show ?thesis using maintained_reg_inv [OF m i1] maintained_fields(5,7) [OF m] by simp
qed

text \<open>
  C23. A refit on a handle of an open database that succeeds has fitted the embedder of the collection on the texts of its
  documents and embedded every document anew: the stored points are those of before, a point without a text unchanged, a document
  with the vector and the lane that the fitted embedder gives its text, prepared for the metric, and with its whole payload. The
  points of other collections are as before, and the registry keeps its invariant.
\<close>

theorem refit_reembeds_documents:
  assumes "reg_inv db" and "r < length (db_cells db)"
    and "length (text_documents (cl_data (cell db r))) \<le> room (cl_data (cell db r))"
    and "handle_refit D V Q r (db, s) = (Inr (), db', s')"
  shows "\<exists>n emb. text_embedder (cell db r) = Inr n \<and> db_embedders db' = (db_embedders db)[n := emb]
    \<and> (if text_documents (cl_data (cell db r)) = [] then emb = db_embedders db ! n
       else em_fit (ev_emb V) (db_embedders db ! n) (map (\<lambda>d. fst (snd d)) (text_documents (cl_data (cell db r)))) = Inr emb)
    \<and> reembedded (ev_emb V) emb (cell db r) (cell db' r)
    \<and> (\<forall>q < length (db_cells db). q \<noteq> r \<longrightarrow> coll_contents (cell db' q) = coll_contents (cell db q)) \<and> reg_inv db'"
proof -
  let ?c = "cell db r" let ?docs = "text_documents (cl_data ?c)"
  obtain n where n: "text_embedder ?c = Inr n" "\<not> cl_deleted ?c" and h: "handle_do_refit D V Q r (db, s) = (Inr (), db', s')"
    using assms(4) by (auto simp: handle_refit_def guard_def split: sum.splits if_splits)
  have e: "embedder_ready ?c = Some n"
    using n(1) by (auto simp: text_embedder_def embedder_ready_def Let_def split: embedder_slot.splits)
  show ?thesis
  proof (cases "?docs = []")
    case True
    then have "db' = db" using h by (simp add: handle_do_refit_def e)
    then show ?thesis using n True reembedded_idle [OF cells_inv [OF assms(1,2) n(2)] True] assms(1) by auto
  next
    case False
    obtain emb points db1 s1 s2 where f: "em_fit (ev_emb V) (db_embedders db ! n) (map (\<lambda>d. fst (snd d)) ?docs) = Inr emb"
      and p: "mapR (refit_point (ev_emb V) emb (co_dimension (cl_config ?c))) ?docs = Inr points"
      and w: "handle_write_points D V Q points r (set_embedder n emb db, s) = (Inr (), db1, s1)"
      and d: "db' = on_cell r (\<lambda>c. c\<lparr>cl_text_dirty := False\<rparr>) db1"
      using h False e by (auto simp: handle_do_refit_def Let_def split: sum.splits prod.splits if_splits)
    note k = write_points_reembeds [OF reg_inv_embedder [OF assms(1)] _ _ _ w, of "ev_emb V" emb, simplified, OF assms(2,3) p]
    have c: "cell db' q = (if q = r then (cell db1 r)\<lparr>cl_text_dirty := False\<rparr> else cell db1 q)" for q
      using k assms(2) by (simp add: d on_cell_def cell_set_cell)
    have same: "coll_contents (cell db' q) = coll_contents (cell db1 q)" for q by (simp add: c coll_contents_def)
    have "same_handle (cell db1 r) ((cell db1 r)\<lparr>cl_text_dirty := False\<rparr>)" by (simp add: same_handle_def)
    moreover have "\<not> cl_deleted (cell db1 r) \<Longrightarrow> coll_inv ((cell db1 r)\<lparr>cl_text_dirty := False\<rparr>)"
      using cells_inv [of db1 r] k assms(2) by (simp add: coll_inv_def)
    ultimately have "reg_inv db'" using reg_inv_set_cell [of db1 "(cell db1 r)\<lparr>cl_text_dirty := False\<rparr>" r] k by (simp add: d on_cell_def)
    moreover have "db_embedders db' = (db_embedders db)[n := emb]" using k by (simp add: d on_cell_def)
    moreover have "reembedded (ev_emb V) emb ?c (cell db' r)" using k by (simp only: reembedded_cong [OF same])
    ultimately show ?thesis using n f False k same by auto
  qed
qed

subsection \<open>Small databases\<close>

text \<open>A checkpoint is due after every write and fails, since no configuration can be encoded: the caller gets its error.\<close>

definition due_env :: "(unit, durable) env" where
  "due_env = (one_file no_msgpack)\<lparr>ev_emb := unit_embedder,
     ev_wal := (ev_wal (one_file no_msgpack :: (unit, durable) env))\<lparr>wm_points := one_doc [demo_point]\<rparr>\<rparr>"

abbreviation due_disk :: disk_env where
  "due_disk \<equiv> (one_env no_msgpack)\<lparr>de_config := no_msgpack\<rparr>"

lemma due_write:
  obtains s1 where "user_upsert_step (ev_json_len due_env) (wm_points (ev_wal due_env)) (ev_log due_env) [demo_point] (cell logged_db 0)
      (one_ps\<lparr>ps_checkpoint_wired := wired\<rparr>, Map.empty) = (Inr (), demo_full\<lparr>cl_persistent := True\<rparr>, s1)"
    "wal_over s1" "ps_checkpoint_wired (fst s1) = wired"
proof -
  have c: "cell logged_db 0 = demo_coll\<lparr>cl_persistent := True\<rparr>" by (simp add: cell_def logged_db_def)
  obtain s1 where l: "ps_append (one_env no_msgpack) 1 UpsertBatch [0xc0] (one_ps\<lparr>ps_checkpoint_wired := wired\<rparr>, Map.empty) = (Inr (), s1)"
    "fst s1 = (fst s1)\<lparr>ps_wal_size_limit := 0, ps_checkpoint_wired := wired\<rparr>"
    by (simp add: ps_append_def one_ps_def wal_append_def entry_encode_def Let_def set_wal_file_def case_prod_beta wal_file_def)
  have "user_upsert_step (ev_json_len due_env) (wm_points (ev_wal due_env)) (ev_log due_env) [demo_point] (cell logged_db 0)
      (one_ps\<lparr>ps_checkpoint_wired := wired\<rparr>, Map.empty) = (Inr (), demo_full\<lparr>cl_persistent := True\<rparr>, s1)"
    using demo_prepare [of False] l(1)
    by (simp add: c user_upsert_step_def upsert_batch_step_def demo_coll_def guard_def encode_wal_def coll_log_def demo_full_def due_env_def
        one_file_def wal_encode_def ok_or_def options_new_def del: mapR.simps)
  moreover have "ps_wal_size_limit (fst s1) = 0" "ps_checkpoint_wired (fst s1) = wired"
    by (subst l(2), simp)+
  ultimately show thesis using that by (simp add: wal_over_def)
qed

lemma due_db: "length (db_cells logged_db) = 1" "db_persistent logged_db" "db_collections logged_db = [(''c'', 0)]"
  "db_aliases logged_db = []" "cell logged_db 0 = demo_coll\<lparr>cl_persistent := True\<rparr>" "reg_inv logged_db"
proof -
  show l: "length (db_cells logged_db) = 1" "db_persistent logged_db" "db_collections logged_db = [(''c'', 0)]"
    "db_aliases logged_db = []" "cell logged_db 0 = demo_coll\<lparr>cl_persistent := True\<rparr>"
    by (simp_all add: logged_db_def memory_def cell_def)
  have "coll_inv (demo_coll\<lparr>cl_persistent := True\<rparr>)" using demo_inv(1) by (simp add: coll_inv_def)
  then show "reg_inv logged_db"
    by (auto simp: reg_defs l logged_db_def memory_def demo_coll_def cell_def nth_Cons split: nat.splits)
qed

lemma due_fits: "length [demo_point] \<le> room (cl_data (cell logged_db 0))"
  using demo_inv(2) by (simp add: due_db)

theorem upsert_acknowledged_witness:
  "\<exists>db' s'. handle_upsert_batch due_disk due_env no_quantizers [demo_point] 0 (logged_db, one_ps\<lparr>ps_checkpoint_wired := False\<rparr>, Map.empty)
       = (Inr (), db', s')
     \<and> coll_contents (cell db' 0) ''a'' = Some ([0x3F800000, 0], None, None)"
proof -
  obtain s1 where u: "user_upsert_step (ev_json_len due_env) (wm_points (ev_wal due_env)) (ev_log due_env) [demo_point] (cell logged_db 0)
      (one_ps\<lparr>ps_checkpoint_wired := False\<rparr>, Map.empty) = (Inr (), demo_full\<lparr>cl_persistent := True\<rparr>, s1)"
    "ps_checkpoint_wired (fst s1) = False" by (rule due_write)
  then have h: "handle_upsert_batch due_disk due_env no_quantizers [demo_point] 0 (logged_db, one_ps\<lparr>ps_checkpoint_wired := False\<rparr>, Map.empty)
      = (Inr (), set_cell 0 (demo_full\<lparr>cl_persistent := True\<rparr>) logged_db, s1)"
    by (simp add: handle_upsert_batch_def handle_write_def with_cell_def db_after_write_def due_db after_write_def)
  show ?thesis
    using upsert_acknowledged [OF due_db(6) _ due_fits h] h demo_prepare [of False]
    by (simp add: due_db demo_coll_def due_env_def one_file_def demo_prepared_def prepared_contents_def)
qed


definition text_db :: "(unit, unit) database" where
  "text_db = memory\<lparr>db_next_coll_id := 2, db_cells := [text_coll], db_collections := [(''c'', 0)], db_embedders := [()]\<rparr>"

lemma text_db_facts: "length (db_cells text_db) = 1" "\<not> db_persistent text_db" "cell text_db 0 = text_coll" "db_embedders text_db = [()]"
    "reg_inv text_db"
proof -
  show l: "length (db_cells text_db) = 1" "\<not> db_persistent text_db" "cell text_db 0 = text_coll" "db_embedders text_db = [()]"
    by (simp_all add: text_db_def memory_def cell_def)
  show "reg_inv text_db"
    using text_coll_inv(1) l
    by (auto simp: reg_defs text_db_def memory_def text_coll_def demo_coll_def cell_def nth_Cons split: nat.splits)
qed

lemma text_refit:
  "\<exists>db'. handle_refit due_disk due_env no_quantizers 0 (text_db, one_ps, Map.empty) = (Inr (), db', one_ps, Map.empty)"
proof -
  have f: "\<not> f32_eq 0x3F800000 0" "f32_eq 0 0" by code_simp+
  have p: "refit_point unit_embedder () 2 (''a'', ''cow'', JObj [(''_text'', JStr ''cow'')]) = Inr text_point"
    by (simp add: refit_point_def embed_nonzero_def unit_embedder_def sparse_from_dense_def f text_point_def)
  have k: "embedder_ready text_coll = Some 0" "text_embedder text_coll = Inr 0" "guard text_coll = Inr ()"
    by (simp_all add: text_coll_def demo_coll_def embedder_ready_def text_embedder_def guard_def)
  have d: "co_dimension (cl_config text_coll) = 2" by (simp add: text_coll_inv(2) options_new_def)
  have e: "em_fit unit_embedder () x = Inr ()" for x by (simp add: unit_embedder_def)
  have v: "ev_emb due_env = unit_embedder" "ev_json_len due_env = (\<lambda>_. 0)" by (simp_all add: due_env_def one_file_def)
  have l: "log_vocab due_env () (text_coll\<lparr>cl_data := x\<rparr>) s = (Inr (), s)" for x s
    by (simp add: log_vocab_def text_coll_def demo_coll_def)
  have "handle_do_refit due_disk due_env no_quantizers 0 (text_db, one_ps, Map.empty)
      = lifted 0 text_db (do_refit_step due_env text_coll [()] (one_ps, Map.empty))"
    using memory_do_refit [of text_db 0 due_disk due_env no_quantizers "(one_ps, Map.empty)"] by (simp add: text_db_facts k)
  then show ?thesis
    by (simp add: handle_refit_def text_db_facts k do_refit_step_def text_coll_documents v d e p text_upsert l)
qed

theorem refit_reembeds_documents_witness:
  "\<exists>db' x. handle_refit due_disk due_env no_quantizers 0 (text_db, one_ps, Map.empty) = (Inr (), db', one_ps, Map.empty)
     \<and> coll_contents (cell text_db 0) ''a'' = Some ([0, 0x3F800000], x)
     \<and> coll_contents (cell db' 0) ''a''
         = Some ([0x3F800000, 0], Some \<lparr>sv_indices = [0], sv_values = [0x3F800000]\<rparr>, Some (JObj [(''_text'', JStr ''cow'')]))"
proof -
  have f: "\<not> f32_eq 0x3F800000 0" "f32_eq 0 0" by code_simp+
  obtain db' where h: "handle_refit due_disk due_env no_quantizers 0 (text_db, one_ps, Map.empty) = (Inr (), db', one_ps, Map.empty)"
    using text_refit by blast
  have k: "text_embedder text_coll = Inr 0" "ev_emb due_env = unit_embedder"
    by (simp_all add: text_coll_def demo_coll_def text_embedder_def due_env_def)
  have k': "coll_contents text_coll ''a'' = Some (pp_vector text_stale, pp_sparse text_stale, pp_payload text_stale)"
  proof -
    have "data_inv 2 (cl_data demo_coll)" using demo_inv(1) by (simp add: coll_inv_def demo_coll_def options_new_def)
    then have "contents 2 (cl_data text_coll) ''a'' = Some (prepared_contents text_stale)"
      using demo_inv apply_prepared_facts [of 2 "cl_data demo_coll" "[text_stale]"]
      by (simp add: text_coll_def text_stale_def text_prepared_def)
    then show ?thesis by (simp add: coll_contents_def text_coll_inv(2) options_new_def prepared_contents_def)
  qed
  have "reembedded unit_embedder () text_coll (cell db' 0)"
    using refit_reembeds_documents [OF text_db_facts(5) _ _ h] by (auto simp: text_db_facts text_coll_documents text_coll_inv(3) k)
  moreover have "reembed unit_embedder () (cl_config text_coll) ''a'' (pp_vector text_stale, pp_sparse text_stale, pp_payload text_stale)
      = Inr ([0x3F800000, 0], Some \<lparr>sv_indices = [0], sv_values = [0x3F800000]\<rparr>, Some (JObj [(''_text'', JStr ''cow'')]))"
    by (simp add: reembed_def text_stale_def text_prepared_def stored_text_def payload_lookup_def embed_nonzero_def unit_embedder_def
        text_coll_inv(2) options_new_def prepare_vector_def sparse_from_dense_def f)
  ultimately have "coll_contents (cell db' 0) ''a''
      = Some ([0x3F800000, 0], Some \<lparr>sv_indices = [0], sv_values = [0x3F800000]\<rparr>, Some (JObj [(''_text'', JStr ''cow'')]))"
    using k' by (auto simp: reembedded_def dest: spec [where x = "''a''"])
  moreover have "pp_vector text_stale = [0, 0x3F800000]" by (simp add: text_stale_def)
  ultimately show ?thesis using h k' by (simp add: text_db_facts)
qed

end
