(* ===== verification/Spec2Isabelle.thy ===== *)
theory Spec2Isabelle
  imports Pager Filter_Index Chunks Scrolling Search_Props Recovery Inspection_Props Queries Quantizers Product_Props Text_Providers Svd Vecdb_Props Sessions
begin

text \<open>
  VecLite is an embedded vector database: named collections of points (an id, a dense vector, an optional sparse vector, an
  optional JSON payload) kept in memory, searched by similarity, filtered by payload, and made durable in one file with a
  write-ahead log beside it. This library models its engine crate, \<^verbatim>\<open>src/crates/veclite/src\<close>, as functions on explicit states
  and proves what the parts promise each other and the caller.

  \<^bold>\<open>Parts and theories\<close>, bottom up. Paths are below \<^verbatim>\<open>crates/veclite/src\<close>; a definition keeps the name of the function it
  translates wherever Isabelle allows it.

  \<^item> \<open>Prelude\<close>, \<open>Errors\<close>, \<open>Floats\<close>, \<open>Float_Facts\<close>, \<open>Utf8\<close>, \<open>Files\<close>: results as sums with the combinators \<open>tryR\<close>, \<open>mapR\<close> and \<open>foldR\<close> for
    the question mark, collecting and folding; \<open>error.rs\<close>; IEEE 754 on bit patterns (a float is its \<open>32 word\<close> or \<open>64 word\<close>,
    with rounding written out); strings as lists of characters with their UTF-8 bytes; files as byte lists, with the
    list of disk operations and the states a crash can leave.
  \<^item> \<open>Le_Bytes\<close>, \<open>Byte_Tags\<close>, \<open>Item_Codecs\<close>: the interfaces of the codecs as locales (\<open>le_field\<close>, \<open>byte_tag\<close>, \<open>item_codec\<close>,
    \<open>counted_codec\<close>), interpreted on every codec of the format. \<open>Compression\<close>, \<open>Segments\<close>, \<open>Headers\<close>, \<open>Tocs\<close>, \<open>Iddir\<close>, \<open>Vectors\<close>,
    \<open>Msgpack_Guard\<close>, \<open>Msgpack\<close>, \<open>Bodies\<close>: the file format (\<open>storage/\<close>). \<open>Image\<close> is a database as one byte string, \<open>Pager\<close> the
    file with its commit sequence, \<open>Mmap\<close> the mapped read path, \<open>Wal\<close> and \<open>Wal_Bodies\<close> the log and its entries.
  \<^item> \<open>Options\<close>, \<open>Points\<close>, \<open>Filters\<close>, \<open>Filter_Index\<close>, \<open>Chunks\<close>, \<open>Simd\<close>, \<open>Hnsw\<close>: \<open>options.rs\<close> and \<open>persist/config.rs\<close>, \<open>point.rs\<close>,
    \<open>filter/\<close>, \<open>chunk.rs\<close>, \<open>simd/\<close>, \<open>index/mod.rs\<close>.
  \<^item> \<open>Embedders\<close>, \<open>Vocabularies\<close>, \<open>Providers\<close>, \<open>Provider_Props\<close>, \<open>Text_Providers\<close>, \<open>Svd\<close>: the text providers of \<open>embedding/\<close>; the
    contract \<open>sized_embedder\<close>, a provider keeps the dimension it was made for, is interpreted on each of them.
    \<open>Quantize\<close>, \<open>Quantize_Props\<close>, \<open>Product\<close>, \<open>Product_Props\<close>, \<open>Quantization_Method\<close>, \<open>Quantizers\<close>: the codes of \<open>quantization/\<close>,
    their trait as the locale \<open>quantization_method\<close>, and what a collection does with them.
  \<^item> \<open>Collections\<close>, \<open>Collection_Ops\<close>, \<open>Maintenance\<close>, \<open>Search\<close>, \<open>Text_Ops\<close>: \<open>collection.rs\<close>. The record \<open>collection_data\<close> has the
    fields of \<open>CollectionData\<close>; an operation takes the record \<open>collection\<close> (\<open>CollectionInner\<close>) and the state of the log and
    returns them changed. The ones that log end before \<open>after_write\<close> and are called steps (\<open>upsert_batch_step\<close>). \<open>Keyed_Store\<close> is
    the abstract contract of such a store; \<open>Collection_Inv\<close> has the invariant and the abstraction to a map from ids to contents and interprets the contract; \<open>Collection_Props\<close>, \<open>Scrolling\<close> and \<open>Search_Props\<close>
    prove the operations against it.
  \<^item> \<open>Seal\<close>, \<open>Mapped_Base\<close>: \<open>persist/seal.rs\<close> and installing what was loaded. \<open>Registry\<close>, \<open>Registry_Inv\<close>, \<open>Recovery\<close>:
    \<open>database.rs\<close>, the named collections (cells addressed by number, so that a handle survives a rename), their invariant,
    and the replay of the log. \<open>Persistence\<close> is \<open>persist/mod.rs\<close>, one journal over a map from paths to bytes; \<open>Durable\<close> the
    operations of \<open>database.rs\<close> that tie the registry to the file; \<open>Reopen\<close> composes sealing, committing, opening and installing.
  \<^item> \<open>Sessions\<close>: the operations of a handle on an open database (\<open>handle_upsert_batch\<close> is \<open>Collection::upsert_batch\<close>), a
    step of the collection with the checkpoint and the vacuum a write drives, the text operations and the refit included.
  \<^item> \<open>Queries\<close>: the builders of \<open>query.rs\<close> and \<open>hybrid.rs\<close>. \<open>Rendering\<close>, \<open>Inspection\<close>, \<open>Inspection_Props\<close>: \<open>interop/verify.rs\<close> and
    \<open>interop/inspect.rs\<close>, the diagnosis of a file. \<open>Vecdb_Model\<close>, \<open>Vecdb_Vocab\<close>, \<open>Vecdb_Export\<close>, \<open>Vecdb_Import\<close>, \<open>Vecdb_Props\<close>: the
    exchange with a server data directory, the other files of \<open>interop/\<close>.

  \<^bold>\<open>What is shown.\<close> Codecs: each decoder inverts its encoder, refuses what it must, and reads within bounds. Files: a crash
  at any moment of a commit leaves the old or the new chain; a log without a torn tail recovers every append whose bytes are
  complete, those acknowledged under full durability among them (behind a torn tail appends are lost); an image is read back
  as it was written. Collections: every reachable collection satisfies the invariant; writes refine the keyed store; a batch
  write on an open database is logged once and applied in order, and one answered with an error changed nothing or met its
  error in the checkpoint behind it; a refit embeds every document again under the vocabulary it fitted; maintenance keeps
  the contents; search hits are live, matching, scored for their own slot, ranked and within the limit, and on the exact paths
  equal to the sorted list, with an index when the indexed values are of the declared kind; paging ends and lists each point
  once. Registry: consistent in every state reached from a consistent one, with the exception that a name may shadow an alias;
  replaying the log of a run rebuilds the collections, for runs without a provider, without a refused creation and with bodies
  the codec carries; collections that a checkpoint seals reopen to the same contents, cosine vectors normalized once more.
  Diagnosis: a file verifies clean if and only if the file layer opens it and its live segments load; every damaged segment is
  named; the file of a checkpoint is clean. The reopening and the clean file are shown for checkpoints that seal every
  collection and no provider. Providers and codes: vectors have the dimension asked for in every state
  that was learned or imported from an export; learning moves no term; a fit counts exactly and keeps the terms ranked first;
  packed codes decode with the kept parameters to the levels they encode; for vectors of its dimension and up to 256 centroids
  the training of product codes ends and yields nearest centroids.
  Exchange: what an export writes an import reads back, collection by collection and vocabulary by vocabulary, without the
  sparse lanes, for the values the JSON package reads back as it wrote them.
  Where the code does not keep what it means to keep, the failing behaviour is a theorem of its own.

  \<^bold>\<open>Recursion.\<close> Loops are structural recursions or have a measure (the buffer left to read, the slots left to page through);
  no definition uses fuel beyond a bound of the source itself: the training of product codes stops after 100 rounds, the argument
  of \<open>kmeans\<close>. Sizes that the code keeps in \<open>usize\<close> are natural numbers; where a 64-bit wrap or overflow check
  matters it is written out, and the bounds below \<open>2 ^ 64\<close> are hypotheses of the theorems that need them.

  \<^bold>\<open>Parameters.\<close> Packages the repository does not contain are arguments: the compressors, CRC-32, xxHash, MessagePack
  (\<open>rmp_serde\<close>), the roaring bitmaps, the graph search (\<open>hnsw_rs\<close>), the text form of a JSON value and its digest, the
  server's archive, the Unicode tables, the natural logarithm, the hash of a corpus, the seeds of a training, the clock, fresh
  identifiers, file locks. What a theorem relies on is a hypothesis on the argument, for the values it is used on (a document
  survives its encoding, a compressor inverts its own output), and every witness instantiates it.

  \<^bold>\<open>Not modelled.\<close> Locks, threads and the races between them (each operation runs alone). The provider over ONNX models
  (\<open>embedding/fastembed.rs\<close>, off by default), which only calls its package. The bindings for C, Python, Node and WebAssembly, the
  command line and the development tasks, which translate calls and data and keep no state of the engine. The fuzzing entry
  points, the recall harness and \<open>storage/gates.rs\<close>, which are tests.
\<close>

end
